(* ===== verification/ZnsZone.thy ===== *)
theory ZnsZone
  imports Prelude
begin

text \<open>
  The zoned namespace of the emulated controller: \<open>src/zns/zns.h\<close> and the first part of
  \<open>src/zns/zns.c\<close> (zone lookup, geometry, initial zone state, identify data, the counters
  of open and active resources, and the primitive that moves a zone from one state to another).

  A zone pointer is the zone's index in \<open>zone_array\<close>. The four tail queues threaded through
  \<open>NvmeZone.entry\<close> are lists of zone indices: an element is in use when it is on one of
  them, removing an element from a queue it is not on and inserting an element that is in use
  are aborts. \<open>cpu_to_le*\<close> and \<open>le*_to_cpu\<close> are the identity (little-endian host).
\<close>

section \<open>Data\<close>

record NvmeZoneDescr =
  d_zt :: nat
  d_zs :: nat
  d_za :: nat
  d_zcap :: nat
  d_zslba :: nat
  d_wp :: nat

record NvmeZone = NvmeZoneDescr +
  w_ptr :: nat

datatype NvmeZoneState =
    NVME_ZONE_STATE_RESERVED
  | NVME_ZONE_STATE_EMPTY
  | NVME_ZONE_STATE_IMPLICITLY_OPEN
  | NVME_ZONE_STATE_EXPLICITLY_OPEN
  | NVME_ZONE_STATE_CLOSED
  | NVME_ZONE_STATE_READ_ONLY
  | NVME_ZONE_STATE_FULL
  | NVME_ZONE_STATE_OFFLINE

fun zone_state_code :: "NvmeZoneState \<Rightarrow> nat" where
  "zone_state_code NVME_ZONE_STATE_RESERVED = 0x00"
| "zone_state_code NVME_ZONE_STATE_EMPTY = 0x01"
| "zone_state_code NVME_ZONE_STATE_IMPLICITLY_OPEN = 0x02"
| "zone_state_code NVME_ZONE_STATE_EXPLICITLY_OPEN = 0x03"
| "zone_state_code NVME_ZONE_STATE_CLOSED = 0x04"
| "zone_state_code NVME_ZONE_STATE_READ_ONLY = 0x0D"
| "zone_state_code NVME_ZONE_STATE_FULL = 0x0E"
| "zone_state_code NVME_ZONE_STATE_OFFLINE = 0x0F"

text \<open>A nibble no enumerator has is read as reserved: every \<open>switch\<close> of the source sends
  both to its default branch.\<close>

definition zone_state_of_code :: "nat \<Rightarrow> NvmeZoneState" where
  "zone_state_of_code c =
     (if c = 0x01 then NVME_ZONE_STATE_EMPTY
      else if c = 0x02 then NVME_ZONE_STATE_IMPLICITLY_OPEN
      else if c = 0x03 then NVME_ZONE_STATE_EXPLICITLY_OPEN
      else if c = 0x04 then NVME_ZONE_STATE_CLOSED
      else if c = 0x0D then NVME_ZONE_STATE_READ_ONLY
      else if c = 0x0E then NVME_ZONE_STATE_FULL
      else if c = 0x0F then NVME_ZONE_STATE_OFFLINE
      else NVME_ZONE_STATE_RESERVED)"

abbreviation (input) NVME_ZONE_TYPE_SEQ_WRITE :: nat where
  "NVME_ZONE_TYPE_SEQ_WRITE \<equiv> 0x02"

definition NVME_ZA_ZD_EXT_VALID :: nat where
  "NVME_ZA_ZD_EXT_VALID = 2 ^ 7"

datatype nvme_csi = NVME_CSI_NVM | NVME_CSI_ZONED | NVME_CSI_OTHER nat

record NvmeIdNsZoned =
  zoc :: nat
  ozcs :: nat
  mar :: nat
  mor :: nat
  lbafe_zsze :: "nat \<Rightarrow> nat"
  lbafe_zdes :: "nat \<Rightarrow> nat"

text \<open>The status field of a completion: a status code and the do-not-retry bit.\<close>

datatype nvme_sc =
    NVME_SUCCESS
  | NVME_INVALID_OPCODE
  | NVME_INVALID_FIELD
  | NVME_LBA_RANGE
  | NVME_ZONE_BOUNDARY_ERROR
  | NVME_ZONE_FULL
  | NVME_ZONE_READ_ONLY
  | NVME_ZONE_OFFLINE
  | NVME_ZONE_INVALID_WRITE
  | NVME_ZONE_TOO_MANY_ACTIVE
  | NVME_ZONE_TOO_MANY_OPEN
  | NVME_ZONE_INVAL_TRANSITION
  | NVME_NO_COMPLETE
  | NVME_SC_EXTERNAL nat

type_synonym nvme_status = "nvme_sc \<times> bool"

abbreviation OK :: nvme_status where
  "OK \<equiv> (NVME_SUCCESS, False)"

definition dnr :: "nvme_status \<Rightarrow> nvme_status" where
  "dnr st = (fst st, True)"

text \<open>One call of \<open>backend_rw\<close>: byte offset, byte count, is-write.\<close>

datatype backend_call = Backend_rw nat nat bool

text \<open>The fields of \<open>FemuCtrl\<close> and of its only namespace that the sources use.\<close>

record FemuCtrl =
  zoned :: bool
  cross_zone_read :: bool
  zone_size_bs :: nat
  zone_cap_bs :: nat
  zasl_bs :: nat
  max_active_zones :: nat
  max_open_zones :: nat
  zd_extension_size :: nat
  zone_size :: nat
  zone_capacity :: nat
  num_zones :: nat
  zone_size_log2 :: nat
  zone_array :: "NvmeZone list"
  zd_extensions :: "nat list"
  exp_open_zones :: "nat list"
  imp_open_zones :: "nat list"
  closed_zones :: "nat list"
  full_zones :: "nat list"
  nr_open_zones :: int
  nr_active_zones :: int
  page_size :: nat
  mdts :: nat
  zasl :: nat
  csi :: nvme_csi
  id_ns_zoned :: "NvmeIdNsZoned option"
  ns_size :: nat
  lbads :: nat
  nsze :: nat
  ncap :: nat
  nuse :: nat
  npdg :: nat
  nsfeat :: nat
  err_rec_dulbe :: bool
  backend_calls :: "backend_call list"

text \<open>Functions of QEMU that the controller calls and whose source is not in the repository.\<close>

record host_utils =
  is_power_of_2 :: "nat \<Rightarrow> bool"
  clz64 :: "nat \<Rightarrow> nat"
  clz32 :: "nat \<Rightarrow> nat"

section \<open>Small helpers of zns.h\<close>

definition zns_ns_lbads :: "FemuCtrl \<Rightarrow> nat" where
  "zns_ns_lbads n = lbads n"

definition zns_ns_nlbas :: "FemuCtrl \<Rightarrow> nat" where
  "zns_ns_nlbas n = ns_size n div 2 ^ zns_ns_lbads n"

definition zns_l2b :: "FemuCtrl \<Rightarrow> nat \<Rightarrow> nat" where
  "zns_l2b n lba = u64 (lba * 2 ^ zns_ns_lbads n)"

definition zns_get_zone_state :: "NvmeZone \<Rightarrow> NvmeZoneState" where
  "zns_get_zone_state zone = zone_state_of_code (d_zs zone div 2 ^ 4)"

definition zns_set_zone_state :: "NvmeZone \<Rightarrow> NvmeZoneState \<Rightarrow> NvmeZone" where
  "zns_set_zone_state zone state = zone\<lparr>d_zs := u8 (zone_state_code state * 2 ^ 4)\<rparr>"

definition zns_zone_rd_boundary :: "FemuCtrl \<Rightarrow> NvmeZone \<Rightarrow> nat" where
  "zns_zone_rd_boundary n zone = u64 (d_zslba zone + zone_size n)"

definition zns_zone_wr_boundary :: "NvmeZone \<Rightarrow> nat" where
  "zns_zone_wr_boundary zone = u64 (d_zslba zone + d_zcap zone)"

definition zns_wp_is_valid :: "NvmeZone \<Rightarrow> bool" where
  "zns_wp_is_valid zone =
     (let st = zns_get_zone_state zone
      in st \<noteq> NVME_ZONE_STATE_FULL \<and> st \<noteq> NVME_ZONE_STATE_READ_ONLY \<and>
         st \<noteq> NVME_ZONE_STATE_OFFLINE)"

definition zns_get_zd_extension :: "FemuCtrl \<Rightarrow> nat \<Rightarrow> nat list" where
  "zns_get_zd_extension n zone_idx =
     take (zd_extension_size n)
       (drop (u32 (zone_idx * zd_extension_size n)) (zd_extensions n))"

definition zns_aor_inc_open :: "FemuCtrl \<Rightarrow> FemuCtrl option" where
  "zns_aor_inc_open n = do {
     assert_c (nr_open_zones n \<ge> 0);
     if max_open_zones n \<noteq> 0 then do {
       let n = n\<lparr>nr_open_zones := nr_open_zones n + 1\<rparr>;
       assert_c (nr_open_zones n \<le> int (max_open_zones n));
       Some n
     } else Some n
   }"

definition zns_aor_dec_open :: "FemuCtrl \<Rightarrow> FemuCtrl option" where
  "zns_aor_dec_open n = do {
     n \<leftarrow> (if max_open_zones n \<noteq> 0 then do {
             assert_c (nr_open_zones n > 0);
             Some (n\<lparr>nr_open_zones := nr_open_zones n - 1\<rparr>)
           } else Some n);
     assert_c (nr_open_zones n \<ge> 0);
     Some n
   }"

definition zns_aor_inc_active :: "FemuCtrl \<Rightarrow> FemuCtrl option" where
  "zns_aor_inc_active n = do {
     assert_c (nr_active_zones n \<ge> 0);
     if max_active_zones n \<noteq> 0 then do {
       let n = n\<lparr>nr_active_zones := nr_active_zones n + 1\<rparr>;
       assert_c (nr_active_zones n \<le> int (max_active_zones n));
       Some n
     } else Some n
   }"

definition zns_aor_dec_active :: "FemuCtrl \<Rightarrow> FemuCtrl option" where
  "zns_aor_dec_active n = do {
     n \<leftarrow> (if max_active_zones n \<noteq> 0 then do {
             assert_c (nr_active_zones n > 0);
             let n = n\<lparr>nr_active_zones := nr_active_zones n - 1\<rparr>;
             assert_c (nr_active_zones n \<ge> nr_open_zones n);
             Some n
           } else Some n);
     assert_c (nr_active_zones n \<ge> 0);
     Some n
   }"

section \<open>Zone lookup, geometry and initial state (zns.c)\<close>

definition NVME_DEFAULT_ZONE_SIZE :: nat where
  "NVME_DEFAULT_ZONE_SIZE = 128 * 1024 * 1024"

definition NVME_DEFAULT_MAX_AZ_SIZE :: nat where
  "NVME_DEFAULT_MAX_AZ_SIZE = 128 * 1024"

text \<open>A division by a zone size of zero is an abort.\<close>

definition zns_zone_idx :: "FemuCtrl \<Rightarrow> nat \<Rightarrow> nat option" where
  "zns_zone_idx n slba =
     (if zone_size_log2 n > 0 then Some (u32 (slba div 2 ^ zone_size_log2 n))
      else if zone_size n = 0 then None
      else Some (u32 (slba div zone_size n)))"

definition zns_get_zone_by_slba :: "FemuCtrl \<Rightarrow> nat \<Rightarrow> nat option" where
  "zns_get_zone_by_slba n slba = do {
     zone_idx \<leftarrow> zns_zone_idx n slba;
     assert_c (zone_idx < num_zones n);
     Some zone_idx
   }"

text \<open>\<open>&zone_array[i]\<close> read or written: outside the array is an abort.\<close>

definition zone_at :: "FemuCtrl \<Rightarrow> nat \<Rightarrow> NvmeZone option" where
  "zone_at n i = (if i < length (zone_array n) then Some (zone_array n ! i) else None)"

definition upd_zone :: "nat \<Rightarrow> (NvmeZone \<Rightarrow> NvmeZone) \<Rightarrow> FemuCtrl \<Rightarrow> FemuCtrl" where
  "upd_zone i f n = n\<lparr>zone_array := (zone_array n)[i := f (zone_array n ! i)]\<rparr>"

definition zns_init_zone_geometry :: "FemuCtrl \<Rightarrow> int \<times> FemuCtrl" where
  "zns_init_zone_geometry n =
     (let lbasz = u32 (2 ^ zns_ns_lbads n);
          zsize = (if zone_size_bs n \<noteq> 0 then zone_size_bs n else NVME_DEFAULT_ZONE_SIZE);
          zcap = (if zone_cap_bs n \<noteq> 0 then zone_cap_bs n else zsize)
      in if zcap > zsize then (-1, n)
         else if zsize < lbasz then (-1, n)
         else if zcap < lbasz then (-1, n)
         else
           let n = n\<lparr>zone_size := zsize div lbasz\<rparr>;
               n = n\<lparr>zone_capacity := zcap div lbasz\<rparr>;
               n = n\<lparr>num_zones := u32 (ns_size n div lbasz div zone_size n)\<rparr>
           in if max_open_zones n > num_zones n then (-1, n)
              else if max_active_zones n > num_zones n then (-1, n)
              else if zd_extension_size n \<noteq> 0 \<and> zd_extension_size n AND 0x3f \<noteq> 0 then (-1, n)
              else if zd_extension_size n \<noteq> 0 \<and> zd_extension_size n div 2 ^ 6 > 0xff then (-1, n)
              else (0, n))"

fun zns_init_zones :: "nat \<Rightarrow> nat \<Rightarrow> nat \<Rightarrow> nat \<Rightarrow> nat \<Rightarrow> NvmeZone list" where
  "zns_init_zones 0 zsize capacity zcap start = []"
| "zns_init_zones (Suc k) zsize capacity zcap start =
     (let zsize = (if u64 (start + zsize) > capacity then sub64 capacity start else zsize);
          zone = \<lparr>d_zt = NVME_ZONE_TYPE_SEQ_WRITE, d_zs = 0, d_za = 0, d_zcap = zcap,
                  d_zslba = start, d_wp = start, w_ptr = start\<rparr>
      in zns_set_zone_state zone NVME_ZONE_STATE_EMPTY
           # zns_init_zones k zsize capacity zcap (u64 (start + zsize)))"

definition zns_init_zoned_state :: "host_utils \<Rightarrow> FemuCtrl \<Rightarrow> FemuCtrl" where
  "zns_init_zoned_state hu n =
     (let capacity = u64 (num_zones n * zone_size n);
          n = (if zd_extension_size n \<noteq> 0
               then n\<lparr>zd_extensions := replicate (u32 (zd_extension_size n * num_zones n)) 0\<rparr>
               else n);
          n = n\<lparr>exp_open_zones := [], imp_open_zones := [], closed_zones := [],
                full_zones := []\<rparr>;
          n = n\<lparr>zone_array := zns_init_zones (num_zones n) (zone_size n) capacity
                               (zone_capacity n) 0\<rparr>
      in n\<lparr>zone_size_log2 := (if is_power_of_2 hu (zone_size n) then 63 - clz64 hu (zone_size n)
                              else 0)\<rparr>)"

definition zns_init_zone_identify :: "host_utils \<Rightarrow> FemuCtrl \<Rightarrow> nat \<Rightarrow> FemuCtrl" where
  "zns_init_zone_identify hu n lba_index =
     (let n = zns_init_zoned_state hu n;
          id = \<lparr>zoc = 0,
                ozcs = (if cross_zone_read n then 0x01 else 0x00),
                mar = sub32 (max_active_zones n) 1,
                mor = sub32 (max_open_zones n) 1,
                lbafe_zsze = (\<lambda>_. 0)(lba_index := zone_size n),
                lbafe_zdes = (\<lambda>_. 0)(lba_index := u8 (zd_extension_size n div 2 ^ 6))\<rparr>;
          n = n\<lparr>csi := NVME_CSI_ZONED\<rparr>;
          n = n\<lparr>nsze := u64 (num_zones n * zone_size n)\<rparr>;
          n = n\<lparr>ncap := nsze n\<rparr>;
          n = n\<lparr>nuse := ncap n\<rparr>;
          n = (if zone_size n mod (npdg n + 1) \<noteq> 0
               then n\<lparr>nsfeat := nsfeat n AND (0xff - 0x4)\<rparr> else n)
      in n\<lparr>id_ns_zoned := Some id\<rparr>)"

section \<open>The zone queues\<close>

definition QTAILQ_IN_USE :: "FemuCtrl \<Rightarrow> nat \<Rightarrow> bool" where
  "QTAILQ_IN_USE n i \<longleftrightarrow>
     i \<in> set (exp_open_zones n) \<or> i \<in> set (imp_open_zones n) \<or>
     i \<in> set (closed_zones n) \<or> i \<in> set (full_zones n)"

definition QTAILQ_REMOVE :: "nat list \<Rightarrow> nat \<Rightarrow> nat list option" where
  "QTAILQ_REMOVE q i = (if i \<in> set q then Some (remove1 i q) else None)"

definition QTAILQ_INSERT_TAIL :: "FemuCtrl \<Rightarrow> nat list \<Rightarrow> nat \<Rightarrow> nat list option" where
  "QTAILQ_INSERT_TAIL n q i = (if QTAILQ_IN_USE n i then None else Some (q @ [i]))"

definition QTAILQ_INSERT_HEAD :: "FemuCtrl \<Rightarrow> nat list \<Rightarrow> nat \<Rightarrow> nat list option" where
  "QTAILQ_INSERT_HEAD n q i = (if QTAILQ_IN_USE n i then None else Some (i # q))"

text \<open>The first \<open>switch\<close> of \<open>zns_assign_zone_state\<close>: unlink from the queue of the
  current state.\<close>

definition zns_unlink_zone :: "FemuCtrl \<Rightarrow> nat \<Rightarrow> NvmeZoneState \<Rightarrow> FemuCtrl option" where
  "zns_unlink_zone n zone st =
     (case st of
        NVME_ZONE_STATE_EXPLICITLY_OPEN \<Rightarrow>
          do { q \<leftarrow> QTAILQ_REMOVE (exp_open_zones n) zone; Some (n\<lparr>exp_open_zones := q\<rparr>) }
      | NVME_ZONE_STATE_IMPLICITLY_OPEN \<Rightarrow>
          do { q \<leftarrow> QTAILQ_REMOVE (imp_open_zones n) zone; Some (n\<lparr>imp_open_zones := q\<rparr>) }
      | NVME_ZONE_STATE_CLOSED \<Rightarrow>
          do { q \<leftarrow> QTAILQ_REMOVE (closed_zones n) zone; Some (n\<lparr>closed_zones := q\<rparr>) }
      | NVME_ZONE_STATE_FULL \<Rightarrow>
          do { q \<leftarrow> QTAILQ_REMOVE (full_zones n) zone; Some (n\<lparr>full_zones := q\<rparr>) }
      | _ \<Rightarrow> Some n)"

text \<open>Its second \<open>switch\<close>: link into the queue of the new state; the full case falls
  through to read-only, every other state clears the attributes.\<close>

definition zns_link_zone :: "FemuCtrl \<Rightarrow> nat \<Rightarrow> NvmeZoneState \<Rightarrow> FemuCtrl option" where
  "zns_link_zone n zone st =
     (case st of
        NVME_ZONE_STATE_EXPLICITLY_OPEN \<Rightarrow>
          do { q \<leftarrow> QTAILQ_INSERT_TAIL n (exp_open_zones n) zone; Some (n\<lparr>exp_open_zones := q\<rparr>) }
      | NVME_ZONE_STATE_IMPLICITLY_OPEN \<Rightarrow>
          do { q \<leftarrow> QTAILQ_INSERT_TAIL n (imp_open_zones n) zone; Some (n\<lparr>imp_open_zones := q\<rparr>) }
      | NVME_ZONE_STATE_CLOSED \<Rightarrow>
          do { q \<leftarrow> QTAILQ_INSERT_TAIL n (closed_zones n) zone; Some (n\<lparr>closed_zones := q\<rparr>) }
      | NVME_ZONE_STATE_FULL \<Rightarrow>
          do { q \<leftarrow> QTAILQ_INSERT_TAIL n (full_zones n) zone; Some (n\<lparr>full_zones := q\<rparr>) }
      | NVME_ZONE_STATE_READ_ONLY \<Rightarrow> Some n
      | _ \<Rightarrow> Some (upd_zone zone (\<lambda>z. z\<lparr>d_za := 0\<rparr>) n))"

definition zns_assign_zone_state :: "FemuCtrl \<Rightarrow> nat \<Rightarrow> NvmeZoneState \<Rightarrow> FemuCtrl option" where
  "zns_assign_zone_state n zone state = do {
     z \<leftarrow> zone_at n zone;
     n \<leftarrow> (if QTAILQ_IN_USE n zone then zns_unlink_zone n zone (zns_get_zone_state z)
           else Some n);
     let n = upd_zone zone (\<lambda>z. zns_set_zone_state z state) n;
     zns_link_zone n zone state
   }"

section \<open>Limits on open and active zones\<close>

definition zns_aor_check :: "FemuCtrl \<Rightarrow> nat \<Rightarrow> nat \<Rightarrow> nvme_status" where
  "zns_aor_check n act opn =
     (if max_active_zones n \<noteq> 0 \<and> nr_active_zones n + int act > int (max_active_zones n)
      then dnr (NVME_ZONE_TOO_MANY_ACTIVE, False)
      else if max_open_zones n \<noteq> 0 \<and> nr_open_zones n + int opn > int (max_open_zones n)
      then dnr (NVME_ZONE_TOO_MANY_OPEN, False)
      else OK)"

section \<open>Invariants of the controller\<close>

definition zone_state :: "FemuCtrl \<Rightarrow> nat \<Rightarrow> NvmeZoneState" where
  "zone_state n i = zns_get_zone_state (zone_array n ! i)"

definition zone_q :: "FemuCtrl \<Rightarrow> NvmeZoneState \<Rightarrow> nat list" where
  "zone_q n st =
     (case st of
        NVME_ZONE_STATE_EXPLICITLY_OPEN \<Rightarrow> exp_open_zones n
      | NVME_ZONE_STATE_IMPLICITLY_OPEN \<Rightarrow> imp_open_zones n
      | NVME_ZONE_STATE_CLOSED \<Rightarrow> closed_zones n
      | NVME_ZONE_STATE_FULL \<Rightarrow> full_zones n
      | _ \<Rightarrow> [])"

definition queued :: "NvmeZoneState \<Rightarrow> bool" where
  "queued st \<longleftrightarrow> st = NVME_ZONE_STATE_EXPLICITLY_OPEN \<or> st = NVME_ZONE_STATE_IMPLICITLY_OPEN \<or>
     st = NVME_ZONE_STATE_CLOSED \<or> st = NVME_ZONE_STATE_FULL"

definition is_open :: "NvmeZoneState \<Rightarrow> bool" where
  "is_open st \<longleftrightarrow> st = NVME_ZONE_STATE_EXPLICITLY_OPEN \<or> st = NVME_ZONE_STATE_IMPLICITLY_OPEN"

definition is_active :: "NvmeZoneState \<Rightarrow> bool" where
  "is_active st \<longleftrightarrow> is_open st \<or> st = NVME_ZONE_STATE_CLOSED"

definition queue_states :: "NvmeZoneState list" where
  "queue_states = [NVME_ZONE_STATE_EXPLICITLY_OPEN, NVME_ZONE_STATE_IMPLICITLY_OPEN,
     NVME_ZONE_STATE_CLOSED, NVME_ZONE_STATE_FULL]"

text \<open>Every queue holds, once each, exactly the zones in its state.\<close>

definition queue_inv :: "FemuCtrl \<Rightarrow> bool" where
  "queue_inv n \<longleftrightarrow>
     length (zone_array n) = num_zones n \<and>
     (\<forall>st \<in> set queue_states.
        distinct (zone_q n st) \<and>
        (\<forall>i \<in> set (zone_q n st). i < num_zones n \<and> zone_state n i = st) \<and>
        (\<forall>i < num_zones n. zone_state n i = st \<longrightarrow> i \<in> set (zone_q n st)))"

definition open_cnt :: "FemuCtrl \<Rightarrow> nat" where
  "open_cnt n = length (exp_open_zones n) + length (imp_open_zones n)"

definition active_cnt :: "FemuCtrl \<Rightarrow> nat" where
  "active_cnt n = open_cnt n + length (closed_zones n)"

text \<open>The counters count the queued zones, and stay within the limits; a limit of zero means
  no limit, and then the counter is not maintained.\<close>

definition aor_inv :: "FemuCtrl \<Rightarrow> bool" where
  "aor_inv n \<longleftrightarrow>
     nr_open_zones n = (if max_open_zones n = 0 then 0 else int (open_cnt n)) \<and>
     nr_active_zones n = (if max_active_zones n = 0 then 0 else int (active_cnt n)) \<and>
     (max_open_zones n \<noteq> 0 \<longrightarrow> open_cnt n \<le> max_open_zones n) \<and>
     (max_active_zones n \<noteq> 0 \<longrightarrow> active_cnt n \<le> max_active_zones n)"

text \<open>No zone is in the reserved state: the \<open>switch\<close> statements over the states assert that.\<close>

definition states_inv :: "FemuCtrl \<Rightarrow> bool" where
  "states_inv n \<longleftrightarrow> (\<forall>i < num_zones n. zone_state n i \<noteq> NVME_ZONE_STATE_RESERVED)"

definition zns_inv :: "FemuCtrl \<Rightarrow> bool" where
  "zns_inv n \<longleftrightarrow> queue_inv n \<and> aor_inv n \<and> states_inv n"

section \<open>States and their encoding\<close>

lemma zone_state_of_code_code [simp]: "zone_state_of_code (zone_state_code st) = st"
  by (cases st) (simp_all add: zone_state_of_code_def)

lemma get_set_zone_state [simp]: "zns_get_zone_state (zns_set_zone_state z st) = st"
proof -
  have "u8 (zone_state_code st * 2 ^ 4) div 2 ^ 4 = zone_state_code st"
    by (cases st) (simp_all add: u8_def)
  then show ?thesis by (simp add: zns_get_zone_state_def zns_set_zone_state_def)
qed

lemma get_zone_state_upds [simp]:
  "zns_get_zone_state (z\<lparr>d_za := a\<rparr>) = zns_get_zone_state z"
  "zns_get_zone_state (z\<lparr>d_wp := a\<rparr>) = zns_get_zone_state z"
  "zns_get_zone_state (z\<lparr>w_ptr := a\<rparr>) = zns_get_zone_state z"
  by (simp_all add: zns_get_zone_state_def)

lemma set_zone_state_fields [simp]:
  "d_zt (zns_set_zone_state z st) = d_zt z"
  "d_za (zns_set_zone_state z st) = d_za z"
  "d_zcap (zns_set_zone_state z st) = d_zcap z"
  "d_zslba (zns_set_zone_state z st) = d_zslba z"
  "d_wp (zns_set_zone_state z st) = d_wp z"
  "w_ptr (zns_set_zone_state z st) = w_ptr z"
  by (simp_all add: zns_set_zone_state_def)

lemma wr_boundary_upds [simp]:
  "zns_zone_wr_boundary (z\<lparr>d_za := a\<rparr>) = zns_zone_wr_boundary z"
  "zns_zone_wr_boundary (z\<lparr>d_wp := a\<rparr>) = zns_zone_wr_boundary z"
  "zns_zone_wr_boundary (z\<lparr>w_ptr := a\<rparr>) = zns_zone_wr_boundary z"
  "zns_zone_wr_boundary (zns_set_zone_state z st) = zns_zone_wr_boundary z"
  by (simp_all add: zns_zone_wr_boundary_def)

section \<open>What moving a zone does to the queues\<close>

definition zone_q_upd :: "NvmeZoneState \<Rightarrow> (nat list \<Rightarrow> nat list) \<Rightarrow> FemuCtrl \<Rightarrow> FemuCtrl" where
  "zone_q_upd st f n =
     (case st of
        NVME_ZONE_STATE_EXPLICITLY_OPEN \<Rightarrow> n\<lparr>exp_open_zones := f (exp_open_zones n)\<rparr>
      | NVME_ZONE_STATE_IMPLICITLY_OPEN \<Rightarrow> n\<lparr>imp_open_zones := f (imp_open_zones n)\<rparr>
      | NVME_ZONE_STATE_CLOSED \<Rightarrow> n\<lparr>closed_zones := f (closed_zones n)\<rparr>
      | NVME_ZONE_STATE_FULL \<Rightarrow> n\<lparr>full_zones := f (full_zones n)\<rparr>
      | _ \<Rightarrow> n)"

definition enter_state :: "NvmeZoneState \<Rightarrow> NvmeZone \<Rightarrow> NvmeZone" where
  "enter_state st z =
     (if queued st \<or> st = NVME_ZONE_STATE_READ_ONLY then zns_set_zone_state z st
      else (zns_set_zone_state z st)\<lparr>d_za := 0\<rparr>)"

definition move_zone :: "FemuCtrl \<Rightarrow> nat \<Rightarrow> NvmeZoneState \<Rightarrow> FemuCtrl" where
  "move_zone n i st =
     zone_q_upd st (\<lambda>q. q @ [i]) (upd_zone i (enter_state st) (zone_q_upd (zone_state n i) (remove1 i) n))"

lemmas zone_q_cases = zone_q_def zone_q_upd_def queued_def

lemma queued_cases:
  assumes "queued st"
  obtains "st = NVME_ZONE_STATE_EXPLICITLY_OPEN" | "st = NVME_ZONE_STATE_IMPLICITLY_OPEN"
    | "st = NVME_ZONE_STATE_CLOSED" | "st = NVME_ZONE_STATE_FULL"
  using assms by (auto simp: queued_def)

lemma queue_states_iff: "st \<in> set queue_states \<longleftrightarrow> queued st"
  by (auto simp: queue_states_def queued_def)

lemma zone_q_other [simp]: "\<not> queued st \<Longrightarrow> zone_q n st = []"
  by (cases st) (simp_all add: zone_q_cases)

lemma queue_inv_mem:
  "queue_inv n \<Longrightarrow> queued st \<Longrightarrow> i \<in> set (zone_q n st) \<longleftrightarrow> i < num_zones n \<and> zone_state n i = st"
  unfolding queue_inv_def queue_states_iff Ball_def by blast

lemma queue_inv_distinct: "queue_inv n \<Longrightarrow> distinct (zone_q n st)"
  unfolding queue_inv_def queue_states_iff Ball_def by (cases "queued st") simp_all

lemma queue_inv_length: "queue_inv n \<Longrightarrow> length (zone_array n) = num_zones n"
  by (simp add: queue_inv_def)

lemma queue_invI:
  assumes "length (zone_array n) = num_zones n"
    and "\<And>st. queued st \<Longrightarrow> distinct (zone_q n st)"
    and "\<And>st i. queued st \<Longrightarrow> i \<in> set (zone_q n st) \<longleftrightarrow> i < num_zones n \<and> zone_state n i = st"
  shows "queue_inv n"
  using assms unfolding queue_inv_def queue_states_iff Ball_def by blast

lemma zone_q_queued: "i \<in> set (zone_q n st) \<Longrightarrow> queued st"
  by (cases st) (auto simp: zone_q_cases)

lemma in_use_iff: "QTAILQ_IN_USE n i \<longleftrightarrow> (\<exists>st. i \<in> set (zone_q n st))"
proof -
  have "QTAILQ_IN_USE n i \<longleftrightarrow> (\<exists>st \<in> set queue_states. i \<in> set (zone_q n st))"
    by (simp add: QTAILQ_IN_USE_def zone_q_def queue_states_def)
  moreover have "i \<in> set (zone_q n st) \<Longrightarrow> st \<in> set queue_states" for st
    by (cases st) (simp_all add: zone_q_def queue_states_def)
  ultimately show ?thesis by blast
qed

lemma in_use_queued:
  assumes "queue_inv n" and "i < num_zones n"
  shows "QTAILQ_IN_USE n i \<longleftrightarrow> queued (zone_state n i)"
proof -
  have "QTAILQ_IN_USE n i \<longleftrightarrow> (\<exists>st. queued st \<and> i \<in> set (zone_q n st))"
    using zone_q_queued by (auto simp: in_use_iff)
  then show ?thesis using assms by (auto simp: queue_inv_mem)
qed

lemma zone_at_eq: "queue_inv n \<Longrightarrow> i < num_zones n \<Longrightarrow> zone_at n i = Some (zone_array n ! i)"
  by (simp add: zone_at_def queue_inv_length)

lemma upd_zone_frames [simp]:
  "num_zones (upd_zone i f n) = num_zones n"
  "length (zone_array (upd_zone i f n)) = length (zone_array n)"
  "zone_q (upd_zone i f n) st = zone_q n st"
  "exp_open_zones (upd_zone i f n) = exp_open_zones n"
  "imp_open_zones (upd_zone i f n) = imp_open_zones n"
  "closed_zones (upd_zone i f n) = closed_zones n"
  "full_zones (upd_zone i f n) = full_zones n"
  "QTAILQ_IN_USE (upd_zone i f n) j = QTAILQ_IN_USE n j"
  "open_cnt (upd_zone i f n) = open_cnt n"
  "active_cnt (upd_zone i f n) = active_cnt n"
  "nr_open_zones (upd_zone i f n) = nr_open_zones n"
  "nr_active_zones (upd_zone i f n) = nr_active_zones n"
  "max_open_zones (upd_zone i f n) = max_open_zones n"
  "max_active_zones (upd_zone i f n) = max_active_zones n"
  "zone_size (upd_zone i f n) = zone_size n"
  "zone_capacity (upd_zone i f n) = zone_capacity n"
  "zone_size_log2 (upd_zone i f n) = zone_size_log2 n"
  "nsze (upd_zone i f n) = nsze n"
  "backend_calls (upd_zone i f n) = backend_calls n"
  by (simp_all add: upd_zone_def zone_q_def QTAILQ_IN_USE_def open_cnt_def active_cnt_def
      split: NvmeZoneState.splits)

lemma zone_array_upd_zone [simp]:
  "i < length (zone_array n) \<Longrightarrow>
   zone_array (upd_zone i f n) ! j = (if j = i then f (zone_array n ! i) else zone_array n ! j)"
  by (simp add: upd_zone_def)

lemma upd_zone_upd_zone [simp]:
  "i < length (zone_array n) \<Longrightarrow> upd_zone i f (upd_zone i g n) = upd_zone i (f \<circ> g) n"
  by (simp add: upd_zone_def)

lemma zone_q_zone_q_upd: "zone_q (zone_q_upd s f n) st = (if st = s \<and> queued s then f (zone_q n s) else zone_q n st)"
  by (cases s; cases st) (simp_all add: zone_q_cases)

lemma zone_q_upd_frames [simp]:
  "num_zones (zone_q_upd s f n) = num_zones n"
  "zone_array (zone_q_upd s f n) = zone_array n"
  "nr_open_zones (zone_q_upd s f n) = nr_open_zones n"
  "nr_active_zones (zone_q_upd s f n) = nr_active_zones n"
  "max_open_zones (zone_q_upd s f n) = max_open_zones n"
  "max_active_zones (zone_q_upd s f n) = max_active_zones n"
  "zone_size (zone_q_upd s f n) = zone_size n"
  "zone_capacity (zone_q_upd s f n) = zone_capacity n"
  "zone_size_log2 (zone_q_upd s f n) = zone_size_log2 n"
  "nsze (zone_q_upd s f n) = nsze n"
  "backend_calls (zone_q_upd s f n) = backend_calls n"
  by (cases s; simp add: zone_q_upd_def)+

lemma enter_state_fields [simp]:
  "zns_get_zone_state (enter_state st z) = st"
  "d_zt (enter_state st z) = d_zt z"
  "d_zcap (enter_state st z) = d_zcap z"
  "d_zslba (enter_state st z) = d_zslba z"
  "d_wp (enter_state st z) = d_wp z"
  "w_ptr (enter_state st z) = w_ptr z"
  "zns_zone_wr_boundary (enter_state st z) = zns_zone_wr_boundary z"
  by (simp_all add: enter_state_def)

lemma zns_unlink_zone_eq:
  "i \<in> set (zone_q n st) \<Longrightarrow> zns_unlink_zone n i st = Some (zone_q_upd st (remove1 i) n)"
  by (cases st) (simp_all add: zns_unlink_zone_def QTAILQ_REMOVE_def zone_q_cases)

lemma zns_unlink_zone_other: "\<not> queued st \<Longrightarrow> zns_unlink_zone n i st = Some n"
  by (cases st) (simp_all add: zns_unlink_zone_def queued_def)

lemma zone_q_upd_other: "\<not> queued st \<Longrightarrow> zone_q_upd st f n = n"
  by (cases st) (simp_all add: zone_q_cases)

lemma zns_link_zone_eq:
  assumes "\<not> QTAILQ_IN_USE n i" and "i < length (zone_array n)"
  shows "zns_link_zone (upd_zone i (\<lambda>z. zns_set_zone_state z st) n) i st =
    Some (zone_q_upd st (\<lambda>q. q @ [i]) (upd_zone i (enter_state st) n))"
proof -
  have enter: "enter_state st = (\<lambda>z. zns_set_zone_state z st)" if "queued st \<or> st = NVME_ZONE_STATE_READ_ONLY"
    using that by (auto simp: enter_state_def fun_eq_iff)
  have clear: "enter_state st = (\<lambda>z. z\<lparr>d_za := 0\<rparr>) \<circ> (\<lambda>z. zns_set_zone_state z st)"
    if "\<not> queued st" "st \<noteq> NVME_ZONE_STATE_READ_ONLY"
    using that by (auto simp: enter_state_def fun_eq_iff)
  show ?thesis
    using assms enter clear
    by (cases st) (simp_all add: zns_link_zone_def QTAILQ_INSERT_TAIL_def zone_q_upd_def queued_def)
qed

lemma move_zone_unlinked:
  assumes "queue_inv n" and "i < num_zones n"
  shows "\<not> QTAILQ_IN_USE (zone_q_upd (zone_state n i) (remove1 i) n) i"
proof -
  have "i \<notin> set (zone_q (zone_q_upd (zone_state n i) (remove1 i) n) st)" for st
  proof (cases "queued st")
    case True
    then show ?thesis
      using assms by (auto simp: zone_q_zone_q_upd queue_inv_distinct queue_inv_mem)
  next
    case False
    then show ?thesis using zone_q_queued by blast
  qed
  then show ?thesis by (simp add: in_use_iff)
qed

text \<open>On a controller whose queues are right, assigning a state never aborts and moves the zone.\<close>

lemma zns_assign_zone_state_eq:
  assumes "queue_inv n" and "i < num_zones n"
  shows "zns_assign_zone_state n i st = Some (move_zone n i st)"
proof -
  let ?n1 = "zone_q_upd (zone_state n i) (remove1 i) n"
  have unlink: "(if QTAILQ_IN_USE n i then zns_unlink_zone n i (zone_state n i) else Some n) = Some ?n1"
  proof (cases "queued (zone_state n i)")
    case True
    with assms have "i \<in> set (zone_q n (zone_state n i))" by (simp add: queue_inv_mem)
    with True assms show ?thesis by (simp add: in_use_queued zns_unlink_zone_eq)
  next
    case False
    with assms show ?thesis by (simp add: in_use_queued zone_q_upd_other)
  qed
  have len: "i < length (zone_array ?n1)"
    using assms by (simp add: queue_inv_length)
  have "zns_assign_zone_state n i st = zns_link_zone (upd_zone i (\<lambda>z. zns_set_zone_state z st) ?n1) i st"
    using assms unfolding zns_assign_zone_state_def zone_at_eq [OF assms] Let_def
    by (simp only: bind.bind_lunit zone_state_def [symmetric] unlink)
  also have "\<dots> = Some (move_zone n i st)"
    unfolding move_zone_def by (rule zns_link_zone_eq [OF move_zone_unlinked [OF assms] len])
  finally show ?thesis .
qed

lemma zone_q_move_zone:
  "queue_inv n \<Longrightarrow> zone_q (move_zone n i st) s =
     (if s = zone_state n i then remove1 i (zone_q n s) else zone_q n s) @
     (if s = st \<and> queued st then [i] else [])"
  by (cases "queued s"; cases "queued st") (auto simp: move_zone_def zone_q_zone_q_upd)

lemma zone_array_move_zone [simp]:
  "zone_array (move_zone n i st) = (zone_array n)[i := enter_state st (zone_array n ! i)]"
  by (simp add: move_zone_def upd_zone_def)

lemma zone_state_move_zone [simp]:
  "i < length (zone_array n) \<Longrightarrow> zone_state (move_zone n i st) j = (if j = i then st else zone_state n j)"
  by (simp add: zone_state_def nth_list_update)

lemma move_zone_frames [simp]:
  "num_zones (move_zone n i st) = num_zones n"
  "nr_open_zones (move_zone n i st) = nr_open_zones n"
  "nr_active_zones (move_zone n i st) = nr_active_zones n"
  "max_open_zones (move_zone n i st) = max_open_zones n"
  "max_active_zones (move_zone n i st) = max_active_zones n"
  "zone_size (move_zone n i st) = zone_size n"
  "zone_capacity (move_zone n i st) = zone_capacity n"
  "zone_size_log2 (move_zone n i st) = zone_size_log2 n"
  "nsze (move_zone n i st) = nsze n"
  "backend_calls (move_zone n i st) = backend_calls n"
  by (simp_all add: move_zone_def)

lemma queue_inv_move_zone:
  assumes "queue_inv n" and "i < num_zones n"
  shows "queue_inv (move_zone n i st)"
proof (rule queue_invI)
  show "length (zone_array (move_zone n i st)) = num_zones (move_zone n i st)"
    using assms by (simp add: queue_inv_length)
next
  fix s assume s: "queued s"
  show "distinct (zone_q (move_zone n i st) s)"
    using assms s by (auto simp: zone_q_move_zone queue_inv_distinct queue_inv_mem)
  fix j
  show "j \<in> set (zone_q (move_zone n i st) s) \<longleftrightarrow>
      j < num_zones (move_zone n i st) \<and> zone_state (move_zone n i st) j = s"
    using assms s
    by (auto simp: zone_q_move_zone queue_inv_distinct queue_inv_mem queue_inv_length)
qed

section \<open>Counting open and active zones\<close>

lemma length_zone_q_move_zone:
  assumes "queue_inv n" and "i < num_zones n"
  shows "int (length (zone_q (move_zone n i st) s)) =
    int (length (zone_q n s)) - of_bool (s = zone_state n i \<and> queued s) + of_bool (s = st \<and> queued s)"
proof -
  have "s = zone_state n i \<Longrightarrow> queued s \<Longrightarrow> i \<in> set (zone_q n s)"
    using assms by (simp add: queue_inv_mem)
  then show ?thesis
    using assms by (cases "queued s") (auto simp: zone_q_move_zone int_length_remove1)
qed

lemma open_cnt_zone_q:
  "open_cnt n = length (zone_q n NVME_ZONE_STATE_EXPLICITLY_OPEN) + length (zone_q n NVME_ZONE_STATE_IMPLICITLY_OPEN)"
  "active_cnt n = open_cnt n + length (zone_q n NVME_ZONE_STATE_CLOSED)"
  by (simp_all add: open_cnt_def active_cnt_def zone_q_def)

lemma open_cnt_move_zone:
  assumes "queue_inv n" and "i < num_zones n"
  shows "int (open_cnt (move_zone n i st)) =
    int (open_cnt n) - of_bool (is_open (zone_state n i)) + of_bool (is_open st)"
  unfolding open_cnt_zone_q using assms
  by (cases "zone_state n i"; cases st)
     (simp_all add: length_zone_q_move_zone is_open_def queued_def)

lemma active_cnt_move_zone:
  assumes "queue_inv n" and "i < num_zones n"
  shows "int (active_cnt (move_zone n i st)) =
    int (active_cnt n) - of_bool (is_active (zone_state n i)) + of_bool (is_active st)"
  unfolding open_cnt_zone_q(2) of_nat_add open_cnt_move_zone [OF assms]
    length_zone_q_move_zone [OF assms]
  by (cases "zone_state n i"; cases st) (simp_all add: is_active_def is_open_def queued_def)

lemma open_cnt_pos:
  assumes "queue_inv n" and "i < num_zones n" and "is_open (zone_state n i)"
  shows "0 < open_cnt n"
proof -
  from assms have "i \<in> set (zone_q n (zone_state n i))"
    by (auto simp: queue_inv_mem is_open_def queued_def)
  then have "0 < length (zone_q n (zone_state n i))" by (rule length_pos_mem)
  with assms(3) show ?thesis by (auto simp: open_cnt_zone_q is_open_def)
qed

lemma active_cnt_pos:
  assumes "queue_inv n" and "i < num_zones n" and "is_active (zone_state n i)"
  shows "0 < active_cnt n"
    and "\<not> is_open (zone_state n i) \<Longrightarrow> open_cnt n < active_cnt n"
proof -
  have *: "zone_state n i = NVME_ZONE_STATE_CLOSED \<Longrightarrow> 0 < length (zone_q n NVME_ZONE_STATE_CLOSED)"
    using assms by (intro length_pos_mem [of i]) (simp add: queue_inv_mem queued_def)
  show "0 < active_cnt n"
    using assms open_cnt_pos [OF assms(1,2)] * by (auto simp: open_cnt_zone_q(2) is_active_def)
  show "\<not> is_open (zone_state n i) \<Longrightarrow> open_cnt n < active_cnt n"
    using assms * by (auto simp: open_cnt_zone_q(2) is_active_def)
qed

lemma open_le_active: "open_cnt n \<le> active_cnt n"
  by (simp add: active_cnt_def)

section \<open>The counter operations\<close>

lemma zns_aor_inc_open_eq:
  assumes "0 \<le> nr_open_zones n" and "max_open_zones n \<noteq> 0 \<Longrightarrow> nr_open_zones n < int (max_open_zones n)"
  shows "zns_aor_inc_open n = Some (n\<lparr>nr_open_zones := nr_open_zones n + of_bool (max_open_zones n \<noteq> 0)\<rparr>)"
  using assms by (cases "max_open_zones n = 0") (simp_all add: zns_aor_inc_open_def Let_def assert_c_def)

lemma zns_aor_dec_open_eq:
  assumes "0 \<le> nr_open_zones n" and "max_open_zones n \<noteq> 0 \<Longrightarrow> 0 < nr_open_zones n"
  shows "zns_aor_dec_open n = Some (n\<lparr>nr_open_zones := nr_open_zones n - of_bool (max_open_zones n \<noteq> 0)\<rparr>)"
  using assms by (cases "max_open_zones n = 0") (simp_all add: zns_aor_dec_open_def Let_def assert_c_def)

lemma zns_aor_inc_active_eq:
  assumes "0 \<le> nr_active_zones n" and "max_active_zones n \<noteq> 0 \<Longrightarrow> nr_active_zones n < int (max_active_zones n)"
  shows "zns_aor_inc_active n = Some (n\<lparr>nr_active_zones := nr_active_zones n + of_bool (max_active_zones n \<noteq> 0)\<rparr>)"
  using assms by (cases "max_active_zones n = 0") (simp_all add: zns_aor_inc_active_def Let_def assert_c_def)

lemma zns_aor_dec_active_eq:
  assumes "0 \<le> nr_active_zones n" and "max_active_zones n \<noteq> 0 \<Longrightarrow> 0 < nr_active_zones n"
    and "max_active_zones n \<noteq> 0 \<Longrightarrow> nr_open_zones n < nr_active_zones n"
  shows "zns_aor_dec_active n = Some (n\<lparr>nr_active_zones := nr_active_zones n - of_bool (max_active_zones n \<noteq> 0)\<rparr>)"
  using assms by (cases "max_active_zones n = 0") (simp_all add: zns_aor_dec_active_def Let_def assert_c_def)

lemma nr_upd_frames [simp]:
  "queue_inv (n\<lparr>nr_open_zones := a\<rparr>) = queue_inv n"
  "queue_inv (n\<lparr>nr_active_zones := a\<rparr>) = queue_inv n"
  "zone_state (n\<lparr>nr_open_zones := a\<rparr>) i = zone_state n i"
  "zone_state (n\<lparr>nr_active_zones := a\<rparr>) i = zone_state n i"
  "move_zone (n\<lparr>nr_open_zones := a\<rparr>) i st = (move_zone n i st)\<lparr>nr_open_zones := a\<rparr>"
  "move_zone (n\<lparr>nr_active_zones := a\<rparr>) i st = (move_zone n i st)\<lparr>nr_active_zones := a\<rparr>"
  "upd_zone i f (n\<lparr>nr_open_zones := a\<rparr>) = (upd_zone i f n)\<lparr>nr_open_zones := a\<rparr>"
  "upd_zone i f (n\<lparr>nr_active_zones := a\<rparr>) = (upd_zone i f n)\<lparr>nr_active_zones := a\<rparr>"
  "open_cnt (n\<lparr>nr_open_zones := a\<rparr>) = open_cnt n"
  "open_cnt (n\<lparr>nr_active_zones := a\<rparr>) = open_cnt n"
  "active_cnt (n\<lparr>nr_open_zones := a\<rparr>) = active_cnt n"
  "active_cnt (n\<lparr>nr_active_zones := a\<rparr>) = active_cnt n"
  "zone_at (n\<lparr>nr_open_zones := a\<rparr>) i = zone_at n i"
  "zone_at (n\<lparr>nr_active_zones := a\<rparr>) i = zone_at n i"
  by (simp_all add: queue_inv_def zone_state_def zone_q_def move_zone_def zone_q_upd_def
      upd_zone_def open_cnt_def active_cnt_def zone_at_def queue_states_def split: NvmeZoneState.splits)

lemma zone_state_upd_zone:
  assumes "\<And>z. zns_get_zone_state (f z) = zns_get_zone_state z"
  shows "zone_state (upd_zone i f n) j = zone_state n j"
  using assms
  by (cases "i < length (zone_array n)")
     (auto simp: zone_state_def upd_zone_def nth_list_update list_update_beyond)

lemma queue_inv_upd_zone:
  assumes "queue_inv n" and "\<And>z. zns_get_zone_state (f z) = zns_get_zone_state z"
  shows "queue_inv (upd_zone i f n)"
proof -
  have "zone_state (upd_zone i f n) j = zone_state n j" for j
    by (rule zone_state_upd_zone) (rule assms)
  then have "queue_inv (upd_zone i f n) = queue_inv n"
    unfolding queue_inv_def by simp
  with assms(1) show ?thesis by blast
qed

lemma aor_inv_upd_zone [simp]: "aor_inv (upd_zone i f n) = aor_inv n"
  by (simp add: aor_inv_def)

lemma zns_inv_upd_zone:
  assumes "zns_inv n" and "\<And>z. zns_get_zone_state (f z) = zns_get_zone_state z"
  shows "zns_inv (upd_zone i f n)"
  using assms(1) queue_inv_upd_zone [OF _ assms(2)]
  by (simp add: zns_inv_def states_inv_def zone_state_upd_zone [OF assms(2)])

text \<open>A zone's change of state with its effect on the counters.\<close>

definition transit :: "FemuCtrl \<Rightarrow> nat \<Rightarrow> NvmeZoneState \<Rightarrow> FemuCtrl" where
  "transit n i st = (move_zone n i st)
     \<lparr>nr_open_zones := nr_open_zones n + of_bool (max_open_zones n \<noteq> 0) *
        (of_bool (is_open st) - of_bool (is_open (zone_state n i))),
      nr_active_zones := nr_active_zones n + of_bool (max_active_zones n \<noteq> 0) *
        (of_bool (is_active st) - of_bool (is_active (zone_state n i)))\<rparr>"

lemma zns_inv_transit:
  assumes inv: "zns_inv n" and i: "i < num_zones n" and st: "st \<noteq> NVME_ZONE_STATE_RESERVED"
    and opn: "is_open st \<Longrightarrow> \<not> is_open (zone_state n i) \<Longrightarrow> max_open_zones n \<noteq> 0 \<Longrightarrow> open_cnt n < max_open_zones n"
    and act: "is_active st \<Longrightarrow> \<not> is_active (zone_state n i) \<Longrightarrow> max_active_zones n \<noteq> 0 \<Longrightarrow> active_cnt n < max_active_zones n"
  shows "zns_inv (transit n i st)"
proof -
  from inv have q: "queue_inv n" and a: "aor_inv n" and s: "states_inv n" by (simp_all add: zns_inv_def)
  have "states_inv (transit n i st)"
    using s st i q by (simp add: states_inv_def transit_def queue_inv_length)
  note cnt = open_cnt_move_zone [OF q i, of st] active_cnt_move_zone [OF q i, of st]
  have "aor_inv (transit n i st)"
    using a opn act cnt
    by (auto simp: aor_inv_def transit_def of_bool_def split: if_splits)
  moreover have "queue_inv (transit n i st)"
    using q i by (simp add: transit_def queue_inv_move_zone)
  ultimately show ?thesis using \<open>states_inv (transit n i st)\<close> by (simp add: zns_inv_def)
qed

lemma transit_frames [simp]:
  "num_zones (transit n i st) = num_zones n"
  "max_open_zones (transit n i st) = max_open_zones n"
  "max_active_zones (transit n i st) = max_active_zones n"
  "zone_size (transit n i st) = zone_size n"
  "zone_capacity (transit n i st) = zone_capacity n"
  "zone_size_log2 (transit n i st) = zone_size_log2 n"
  "nsze (transit n i st) = nsze n"
  "backend_calls (transit n i st) = backend_calls n"
  "zone_array (transit n i st) = (zone_array n)[i := enter_state st (zone_array n ! i)]"
  by (simp_all add: transit_def)

lemma zone_state_transit [simp]:
  "i < length (zone_array n) \<Longrightarrow> zone_state (transit n i st) j = (if j = i then st else zone_state n j)"
  by (simp add: transit_def)


section \<open>The counters as cardinalities\<close>

lemma length_zone_q_card:
  assumes "queue_inv n" and "queued st"
  shows "length (zone_q n st) = card {i. i < num_zones n \<and> zone_state n i = st}"
proof -
  have "set (zone_q n st) = {i. i < num_zones n \<and> zone_state n i = st}"
    using assms by (auto simp: queue_inv_mem)
  with queue_inv_distinct [OF assms(1), of st] show ?thesis
    by (simp add: distinct_card [symmetric])
qed

lemma open_cnt_card:
  assumes "queue_inv n"
  shows "open_cnt n = card {i. i < num_zones n \<and> is_open (zone_state n i)}"
proof -
  have "{i. i < num_zones n \<and> is_open (zone_state n i)} =
      {i. i < num_zones n \<and> zone_state n i = NVME_ZONE_STATE_EXPLICITLY_OPEN} \<union>
      {i. i < num_zones n \<and> zone_state n i = NVME_ZONE_STATE_IMPLICITLY_OPEN}"
    by (auto simp: is_open_def)
  then have "card {i. i < num_zones n \<and> is_open (zone_state n i)} =
      card {i. i < num_zones n \<and> zone_state n i = NVME_ZONE_STATE_EXPLICITLY_OPEN} +
      card {i. i < num_zones n \<and> zone_state n i = NVME_ZONE_STATE_IMPLICITLY_OPEN}"
    by (rule ssubst) (rule card_Un_disjoint, auto)
  then show ?thesis
    by (simp add: open_cnt_zone_q length_zone_q_card [OF assms] queued_def)
qed

lemma active_cnt_card:
  assumes "queue_inv n"
  shows "active_cnt n = card {i. i < num_zones n \<and> is_active (zone_state n i)}"
proof -
  have "{i. i < num_zones n \<and> is_active (zone_state n i)} =
      {i. i < num_zones n \<and> is_open (zone_state n i)} \<union>
      {i. i < num_zones n \<and> zone_state n i = NVME_ZONE_STATE_CLOSED}"
    by (auto simp: is_active_def)
  then have "card {i. i < num_zones n \<and> is_active (zone_state n i)} =
      card {i. i < num_zones n \<and> is_open (zone_state n i)} +
      card {i. i < num_zones n \<and> zone_state n i = NVME_ZONE_STATE_CLOSED}"
    by (rule ssubst) (rule card_Un_disjoint, auto simp: is_open_def)
  then show ?thesis
    by (simp add: open_cnt_zone_q(2) open_cnt_card [OF assms] length_zone_q_card [OF assms] queued_def)
qed

text \<open>Changing one zone's state changes a count by one at most.\<close>

lemma card_change_one:
  assumes "i < (m :: nat)" and "\<And>j. j \<noteq> i \<Longrightarrow> f' j = f j"
  shows "int (card {j. j < m \<and> P (f' j)}) =
    int (card {j. j < m \<and> P (f j)}) - of_bool (P (f i)) + of_bool (P (f' i))"
proof -
  let ?R = "{j. j < m \<and> j \<noteq> i \<and> P (f j)}"
  have fin: "finite ?R" by simp
  have 1: "{j. j < m \<and> P (f j)} = (if P (f i) then insert i ?R else ?R)"
    using assms(1) by auto
  have 2: "{j. j < m \<and> P (f' j)} = (if P (f' i) then insert i ?R else ?R)"
    using assms by (auto split: if_splits) (metis+)
  show ?thesis unfolding 1 2 using fin by simp
qed

text \<open>Any change of one zone's state that keeps the queues right and counts what it did keeps
  the invariant, whatever the order of the queues.\<close>

lemma zns_inv_relink:
  assumes inv: "zns_inv n" and i: "i < num_zones n" and q': "queue_inv n'"
    and num: "num_zones n' = num_zones n"
    and mx: "max_open_zones n' = max_open_zones n" "max_active_zones n' = max_active_zones n"
    and oth: "\<And>j. j \<noteq> i \<Longrightarrow> zone_state n' j = zone_state n j"
    and nro: "nr_open_zones n' = nr_open_zones n + of_bool (max_open_zones n \<noteq> 0) *
        (of_bool (is_open (zone_state n' i)) - of_bool (is_open (zone_state n i)))"
    and nra: "nr_active_zones n' = nr_active_zones n + of_bool (max_active_zones n \<noteq> 0) *
        (of_bool (is_active (zone_state n' i)) - of_bool (is_active (zone_state n i)))"
    and opn: "is_open (zone_state n' i) \<Longrightarrow> is_open (zone_state n i)"
    and act: "is_active (zone_state n' i) \<Longrightarrow> is_active (zone_state n i)"
    and res: "zone_state n' i \<noteq> NVME_ZONE_STATE_RESERVED"
  shows "zns_inv n'"
proof -
  from inv have q: "queue_inv n" and a: "aor_inv n" and s: "states_inv n" by (simp_all add: zns_inv_def)
  have "states_inv n'"
    unfolding states_inv_def num
  proof (intro allI impI)
    fix j assume "j < num_zones n"
    with s res oth [of j] show "zone_state n' j \<noteq> NVME_ZONE_STATE_RESERVED"
      by (cases "j = i") (auto simp: states_inv_def)
  qed
  have o: "int (open_cnt n') = int (open_cnt n) - of_bool (is_open (zone_state n i)) + of_bool (is_open (zone_state n' i))"
    using card_change_one [OF i oth, where P = is_open]
    by (simp add: open_cnt_card [OF q] open_cnt_card [OF q'] num)
  have c: "int (active_cnt n') = int (active_cnt n) - of_bool (is_active (zone_state n i)) + of_bool (is_active (zone_state n' i))"
    using card_change_one [OF i oth, where P = is_active]
    by (simp add: active_cnt_card [OF q] active_cnt_card [OF q'] num)
  have "aor_inv n'"
    using a o c nro nra opn act unfolding aor_inv_def mx
    by (auto simp: of_bool_def split: if_splits)
  with q' \<open>states_inv n'\<close> show ?thesis by (simp add: zns_inv_def)
qed

end
