(* ===== verification/ZnsOps.thy ===== *)
theory ZnsOps
  imports ZnsZone
begin

text \<open>
  Zone operations of \<open>src/zns/zns.c\<close>: the checks before a read or a write, implicit opening
  and the automatic close of an implicitly open zone, the write pointers, the handlers behind
  the zone management commands and the loop that applies a handler to a class of zones, and
  the shutdown of the namespace.

  The handlers are passed as function pointers of type \<open>op_handler_t\<close>; the locale
  \<open>zone_op_handler\<close> states what \<open>zns_do_zone_op\<close> relies on, and each handler of the
  source is an interpretation of it.
\<close>

section \<open>Shutdown of the namespace\<close>

definition zns_clear_zone :: "FemuCtrl \<Rightarrow> nat \<Rightarrow> FemuCtrl option" where
  "zns_clear_zone n zone = do {
     _ \<leftarrow> zone_at n zone;
     let n = upd_zone zone (\<lambda>z. z\<lparr>w_ptr := d_wp z\<rparr>) n;
     let z = zone_array n ! zone;
     let state = zns_get_zone_state z;
     if d_wp z \<noteq> d_zslba z \<or> d_za z AND NVME_ZA_ZD_EXT_VALID \<noteq> 0 then do {
       let n = (if state \<noteq> NVME_ZONE_STATE_CLOSED
                then upd_zone zone (\<lambda>z. zns_set_zone_state z NVME_ZONE_STATE_CLOSED) n else n);
       n \<leftarrow> zns_aor_inc_active n;
       q \<leftarrow> QTAILQ_INSERT_HEAD n (closed_zones n) zone;
       Some (n\<lparr>closed_zones := q\<rparr>)
     } else Some (upd_zone zone (\<lambda>z. zns_set_zone_state z NVME_ZONE_STATE_EMPTY) n)
   }"

text \<open>The bodies of the three loops of \<open>zns_zoned_ns_shutdown\<close>. \<open>QTAILQ_FOREACH_SAFE\<close> saves the
  successor before the body runs, and the body unlinks only the current zone and links it at a
  head: each loop visits the elements its queue had at its start.\<close>

definition shutdown_closed :: "nat \<Rightarrow> FemuCtrl \<Rightarrow> FemuCtrl option" where
  "shutdown_closed zone n = do {
     q \<leftarrow> QTAILQ_REMOVE (closed_zones n) zone;
     let n = n\<lparr>closed_zones := q\<rparr>;
     n \<leftarrow> zns_aor_dec_active n;
     zns_clear_zone n zone }"

definition shutdown_imp :: "nat \<Rightarrow> FemuCtrl \<Rightarrow> FemuCtrl option" where
  "shutdown_imp zone n = do {
     q \<leftarrow> QTAILQ_REMOVE (imp_open_zones n) zone;
     let n = n\<lparr>imp_open_zones := q\<rparr>;
     n \<leftarrow> zns_aor_dec_open n;
     n \<leftarrow> zns_aor_dec_active n;
     zns_clear_zone n zone }"

definition shutdown_exp :: "nat \<Rightarrow> FemuCtrl \<Rightarrow> FemuCtrl option" where
  "shutdown_exp zone n = do {
     q \<leftarrow> QTAILQ_REMOVE (exp_open_zones n) zone;
     let n = n\<lparr>exp_open_zones := q\<rparr>;
     n \<leftarrow> zns_aor_dec_open n;
     n \<leftarrow> zns_aor_dec_active n;
     zns_clear_zone n zone }"

definition zns_zoned_ns_shutdown :: "FemuCtrl \<Rightarrow> FemuCtrl option" where
  "zns_zoned_ns_shutdown n = do {
     n \<leftarrow> foldM shutdown_closed (closed_zones n) n;
     n \<leftarrow> foldM shutdown_imp (imp_open_zones n) n;
     n \<leftarrow> foldM shutdown_exp (exp_open_zones n) n;
     assert_c (nr_open_zones n = 0);
     Some n
   }"

definition zns_ns_shutdown :: "FemuCtrl \<Rightarrow> FemuCtrl option" where
  "zns_ns_shutdown n = (if zoned n then zns_zoned_ns_shutdown n else Some n)"

section \<open>Checks before reads and writes\<close>

definition zns_check_zone_state_for_write :: "NvmeZone \<Rightarrow> nvme_status option" where
  "zns_check_zone_state_for_write zone =
     (case zns_get_zone_state zone of
        NVME_ZONE_STATE_EMPTY \<Rightarrow> Some OK
      | NVME_ZONE_STATE_IMPLICITLY_OPEN \<Rightarrow> Some OK
      | NVME_ZONE_STATE_EXPLICITLY_OPEN \<Rightarrow> Some OK
      | NVME_ZONE_STATE_CLOSED \<Rightarrow> Some OK
      | NVME_ZONE_STATE_FULL \<Rightarrow> Some (NVME_ZONE_FULL, False)
      | NVME_ZONE_STATE_OFFLINE \<Rightarrow> Some (NVME_ZONE_OFFLINE, False)
      | NVME_ZONE_STATE_READ_ONLY \<Rightarrow> Some (NVME_ZONE_READ_ONLY, False)
      | _ \<Rightarrow> None)"

definition zns_check_zone_write :: "FemuCtrl \<Rightarrow> NvmeZone \<Rightarrow> nat \<Rightarrow> nat \<Rightarrow> bool \<Rightarrow> nvme_status option" where
  "zns_check_zone_write n zone slba nlb append_f = do {
     status \<leftarrow> (if u64 (slba + nlb) > zns_zone_wr_boundary zone
                then Some (NVME_ZONE_BOUNDARY_ERROR, False)
                else zns_check_zone_state_for_write zone);
     if status \<noteq> OK then Some status
     else do {
       assert_c (zns_wp_is_valid zone);
       if append_f then do {
         let status = (if slba \<noteq> d_zslba zone then (NVME_INVALID_FIELD, False) else status);
         let status = (if zns_l2b n nlb > page_size n * 2 ^ zasl n
                       then (NVME_INVALID_FIELD, False) else status);
         Some status
       } else if slba \<noteq> w_ptr zone then Some (NVME_ZONE_INVALID_WRITE, False)
       else Some status
     }
   }"

definition zns_check_zone_state_for_read :: "NvmeZone \<Rightarrow> nvme_status option" where
  "zns_check_zone_state_for_read zone =
     (case zns_get_zone_state zone of
        NVME_ZONE_STATE_EMPTY \<Rightarrow> Some OK
      | NVME_ZONE_STATE_IMPLICITLY_OPEN \<Rightarrow> Some OK
      | NVME_ZONE_STATE_EXPLICITLY_OPEN \<Rightarrow> Some OK
      | NVME_ZONE_STATE_FULL \<Rightarrow> Some OK
      | NVME_ZONE_STATE_CLOSED \<Rightarrow> Some OK
      | NVME_ZONE_STATE_READ_ONLY \<Rightarrow> Some OK
      | NVME_ZONE_STATE_OFFLINE \<Rightarrow> Some (NVME_ZONE_OFFLINE, False)
      | _ \<Rightarrow> None)"

text \<open>The \<open>do\<close>-\<open>while\<close> loop over the zones after the first; it leaves the array after at most
  \<open>length (zone_array n)\<close> steps, by its condition or by an access outside the array.\<close>

function zns_check_read_rest :: "FemuCtrl \<Rightarrow> nat \<Rightarrow> nat \<Rightarrow> nvme_status option" where
  "zns_check_read_rest n zend zone =
     (case zone_at n (Suc zone) of
        None \<Rightarrow> None
      | Some z \<Rightarrow>
          (case zns_check_zone_state_for_read z of
             None \<Rightarrow> None
           | Some status \<Rightarrow>
               if status \<noteq> OK then Some status
               else if zend > zns_zone_rd_boundary n z then zns_check_read_rest n zend (Suc zone)
               else Some status))"
  by pat_completeness auto
termination
  by (relation "measure (\<lambda>(n, zend, zone). length (zone_array n) - zone)")
     (auto simp: zone_at_def split: if_splits)

declare zns_check_read_rest.simps [simp del]

definition zns_check_zone_read :: "FemuCtrl \<Rightarrow> nat \<Rightarrow> nat \<Rightarrow> nvme_status option" where
  "zns_check_zone_read n slba nlb = do {
     zone \<leftarrow> zns_get_zone_by_slba n slba;
     z \<leftarrow> zone_at n zone;
     let bndry = zns_zone_rd_boundary n z;
     let zend = u64 (slba + nlb);
     status \<leftarrow> zns_check_zone_state_for_read z;
     if status \<noteq> OK then Some status
     else if zend > bndry then
       (if \<not> cross_zone_read n then Some (NVME_ZONE_BOUNDARY_ERROR, False)
        else zns_check_read_rest n zend zone)
     else Some status
   }"

section \<open>Implicit open\<close>

definition zns_auto_transition_zone :: "FemuCtrl \<Rightarrow> FemuCtrl option" where
  "zns_auto_transition_zone n =
     (if max_open_zones n \<noteq> 0 \<and> nr_open_zones n = int (max_open_zones n) then
        (case imp_open_zones n of
           [] \<Rightarrow> Some n
         | zone # _ \<Rightarrow> do {
             q \<leftarrow> QTAILQ_REMOVE (imp_open_zones n) zone;
             let n = n\<lparr>imp_open_zones := q\<rparr>;
             n \<leftarrow> zns_aor_dec_open n;
             zns_assign_zone_state n zone NVME_ZONE_STATE_CLOSED
           })
      else Some n)"

definition zns_auto_open_zone :: "FemuCtrl \<Rightarrow> nat \<Rightarrow> (nvme_status \<times> FemuCtrl) option" where
  "zns_auto_open_zone n zone = do {
     z \<leftarrow> zone_at n zone;
     let zs = zns_get_zone_state z;
     if zs = NVME_ZONE_STATE_EMPTY then do {
       n \<leftarrow> zns_auto_transition_zone n;
       Some (zns_aor_check n 1 1, n)
     } else if zs = NVME_ZONE_STATE_CLOSED then do {
       n \<leftarrow> zns_auto_transition_zone n;
       Some (zns_aor_check n 0 1, n)
     } else Some (OK, n)
   }"

section \<open>Write pointers\<close>

text \<open>\<open>zns_finalize_zoned_write\<close> after the request has been decoded; the failed flag only
  clears the result field of the completion, which the caller holds.\<close>

definition zns_finalize_zoned_write :: "FemuCtrl \<Rightarrow> nat \<Rightarrow> nat \<Rightarrow> FemuCtrl option" where
  "zns_finalize_zoned_write n slba nlb = do {
     zone \<leftarrow> zns_get_zone_by_slba n slba;
     _ \<leftarrow> zone_at n zone;
     let n = upd_zone zone (\<lambda>z. z\<lparr>d_wp := u64 (d_wp z + nlb)\<rparr>) n;
     let z = zone_array n ! zone;
     if d_wp z = zns_zone_wr_boundary z then
       (case zns_get_zone_state z of
          NVME_ZONE_STATE_IMPLICITLY_OPEN \<Rightarrow> do {
            n \<leftarrow> zns_aor_dec_open n; n \<leftarrow> zns_aor_dec_active n;
            zns_assign_zone_state n zone NVME_ZONE_STATE_FULL }
        | NVME_ZONE_STATE_EXPLICITLY_OPEN \<Rightarrow> do {
            n \<leftarrow> zns_aor_dec_open n; n \<leftarrow> zns_aor_dec_active n;
            zns_assign_zone_state n zone NVME_ZONE_STATE_FULL }
        | NVME_ZONE_STATE_CLOSED \<Rightarrow> do {
            n \<leftarrow> zns_aor_dec_active n;
            zns_assign_zone_state n zone NVME_ZONE_STATE_FULL }
        | NVME_ZONE_STATE_EMPTY \<Rightarrow> zns_assign_zone_state n zone NVME_ZONE_STATE_FULL
        | NVME_ZONE_STATE_FULL \<Rightarrow> Some n
        | _ \<Rightarrow> None)
     else Some n
   }"

definition zns_advance_zone_wp :: "FemuCtrl \<Rightarrow> nat \<Rightarrow> nat \<Rightarrow> (nat \<times> FemuCtrl) option" where
  "zns_advance_zone_wp n zone nlb = do {
     z \<leftarrow> zone_at n zone;
     let result = w_ptr z;
     let n = upd_zone zone (\<lambda>z. z\<lparr>w_ptr := u64 (w_ptr z + nlb)\<rparr>) n;
     let z = zone_array n ! zone;
     if w_ptr z < zns_zone_wr_boundary z then
       (case zns_get_zone_state z of
          NVME_ZONE_STATE_EMPTY \<Rightarrow> do {
            n \<leftarrow> zns_aor_inc_active n; n \<leftarrow> zns_aor_inc_open n;
            n \<leftarrow> zns_assign_zone_state n zone NVME_ZONE_STATE_IMPLICITLY_OPEN;
            Some (result, n) }
        | NVME_ZONE_STATE_CLOSED \<Rightarrow> do {
            n \<leftarrow> zns_aor_inc_open n;
            n \<leftarrow> zns_assign_zone_state n zone NVME_ZONE_STATE_IMPLICITLY_OPEN;
            Some (result, n) }
        | _ \<Rightarrow> Some (result, n))
     else Some (result, n)
   }"

definition zns_aio_zone_reset_cb :: "FemuCtrl \<Rightarrow> nat \<Rightarrow> FemuCtrl option" where
  "zns_aio_zone_reset_cb n zone = do {
     z \<leftarrow> zone_at n zone;
     let rewind = (\<lambda>n. zns_assign_zone_state
           (upd_zone zone (\<lambda>z. z\<lparr>w_ptr := d_zslba z, d_wp := d_zslba z\<rparr>) n)
           zone NVME_ZONE_STATE_EMPTY);
     case zns_get_zone_state z of
       NVME_ZONE_STATE_EXPLICITLY_OPEN \<Rightarrow>
         do { n \<leftarrow> zns_aor_dec_open n; n \<leftarrow> zns_aor_dec_active n; rewind n }
     | NVME_ZONE_STATE_IMPLICITLY_OPEN \<Rightarrow>
         do { n \<leftarrow> zns_aor_dec_open n; n \<leftarrow> zns_aor_dec_active n; rewind n }
     | NVME_ZONE_STATE_CLOSED \<Rightarrow> do { n \<leftarrow> zns_aor_dec_active n; rewind n }
     | NVME_ZONE_STATE_FULL \<Rightarrow> rewind n
     | _ \<Rightarrow> Some n
   }"

section \<open>Handlers of the zone management commands\<close>

type_synonym op_handler_t = "FemuCtrl \<Rightarrow> nat \<Rightarrow> NvmeZoneState \<Rightarrow> (nvme_status \<times> FemuCtrl) option"

abbreviation INVAL_TRANSITION :: nvme_status where
  "INVAL_TRANSITION \<equiv> (NVME_ZONE_INVAL_TRANSITION, False)"

text \<open>The part of \<open>zns_open_zone\<close> from its label for closed zones on, which empty zones reach by
  falling through.\<close>

definition zns_open_zone_closed :: op_handler_t where
  "zns_open_zone_closed n zone state =
     (let status = zns_aor_check n 0 1
      in if status \<noteq> OK then
           (if state = NVME_ZONE_STATE_EMPTY
            then do { n \<leftarrow> zns_aor_dec_active n; Some (status, n) }
            else Some (status, n))
         else do {
           n \<leftarrow> zns_aor_inc_open n;
           n \<leftarrow> zns_assign_zone_state n zone NVME_ZONE_STATE_EXPLICITLY_OPEN;
           Some (OK, n) })"

definition zns_open_zone :: op_handler_t where
  "zns_open_zone n zone state =
     (case state of
        NVME_ZONE_STATE_EMPTY \<Rightarrow>
          (let status = zns_aor_check n 1 0
           in if status \<noteq> OK then Some (status, n)
              else do { n \<leftarrow> zns_aor_inc_active n; zns_open_zone_closed n zone state })
      | NVME_ZONE_STATE_CLOSED \<Rightarrow> zns_open_zone_closed n zone state
      | NVME_ZONE_STATE_IMPLICITLY_OPEN \<Rightarrow>
          do { n \<leftarrow> zns_assign_zone_state n zone NVME_ZONE_STATE_EXPLICITLY_OPEN; Some (OK, n) }
      | NVME_ZONE_STATE_EXPLICITLY_OPEN \<Rightarrow> Some (OK, n)
      | _ \<Rightarrow> Some (INVAL_TRANSITION, n))"

definition zns_close_zone :: op_handler_t where
  "zns_close_zone n zone state =
     (if state = NVME_ZONE_STATE_EXPLICITLY_OPEN \<or> state = NVME_ZONE_STATE_IMPLICITLY_OPEN then do {
        n \<leftarrow> zns_aor_dec_open n;
        n \<leftarrow> zns_assign_zone_state n zone NVME_ZONE_STATE_CLOSED;
        Some (OK, n)
      } else if state = NVME_ZONE_STATE_CLOSED then Some (OK, n)
      else Some (INVAL_TRANSITION, n))"

definition zns_finish_zone :: op_handler_t where
  "zns_finish_zone n zone state =
     (let fill = (\<lambda>n. do {
            _ \<leftarrow> zone_at n zone;
            let n = upd_zone zone (\<lambda>z. z\<lparr>w_ptr := zns_zone_wr_boundary z,
                                        d_wp := zns_zone_wr_boundary z\<rparr>) n;
            n \<leftarrow> zns_assign_zone_state n zone NVME_ZONE_STATE_FULL;
            Some (OK, n) })
      in case state of
           NVME_ZONE_STATE_EXPLICITLY_OPEN \<Rightarrow>
             do { n \<leftarrow> zns_aor_dec_open n; n \<leftarrow> zns_aor_dec_active n; fill n }
         | NVME_ZONE_STATE_IMPLICITLY_OPEN \<Rightarrow>
             do { n \<leftarrow> zns_aor_dec_open n; n \<leftarrow> zns_aor_dec_active n; fill n }
         | NVME_ZONE_STATE_CLOSED \<Rightarrow> do { n \<leftarrow> zns_aor_dec_active n; fill n }
         | NVME_ZONE_STATE_EMPTY \<Rightarrow> fill n
         | NVME_ZONE_STATE_FULL \<Rightarrow> Some (OK, n)
         | _ \<Rightarrow> Some (INVAL_TRANSITION, n))"

definition zns_reset_zone :: op_handler_t where
  "zns_reset_zone n zone state =
     (case state of
        NVME_ZONE_STATE_EMPTY \<Rightarrow> Some (OK, n)
      | NVME_ZONE_STATE_EXPLICITLY_OPEN \<Rightarrow> do { n \<leftarrow> zns_aio_zone_reset_cb n zone; Some (OK, n) }
      | NVME_ZONE_STATE_IMPLICITLY_OPEN \<Rightarrow> do { n \<leftarrow> zns_aio_zone_reset_cb n zone; Some (OK, n) }
      | NVME_ZONE_STATE_CLOSED \<Rightarrow> do { n \<leftarrow> zns_aio_zone_reset_cb n zone; Some (OK, n) }
      | NVME_ZONE_STATE_FULL \<Rightarrow> do { n \<leftarrow> zns_aio_zone_reset_cb n zone; Some (OK, n) }
      | _ \<Rightarrow> Some (INVAL_TRANSITION, n))"

definition zns_offline_zone :: op_handler_t where
  "zns_offline_zone n zone state =
     (if state = NVME_ZONE_STATE_READ_ONLY then
        do { n \<leftarrow> zns_assign_zone_state n zone NVME_ZONE_STATE_OFFLINE; Some (OK, n) }
      else if state = NVME_ZONE_STATE_OFFLINE then Some (OK, n)
      else Some (INVAL_TRANSITION, n))"

definition zns_set_zd_ext :: "FemuCtrl \<Rightarrow> nat \<Rightarrow> (nvme_status \<times> FemuCtrl) option" where
  "zns_set_zd_ext n zone = do {
     z \<leftarrow> zone_at n zone;
     if zns_get_zone_state z = NVME_ZONE_STATE_EMPTY then do {
       let status = zns_aor_check n 1 0;
       if status \<noteq> OK then Some (status, n)
       else do {
         n \<leftarrow> zns_aor_inc_active n;
         let n = upd_zone zone (\<lambda>z. z\<lparr>d_za := d_za z OR NVME_ZA_ZD_EXT_VALID\<rparr>) n;
         n \<leftarrow> zns_assign_zone_state n zone NVME_ZONE_STATE_CLOSED;
         Some (OK, n)
       }
     } else Some (INVAL_TRANSITION, n)
   }"

section \<open>Applying a handler to one zone or to a class of zones\<close>

definition NVME_PROC_CURRENT_ZONE :: nat where "NVME_PROC_CURRENT_ZONE = 0"

definition NVME_PROC_OPENED_ZONES :: nat where "NVME_PROC_OPENED_ZONES = 2 ^ 0"

definition NVME_PROC_CLOSED_ZONES :: nat where "NVME_PROC_CLOSED_ZONES = 2 ^ 1"

definition NVME_PROC_READ_ONLY_ZONES :: nat where "NVME_PROC_READ_ONLY_ZONES = 2 ^ 2"

definition NVME_PROC_FULL_ZONES :: nat where "NVME_PROC_FULL_ZONES = 2 ^ 3"

definition zns_bulk_proc_zone ::
  "FemuCtrl \<Rightarrow> nat \<Rightarrow> nat \<Rightarrow> op_handler_t \<Rightarrow> (nvme_status \<times> FemuCtrl) option" where
  "zns_bulk_proc_zone n zone proc_mask op_hndlr = do {
     z \<leftarrow> zone_at n zone;
     let zs = zns_get_zone_state z;
     let proc_zone =
       (case zs of
          NVME_ZONE_STATE_IMPLICITLY_OPEN \<Rightarrow> proc_mask AND NVME_PROC_OPENED_ZONES \<noteq> 0
        | NVME_ZONE_STATE_EXPLICITLY_OPEN \<Rightarrow> proc_mask AND NVME_PROC_OPENED_ZONES \<noteq> 0
        | NVME_ZONE_STATE_CLOSED \<Rightarrow> proc_mask AND NVME_PROC_CLOSED_ZONES \<noteq> 0
        | NVME_ZONE_STATE_READ_ONLY \<Rightarrow> proc_mask AND NVME_PROC_READ_ONLY_ZONES \<noteq> 0
        | NVME_ZONE_STATE_FULL \<Rightarrow> proc_mask AND NVME_PROC_FULL_ZONES \<noteq> 0
        | _ \<Rightarrow> False);
     if proc_zone then op_hndlr n zone zs else Some (OK, n)
   }"

text \<open>One of the loops of \<open>zns_do_zone_op\<close>; the flag of the result is the jump to \<open>out\<close>.
  The handlers move a zone only to the queue of another state, so each \<open>QTAILQ_FOREACH_SAFE\<close>
  visits the elements its queue had at its start.\<close>

fun zns_proc_zones ::
  "nat \<Rightarrow> op_handler_t \<Rightarrow> nat list \<Rightarrow> nvme_status \<Rightarrow> FemuCtrl \<Rightarrow> (nvme_status \<times> FemuCtrl \<times> bool) option" where
  "zns_proc_zones proc_mask op_hndlr [] status n = Some (status, n, False)"
| "zns_proc_zones proc_mask op_hndlr (zone # zones) status n = do {
     (status, n) \<leftarrow> zns_bulk_proc_zone n zone proc_mask op_hndlr;
     if status \<noteq> OK \<and> status \<noteq> (NVME_NO_COMPLETE, False) then Some (status, n, True)
     else zns_proc_zones proc_mask op_hndlr zones status n
   }"

text \<open>The loop over one class of zones, entered unless an earlier one has jumped to \<open>out\<close>.\<close>

definition zns_proc_class ::
  "nat \<Rightarrow> (FemuCtrl \<Rightarrow> nat list) \<Rightarrow> nat \<Rightarrow> op_handler_t \<Rightarrow> nvme_status \<times> FemuCtrl \<times> bool \<Rightarrow>
   (nvme_status \<times> FemuCtrl \<times> bool) option" where
  "zns_proc_class cls zones proc_mask op_hndlr =
     (\<lambda>(status, n, out).
        if \<not> out \<and> proc_mask AND cls \<noteq> 0 then zns_proc_zones proc_mask op_hndlr (zones n) status n
        else Some (status, n, out))"

definition zns_do_zone_op ::
  "FemuCtrl \<Rightarrow> nat \<Rightarrow> nat \<Rightarrow> op_handler_t \<Rightarrow> (nvme_status \<times> FemuCtrl) option" where
  "zns_do_zone_op n zone proc_mask op_hndlr =
     (if proc_mask = 0 then do {
        z \<leftarrow> zone_at n zone;
        op_hndlr n zone (zns_get_zone_state z)
      } else do {
        r \<leftarrow> zns_proc_class NVME_PROC_CLOSED_ZONES closed_zones proc_mask op_hndlr (OK, n, False);
        r \<leftarrow> zns_proc_class NVME_PROC_OPENED_ZONES imp_open_zones proc_mask op_hndlr r;
        r \<leftarrow> zns_proc_class NVME_PROC_OPENED_ZONES exp_open_zones proc_mask op_hndlr r;
        r \<leftarrow> zns_proc_class NVME_PROC_FULL_ZONES full_zones proc_mask op_hndlr r;
        r \<leftarrow> zns_proc_class NVME_PROC_READ_ONLY_ZONES (\<lambda>n. [zone ..< zone + num_zones n])
               proc_mask op_hndlr r;
        Some (fst r, fst (snd r))
      })"

section \<open>What stays the same\<close>

text \<open>Everything but the states, attributes and write pointers of the zones, the queues and the
  counters.\<close>

definition zone_erase :: "NvmeZone \<Rightarrow> NvmeZone" where
  "zone_erase z = z\<lparr>d_zs := 0, d_za := 0, d_wp := 0, w_ptr := 0\<rparr>"

definition zone_dynamic_erase :: "FemuCtrl \<Rightarrow> FemuCtrl" where
  "zone_dynamic_erase n = n\<lparr>zone_array := map zone_erase (zone_array n), exp_open_zones := [],
     imp_open_zones := [], closed_zones := [], full_zones := [], nr_open_zones := 0, nr_active_zones := 0\<rparr>"

definition same_cfg :: "FemuCtrl \<Rightarrow> FemuCtrl \<Rightarrow> bool" where
  "same_cfg n n' \<longleftrightarrow> zone_dynamic_erase n' = zone_dynamic_erase n"

lemma zone_erase_simps [simp]:
  "zone_erase (z\<lparr>d_zs := a\<rparr>) = zone_erase z" "zone_erase (z\<lparr>d_za := a\<rparr>) = zone_erase z"
  "zone_erase (z\<lparr>d_wp := a\<rparr>) = zone_erase z" "zone_erase (z\<lparr>w_ptr := a\<rparr>) = zone_erase z"
  "zone_erase (zns_set_zone_state z st) = zone_erase z" "zone_erase (enter_state st z) = zone_erase z"
  by (simp_all add: zone_erase_def zns_set_zone_state_def enter_state_def)

lemma map_zone_erase_upd:
  "zone_erase (f (xs ! i)) = zone_erase (xs ! i) \<Longrightarrow> map zone_erase (xs[i := f (xs ! i)]) = map zone_erase xs"
  by (metis list_update_id map_update)

lemma same_cfg_refl [simp]: "same_cfg n n"
  by (simp add: same_cfg_def)

lemma same_cfg_trans [trans]: "same_cfg n n' \<Longrightarrow> same_cfg n' n'' \<Longrightarrow> same_cfg n n''"
  by (simp add: same_cfg_def)

lemma same_cfg_fields:
  assumes "same_cfg n n'"
  shows "num_zones n' = num_zones n" "max_open_zones n' = max_open_zones n"
    "max_active_zones n' = max_active_zones n" "zone_size n' = zone_size n"
    "zone_size_log2 n' = zone_size_log2 n" "nsze n' = nsze n" "ns_size n' = ns_size n"
    "lbads n' = lbads n" "zoned n' = zoned n" "backend_calls n' = backend_calls n"
    "zone_capacity n' = zone_capacity n" "page_size n' = page_size n" "zasl n' = zasl n"
    "zd_extension_size n' = zd_extension_size n" "zd_extensions n' = zd_extensions n"
  using assms unfolding same_cfg_def zone_dynamic_erase_def
  by (auto dest: arg_cong [of _ _ num_zones] arg_cong [of _ _ max_open_zones]
      arg_cong [of _ _ max_active_zones] arg_cong [of _ _ zone_size] arg_cong [of _ _ zone_size_log2]
      arg_cong [of _ _ nsze] arg_cong [of _ _ ns_size] arg_cong [of _ _ lbads] arg_cong [of _ _ zoned]
      arg_cong [of _ _ backend_calls] arg_cong [of _ _ zone_capacity] arg_cong [of _ _ page_size]
      arg_cong [of _ _ zasl] arg_cong [of _ _ zd_extension_size] arg_cong [of _ _ zd_extensions])

lemma same_cfg_zone:
  assumes "same_cfg n n'"
  shows "length (zone_array n') = length (zone_array n)"
    and "i < length (zone_array n) \<Longrightarrow> d_zslba (zone_array n' ! i) = d_zslba (zone_array n ! i)"
    and "i < length (zone_array n) \<Longrightarrow> d_zcap (zone_array n' ! i) = d_zcap (zone_array n ! i)"
proof -
  from assms have *: "map zone_erase (zone_array n') = map zone_erase (zone_array n)"
    unfolding same_cfg_def zone_dynamic_erase_def by (auto dest: arg_cong [of _ _ zone_array])
  then show len: "length (zone_array n') = length (zone_array n)" by (rule map_eq_imp_length_eq)
  assume "i < length (zone_array n)"
  with * len have "zone_erase (zone_array n' ! i) = zone_erase (zone_array n ! i)" by (metis nth_map)
  then show "d_zslba (zone_array n' ! i) = d_zslba (zone_array n ! i)"
    "d_zcap (zone_array n' ! i) = d_zcap (zone_array n ! i)"
    unfolding zone_erase_def by (auto dest: arg_cong [of _ _ d_zslba] arg_cong [of _ _ d_zcap])
qed

lemma same_cfg_upd_zone [simp]:
  "(\<And>z. zone_erase (f z) = zone_erase z) \<Longrightarrow> same_cfg n (upd_zone i f n') = same_cfg n n'"
  by (simp add: same_cfg_def zone_dynamic_erase_def upd_zone_def map_zone_erase_upd)

lemma same_cfg_upds [simp]:
  "same_cfg n (zone_q_upd st g n') = same_cfg n n'"
  "same_cfg n (n'\<lparr>nr_open_zones := a\<rparr>) = same_cfg n n'"
  "same_cfg n (n'\<lparr>nr_active_zones := a\<rparr>) = same_cfg n n'"
  "same_cfg n (n'\<lparr>closed_zones := q\<rparr>) = same_cfg n n'"
  "same_cfg n (n'\<lparr>imp_open_zones := q\<rparr>) = same_cfg n n'"
  "same_cfg n (n'\<lparr>exp_open_zones := q\<rparr>) = same_cfg n n'"
  "same_cfg n (move_zone n' i st) = same_cfg n n'"
  "same_cfg n (transit n' i st) = same_cfg n n'"
  by (simp_all add: same_cfg_def zone_dynamic_erase_def upd_zone_def zone_q_upd_def move_zone_def
      transit_def map_zone_erase_upd split: NvmeZoneState.splits)

section \<open>Well-formed zones\<close>

text \<open>Both write pointers agree and lie in the zone; an empty zone's is at its start, a full
  zone's at its write boundary, an open or closed zone has room left.\<close>

definition zone_ok :: "NvmeZone \<Rightarrow> bool" where
  "zone_ok z \<longleftrightarrow>
     0 < d_zcap z \<and> d_zslba z + d_zcap z < 2 ^ 64 \<and> w_ptr z = d_wp z \<and>
     d_zslba z \<le> w_ptr z \<and> w_ptr z \<le> d_zslba z + d_zcap z \<and>
     (case zns_get_zone_state z of
        NVME_ZONE_STATE_RESERVED \<Rightarrow> False
      | NVME_ZONE_STATE_EMPTY \<Rightarrow> w_ptr z = d_zslba z
      | NVME_ZONE_STATE_IMPLICITLY_OPEN \<Rightarrow> w_ptr z < d_zslba z + d_zcap z
      | NVME_ZONE_STATE_EXPLICITLY_OPEN \<Rightarrow> w_ptr z < d_zslba z + d_zcap z
      | NVME_ZONE_STATE_CLOSED \<Rightarrow> w_ptr z < d_zslba z + d_zcap z
      | NVME_ZONE_STATE_FULL \<Rightarrow> w_ptr z = d_zslba z + d_zcap z
      | NVME_ZONE_STATE_READ_ONLY \<Rightarrow> True
      | NVME_ZONE_STATE_OFFLINE \<Rightarrow> True)"

definition zones_ok :: "FemuCtrl \<Rightarrow> bool" where
  "zones_ok n \<longleftrightarrow> list_all zone_ok (zone_array n)"

lemma zone_ok_boundary: "zone_ok z \<Longrightarrow> zns_zone_wr_boundary z = d_zslba z + d_zcap z"
  by (simp add: zone_ok_def zns_zone_wr_boundary_def u64_id)

lemma zones_ok_nth: "zones_ok n \<longleftrightarrow> (\<forall>i < length (zone_array n). zone_ok (zone_array n ! i))"
  by (simp add: zones_ok_def list_all_length)

lemma zones_ok_update: "zones_ok n \<Longrightarrow> zone_array n' = (zone_array n)[i := z] \<Longrightarrow> zone_ok z \<Longrightarrow> zones_ok n'"
  by (auto simp: zones_ok_def list_all_iff dest!: set_update_subset_insert [THEN subsetD])

section \<open>The counters along a handler\<close>

lemma aor_check_ok:
  "zns_aor_check n act opn = OK \<longleftrightarrow>
     (max_active_zones n \<noteq> 0 \<longrightarrow> nr_active_zones n + int act \<le> int (max_active_zones n)) \<and>
     (max_open_zones n \<noteq> 0 \<longrightarrow> nr_open_zones n + int opn \<le> int (max_open_zones n))"
  by (auto simp: zns_aor_check_def dnr_def)

lemma zns_inv_counters:
  assumes "zns_inv n"
  shows "nr_open_zones n = of_bool (max_open_zones n \<noteq> 0) * int (open_cnt n)"
    "nr_active_zones n = of_bool (max_active_zones n \<noteq> 0) * int (active_cnt n)"
    "max_open_zones n \<noteq> 0 \<Longrightarrow> open_cnt n \<le> max_open_zones n"
    "max_active_zones n \<noteq> 0 \<Longrightarrow> active_cnt n \<le> max_active_zones n"
  using assms by (auto simp: zns_inv_def aor_inv_def)

lemma zns_inv_queue: "zns_inv n \<Longrightarrow> queue_inv n"
  by (simp add: zns_inv_def)

lemma dec_open_eq:
  assumes "zns_inv n" and "i < num_zones n" and "is_open (zone_state n i)"
  shows "zns_aor_dec_open n = Some (n\<lparr>nr_open_zones := nr_open_zones n - of_bool (max_open_zones n \<noteq> 0)\<rparr>)"
  using open_cnt_pos [OF zns_inv_queue [OF assms(1)] assms(2,3)] zns_inv_counters [OF assms(1)]
  by (intro zns_aor_dec_open_eq) simp_all

lemma dec_active_closed_eq:
  assumes "zns_inv n" and "i < num_zones n" and "zone_state n i = NVME_ZONE_STATE_CLOSED"
  shows "zns_aor_dec_active n = Some (n\<lparr>nr_active_zones := nr_active_zones n - of_bool (max_active_zones n \<noteq> 0)\<rparr>)"
  using active_cnt_pos [OF zns_inv_queue [OF assms(1)] assms(2)] zns_inv_counters [OF assms(1)] assms(3)
  by (intro zns_aor_dec_active_eq) (simp_all add: is_active_def is_open_def)

lemma dec_active_open_eq:
  assumes "zns_inv n" and "i < num_zones n" and "is_open (zone_state n i)"
  shows "zns_aor_dec_active (n\<lparr>nr_open_zones := nr_open_zones n - of_bool (max_open_zones n \<noteq> 0)\<rparr>) =
    Some (n\<lparr>nr_open_zones := nr_open_zones n - of_bool (max_open_zones n \<noteq> 0),
            nr_active_zones := nr_active_zones n - of_bool (max_active_zones n \<noteq> 0)\<rparr>)"
  using active_cnt_pos(1) [OF zns_inv_queue [OF assms(1)] assms(2)] zns_inv_counters [OF assms(1)]
    open_cnt_pos [OF zns_inv_queue [OF assms(1)] assms(2,3)] assms(3) open_le_active [of n]
  by (subst zns_aor_dec_active_eq) (auto simp: is_active_def)

lemma inc_active_eq:
  assumes "zns_inv n" and "zns_aor_check n 1 k = OK"
  shows "zns_aor_inc_active n = Some (n\<lparr>nr_active_zones := nr_active_zones n + of_bool (max_active_zones n \<noteq> 0)\<rparr>)"
  using zns_inv_counters [OF assms(1)] assms(2)
  by (intro zns_aor_inc_active_eq) (auto simp: aor_check_ok)

lemma inc_open_eq:
  assumes "zns_inv n" and "zns_aor_check n k 1 = OK"
  shows "zns_aor_inc_open n = Some (n\<lparr>nr_open_zones := nr_open_zones n + of_bool (max_open_zones n \<noteq> 0)\<rparr>)"
  using zns_inv_counters [OF assms(1)] assms(2)
  by (intro zns_aor_inc_open_eq) (auto simp: aor_check_ok)

lemma room_of_check:
  assumes "zns_inv n" and "zns_aor_check n act opn = OK"
  shows "opn = 1 \<Longrightarrow> max_open_zones n \<noteq> 0 \<Longrightarrow> open_cnt n < max_open_zones n"
    and "act = 1 \<Longrightarrow> max_active_zones n \<noteq> 0 \<Longrightarrow> active_cnt n < max_active_zones n"
  using zns_inv_counters [OF assms(1)] assms(2) by (auto simp: aor_check_ok)

lemmas handler_simps =
  zone_at_eq zns_assign_zone_state_eq dec_open_eq dec_active_closed_eq dec_active_open_eq
  is_open_def is_active_def Let_def

section \<open>Each handler as one change of state\<close>

text \<open>On a controller that satisfies the invariant no assertion fails, and a handler is
  one \<^const>\<open>transit\<close> or leaves the controller alone.\<close>

lemma transit_upd_zone:
  assumes "\<And>z. zns_get_zone_state (f z) = zns_get_zone_state z"
  shows "(move_zone (upd_zone i f n) i st)
      \<lparr>nr_open_zones := nr_open_zones n + of_bool (max_open_zones n \<noteq> 0) *
          (of_bool (is_open st) - of_bool (is_open (zone_state n i))),
       nr_active_zones := nr_active_zones n + of_bool (max_active_zones n \<noteq> 0) *
          (of_bool (is_active st) - of_bool (is_active (zone_state n i)))\<rparr> =
    transit (upd_zone i f n) i st"
  by (simp add: transit_def zone_state_upd_zone assms)

lemma nr_upd_same: "n\<lparr>nr_open_zones := nr_open_zones n\<rparr> = n" "n\<lparr>nr_active_zones := nr_active_zones n\<rparr> = n"
  by simp_all

lemma transit_eqI:
  assumes "nr_open_zones n + of_bool (max_open_zones n \<noteq> 0) *
        (of_bool (is_open st) - of_bool (is_open (zone_state n i))) = a"
    and "nr_active_zones n + of_bool (max_active_zones n \<noteq> 0) *
        (of_bool (is_active st) - of_bool (is_active (zone_state n i))) = b"
  shows "transit n i st = (move_zone n i st)\<lparr>nr_open_zones := a, nr_active_zones := b\<rparr>"
  using assms by (simp add: transit_def)

definition can_open :: "FemuCtrl \<Rightarrow> NvmeZoneState \<Rightarrow> nvme_status" where
  "can_open n st = (if is_open st then OK
     else if st = NVME_ZONE_STATE_EMPTY then zns_aor_check n 1 1
     else if st = NVME_ZONE_STATE_CLOSED then zns_aor_check n 0 1
     else INVAL_TRANSITION)"

lemma zns_close_zone_eq:
  assumes "zns_inv n" and "i < num_zones n"
  shows "zns_close_zone n i (zone_state n i) =
    (if is_open (zone_state n i) then Some (OK, transit n i NVME_ZONE_STATE_CLOSED)
     else if zone_state n i = NVME_ZONE_STATE_CLOSED then Some (OK, n)
     else Some (INVAL_TRANSITION, n))"
proof (cases "is_open (zone_state n i)")
  case True
  with assms have "zns_close_zone n i (zone_state n i) = Some (OK, transit n i NVME_ZONE_STATE_CLOSED)"
    by (auto simp: zns_close_zone_def dec_open_eq zns_assign_zone_state_eq zns_inv_queue transit_def
        is_active_def is_open_def)
  with True show ?thesis by simp
qed (simp add: zns_close_zone_def is_open_def)

lemma zns_open_zone_closed_eq:
  assumes "zns_inv n" and "i < num_zones n" and "zone_state n i = NVME_ZONE_STATE_CLOSED"
  shows "zns_open_zone_closed n i (zone_state n i) =
    Some (zns_aor_check n 0 1, if zns_aor_check n 0 1 = OK then transit n i NVME_ZONE_STATE_EXPLICITLY_OPEN else n)"
proof (cases "zns_aor_check n 0 1 = OK")
  case True
  with assms show ?thesis
    by (simp add: zns_open_zone_closed_def Let_def inc_open_eq [OF assms(1) True] zns_assign_zone_state_eq
        zns_inv_queue transit_def is_active_def is_open_def)
qed (simp add: zns_open_zone_closed_def Let_def assms)

lemma zns_open_zone_empty_eq:
  assumes "zns_inv n" and "i < num_zones n" and "zone_state n i = NVME_ZONE_STATE_EMPTY"
  shows "zns_open_zone n i (zone_state n i) =
    Some (zns_aor_check n 1 1, if zns_aor_check n 1 1 = OK then transit n i NVME_ZONE_STATE_EXPLICITLY_OPEN else n)"
proof (cases "zns_aor_check n 1 0 = OK")
  case False
  then have "zns_aor_check n 1 1 = zns_aor_check n 1 0"
    using zns_inv_counters [OF assms(1)] by (auto simp: zns_aor_check_def split: if_splits)
  with False show ?thesis by (simp add: zns_open_zone_def assms(3) Let_def)
next
  case True
  let ?n = "n\<lparr>nr_active_zones := nr_active_zones n + of_bool (max_active_zones n \<noteq> 0)\<rparr>"
  note inc = inc_active_eq [OF assms(1) True]
  have chk: "zns_aor_check ?n 0 1 = zns_aor_check n 1 1"
    using True by (auto simp: aor_check_ok) (auto simp: zns_aor_check_def)
  show ?thesis
  proof (cases "zns_aor_check n 1 1 = OK")
    case True
    have "zns_aor_inc_open ?n = Some (?n\<lparr>nr_open_zones := nr_open_zones n + of_bool (max_open_zones n \<noteq> 0)\<rparr>)"
      using True zns_inv_counters [OF assms(1)]
      by (subst zns_aor_inc_open_eq) (auto simp: aor_check_ok)
    with True \<open>zns_aor_check n 1 0 = OK\<close> assms chk inc show ?thesis
      by (simp add: zns_open_zone_def zns_open_zone_closed_def Let_def zns_assign_zone_state_eq
          zns_inv_queue transit_def is_active_def is_open_def)
  next
    case False
    have "zns_aor_dec_active ?n = Some n"
      using zns_inv_counters [OF assms(1)] open_le_active [of n]
      by (subst zns_aor_dec_active_eq) auto
    with False \<open>zns_aor_check n 1 0 = OK\<close> assms chk inc show ?thesis
      by (simp add: zns_open_zone_def zns_open_zone_closed_def Let_def)
  qed
qed

lemma zns_open_zone_eq:
  assumes "zns_inv n" and "i < num_zones n"
  shows "zns_open_zone n i (zone_state n i) =
    Some (can_open n (zone_state n i),
      if can_open n (zone_state n i) = OK \<and> zone_state n i \<noteq> NVME_ZONE_STATE_EXPLICITLY_OPEN
      then transit n i NVME_ZONE_STATE_EXPLICITLY_OPEN else n)"
proof (cases "zone_state n i")
  case NVME_ZONE_STATE_EMPTY
  with zns_open_zone_empty_eq [OF assms this] show ?thesis by (simp add: can_open_def is_open_def)
next
  case NVME_ZONE_STATE_CLOSED
  then have "zns_open_zone n i (zone_state n i) = zns_open_zone_closed n i (zone_state n i)"
    by (simp add: zns_open_zone_def)
  with zns_open_zone_closed_eq [OF assms NVME_ZONE_STATE_CLOSED] NVME_ZONE_STATE_CLOSED show ?thesis
    by (simp add: can_open_def is_open_def)
next
  case NVME_ZONE_STATE_IMPLICITLY_OPEN
  with assms show ?thesis
    by (simp add: zns_open_zone_def can_open_def is_open_def zns_assign_zone_state_eq zns_inv_queue
        transit_def is_active_def)
qed (simp_all add: zns_open_zone_def can_open_def is_open_def)

abbreviation fill_zone :: "NvmeZone \<Rightarrow> NvmeZone" where
  "fill_zone z \<equiv> z\<lparr>w_ptr := zns_zone_wr_boundary z, d_wp := zns_zone_wr_boundary z\<rparr>"

abbreviation rewind_zone :: "NvmeZone \<Rightarrow> NvmeZone" where
  "rewind_zone z \<equiv> z\<lparr>w_ptr := d_zslba z, d_wp := d_zslba z\<rparr>"

lemma queue_inv_upd_zone_eq:
  assumes "\<And>z. zns_get_zone_state (f z) = zns_get_zone_state z"
  shows "queue_inv (upd_zone i f n) = queue_inv n"
  unfolding queue_inv_def by (simp add: zone_state_upd_zone assms)

lemma assign_upd_zone_eq:
  assumes "zns_inv n" and "i < num_zones n" and "\<And>z. zns_get_zone_state (f z) = zns_get_zone_state z"
  shows "zns_assign_zone_state (upd_zone i f n) i st = Some (move_zone (upd_zone i f n) i st)"
  using assms by (simp add: zns_assign_zone_state_eq queue_inv_upd_zone_eq zns_inv_queue)

lemma assign_nr_eq:
  assumes "zns_inv n" and "i < num_zones n" and "\<And>z. zns_get_zone_state (f z) = zns_get_zone_state z"
  shows "zns_assign_zone_state ((upd_zone i f n)\<lparr>nr_active_zones := b\<rparr>) i st =
      Some ((move_zone (upd_zone i f n) i st)\<lparr>nr_active_zones := b\<rparr>)"
    "zns_assign_zone_state ((upd_zone i f n)\<lparr>nr_open_zones := a, nr_active_zones := b\<rparr>) i st =
      Some ((move_zone (upd_zone i f n) i st)\<lparr>nr_open_zones := a, nr_active_zones := b\<rparr>)"
  using assms by (simp_all add: zns_assign_zone_state_eq queue_inv_upd_zone_eq zns_inv_queue)

text \<open>Leaving the open and closed states: the counters go down by what the zone held.\<close>

lemma release_and_assign:
  assumes inv: "zns_inv n" and i: "i < num_zones n"
    and f: "\<And>z. zns_get_zone_state (f z) = zns_get_zone_state z" and st: "\<not> is_active st"
  shows "is_open (zone_state n i) \<Longrightarrow>
      (zns_aor_dec_open n \<bind> zns_aor_dec_active) \<bind> (\<lambda>n. zns_assign_zone_state (upd_zone i f n) i st) =
      Some (transit (upd_zone i f n) i st)"
    and "zone_state n i = NVME_ZONE_STATE_CLOSED \<Longrightarrow>
      zns_aor_dec_active n \<bind> (\<lambda>n. zns_assign_zone_state (upd_zone i f n) i st) =
      Some (transit (upd_zone i f n) i st)"
    and "\<not> is_active (zone_state n i) \<Longrightarrow>
      zns_assign_zone_state (upd_zone i f n) i st = Some (transit (upd_zone i f n) i st)"
proof -
  have ost: "\<not> is_open st" using st by (simp add: is_active_def)
  show "(zns_aor_dec_open n \<bind> zns_aor_dec_active) \<bind> (\<lambda>n. zns_assign_zone_state (upd_zone i f n) i st) =
      Some (transit (upd_zone i f n) i st)" if "is_open (zone_state n i)"
    using that st ost
    by (simp only: dec_open_eq [OF inv i that] dec_active_open_eq [OF inv i that] bind.bind_lunit
          nr_upd_frames assign_nr_eq [OF inv i f])
       (simp add: transit_def zone_state_upd_zone [OF f] is_active_def)
  show "zns_aor_dec_active n \<bind> (\<lambda>n. zns_assign_zone_state (upd_zone i f n) i st) =
      Some (transit (upd_zone i f n) i st)" if "zone_state n i = NVME_ZONE_STATE_CLOSED"
    using that st ost inv i f
    by (simp add: dec_active_closed_eq assign_nr_eq transit_def zone_state_upd_zone is_active_def is_open_def)
  show "zns_assign_zone_state (upd_zone i f n) i st = Some (transit (upd_zone i f n) i st)"
    if "\<not> is_active (zone_state n i)"
    using that st ost inv i f
    by (simp add: assign_upd_zone_eq transit_def zone_state_upd_zone is_active_def)
qed

lemma bind_assoc_opt: "(m :: 'a option) \<bind> (\<lambda>x. f x \<bind> g) = (m \<bind> f) \<bind> g"
  by (cases m) simp_all

lemma zns_finish_zone_eq:
  assumes "zns_inv n" and "i < num_zones n"
  shows "zns_finish_zone n i (zone_state n i) =
    (if is_active (zone_state n i) \<or> zone_state n i = NVME_ZONE_STATE_EMPTY
     then Some (OK, transit (upd_zone i fill_zone n) i NVME_ZONE_STATE_FULL)
     else if zone_state n i = NVME_ZONE_STATE_FULL then Some (OK, n)
     else Some (INVAL_TRANSITION, n))"
proof -
  note rel = release_and_assign [OF assms, of fill_zone NVME_ZONE_STATE_FULL]
  have len: "i < length (zone_array n)" using assms by (simp add: zns_inv_queue queue_inv_length)
  have "zone_at n' i \<noteq> None" if "zone_array n' = zone_array n" for n'
    using that len by (simp add: zone_at_def)
  show ?thesis
    using rel assms dec_open_eq [OF assms] dec_active_open_eq [OF assms] dec_active_closed_eq [OF assms]
    by (cases "zone_state n i")
       (simp_all add: zns_finish_zone_def Let_def is_active_def is_open_def zone_at_eq zns_inv_queue)
qed

lemma zns_aio_zone_reset_cb_eq:
  assumes "zns_inv n" and "i < num_zones n"
  shows "zns_aio_zone_reset_cb n i =
    (if is_active (zone_state n i) \<or> zone_state n i = NVME_ZONE_STATE_FULL
     then Some (transit (upd_zone i rewind_zone n) i NVME_ZONE_STATE_EMPTY) else Some n)"
proof -
  note rel = release_and_assign [OF assms, of rewind_zone NVME_ZONE_STATE_EMPTY]
  show ?thesis
    using rel assms dec_open_eq [OF assms] dec_active_open_eq [OF assms] dec_active_closed_eq [OF assms]
    by (cases "zone_state n i")
       (simp_all add: zns_aio_zone_reset_cb_def Let_def is_active_def is_open_def zone_at_eq
          zns_inv_queue zone_state_def [symmetric])
qed

lemma zns_reset_zone_eq:
  assumes "zns_inv n" and "i < num_zones n"
  shows "zns_reset_zone n i (zone_state n i) =
    (if is_active (zone_state n i) \<or> zone_state n i = NVME_ZONE_STATE_FULL
     then Some (OK, transit (upd_zone i rewind_zone n) i NVME_ZONE_STATE_EMPTY)
     else if zone_state n i = NVME_ZONE_STATE_EMPTY then Some (OK, n)
     else Some (INVAL_TRANSITION, n))"
  by (cases "zone_state n i")
     (simp_all add: zns_reset_zone_def zns_aio_zone_reset_cb_eq [OF assms] is_active_def is_open_def)

lemma zns_offline_zone_eq:
  assumes "zns_inv n" and "i < num_zones n"
  shows "zns_offline_zone n i (zone_state n i) =
    (if zone_state n i = NVME_ZONE_STATE_READ_ONLY then Some (OK, transit n i NVME_ZONE_STATE_OFFLINE)
     else if zone_state n i = NVME_ZONE_STATE_OFFLINE then Some (OK, n)
     else Some (INVAL_TRANSITION, n))"
  using assms
  by (simp add: zns_offline_zone_def zns_assign_zone_state_eq zns_inv_queue transit_def
      is_active_def is_open_def)

section \<open>The contract of a handler\<close>

text \<open>A step on zone \<open>i\<close>: the invariant holds after it, only that zone, the queues and the
  counters changed, and well-formed zones stay well formed.\<close>

definition zone_step :: "FemuCtrl \<Rightarrow> nat \<Rightarrow> FemuCtrl \<Rightarrow> bool" where
  "zone_step n i n' \<longleftrightarrow> zns_inv n' \<and> same_cfg n n' \<and>
     (\<forall>j. j \<noteq> i \<longrightarrow> zone_array n' ! j = zone_array n ! j) \<and> (zones_ok n \<longrightarrow> zones_ok n')"

lemma zone_step_refl [simp]: "zone_step n i n = zns_inv n"
  by (simp add: zone_step_def)

lemma zone_stepD:
  assumes "zone_step n i n'"
  shows "zns_inv n'" "same_cfg n n'" "num_zones n' = num_zones n" "zones_ok n \<Longrightarrow> zones_ok n'"
    "j \<noteq> i \<Longrightarrow> zone_array n' ! j = zone_array n ! j" "j \<noteq> i \<Longrightarrow> zone_state n' j = zone_state n j"
  using assms same_cfg_fields(1) by (auto simp: zone_step_def zone_state_def)

lemma zone_step_transit:
  assumes inv: "zns_inv n" and i: "i < num_zones n" and rsv: "st \<noteq> NVME_ZONE_STATE_RESERVED"
    and f: "\<And>z. zns_get_zone_state (f z) = zns_get_zone_state z" "\<And>z. zone_erase (f z) = zone_erase z"
    and opn: "is_open st \<Longrightarrow> \<not> is_open (zone_state n i) \<Longrightarrow> max_open_zones n \<noteq> 0 \<Longrightarrow> open_cnt n < max_open_zones n"
    and act: "is_active st \<Longrightarrow> \<not> is_active (zone_state n i) \<Longrightarrow> max_active_zones n \<noteq> 0 \<Longrightarrow> active_cnt n < max_active_zones n"
    and ok: "zone_ok (zone_array n ! i) \<Longrightarrow> zone_ok (enter_state st (f (zone_array n ! i)))"
  shows "zone_step n i (transit (upd_zone i f n) i st)"
proof -
  have len: "i < length (zone_array n)" using inv i by (simp add: zns_inv_queue queue_inv_length)
  have st: "zone_state (upd_zone i f n) i = zone_state n i" by (rule zone_state_upd_zone) (rule f)
  have "zns_inv (transit (upd_zone i f n) i st)"
    using inv i opn act rsv by (intro zns_inv_transit) (simp_all add: zns_inv_upd_zone f st)
  moreover have "zones_ok n \<longrightarrow> zones_ok (transit (upd_zone i f n) i st)"
  proof
    assume *: "zones_ok n"
    with len ok have "zone_ok (enter_state st (f (zone_array n ! i)))" by (simp add: zones_ok_nth)
    then show "zones_ok (transit (upd_zone i f n) i st)"
      by (rule zones_ok_update [OF *, rotated]) (use len in \<open>simp add: upd_zone_def\<close>)
  qed
  ultimately show ?thesis using len f(2) by (simp add: zone_step_def)
qed

lemma zone_step_transit_plain:
  assumes "zns_inv n" and "i < num_zones n" and "st \<noteq> NVME_ZONE_STATE_RESERVED"
    and "is_open st \<Longrightarrow> \<not> is_open (zone_state n i) \<Longrightarrow> max_open_zones n \<noteq> 0 \<Longrightarrow> open_cnt n < max_open_zones n"
    and "is_active st \<Longrightarrow> \<not> is_active (zone_state n i) \<Longrightarrow> max_active_zones n \<noteq> 0 \<Longrightarrow> active_cnt n < max_active_zones n"
    and "zone_ok (zone_array n ! i) \<Longrightarrow> zone_ok (enter_state st (zone_array n ! i))"
  shows "zone_step n i (transit n i st)"
proof -
  have "upd_zone i (\<lambda>z. z) n = n" by (simp add: upd_zone_def)
  with zone_step_transit [of n i st "\<lambda>z. z"] assms show ?thesis by simp
qed

lemma zone_ok_enter_simps:
  "zone_ok (enter_state st z) \<longleftrightarrow>
     0 < d_zcap z \<and> d_zslba z + d_zcap z < 2 ^ 64 \<and> w_ptr z = d_wp z \<and>
     d_zslba z \<le> w_ptr z \<and> w_ptr z \<le> d_zslba z + d_zcap z \<and>
     (case st of
        NVME_ZONE_STATE_RESERVED \<Rightarrow> False
      | NVME_ZONE_STATE_EMPTY \<Rightarrow> w_ptr z = d_zslba z
      | NVME_ZONE_STATE_IMPLICITLY_OPEN \<Rightarrow> w_ptr z < d_zslba z + d_zcap z
      | NVME_ZONE_STATE_EXPLICITLY_OPEN \<Rightarrow> w_ptr z < d_zslba z + d_zcap z
      | NVME_ZONE_STATE_CLOSED \<Rightarrow> w_ptr z < d_zslba z + d_zcap z
      | NVME_ZONE_STATE_FULL \<Rightarrow> w_ptr z = d_zslba z + d_zcap z
      | NVME_ZONE_STATE_READ_ONLY \<Rightarrow> True
      | NVME_ZONE_STATE_OFFLINE \<Rightarrow> True)"
  by (cases st) (simp_all add: zone_ok_def)

text \<open>The zones a mask selects.\<close>

definition proc_selects :: "nat \<Rightarrow> NvmeZoneState \<Rightarrow> bool" where
  "proc_selects pm st \<longleftrightarrow>
     is_open st \<and> pm AND NVME_PROC_OPENED_ZONES \<noteq> 0 \<or>
     st = NVME_ZONE_STATE_CLOSED \<and> pm AND NVME_PROC_CLOSED_ZONES \<noteq> 0 \<or>
     st = NVME_ZONE_STATE_READ_ONLY \<and> pm AND NVME_PROC_READ_ONLY_ZONES \<noteq> 0 \<or>
     st = NVME_ZONE_STATE_FULL \<and> pm AND NVME_PROC_FULL_ZONES \<noteq> 0"

lemma zns_bulk_proc_zone_eq:
  assumes "zns_inv n" and "i < num_zones n"
  shows "zns_bulk_proc_zone n i pm h =
    (if proc_selects pm (zone_state n i) then h n i (zone_state n i) else Some (OK, n))"
  using assms
  by (cases "zone_state n i")
     (simp_all add: zns_bulk_proc_zone_def zone_at_eq zns_inv_queue zone_state_def [symmetric]
        proc_selects_def is_open_def Let_def)

locale zone_op_handler =
  fixes h :: op_handler_t
  assumes step: "zns_inv n \<Longrightarrow> i < num_zones n \<Longrightarrow>
    \<exists>s n'. h n i (zone_state n i) = Some (s, n') \<and> zone_step n i n'"
begin

lemma bulk_step:
  assumes "zns_inv n" and "i < num_zones n"
  shows "\<exists>s n'. zns_bulk_proc_zone n i pm h = Some (s, n') \<and> zone_step n i n'"
  using step [OF assms] assms by (auto simp: zns_bulk_proc_zone_eq)

lemma proc_zones_steps:
  assumes "zns_inv n" and "\<forall>i \<in> set zs. i < num_zones n"
  shows "\<exists>s n' out. zns_proc_zones pm h zs status n = Some (s, n', out) \<and>
    zns_inv n' \<and> same_cfg n n' \<and> (zones_ok n \<longrightarrow> zones_ok n')"
  using assms
proof (induction zs arbitrary: n status)
  case Nil
  then show ?case by auto
next
  case (Cons i zs)
  then obtain s1 n1 where 1: "zns_bulk_proc_zone n i pm h = Some (s1, n1)" "zone_step n i n1"
    using bulk_step [of n i pm] by auto
  note d = zone_stepD [OF 1(2)]
  show ?case
  proof (cases "s1 \<noteq> OK \<and> s1 \<noteq> (NVME_NO_COMPLETE, False)")
    case True
    with 1 d show ?thesis by auto
  next
    case False
    with Cons.prems d Cons.IH [of n1 s1] obtain s2 n2 out
      where "zns_proc_zones pm h zs s1 n1 = Some (s2, n2, out)" "zns_inv n2" "same_cfg n1 n2"
        "zones_ok n1 \<longrightarrow> zones_ok n2" by auto
    with False 1 d show ?thesis by (auto intro: same_cfg_trans)
  qed
qed

lemma proc_class_steps:
  assumes "zns_inv n" and "pm AND cls \<noteq> 0 \<Longrightarrow> \<forall>i \<in> set (zones n). i < num_zones n"
  shows "\<exists>s n' out'. zns_proc_class cls zones pm h (status, n, out) = Some (s, n', out') \<and>
    zns_inv n' \<and> same_cfg n n' \<and> (zones_ok n \<longrightarrow> zones_ok n')"
  using proc_zones_steps [of n "zones n" pm status] assms
  by (cases "\<not> out \<and> pm AND cls \<noteq> 0") (auto simp: zns_proc_class_def)

lemma queue_bound:
  assumes "zns_inv n"
  shows "\<forall>i \<in> set (closed_zones n). i < num_zones n" "\<forall>i \<in> set (imp_open_zones n). i < num_zones n"
    "\<forall>i \<in> set (exp_open_zones n). i < num_zones n" "\<forall>i \<in> set (full_zones n). i < num_zones n"
  using queue_inv_mem [OF zns_inv_queue [OF assms], of NVME_ZONE_STATE_CLOSED]
    queue_inv_mem [OF zns_inv_queue [OF assms], of NVME_ZONE_STATE_IMPLICITLY_OPEN]
    queue_inv_mem [OF zns_inv_queue [OF assms], of NVME_ZONE_STATE_EXPLICITLY_OPEN]
    queue_inv_mem [OF zns_inv_queue [OF assms], of NVME_ZONE_STATE_FULL]
  by (simp_all add: zone_q_def queued_def)

text \<open>\<open>zns_do_zone_op\<close> never aborts and keeps the invariant, provided the walk over all
  zones starts at the first.\<close>

lemma do_zone_op_total:
  assumes inv: "zns_inv n" and i: "i < num_zones n"
    and ro: "pm AND NVME_PROC_READ_ONLY_ZONES = 0 \<or> i = 0"
  shows "\<exists>s n'. zns_do_zone_op n i pm h = Some (s, n') \<and> zns_inv n' \<and> same_cfg n n' \<and>
    (zones_ok n \<longrightarrow> zones_ok n')"
proof (cases "pm = 0")
  case True
  with step [OF inv i] inv i show ?thesis
    by (auto simp: zns_do_zone_op_def zone_at_eq zns_inv_queue zone_state_def [symmetric] dest: zone_stepD)
next
  case False
  let ?ok = "\<lambda>r. zns_inv (fst (snd r)) \<and> same_cfg n (fst (snd r)) \<and> (zones_ok n \<longrightarrow> zones_ok (fst (snd r)))"
  have walk: "\<exists>r'. zns_proc_class cls zones pm h r = Some r' \<and> ?ok r'"
    if "?ok r" "\<And>n'. zns_inv n' \<Longrightarrow> pm AND cls \<noteq> 0 \<Longrightarrow> \<forall>i \<in> set (zones n'). i < num_zones n'" for cls zones r
  proof -
    obtain s n' out where r: "r = (s, n', out)" by (cases r) auto
    from proc_class_steps [of n' pm cls zones s out] that obtain s' n'' out'
      where "zns_proc_class cls zones pm h (s, n', out) = Some (s', n'', out')" "zns_inv n''"
        "same_cfg n' n''" "zones_ok n' \<longrightarrow> zones_ok n''" unfolding r by auto
    with that show ?thesis unfolding r by (auto intro: same_cfg_trans)
  qed
  have all: "\<forall>i \<in> set [i ..< i + num_zones n']. i < num_zones n'"
    if "zns_inv n'" "pm AND NVME_PROC_READ_ONLY_ZONES \<noteq> 0" for n' using ro that by simp
  have 0: "?ok (OK, n, False)" using inv by simp
  from walk [OF 0 queue_bound(1)] obtain r1
    where 1: "zns_proc_class NVME_PROC_CLOSED_ZONES closed_zones pm h (OK, n, False) = Some r1" "?ok r1" by blast
  from walk [OF 1(2) queue_bound(2)] obtain r2
    where 2: "zns_proc_class NVME_PROC_OPENED_ZONES imp_open_zones pm h r1 = Some r2" "?ok r2" by blast
  from walk [OF 2(2) queue_bound(3)] obtain r3
    where 3: "zns_proc_class NVME_PROC_OPENED_ZONES exp_open_zones pm h r2 = Some r3" "?ok r3" by blast
  from walk [OF 3(2) queue_bound(4)] obtain r4
    where 4: "zns_proc_class NVME_PROC_FULL_ZONES full_zones pm h r3 = Some r4" "?ok r4" by blast
  from walk [OF 4(2) all] obtain r5
    where 5: "zns_proc_class NVME_PROC_READ_ONLY_ZONES (\<lambda>n. [i ..< i + num_zones n]) pm h r4 = Some r5" "?ok r5" by blast
  from False 1 2 3 4 5 show ?thesis by (simp add: zns_do_zone_op_def)
qed

end

text \<open>The zones of a set of states that a mask selects have gone to a target state, the other
  zones have kept theirs.\<close>

definition converts ::
  "NvmeZoneState \<Rightarrow> nat \<Rightarrow> NvmeZoneState set \<Rightarrow> FemuCtrl \<Rightarrow> FemuCtrl \<Rightarrow> bool" where
  "converts target pm S n n' \<longleftrightarrow> zns_inv n' \<and> same_cfg n n' \<and> (zones_ok n \<longrightarrow> zones_ok n') \<and>
     (\<forall>j < num_zones n. zone_state n' j =
        (if zone_state n j \<in> S \<and> proc_selects pm (zone_state n j) then target else zone_state n j))"

text \<open>A handler that takes every zone its mask selects to one target state.\<close>

locale zone_op_target = zone_op_handler +
  fixes target :: NvmeZoneState and pm :: nat
  assumes hits: "zns_inv n \<Longrightarrow> i < num_zones n \<Longrightarrow> proc_selects pm (zone_state n i) \<Longrightarrow>
      \<exists>n'. h n i (zone_state n i) = Some (OK, n') \<and> zone_state n' i = target"
    and leaves: "\<not> proc_selects pm target"
begin

abbreviation conv :: "NvmeZoneState set \<Rightarrow> FemuCtrl \<Rightarrow> FemuCtrl \<Rightarrow> bool" where
  "conv \<equiv> converts target pm"

lemma conv_trans: "conv S n n' \<Longrightarrow> conv T n' n'' \<Longrightarrow> conv (S \<union> T) n n''"
  using leaves same_cfg_fields(1) [of n n'] same_cfg_trans [of n n' n'']
  unfolding converts_def by auto

lemma bulk_conv:
  assumes "zns_inv n" and "i < num_zones n"
  shows "\<exists>n'. zns_bulk_proc_zone n i pm h = Some (OK, n') \<and> zone_step n i n' \<and>
    zone_state n' i = (if proc_selects pm (zone_state n i) then target else zone_state n i)"
  using hits [OF assms] step [OF assms] assms(1) by (auto simp: zns_bulk_proc_zone_eq [OF assms])

lemma proc_zones_conv:
  assumes "zns_inv n" and "\<forall>i \<in> set zs. i < num_zones n"
  shows "\<exists>n'. zns_proc_zones pm h zs OK n = Some (OK, n', False) \<and> zns_inv n' \<and> same_cfg n n' \<and>
    (zones_ok n \<longrightarrow> zones_ok n') \<and>
    (\<forall>j < num_zones n. zone_state n' j =
       (if j \<in> set zs \<and> proc_selects pm (zone_state n j) then target else zone_state n j))"
  using assms
proof (induction zs arbitrary: n)
  case Nil
  then show ?case by simp
next
  case (Cons i zs)
  then obtain n1 where 1: "zns_bulk_proc_zone n i pm h = Some (OK, n1)" "zone_step n i n1"
      "zone_state n1 i = (if proc_selects pm (zone_state n i) then target else zone_state n i)"
    using bulk_conv [of n i] by auto
  note d = zone_stepD [OF 1(2)]
  from Cons.prems d(1,3) Cons.IH [of n1] obtain n2
    where 2: "zns_proc_zones pm h zs OK n1 = Some (OK, n2, False)" "zns_inv n2" "same_cfg n1 n2"
      "zones_ok n1 \<longrightarrow> zones_ok n2"
      "\<forall>j < num_zones n. zone_state n2 j =
         (if j \<in> set zs \<and> proc_selects pm (zone_state n1 j) then target else zone_state n1 j)" by auto
  have "zone_state n2 j = (if j \<in> set (i # zs) \<and> proc_selects pm (zone_state n j) then target else zone_state n j)"
    if "j < num_zones n" for j
    using 2(5) that 1(3) d(6) leaves by (cases "j = i") auto
  with 1(1) 2(1-4) d(2,4) show ?case by (auto intro: same_cfg_trans)
qed

lemma proc_class_conv:
  assumes "zns_inv n" and "pm AND cls \<noteq> 0 \<Longrightarrow> \<forall>i \<in> set (zones n). i < num_zones n"
    and "\<And>j. j < num_zones n \<Longrightarrow> proc_selects pm (zone_state n j) \<Longrightarrow>
      pm AND cls \<noteq> 0 \<and> j \<in> set (zones n) \<longleftrightarrow> zone_state n j \<in> S"
  shows "\<exists>n'. zns_proc_class cls zones pm h (OK, n, False) = Some (OK, n', False) \<and> conv S n n'"
proof (cases "pm AND cls = 0")
  case True
  then show ?thesis using assms by (auto simp: zns_proc_class_def converts_def)
next
  case False
  with proc_zones_conv [of n "zones n"] assms(1,2) obtain n' where
    n': "zns_proc_zones pm h (zones n) OK n = Some (OK, n', False)" "zns_inv n'" "same_cfg n n'"
      "zones_ok n \<longrightarrow> zones_ok n'" "\<And>j. j < num_zones n \<Longrightarrow> zone_state n' j =
         (if j \<in> set (zones n) \<and> proc_selects pm (zone_state n j) then target else zone_state n j)"
    by auto
  moreover have "zone_state n' j =
      (if zone_state n j \<in> S \<and> proc_selects pm (zone_state n j) then target else zone_state n j)"
    if "j < num_zones n" for j using n'(5) [OF that] assms(3) [OF that] False by auto
  ultimately show ?thesis using False by (simp add: zns_proc_class_def converts_def)
qed

lemma queue_class:
  assumes "zns_inv n" and "zones n = zone_q n st" and "queued st"
    and "proc_selects pm st \<Longrightarrow> pm AND cls \<noteq> 0"
  shows "\<exists>n'. zns_proc_class cls zones pm h (OK, n, False) = Some (OK, n', False) \<and> conv {st} n n'"
  using assms queue_inv_mem [OF zns_inv_queue [OF assms(1)] assms(3)]
  by (intro proc_class_conv) auto

text \<open>The command on all zones: it succeeds, and exactly the selected zones change, all of
  them to the target state.\<close>

lemma do_zone_op_all:
  assumes inv: "zns_inv n" and pm: "pm \<noteq> 0"
  shows "\<exists>n'. zns_do_zone_op n 0 pm h = Some (OK, n') \<and> zns_inv n' \<and> same_cfg n n' \<and>
    (zones_ok n \<longrightarrow> zones_ok n') \<and>
    (\<forall>j < num_zones n. zone_state n' j =
       (if proc_selects pm (zone_state n j) then target else zone_state n j))"
proof -
  from queue_class [OF inv, of closed_zones NVME_ZONE_STATE_CLOSED NVME_PROC_CLOSED_ZONES] obtain n1
    where 1: "zns_proc_class NVME_PROC_CLOSED_ZONES closed_zones pm h (OK, n, False) = Some (OK, n1, False)"
      "conv {NVME_ZONE_STATE_CLOSED} n n1" by (auto simp: zone_q_def queued_def proc_selects_def is_open_def)
  from queue_class [of n1 imp_open_zones NVME_ZONE_STATE_IMPLICITLY_OPEN NVME_PROC_OPENED_ZONES] 1(2) obtain n2
    where 2: "zns_proc_class NVME_PROC_OPENED_ZONES imp_open_zones pm h (OK, n1, False) = Some (OK, n2, False)"
      "conv {NVME_ZONE_STATE_IMPLICITLY_OPEN} n1 n2"
    by (auto simp: zone_q_def queued_def proc_selects_def is_open_def converts_def)
  from queue_class [of n2 exp_open_zones NVME_ZONE_STATE_EXPLICITLY_OPEN NVME_PROC_OPENED_ZONES] 2(2) obtain n3
    where 3: "zns_proc_class NVME_PROC_OPENED_ZONES exp_open_zones pm h (OK, n2, False) = Some (OK, n3, False)"
      "conv {NVME_ZONE_STATE_EXPLICITLY_OPEN} n2 n3"
    by (auto simp: zone_q_def queued_def proc_selects_def is_open_def converts_def)
  from queue_class [of n3 full_zones NVME_ZONE_STATE_FULL NVME_PROC_FULL_ZONES] 3(2) obtain n4
    where 4: "zns_proc_class NVME_PROC_FULL_ZONES full_zones pm h (OK, n3, False) = Some (OK, n4, False)"
      "conv {NVME_ZONE_STATE_FULL} n3 n4"
    by (auto simp: zone_q_def queued_def proc_selects_def is_open_def converts_def)
  have 14: "conv {NVME_ZONE_STATE_CLOSED, NVME_ZONE_STATE_IMPLICITLY_OPEN, NVME_ZONE_STATE_EXPLICITLY_OPEN,
      NVME_ZONE_STATE_FULL} n n4"
    using conv_trans [OF conv_trans [OF conv_trans [OF 1(2) 2(2)] 3(2)] 4(2)] by (simp add: insert_commute)
  let ?all = "\<lambda>n. [0 ..< 0 + num_zones n]"
  let ?S = "{st. pm AND NVME_PROC_READ_ONLY_ZONES \<noteq> 0}"
  have "zns_inv n4" using 4(2) by (simp add: converts_def)
  then have "\<exists>n'. zns_proc_class NVME_PROC_READ_ONLY_ZONES ?all pm h (OK, n4, False) = Some (OK, n', False) \<and>
      conv ?S n4 n'"
    by (rule proc_class_conv) auto
  then obtain n5
    where 5: "zns_proc_class NVME_PROC_READ_ONLY_ZONES ?all pm h (OK, n4, False) = Some (OK, n5, False)"
      "conv ?S n4 n5" by blast
  have "zone_state n5 j = (if proc_selects pm (zone_state n j) then target else zone_state n j)"
    if "j < num_zones n" for j
    using that conv_trans [OF 14 5(2)] by (auto simp: converts_def proc_selects_def is_open_def)
  with conv_trans [OF 14 5(2)] pm 1(1) 2(1) 3(1) 4(1) 5(1) show ?thesis
    by (simp add: zns_do_zone_op_def converts_def)
qed

end

section \<open>The handlers meet the contract\<close>

lemma can_open_room:
  assumes "zns_inv n" and "can_open n (zone_state n i) = OK"
  shows "\<not> is_open (zone_state n i) \<Longrightarrow> max_open_zones n \<noteq> 0 \<Longrightarrow> open_cnt n < max_open_zones n"
    and "\<not> is_active (zone_state n i) \<Longrightarrow> max_active_zones n \<noteq> 0 \<Longrightarrow> active_cnt n < max_active_zones n"
  using assms(2) room_of_check(1) [OF assms(1), of 1 1] room_of_check(1) [OF assms(1), of 0 1]
    room_of_check(2) [OF assms(1), of 1 1]
  by (cases "zone_state n i"; simp add: can_open_def is_active_def is_open_def)+

lemma zone_ok_state:
  assumes "zone_ok z" and "zns_get_zone_state z = st"
  shows "0 < d_zcap z" "d_zslba z + d_zcap z < 2 ^ 64" "w_ptr z = d_wp z" "d_zslba z \<le> w_ptr z"
    "w_ptr z \<le> d_zslba z + d_zcap z" "st \<noteq> NVME_ZONE_STATE_RESERVED"
    "st = NVME_ZONE_STATE_EMPTY \<Longrightarrow> w_ptr z = d_zslba z"
    "is_active st \<Longrightarrow> w_ptr z < d_zslba z + d_zcap z"
    "st = NVME_ZONE_STATE_FULL \<Longrightarrow> w_ptr z = d_zslba z + d_zcap z"
  using assms by (auto simp: zone_ok_def is_active_def is_open_def split: NvmeZoneState.splits)

lemma open_zone_step:
  assumes "zns_inv n" and "i < num_zones n" and "can_open n (zone_state n i) = OK"
  shows "zone_step n i (transit n i NVME_ZONE_STATE_EXPLICITLY_OPEN)"
proof (rule zone_step_transit_plain [OF assms(1,2)])
  assume ok: "zone_ok (zone_array n ! i)"
  have "zone_state n i = NVME_ZONE_STATE_EMPTY \<or> is_active (zone_state n i)"
    using assms(3) by (auto simp: can_open_def is_active_def split: if_splits)
  then show "zone_ok (enter_state NVME_ZONE_STATE_EXPLICITLY_OPEN (zone_array n ! i))"
    using zone_ok_state [OF ok refl] by (auto simp: zone_ok_enter_simps zone_state_def)
qed (use can_open_room [OF assms(1,3)] in auto)

lemma close_zone_step:
  assumes "zns_inv n" and "i < num_zones n" and "is_open (zone_state n i)"
  shows "zone_step n i (transit n i NVME_ZONE_STATE_CLOSED)"
proof (rule zone_step_transit_plain [OF assms(1,2)])
  assume ok: "zone_ok (zone_array n ! i)"
  show "zone_ok (enter_state NVME_ZONE_STATE_CLOSED (zone_array n ! i))"
    using zone_ok_state [OF ok refl] assms(3) by (auto simp: zone_ok_enter_simps zone_state_def is_active_def)
qed (use assms(3) in \<open>auto simp: is_active_def is_open_def\<close>)

lemma fill_zone_step:
  assumes "zns_inv n" and "i < num_zones n"
  shows "zone_step n i (transit (upd_zone i fill_zone n) i NVME_ZONE_STATE_FULL)"
proof (rule zone_step_transit [OF assms])
  assume ok: "zone_ok (zone_array n ! i)"
  show "zone_ok (enter_state NVME_ZONE_STATE_FULL (fill_zone (zone_array n ! i)))"
    using zone_ok_state [OF ok refl] by (simp add: zone_ok_enter_simps zone_ok_boundary [OF ok])
qed (auto simp: is_active_def is_open_def)

lemma rewind_zone_step:
  assumes "zns_inv n" and "i < num_zones n"
  shows "zone_step n i (transit (upd_zone i rewind_zone n) i NVME_ZONE_STATE_EMPTY)"
proof (rule zone_step_transit [OF assms])
  assume ok: "zone_ok (zone_array n ! i)"
  show "zone_ok (enter_state NVME_ZONE_STATE_EMPTY (rewind_zone (zone_array n ! i)))"
    using zone_ok_state [OF ok refl] by (simp add: zone_ok_enter_simps)
qed (auto simp: is_active_def is_open_def)

lemma offline_zone_step:
  assumes "zns_inv n" and "i < num_zones n"
  shows "zone_step n i (transit n i NVME_ZONE_STATE_OFFLINE)"
proof (rule zone_step_transit_plain [OF assms])
  assume ok: "zone_ok (zone_array n ! i)"
  show "zone_ok (enter_state NVME_ZONE_STATE_OFFLINE (zone_array n ! i))"
    using zone_ok_state [OF ok refl] by (simp add: zone_ok_enter_simps)
qed (auto simp: is_active_def is_open_def)

lemma zone_state_transit_upd:
  assumes "zns_inv n" and "i < num_zones n"
  shows "zone_state (transit (upd_zone i f n) i st) i = st" "zone_state (transit n i st) i = st"
  using assms by (simp_all add: zns_inv_queue queue_inv_length)

lemmas handler_eqs = zns_open_zone_eq zns_close_zone_eq zns_finish_zone_eq zns_reset_zone_eq zns_offline_zone_eq
lemmas handler_steps = open_zone_step close_zone_step fill_zone_step rewind_zone_step offline_zone_step

interpretation open_op: zone_op_handler zns_open_zone
  by unfold_locales (auto simp: zns_open_zone_eq open_zone_step)

interpretation close_op: zone_op_target zns_close_zone NVME_ZONE_STATE_CLOSED NVME_PROC_OPENED_ZONES
  by unfold_locales
     (auto simp: zns_close_zone_eq close_zone_step proc_selects_def zone_state_transit_upd
        is_open_def NVME_PROC_OPENED_ZONES_def NVME_PROC_CLOSED_ZONES_def
        NVME_PROC_READ_ONLY_ZONES_def NVME_PROC_FULL_ZONES_def)

interpretation finish_op: zone_op_target zns_finish_zone NVME_ZONE_STATE_FULL
    "NVME_PROC_OPENED_ZONES OR NVME_PROC_CLOSED_ZONES"
  by unfold_locales
     (auto simp: zns_finish_zone_eq fill_zone_step proc_selects_def zone_state_transit_upd
        is_open_def is_active_def NVME_PROC_OPENED_ZONES_def NVME_PROC_CLOSED_ZONES_def
        NVME_PROC_READ_ONLY_ZONES_def NVME_PROC_FULL_ZONES_def)

interpretation reset_op: zone_op_target zns_reset_zone NVME_ZONE_STATE_EMPTY
    "NVME_PROC_OPENED_ZONES OR NVME_PROC_CLOSED_ZONES OR NVME_PROC_FULL_ZONES"
  by unfold_locales
     (auto simp: zns_reset_zone_eq rewind_zone_step proc_selects_def zone_state_transit_upd
        is_open_def is_active_def NVME_PROC_OPENED_ZONES_def NVME_PROC_CLOSED_ZONES_def
        NVME_PROC_READ_ONLY_ZONES_def NVME_PROC_FULL_ZONES_def)

lemma zns_offline_zone_read_only:
  "zns_inv n \<Longrightarrow> i < num_zones n \<Longrightarrow> zone_state n i = NVME_ZONE_STATE_READ_ONLY \<Longrightarrow>
   zns_offline_zone n i NVME_ZONE_STATE_READ_ONLY = Some (OK, transit n i NVME_ZONE_STATE_OFFLINE)"
  using zns_offline_zone_eq [of n i] by simp

interpretation offline_op: zone_op_target zns_offline_zone NVME_ZONE_STATE_OFFLINE NVME_PROC_READ_ONLY_ZONES
  by unfold_locales
     (auto simp: zns_offline_zone_eq zns_offline_zone_read_only offline_zone_step proc_selects_def zone_state_transit_upd
        is_open_def NVME_PROC_OPENED_ZONES_def NVME_PROC_CLOSED_ZONES_def
        NVME_PROC_READ_ONLY_ZONES_def NVME_PROC_FULL_ZONES_def)

lemma zns_set_zd_ext_eq:
  assumes "zns_inv n" and "i < num_zones n"
  shows "zns_set_zd_ext n i =
    (if zone_state n i = NVME_ZONE_STATE_EMPTY then
       Some (zns_aor_check n 1 0,
         if zns_aor_check n 1 0 = OK
         then transit (upd_zone i (\<lambda>z. z\<lparr>d_za := d_za z OR NVME_ZA_ZD_EXT_VALID\<rparr>) n) i NVME_ZONE_STATE_CLOSED
         else n)
     else Some (INVAL_TRANSITION, n))"
proof (cases "zone_state n i = NVME_ZONE_STATE_EMPTY \<and> zns_aor_check n 1 0 = OK")
  case True
  with inc_active_eq [OF assms(1), of 0] assms show ?thesis
    by (simp add: zns_set_zd_ext_def zone_at_eq zns_inv_queue zone_state_def [symmetric] Let_def
          assign_nr_eq transit_def zone_state_upd_zone is_active_def is_open_def)
next
  case False
  with assms show ?thesis
    by (auto simp: zns_set_zd_ext_def zone_at_eq zns_inv_queue zone_state_def [symmetric] Let_def)
qed

lemma set_zd_ext_step:
  assumes "zns_inv n" and "i < num_zones n"
  shows "\<exists>s n'. zns_set_zd_ext n i = Some (s, n') \<and> zone_step n i n'"
proof (cases "zone_state n i = NVME_ZONE_STATE_EMPTY \<and> zns_aor_check n 1 0 = OK")
  case True
  let ?f = "\<lambda>z :: NvmeZone. z\<lparr>d_za := d_za z OR NVME_ZA_ZD_EXT_VALID\<rparr>"
  have "zone_step n i (transit (upd_zone i ?f n) i NVME_ZONE_STATE_CLOSED)"
  proof (rule zone_step_transit [OF assms])
    assume ok: "zone_ok (zone_array n ! i)"
    show "zone_ok (enter_state NVME_ZONE_STATE_CLOSED (?f (zone_array n ! i)))"
      using zone_ok_state [OF ok refl] True by (auto simp: zone_ok_enter_simps zone_state_def)
  qed (use True room_of_check(2) [OF assms(1), of 1 0] in \<open>auto simp: is_open_def\<close>)
  with True show ?thesis by (auto simp: zns_set_zd_ext_eq [OF assms])
next
  case False
  with assms(1) show ?thesis by (auto simp: zns_set_zd_ext_eq [OF assms])
qed

section \<open>Implicit open\<close>

text \<open>Assigning a state to a zone that has just been taken off its queue.\<close>

lemma assign_unlinked:
  assumes q: "queue_inv n" and i: "i < num_zones n"
    and n1: "n1 = zone_q_upd (zone_state n i) (remove1 i) n"
  shows "zns_assign_zone_state (n1\<lparr>nr_open_zones := a\<rparr>) i st = Some ((move_zone n i st)\<lparr>nr_open_zones := a\<rparr>)"
proof -
  let ?n2 = "n1\<lparr>nr_open_zones := a\<rparr>"
  have len: "i < length (zone_array ?n2)" using q i by (simp add: n1 queue_inv_length)
  have use: "\<not> QTAILQ_IN_USE ?n2 i"
    using move_zone_unlinked [OF q i] by (simp add: n1 QTAILQ_IN_USE_def)
  have "zns_assign_zone_state ?n2 i st =
      zns_link_zone (upd_zone i (\<lambda>z. zns_set_zone_state z st) ?n2) i st"
    using len use by (simp add: zns_assign_zone_state_def zone_at_def Let_def)
  also have "\<dots> = Some (zone_q_upd st (\<lambda>q. q @ [i]) (upd_zone i (enter_state st) ?n2))"
    by (rule zns_link_zone_eq [OF use len])
  also have "zone_q_upd st (\<lambda>q. q @ [i]) (upd_zone i (enter_state st) ?n2) =
      (move_zone n i st)\<lparr>nr_open_zones := a\<rparr>"
    by (cases st) (simp_all add: move_zone_def n1 zone_q_upd_def)
  finally show ?thesis .
qed

lemma zns_auto_transition_zone_eq:
  assumes inv: "zns_inv n"
  shows "zns_auto_transition_zone n =
    Some (if max_open_zones n \<noteq> 0 \<and> open_cnt n = max_open_zones n \<and> imp_open_zones n \<noteq> []
          then transit n (hd (imp_open_zones n)) NVME_ZONE_STATE_CLOSED else n)"
proof (cases "max_open_zones n \<noteq> 0 \<and> open_cnt n = max_open_zones n \<and> imp_open_zones n \<noteq> []")
  case True
  then obtain z q where imp: "imp_open_zones n = z # q" by (cases "imp_open_zones n") auto
  have zq: "zone_q n NVME_ZONE_STATE_IMPLICITLY_OPEN = z # q" by (simp add: zone_q_def imp)
  have z: "z < num_zones n" "zone_state n z = NVME_ZONE_STATE_IMPLICITLY_OPEN"
    using queue_inv_mem [OF zns_inv_queue [OF inv], of NVME_ZONE_STATE_IMPLICITLY_OPEN z] zq
    by (simp_all add: queued_def)
  let ?n1 = "n\<lparr>imp_open_zones := q\<rparr>"
  have n1: "?n1 = zone_q_upd (zone_state n z) (remove1 z) n"
    by (simp add: zone_q_upd_def z imp)
  have nr: "nr_open_zones n = int (max_open_zones n)"
    using True zns_inv_counters(1) [OF inv] by simp
  have dec: "zns_aor_dec_open ?n1 = Some (?n1\<lparr>nr_open_zones := nr_open_zones n - 1\<rparr>)"
    using True nr by (subst zns_aor_dec_open_eq) simp_all
  show ?thesis
    using True nr imp z dec assign_unlinked [OF zns_inv_queue [OF inv] z(1) n1]
    by (simp add: zns_auto_transition_zone_def QTAILQ_REMOVE_def transit_def is_open_def is_active_def)
next
  case False
  with zns_inv_counters(1) [OF inv] show ?thesis
    by (auto simp: zns_auto_transition_zone_def split: list.splits)
qed

lemma auto_transition_step:
  assumes inv: "zns_inv n"
  obtains n' where "zns_auto_transition_zone n = Some n'" "zns_inv n'" "same_cfg n n'"
    "zones_ok n \<Longrightarrow> zones_ok n'"
    "\<And>j. zone_state n j \<noteq> NVME_ZONE_STATE_IMPLICITLY_OPEN \<Longrightarrow> zone_array n' ! j = zone_array n ! j"
    "\<And>j. w_ptr (zone_array n' ! j) = w_ptr (zone_array n ! j) \<and> d_wp (zone_array n' ! j) = d_wp (zone_array n ! j)"
proof (cases "max_open_zones n \<noteq> 0 \<and> open_cnt n = max_open_zones n \<and> imp_open_zones n \<noteq> []")
  case True
  let ?z = "hd (imp_open_zones n)"
  have z: "?z < num_zones n" "zone_state n ?z = NVME_ZONE_STATE_IMPLICITLY_OPEN"
    using queue_inv_mem [OF zns_inv_queue [OF inv], of NVME_ZONE_STATE_IMPLICITLY_OPEN ?z] True
    by (simp_all add: queued_def zone_q_def)
  have st: "zone_step n ?z (transit n ?z NVME_ZONE_STATE_CLOSED)"
    using close_zone_step [OF inv z(1)] z(2) by (simp add: is_open_def)
  show ?thesis
  proof (rule that [of "transit n ?z NVME_ZONE_STATE_CLOSED"])
    fix j assume "zone_state n j \<noteq> NVME_ZONE_STATE_IMPLICITLY_OPEN"
    with z have "j \<noteq> ?z" by auto
    then show "zone_array (transit n ?z NVME_ZONE_STATE_CLOSED) ! j = zone_array n ! j"
      by (rule zone_stepD(5) [OF st])
  next
    fix j
    let ?w = "\<lambda>n. w_ptr (zone_array n ! j)" and ?d = "\<lambda>n. d_wp (zone_array n ! j)" and ?n' = "transit n ?z NVME_ZONE_STATE_CLOSED"
    show "?w ?n' = ?w n \<and> ?d ?n' = ?d n"
      using z zns_inv_queue [OF inv] by (cases "j = ?z") (simp_all add: queue_inv_length)
  qed (use st True in \<open>auto simp: zns_auto_transition_zone_eq [OF inv] dest: zone_stepD\<close>)
next
  case False
  show ?thesis by (rule that [of n]) (use False inv in \<open>auto simp: zns_auto_transition_zone_eq\<close>)
qed

text \<open>Opening a zone implicitly: on success there is room for the zone, and the zone itself has
  not been touched.\<close>

definition has_room :: "FemuCtrl \<Rightarrow> NvmeZoneState \<Rightarrow> bool" where
  "has_room n st \<longleftrightarrow>
     (\<not> is_open st \<longrightarrow> max_open_zones n \<noteq> 0 \<longrightarrow> open_cnt n < max_open_zones n) \<and>
     (\<not> is_active st \<longrightarrow> max_active_zones n \<noteq> 0 \<longrightarrow> active_cnt n < max_active_zones n)"

lemma check_has_room:
  assumes "zns_inv n"
  shows "zns_aor_check n 1 1 = OK \<Longrightarrow> has_room n st"
    and "zns_aor_check n 0 1 = OK \<Longrightarrow> is_active st \<Longrightarrow> has_room n st"
  using room_of_check [OF assms] by (simp_all add: has_room_def)

lemma auto_open_step:
  assumes inv: "zns_inv n" and i: "i < num_zones n"
  obtains s n' where "zns_auto_open_zone n i = Some (s, n')" "zns_inv n'" "same_cfg n n'"
    "zones_ok n \<Longrightarrow> zones_ok n'" "zone_array n' ! i = zone_array n ! i"
    "\<And>j. w_ptr (zone_array n' ! j) = w_ptr (zone_array n ! j) \<and> d_wp (zone_array n' ! j) = d_wp (zone_array n ! j)"
    "s = OK \<Longrightarrow> zone_state n i = NVME_ZONE_STATE_EMPTY \<or> is_active (zone_state n i) \<Longrightarrow> has_room n' (zone_state n i)"
proof (cases "zone_state n i = NVME_ZONE_STATE_EMPTY \<or> zone_state n i = NVME_ZONE_STATE_CLOSED")
  case True
  obtain n' where n': "zns_auto_transition_zone n = Some n'" "zns_inv n'" "same_cfg n n'"
    "zones_ok n \<Longrightarrow> zones_ok n'"
    "\<And>j. zone_state n j \<noteq> NVME_ZONE_STATE_IMPLICITLY_OPEN \<Longrightarrow> zone_array n' ! j = zone_array n ! j"
    "\<And>j. w_ptr (zone_array n' ! j) = w_ptr (zone_array n ! j) \<and> d_wp (zone_array n' ! j) = d_wp (zone_array n ! j)"
    using auto_transition_step [OF inv] by blast
  let ?s = "if zone_state n i = NVME_ZONE_STATE_EMPTY then zns_aor_check n' 1 1 else zns_aor_check n' 0 1"
  show ?thesis
  proof (rule that [of ?s n'])
    show "zns_auto_open_zone n i = Some (?s, n')"
      using True n'(1) inv i
      by (auto simp: zns_auto_open_zone_def zone_at_eq zns_inv_queue Let_def zone_state_def [symmetric])
    show "has_room n' (zone_state n i)" if "?s = OK"
    proof (cases "zone_state n i = NVME_ZONE_STATE_EMPTY")
      case True
      with that check_has_room(1) [OF n'(2)] show ?thesis by simp
    next
      case False
      with \<open>zone_state n i = NVME_ZONE_STATE_EMPTY \<or> zone_state n i = NVME_ZONE_STATE_CLOSED\<close>
        that check_has_room(2) [OF n'(2)] show ?thesis by (simp add: is_active_def)
    qed
  qed (use True n' in auto)
next
  case False
  show ?thesis
    by (rule that [of OK n])
       (use False inv i in \<open>auto simp: zns_auto_open_zone_def zone_at_eq zns_inv_queue Let_def
          zone_state_def [symmetric] has_room_def is_active_def\<close>)
qed

section \<open>Write pointers\<close>

text \<open>What a write does to its zone: when it is accepted, and when it completes.\<close>

definition advanced :: "nat \<Rightarrow> NvmeZone \<Rightarrow> NvmeZone" where
  "advanced nlb z =
     (let z1 = z\<lparr>w_ptr := u64 (w_ptr z + nlb)\<rparr>
      in if w_ptr z1 < zns_zone_wr_boundary z \<and>
            (zns_get_zone_state z = NVME_ZONE_STATE_EMPTY \<or> zns_get_zone_state z = NVME_ZONE_STATE_CLOSED)
         then enter_state NVME_ZONE_STATE_IMPLICITLY_OPEN z1 else z1)"

definition finalized :: "nat \<Rightarrow> NvmeZone \<Rightarrow> NvmeZone" where
  "finalized nlb z =
     (let z1 = z\<lparr>d_wp := u64 (d_wp z + nlb)\<rparr>
      in if d_wp z1 = zns_zone_wr_boundary z \<and> zns_get_zone_state z \<noteq> NVME_ZONE_STATE_FULL
         then enter_state NVME_ZONE_STATE_FULL z1 else z1)"

lemma implicit_open:
  assumes inv: "zns_inv n" and i: "i < num_zones n" and room: "has_room n (zone_state n i)"
  shows "zone_state n i = NVME_ZONE_STATE_EMPTY \<Longrightarrow>
      (zns_aor_inc_active n \<bind> zns_aor_inc_open) \<bind>
        (\<lambda>n. zns_assign_zone_state n i NVME_ZONE_STATE_IMPLICITLY_OPEN) =
      Some (transit n i NVME_ZONE_STATE_IMPLICITLY_OPEN)"
    and "zone_state n i = NVME_ZONE_STATE_CLOSED \<Longrightarrow>
      zns_aor_inc_open n \<bind> (\<lambda>n. zns_assign_zone_state n i NVME_ZONE_STATE_IMPLICITLY_OPEN) =
      Some (transit n i NVME_ZONE_STATE_IMPLICITLY_OPEN)"
proof -
  note q = zns_inv_queue [OF inv] and cnt = zns_inv_counters [OF inv]
  show "zns_aor_inc_open n \<bind> (\<lambda>n. zns_assign_zone_state n i NVME_ZONE_STATE_IMPLICITLY_OPEN) =
      Some (transit n i NVME_ZONE_STATE_IMPLICITLY_OPEN)" if st: "zone_state n i = NVME_ZONE_STATE_CLOSED"
  proof -
    have "zns_aor_inc_open n = Some (n\<lparr>nr_open_zones := nr_open_zones n + of_bool (max_open_zones n \<noteq> 0)\<rparr>)"
      using cnt room st by (intro zns_aor_inc_open_eq) (simp_all add: has_room_def is_open_def)
    with q i st show ?thesis
      by (simp add: zns_assign_zone_state_eq transit_def is_open_def is_active_def)
  qed
  show "(zns_aor_inc_active n \<bind> zns_aor_inc_open) \<bind>
      (\<lambda>n. zns_assign_zone_state n i NVME_ZONE_STATE_IMPLICITLY_OPEN) =
      Some (transit n i NVME_ZONE_STATE_IMPLICITLY_OPEN)" if st: "zone_state n i = NVME_ZONE_STATE_EMPTY"
  proof -
    let ?n = "n\<lparr>nr_active_zones := nr_active_zones n + of_bool (max_active_zones n \<noteq> 0)\<rparr>"
    have 1: "zns_aor_inc_active n = Some ?n"
      using cnt room st by (intro zns_aor_inc_active_eq) (simp_all add: has_room_def is_active_def is_open_def)
    have 2: "zns_aor_inc_open ?n = Some (?n\<lparr>nr_open_zones := nr_open_zones ?n + of_bool (max_open_zones ?n \<noteq> 0)\<rparr>)"
      using cnt room st by (intro zns_aor_inc_open_eq) (simp_all add: has_room_def is_open_def)
    show ?thesis
      unfolding 1 bind.bind_lunit 2 using q i st
      by (simp add: zns_assign_zone_state_eq transit_def is_open_def is_active_def)
  qed
qed

lemma advance_step:
  assumes inv: "zns_inv n" and i: "i < num_zones n"
    and room: "zone_state n i = NVME_ZONE_STATE_EMPTY \<or> zone_state n i = NVME_ZONE_STATE_CLOSED \<Longrightarrow>
      has_room n (zone_state n i)"
  obtains n' where "zns_advance_zone_wp n i nlb = Some (w_ptr (zone_array n ! i), n')" "zns_inv n'"
    "same_cfg n n'" "zone_array n' = (zone_array n)[i := advanced nlb (zone_array n ! i)]"
proof -
  let ?f = "\<lambda>z :: NvmeZone. z\<lparr>w_ptr := u64 (w_ptr z + nlb)\<rparr>"
  let ?n1 = "upd_zone i ?f n"
  let ?go = "u64 (w_ptr (zone_array n ! i) + nlb) < zns_zone_wr_boundary (zone_array n ! i) \<and>
    (zone_state n i = NVME_ZONE_STATE_EMPTY \<or> zone_state n i = NVME_ZONE_STATE_CLOSED)"
  have len: "i < length (zone_array n)" using inv i by (simp add: zns_inv_queue queue_inv_length)
  have n1: "zns_inv ?n1" "zone_state ?n1 i = zone_state n i"
    using inv by (simp_all add: zns_inv_upd_zone zone_state_upd_zone)
  note q1 = zns_inv_queue [OF n1(1)]
  let ?inc = "if zone_state n i = NVME_ZONE_STATE_EMPTY then zns_aor_inc_active ?n1 \<bind> zns_aor_inc_open
    else zns_aor_inc_open ?n1"
  have unfold: "zns_advance_zone_wp n i nlb =
      (if ?go then (?inc \<bind> (\<lambda>n. zns_assign_zone_state n i NVME_ZONE_STATE_IMPLICITLY_OPEN)) \<bind>
         (\<lambda>n'. Some (w_ptr (zone_array n ! i), n')) else Some (w_ptr (zone_array n ! i), ?n1))"
    using len by (cases "zone_state n i")
      (simp_all add: zns_advance_zone_wp_def zone_at_def Let_def zone_state_def)
  show ?thesis
  proof (cases ?go)
    case False
    then have "zns_advance_zone_wp n i nlb = Some (w_ptr (zone_array n ! i), ?n1)"
      unfolding unfold by (rule if_not_P)
    moreover from False have "zone_array ?n1 = (zone_array n)[i := advanced nlb (zone_array n ! i)]"
      by (auto simp: upd_zone_def advanced_def Let_def zone_state_def)
    ultimately show ?thesis using n1(1) by (intro that [of ?n1]) simp_all
  next
    case True
    let ?n' = "transit ?n1 i NVME_ZONE_STATE_IMPLICITLY_OPEN"
    have room1: "has_room ?n1 (zone_state n i)" using room True by (simp add: has_room_def)
    have "?inc \<bind> (\<lambda>n. zns_assign_zone_state n i NVME_ZONE_STATE_IMPLICITLY_OPEN) = Some ?n'"
      using True implicit_open [OF n1(1), of i] i room1 n1(2) by auto
    then have "zns_advance_zone_wp n i nlb = Some (w_ptr (zone_array n ! i), ?n')"
      unfolding unfold if_P [OF True] by simp
    moreover have "zns_inv ?n'"
      using room1 i by (intro zns_inv_transit [OF n1(1)]) (simp_all add: n1 has_room_def)
    moreover from True len have "zone_array ?n' = (zone_array n)[i := advanced nlb (zone_array n ! i)]"
      by (auto simp: upd_zone_def advanced_def Let_def zone_state_def)
    ultimately show ?thesis by (intro that [of ?n']) simp_all
  qed
qed

lemma finalize_step:
  assumes inv: "zns_inv n" and i: "i < num_zones n" and idx: "zns_get_zone_by_slba n slba = Some i"
    and st: "zone_state n i = NVME_ZONE_STATE_EMPTY \<or> is_active (zone_state n i)"
  obtains n' where "zns_finalize_zoned_write n slba nlb = Some n'" "zns_inv n'" "same_cfg n n'"
    "zone_array n' = (zone_array n)[i := finalized nlb (zone_array n ! i)]"
proof -
  let ?f = "\<lambda>z :: NvmeZone. z\<lparr>d_wp := u64 (d_wp z + nlb)\<rparr>"
  let ?n1 = "upd_zone i ?f n"
  let ?go = "u64 (d_wp (zone_array n ! i) + nlb) = zns_zone_wr_boundary (zone_array n ! i)"
  have len: "i < length (zone_array n)" using inv i by (simp add: zns_inv_queue queue_inv_length)
  have n1: "zns_inv ?n1" "zone_state ?n1 i = zone_state n i"
    using inv by (simp_all add: zns_inv_upd_zone zone_state_upd_zone)
  have id: "upd_zone i (\<lambda>z. z) n' = n'" for n' by (simp add: upd_zone_def)
  have full: "\<not> is_active NVME_ZONE_STATE_FULL" by (simp add: is_active_def is_open_def)
  let ?n' = "transit ?n1 i NVME_ZONE_STATE_FULL"
  have idf: "zns_get_zone_state ((\<lambda>z. z) z) = zns_get_zone_state z" for z by simp
  have i1: "i < num_zones ?n1" using i by simp
  note rel = release_and_assign [OF n1(1) i1 idf full, unfolded id]
  have "zns_finalize_zoned_write n slba nlb = Some (if ?go then ?n' else ?n1)"
  proof (cases ?go)
    case True
    then show ?thesis
      using st rel n1(2) len idx
      by (cases "zone_state n i")
         (simp_all add: zns_finalize_zoned_write_def zone_at_def Let_def is_active_def is_open_def
            zone_state_def [symmetric])
  next
    case False
    with len idx show ?thesis by (simp add: zns_finalize_zoned_write_def zone_at_def Let_def)
  qed
  moreover have "zns_inv ?n'"
    using i by (intro zns_inv_transit [OF n1(1)]) (simp_all add: is_active_def is_open_def)
  moreover have "zone_array (if ?go then ?n' else ?n1) = (zone_array n)[i := finalized nlb (zone_array n ! i)]"
    using st len by (auto simp: upd_zone_def finalized_def Let_def zone_state_def is_active_def is_open_def)
  ultimately show ?thesis using n1(1) by (intro that [of "if ?go then ?n' else ?n1"]) auto
qed

text \<open>Accepting a write and completing it: both pointers have moved by its length, and a
  well-formed zone is well formed again, full exactly when the write reached its end.\<close>

lemma finalized_advanced:
  assumes ok: "zone_ok z" and st: "zns_get_zone_state z = NVME_ZONE_STATE_EMPTY \<or> is_active (zns_get_zone_state z)"
    and fit: "w_ptr z + nlb \<le> zns_zone_wr_boundary z" and pos: "0 < nlb"
  shows "zone_ok (finalized nlb (advanced nlb z))"
    and "w_ptr (finalized nlb (advanced nlb z)) = w_ptr z + nlb"
    and "zns_get_zone_state (finalized nlb (advanced nlb z)) =
      (if w_ptr z + nlb = zns_zone_wr_boundary z then NVME_ZONE_STATE_FULL
       else if is_open (zns_get_zone_state z) then zns_get_zone_state z
       else NVME_ZONE_STATE_IMPLICITLY_OPEN)"
proof -
  note z = zone_ok_state [OF ok refl] and b = zone_ok_boundary [OF ok]
  have u: "u64 (w_ptr z + nlb) = w_ptr z + nlb" "u64 (d_wp z + nlb) = w_ptr z + nlb"
    using z fit b by (simp_all add: u64_id)
  have adv: "d_wp (advanced nlb z) = d_wp z" "zns_zone_wr_boundary (advanced nlb z) = zns_zone_wr_boundary z"
    "w_ptr (advanced nlb z) = w_ptr z + nlb" "d_zcap (advanced nlb z) = d_zcap z"
    "d_zslba (advanced nlb z) = d_zslba z"
    "zns_get_zone_state (advanced nlb z) = (if w_ptr z + nlb = zns_zone_wr_boundary z \<or> is_open (zns_get_zone_state z)
       then zns_get_zone_state z else NVME_ZONE_STATE_IMPLICITLY_OPEN)"
    using u fit st by (auto simp: advanced_def Let_def is_active_def is_open_def)
  show w: "w_ptr (finalized nlb (advanced nlb z)) = w_ptr z + nlb"
    by (simp add: finalized_def Let_def adv)
  show s: "zns_get_zone_state (finalized nlb (advanced nlb z)) =
      (if w_ptr z + nlb = zns_zone_wr_boundary z then NVME_ZONE_STATE_FULL
       else if is_open (zns_get_zone_state z) then zns_get_zone_state z
       else NVME_ZONE_STATE_IMPLICITLY_OPEN)"
    using st by (auto simp: finalized_def Let_def adv u is_active_def is_open_def)
  have f: "d_wp (finalized nlb (advanced nlb z)) = w_ptr z + nlb" "d_zcap (finalized nlb (advanced nlb z)) = d_zcap z"
    "d_zslba (finalized nlb (advanced nlb z)) = d_zslba z"
    by (simp_all add: finalized_def Let_def adv u)
  show "zone_ok (finalized nlb (advanced nlb z))"
    unfolding zone_ok_def s w f using z fit b by (auto simp: is_open_def)
qed

section \<open>Shutdown\<close>

text \<open>Moving a zone to the head of another queue.\<close>

lemma queue_inv_relink_head:
  assumes q: "queue_inv n" and i: "i < num_zones n"
    and num: "num_zones n' = num_zones n" "length (zone_array n') = length (zone_array n)"
    and oth: "\<And>j. j \<noteq> i \<Longrightarrow> zone_state n' j = zone_state n j"
    and zq: "\<And>s. queued s \<Longrightarrow> zone_q n' s =
      (if s = zone_state n' i then [i] else []) @ (if s = zone_state n i then remove1 i (zone_q n s) else zone_q n s)"
  shows "queue_inv n'"
proof (rule queue_invI)
  show "length (zone_array n') = num_zones n'" using q num by (simp add: queue_inv_length)
next
  fix s assume s: "queued s"
  show "distinct (zone_q n' s)"
    using q i s by (auto simp: zq queue_inv_distinct queue_inv_mem)
  fix j
  show "j \<in> set (zone_q n' s) \<longleftrightarrow> j < num_zones n' \<and> zone_state n' j = s"
    using q i s oth num by (cases "j = i") (auto simp: zq queue_inv_distinct queue_inv_mem)
qed

text \<open>One round of a shutdown loop: the zone has left its queue and given back its resources;
  clearing it makes it closed if it holds data or an extension, empty otherwise.\<close>

definition keeps_data :: "NvmeZone \<Rightarrow> bool" where
  "keeps_data z \<longleftrightarrow> d_wp z \<noteq> d_zslba z \<or> d_za z AND NVME_ZA_ZD_EXT_VALID \<noteq> 0"

definition cleared :: "NvmeZone \<Rightarrow> NvmeZone" where
  "cleared z =
     (let z1 = z\<lparr>w_ptr := d_wp z\<rparr>
      in if keeps_data z then
           (if zns_get_zone_state z = NVME_ZONE_STATE_CLOSED then z1 else zns_set_zone_state z1 NVME_ZONE_STATE_CLOSED)
         else zns_set_zone_state z1 NVME_ZONE_STATE_EMPTY)"

lemma cleared_fields [simp]:
  "zns_get_zone_state (cleared z) = (if keeps_data z then NVME_ZONE_STATE_CLOSED else NVME_ZONE_STATE_EMPTY)"
  "w_ptr (cleared z) = d_wp z" "d_wp (cleared z) = d_wp z" "d_zslba (cleared z) = d_zslba z"
  "d_zcap (cleared z) = d_zcap z" "d_za (cleared z) = d_za z" "zone_erase (cleared z) = zone_erase z"
  by (simp_all add: cleared_def Let_def)

lemma zone_ok_cleared: "zone_ok z \<Longrightarrow> is_active (zns_get_zone_state z) \<Longrightarrow> zone_ok (cleared z)"
  using zone_ok_state [of z "zns_get_zone_state z"] by (auto simp: zone_ok_def [of "cleared z"] keeps_data_def)

lemma clear_zone_eq:
  assumes len: "i < length (zone_array n)" and use: "\<not> QTAILQ_IN_USE n i"
    and cnt: "0 \<le> nr_active_zones n" "max_active_zones n \<noteq> 0 \<Longrightarrow> nr_active_zones n < int (max_active_zones n)"
  shows "zns_clear_zone n i =
    (if keeps_data (zone_array n ! i)
     then Some ((upd_zone i cleared n)\<lparr>nr_active_zones := nr_active_zones n + of_bool (max_active_zones n \<noteq> 0),
                 closed_zones := i # closed_zones n\<rparr>)
     else Some (upd_zone i cleared n))"
proof -
  let ?z = "zone_array n ! i"
  let ?n0 = "upd_zone i (\<lambda>z. z\<lparr>w_ptr := d_wp z\<rparr>) n"
  have closed: "(if zns_get_zone_state ?z \<noteq> NVME_ZONE_STATE_CLOSED
      then upd_zone i (\<lambda>z. zns_set_zone_state z NVME_ZONE_STATE_CLOSED) ?n0 else ?n0) = upd_zone i cleared n"
    if "keeps_data ?z" using that len by (simp add: upd_zone_def cleared_def)
  have empty: "upd_zone i (\<lambda>z. zns_set_zone_state z NVME_ZONE_STATE_EMPTY) ?n0 = upd_zone i cleared n"
    if "\<not> keeps_data ?z" using that len by (simp add: upd_zone_def cleared_def)
  have unfold: "zns_clear_zone n i =
      (if keeps_data ?z then do {
         let n = (if zns_get_zone_state ?z \<noteq> NVME_ZONE_STATE_CLOSED
                  then upd_zone i (\<lambda>z. zns_set_zone_state z NVME_ZONE_STATE_CLOSED) ?n0 else ?n0);
         n \<leftarrow> zns_aor_inc_active n;
         q \<leftarrow> QTAILQ_INSERT_HEAD n (closed_zones n) i;
         Some (n\<lparr>closed_zones := q\<rparr>) }
       else Some (upd_zone i (\<lambda>z. zns_set_zone_state z NVME_ZONE_STATE_EMPTY) ?n0))"
    using len by (simp add: zns_clear_zone_def zone_at_def Let_def keeps_data_def)
  have inc: "zns_aor_inc_active (upd_zone i cleared n) =
      Some ((upd_zone i cleared n)\<lparr>nr_active_zones := nr_active_zones n + of_bool (max_active_zones n \<noteq> 0)\<rparr>)"
    using cnt by (subst zns_aor_inc_active_eq) simp_all
  have use': "\<not> QTAILQ_IN_USE ((upd_zone i cleared n)\<lparr>nr_active_zones := a\<rparr>) i" for a
    using use by (simp add: QTAILQ_IN_USE_def)
  show ?thesis
  proof (cases "keeps_data ?z")
    case True
    then show ?thesis
      unfolding unfold closed [OF True] using inc use' by (simp add: Let_def QTAILQ_INSERT_HEAD_def)
  next
    case False
    then show ?thesis unfolding unfold empty [OF False] by simp
  qed
qed

lemma clear_round:
  assumes inv: "zns_inv n" and i: "i < num_zones n" and act: "is_active (zone_state n i)"
  defines "n1 \<equiv> (zone_q_upd (zone_state n i) (remove1 i) n)
      \<lparr>nr_open_zones := nr_open_zones n - of_bool (max_open_zones n \<noteq> 0 \<and> is_open (zone_state n i)),
       nr_active_zones := nr_active_zones n - of_bool (max_active_zones n \<noteq> 0)\<rparr>"
  obtains n' where "zns_clear_zone n1 i = Some n'" "zone_step n i n'"
    "zone_array n' ! i = cleared (zone_array n ! i)"
proof -
  let ?z = "zone_array n ! i"
  let ?k = "keeps_data ?z"
  note q = zns_inv_queue [OF inv] and cnt = zns_inv_counters [OF inv]
  have len: "i < length (zone_array n)" using q i by (simp add: queue_inv_length)
  have n1: "zone_array n1 = zone_array n" "max_active_zones n1 = max_active_zones n" "same_cfg n n1"
    by (simp_all add: n1_def)
  have use: "\<not> QTAILQ_IN_USE n1 i"
    using move_zone_unlinked [OF q i] by (simp add: n1_def QTAILQ_IN_USE_def)
  have pos: "0 < active_cnt n" by (rule active_cnt_pos(1) [OF q i act])
  have a1: "0 \<le> nr_active_zones n1" "max_active_zones n1 \<noteq> 0 \<Longrightarrow> nr_active_zones n1 < int (max_active_zones n1)"
    using cnt pos by (auto simp: n1_def)
  let ?n' = "if ?k then (upd_zone i cleared n1)\<lparr>nr_active_zones := nr_active_zones n1 + of_bool (max_active_zones n1 \<noteq> 0),
                 closed_zones := i # closed_zones n1\<rparr> else upd_zone i cleared n1"
  have eq: "zns_clear_zone n1 i = Some ?n'"
    using clear_zone_eq [of i n1] len use a1 by (simp add: n1)
  have arr: "zone_array ?n' = (zone_array n)[i := cleared ?z]"
    by (simp add: upd_zone_def n1)
  have cfg: "same_cfg n ?n'" using n1(3) by simp
  have oth: "zone_state ?n' j = zone_state n j" if "j \<noteq> i" for j
    using that unfolding zone_state_def arr by simp
  have sti: "zone_state ?n' i = (if ?k then NVME_ZONE_STATE_CLOSED else NVME_ZONE_STATE_EMPTY)"
    unfolding zone_state_def arr using len by simp
  have zq: "zone_q ?n' s = (if s = (if ?k then NVME_ZONE_STATE_CLOSED else NVME_ZONE_STATE_EMPTY) then [i] else []) @
      (if s = zone_state n i then remove1 i (zone_q n s) else zone_q n s)" if "queued s" for s
    using that act unfolding n1_def
    by (cases "zone_state n i"; cases s) (simp_all add: zone_q_def zone_q_upd_def upd_zone_def queued_def is_active_def is_open_def)
  have qi: "queue_inv ?n'"
  proof (rule queue_inv_relink_head [OF q i same_cfg_fields(1) [OF cfg]])
    show "length (zone_array ?n') = length (zone_array n)" by (simp only: arr length_list_update)
  qed (erule oth, unfold sti, erule zq)
  have "zns_inv ?n'"
  proof (rule zns_inv_relink [OF inv i qi same_cfg_fields(1-3) [OF cfg]])
    show "nr_open_zones ?n' = nr_open_zones n + of_bool (max_open_zones n \<noteq> 0) *
        (of_bool (is_open (zone_state ?n' i)) - of_bool (is_open (zone_state n i)))"
      unfolding sti by (simp add: n1_def is_open_def)
    show "nr_active_zones ?n' = nr_active_zones n + of_bool (max_active_zones n \<noteq> 0) *
        (of_bool (is_active (zone_state ?n' i)) - of_bool (is_active (zone_state n i)))"
      unfolding sti using act by (simp add: n1_def is_open_def is_active_def)
  qed (use oth act sti in \<open>auto simp: is_open_def is_active_def split: if_splits\<close>)
  moreover have "zones_ok n \<longrightarrow> zones_ok ?n'"
    using zones_ok_update [OF _ arr] zone_ok_cleared [of ?z] act len by (auto simp: zones_ok_nth zone_state_def)
  ultimately have "zone_step n i ?n'"
    using cfg arr by (simp add: zone_step_def)
  with eq arr len show ?thesis by (intro that [of ?n']) simp_all
qed

text \<open>The three loops of the shutdown.\<close>

lemma dec_open_relinked:
  assumes "zns_inv n" and "i < num_zones n" and "is_open (zone_state n i)"
  shows "zns_aor_dec_open (zone_q_upd st f n) =
    Some ((zone_q_upd st f n)\<lparr>nr_open_zones := nr_open_zones n - of_bool (max_open_zones n \<noteq> 0)\<rparr>)"
  using open_cnt_pos [OF zns_inv_queue [OF assms(1)] assms(2,3)] zns_inv_counters [OF assms(1)]
  by (subst zns_aor_dec_open_eq) simp_all

lemma dec_active_relinked:
  assumes "zns_inv n" and "i < num_zones n" and "is_open (zone_state n i)"
  shows "zns_aor_dec_active ((zone_q_upd st f n)\<lparr>nr_open_zones := nr_open_zones n - of_bool (max_open_zones n \<noteq> 0)\<rparr>) =
    Some ((zone_q_upd st f n)\<lparr>nr_open_zones := nr_open_zones n - of_bool (max_open_zones n \<noteq> 0),
            nr_active_zones := nr_active_zones n - of_bool (max_active_zones n \<noteq> 0)\<rparr>)"
  using active_cnt_pos(1) [OF zns_inv_queue [OF assms(1)] assms(2)] zns_inv_counters [OF assms(1)]
    open_cnt_pos [OF zns_inv_queue [OF assms(1)] assms(2,3)] assms(3) open_le_active [of n]
  by (subst zns_aor_dec_active_eq) (auto simp: is_active_def)

lemma dec_active_closed_relinked:
  assumes "zns_inv n" and "i < num_zones n" and "zone_state n i = NVME_ZONE_STATE_CLOSED"
  shows "zns_aor_dec_active (zone_q_upd st f n) =
    Some ((zone_q_upd st f n)\<lparr>nr_open_zones := nr_open_zones n,
            nr_active_zones := nr_active_zones n - of_bool (max_active_zones n \<noteq> 0)\<rparr>)"
  using active_cnt_pos [OF zns_inv_queue [OF assms(1)] assms(2)] zns_inv_counters [OF assms(1)] assms(3)
  by (subst zns_aor_dec_active_eq) (simp_all add: is_active_def is_open_def)

lemma shutdown_rounds:
  assumes inv: "zns_inv n" and i: "i < num_zones n"
  shows "zone_state n i = NVME_ZONE_STATE_CLOSED \<Longrightarrow>
      \<exists>n'. shutdown_closed i n = Some n' \<and> zone_step n i n' \<and> zone_array n' ! i = cleared (zone_array n ! i)"
    and "zone_state n i = NVME_ZONE_STATE_IMPLICITLY_OPEN \<Longrightarrow>
      \<exists>n'. shutdown_imp i n = Some n' \<and> zone_step n i n' \<and> zone_array n' ! i = cleared (zone_array n ! i)"
    and "zone_state n i = NVME_ZONE_STATE_EXPLICITLY_OPEN \<Longrightarrow>
      \<exists>n'. shutdown_exp i n = Some n' \<and> zone_step n i n' \<and> zone_array n' ! i = cleared (zone_array n ! i)"
proof -
  have mem: "i \<in> set (zone_q n (zone_state n i))" if "queued (zone_state n i)"
    using queue_inv_mem [OF zns_inv_queue [OF inv] that] i by simp
  show "\<exists>n'. shutdown_closed i n = Some n' \<and> zone_step n i n' \<and> zone_array n' ! i = cleared (zone_array n ! i)"
    if st: "zone_state n i = NVME_ZONE_STATE_CLOSED"
  proof -
    have rm: "QTAILQ_REMOVE (closed_zones n) i = Some (remove1 i (closed_zones n))"
      using mem st by (simp add: QTAILQ_REMOVE_def zone_q_def queued_def)
    have n1: "n\<lparr>closed_zones := remove1 i (closed_zones n)\<rparr> = zone_q_upd (zone_state n i) (remove1 i) n"
      by (simp add: zone_q_upd_def st)
    show ?thesis
      unfolding shutdown_closed_def shutdown_imp_def shutdown_exp_def rm bind.bind_lunit Let_def n1 dec_active_closed_relinked [OF inv i st]
      by (rule clear_round [OF inv i]) (use st in \<open>auto simp: is_active_def is_open_def\<close>)
  qed
  show "\<exists>n'. shutdown_imp i n = Some n' \<and> zone_step n i n' \<and> zone_array n' ! i = cleared (zone_array n ! i)"
    if st: "zone_state n i = NVME_ZONE_STATE_IMPLICITLY_OPEN"
  proof -
    have rm: "QTAILQ_REMOVE (imp_open_zones n) i = Some (remove1 i (imp_open_zones n))"
      using mem st by (simp add: QTAILQ_REMOVE_def zone_q_def queued_def)
    have n1: "n\<lparr>imp_open_zones := remove1 i (imp_open_zones n)\<rparr> = zone_q_upd (zone_state n i) (remove1 i) n"
      by (simp add: zone_q_upd_def st)
    have o: "is_open (zone_state n i)" by (simp add: st is_open_def)
    show ?thesis
      unfolding shutdown_closed_def shutdown_imp_def shutdown_exp_def rm bind.bind_lunit Let_def n1 dec_open_relinked [OF inv i o] dec_active_relinked [OF inv i o]
      by (rule clear_round [OF inv i]) (use o in \<open>auto simp: is_active_def\<close>)
  qed
  show "\<exists>n'. shutdown_exp i n = Some n' \<and> zone_step n i n' \<and> zone_array n' ! i = cleared (zone_array n ! i)"
    if st: "zone_state n i = NVME_ZONE_STATE_EXPLICITLY_OPEN"
  proof -
    have rm: "QTAILQ_REMOVE (exp_open_zones n) i = Some (remove1 i (exp_open_zones n))"
      using mem st by (simp add: QTAILQ_REMOVE_def zone_q_def queued_def)
    have n1: "n\<lparr>exp_open_zones := remove1 i (exp_open_zones n)\<rparr> = zone_q_upd (zone_state n i) (remove1 i) n"
      by (simp add: zone_q_upd_def st)
    have o: "is_open (zone_state n i)" by (simp add: st is_open_def)
    show ?thesis
      unfolding shutdown_closed_def shutdown_imp_def shutdown_exp_def rm bind.bind_lunit Let_def n1 dec_open_relinked [OF inv i o] dec_active_relinked [OF inv i o]
      by (rule clear_round [OF inv i]) (use o in \<open>auto simp: is_active_def\<close>)
  qed
qed

text \<open>A loop over zones that are all in one state and are visited once each: every visited
  zone is cleared, every other is untouched.\<close>

lemma shutdown_loop:
  assumes round: "\<And>n i. zns_inv n \<Longrightarrow> i < num_zones n \<Longrightarrow> zone_state n i = st \<Longrightarrow>
      \<exists>n'. f i n = Some n' \<and> zone_step n i n' \<and> zone_array n' ! i = cleared (zone_array n ! i)"
    and "zns_inv n" and "distinct zs" and "\<forall>i \<in> set zs. i < num_zones n \<and> zone_state n i = st"
  shows "\<exists>n'. foldM f zs n = Some n' \<and> zns_inv n' \<and> same_cfg n n' \<and> (zones_ok n \<longrightarrow> zones_ok n') \<and>
    (\<forall>j. zone_array n' ! j = (if j \<in> set zs then cleared (zone_array n ! j) else zone_array n ! j))"
  using assms(2-)
proof (induction zs arbitrary: n)
  case Nil
  then show ?case by simp
next
  case (Cons i zs)
  with round [of n i] obtain n1 where 1: "f i n = Some n1" "zone_step n i n1"
    "zone_array n1 ! i = cleared (zone_array n ! i)" by auto
  note d = zone_stepD [OF 1(2)]
  have "\<forall>j \<in> set zs. j < num_zones n1 \<and> zone_state n1 j = st"
  proof
    fix j assume "j \<in> set zs"
    with Cons.prems(2,3) d(3) d(6) [of j] show "j < num_zones n1 \<and> zone_state n1 j = st"
      by (cases "j = i") auto
  qed
  with Cons.IH [OF d(1)] Cons.prems(2) obtain n2 where 2: "foldM f zs n1 = Some n2" "zns_inv n2" "same_cfg n1 n2"
    "zones_ok n1 \<longrightarrow> zones_ok n2"
    "\<forall>j. zone_array n2 ! j = (if j \<in> set zs then cleared (zone_array n1 ! j) else zone_array n1 ! j)" by auto
  have "zone_array n2 ! j = (if j \<in> set (i # zs) then cleared (zone_array n ! j) else zone_array n ! j)" for j
    using 2(5) 1(3) d(5) [of j] Cons.prems(2) by (cases "j = i") auto
  with 1(1) 2(1-4) d(2,4) show ?case by (auto intro: same_cfg_trans)
qed

lemma shutdown_queue_loop:
  assumes "\<And>n i. zns_inv n \<Longrightarrow> i < num_zones n \<Longrightarrow> zone_state n i = st \<Longrightarrow>
      \<exists>n'. f i n = Some n' \<and> zone_step n i n' \<and> zone_array n' ! i = cleared (zone_array n ! i)"
    and inv: "zns_inv n" and st: "queued st"
  shows "\<exists>n'. foldM f (zone_q n st) n = Some n' \<and> zns_inv n' \<and> same_cfg n n' \<and> (zones_ok n \<longrightarrow> zones_ok n') \<and>
    (\<forall>j < num_zones n. zone_array n' ! j = (if zone_state n j = st then cleared (zone_array n ! j) else zone_array n ! j))"
proof -
  note mem = queue_inv_mem [OF zns_inv_queue [OF inv] st]
  have "\<forall>i \<in> set (zone_q n st). i < num_zones n \<and> zone_state n i = st" using mem by simp
  from shutdown_loop [OF assms(1) inv queue_inv_distinct [OF zns_inv_queue [OF inv]] this]
  obtain n' where "foldM f (zone_q n st) n = Some n'" "zns_inv n'" "same_cfg n n'" "zones_ok n \<longrightarrow> zones_ok n'"
    "\<forall>j. zone_array n' ! j = (if j \<in> set (zone_q n st) then cleared (zone_array n ! j) else zone_array n ! j)"
    by blast
  with mem show ?thesis by (intro exI [of _ n']) simp
qed

lemma zone_q_names:
  "zone_q n NVME_ZONE_STATE_CLOSED = closed_zones n"
  "zone_q n NVME_ZONE_STATE_IMPLICITLY_OPEN = imp_open_zones n"
  "zone_q n NVME_ZONE_STATE_EXPLICITLY_OPEN = exp_open_zones n"
  "zone_q n NVME_ZONE_STATE_FULL = full_zones n"
  by (simp_all add: zone_q_def)

lemma queued_names:
  "queued NVME_ZONE_STATE_CLOSED" "queued NVME_ZONE_STATE_IMPLICITLY_OPEN"
  "queued NVME_ZONE_STATE_EXPLICITLY_OPEN" "queued NVME_ZONE_STATE_FULL"
  by (simp_all add: queued_def)

lemma shutdown_correct:
  assumes inv: "zns_inv n"
  shows "\<exists>n'. zns_zoned_ns_shutdown n = Some n' \<and> zns_inv n' \<and> same_cfg n n' \<and> (zones_ok n \<longrightarrow> zones_ok n') \<and>
    open_cnt n' = 0 \<and>
    (\<forall>j < num_zones n. zone_array n' ! j =
       (if is_active (zone_state n j) then cleared (zone_array n ! j) else zone_array n ! j))"
proof -
  from shutdown_queue_loop [where st = NVME_ZONE_STATE_CLOSED and f = shutdown_closed, OF shutdown_rounds(1) inv queued_names(1), unfolded zone_q_names] obtain n1
    where 1: "foldM shutdown_closed (closed_zones n) n = Some n1" "zns_inv n1" "same_cfg n n1"
      "zones_ok n \<longrightarrow> zones_ok n1" "\<And>j. j < num_zones n \<Longrightarrow> zone_array n1 ! j =
        (if zone_state n j = NVME_ZONE_STATE_CLOSED then cleared (zone_array n ! j) else zone_array n ! j)"
    by blast
  from shutdown_queue_loop [where st = NVME_ZONE_STATE_IMPLICITLY_OPEN and f = shutdown_imp, OF shutdown_rounds(2) 1(2) queued_names(2), unfolded zone_q_names] obtain n2
    where 2: "foldM shutdown_imp (imp_open_zones n1) n1 = Some n2" "zns_inv n2" "same_cfg n1 n2"
      "zones_ok n1 \<longrightarrow> zones_ok n2" "\<And>j. j < num_zones n \<Longrightarrow> zone_array n2 ! j =
        (if zone_state n1 j = NVME_ZONE_STATE_IMPLICITLY_OPEN then cleared (zone_array n1 ! j) else zone_array n1 ! j)"
    unfolding same_cfg_fields(1) [OF 1(3)] by blast
  have n2: "num_zones n2 = num_zones n"
    using same_cfg_fields(1) [OF 1(3)] same_cfg_fields(1) [OF 2(3)] by simp
  from shutdown_queue_loop [where st = NVME_ZONE_STATE_EXPLICITLY_OPEN and f = shutdown_exp, OF shutdown_rounds(3) 2(2) queued_names(3), unfolded zone_q_names] obtain n3
    where 3: "foldM shutdown_exp (exp_open_zones n2) n2 = Some n3" "zns_inv n3" "same_cfg n2 n3"
      "zones_ok n2 \<longrightarrow> zones_ok n3" "\<And>j. j < num_zones n \<Longrightarrow> zone_array n3 ! j =
        (if zone_state n2 j = NVME_ZONE_STATE_EXPLICITLY_OPEN then cleared (zone_array n2 ! j) else zone_array n2 ! j)"
    unfolding n2 by blast
  have n3: "num_zones n3 = num_zones n" using n2 same_cfg_fields(1) [OF 3(3)] by simp
  have arr: "zone_array n3 ! j = (if is_active (zone_state n j) then cleared (zone_array n ! j) else zone_array n ! j)"
    if "j < num_zones n" for j
    using 1(5) [OF that] 2(5) [OF that] 3(5) [OF that]
    by (cases "zone_state n j") (simp_all add: zone_state_def is_active_def is_open_def)
  have "\<not> is_open (zone_state n3 j)" if "j < num_zones n3" for j
    using arr [of j] that by (auto simp: n3 zone_state_def is_active_def is_open_def)
  then have no: "open_cnt n3 = 0"
    by (simp add: open_cnt_card [OF zns_inv_queue [OF 3(2)]] card_eq_0_iff)
  with zns_inv_counters(1) [OF 3(2)] have "nr_open_zones n3 = 0" by simp
  moreover have "same_cfg n n3" using 1(3) 2(3) 3(3) same_cfg_trans by blast
  ultimately show ?thesis
    using 1(1,4) 2(1,4) 3(1,2,4) arr no by (simp add: zns_zoned_ns_shutdown_def assert_c_def)
qed

end
