(* ===== verification/ZnsCmd.thy ===== *)
theory ZnsCmd
  imports ZnsOps
begin

text \<open>
  The commands of the zoned namespace (\<open>src/zns/zns.c\<close>): zone management send and receive,
  zone append, read, write, the dispatcher \<open>zns_io_cmd\<close>, and the start of the controller.

  A command is a record with the views the source takes of it (\<open>NvmeCmd\<close> and \<open>NvmeRwCmd\<close>).
  Functions of FEMU whose source is not in the repository are the record \<open>nvme_ext\<close>, an
  argument of the commands; a call of \<open>backend_rw\<close> is recorded in \<open>backend_calls\<close>.
\<close>

section \<open>Commands and requests\<close>

datatype nvme_opcode =
    NVME_CMD_READ
  | NVME_CMD_WRITE
  | NVME_CMD_ZONE_MGMT_SEND
  | NVME_CMD_ZONE_MGMT_RECV
  | NVME_CMD_ZONE_APPEND
  | NVME_CMD_OTHER nat

record NvmeCmd =
  opcode :: nvme_opcode
  psdt_prp :: bool
  prp1 :: nat
  prp2 :: nat
  rw_slba :: nat
  rw_nlb :: nat
  cdw10 :: nat
  cdw11 :: nat
  cdw12 :: nat
  cdw13 :: nat

record NvmeRequest =
  r_cmd :: NvmeCmd
  r_status :: nvme_status
  is_write :: bool
  opaque :: nat
  res_slba :: nat

record nvme_ext =
  nvme_check_mdts :: "FemuCtrl \<Rightarrow> nat \<Rightarrow> nvme_status"
  nvme_map_prp :: "FemuCtrl \<Rightarrow> nat \<Rightarrow> nat \<Rightarrow> nat \<Rightarrow> nvme_status"
  dma_write_prp :: "FemuCtrl \<Rightarrow> nat \<Rightarrow> nat \<Rightarrow> nat \<Rightarrow> nvme_status \<times> nat list"
  dma_read_prp :: "FemuCtrl \<Rightarrow> nat list \<Rightarrow> nat \<Rightarrow> nat \<Rightarrow> nvme_status"

definition zone_nlb :: "NvmeCmd \<Rightarrow> nat" where
  "zone_nlb cmd = u32 (u16 (rw_nlb cmd) + 1)"

definition backend_rw :: "FemuCtrl \<Rightarrow> nat \<Rightarrow> nat \<Rightarrow> bool \<Rightarrow> FemuCtrl" where
  "backend_rw n off len wr = n\<lparr>backend_calls := backend_calls n @ [Backend_rw off len wr]\<rparr>"

section \<open>Zone management send\<close>

definition zns_get_mgmt_zone_slba_idx :: "FemuCtrl \<Rightarrow> NvmeCmd \<Rightarrow> (nvme_status \<times> nat \<times> nat) option" where
  "zns_get_mgmt_zone_slba_idx n c =
     (let dw10 = u32 (cdw10 c); dw11 = u32 (cdw11 c)
      in if \<not> zoned n then Some (dnr (NVME_INVALID_OPCODE, False), 0, 0)
         else let slba = dw11 * 2 ^ 32 + dw10
              in if slba \<ge> nsze n then Some (dnr (NVME_LBA_RANGE, False), 0, 0)
                 else do {
                   zone_idx \<leftarrow> zns_zone_idx n slba;
                   assert_c (zone_idx < num_zones n);
                   Some (OK, slba, zone_idx)
                 })"

abbreviation (input) NVME_ZONE_ACTION_CLOSE :: nat where "NVME_ZONE_ACTION_CLOSE \<equiv> 0x01"
abbreviation (input) NVME_ZONE_ACTION_FINISH :: nat where "NVME_ZONE_ACTION_FINISH \<equiv> 0x02"
abbreviation (input) NVME_ZONE_ACTION_OPEN :: nat where "NVME_ZONE_ACTION_OPEN \<equiv> 0x03"
abbreviation (input) NVME_ZONE_ACTION_RESET :: nat where "NVME_ZONE_ACTION_RESET \<equiv> 0x04"
abbreviation (input) NVME_ZONE_ACTION_OFFLINE :: nat where "NVME_ZONE_ACTION_OFFLINE \<equiv> 0x05"
abbreviation (input) NVME_ZONE_ACTION_SET_ZD_EXT :: nat where "NVME_ZONE_ACTION_SET_ZD_EXT \<equiv> 0x10"

text \<open>The tail of the function: a failure is not to be retried.\<close>

definition with_dnr :: "nvme_status \<Rightarrow> nvme_status" where
  "with_dnr status = (if status \<noteq> OK then dnr status else status)"

definition store_zd_ext :: "FemuCtrl \<Rightarrow> nat \<Rightarrow> nat list \<Rightarrow> FemuCtrl" where
  "store_zd_ext n zone_idx bytes =
     (let off = u32 (zone_idx * zd_extension_size n)
      in n\<lparr>zd_extensions := take off (zd_extensions n) @ take (zd_extension_size n) bytes @
             drop (off + zd_extension_size n) (zd_extensions n)\<rparr>)"

text \<open>The \<open>switch\<close> over the action. Statuses of the open and close operations are overwritten
  with success, as is that of a reset.\<close>

definition zns_zone_action ::
  "nvme_ext \<Rightarrow> FemuCtrl \<Rightarrow> NvmeCmd \<Rightarrow> nat \<Rightarrow> bool \<Rightarrow> nat \<Rightarrow> (nvme_status \<times> FemuCtrl) option" where
  "zns_zone_action ext n cmd action all_zones zone_idx =
     (let mask_of = (\<lambda>m. if all_zones then m else NVME_PROC_CURRENT_ZONE)
      in if action = NVME_ZONE_ACTION_OPEN then do {
           (_, n) \<leftarrow> zns_do_zone_op n zone_idx (mask_of NVME_PROC_CLOSED_ZONES) zns_open_zone;
           Some (OK, n)
         } else if action = NVME_ZONE_ACTION_CLOSE then do {
           (_, n) \<leftarrow> zns_do_zone_op n zone_idx (mask_of NVME_PROC_OPENED_ZONES) zns_close_zone;
           Some (OK, n)
         } else if action = NVME_ZONE_ACTION_FINISH then do {
           (status, n) \<leftarrow> zns_do_zone_op n zone_idx
             (mask_of (NVME_PROC_OPENED_ZONES OR NVME_PROC_CLOSED_ZONES)) zns_finish_zone;
           Some (with_dnr status, n)
         } else if action = NVME_ZONE_ACTION_RESET then do {
           (_, n) \<leftarrow> zns_do_zone_op n zone_idx
             (mask_of (NVME_PROC_OPENED_ZONES OR NVME_PROC_CLOSED_ZONES OR NVME_PROC_FULL_ZONES))
             zns_reset_zone;
           Some (OK, n)
         } else if action = NVME_ZONE_ACTION_OFFLINE then do {
           (status, n) \<leftarrow> zns_do_zone_op n zone_idx (mask_of NVME_PROC_READ_ONLY_ZONES) zns_offline_zone;
           Some (with_dnr status, n)
         } else if action = NVME_ZONE_ACTION_SET_ZD_EXT then
           (if all_zones \<or> zd_extension_size n = 0 then Some (dnr (NVME_INVALID_FIELD, False), n)
            else
              let (status, bytes) = dma_write_prp ext n (zd_extension_size n) (prp1 cmd) (prp2 cmd);
                  n = store_zd_ext n zone_idx bytes
              in if status \<noteq> OK then Some (status, n)
                 else do { (status, n) \<leftarrow> zns_set_zd_ext n zone_idx; Some (with_dnr status, n) })
         else Some (with_dnr (NVME_INVALID_FIELD, False), n))"

definition zns_zone_mgmt_send ::
  "nvme_ext \<Rightarrow> FemuCtrl \<Rightarrow> NvmeRequest \<Rightarrow> (nvme_status \<times> FemuCtrl \<times> NvmeRequest) option" where
  "zns_zone_mgmt_send ext n req = do {
     let cmd = r_cmd req;
     let dw13 = u32 (cdw13 cmd);
     let action = dw13 AND 0xff;
     let all_zones = (dw13 AND 0x100 \<noteq> 0);
     let req = req\<lparr>r_status := OK\<rparr>;
     (status, slba, zone_idx) \<leftarrow> (if all_zones then Some (OK, 0, 0) else zns_get_mgmt_zone_slba_idx n cmd);
     if status \<noteq> OK then Some (status, n, req)
     else do {
       zone \<leftarrow> zone_at n zone_idx;
       if slba \<noteq> d_zslba zone then Some (dnr (NVME_INVALID_FIELD, False), n, req)
       else do {
         (status, n) \<leftarrow> zns_zone_action ext n cmd action all_zones zone_idx;
         Some (status, n, if action = NVME_ZONE_ACTION_RESET then req\<lparr>opaque := 0\<rparr> else req)
       }
     }
   }"

section \<open>Zone management receive\<close>

abbreviation (input) NVME_ZONE_REPORT :: nat where "NVME_ZONE_REPORT \<equiv> 0"
abbreviation (input) NVME_ZONE_REPORT_EXTENDED :: nat where "NVME_ZONE_REPORT_EXTENDED \<equiv> 1"
abbreviation (input) NVME_ZONE_REPORT_OFFLINE :: nat where "NVME_ZONE_REPORT_OFFLINE \<equiv> 7"

definition zns_zone_matches_filter :: "nat \<Rightarrow> NvmeZone \<Rightarrow> bool" where
  "zns_zone_matches_filter zafs zl =
     (let zs = zns_get_zone_state zl
      in if zafs = 0 then True
         else if zafs = 1 then zs = NVME_ZONE_STATE_EMPTY
         else if zafs = 2 then zs = NVME_ZONE_STATE_IMPLICITLY_OPEN
         else if zafs = 3 then zs = NVME_ZONE_STATE_EXPLICITLY_OPEN
         else if zafs = 4 then zs = NVME_ZONE_STATE_CLOSED
         else if zafs = 5 then zs = NVME_ZONE_STATE_FULL
         else if zafs = 6 then zs = NVME_ZONE_STATE_READ_ONLY
         else if zafs = 7 then zs = NVME_ZONE_STATE_OFFLINE
         else False)"

text \<open>Little-endian bytes, and the packed layout of a report: a header of 64 bytes and
  descriptors of 64 bytes.\<close>

definition le_bytes :: "nat \<Rightarrow> nat \<Rightarrow> nat list" where
  "le_bytes k x = map (\<lambda>j. x div 256 ^ j mod 256) [0 ..< k]"

definition header_bytes :: "nat \<Rightarrow> nat list" where
  "header_bytes nr_zones = le_bytes 8 nr_zones @ replicate 56 0"

definition descr_bytes :: "NvmeZone \<Rightarrow> nat list" where
  "descr_bytes zone =
     [d_zt zone, d_zs zone, d_za zone] @ replicate 5 0 @ le_bytes 8 (d_zcap zone) @
     le_bytes 8 (d_zslba zone) @
     le_bytes 8 (if zns_wp_is_valid zone then d_wp zone else 2 ^ 64 - 1) @ replicate 32 0"

text \<open>The loop that counts the matching zones; it does not return when the zone size is zero.\<close>

partial_function (option) zns_report_count ::
  "FemuCtrl \<Rightarrow> bool \<Rightarrow> nat \<Rightarrow> nat \<Rightarrow> nat \<Rightarrow> nat \<Rightarrow> nat \<Rightarrow> nat option" where
  "zns_report_count n part max_zones zrasf slba zone nr_zones =
     (if slba < zns_ns_nlbas n then
        (if part \<and> nr_zones \<ge> max_zones then Some nr_zones
         else (case zone_at n zone of
                 None \<Rightarrow> None
               | Some z \<Rightarrow> zns_report_count n part max_zones zrasf (u64 (slba + zone_size n)) (Suc zone)
                             (if zns_zone_matches_filter zrasf z then nr_zones + 1 else nr_zones)))
      else Some nr_zones)"

text \<open>The loop that writes the descriptors, over the indices from the first zone on.\<close>

fun zns_report_entries :: "FemuCtrl \<Rightarrow> nat \<Rightarrow> nat \<Rightarrow> nat \<Rightarrow> nat list \<Rightarrow> nat list option" where
  "zns_report_entries n zra zrasf max_zones [] = Some []"
| "zns_report_entries n zra zrasf max_zones (zone_idx # rest) =
     (if max_zones = 0 then Some []
      else do {
        zone \<leftarrow> zone_at n zone_idx;
        if zns_zone_matches_filter zrasf zone then do {
          let ext = (if zra = NVME_ZONE_REPORT_EXTENDED then
                       (if d_za zone AND NVME_ZA_ZD_EXT_VALID \<noteq> 0 then zns_get_zd_extension n zone_idx
                        else replicate (zd_extension_size n) 0)
                     else []);
          bytes \<leftarrow> zns_report_entries n zra zrasf (max_zones - 1) rest;
          Some (descr_bytes zone @ ext @ bytes)
        } else zns_report_entries n zra zrasf max_zones rest
      })"

text \<open>Writing past the \<open>data_size\<close> bytes of the buffer is an abort.\<close>

definition zns_zone_mgmt_recv ::
  "nvme_ext \<Rightarrow> FemuCtrl \<Rightarrow> NvmeRequest \<Rightarrow> (nvme_status \<times> NvmeRequest) option" where
  "zns_zone_mgmt_recv ext n req = do {
     let cmd = r_cmd req;
     let data_size = u32 (u32 (u32 (cdw12 cmd) + 1) * 2 ^ 2);
     let dw13 = u32 (cdw13 cmd);
     let req = req\<lparr>r_status := OK\<rparr>;
     (status, slba, zone_idx) \<leftarrow> zns_get_mgmt_zone_slba_idx n cmd;
     if status \<noteq> OK then Some (status, req)
     else do {
       let zra = dw13 AND 0xff;
       if zra \<noteq> NVME_ZONE_REPORT \<and> zra \<noteq> NVME_ZONE_REPORT_EXTENDED
       then Some (dnr (NVME_INVALID_FIELD, False), req)
       else if zra = NVME_ZONE_REPORT_EXTENDED \<and> zd_extension_size n = 0
       then Some (dnr (NVME_INVALID_FIELD, False), req)
       else do {
         let zrasf = drop_bit 8 dw13 AND 0xff;
         if zrasf > NVME_ZONE_REPORT_OFFLINE then Some (dnr (NVME_INVALID_FIELD, False), req)
         else if data_size < 64 then Some (dnr (NVME_INVALID_FIELD, False), req)
         else do {
           let status = nvme_check_mdts ext n data_size;
           if status \<noteq> OK then Some (status, req)
           else do {
             let part = (drop_bit 16 dw13 AND 0x01 \<noteq> 0);
             let zone_entry_sz = 64 + (if zra = NVME_ZONE_REPORT_EXTENDED then zd_extension_size n else 0);
             let max_zones = (data_size - 64) div zone_entry_sz;
             nr_zones \<leftarrow> zns_report_count n part max_zones zrasf slba zone_idx 0;
             entries \<leftarrow> zns_report_entries n zra zrasf max_zones [zone_idx ..< num_zones n];
             assert_c (64 + length entries \<le> data_size);
             let buf = header_bytes nr_zones @ entries @ replicate (data_size - 64 - length entries) 0;
             Some (dma_read_prp ext n buf (prp1 cmd) (prp2 cmd), req)
           }
         }
       }
     }
   }"

section \<open>Reads and writes\<close>

definition nvme_csi_has_nvm_support :: "FemuCtrl \<Rightarrow> bool" where
  "nvme_csi_has_nvm_support n = (case csi n of NVME_CSI_NVM \<Rightarrow> True | NVME_CSI_ZONED \<Rightarrow> True | _ \<Rightarrow> False)"

definition zns_check_bounds :: "FemuCtrl \<Rightarrow> nat \<Rightarrow> nat \<Rightarrow> nvme_status" where
  "zns_check_bounds n slba nlb =
     (if 2 ^ 64 - 1 - slba < nlb \<or> u64 (slba + nlb) > nsze n then dnr (NVME_LBA_RANGE, False) else OK)"

definition zns_map_dptr :: "nvme_ext \<Rightarrow> FemuCtrl \<Rightarrow> nat \<Rightarrow> NvmeRequest \<Rightarrow> nvme_status" where
  "zns_map_dptr ext n len req =
     (if psdt_prp (r_cmd req) then nvme_map_prp ext n (prp1 (r_cmd req)) (prp2 (r_cmd req)) len
      else (NVME_INVALID_FIELD, False))"

text \<open>\<open>goto err\<close> returns the status with the do-not-retry bit.\<close>

definition zns_do_write ::
  "nvme_ext \<Rightarrow> FemuCtrl \<Rightarrow> NvmeRequest \<Rightarrow> bool \<Rightarrow> bool \<Rightarrow> (nvme_status \<times> FemuCtrl \<times> NvmeRequest) option" where
  "zns_do_write ext n req append_f wrz = do {
     let slba = rw_slba (r_cmd req);
     let nlb = zone_nlb (r_cmd req);
     let data_size = zns_l2b n nlb;
     let status = (if \<not> wrz then nvme_check_mdts ext n data_size else OK);
     if status \<noteq> OK then Some (dnr status, n, req)
     else do {
       let status = zns_check_bounds n slba nlb;
       if status \<noteq> OK then Some (dnr status, n, req)
       else do {
         zone \<leftarrow> zns_get_zone_by_slba n slba;
         z \<leftarrow> zone_at n zone;
         status \<leftarrow> zns_check_zone_write n z slba nlb append_f;
         if status \<noteq> OK then Some (dnr status, n, req)
         else do {
           (status, n) \<leftarrow> zns_auto_open_zone n zone;
           if status \<noteq> OK then Some (dnr status, n, req)
           else do {
             z \<leftarrow> zone_at n zone;
             let slba = (if append_f then w_ptr z else slba);
             (result, n) \<leftarrow> zns_advance_zone_wp n zone nlb;
             let req = req\<lparr>res_slba := result\<rparr>;
             let data_offset = zns_l2b n slba;
             let status = (if \<not> wrz then zns_map_dptr ext n data_size req else OK);
             if status \<noteq> OK then Some (dnr status, n, req)
             else do {
               let n = (if \<not> wrz then backend_rw n data_offset data_size (is_write req) else n);
               n \<leftarrow> zns_finalize_zoned_write n (rw_slba (r_cmd req)) (zone_nlb (r_cmd req));
               Some (OK, n, req)
             }
           }
         }
       }
     }
   }"

definition zns_admin_cmd :: "FemuCtrl \<Rightarrow> NvmeCmd \<Rightarrow> nvme_status" where
  "zns_admin_cmd n cmd = dnr (NVME_INVALID_OPCODE, False)"

definition zns_zone_append ::
  "nvme_ext \<Rightarrow> FemuCtrl \<Rightarrow> NvmeRequest \<Rightarrow> (nvme_status \<times> FemuCtrl \<times> NvmeRequest) option" where
  "zns_zone_append ext n req = zns_do_write ext n req True False"

definition zns_check_dulbe :: "FemuCtrl \<Rightarrow> nat \<Rightarrow> nat \<Rightarrow> nvme_status" where
  "zns_check_dulbe n slba nlb = OK"

definition zns_read ::
  "nvme_ext \<Rightarrow> FemuCtrl \<Rightarrow> NvmeRequest \<Rightarrow> (nvme_status \<times> FemuCtrl \<times> NvmeRequest) option" where
  "zns_read ext n req = do {
     let slba = rw_slba (r_cmd req);
     let nlb = zone_nlb (r_cmd req);
     let data_size = zns_l2b n nlb;
     assert_c (zoned n);
     let req = req\<lparr>is_write := False\<rparr>;
     let status = nvme_check_mdts ext n data_size;
     if status \<noteq> OK then Some (dnr status, n, req)
     else do {
       let status = zns_check_bounds n slba nlb;
       if status \<noteq> OK then Some (dnr status, n, req)
       else do {
         status \<leftarrow> zns_check_zone_read n slba nlb;
         if status \<noteq> OK then Some (dnr status, n, req)
         else do {
           let status = zns_map_dptr ext n data_size req;
           if status \<noteq> OK then Some (dnr status, n, req)
           else do {
             let status = (if err_rec_dulbe n then zns_check_dulbe n slba nlb else OK);
             if status \<noteq> OK then Some (dnr status, n, req)
             else Some (OK, backend_rw n (zns_l2b n slba) data_size (is_write req), req)
           }
         }
       }
     }
   }"

text \<open>\<open>cmd\<close> is the command the dispatcher was given, \<open>r_cmd req\<close> the copy in the request.\<close>

definition zns_write ::
  "nvme_ext \<Rightarrow> FemuCtrl \<Rightarrow> NvmeCmd \<Rightarrow> NvmeRequest \<Rightarrow> (nvme_status \<times> FemuCtrl \<times> NvmeRequest) option" where
  "zns_write ext n cmd req = do {
     let slba = rw_slba cmd;
     let nlb = zone_nlb cmd;
     let data_size = zns_l2b n nlb;
     assert_c (zoned n);
     let req = req\<lparr>is_write := True\<rparr>;
     let status = nvme_check_mdts ext n data_size;
     if status \<noteq> OK then Some (dnr status, n, req)
     else do {
       let status = zns_check_bounds n slba nlb;
       if status \<noteq> OK then Some (dnr status, n, req)
       else do {
         zone \<leftarrow> zns_get_zone_by_slba n slba;
         z \<leftarrow> zone_at n zone;
         status \<leftarrow> zns_check_zone_write n z slba nlb False;
         if status \<noteq> OK then Some (dnr status, n, req)
         else do {
           (status, n) \<leftarrow> zns_auto_open_zone n zone;
           if status \<noteq> OK then Some (dnr status, n, req)
           else do {
             (result, n) \<leftarrow> zns_advance_zone_wp n zone nlb;
             let req = req\<lparr>res_slba := result\<rparr>;
             let data_offset = zns_l2b n slba;
             let status = zns_map_dptr ext n data_size req;
             if status \<noteq> OK then Some (dnr status, n, req)
             else do {
               let n = backend_rw n data_offset data_size (is_write req);
               n \<leftarrow> zns_finalize_zoned_write n (rw_slba (r_cmd req)) (zone_nlb (r_cmd req));
               Some (OK, n, req)
             }
           }
         }
       }
     }
   }"

definition zns_io_cmd ::
  "nvme_ext \<Rightarrow> FemuCtrl \<Rightarrow> NvmeCmd \<Rightarrow> NvmeRequest \<Rightarrow> (nvme_status \<times> FemuCtrl \<times> NvmeRequest) option" where
  "zns_io_cmd ext n cmd req =
     (case opcode cmd of
        NVME_CMD_READ \<Rightarrow> zns_read ext n req
      | NVME_CMD_WRITE \<Rightarrow> zns_write ext n cmd req
      | NVME_CMD_ZONE_MGMT_SEND \<Rightarrow> zns_zone_mgmt_send ext n req
      | NVME_CMD_ZONE_MGMT_RECV \<Rightarrow> do { (status, req) \<leftarrow> zns_zone_mgmt_recv ext n req; Some (status, n, req) }
      | NVME_CMD_ZONE_APPEND \<Rightarrow> zns_zone_append ext n req
      | NVME_CMD_OTHER _ \<Rightarrow> Some (dnr (NVME_INVALID_OPCODE, False), n, req))"

section \<open>Start of the controller\<close>

definition zns_init_zone_cap :: "FemuCtrl \<Rightarrow> FemuCtrl" where
  "zns_init_zone_cap n =
     n\<lparr>zoned := True, zasl_bs := NVME_DEFAULT_MAX_AZ_SIZE, zone_size_bs := NVME_DEFAULT_ZONE_SIZE,
       zone_cap_bs := 0, cross_zone_read := False, max_active_zones := 0, max_open_zones := 0,
       zd_extension_size := 0\<rparr>"

definition zns_start_ctrl :: "host_utils \<Rightarrow> FemuCtrl \<Rightarrow> (int \<times> FemuCtrl) option" where
  "zns_start_ctrl hu n = do {
     assert_c (page_size n = 4096);
     if zasl_bs n = 0 then Some (0, n\<lparr>zasl := mdts n\<rparr>)
     else if zasl_bs n < page_size n then Some (-1, n)
     else Some (0, n\<lparr>zasl := u8 (31 - clz32 hu (zasl_bs n div page_size n))\<rparr>)
   }"

text \<open>The part of \<open>zns_init\<close> that concerns the zones: it stops when the geometry is refused.\<close>

definition zns_init :: "host_utils \<Rightarrow> FemuCtrl \<Rightarrow> FemuCtrl" where
  "zns_init hu n =
     (let n = zns_init_zone_cap n;
          (r, n) = zns_init_zone_geometry n
      in if r \<noteq> 0 then n else zns_init_zone_identify hu n 0)"

section \<open>The layout of the zones\<close>

text \<open>The zones are laid out one after the other from address zero and fill the namespace.\<close>

definition zns_geo :: "FemuCtrl \<Rightarrow> bool" where
  "zns_geo n \<longleftrightarrow>
     zoned n \<and> 0 < num_zones n \<and> num_zones n < 2 ^ 32 \<and> 0 < zone_size n \<and>
     (num_zones n + 1) * zone_size n < 2 ^ 64 \<and>
     (zone_size_log2 n = 0 \<or> zone_size n = 2 ^ zone_size_log2 n) \<and>
     nsze n = num_zones n * zone_size n \<and> zns_ns_nlbas n = nsze n \<and>
     (\<forall>i < num_zones n. d_zslba (zone_array n ! i) = i * zone_size n \<and>
        0 < d_zcap (zone_array n ! i) \<and> d_zcap (zone_array n ! i) \<le> zone_size n)"

lemma zns_geo_same_cfg:
  assumes "same_cfg n n'" and "zns_geo n" and "length (zone_array n) = num_zones n"
  shows "zns_geo n'"
  using assms same_cfg_fields [OF assms(1)] same_cfg_zone [OF assms(1)]
  by (simp add: zns_geo_def zns_ns_nlbas_def zns_ns_lbads_def)

definition same_layout :: "FemuCtrl \<Rightarrow> FemuCtrl \<Rightarrow> bool" where
  "same_layout n n' \<longleftrightarrow> num_zones n' = num_zones n \<and> zone_size n' = zone_size n \<and> nsze n' = nsze n \<and>
     lbads n' = lbads n \<and>
     (\<forall>i < num_zones n. d_zslba (zone_array n' ! i) = d_zslba (zone_array n ! i) \<and>
        d_zcap (zone_array n' ! i) = d_zcap (zone_array n ! i))"

lemma same_layout_trans [trans]: "same_layout n n' \<Longrightarrow> same_layout n' n'' \<Longrightarrow> same_layout n n''"
  by (simp add: same_layout_def)

lemma same_cfg_layout:
  assumes "same_cfg n n'" and "length (zone_array n) = num_zones n"
  shows "same_layout n n'"
  using same_cfg_fields [OF assms(1)] same_cfg_zone [OF assms(1)] assms(2) by (simp add: same_layout_def)

lemma zone_idx_eq:
  assumes "zns_geo n" and "slba < nsze n"
  shows "zns_zone_idx n slba = Some (slba div zone_size n)" "slba div zone_size n < num_zones n"
    "zns_get_zone_by_slba n slba = Some (slba div zone_size n)"
proof -
  show lt: "slba div zone_size n < num_zones n"
    using assms by (simp add: zns_geo_def div_less_iff_less_mult)
  then have "u32 (slba div zone_size n) = slba div zone_size n"
    using assms(1) by (intro u32_id) (simp add: zns_geo_def)
  then show *: "zns_zone_idx n slba = Some (slba div zone_size n)"
    using assms(1) by (auto simp: zns_geo_def zns_zone_idx_def)
  with lt show "zns_get_zone_by_slba n slba = Some (slba div zone_size n)"
    by (simp add: zns_get_zone_by_slba_def assert_c_def)
qed

lemma check_bounds_ok:
  assumes "zns_geo n" and "slba < 2 ^ 64" and "zns_check_bounds n slba nlb = OK"
  shows "slba + nlb \<le> nsze n"
proof -
  from assms have "slba + nlb < 2 ^ 64" "u64 (slba + nlb) \<le> nsze n"
    by (auto simp: zns_check_bounds_def dnr_def split: if_splits)
  then show ?thesis by (simp add: u64_id)
qed

lemma zone_nlb_pos: "0 < zone_nlb cmd"
proof -
  have "u16 (rw_nlb cmd) < 65536" by (simp add: u16_def)
  then show ?thesis by (simp add: zone_nlb_def u32_def)
qed

lemma rd_boundary_eq:
  assumes "zns_geo n" and "i < num_zones n"
  shows "zns_zone_rd_boundary n (zone_array n ! i) = (i + 1) * zone_size n"
proof -
  have "(i + 1) * zone_size n \<le> num_zones n * zone_size n" using assms(2) by (intro mult_right_mono) simp_all
  also have "num_zones n * zone_size n < 2 ^ 64" using assms(1) by (simp add: zns_geo_def algebra_simps)
  finally have "i * zone_size n + zone_size n < 2 ^ 64" by simp
  with assms show ?thesis by (simp add: zns_zone_rd_boundary_def zns_geo_def u64_id)
qed

lemma wr_boundary_eq:
  assumes "zns_geo n" and "i < num_zones n"
  shows "zns_zone_wr_boundary (zone_array n ! i) = d_zslba (zone_array n ! i) + d_zcap (zone_array n ! i)"
    and "d_zslba (zone_array n ! i) + d_zcap (zone_array n ! i) \<le> nsze n"
proof -
  from assms have *: "d_zslba (zone_array n ! i) + d_zcap (zone_array n ! i) \<le> i * zone_size n + zone_size n"
    by (simp add: zns_geo_def)
  also have "i * zone_size n + zone_size n = (i + 1) * zone_size n" by simp
  also have "\<dots> \<le> num_zones n * zone_size n" using assms(2) by (intro mult_right_mono) simp_all
  finally show le: "d_zslba (zone_array n ! i) + d_zcap (zone_array n ! i) \<le> nsze n"
    using assms(1) by (simp add: zns_geo_def)
  moreover have "nsze n < 2 ^ 64" using assms(1) by (simp add: zns_geo_def algebra_simps)
  ultimately show "zns_zone_wr_boundary (zone_array n ! i) = d_zslba (zone_array n ! i) + d_zcap (zone_array n ! i)"
    by (simp add: zns_zone_wr_boundary_def u64_id)
qed

lemma dnr_not_ok [simp]: "dnr s \<noteq> OK" "OK \<noteq> dnr s" "dnr s = OK \<longleftrightarrow> False"
  by (simp_all add: dnr_def)

section \<open>Frames of the data path\<close>

lemma backend_rw_frames [simp]:
  "zns_inv (backend_rw n a b w) = zns_inv n" "zns_geo (backend_rw n a b w) = zns_geo n"
  "zones_ok (backend_rw n a b w) = zones_ok n" "zone_array (backend_rw n a b w) = zone_array n"
  "num_zones (backend_rw n a b w) = num_zones n" "zone_size (backend_rw n a b w) = zone_size n"
  "nsze (backend_rw n a b w) = nsze n" "zone_state (backend_rw n a b w) i = zone_state n i"
  "backend_calls (backend_rw n a b w) = backend_calls n @ [Backend_rw a b w]"
  "zns_get_zone_by_slba (backend_rw n a b w) slba = zns_get_zone_by_slba n slba"
  by (simp_all add: backend_rw_def zns_inv_def queue_inv_def aor_inv_def states_inv_def zone_q_def
      zone_state_def open_cnt_def active_cnt_def zns_geo_def zns_ns_nlbas_def zns_ns_lbads_def zones_ok_def
      queue_states_def zns_get_zone_by_slba_def zns_zone_idx_def)

lemma store_zd_ext_frames [simp]:
  "zns_inv (store_zd_ext n i bs) = zns_inv n" "zns_geo (store_zd_ext n i bs) = zns_geo n"
  "zones_ok (store_zd_ext n i bs) = zones_ok n" "num_zones (store_zd_ext n i bs) = num_zones n"
  "zone_array (store_zd_ext n i bs) = zone_array n"
  by (simp_all add: store_zd_ext_def Let_def zns_inv_def queue_inv_def aor_inv_def states_inv_def zone_q_def
      zone_state_def open_cnt_def active_cnt_def zns_geo_def zns_ns_nlbas_def zns_ns_lbads_def zones_ok_def
      queue_states_def)

section \<open>The checks\<close>

lemma check_zone_write_total:
  assumes "zns_get_zone_state z \<noteq> NVME_ZONE_STATE_RESERVED"
  shows "\<exists>s. zns_check_zone_write n z slba nlb a = Some s"
  using assms
  by (cases "zns_get_zone_state z")
     (auto simp: zns_check_zone_write_def zns_check_zone_state_for_write_def zns_wp_is_valid_def assert_c_def
        Let_def)

lemma check_zone_write_ok:
  assumes "zns_check_zone_write n z slba nlb a = Some OK"
  shows "zns_get_zone_state z = NVME_ZONE_STATE_EMPTY \<or> is_active (zns_get_zone_state z)"
    and "u64 (slba + nlb) \<le> zns_zone_wr_boundary z"
    and "a \<Longrightarrow> slba = d_zslba z" and "\<not> a \<Longrightarrow> slba = w_ptr z"
  using assms
  by (auto simp: zns_check_zone_write_def zns_check_zone_state_for_write_def zns_wp_is_valid_def assert_c_def
      Let_def is_active_def is_open_def split: if_splits NvmeZoneState.splits Option.bind_splits)

lemma read_state_total:
  "zns_get_zone_state z \<noteq> NVME_ZONE_STATE_RESERVED \<Longrightarrow> \<exists>s. zns_check_zone_state_for_read z = Some s"
  by (cases "zns_get_zone_state z") (auto simp: zns_check_zone_state_for_read_def)

text \<open>The walk over the zones after the first ends inside the array.\<close>

lemma check_read_rest_total:
  assumes "zns_inv n" and "zns_geo n" and "zend \<le> nsze n" and "(i + 1) * zone_size n < zend"
  shows "\<exists>s. zns_check_read_rest n zend i = Some s"
  using assms
proof (induction n zend i rule: zns_check_read_rest.induct)
  case (1 n zend i)
  have "(i + 1) * zone_size n < num_zones n * zone_size n"
    using "1.prems" by (simp add: zns_geo_def)
  then have i: "Suc i < num_zones n" by (metis Suc_eq_plus1 mult_less_cancel2)
  note len = queue_inv_length [OF zns_inv_queue [OF "1.prems"(1)]]
  obtain s where s: "zns_check_zone_state_for_read (zone_array n ! Suc i) = Some s"
    using read_state_total "1.prems"(1) i by (fastforce simp: zns_inv_def states_inv_def zone_state_def)
  have at: "zone_at n (Suc i) = Some (zone_array n ! Suc i)" using i len by (simp add: zone_at_def)
  show ?case
  proof (cases "s = OK \<and> zend > zns_zone_rd_boundary n (zone_array n ! Suc i)")
    case True
    then have "(Suc i + 1) * zone_size n < zend"
      using rd_boundary_eq [OF "1.prems"(2) i] by simp
    with "1.IH" [OF at] s True "1.prems" show ?thesis
      by (subst zns_check_read_rest.simps) (simp add: at)
  next
    case False
    with at s show ?thesis by (subst zns_check_read_rest.simps) auto
  qed
qed

lemma check_zone_read_total:
  assumes "zns_inv n" and "zns_geo n" and "slba + nlb \<le> nsze n" and "0 < nlb"
  shows "\<exists>s. zns_check_zone_read n slba nlb = Some s"
proof -
  let ?i = "slba div zone_size n"
  from assms have lt: "slba < nsze n" by simp
  note idx = zone_idx_eq [OF assms(2) lt]
  have u: "u64 (slba + nlb) = slba + nlb"
    using assms(2,3) by (intro u64_id) (simp add: zns_geo_def algebra_simps)
  note at = zone_at_eq [OF zns_inv_queue [OF assms(1)] idx(2)]
  obtain s where s: "zns_check_zone_state_for_read (zone_array n ! ?i) = Some s"
    using read_state_total assms(1) idx(2) by (fastforce simp: zns_inv_def states_inv_def zone_state_def)
  show ?thesis
    using idx at s u rd_boundary_eq [OF assms(2) idx(2)] check_read_rest_total [OF assms(1-3), of ?i]
    by (auto simp: zns_check_zone_read_def Let_def)
qed

section \<open>The write path\<close>

lemma advance_zone_at: "zone_at n i \<bind> (\<lambda>z. zns_advance_zone_wp n i nlb \<bind> f) = zns_advance_zone_wp n i nlb \<bind> f"
  by (cases "zone_at n i") (simp_all add: zns_advance_zone_wp_def)

lemma write_eq_do_write:
  assumes "zoned n"
  shows "zns_write ext n (r_cmd req) req = zns_do_write ext n (req\<lparr>is_write := True\<rparr>) False False"
  using assms by (simp add: zns_write_def zns_do_write_def Let_def advance_zone_at assert_c_def
      case_prod_unfold cong: if_cong)

text \<open>The checks before the write pointer moves.\<close>

definition passes :: "nvme_ext \<Rightarrow> FemuCtrl \<Rightarrow> NvmeRequest \<Rightarrow> bool \<Rightarrow> bool" where
  "passes ext n req a \<longleftrightarrow>
     (let i = rw_slba (r_cmd req) div zone_size n; nlb = zone_nlb (r_cmd req)
      in nvme_check_mdts ext n (zns_l2b n nlb) = OK \<and> zns_check_bounds n (rw_slba (r_cmd req)) nlb = OK \<and>
         zns_check_zone_write n (zone_array n ! i) (rw_slba (r_cmd req)) nlb a = Some OK \<and>
         (\<exists>n1. zns_auto_open_zone n i = Some (OK, n1)))"

text \<open>The status of a command whose data pointer gets mapped.\<close>

definition map_status :: "nvme_ext \<Rightarrow> FemuCtrl \<Rightarrow> FemuCtrl \<Rightarrow> NvmeRequest \<Rightarrow> nvme_status" where
  "map_status ext n m req = zns_map_dptr ext m (zns_l2b n (zone_nlb (r_cmd req))) req"

text \<open>A write or append is rejected before the write pointer moves, and then nothing but an
  implicit close of another zone may have happened; or the pointer moves, the data pointer is
  mapped and the write completes.\<close>

lemma do_write_cases:
  assumes inv: "zns_inv n" and geo: "zns_geo n" and slba: "rw_slba (r_cmd req) < 2 ^ 64"
  obtains
    (reject) s n' where "zns_do_write ext n req a wrz = Some (s, n', req)" "s \<noteq> OK" "zns_inv n'" "same_cfg n n'"
      "zones_ok n \<Longrightarrow> zones_ok n'" "\<And>j. w_ptr (zone_array n' ! j) = w_ptr (zone_array n ! j)" "wrz \<or> \<not> passes ext n req a"
  | (go) i z n1 n2 where "i = rw_slba (r_cmd req) div zone_size n" "i < num_zones n"
      "rw_slba (r_cmd req) + zone_nlb (r_cmd req) \<le> nsze n"
      "z = zone_array n ! i" "zns_check_zone_write n z (rw_slba (r_cmd req)) (zone_nlb (r_cmd req)) a = Some OK"
      "zns_inv n1" "same_cfg n n1" "zones_ok n \<Longrightarrow> zones_ok n1" "zone_array n1 ! i = z"
      "\<And>j. w_ptr (zone_array n1 ! j) = w_ptr (zone_array n ! j) \<and> d_wp (zone_array n1 ! j) = d_wp (zone_array n ! j)"
      "zns_inv n2" "same_cfg n1 n2" "zone_array n2 = (zone_array n1)[i := advanced (zone_nlb (r_cmd req)) z]"
      "zns_do_write ext n req a wrz =
        (let req' = req\<lparr>res_slba := w_ptr z\<rparr>; sz = zns_l2b n (zone_nlb (r_cmd req));
             off = zns_l2b n (if a then w_ptr z else rw_slba (r_cmd req));
             st = (if wrz then OK else zns_map_dptr ext n2 sz req')
         in if st \<noteq> OK then Some (dnr st, n2, req')
            else do {
              n3 \<leftarrow> zns_finalize_zoned_write (if wrz then n2 else backend_rw n2 off sz (is_write req))
                     (rw_slba (r_cmd req)) (zone_nlb (r_cmd req));
              Some (OK, n3, req') })"
proof -
  let ?cmd = "r_cmd req"
  let ?nlb = "zone_nlb ?cmd" and ?slba = "rw_slba ?cmd"
  let ?m = "if \<not> wrz then nvme_check_mdts ext n (zns_l2b n ?nlb) else OK"
  let ?i = "?slba div zone_size n"
  have early: "zns_do_write ext n req a wrz = Some (dnr s, n, req) \<Longrightarrow> wrz \<or> \<not> passes ext n req a \<Longrightarrow> thesis" for s
    using reject [of "dnr s" n] inv by (auto simp: dnr_def)
  show thesis
  proof (cases "?m = OK \<and> zns_check_bounds n ?slba ?nlb = OK")
    case False
    then show thesis
      by (intro early [of "if ?m \<noteq> OK then ?m else zns_check_bounds n ?slba ?nlb"])
         (auto simp: zns_do_write_def passes_def Let_def)
  next
    case True
    with check_bounds_ok [OF geo slba] have fit: "?slba + ?nlb \<le> nsze n" by simp
    with zone_nlb_pos [of ?cmd] have lt: "?slba < nsze n" by linarith
    note idx = zone_idx_eq [OF geo lt] and q = zns_inv_queue [OF inv]
    note at = zone_at_eq [OF q idx(2)]
    have "zone_state n ?i \<noteq> NVME_ZONE_STATE_RESERVED"
      using inv idx(2) by (simp add: zns_inv_def states_inv_def)
    then obtain cs where cs: "zns_check_zone_write n (zone_array n ! ?i) ?slba ?nlb a = Some cs"
      using check_zone_write_total by (fastforce simp: zone_state_def)
    show thesis
    proof (cases "cs = OK")
      case False
      with True idx at cs show thesis by (intro early [of cs]) (auto simp: zns_do_write_def passes_def Let_def)
    next
      case csok: True
      have st: "zone_state n ?i = NVME_ZONE_STATE_EMPTY \<or> is_active (zone_state n ?i)"
        using check_zone_write_ok(1) cs csok by (auto simp: zone_state_def)
      obtain os n1 where 1: "zns_auto_open_zone n ?i = Some (os, n1)" "zns_inv n1" "same_cfg n n1"
        "zones_ok n \<Longrightarrow> zones_ok n1" "zone_array n1 ! ?i = zone_array n ! ?i"
        "\<And>j. w_ptr (zone_array n1 ! j) = w_ptr (zone_array n ! j) \<and> d_wp (zone_array n1 ! j) = d_wp (zone_array n ! j)"
        "os = OK \<Longrightarrow> zone_state n ?i = NVME_ZONE_STATE_EMPTY \<or> is_active (zone_state n ?i) \<Longrightarrow> has_room n1 (zone_state n ?i)"
        using auto_open_step [OF inv idx(2)] by blast
      show thesis
      proof (cases "os = OK")
        case False
        then have "zns_do_write ext n req a wrz = Some (dnr os, n1, req)"
          using True idx(3) at cs csok 1(1) by (simp add: zns_do_write_def Let_def)
        then show thesis by (rule reject) (use 1 False in \<open>simp_all add: dnr_def passes_def\<close>)
      next
        case osok: True
        have i1: "?i < num_zones n1" using idx(2) same_cfg_fields(1) [OF 1(3)] by simp
        have st1: "zone_state n1 ?i = zone_state n ?i" using 1(5) by (simp add: zone_state_def)
        have room: "has_room n1 (zone_state n1 ?i)" using 1(7) [OF osok st] st1 by simp
        obtain n2 where 2: "zns_advance_zone_wp n1 ?i ?nlb = Some (w_ptr (zone_array n1 ! ?i), n2)" "zns_inv n2"
          "same_cfg n1 n2" "zone_array n2 = (zone_array n1)[?i := advanced ?nlb (zone_array n1 ! ?i)]"
          using advance_step [OF 1(2) i1] room by blast
        have at1: "zone_at n1 ?i = Some (zone_array n ! ?i)"
          using zone_at_eq [OF zns_inv_queue [OF 1(2)] i1] 1(5) by simp
        have l2b: "zns_l2b n2 x = zns_l2b n x" for x
          using same_cfg_fields(8) [OF 1(3)] same_cfg_fields(8) [OF 2(3)] by (simp add: zns_l2b_def zns_ns_lbads_def)
        show thesis
        proof (rule go [OF refl idx(2) fit refl _ 1(2,3,4,5,6) 2(2,3)])
          show "zns_do_write ext n req a wrz =
            (let req' = req\<lparr>res_slba := w_ptr (zone_array n ! ?i)\<rparr>; sz = zns_l2b n ?nlb;
                 off = zns_l2b n (if a then w_ptr (zone_array n ! ?i) else ?slba);
                 st = (if wrz then OK else zns_map_dptr ext n2 sz req')
             in if st \<noteq> OK then Some (dnr st, n2, req')
                else do {
                  n3 \<leftarrow> zns_finalize_zoned_write (if wrz then n2 else backend_rw n2 off sz (is_write req)) ?slba ?nlb;
                  Some (OK, n3, req') })"
            using True idx(3) at cs csok 1(1,5) osok at1 2(1)
            by (simp add: zns_do_write_def Let_def l2b)
        qed (use cs csok 2(4) 1(5) in simp_all)
      qed
    qed
  qed
qed

lemma advanced_state:
  "zns_get_zone_state z = NVME_ZONE_STATE_EMPTY \<or> is_active (zns_get_zone_state z) \<Longrightarrow>
   zns_get_zone_state (advanced nlb z) = NVME_ZONE_STATE_EMPTY \<or> is_active (zns_get_zone_state (advanced nlb z))"
  by (auto simp: advanced_def Let_def is_active_def is_open_def)

lemma finalize_after_advance:
  assumes inv: "zns_inv n" "zns_geo n" and i: "i = slba div zone_size n" "slba < nsze n"
    and st: "zone_state n i = NVME_ZONE_STATE_EMPTY \<or> is_active (zone_state n i)"
  obtains n' where "zns_finalize_zoned_write (if wrz then n else backend_rw n off sz wr) slba nlb = Some n'"
    "zns_inv n'" "zns_geo n'" "zone_array n' = (zone_array n)[i := finalized nlb (zone_array n ! i)]"
    "backend_calls n' = backend_calls n @ (if wrz then [] else [Backend_rw off sz wr])" "same_layout n n'"
proof -
  let ?n = "if wrz then n else backend_rw n off sz wr"
  note idx = zone_idx_eq [OF inv(2) i(2)]
  have q: "zns_inv ?n" "zns_geo ?n" "i < num_zones ?n" "zns_get_zone_by_slba ?n slba = Some i"
    "zone_state ?n i = NVME_ZONE_STATE_EMPTY \<or> is_active (zone_state ?n i)"
    "length (zone_array ?n) = num_zones ?n"
    using inv idx i st by (simp_all add: zns_inv_queue queue_inv_length)
  obtain n' where n': "zns_finalize_zoned_write ?n slba nlb = Some n'" "zns_inv n'" "same_cfg ?n n'"
    "zone_array n' = (zone_array ?n)[i := finalized nlb (zone_array ?n ! i)]"
    using finalize_step [OF q(1,3,4,5)] by blast
  have "same_layout n ?n" by (simp add: same_layout_def backend_rw_def)
  then have "same_layout n n'" using same_cfg_layout [OF n'(3) q(6)] by (rule same_layout_trans)
  then show ?thesis
    by (intro that [OF n'(1,2)])
       (use n'(4) zns_geo_same_cfg [OF n'(3) q(2,6)] same_cfg_fields(10) [OF n'(3)] in \<open>simp_all split: if_splits\<close>)
qed

lemma do_write_safe:
  assumes inv: "zns_inv n" and geo: "zns_geo n" and slba: "rw_slba (r_cmd req) < 2 ^ 64"
  shows "\<exists>s n' req'. zns_do_write ext n req a wrz = Some (s, n', req') \<and> zns_inv n' \<and> zns_geo n'"
  using inv geo slba
proof (cases rule: do_write_cases [where ext = ext and a = a and wrz = wrz, consumes 3])
  case (reject s n')
  then show ?thesis using geo inv zns_geo_same_cfg [of n n'] by (auto simp: zns_inv_queue queue_inv_length)
next
  case (go i z n1 n2)
  have len: "length (zone_array n) = num_zones n" "length (zone_array n1) = num_zones n1"
    using inv go(6) by (simp_all add: zns_inv_queue queue_inv_length)
  have g2: "zns_geo n2" "zone_size n2 = zone_size n" "nsze n2 = nsze n"
    using zns_geo_same_cfg [OF go(12) zns_geo_same_cfg [OF go(7) geo len(1)] len(2)]
      same_cfg_fields(4,6) [OF go(7)] same_cfg_fields(4,6) [OF go(12)] by simp_all
  have i1: "i < length (zone_array n1)" using go(2) len(2) same_cfg_fields(1) [OF go(7)] by simp
  have st: "zone_state n2 i = NVME_ZONE_STATE_EMPTY \<or> is_active (zone_state n2 i)"
    using advanced_state [OF check_zone_write_ok(1) [OF go(5)]] go(13) i1 by (simp add: zone_state_def)
  have lt: "rw_slba (r_cmd req) < nsze n2" "i = rw_slba (r_cmd req) div zone_size n2"
    using go(1,3) zone_nlb_pos [of "r_cmd req"] g2 by simp_all
  obtain n3 where "zns_finalize_zoned_write (if wrz then n2 else backend_rw n2
      (zns_l2b n (if a then w_ptr z else rw_slba (r_cmd req))) (zns_l2b n (zone_nlb (r_cmd req))) (is_write req))
      (rw_slba (r_cmd req)) (zone_nlb (r_cmd req)) = Some n3" "zns_inv n3" "zns_geo n3"
    using finalize_after_advance [OF go(11) g2(1) lt(2,1) st] by blast
  with go(11,14) g2(1) show ?thesis
    by (cases "(if wrz then OK else zns_map_dptr ext n2 (zns_l2b n (zone_nlb (r_cmd req))) (req\<lparr>res_slba := w_ptr z\<rparr>)) = OK")
       (auto simp: Let_def)
qed

text \<open>What a successful write or append has done, provided that it fits the zone.\<close>

definition write_done :: "FemuCtrl \<Rightarrow> nat \<Rightarrow> nat \<Rightarrow> FemuCtrl \<Rightarrow> bool" where
  "write_done n i nlb n' \<longleftrightarrow>
     zns_inv n' \<and> zns_geo n' \<and> zones_ok n' \<and> same_layout n n' \<and>
     w_ptr (zone_array n' ! i) = w_ptr (zone_array n ! i) + nlb \<and>
     zone_state n' i =
       (if w_ptr (zone_array n ! i) + nlb = d_zslba (zone_array n ! i) + d_zcap (zone_array n ! i)
        then NVME_ZONE_STATE_FULL
        else if zone_state n i = NVME_ZONE_STATE_EXPLICITLY_OPEN then NVME_ZONE_STATE_EXPLICITLY_OPEN
        else NVME_ZONE_STATE_IMPLICITLY_OPEN) \<and>
     (\<forall>j < num_zones n. j \<noteq> i \<longrightarrow> w_ptr (zone_array n' ! j) = w_ptr (zone_array n ! j))"

lemma do_write_effect:
  assumes inv: "zns_inv n" and geo: "zns_geo n" and ok: "zones_ok n" and slba: "rw_slba (r_cmd req) < 2 ^ 64"
    and run: "zns_do_write ext n req a wrz = Some (OK, n', req')"
    and fits: "a \<Longrightarrow> w_ptr (zone_array n ! (rw_slba (r_cmd req) div zone_size n)) + zone_nlb (r_cmd req) \<le>
      zns_zone_wr_boundary (zone_array n ! (rw_slba (r_cmd req) div zone_size n))"
  defines "i \<equiv> rw_slba (r_cmd req) div zone_size n"
  shows "i < num_zones n" "write_done n i (zone_nlb (r_cmd req)) n'"
    "req' = req\<lparr>res_slba := w_ptr (zone_array n ! i)\<rparr>"
    "backend_calls n' = backend_calls n @ (if wrz then [] else
       [Backend_rw (zns_l2b n (w_ptr (zone_array n ! i))) (zns_l2b n (zone_nlb (r_cmd req))) (is_write req)])"
    "\<not> a \<Longrightarrow> rw_slba (r_cmd req) = w_ptr (zone_array n ! i)"
    "w_ptr (zone_array n ! i) + zone_nlb (r_cmd req) \<le> d_zslba (zone_array n ! i) + d_zcap (zone_array n ! i)"
proof -
  obtain z n1 n2 where go: "i < num_zones n" "rw_slba (r_cmd req) + zone_nlb (r_cmd req) \<le> nsze n"
      "z = zone_array n ! i" "zns_check_zone_write n z (rw_slba (r_cmd req)) (zone_nlb (r_cmd req)) a = Some OK"
      "zns_inv n1" "same_cfg n n1" "zones_ok n1" "zone_array n1 ! i = z"
      "\<And>j. w_ptr (zone_array n1 ! j) = w_ptr (zone_array n ! j) \<and> d_wp (zone_array n1 ! j) = d_wp (zone_array n ! j)"
      "zns_inv n2" "same_cfg n1 n2" "zone_array n2 = (zone_array n1)[i := advanced (zone_nlb (r_cmd req)) z]"
      "zns_do_write ext n req a wrz =
        (let req' = req\<lparr>res_slba := w_ptr z\<rparr>; sz = zns_l2b n (zone_nlb (r_cmd req));
             off = zns_l2b n (if a then w_ptr z else rw_slba (r_cmd req));
             st = (if wrz then OK else zns_map_dptr ext n2 sz req')
         in if st \<noteq> OK then Some (dnr st, n2, req')
            else do {
              n3 \<leftarrow> zns_finalize_zoned_write (if wrz then n2 else backend_rw n2 off sz (is_write req))
                     (rw_slba (r_cmd req)) (zone_nlb (r_cmd req));
              Some (OK, n3, req') })"
    using inv geo slba run ok unfolding i_def
    by (cases rule: do_write_cases [where ext = ext and a = a and wrz = wrz, consumes 3]) auto
  show "i < num_zones n" by (rule go(1))
  let ?nlb = "zone_nlb (r_cmd req)"
  have len: "length (zone_array n) = num_zones n" "length (zone_array n1) = num_zones n1" "length (zone_array n2) = num_zones n2"
    using inv go(5,10) by (simp_all add: zns_inv_queue queue_inv_length)
  have g1: "zns_geo n1" by (rule zns_geo_same_cfg [OF go(6) geo len(1)])
  have g2: "zns_geo n2" "zone_size n2 = zone_size n" "nsze n2 = nsze n" "num_zones n2 = num_zones n"
      "backend_calls n2 = backend_calls n"
    using zns_geo_same_cfg [OF go(11) g1 len(2)]
      same_cfg_fields(1,4,6,10) [OF go(6)] same_cfg_fields(1,4,6,10) [OF go(11)] by simp_all
  have i1: "i < length (zone_array n1)" using go(1) len(2) same_cfg_fields(1) [OF go(6)] by simp
  have st0: "zns_get_zone_state z = NVME_ZONE_STATE_EMPTY \<or> is_active (zns_get_zone_state z)"
    by (rule check_zone_write_ok(1) [OF go(4)])
  have zi: "zone_array n2 ! i = advanced ?nlb z" using go(12) i1 by simp
  have st: "zone_state n2 i = NVME_ZONE_STATE_EMPTY \<or> is_active (zone_state n2 i)"
    using advanced_state [OF st0] zi by (simp add: zone_state_def)
  have lt: "rw_slba (r_cmd req) < nsze n2" "i = rw_slba (r_cmd req) div zone_size n2"
    using go(2) zone_nlb_pos [of "r_cmd req"] g2 by (simp_all add: i_def)
  let ?off = "zns_l2b n (if a then w_ptr z else rw_slba (r_cmd req))"
  obtain n3 where 3: "zns_finalize_zoned_write (if wrz then n2 else backend_rw n2 ?off (zns_l2b n ?nlb) (is_write req))
      (rw_slba (r_cmd req)) ?nlb = Some n3" "zns_inv n3" "zns_geo n3"
      "zone_array n3 = (zone_array n2)[i := finalized ?nlb (zone_array n2 ! i)]"
      "backend_calls n3 = backend_calls n2 @ (if wrz then [] else [Backend_rw ?off (zns_l2b n ?nlb) (is_write req)])"
      "same_layout n2 n3"
    by (rule finalize_after_advance [OF go(10) g2(1) lt(2,1) st])
  from run go(13) 3(1) have n': "n' = n3" and req': "req' = req\<lparr>res_slba := w_ptr z\<rparr>"
    by (auto simp: Let_def split: if_splits)
  show "req' = req\<lparr>res_slba := w_ptr (zone_array n ! i)\<rparr>" using req' go(3) by simp
  show at: "rw_slba (r_cmd req) = w_ptr (zone_array n ! i)" if "\<not> a"
    using check_zone_write_ok(4) [OF go(4) that] go(3) by simp
  have zok: "zone_ok z" using ok go(1,3) len(1) by (simp add: zones_ok_nth)
  have fit: "w_ptr z + ?nlb \<le> zns_zone_wr_boundary z"
  proof (cases a)
    case True
    then show ?thesis using fits go(3) by (simp add: i_def)
  next
    case False
    have "nsze n < 2 ^ 64" using geo by (simp add: zns_geo_def algebra_simps)
    with go(2) have "u64 (rw_slba (r_cmd req) + ?nlb) = rw_slba (r_cmd req) + ?nlb" by (simp add: u64_id)
    with check_zone_write_ok(2) [OF go(4)] at [OF False] go(3) show ?thesis by simp
  qed
  show "w_ptr (zone_array n ! i) + ?nlb \<le> d_zslba (zone_array n ! i) + d_zcap (zone_array n ! i)"
    using fit go(3) zone_ok_boundary [OF zok] by simp
  have "?off = zns_l2b n (w_ptr (zone_array n ! i))" using at go(3) by auto
  then show "backend_calls n' = backend_calls n @ (if wrz then [] else
       [Backend_rw (zns_l2b n (w_ptr (zone_array n ! i))) (zns_l2b n ?nlb) (is_write req)])"
    using 3(5) g2(5) n' by simp
  note fa = finalized_advanced [OF zok st0 fit zone_nlb_pos]
  have arr: "zone_array n3 = (zone_array n1)[i := finalized ?nlb (advanced ?nlb z)]"
    using 3(4) go(12) zi by simp
  have "zones_ok n3" by (rule zones_ok_update [OF go(7) arr fa(1)])
  moreover have "zone_state n3 i = zns_get_zone_state (finalized ?nlb (advanced ?nlb z))"
    using arr i1 by (simp add: zone_state_def)
  moreover have "same_layout n n3"
    using same_cfg_layout [OF go(6) len(1)] same_cfg_layout [OF go(11) len(2)] 3(6) same_layout_trans by blast
  ultimately show "write_done n i ?nlb n'"
    using 3(2,3) arr i1 fa(2,3) go(3,9) zone_ok_boundary [OF zok] st0
    by (auto simp: write_done_def n' zone_state_def is_open_def is_active_def)
qed

text \<open>What a write or append does to the write pointers and the backend, whatever the mapping of its data
  pointer answers: nothing when it is refused before the pointer moves; otherwise the pointer of its zone
  moves, and the backend is called exactly when the command succeeds.\<close>

definition moved :: "FemuCtrl \<Rightarrow> nat \<Rightarrow> nat \<Rightarrow> FemuCtrl \<Rightarrow> bool" where
  "moved n i nlb n' \<longleftrightarrow> i < num_zones n \<and> w_ptr (zone_array n' ! i) = u64 (w_ptr (zone_array n ! i) + nlb) \<and>
     (\<forall>j. j \<noteq> i \<longrightarrow> w_ptr (zone_array n' ! j) = w_ptr (zone_array n ! j))"

lemma advanced_w_ptr [simp]: "w_ptr (advanced nlb z) = u64 (w_ptr z + nlb)" "d_wp (advanced nlb z) = d_wp z"
  by (simp_all add: advanced_def Let_def enter_state_def)

lemma finalized_w_ptr [simp]: "w_ptr (finalized nlb z) = w_ptr z"
  by (simp add: finalized_def Let_def enter_state_def)

lemma do_write_moves:
  assumes inv: "zns_inv n" and geo: "zns_geo n" and slba: "rw_slba (r_cmd req) < 2 ^ 64"
    and run: "zns_do_write ext n req a False = Some (s, n', r)"
  defines "i \<equiv> rw_slba (r_cmd req) div zone_size n" and "nlb \<equiv> zone_nlb (r_cmd req)"
  obtains (refused) "s \<noteq> OK" "\<not> passes ext n req a" "same_layout n n'" "\<And>j. w_ptr (zone_array n' ! j) = w_ptr (zone_array n ! j)" "backend_calls n' = backend_calls n"
  | (moved) m where "s = (if map_status ext n m req = OK then OK else dnr (map_status ext n m req))" "zns_check_zone_write n (zone_array n ! i) (rw_slba (r_cmd req)) nlb a = Some OK" "rw_slba (r_cmd req) + nlb \<le> nsze n"
      "same_layout n n'" "moved n i nlb n'" "res_slba r = w_ptr (zone_array n ! i)"
      "backend_calls n' = backend_calls n @ (if s = OK
         then [Backend_rw (zns_l2b n (if a then w_ptr (zone_array n ! i) else rw_slba (r_cmd req))) (zns_l2b n nlb) (is_write req)] else [])"
      "s \<noteq> OK \<Longrightarrow> d_wp (zone_array n' ! i) = d_wp (zone_array n ! i)"
      "s \<noteq> OK \<Longrightarrow> zone_state n' i = zns_get_zone_state (advanced nlb (zone_array n ! i))"
  using inv geo slba
proof (cases rule: do_write_cases [where ext = ext and a = a and wrz = False, consumes 3])
  case (reject s' m)
  have "length (zone_array n) = num_zones n" using inv by (simp add: zns_inv_queue queue_inv_length)
  then show thesis using reject run same_cfg_layout [OF reject(4)] same_cfg_fields(10) [OF reject(4)] by (intro refused) auto
next
  case (go k z n1 n2)
  have k: "k = i" using go(1) by (simp add: i_def)
  have len: "length (zone_array n) = num_zones n" "length (zone_array n1) = num_zones n1"
    using inv go(6) by (simp_all add: zns_inv_queue queue_inv_length)
  have g2: "zns_geo n2" "zone_size n2 = zone_size n" "nsze n2 = nsze n" "backend_calls n2 = backend_calls n"
    using zns_geo_same_cfg [OF go(12) zns_geo_same_cfg [OF go(7) geo len(1)] len(2)]
      same_cfg_fields(4,6,10) [OF go(7)] same_cfg_fields(4,6,10) [OF go(12)] by simp_all
  have lay: "same_layout n n2" using same_cfg_layout [OF go(7) len(1)] same_cfg_layout [OF go(12) len(2)] same_layout_trans by blast
  have i1: "i < length (zone_array n1)" using go(2) len(2) same_cfg_fields(1) [OF go(7)] k by simp
  have z2: "zone_array n2 ! i = advanced nlb (zone_array n ! i)" using go(4,13) i1 k by (simp add: nlb_def)
  have mv: "moved n i nlb n2" using go(2,4,9,10,13) k z2 by (simp add: moved_def nlb_def)
  have st: "zone_state n2 i = NVME_ZONE_STATE_EMPTY \<or> is_active (zone_state n2 i)"
    using advanced_state [OF check_zone_write_ok(1) [OF go(5)]] z2 go(4) k by (simp add: zone_state_def nlb_def)
  have lt: "rw_slba (r_cmd req) < nsze n2" "i = rw_slba (r_cmd req) div zone_size n2"
    using go(3) zone_nlb_pos [of "r_cmd req"] g2 by (simp_all add: i_def)
  let ?off = "zns_l2b n (if a then w_ptr z else rw_slba (r_cmd req))" and ?sz = "zns_l2b n (zone_nlb (r_cmd req))"
  obtain n3 where 3: "zns_finalize_zoned_write (backend_rw n2 ?off ?sz (is_write req)) (rw_slba (r_cmd req)) (zone_nlb (r_cmd req)) = Some n3"
      "zone_array n3 = (zone_array n2)[i := finalized nlb (zone_array n2 ! i)]"
      "backend_calls n3 = backend_calls n2 @ [Backend_rw ?off ?sz (is_write req)]" "same_layout n2 n3"
    using finalize_after_advance [OF go(11) g2(1) lt(2,1) st, of False ?off ?sz "is_write req" nlb] by (auto simp: nlb_def)
  have mv3: "moved n i nlb n3" using mv 3(2) i1 go(13) by (auto simp: moved_def nth_list_update)
  have ms: "zns_map_dptr ext n2 ?sz (req\<lparr>res_slba := w_ptr z\<rparr>) = map_status ext n n2 req" by (simp add: map_status_def zns_map_dptr_def)
  show thesis
  proof (cases "map_status ext n n2 req = OK")
    case True
    then have "s = OK" "n' = n3" "r = req\<lparr>res_slba := w_ptr z\<rparr>" using run go(14) 3(1) ms by (simp_all add: Let_def)
    then show thesis using True go(3,4,5) k 3(3,4) lay same_layout_trans mv3 g2(4) by (intro moved [of n2]) (auto simp: nlb_def)
  next
    case False
    then have "s = dnr (map_status ext n n2 req)" "n' = n2" "r = req\<lparr>res_slba := w_ptr z\<rparr>" using run go(14) ms by (auto simp: Let_def)
    then show thesis using False go(3,4,5) k lay mv g2(4) z2 by (intro moved [of n2]) (auto simp: nlb_def zone_state_def)
  qed
qed

section \<open>Reads\<close>

lemma read_safe:
  assumes inv: "zns_inv n" and geo: "zns_geo n" and slba: "rw_slba (r_cmd req) < 2 ^ 64"
  shows "\<exists>s n' req'. zns_read ext n req = Some (s, n', req') \<and> zns_inv n' \<and> zns_geo n' \<and> zone_array n' = zone_array n"
proof (cases "zns_check_bounds n (rw_slba (r_cmd req)) (zone_nlb (r_cmd req)) = OK")
  case True
  obtain s where "zns_check_zone_read n (rw_slba (r_cmd req)) (zone_nlb (r_cmd req)) = Some s"
    using check_zone_read_total [OF inv geo check_bounds_ok [OF geo slba True] zone_nlb_pos] by blast
  with True inv geo show ?thesis
    by (auto simp: zns_read_def Let_def zns_geo_def [of n] assert_c_def zns_check_dulbe_def)
next
  case False
  with inv geo show ?thesis by (auto simp: zns_read_def Let_def zns_geo_def [of n] assert_c_def)
qed

section \<open>Zone management\<close>

lemma mgmt_idx_total:
  assumes "zns_geo n"
  obtains s slba i where "zns_get_mgmt_zone_slba_idx n c = Some (s, slba, i)" "i < num_zones n"
    "s = OK \<Longrightarrow> slba < nsze n \<and> i = slba div zone_size n"
proof (cases "u32 (cdw11 c) * 2 ^ 32 + u32 (cdw10 c) < nsze n")
  case True
  show ?thesis
    by (rule that [OF _ zone_idx_eq(2) [OF assms True]])
       (use assms True zone_idx_eq [OF assms True] in \<open>auto simp: zns_get_mgmt_zone_slba_idx_def Let_def zns_geo_def assert_c_def\<close>)
next
  case False
  show ?thesis
    by (rule that [of "dnr (NVME_LBA_RANGE, False)" 0 0])
       (use assms False in \<open>auto simp: zns_get_mgmt_zone_slba_idx_def Let_def zns_geo_def\<close>)
qed

definition op_safe :: "FemuCtrl \<Rightarrow> FemuCtrl \<Rightarrow> bool" where
  "op_safe n n' \<longleftrightarrow> zns_inv n' \<and> zns_geo n' \<and> (zones_ok n \<longrightarrow> zones_ok n')"

lemma op_safeI:
  assumes "zns_inv n" "zns_geo n" "zns_inv n'" "same_cfg n n'" "zones_ok n \<longrightarrow> zones_ok n'"
  shows "op_safe n n'"
  using assms zns_geo_same_cfg [of n n'] by (auto simp: op_safe_def zns_inv_queue queue_inv_length)

lemma bind_status:
  "\<exists>s n'. A = Some (s, n') \<and> P n' \<Longrightarrow> \<exists>s n'. (A \<bind> (\<lambda>(s, n). Some (f s, n))) = Some (s, n') \<and> P n'"
  by auto

lemma zone_action_safe:
  assumes inv: "zns_inv n" and geo: "zns_geo n" and i: "i < num_zones n" and all0: "all_zones \<Longrightarrow> i = 0"
  shows "\<exists>s n'. zns_zone_action ext n cmd action all_zones i = Some (s, n') \<and> op_safe n n'"
proof -
  have ro: "m AND NVME_PROC_READ_ONLY_ZONES = 0 \<or> i = 0"
    if "m = (if all_zones then k else NVME_PROC_CURRENT_ZONE)" for m k
    using that all0 by (auto simp: NVME_PROC_CURRENT_ZONE_def)
  have op: "\<exists>s n'. zns_do_zone_op n i (if all_zones then k else NVME_PROC_CURRENT_ZONE) h = Some (s, n') \<and> op_safe n n'"
    if "zone_op_handler h" for h k
    using zone_op_handler.do_zone_op_total [OF that inv i ro [OF refl]] op_safeI [OF inv geo] by blast
  note ops = op [OF open_op.zone_op_handler_axioms] op [OF close_op.zone_op_handler_axioms]
    op [OF finish_op.zone_op_handler_axioms] op [OF reset_op.zone_op_handler_axioms]
    op [OF offline_op.zone_op_handler_axioms]
  have ext: "\<exists>s n'. zns_set_zd_ext (store_zd_ext n i bs) i = Some (s, n') \<and> op_safe n n'" for bs
  proof -
    obtain s n' where 1: "zns_set_zd_ext (store_zd_ext n i bs) i = Some (s, n')" "zone_step (store_zd_ext n i bs) i n'"
      using set_zd_ext_step [of "store_zd_ext n i bs" i] inv i by auto
    note d = zone_stepD [OF 1(2)]
    have "op_safe (store_zd_ext n i bs) n'" by (rule op_safeI) (use inv geo d in auto)
    with 1(1) show ?thesis by (simp add: op_safe_def)
  qed
  have self: "\<exists>s' n'. Some (s, m) = Some (s', n') \<and> op_safe n n'" if "op_safe n m" for s m
    using that by simp
  have refl: "op_safe n n" "op_safe n (store_zd_ext n i bs)" for bs
    using inv geo by (simp_all add: op_safe_def)
  have set_ext: "\<exists>s' n'. (case w of (s, bs) \<Rightarrow> if s \<noteq> OK then Some (s, store_zd_ext n i bs)
      else do { (s, n) \<leftarrow> zns_set_zd_ext (store_zd_ext n i bs) i; Some (with_dnr s, n) }) = Some (s', n') \<and> op_safe n n'" for w
    using ext [of "snd w"] refl(2) [of "snd w"] by (cases w) auto
  show ?thesis
    unfolding zns_zone_action_def Let_def
    by (intro if_split [where P = "\<lambda>x. \<exists>s n'. x = Some (s, n') \<and> op_safe n n'", THEN iffD2] conjI impI
          bind_status ops set_ext self refl)
qed

lemma mgmt_send_safe:
  assumes inv: "zns_inv n" and geo: "zns_geo n"
  shows "\<exists>s n' req'. zns_zone_mgmt_send ext n req = Some (s, n', req') \<and> op_safe n n'"
proof -
  have refl: "op_safe n n" using inv geo by (simp add: op_safe_def)
  let ?all = "u32 (cdw13 (r_cmd req)) AND 0x100 \<noteq> 0"
  obtain s slba i where idx: "(if ?all then Some (OK, 0, 0) else zns_get_mgmt_zone_slba_idx n (r_cmd req)) = Some (s, slba, i)"
    "i < num_zones n" "?all \<Longrightarrow> i = 0"
  proof (cases ?all)
    case True
    then show ?thesis using that [of OK 0 0] geo by (simp add: zns_geo_def)
  next
    case False
    obtain s slba i where "zns_get_mgmt_zone_slba_idx n (r_cmd req) = Some (s, slba, i)" "i < num_zones n"
      by (rule mgmt_idx_total [OF geo])
    with False show ?thesis by (intro that [of s slba i]) simp_all
  qed
  have at: "zone_at n i = Some (zone_array n ! i)" by (rule zone_at_eq [OF zns_inv_queue [OF inv] idx(2)])
  obtain s' n' where "zns_zone_action ext n (r_cmd req) (u32 (cdw13 (r_cmd req)) AND 0xff) ?all i = Some (s', n')" "op_safe n n'"
    using zone_action_safe [OF inv geo idx(2) idx(3)] by blast
  with idx at refl show ?thesis
    by (cases s) (auto simp: zns_zone_mgmt_send_def Let_def)
qed

section \<open>Zone reports\<close>

text \<open>The zones a report describes: those from index \<open>i\<close> on that match the filter.\<close>

definition matching :: "FemuCtrl \<Rightarrow> nat \<Rightarrow> nat \<Rightarrow> nat list" where
  "matching n zrasf i = filter (\<lambda>j. zns_zone_matches_filter zrasf (zone_array n ! j)) [i ..< num_zones n]"

definition entry_bytes :: "FemuCtrl \<Rightarrow> nat \<Rightarrow> nat \<Rightarrow> nat list" where
  "entry_bytes n zra j = descr_bytes (zone_array n ! j) @
     (if zra = NVME_ZONE_REPORT_EXTENDED then
        (if d_za (zone_array n ! j) AND NVME_ZA_ZD_EXT_VALID \<noteq> 0 then zns_get_zd_extension n j
         else replicate (zd_extension_size n) 0)
      else [])"

lemma length_descr_bytes [simp]: "length (descr_bytes z) = 64"
  by (simp add: descr_bytes_def le_bytes_def)

lemma length_header_bytes [simp]: "length (header_bytes k) = 64"
  by (simp add: header_bytes_def le_bytes_def)

lemma length_entry_bytes:
  "length (entry_bytes n zra j) \<le> 64 + (if zra = NVME_ZONE_REPORT_EXTENDED then zd_extension_size n else 0)"
  by (simp add: entry_bytes_def zns_get_zd_extension_def)

lemma matching_step:
  assumes "i < num_zones n"
  shows "matching n zrasf i = (if zns_zone_matches_filter zrasf (zone_array n ! i) then [i] else []) @ matching n zrasf (Suc i)"
  using assms by (simp add: matching_def upt_conv_Cons)

lemma matching_end: "num_zones n \<le> i \<Longrightarrow> matching n zrasf i = []"
  by (simp add: matching_def)

text \<open>The counting loop returns, and counts the matching zones, up to the room in the buffer when
  a partial report is asked for.\<close>

lemma report_count_eq:
  assumes inv: "zns_inv n" and geo: "zns_geo n"
    and slba: "i * zone_size n \<le> slba" "slba < (i + 1) * zone_size n" and i: "i \<le> num_zones n"
  shows "zns_report_count n part maxz zrasf slba i nr =
    Some (if part then max nr (min maxz (nr + length (matching n zrasf i))) else nr + length (matching n zrasf i))"
  using slba i
proof (induction "num_zones n - i" arbitrary: i slba nr)
  case 0
  then have i: "i = num_zones n" by simp
  with 0 geo have "\<not> slba < zns_ns_nlbas n" by (simp add: zns_geo_def)
  then show ?case by (simp add: zns_report_count.simps [of n] matching_end i max_def)
next
  case (Suc k)
  then have i: "i < num_zones n" by simp
  have bound: "(i + 1) * zone_size n \<le> num_zones n * zone_size n"
    using i by (intro mult_right_mono) simp_all
  have lt: "slba < zns_ns_nlbas n" using Suc.prems(2) bound geo by (simp add: zns_geo_def)
  have u: "u64 (slba + zone_size n) = slba + zone_size n"
    using lt geo by (intro u64_id) (simp add: zns_geo_def algebra_simps)
  have at: "zone_at n i = Some (zone_array n ! i)" by (rule zone_at_eq [OF zns_inv_queue [OF inv] i])
  have IH: "zns_report_count n part maxz zrasf (slba + zone_size n) (Suc i) nr =
      Some (if part then max nr (min maxz (nr + length (matching n zrasf (Suc i)))) else nr + length (matching n zrasf (Suc i)))" for nr
    using Suc.hyps(1) [of "Suc i" "slba + zone_size n" nr] Suc.hyps(2) Suc.prems by simp
  show ?case
    using lt at u by (subst zns_report_count.simps) (auto simp: IH matching_step [OF i])
qed

text \<open>The filling loop writes the entries of the first matching zones that fit.\<close>

lemma report_entries_eq:
  assumes "zns_inv n" and "\<forall>j \<in> set js. j < num_zones n"
  shows "zns_report_entries n zra zrasf maxz js =
    Some (concat (map (entry_bytes n zra)
      (take maxz (filter (\<lambda>j. zns_zone_matches_filter zrasf (zone_array n ! j)) js))))"
  using assms(2)
proof (induction js arbitrary: maxz)
  case Nil
  then show ?case by simp
next
  case (Cons j js)
  then have "zone_at n j = Some (zone_array n ! j)"
    using zone_at_eq [OF zns_inv_queue [OF assms(1)]] by simp
  with Cons show ?case
    by (cases maxz) (auto simp: entry_bytes_def Let_def)
qed

lemma length_entries_le:
  "length (concat (map (entry_bytes n zra) (take k js))) \<le>
     k * (64 + (if zra = NVME_ZONE_REPORT_EXTENDED then zd_extension_size n else 0))"
proof (induction js arbitrary: k)
  case Nil
  then show ?case by simp
next
  case (Cons j js)
  show ?case
  proof (cases k)
    case (Suc m)
    then show ?thesis using Cons.IH [of m] length_entry_bytes [of n zra j] by simp
  qed simp
qed

definition report_buffer :: "FemuCtrl \<Rightarrow> nat \<Rightarrow> nat \<Rightarrow> bool \<Rightarrow> nat \<Rightarrow> nat \<Rightarrow> nat list" where
  "report_buffer n zra zrasf part data_size i =
     (let maxz = (data_size - 64) div (64 + (if zra = NVME_ZONE_REPORT_EXTENDED then zd_extension_size n else 0));
          js = matching n zrasf i;
          entries = concat (map (entry_bytes n zra) (take maxz js))
      in header_bytes (if part then min maxz (length js) else length js) @ entries @
         replicate (data_size - 64 - length entries) 0)"

lemma report_entries_fit:
  "length (concat (map (entry_bytes n zra) (take ((sz - 64) div (64 +
     (if zra = NVME_ZONE_REPORT_EXTENDED then zd_extension_size n else 0))) js))) \<le> sz - 64"
  by (rule order.trans [OF length_entries_le]) (metis div_times_less_eq_dividend)

lemma length_report_buffer: "64 \<le> sz \<Longrightarrow> length (report_buffer n zra zrasf part sz i) = sz"
  using report_entries_fit [of n zra sz "matching n zrasf i"] by (simp add: report_buffer_def Let_def)

definition report_size :: "NvmeCmd \<Rightarrow> nat" where
  "report_size cmd = u32 (u32 (u32 (cdw12 cmd) + 1) * 2 ^ 2)"

definition report_valid :: "nvme_ext \<Rightarrow> FemuCtrl \<Rightarrow> NvmeCmd \<Rightarrow> bool" where
  "report_valid ext n cmd \<longleftrightarrow>
     (let zra = u32 (cdw13 cmd) AND 0xff
      in (zra = NVME_ZONE_REPORT \<or> zra = NVME_ZONE_REPORT_EXTENDED \<and> zd_extension_size n \<noteq> 0) \<and>
         drop_bit 8 (u32 (cdw13 cmd)) AND 0xff \<le> (NVME_ZONE_REPORT_OFFLINE :: nat) \<and>
         64 \<le> report_size cmd \<and> nvme_check_mdts ext n (report_size cmd) = OK)"

lemma mgmt_recv_report:
  assumes inv: "zns_inv n" and geo: "zns_geo n" and valid: "report_valid ext n (r_cmd req)"
    and lt: "u32 (cdw11 (r_cmd req)) * 2 ^ 32 + u32 (cdw10 (r_cmd req)) < nsze n"
  shows "zns_zone_mgmt_recv ext n req =
    Some (dma_read_prp ext n (report_buffer n (u32 (cdw13 (r_cmd req)) AND 0xff)
        (drop_bit 8 (u32 (cdw13 (r_cmd req))) AND 0xff) (drop_bit 16 (u32 (cdw13 (r_cmd req))) AND 0x01 \<noteq> 0)
        (report_size (r_cmd req)) ((u32 (cdw11 (r_cmd req)) * 2 ^ 32 + u32 (cdw10 (r_cmd req))) div zone_size n))
      (prp1 (r_cmd req)) (prp2 (r_cmd req)), req\<lparr>r_status := OK\<rparr>)"
proof -
  define cmd where "cmd = r_cmd req"
  define slba where "slba = u32 (cdw11 cmd) * 2 ^ 32 + u32 (cdw10 cmd)"
  define sz where "sz = report_size cmd"
  define zra where "zra = u32 (cdw13 cmd) AND 0xff"
  define zrasf where "zrasf = drop_bit 8 (u32 (cdw13 cmd)) AND 0xff"
  define part where "part \<longleftrightarrow> drop_bit 16 (u32 (cdw13 cmd)) AND 0x01 \<noteq> 0"
  note defs = cmd_def slba_def sz_def zra_def zrasf_def part_def
  define i where "i = slba div zone_size n"
  define maxz where "maxz = (sz - 64) div (64 + (if zra = NVME_ZONE_REPORT_EXTENDED then zd_extension_size n else 0))"
  define js where "js = matching n zrasf i"
  have lt': "slba < nsze n" using lt by (simp add: defs)
  have v: "zra = NVME_ZONE_REPORT \<or> zra = NVME_ZONE_REPORT_EXTENDED \<and> zd_extension_size n \<noteq> 0"
    "\<not> NVME_ZONE_REPORT_OFFLINE < zrasf" "\<not> sz < 64" "nvme_check_mdts ext n sz = OK"
    using valid by (auto simp: defs report_valid_def Let_def not_less)
  note idx = zone_idx_eq [OF geo lt', folded i_def]
  have zs: "0 < zone_size n" using geo by (simp add: zns_geo_def)
  have mgmt: "zns_get_mgmt_zone_slba_idx n cmd = Some (OK, slba, i)"
    using idx lt' geo by (simp add: zns_get_mgmt_zone_slba_idx_def Let_def zns_geo_def assert_c_def slba_def)
  have pos: "i * zone_size n \<le> slba" "slba < (i + 1) * zone_size n"
    using zs dividend_less_div_times [OF zs, of slba] by (simp_all add: i_def algebra_simps)
  have cnt: "zns_report_count n part maxz zrasf slba i 0 = Some (if part then min maxz (length js) else length js)"
    using report_count_eq [OF inv geo pos, of part maxz zrasf 0] idx(2) by (simp add: js_def)
  have ent: "zns_report_entries n zra zrasf maxz [i ..< num_zones n] = Some (concat (map (entry_bytes n zra) (take maxz js)))"
    using report_entries_eq [OF inv, of "[i ..< num_zones n]"] by (simp add: matching_def js_def)
  have fit: "64 + length (concat (map (entry_bytes n zra) (take maxz js))) \<le> sz"
    using report_entries_fit [of n zra sz js] v(3) unfolding maxz_def by linarith
  have bad: "\<not> (zra \<noteq> NVME_ZONE_REPORT \<and> zra \<noteq> NVME_ZONE_REPORT_EXTENDED)"
    "\<not> (zra = NVME_ZONE_REPORT_EXTENDED \<and> zd_extension_size n = 0)" using v(1) by auto
  have "zns_zone_mgmt_recv ext n req =
      Some (dma_read_prp ext n (report_buffer n zra zrasf part sz i) (prp1 cmd) (prp2 cmd), req\<lparr>r_status := OK\<rparr>)"
    unfolding zns_zone_mgmt_recv_def Let_def report_buffer_def report_size_def [symmetric] defs(1) [symmetric]
      defs(3-6) [symmetric] mgmt bind.bind_lunit prod.case maxz_def [symmetric] js_def [symmetric] cnt ent
      if_not_P [OF bad(1)] if_not_P [OF bad(2)] if_not_P [OF v(2)] if_not_P [OF v(3)] v(4) assert_c_def
    using fit by simp
  then show ?thesis by (simp only: i_def defs)
qed

lemma mgmt_recv_total:
  assumes inv: "zns_inv n" and geo: "zns_geo n"
  shows "\<exists>s req'. zns_zone_mgmt_recv ext n req = Some (s, req')"
proof (cases "report_valid ext n (r_cmd req) \<and>
    u32 (cdw11 (r_cmd req)) * 2 ^ 32 + u32 (cdw10 (r_cmd req)) < nsze n")
  case True
  then show ?thesis using mgmt_recv_report [OF inv geo] by blast
next
  case False
  obtain s slba i where "zns_get_mgmt_zone_slba_idx n (r_cmd req) = Some (s, slba, i)"
    by (rule mgmt_idx_total [OF geo])
  with False show ?thesis
    by (auto simp: zns_zone_mgmt_recv_def report_valid_def report_size_def Let_def not_le
        zns_get_mgmt_zone_slba_idx_def split: if_splits)
qed

section \<open>The dispatcher\<close>

lemma io_cmd_safe:
  assumes inv: "zns_inv n" and geo: "zns_geo n" and slba: "rw_slba (r_cmd req) < 2 ^ 64"
  shows "\<exists>s n' req'. zns_io_cmd ext n (r_cmd req) req = Some (s, n', req') \<and> zns_inv n' \<and> zns_geo n'"
proof (cases "opcode (r_cmd req)")
  case NVME_CMD_READ
  then show ?thesis using read_safe [OF assms] by (fastforce simp: zns_io_cmd_def)
next
  case NVME_CMD_WRITE
  have "zoned n" using geo by (simp add: zns_geo_def)
  with NVME_CMD_WRITE do_write_safe [OF inv geo, of "req\<lparr>is_write := True\<rparr>" ext False False] slba
  show ?thesis by (simp add: zns_io_cmd_def write_eq_do_write)
next
  case NVME_CMD_ZONE_MGMT_SEND
  then show ?thesis using mgmt_send_safe [OF inv geo] by (fastforce simp: zns_io_cmd_def op_safe_def)
next
  case NVME_CMD_ZONE_MGMT_RECV
  then show ?thesis using mgmt_recv_total [OF inv geo, of ext req] inv geo by (auto simp: zns_io_cmd_def)
next
  case NVME_CMD_ZONE_APPEND
  then show ?thesis using do_write_safe [OF assms] by (fastforce simp: zns_io_cmd_def zns_zone_append_def)
next
  case (NVME_CMD_OTHER x)
  then show ?thesis using inv geo by (auto simp: zns_io_cmd_def)
qed

section \<open>The initial state\<close>

text \<open>What the controller relies on of QEMU's bit operations.\<close>

definition host_utils_ok :: "host_utils \<Rightarrow> bool" where
  "host_utils_ok hu \<longleftrightarrow>
     (\<forall>x. is_power_of_2 hu x \<longleftrightarrow> (\<exists>k. x = 2 ^ k)) \<and>
     (\<forall>x. 0 < x \<and> x < 2 ^ 64 \<longrightarrow> clz64 hu x \<le> 63 \<and> 2 ^ (63 - clz64 hu x) \<le> x \<and> x < 2 ^ (64 - clz64 hu x))"

lemma clz64_power:
  assumes "host_utils_ok hu" and "k < 64"
  shows "63 - clz64 hu (2 ^ k) = k"
proof -
  let ?c = "clz64 hu (2 ^ k)"
  have "(2 :: nat) ^ k < 2 ^ 64" using assms(2) by (rule power_strict_increasing) simp
  moreover have "0 < (2 :: nat) ^ k" by simp
  ultimately have c: "?c \<le> 63" "(2 :: nat) ^ (63 - ?c) \<le> 2 ^ k" "(2 :: nat) ^ k < 2 ^ (64 - ?c)"
    using assms(1) unfolding host_utils_ok_def by blast+
  have "63 - ?c \<le> k" by (rule power_le_imp_le_exp [OF _ c(2)]) simp
  moreover have "k < 64 - ?c" by (rule power_less_imp_less_exp [OF _ c(3)]) simp
  ultimately show ?thesis using c(1) by linarith
qed

definition fresh_zone :: "nat \<Rightarrow> nat \<Rightarrow> NvmeZone" where
  "fresh_zone zcap start =
     zns_set_zone_state \<lparr>d_zt = NVME_ZONE_TYPE_SEQ_WRITE, d_zs = 0, d_za = 0, d_zcap = zcap,
       d_zslba = start, d_wp = start, w_ptr = start\<rparr> NVME_ZONE_STATE_EMPTY"

lemma fresh_zone_fields [simp]:
  "zns_get_zone_state (fresh_zone zcap start) = NVME_ZONE_STATE_EMPTY" "d_zslba (fresh_zone zcap start) = start"
  "d_zcap (fresh_zone zcap start) = zcap" "w_ptr (fresh_zone zcap start) = start" "d_wp (fresh_zone zcap start) = start"
  by (simp_all add: fresh_zone_def)

text \<open>The last zone is never clamped: the capacity is a multiple of the zone size.\<close>

lemma init_zones_eq:
  assumes "start + k * zsize \<le> capacity" and "capacity < 2 ^ 64"
  shows "zns_init_zones k zsize capacity zcap start = map (\<lambda>i. fresh_zone zcap (start + i * zsize)) [0 ..< k]"
  using assms(1)
proof (induction k arbitrary: start)
  case 0
  then show ?case by simp
next
  case (Suc k)
  then have u: "u64 (start + zsize) = start + zsize" using assms(2) by (intro u64_id) simp
  have "zns_init_zones k zsize capacity zcap (start + zsize) = map (\<lambda>i. fresh_zone zcap (start + zsize + i * zsize)) [0 ..< k]"
    using Suc by simp
  then show ?case
    using Suc.prems u
    by (simp add: fresh_zone_def [symmetric] upt_conv_Cons map_Suc_upt [symmetric] comp_def add.assoc del: upt_Suc)
qed

definition all_empty :: "FemuCtrl \<Rightarrow> bool" where
  "all_empty n \<longleftrightarrow> (\<forall>i < num_zones n. zone_state n i = NVME_ZONE_STATE_EMPTY \<and>
     w_ptr (zone_array n ! i) = d_zslba (zone_array n ! i))"

lemma init_identify_ok:
  fixes k :: nat
  assumes hu: "host_utils_ok hu"
    and num: "0 < num_zones n" "num_zones n < 2 ^ 32" and zs: "0 < zone_size n" "(num_zones n + 1) * zone_size n < 2 ^ 64"
    and cap: "0 < zone_capacity n" "zone_capacity n \<le> zone_size n"
    and nl: "zns_ns_nlbas n = num_zones n * zone_size n" and z: "zoned n"
    and nr: "nr_open_zones n = 0" "nr_active_zones n = 0"
  defines "n' \<equiv> zns_init_zone_identify hu n k"
  shows "zns_inv n'" "zns_geo n'" "zones_ok n'" "all_empty n'"
proof -
  have lt: "num_zones n * zone_size n < 2 ^ 64" using zs by (simp add: algebra_simps)
  have arr: "zone_array n' = map (\<lambda>i. fresh_zone (zone_capacity n) (i * zone_size n)) [0 ..< num_zones n]"
    using init_zones_eq [of 0 "num_zones n" "zone_size n" "num_zones n * zone_size n" "zone_capacity n"] lt
    by (simp add: n'_def zns_init_zone_identify_def zns_init_zoned_state_def Let_def u64_id)
  have flds: "num_zones n' = num_zones n" "zone_size n' = zone_size n" "zoned n' = zoned n"
    "nr_open_zones n' = 0" "nr_active_zones n' = 0" "exp_open_zones n' = []" "imp_open_zones n' = []"
    "closed_zones n' = []" "full_zones n' = []" "nsze n' = num_zones n * zone_size n"
    "zns_ns_nlbas n' = zns_ns_nlbas n"
    "zone_size_log2 n' = (if is_power_of_2 hu (zone_size n) then 63 - clz64 hu (zone_size n) else 0)"
    using nr lt
    by (simp_all add: n'_def zns_init_zone_identify_def zns_init_zoned_state_def Let_def u64_id zns_ns_nlbas_def
        zns_ns_lbads_def)
  have st: "zone_state n' i = NVME_ZONE_STATE_EMPTY" if "i < num_zones n" for i
    using that by (simp add: zone_state_def arr)
  have q: "queue_inv n'"
  proof (rule queue_invI)
    fix s i assume "queued s"
    then show "distinct (zone_q n' s)" and "i \<in> set (zone_q n' s) \<longleftrightarrow> i < num_zones n' \<and> zone_state n' i = s"
      using st by (auto simp: zone_q_def flds queued_def)
  qed (simp add: arr flds)
  then show "zns_inv n'"
    using st by (simp add: zns_inv_def aor_inv_def states_inv_def flds open_cnt_def active_cnt_def)
  have log: "zone_size_log2 n' = 0 \<or> zone_size n = 2 ^ zone_size_log2 n'"
  proof (cases "is_power_of_2 hu (zone_size n)")
    case True
    then obtain e where e: "zone_size n = 2 ^ e" using hu by (auto simp: host_utils_ok_def)
    have "(2 :: nat) ^ e < 2 ^ 64" using zs num e by (simp add: algebra_simps)
    then have "e < 64" by (rule power_less_imp_less_exp [rotated]) simp
    with clz64_power [OF hu this] True e show ?thesis by (simp add: flds)
  qed (simp add: flds)
  show "zns_geo n'"
    using num zs cap nl z log by (auto simp: zns_geo_def flds arr)
  have "zone_ok (fresh_zone (zone_capacity n) (i * zone_size n))" if "i < num_zones n" for i
  proof -
    have "(i + 1) * zone_size n \<le> num_zones n * zone_size n" using that by (intro mult_right_mono) simp_all
    with lt cap show ?thesis by (simp add: zone_ok_def)
  qed
  then show "zones_ok n'" by (simp add: zones_ok_nth arr)
  show "all_empty n'" using st by (simp add: all_empty_def flds arr)
qed

text \<open>The default configuration: zones of 128 MiB, no limits.\<close>

lemma init_geometry_default:
  assumes lb: "lbads n \<le> 27" and sz: "ns_size n < 2 ^ 59" and mult: "2 ^ 27 dvd ns_size n"
  shows "fst (zns_init_zone_geometry (zns_init_zone_cap n)) = 0"
    and "num_zones (snd (zns_init_zone_geometry (zns_init_zone_cap n))) = ns_size n div 2 ^ 27"
    and "zone_size (snd (zns_init_zone_geometry (zns_init_zone_cap n))) = 2 ^ (27 - lbads n)"
    and "zone_capacity (snd (zns_init_zone_geometry (zns_init_zone_cap n))) = 2 ^ (27 - lbads n)"
proof -
  let ?l = "2 ^ lbads n :: nat"
  have pw: "(2 :: nat) ^ 27 = ?l * 2 ^ (27 - lbads n)" using lb by (simp add: power_add [symmetric])
  have "?l \<le> 2 ^ 27" using lb by (intro power_increasing) simp_all
  then have le: "?l \<le> 134217728" by simp
  then have u: "u32 ?l = ?l" by (simp add: u32_id)
  have "(2 :: nat) ^ 27 div ?l = 2 ^ (27 - lbads n)" unfolding pw by simp
  then have d: "134217728 div ?l = 2 ^ (27 - lbads n)" by simp
  have m: "ns_size n div ?l div 2 ^ (27 - lbads n) = ns_size n div 2 ^ 27"
    using pw by (simp add: div_mult2_eq [symmetric])
  have "ns_size n div 2 ^ 27 < 2 ^ 32" using sz by (simp add: div_less_iff_less_mult)
  then have u2: "u32 (ns_size n div 2 ^ 27) = ns_size n div 2 ^ 27" by (simp add: u32_id)
  note * = zns_init_zone_geometry_def zns_init_zone_cap_def zns_ns_lbads_def NVME_DEFAULT_ZONE_SIZE_def Let_def
  show "fst (zns_init_zone_geometry (zns_init_zone_cap n)) = 0"
    "num_zones (snd (zns_init_zone_geometry (zns_init_zone_cap n))) = ns_size n div 2 ^ 27"
    "zone_size (snd (zns_init_zone_geometry (zns_init_zone_cap n))) = 2 ^ (27 - lbads n)"
    "zone_capacity (snd (zns_init_zone_geometry (zns_init_zone_cap n))) = 2 ^ (27 - lbads n)"
    using le m u2 by (simp_all add: * u d not_less)
qed

lemma init_geometry_frames:
  "zoned (snd (zns_init_zone_geometry n)) = zoned n" "lbads (snd (zns_init_zone_geometry n)) = lbads n"
  "ns_size (snd (zns_init_zone_geometry n)) = ns_size n"
  "nr_open_zones (snd (zns_init_zone_geometry n)) = nr_open_zones n"
  "nr_active_zones (snd (zns_init_zone_geometry n)) = nr_active_zones n"
  by (simp_all add: zns_init_zone_geometry_def Let_def)

lemma init_default_ok:
  assumes hu: "host_utils_ok hu" and lb: "lbads n \<le> 27" and sz: "0 < ns_size n" "ns_size n < 2 ^ 59"
    and mult: "2 ^ 27 dvd ns_size n" and nr: "nr_open_zones n = 0" "nr_active_zones n = 0"
  shows "zns_inv (zns_init hu n)" "zns_geo (zns_init hu n)" "zones_ok (zns_init hu n)" "all_empty (zns_init hu n)"
    "num_zones (zns_init hu n) = ns_size n div 2 ^ 27"
proof -
  let ?g = "zns_init_zone_geometry (zns_init_zone_cap n)"
  note g = init_geometry_default [OF lb sz(2) mult]
  have cap: "zoned (zns_init_zone_cap n)" "lbads (zns_init_zone_cap n) = lbads n"
    "ns_size (zns_init_zone_cap n) = ns_size n" "nr_open_zones (zns_init_zone_cap n) = 0"
    "nr_active_zones (zns_init_zone_cap n) = 0" using nr by (simp_all add: zns_init_zone_cap_def)
  have eq: "zns_init hu n = zns_init_zone_identify hu (snd ?g) 0"
    using g(1) by (simp add: zns_init_def Let_def split_beta)
  obtain m where m: "ns_size n = 2 ^ 27 * m" using mult by (elim dvdE)
  have mb: "0 < m" "m < 2 ^ 32" using sz m by simp_all
  have e: "27 - lbads n + lbads n = 27" using lb by simp
  then have pw: "2 ^ lbads n * 2 ^ (27 - lbads n) = (2 :: nat) ^ 27" by (simp add: power_add [symmetric])
  have num: "num_zones (snd ?g) = m" using g(2) m by simp
  have "(2 :: nat) ^ (27 - lbads n) \<le> 2 ^ 27" by (intro power_increasing) simp_all
  then have "(m + 1) * 2 ^ (27 - lbads n) \<le> 2 ^ 32 * 2 ^ 27" using mb(2) by (intro mult_mono) simp_all
  then have lt: "(num_zones (snd ?g) + 1) * zone_size (snd ?g) < 2 ^ 64" by (simp add: num g)
  have "ns_size n = 2 ^ lbads n * (m * 2 ^ (27 - lbads n))" using m pw by (simp add: mult.left_commute)
  then have nl: "zns_ns_nlbas (snd ?g) = num_zones (snd ?g) * zone_size (snd ?g)"
    by (simp add: zns_ns_nlbas_def zns_ns_lbads_def init_geometry_frames cap num g(3))
  note ok = init_identify_ok [OF hu _ _ _ lt _ _ nl, of 0]
  show "zns_inv (zns_init hu n)" "zns_geo (zns_init hu n)" "zones_ok (zns_init hu n)" "all_empty (zns_init hu n)"
    unfolding eq using mb cap by (intro ok; simp add: num g init_geometry_frames)+
  show "num_zones (zns_init hu n) = ns_size n div 2 ^ 27"
    using g(2) by (simp add: eq zns_init_zone_identify_def zns_init_zoned_state_def Let_def)
qed

section \<open>Which writes are accepted\<close>

text \<open>There is room to open a zone in state \<open>st\<close>: it is open already, or the limits leave room
  for it, counting the implicitly open zone that is closed to make room.\<close>

definition can_implicitly_open :: "FemuCtrl \<Rightarrow> NvmeZoneState \<Rightarrow> bool" where
  "can_implicitly_open n st \<longleftrightarrow>
     is_open st \<or>
     ((st = NVME_ZONE_STATE_CLOSED \<or> st = NVME_ZONE_STATE_EMPTY) \<and>
      (max_open_zones n = 0 \<or> open_cnt n < max_open_zones n \<or> imp_open_zones n \<noteq> []) \<and>
      (st = NVME_ZONE_STATE_EMPTY \<longrightarrow> max_active_zones n = 0 \<or> active_cnt n < max_active_zones n))"

lemma auto_transition_counts:
  assumes inv: "zns_inv n" and n': "zns_auto_transition_zone n = Some n'"
    and room: "max_open_zones n = 0 \<or> open_cnt n < max_open_zones n \<or> imp_open_zones n \<noteq> []"
  shows "max_open_zones n' \<noteq> 0 \<Longrightarrow> nr_open_zones n' < int (max_open_zones n')"
    and "nr_active_zones n' = nr_active_zones n" "max_active_zones n' = max_active_zones n"
proof -
  note cnt = zns_inv_counters [OF inv]
  have hd: "zone_state n (hd (imp_open_zones n)) = NVME_ZONE_STATE_IMPLICITLY_OPEN" if "imp_open_zones n \<noteq> []"
    using queue_inv_mem [OF zns_inv_queue [OF inv], of NVME_ZONE_STATE_IMPLICITLY_OPEN "hd (imp_open_zones n)"] that
    by (simp add: queued_def zone_q_def)
  from n' have n'_eq: "n' = (if max_open_zones n \<noteq> 0 \<and> open_cnt n = max_open_zones n \<and> imp_open_zones n \<noteq> []
      then transit n (hd (imp_open_zones n)) NVME_ZONE_STATE_CLOSED else n)"
    by (simp add: zns_auto_transition_zone_eq [OF inv])
  show "nr_open_zones n' < int (max_open_zones n')" if "max_open_zones n' \<noteq> 0"
    using that room cnt hd unfolding n'_eq by (auto simp: transit_def is_open_def split: if_splits)
  show "nr_active_zones n' = nr_active_zones n" "max_active_zones n' = max_active_zones n"
    using hd unfolding n'_eq by (auto simp: transit_def is_open_def is_active_def)
qed

lemma auto_open_ok:
  assumes inv: "zns_inv n" and i: "i < num_zones n" and can: "can_implicitly_open n (zone_state n i)"
  shows "\<exists>n'. zns_auto_open_zone n i = Some (OK, n')"
proof (cases "is_open (zone_state n i)")
  case True
  with inv i show ?thesis
    by (auto simp: zns_auto_open_zone_def zone_at_eq zns_inv_queue Let_def zone_state_def [symmetric] is_open_def)
next
  case False
  note cnt = zns_inv_counters [OF inv]
  obtain n' where n': "zns_auto_transition_zone n = Some n'" using auto_transition_step [OF inv] by blast
  from False can have room: "max_open_zones n = 0 \<or> open_cnt n < max_open_zones n \<or> imp_open_zones n \<noteq> []"
    by (auto simp: can_implicitly_open_def)
  note c = auto_transition_counts [OF inv n' room]
  have o: "max_open_zones n' \<noteq> 0 \<longrightarrow> nr_open_zones n' + 1 \<le> int (max_open_zones n')" using c(1) by force
  have "zns_aor_check n' (if zone_state n i = NVME_ZONE_STATE_EMPTY then 1 else 0) 1 = OK"
    unfolding aor_check_ok using False can cnt o c(2,3) by (auto simp: can_implicitly_open_def)
  with False can n' inv i show ?thesis
    by (auto simp: zns_auto_open_zone_def zone_at_eq zns_inv_queue Let_def zone_state_def [symmetric]
        can_implicitly_open_def)
qed

text \<open>A write or append that passes the checks gets as far as the mapping of its data pointer, whose
  failure is then the only one.\<close>

lemma passes_write:
  assumes inv: "zns_inv n" and geo: "zns_geo n"
    and mdts: "nvme_check_mdts ext n (zns_l2b n (zone_nlb (r_cmd req))) = OK"
    and i: "i < num_zones n" "rw_slba (r_cmd req) div zone_size n = i"
    and fit: "rw_slba (r_cmd req) + zone_nlb (r_cmd req) \<le> nsze n"
    and chk: "zns_check_zone_write n (zone_array n ! i) (rw_slba (r_cmd req)) (zone_nlb (r_cmd req)) a = Some OK"
    and can: "can_implicitly_open n (zone_state n i)"
  shows "passes ext n req a" "rw_slba (r_cmd req) < 2 ^ 64"
proof -
  have nsz: "nsze n < 2 ^ 64" using geo by (simp add: zns_geo_def algebra_simps)
  then have "zns_check_bounds n (rw_slba (r_cmd req)) (zone_nlb (r_cmd req)) = OK" using fit by (simp add: zns_check_bounds_def u64_id)
  then show "passes ext n req a" using mdts chk i auto_open_ok [OF inv i(1) can] by (simp add: passes_def Let_def)
  show "rw_slba (r_cmd req) < 2 ^ 64" using fit nsz by linarith
qed

text \<open>The check of a write at the write pointer and of an append, each from the state of its zone.\<close>

lemma check_write_at_pointer:
  assumes geo: "zns_geo n" and i: "i < num_zones n" and can: "can_implicitly_open n (zone_state n i)"
    and fit: "slba + nlb \<le> d_zslba (zone_array n ! i) + d_zcap (zone_array n ! i)"
    and at: "if a then slba = d_zslba (zone_array n ! i) \<and> zns_l2b n nlb \<le> page_size n * 2 ^ zasl n else slba = w_ptr (zone_array n ! i)"
  shows "zns_check_zone_write n (zone_array n ! i) slba nlb a = Some OK" "slba + nlb \<le> nsze n"
    "d_zslba (zone_array n ! i) \<le> slba \<Longrightarrow> 0 < nlb \<Longrightarrow> slba div zone_size n = i"
proof -
  let ?z = "zone_array n ! i"
  note b = wr_boundary_eq [OF geo i]
  have nsz: "nsze n < 2 ^ 64" using geo by (simp add: zns_geo_def algebra_simps)
  show le: "slba + nlb \<le> nsze n" using fit b(2) by linarith
  have "zns_get_zone_state ?z = NVME_ZONE_STATE_EMPTY \<or> is_active (zns_get_zone_state ?z)"
    using can by (auto simp: can_implicitly_open_def is_active_def zone_state_def)
  then show "zns_check_zone_write n ?z slba nlb a = Some OK"
    using fit at b(1) le nsz
    by (auto simp: zns_check_zone_write_def zns_check_zone_state_for_write_def zns_wp_is_valid_def assert_c_def
        Let_def is_active_def is_open_def u64_id split: if_splits)
  show "slba div zone_size n = i" if "d_zslba ?z \<le> slba" "0 < nlb"
  proof (rule div_nat_eqI)
    have zi: "d_zslba ?z = i * zone_size n" "d_zcap ?z \<le> zone_size n" using geo i by (simp_all add: zns_geo_def)
    show "zone_size n * i \<le> slba" using that zi by (simp add: mult.commute)
    show "slba < zone_size n * Suc i" using fit that zi by (simp add: algebra_simps)
  qed
qed

end
