(* ===== verification/ZnsProps.thy ===== *)
theory ZnsProps
  imports ZnsCmd
begin

text \<open>
  The contract of the zoned namespace and the properties of its commands: an abstract machine
  on the states of the zones that the handlers of the zone management commands refine, the
  transition system of commands and shutdowns from an initialised controller, and the
  statements about writes, appends, reports, resets and shutdowns.
\<close>

section \<open>The abstract machine\<close>

datatype zone_op = ZOpen | ZClose | ZFinish | ZReset | ZOffline

fun op_handler :: "zone_op \<Rightarrow> op_handler_t" where
  "op_handler ZOpen = zns_open_zone"
| "op_handler ZClose = zns_close_zone"
| "op_handler ZFinish = zns_finish_zone"
| "op_handler ZReset = zns_reset_zone"
| "op_handler ZOffline = zns_offline_zone"

text \<open>The state an operation takes a zone to, for the states in which it is allowed.\<close>

definition zone_target :: "zone_op \<Rightarrow> NvmeZoneState \<Rightarrow> NvmeZoneState option" where
  "zone_target zop st =
     (case zop of
        ZOpen \<Rightarrow> if st = NVME_ZONE_STATE_EMPTY \<or> is_active st then Some NVME_ZONE_STATE_EXPLICITLY_OPEN else None
      | ZClose \<Rightarrow> if is_active st then Some NVME_ZONE_STATE_CLOSED else None
      | ZFinish \<Rightarrow> if st = NVME_ZONE_STATE_EMPTY \<or> is_active st \<or> st = NVME_ZONE_STATE_FULL
                   then Some NVME_ZONE_STATE_FULL else None
      | ZReset \<Rightarrow> if st = NVME_ZONE_STATE_EMPTY \<or> is_active st \<or> st = NVME_ZONE_STATE_FULL
                  then Some NVME_ZONE_STATE_EMPTY else None
      | ZOffline \<Rightarrow> if st = NVME_ZONE_STATE_READ_ONLY \<or> st = NVME_ZONE_STATE_OFFLINE
                    then Some NVME_ZONE_STATE_OFFLINE else None)"

text \<open>One step on the list of states: an operation that is not allowed and one that would exceed
  the limit on active or open zones (zero for no limit) change nothing.\<close>

definition spec_step ::
  "nat \<Rightarrow> nat \<Rightarrow> zone_op \<Rightarrow> NvmeZoneState list \<Rightarrow> nat \<Rightarrow> nvme_status \<times> NvmeZoneState list" where
  "spec_step max_active max_open zop zs i =
     (case zone_target zop (zs ! i) of
        None \<Rightarrow> (INVAL_TRANSITION, zs)
      | Some t \<Rightarrow>
          if max_active \<noteq> 0 \<and> is_active t \<and> \<not> is_active (zs ! i) \<and> max_active \<le> length (filter is_active zs)
          then (dnr (NVME_ZONE_TOO_MANY_ACTIVE, False), zs)
          else if max_open \<noteq> 0 \<and> is_open t \<and> \<not> is_open (zs ! i) \<and> max_open \<le> length (filter is_open zs)
          then (dnr (NVME_ZONE_TOO_MANY_OPEN, False), zs)
          else (OK, zs[i := t]))"

definition zone_states :: "FemuCtrl \<Rightarrow> NvmeZoneState list" where
  "zone_states n = map zns_get_zone_state (zone_array n)"

lemma zone_states_nth: "zns_inv n \<Longrightarrow> i < num_zones n \<Longrightarrow> zone_states n ! i = zone_state n i"
  by (simp add: zone_states_def zone_state_def zns_inv_queue queue_inv_length)

lemma count_states:
  assumes "zns_inv n"
  shows "length (filter is_open (zone_states n)) = open_cnt n"
    "length (filter is_active (zone_states n)) = active_cnt n"
proof -
  note q = zns_inv_queue [OF assms]
  have *: "length (filter P (zone_states n)) = card {i. i < num_zones n \<and> P (zone_state n i)}" for P
  proof -
    have "{i. i < length (zone_states n) \<and> P (zone_states n ! i)} = {i. i < num_zones n \<and> P (zone_state n i)}"
      using zone_states_nth [OF assms] by (auto simp: zone_states_def queue_inv_length [OF q] zone_state_def)
    then show ?thesis by (simp add: length_filter_conv_card)
  qed
  show "length (filter is_open (zone_states n)) = open_cnt n"
    "length (filter is_active (zone_states n)) = active_cnt n"
    by (simp_all add: * open_cnt_card [OF q] active_cnt_card [OF q])
qed

lemma zone_states_transit:
  "zone_states (transit n i st) = (zone_states n)[i := st]"
  by (simp add: zone_states_def map_update)

lemma zone_states_upd_zone:
  assumes "\<And>z. zns_get_zone_state (f z) = zns_get_zone_state z"
  shows "zone_states (upd_zone i f n) = zone_states n"
  by (cases "i < length (zone_array n)")
     (simp_all add: zone_states_def upd_zone_def map_update assms list_update_beyond list_update_same_conv)

lemma can_open_spec:
  assumes "zns_inv n" and "i < num_zones n"
  shows "can_open n (zone_state n i) = fst (spec_step (max_active_zones n) (max_open_zones n) ZOpen (zone_states n) i)"
proof -
  have le: "max_active_zones n \<noteq> 0 \<longrightarrow> active_cnt n \<le> max_active_zones n"
    using zns_inv_counters(4) [OF assms(1)] by blast
  show ?thesis
    using zns_inv_counters(1,2) [OF assms(1)] le
    by (cases "zone_state n i")
       (auto simp: spec_step_def zone_target_def zone_states_nth [OF assms] count_states [OF assms(1)] can_open_def
         zns_aor_check_def is_active_def is_open_def)
qed

lemma spec_step_open_states:
  assumes "zns_inv n" and "i < num_zones n"
  shows "snd (spec_step (max_active_zones n) (max_open_zones n) ZOpen (zone_states n) i) =
    (if can_open n (zone_state n i) = OK then (zone_states n)[i := NVME_ZONE_STATE_EXPLICITLY_OPEN] else zone_states n)"
  unfolding can_open_spec [OF assms]
  by (auto simp: spec_step_def zone_target_def split: option.splits)

text \<open>An operation other than open needs no resources the zone does not hold.\<close>

lemma spec_step_free:
  assumes "zop \<noteq> ZOpen"
  shows "spec_step max_active max_open zop zs i =
    (case zone_target zop (zs ! i) of None \<Rightarrow> (INVAL_TRANSITION, zs) | Some t \<Rightarrow> (OK, zs[i := t]))"
  using assms
  by (cases zop) (auto simp: spec_step_def zone_target_def is_active_def is_open_def split: option.splits)

lemma handler_refines_open:
  assumes "zns_inv n" and "i < num_zones n"
  shows "\<exists>n'. zns_open_zone n i (zone_state n i) =
      Some (fst (spec_step (max_active_zones n) (max_open_zones n) ZOpen (zone_states n) i), n') \<and>
    zone_states n' = snd (spec_step (max_active_zones n) (max_open_zones n) ZOpen (zone_states n) i)"
proof -
  have same: "(zone_states n)[i := NVME_ZONE_STATE_EXPLICITLY_OPEN] = zone_states n"
    if "zone_state n i = NVME_ZONE_STATE_EXPLICITLY_OPEN"
    using that zone_states_nth [OF assms] by (metis list_update_id)
  show ?thesis
    unfolding zns_open_zone_eq [OF assms] spec_step_open_states [OF assms] can_open_spec [OF assms, symmetric]
    using same by (auto simp: zone_states_transit)
qed

lemma list_update_stutter: "xs ! i = x \<Longrightarrow> xs[i := x] = xs"
  by (metis list_update_id)

lemma handler_refines_other:
  assumes inv: "zns_inv n" and i: "i < num_zones n" and zop: "zop \<noteq> ZOpen"
  shows "\<exists>n'. op_handler zop n i (zone_state n i) =
      Some (fst (spec_step (max_active_zones n) (max_open_zones n) zop (zone_states n) i), n') \<and>
    zone_states n' = snd (spec_step (max_active_zones n) (max_open_zones n) zop (zone_states n) i)"
proof -
  note nth = zone_states_nth [OF inv i] and stut = list_update_stutter [OF zone_states_nth [OF inv i]]
  note eqs = zns_close_zone_eq [OF inv i] zns_finish_zone_eq [OF inv i] zns_reset_zone_eq [OF inv i]
    zns_offline_zone_eq [OF inv i]
  note tgt = zone_target_def is_active_def is_open_def zone_states_transit zone_states_upd_zone
  from zop consider "zop = ZClose" | "zop = ZFinish" | "zop = ZReset" | "zop = ZOffline" by (cases zop) auto
  then show ?thesis
  proof cases
    case 1
    show ?thesis
      unfolding spec_step_free [OF zop] nth unfolding 1 op_handler.simps eqs
      using stut by (cases "zone_state n i") (simp_all add: tgt)
  next
    case 2
    show ?thesis
      unfolding spec_step_free [OF zop] nth unfolding 2 op_handler.simps eqs
      using stut by (cases "zone_state n i") (simp_all add: tgt)
  next
    case 3
    show ?thesis
      unfolding spec_step_free [OF zop] nth unfolding 3 op_handler.simps eqs
      using stut by (cases "zone_state n i") (simp_all add: tgt)
  next
    case 4
    show ?thesis
      unfolding spec_step_free [OF zop] nth unfolding 4 op_handler.simps eqs
      using stut by (cases "zone_state n i") (simp_all add: tgt)
  qed
qed

section \<open>Reachable controllers\<close>

text \<open>The controllers reached from \<open>n0\<close> by commands and shutdowns.\<close>

inductive reachable :: "nvme_ext \<Rightarrow> FemuCtrl \<Rightarrow> FemuCtrl \<Rightarrow> bool" for ext n0 where
  start: "reachable ext n0 n0"
| command: "reachable ext n0 n \<Longrightarrow> rw_slba (r_cmd req) < 2 ^ 64 \<Longrightarrow>
    zns_io_cmd ext n (r_cmd req) req = Some (s, n', req') \<Longrightarrow> reachable ext n0 n'"
| shutdown: "reachable ext n0 n \<Longrightarrow> zns_ns_shutdown n = Some n' \<Longrightarrow> reachable ext n0 n'"

lemma shutdown_safe:
  assumes "zns_inv n" and "zns_geo n"
  shows "\<exists>n'. zns_ns_shutdown n = Some n' \<and> zns_inv n' \<and> zns_geo n'"
  using shutdown_correct [OF assms(1)] assms zns_geo_same_cfg
  by (auto simp: zns_ns_shutdown_def zns_inv_queue queue_inv_length)

lemma reachable_inv:
  assumes "zns_inv n0" and "zns_geo n0" and "reachable ext n0 n"
  shows "zns_inv n \<and> zns_geo n"
  using assms(3)
proof induction
  case start
  then show ?case using assms by blast
next
  case (command n req s n' req')
  then show ?case using io_cmd_safe [of n req ext] by auto
next
  case (shutdown n n')
  then show ?case using shutdown_safe [of n] by auto
qed

section \<open>Writes never overlap\<close>

fun run_cmds :: "nvme_ext \<Rightarrow> FemuCtrl \<Rightarrow> NvmeRequest list \<Rightarrow> FemuCtrl option" where
  "run_cmds ext n [] = Some n"
| "run_cmds ext n (req # reqs) = do {
     (s, n', req') \<leftarrow> zns_io_cmd ext n (r_cmd req) req;
     run_cmds ext n' reqs
   }"

fun call_range :: "backend_call \<Rightarrow> nat set" where
  "call_range (Backend_rw off len wr) = {off ..< off + len}"

definition disjoint_calls :: "backend_call list \<Rightarrow> bool" where
  "disjoint_calls cs \<longleftrightarrow>
     (\<forall>j < length cs. \<forall>i < j. call_range (cs ! i) \<inter> call_range (cs ! j) = {})"

lemma disjoint_calls_snoc:
  "disjoint_calls (cs @ [c]) \<longleftrightarrow> disjoint_calls cs \<and> (\<forall>x \<in> set cs. call_range x \<inter> call_range c = {})"
  by (auto simp: disjoint_calls_def nth_append less_Suc_eq in_set_conv_nth Ball_def all_conj_distrib)

text \<open>Every call so far wrote blocks between the start of a zone and its write pointer.\<close>

definition call_in_zone :: "FemuCtrl \<Rightarrow> nat \<Rightarrow> backend_call \<Rightarrow> bool" where
  "call_in_zone n i c \<longleftrightarrow> i < num_zones n \<and>
     call_range c \<subseteq> {d_zslba (zone_array n ! i) * 2 ^ lbads n ..< w_ptr (zone_array n ! i) * 2 ^ lbads n}"

definition wp_bounded :: "FemuCtrl \<Rightarrow> bool" where
  "wp_bounded n \<longleftrightarrow> (\<forall>i < num_zones n. d_zslba (zone_array n ! i) \<le> w_ptr (zone_array n ! i) \<and>
     w_ptr (zone_array n ! i) \<le> d_zslba (zone_array n ! i) + d_zcap (zone_array n ! i))"

definition write_log_inv :: "FemuCtrl \<Rightarrow> bool" where
  "write_log_inv n \<longleftrightarrow> wp_bounded n \<and> disjoint_calls (backend_calls n) \<and> (\<forall>c \<in> set (backend_calls n). \<exists>i. call_in_zone n i c)"

lemma zone_ranges_disjoint:
  assumes geo: "zns_geo n" and "i < num_zones n" "j < num_zones n" "i \<noteq> j"
  shows "{d_zslba (zone_array n ! i) ..< d_zslba (zone_array n ! i) + d_zcap (zone_array n ! i)} \<inter>
    {d_zslba (zone_array n ! j) ..< d_zslba (zone_array n ! j) + d_zcap (zone_array n ! j)} = {}"
proof -
  have z: "d_zslba (zone_array n ! k) = k * zone_size n" "d_zcap (zone_array n ! k) \<le> zone_size n" if "k < num_zones n" for k
    using geo that by (simp_all add: zns_geo_def)
  have "k * zone_size n + zone_size n \<le> l * zone_size n" if "k < l" for k l
    using mult_right_mono [of "Suc k" l "zone_size n"] that by simp
  with z [OF assms(2)] z [OF assms(3)] assms(4) show ?thesis
    by (cases i j rule: linorder_cases) (fastforce simp: disjoint_iff)+
qed

lemma range_disjoint: "A \<subseteq> {a ..< b} \<Longrightarrow> b \<le> c \<or> d \<le> a \<Longrightarrow> A \<inter> {c ..< d :: nat} = {}"
  by (rule Int_emptyI) (auto dest!: subsetD)

lemma call_in_zone_mono:
  assumes "call_in_zone n i c" and "same_layout n n'"
    and "w_ptr (zone_array n ! i) \<le> w_ptr (zone_array n' ! i)"
  shows "call_in_zone n' i c"
proof -
  have "w_ptr (zone_array n ! i) * 2 ^ lbads n \<le> w_ptr (zone_array n' ! i) * 2 ^ lbads n"
    by (rule mult_right_mono [OF assms(3)]) simp
  then have "{d_zslba (zone_array n ! i) * 2 ^ lbads n ..< w_ptr (zone_array n ! i) * 2 ^ lbads n} \<subseteq>
      {d_zslba (zone_array n ! i) * 2 ^ lbads n ..< w_ptr (zone_array n' ! i) * 2 ^ lbads n}" by simp
  moreover have "call_range c \<subseteq> {d_zslba (zone_array n ! i) * 2 ^ lbads n ..< w_ptr (zone_array n ! i) * 2 ^ lbads n}"
    "i < num_zones n" using assms(1) by (simp_all add: call_in_zone_def)
  ultimately have "call_range c \<subseteq> {d_zslba (zone_array n ! i) * 2 ^ lbads n ..< w_ptr (zone_array n' ! i) * 2 ^ lbads n}"
    by blast
  with \<open>i < num_zones n\<close> assms(2) show ?thesis by (simp add: call_in_zone_def same_layout_def)
qed

text \<open>A call at the write pointer of zone \<open>i\<close> overlaps no call of a zone up to its write pointer.\<close>

lemma new_call_disjoint:
  assumes geo: "zns_geo n" and ok: "wp_bounded n"
    and j: "call_in_zone n j c" and i: "i < num_zones n"
    and fit: "w_ptr (zone_array n ! i) + nlb \<le> d_zslba (zone_array n ! i) + d_zcap (zone_array n ! i)"
  shows "call_range c \<inter> {w_ptr (zone_array n ! i) * 2 ^ lbads n ..< (w_ptr (zone_array n ! i) + nlb) * 2 ^ lbads n} = {}"
proof -
  let ?b = "2 ^ lbads n :: nat" and ?zi = "zone_array n ! i" and ?zj = "zone_array n ! j"
  have jn: "j < num_zones n" and sub: "call_range c \<subseteq> {d_zslba ?zj * ?b ..< w_ptr ?zj * ?b}"
    using j by (simp_all add: call_in_zone_def)
  have zi: "d_zslba ?zi \<le> w_ptr ?zi" and zj: "w_ptr ?zj \<le> d_zslba ?zj + d_zcap ?zj" using ok i jn by (simp_all add: wp_bounded_def)
  show ?thesis
  proof (cases "i = j")
    case True
    with sub show ?thesis by (intro range_disjoint [OF sub]) simp
  next
    case False
    have "w_ptr ?zj \<le> d_zslba ?zi \<or> d_zslba ?zi + d_zcap ?zi \<le> d_zslba ?zj"
    proof (cases "j < i")
      case True
      have "(j + 1) * zone_size n \<le> i * zone_size n" using True by (intro mult_right_mono) simp_all
      then show ?thesis using zj geo i jn by (auto simp: zns_geo_def)
    next
      case ge: False
      have "(i + 1) * zone_size n \<le> j * zone_size n" using ge False by (intro mult_right_mono) simp_all
      then show ?thesis using geo i jn by (auto simp: zns_geo_def)
    qed
    then have "w_ptr ?zj * ?b \<le> w_ptr ?zi * ?b \<or> (w_ptr ?zi + nlb) * ?b \<le> d_zslba ?zj * ?b"
      using zi fit by auto
    then show ?thesis by (rule range_disjoint [OF sub])
  qed
qed

lemma moved_bounded:
  assumes "wp_bounded n" and "same_layout n n'" and "moved n i nlb n'"
    and "w_ptr (zone_array n' ! i) = w_ptr (zone_array n ! i) + nlb"
    and "w_ptr (zone_array n ! i) + nlb \<le> d_zslba (zone_array n ! i) + d_zcap (zone_array n ! i)"
  shows "wp_bounded n'"
  unfolding wp_bounded_def
proof (intro allI impI)
  fix j
  assume "j < num_zones n'"
  then show "d_zslba (zone_array n' ! j) \<le> w_ptr (zone_array n' ! j) \<and> w_ptr (zone_array n' ! j) \<le> d_zslba (zone_array n' ! j) + d_zcap (zone_array n' ! j)"
    using assms by (cases "j = i") (auto simp: wp_bounded_def same_layout_def moved_def)
qed

lemma write_step_log:
  assumes inv: "zns_inv n" and geo: "zns_geo n" and log: "write_log_inv n"
    and wrap: "nsze n * 2 ^ lbads n < 2 ^ 64"
    and req: "opcode (r_cmd req) = NVME_CMD_WRITE" "rw_slba (r_cmd req) < 2 ^ 64"
  shows "\<exists>s n' r. zns_io_cmd ext n (r_cmd req) req = Some (s, n', r) \<and> zns_inv n' \<and> zns_geo n' \<and> write_log_inv n' \<and> same_layout n n'"
proof -
  let ?req = "req\<lparr>is_write := True\<rparr>"
  have z: "zoned n" using geo by (simp add: zns_geo_def)
  have io: "zns_io_cmd ext n (r_cmd req) req = zns_do_write ext n ?req False False"
    using req(1) by (simp add: zns_io_cmd_def write_eq_do_write [OF z])
  have wpb: "wp_bounded n" using log by (simp add: write_log_inv_def)
  have s64: "rw_slba (r_cmd ?req) < 2 ^ 64" using req(2) by simp
  obtain s n' r where run: "zns_do_write ext n ?req False False = Some (s, n', r)" "zns_inv n'" "zns_geo n'"
    using do_write_safe [OF inv geo s64] by blast
  from inv geo s64 run(1) have "write_log_inv n' \<and> same_layout n n'"
  proof (cases rule: do_write_moves)
    case refused
    have "wp_bounded n'" using wpb refused(3,4) by (simp add: wp_bounded_def same_layout_def)
    then show ?thesis using log call_in_zone_mono [OF _ refused(3)] refused(3-5)
      by (auto simp: write_log_inv_def) (metis order_refl)
  next
    case (moved m)
    let ?i = "rw_slba (r_cmd req) div zone_size n" and ?nlb = "zone_nlb (r_cmd req)"
    let ?w = "w_ptr (zone_array n ! ?i)" and ?b = "2 ^ lbads n :: nat"
    have i: "?i < num_zones n" using moved(5) by (simp add: moved_def)
    have at: "rw_slba (r_cmd req) = ?w" using check_zone_write_ok(4) [OF moved(2)] by simp
    note wr = wr_boundary_eq [OF geo i]
    have nsz: "nsze n < 2 ^ 64" using geo by (simp add: zns_geo_def algebra_simps)
    have le: "?w + ?nlb \<le> nsze n" using moved(3) at by simp
    then have u: "u64 (?w + ?nlb) = ?w + ?nlb" using nsz by (simp add: u64_id)
    have fit: "?w + ?nlb \<le> d_zslba (zone_array n ! ?i) + d_zcap (zone_array n ! ?i)"
      using check_zone_write_ok(2) [OF moved(2)] at u wr(1) by simp
    have wi: "w_ptr (zone_array n' ! ?i) = ?w + ?nlb" using moved(5) u by (simp add: moved_def)
    have old: "call_in_zone n' j c" if "call_in_zone n j c" for j c
    proof (rule call_in_zone_mono [OF that moved(4)])
      show "w_ptr (zone_array n ! j) \<le> w_ptr (zone_array n' ! j)" using moved(5) wi by (cases "j = ?i") (simp_all add: moved_def)
    qed
    have b': "wp_bounded n'" using moved_bounded [OF wpb moved(4), of ?i ?nlb] moved(5) wi fit by simp
    show ?thesis
    proof (cases "s = OK")
      case False
      then show ?thesis using log old b' moved(4,7) by (auto simp: write_log_inv_def, blast)
    next
      case True
      have "x * ?b < 2 ^ 64" if "x \<le> nsze n" for x using mult_right_mono [OF that, of ?b] wrap by linarith
      then have "zns_l2b n x = x * ?b" if "x \<le> nsze n" for x using that by (simp add: zns_l2b_def zns_ns_lbads_def u64_id)
      then have l2b: "zns_l2b n ?w = ?w * ?b" "zns_l2b n ?nlb = ?nlb * ?b" using le by simp_all
      let ?c = "Backend_rw (?w * ?b) (?nlb * ?b) True"
      have calls: "backend_calls n' = backend_calls n @ [?c]" using True moved(7) l2b at by simp
      have rng: "call_range ?c = {?w * ?b ..< (?w + ?nlb) * ?b}" by (simp add: algebra_simps)
      have new: "call_in_zone n' ?i ?c"
        unfolding call_in_zone_def rng using moved(4) i wi wpb by (auto simp: same_layout_def wp_bounded_def)
      have "call_range c \<inter> call_range ?c = {}" if "c \<in> set (backend_calls n)" for c
      proof -
        obtain j where "call_in_zone n j c" using log \<open>c \<in> set (backend_calls n)\<close> by (auto simp: write_log_inv_def)
        then show ?thesis unfolding rng by (rule new_call_disjoint [OF geo wpb _ i fit])
      qed
      then show ?thesis using log old new b' moved(4) unfolding write_log_inv_def calls disjoint_calls_snoc by (auto, blast)
    qed
  qed
  then show ?thesis using run io by auto
qed

lemma run_writes_disjoint:
  assumes "zns_inv n" and "zns_geo n" and "write_log_inv n" and "nsze n * 2 ^ lbads n < 2 ^ 64"
    and "\<forall>req \<in> set reqs. opcode (r_cmd req) = NVME_CMD_WRITE \<and> rw_slba (r_cmd req) < 2 ^ 64"
  shows "\<exists>n'. run_cmds ext n reqs = Some n' \<and> write_log_inv n'"
  using assms
proof (induction reqs arbitrary: n)
  case Nil
  then show ?case by simp
next
  case (Cons req reqs)
  have "opcode (r_cmd req) = NVME_CMD_WRITE" "rw_slba (r_cmd req) < 2 ^ 64" using Cons.prems(5) by simp_all
  from write_step_log [OF Cons.prems(1-4) this] obtain s n1 r
    where 1: "zns_io_cmd ext n (r_cmd req) req = Some (s, n1, r)" "zns_inv n1" "zns_geo n1" "write_log_inv n1" "same_layout n n1" by blast
  have "nsze n1 * 2 ^ lbads n1 < 2 ^ 64" using Cons.prems(4) 1(5) by (simp add: same_layout_def)
  from Cons.IH [OF 1(2-4) this] Cons.prems(5) 1(1) show ?case by simp
qed

section \<open>A small controller for the witnesses\<close>

text \<open>Four zones of eight blocks, six of them usable; at most two zones open and three active.\<close>

definition ex_zone :: "nat \<Rightarrow> NvmeZoneState \<Rightarrow> nat \<Rightarrow> NvmeZone" where
  "ex_zone start st wp =
     \<lparr>d_zt = 2, d_zs = zone_state_code st * 16, d_za = 0, d_zcap = 6, d_zslba = start, d_wp = wp, w_ptr = wp\<rparr>"

definition ex_ctrl :: FemuCtrl where
  "ex_ctrl =
     \<lparr>zoned = True, cross_zone_read = False, zone_size_bs = 0, zone_cap_bs = 0, zasl_bs = 0,
      max_active_zones = 3, max_open_zones = 2, zd_extension_size = 0, zone_size = 8, zone_capacity = 6,
      num_zones = 4, zone_size_log2 = 3,
      zone_array = [ex_zone 0 NVME_ZONE_STATE_IMPLICITLY_OPEN 3, ex_zone 8 NVME_ZONE_STATE_EMPTY 8,
                    ex_zone 16 NVME_ZONE_STATE_FULL 22, ex_zone 24 NVME_ZONE_STATE_CLOSED 25],
      zd_extensions = [], exp_open_zones = [], imp_open_zones = [0], closed_zones = [3], full_zones = [2],
      nr_open_zones = 1, nr_active_zones = 2, page_size = 4096, mdts = 7, zasl = 5, csi = NVME_CSI_ZONED,
      id_ns_zoned = None, ns_size = 32 * 512, lbads = 9, nsze = 32, ncap = 32, nuse = 32, npdg = 0,
      nsfeat = 0, err_rec_dulbe = False, backend_calls = []\<rparr>"

definition ex_ext :: nvme_ext where
  "ex_ext = \<lparr>nvme_check_mdts = (\<lambda>_ _. OK), nvme_map_prp = (\<lambda>_ _ _ _. OK),
     dma_write_prp = (\<lambda>_ _ _ _. (OK, [])), dma_read_prp = (\<lambda>_ _ _ _. OK)\<rparr>"

definition ex_req :: "nvme_opcode \<Rightarrow> nat \<Rightarrow> nat \<Rightarrow> nat \<Rightarrow> NvmeRequest" where
  "ex_req op slba nlb dw13 =
     \<lparr>r_cmd = \<lparr>opcode = op, psdt_prp = True, prp1 = 0, prp2 = 0, rw_slba = slba, rw_nlb = nlb,
       cdw10 = slba, cdw11 = 0, cdw12 = 79, cdw13 = dw13\<rparr>,
      r_status = OK, is_write = False, opaque = 0, res_slba = 0\<rparr>"

lemma ex_states:
  "zns_get_zone_state (ex_zone a st b) = st" "d_zslba (ex_zone a st b) = a" "d_zcap (ex_zone a st b) = 6"
  "w_ptr (ex_zone a st b) = b" "d_wp (ex_zone a st b) = b" "d_za (ex_zone a st b) = 0"
  by (simp_all add: ex_zone_def zns_get_zone_state_def)

lemma all_less_4: "(\<forall>i < 4. P i) \<longleftrightarrow> P 0 \<and> P 1 \<and> P 2 \<and> P (3 :: nat)"
  by (auto simp: less_Suc_eq numeral_eq_Suc)

lemma ex_ctrl_inv: "zns_inv ex_ctrl"
  by (simp add: zns_inv_def queue_inv_def aor_inv_def states_inv_def queue_states_def zone_q_def zone_state_def
      ex_ctrl_def all_less_4 ex_states open_cnt_def active_cnt_def)

lemma ex_ctrl_geo: "zns_geo ex_ctrl"
  by (simp add: zns_geo_def ex_ctrl_def all_less_4 ex_states zns_ns_nlbas_def zns_ns_lbads_def)

lemma ex_ctrl_ok: "zones_ok ex_ctrl"
  by (simp add: zones_ok_def ex_ctrl_def zone_ok_def ex_states)

fun msb :: "nat \<Rightarrow> nat" where
  "msb x = (if x \<le> 1 then 0 else Suc (msb (x div 2)))"

declare msb.simps [simp del]

definition ex_hu :: host_utils where
  "ex_hu = \<lparr>is_power_of_2 = (\<lambda>x. \<exists>k \<in> set [0 ..< x]. x = 2 ^ k), clz64 = (\<lambda>x. 63 - msb x), clz32 = (\<lambda>x. 31 - msb x)\<rparr>"

lemma msb_bounds: "0 < x \<Longrightarrow> 2 ^ msb x \<le> x \<and> x < 2 ^ Suc (msb x)"
proof (induction x rule: msb.induct)
  case (1 x)
  show ?case
  proof (cases "x \<le> 1")
    case True
    with "1.prems" show ?thesis by (simp add: msb.simps [of x])
  next
    case False
    with "1.IH" have "2 ^ msb (x div 2) \<le> x div 2" "x div 2 < 2 ^ Suc (msb (x div 2))" by auto
    moreover have "2 * (x div 2) \<le> x" "x < 2 * (x div 2) + 2" by simp_all
    ultimately show ?thesis using False unfolding msb.simps [of x] by (simp del: times_div_less_eq_dividend)
  qed
qed

lemma ex_hu_ok: "host_utils_ok ex_hu"
proof -
  have "clz64 ex_hu x \<le> 63 \<and> 2 ^ (63 - clz64 ex_hu x) \<le> x \<and> x < 2 ^ (64 - clz64 ex_hu x)" if "0 < x" "x < 2 ^ 64" for x
  proof -
    note b = msb_bounds [OF that(1)]
    have "(2 :: nat) ^ msb x < 2 ^ 64" using b that(2) by linarith
    then have "msb x < 64" by (rule power_less_imp_less_exp [rotated]) simp
    then have "63 - (63 - msb x) = msb x" "64 - (63 - msb x) = Suc (msb x)" by linarith+
    with b show ?thesis by (simp add: ex_hu_def)
  qed
  moreover have "is_power_of_2 ex_hu x \<longleftrightarrow> (\<exists>k. x = 2 ^ k)" for x
    by (auto simp: ex_hu_def less_exp)
  ultimately show ?thesis by (simp add: host_utils_ok_def)
qed

section \<open>Properties of the commands\<close>

text \<open>C1: from a controller whose queues, counters and layout are consistent, every command of
  the dispatcher, whatever its fields and whatever the functions outside the repository return,
  completes without a failed assertion, an access outside the zone array or a misuse of a queue,
  and leaves a consistent controller.\<close>

theorem io_cmd_keeps_invariant:
  assumes "zns_inv n" and "zns_geo n" and "rw_slba (r_cmd req) < 2 ^ 64"
  shows "\<exists>s n' req'. zns_io_cmd ext n (r_cmd req) req = Some (s, n', req') \<and> zns_inv n' \<and> zns_geo n'"
  using assms by (rule io_cmd_safe)

theorem io_cmd_keeps_invariant_witness:
  "zns_inv ex_ctrl \<and> zns_geo ex_ctrl \<and>
   (\<exists>s n' req'. zns_io_cmd ex_ext ex_ctrl (r_cmd (ex_req NVME_CMD_ZONE_APPEND 8 1 0)) (ex_req NVME_CMD_ZONE_APPEND 8 1 0) =
      Some (s, n', req') \<and> zns_inv n' \<and> zns_geo n')"
  using io_cmd_keeps_invariant [OF ex_ctrl_inv ex_ctrl_geo, of "ex_req NVME_CMD_ZONE_APPEND 8 1 0" ex_ext]
    ex_ctrl_inv ex_ctrl_geo by (simp add: ex_req_def)

text \<open>C3: on a namespace of less than 2^64 bytes, the blocks that the write commands of any sequence send to
  the backend are pairwise disjoint, whatever the transfer-size check and the mapping of the data pointers
  answer: no sequence of writes writes a block twice. Every write pointer lies in its zone at the start.\<close>

theorem writes_never_overlap:
  assumes "zns_inv n" and "zns_geo n" and "wp_bounded n" and "backend_calls n = []" and "nsze n * 2 ^ lbads n < 2 ^ 64"
    and "\<forall>req \<in> set reqs. opcode (r_cmd req) = NVME_CMD_WRITE \<and> rw_slba (r_cmd req) < 2 ^ 64"
  shows "\<exists>n'. run_cmds ext n reqs = Some n' \<and> disjoint_calls (backend_calls n')"
proof -
  have "write_log_inv n" using assms(3,4) by (simp add: write_log_inv_def disjoint_calls_def)
  from run_writes_disjoint [OF assms(1,2) this assms(5,6)] show ?thesis by (auto simp: write_log_inv_def)
qed

theorem writes_never_overlap_witness:
  "\<exists>n'. run_cmds ex_ext ex_ctrl [ex_req NVME_CMD_WRITE 3 0 0, ex_req NVME_CMD_WRITE 4 1 0, ex_req NVME_CMD_WRITE 4 1 0] = Some n' \<and>
     disjoint_calls (backend_calls n')"
proof (rule writes_never_overlap [OF ex_ctrl_inv ex_ctrl_geo])
  show "wp_bounded ex_ctrl" by (simp add: wp_bounded_def ex_ctrl_def all_less_4 ex_zone_def)
  show "backend_calls ex_ctrl = []" "nsze ex_ctrl * 2 ^ lbads ex_ctrl < 2 ^ 64" by (simp_all add: ex_ctrl_def)
qed (simp_all add: ex_req_def)

text \<open>C5: the handlers of open, close, finish, reset and offline refine the abstract machine: they
  return its status and their new zone states are its states; the counters and queues the
  controller keeps decide exactly as counting the states would.\<close>

theorem handlers_refine_spec:
  assumes "zns_inv n" and "i < num_zones n"
  shows "\<exists>n'. op_handler zop n i (zone_state n i) =
      Some (fst (spec_step (max_active_zones n) (max_open_zones n) zop (zone_states n) i), n') \<and>
    zone_states n' = snd (spec_step (max_active_zones n) (max_open_zones n) zop (zone_states n) i)"
  using handler_refines_open [OF assms] handler_refines_other [OF assms] by (cases "zop = ZOpen") simp_all

theorem handlers_refine_spec_witness:
  "\<exists>n'. op_handler ZOpen ex_ctrl 1 (zone_state ex_ctrl 1) = Some (OK, n') \<and>
     zone_states n' = [NVME_ZONE_STATE_IMPLICITLY_OPEN, NVME_ZONE_STATE_EXPLICITLY_OPEN, NVME_ZONE_STATE_FULL, NVME_ZONE_STATE_CLOSED]"
proof -
  have "spec_step (max_active_zones ex_ctrl) (max_open_zones ex_ctrl) ZOpen (zone_states ex_ctrl) 1 =
      (OK, [NVME_ZONE_STATE_IMPLICITLY_OPEN, NVME_ZONE_STATE_EXPLICITLY_OPEN, NVME_ZONE_STATE_FULL, NVME_ZONE_STATE_CLOSED])"
    by (simp add: ex_ctrl_def zone_states_def ex_states spec_step_def zone_target_def is_active_def is_open_def)
  moreover have "1 < num_zones ex_ctrl" by (simp add: ex_ctrl_def)
  ultimately show ?thesis using handlers_refine_spec [OF ex_ctrl_inv, of 1 ZOpen] by simp
qed

text \<open>C10: a write at the write pointer of a zone that has room for it, of a size the transfer-size check
  accepts, reaches the mapping of its data pointer whenever the limits on open and active zones leave room,
  counting the implicitly open zone the controller closes by itself. It succeeds when the mapping does,
  fails with the status of the mapping otherwise, and the completion returns the address written.\<close>

theorem write_at_pointer_accepted:
  assumes "zns_inv n" and "zns_geo n" and "nvme_check_mdts ext n (zns_l2b n (zone_nlb (r_cmd req))) = OK"
    and "i < num_zones n" and "rw_slba (r_cmd req) = w_ptr (zone_array n ! i)" and "d_zslba (zone_array n ! i) \<le> w_ptr (zone_array n ! i)"
    and "rw_slba (r_cmd req) + zone_nlb (r_cmd req) \<le> d_zslba (zone_array n ! i) + d_zcap (zone_array n ! i)"
    and "can_implicitly_open n (zone_state n i)"
  shows "\<exists>m n' req'. zns_write ext n (r_cmd req) req =
      Some (if map_status ext n m req = OK then OK else dnr (map_status ext n m req), n', req') \<and> res_slba req' = rw_slba (r_cmd req)"
proof -
  let ?req = "req\<lparr>is_write := True\<rparr>"
  have at: "if False then rw_slba (r_cmd req) = d_zslba (zone_array n ! i) \<and> zns_l2b n (zone_nlb (r_cmd req)) \<le> page_size n * 2 ^ zasl n
    else rw_slba (r_cmd req) = w_ptr (zone_array n ! i)" using assms(5) by simp
  note c = check_write_at_pointer [OF assms(2,4,8,7) at]
  have d: "rw_slba (r_cmd req) div zone_size n = i" using c(3) assms(5,6) zone_nlb_pos by simp
  have p: "passes ext n ?req False" "rw_slba (r_cmd ?req) < 2 ^ 64"
    using passes_write [OF assms(1,2), of ext ?req i False] assms(3,4,8) c(1,2) d by simp_all
  obtain s n' r where run: "zns_do_write ext n ?req False False = Some (s, n', r)" using do_write_safe [OF assms(1,2) p(2)] by blast
  have z: "zoned n" using assms(2) by (simp add: zns_geo_def)
  from assms(1,2) p(2) run show ?thesis
  proof (cases rule: do_write_moves)
    case refused
    then show ?thesis using p(1) by blast
  next
    case (moved m)
    have "map_status ext n m ?req = map_status ext n m req" by (simp add: map_status_def zns_map_dptr_def)
    then show ?thesis using run moved(1,6) d assms(5) by (auto simp: write_eq_do_write [OF z])
  qed
qed

theorem write_at_pointer_accepted_witness:
  "\<exists>n' req'. zns_write ex_ext ex_ctrl (r_cmd (ex_req NVME_CMD_WRITE 25 1 0)) (ex_req NVME_CMD_WRITE 25 1 0) = Some (OK, n', req') \<and>
     res_slba req' = rw_slba (r_cmd (ex_req NVME_CMD_WRITE 25 1 0))"
proof -
  let ?req = "ex_req NVME_CMD_WRITE 25 1 0"
  have "can_implicitly_open ex_ctrl (zone_state ex_ctrl 3)"
    by (simp add: can_implicitly_open_def ex_ctrl_def zone_state_def ex_states open_cnt_def)
  then have "\<exists>m n' req'. zns_write ex_ext ex_ctrl (r_cmd ?req) ?req =
      Some (if map_status ex_ext ex_ctrl m ?req = OK then OK else dnr (map_status ex_ext ex_ctrl m ?req), n', req') \<and> res_slba req' = rw_slba (r_cmd ?req)"
    by (intro write_at_pointer_accepted [OF ex_ctrl_inv ex_ctrl_geo, where i = 3])
       (simp_all add: ex_ext_def ex_req_def ex_ctrl_def ex_states zone_nlb_def widths)
  moreover have "map_status ex_ext ex_ctrl m ?req = OK" for m by (simp add: map_status_def zns_map_dptr_def ex_ext_def ex_req_def)
  ultimately show ?thesis by simp
qed

lemmas ex_eval =
  zns_write_def zns_do_write_def zns_zone_append_def ex_req_def zone_nlb_def ex_ext_def zns_check_bounds_def
  zns_get_zone_by_slba_def zns_zone_idx_def ex_ctrl_def zone_at_def zns_check_zone_write_def
  zns_check_zone_state_for_write_def ex_states zns_zone_wr_boundary_def widths zns_wp_is_valid_def
  assert_c_def zns_auto_open_zone_def zns_advance_zone_wp_def zns_map_dptr_def backend_rw_def
  zns_finalize_zoned_write_def upd_zone_def Let_def zns_l2b_def zns_ns_lbads_def

text \<open>C12: a write command that reports success started at the write pointer and ended in its zone,
  sent exactly its data to the backend, moved both pointers of its zone by its length, left the
  pointers of the other zones alone, made the zone full exactly when it reached the end and kept
  the controller well formed.\<close>

theorem write_success_effect:
  assumes "zns_inv n" and "zns_geo n" and "zones_ok n" and "rw_slba (r_cmd req) < 2 ^ 64"
    and "zns_write ext n (r_cmd req) req = Some (OK, n', req')"
  shows "\<exists>i < num_zones n. rw_slba (r_cmd req) = w_ptr (zone_array n ! i) \<and>
    rw_slba (r_cmd req) + zone_nlb (r_cmd req) \<le> d_zslba (zone_array n ! i) + d_zcap (zone_array n ! i) \<and>
    write_done n i (zone_nlb (r_cmd req)) n' \<and> res_slba req' = rw_slba (r_cmd req) \<and>
    backend_calls n' = backend_calls n @
      [Backend_rw (zns_l2b n (rw_slba (r_cmd req))) (zns_l2b n (zone_nlb (r_cmd req))) True]"
proof -
  have "zoned n" using assms(2) by (simp add: zns_geo_def)
  then have run: "zns_do_write ext n (req\<lparr>is_write := True\<rparr>) False False = Some (OK, n', req')"
    using assms(5) by (simp add: write_eq_do_write)
  have "rw_slba (r_cmd (req\<lparr>is_write := True\<rparr>)) < 2 ^ 64" using assms(4) by simp
  note eff = do_write_effect [OF assms(1-3) this run, simplified]
  show ?thesis using eff by (intro exI [of _ "rw_slba (r_cmd req) div zone_size n"]) simp
qed

theorem write_success_effect_witness:
  "\<exists>i < num_zones ex_ctrl. rw_slba (r_cmd (ex_req NVME_CMD_WRITE 3 1 0)) = w_ptr (zone_array ex_ctrl ! i)"
proof -
  let ?req = "ex_req NVME_CMD_WRITE 3 1 0"
  have "fst (the (zns_write ex_ext ex_ctrl (r_cmd ?req) ?req)) = OK" "zns_write ex_ext ex_ctrl (r_cmd ?req) ?req \<noteq> None"
    by (simp_all add: ex_eval)
  then obtain n' req' where "zns_write ex_ext ex_ctrl (r_cmd ?req) ?req = Some (OK, n', req')" by force
  from write_success_effect [OF ex_ctrl_inv ex_ctrl_geo ex_ctrl_ok _ this] show ?thesis by (auto simp: ex_req_def)
qed



text \<open>C14: the bounds of a zone append are checked at the start of the zone and not at its write pointer: whenever an
  append fits the zone from its start and not from its write pointer, is within the limits on its size and
  has a data pointer that can be mapped, and the limits on open and active zones leave room, it succeeds,
  sends its data to the write pointer and moves the pointer past the write boundary of the zone.\<close>

theorem append_can_pass_boundary:
  assumes "zns_inv n" and "zns_geo n" and "i < num_zones n" and "can_implicitly_open n (zone_state n i)"
    and "rw_slba (r_cmd req) = d_zslba (zone_array n ! i)" and "zone_nlb (r_cmd req) \<le> d_zcap (zone_array n ! i)"
    and "zns_zone_wr_boundary (zone_array n ! i) < w_ptr (zone_array n ! i) + zone_nlb (r_cmd req)"
    and "w_ptr (zone_array n ! i) + zone_nlb (r_cmd req) < 2 ^ 64"
    and "nvme_check_mdts ext n (zns_l2b n (zone_nlb (r_cmd req))) = OK" and "zns_l2b n (zone_nlb (r_cmd req)) \<le> page_size n * 2 ^ zasl n"
    and "\<forall>m. map_status ext n m req = OK"
  shows "\<exists>n' req'. zns_zone_append ext n req = Some (OK, n', req') \<and>
    zns_zone_wr_boundary (zone_array n' ! i) < w_ptr (zone_array n' ! i) \<and>
    backend_calls n' = backend_calls n @
      [Backend_rw (zns_l2b n (w_ptr (zone_array n ! i))) (zns_l2b n (zone_nlb (r_cmd req))) (is_write req)]"
proof -
  have at: "if True then rw_slba (r_cmd req) = d_zslba (zone_array n ! i) \<and> zns_l2b n (zone_nlb (r_cmd req)) \<le> page_size n * 2 ^ zasl n
    else rw_slba (r_cmd req) = w_ptr (zone_array n ! i)" using assms(5,10) by simp
  have fit: "rw_slba (r_cmd req) + zone_nlb (r_cmd req) \<le> d_zslba (zone_array n ! i) + d_zcap (zone_array n ! i)" using assms(5,6) by simp
  note c = check_write_at_pointer [OF assms(2-4) fit at]
  have d: "rw_slba (r_cmd req) div zone_size n = i" using c(3) assms(5) zone_nlb_pos by simp
  have p: "passes ext n req True" "rw_slba (r_cmd req) < 2 ^ 64"
    using passes_write [OF assms(1,2,9,3) d c(2,1) assms(4)] by simp_all
  obtain s n' r where run: "zns_do_write ext n req True False = Some (s, n', r)" using do_write_safe [OF assms(1,2) p(2)] by blast
  from assms(1,2) p(2) run show ?thesis
  proof (cases rule: do_write_moves)
    case refused
    then show ?thesis using p(1) by blast
  next
    case (moved m)
    have "zns_zone_wr_boundary (zone_array n' ! i) = zns_zone_wr_boundary (zone_array n ! i)"
      using moved(4) assms(3) by (simp add: same_layout_def zns_zone_wr_boundary_def)
    moreover have "w_ptr (zone_array n' ! i) = w_ptr (zone_array n ! i) + zone_nlb (r_cmd req)"
      using moved(5) d assms(8) by (simp add: moved_def u64_id)
    ultimately show ?thesis using run moved(1,7) d assms(7,11) by (auto simp: zns_zone_append_def)
  qed
qed

theorem append_can_pass_boundary_witness:
  "\<exists>n' req'. zns_zone_append ex_ext ex_ctrl (ex_req NVME_CMD_ZONE_APPEND 0 4 0) = Some (OK, n', req') \<and>
     zns_zone_wr_boundary (zone_array n' ! 0) < w_ptr (zone_array n' ! 0)"
proof -
  let ?req = "ex_req NVME_CMD_ZONE_APPEND 0 4 0"
  have "\<exists>n' req'. zns_zone_append ex_ext ex_ctrl ?req = Some (OK, n', req') \<and>
    zns_zone_wr_boundary (zone_array n' ! 0) < w_ptr (zone_array n' ! 0) \<and>
    backend_calls n' = backend_calls ex_ctrl @
      [Backend_rw (zns_l2b ex_ctrl (w_ptr (zone_array ex_ctrl ! 0))) (zns_l2b ex_ctrl (zone_nlb (r_cmd ?req))) (is_write ?req)]"
    by (rule append_can_pass_boundary [OF ex_ctrl_inv ex_ctrl_geo])
       (simp_all add: ex_eval can_implicitly_open_def zone_state_def map_status_def is_open_def)
  then show ?thesis by blast
qed





text \<open>C16: a reset of all zones succeeds; every zone that was open, closed or full is empty with its
  write pointer at its start, and the state of every other zone is as it was.\<close>

theorem reset_all_zones:
  assumes "zns_inv n" and "zns_geo n" and "zones_ok n"
    and "u32 (cdw13 (r_cmd req)) AND 0xff = 4" and "u32 (cdw13 (r_cmd req)) AND 0x100 \<noteq> 0"
  shows "\<exists>n' req'. zns_zone_mgmt_send ext n req = Some (OK, n', req') \<and> zns_inv n' \<and> zones_ok n' \<and>
    (\<forall>j < num_zones n.
       if is_active (zone_state n j) \<or> zone_state n j = NVME_ZONE_STATE_FULL
       then zone_state n' j = NVME_ZONE_STATE_EMPTY \<and> w_ptr (zone_array n' ! j) = d_zslba (zone_array n' ! j)
       else zone_state n' j = zone_state n j)"
proof -
  let ?pm = "NVME_PROC_OPENED_ZONES OR NVME_PROC_CLOSED_ZONES OR NVME_PROC_FULL_ZONES"
  have pm: "?pm \<noteq> 0" by (simp add: NVME_PROC_OPENED_ZONES_def NVME_PROC_CLOSED_ZONES_def NVME_PROC_FULL_ZONES_def)
  obtain n' where n': "zns_do_zone_op n 0 ?pm zns_reset_zone = Some (OK, n')" "zns_inv n'" "same_cfg n n'"
    "zones_ok n \<longrightarrow> zones_ok n'"
    "\<And>j. j < num_zones n \<Longrightarrow> zone_state n' j =
       (if proc_selects ?pm (zone_state n j) then NVME_ZONE_STATE_EMPTY else zone_state n j)"
    using reset_op.do_zone_op_all [OF assms(1) pm] by blast
  have sel: "proc_selects ?pm st \<longleftrightarrow> is_active st \<or> st = NVME_ZONE_STATE_FULL" for st
    by (auto simp: proc_selects_def is_active_def is_open_def NVME_PROC_OPENED_ZONES_def NVME_PROC_CLOSED_ZONES_def
        NVME_PROC_FULL_ZONES_def NVME_PROC_READ_ONLY_ZONES_def)
  have pos: "0 < num_zones n" "d_zslba (zone_array n ! 0) = 0" using assms(2) by (auto simp: zns_geo_def)
  have at: "zone_at n 0 = Some (zone_array n ! 0)" by (rule zone_at_eq [OF zns_inv_queue [OF assms(1)] pos(1)])
  have run: "zns_zone_mgmt_send ext n req = Some (OK, n', req\<lparr>r_status := OK, opaque := 0\<rparr>)"
    using assms(4,5) n'(1) at pos by (simp add: zns_zone_mgmt_send_def zns_zone_action_def Let_def)
  have len: "length (zone_array n') = num_zones n"
    using n'(2,3) same_cfg_fields(1) by (simp add: zns_inv_queue queue_inv_length)
  have "w_ptr (zone_array n' ! j) = d_zslba (zone_array n' ! j)"
    if "j < num_zones n" "zone_state n' j = NVME_ZONE_STATE_EMPTY" for j
    using zone_ok_state(7) [of "zone_array n' ! j"] n'(4) assms(3) that len by (auto simp: zones_ok_nth zone_state_def)
  with run n' assms(3) show ?thesis by (auto simp: sel)
qed

theorem reset_all_zones_witness:
  "\<exists>n' req'. zns_zone_mgmt_send ex_ext ex_ctrl (ex_req NVME_CMD_ZONE_MGMT_SEND 0 0 0x104) = Some (OK, n', req') \<and>
     zns_inv n' \<and> zones_ok n' \<and> zone_state n' 2 = NVME_ZONE_STATE_EMPTY"
proof -
  have "u32 (cdw13 (r_cmd (ex_req NVME_CMD_ZONE_MGMT_SEND 0 0 0x104))) AND 0xff = 4"
    "u32 (cdw13 (r_cmd (ex_req NVME_CMD_ZONE_MGMT_SEND 0 0 0x104))) AND 0x100 \<noteq> 0"
    by (simp_all add: ex_req_def u32_def)
  from reset_all_zones [OF ex_ctrl_inv ex_ctrl_geo ex_ctrl_ok this, of ex_ext] obtain n' req' where
    run: "zns_zone_mgmt_send ex_ext ex_ctrl (ex_req NVME_CMD_ZONE_MGMT_SEND 0 0 0x104) = Some (OK, n', req')" "zns_inv n'" "zones_ok n'"
    "\<forall>j < num_zones ex_ctrl.
       if is_active (zone_state ex_ctrl j) \<or> zone_state ex_ctrl j = NVME_ZONE_STATE_FULL
       then zone_state n' j = NVME_ZONE_STATE_EMPTY \<and> w_ptr (zone_array n' ! j) = d_zslba (zone_array n' ! j)
       else zone_state n' j = zone_state ex_ctrl j" by blast
  moreover have "2 < num_zones ex_ctrl" "zone_state ex_ctrl 2 = NVME_ZONE_STATE_FULL"
    by (simp_all add: ex_ctrl_def zone_state_def ex_states)
  ultimately show ?thesis by fastforce
qed

text \<open>C17: a shutdown never fails an assertion and leaves no zone open: every open or closed zone
  becomes closed if it holds data or an extension and empty otherwise, its write pointer set back
  to what has been completed, and every other zone is untouched.\<close>

theorem shutdown_closes_zones:
  assumes "zns_inv n"
  shows "\<exists>n'. zns_zoned_ns_shutdown n = Some n' \<and> zns_inv n' \<and> same_cfg n n' \<and> (zones_ok n \<longrightarrow> zones_ok n') \<and>
    open_cnt n' = 0 \<and>
    (\<forall>j < num_zones n. zone_array n' ! j =
       (if is_active (zone_state n j) then cleared (zone_array n ! j) else zone_array n ! j))"
  using assms by (rule shutdown_correct)

theorem shutdown_closes_zones_witness: "\<exists>n'. zns_zoned_ns_shutdown ex_ctrl = Some n' \<and> zns_inv n' \<and> open_cnt n' = 0"
  using shutdown_closes_zones [OF ex_ctrl_inv] by blast

text \<open>C18: initialising the controller with the default configuration on a namespace that is a
  whole number of zones of 128 MiB gives a consistent, well-formed controller with that number of
  zones, all of them empty.\<close>

theorem init_establishes_invariant:
  assumes "host_utils_ok hu" and "lbads n \<le> 27" and "0 < ns_size n" and "ns_size n < 2 ^ 59"
    and "2 ^ 27 dvd ns_size n" and "nr_open_zones n = 0" and "nr_active_zones n = 0"
  shows "zns_inv (zns_init hu n) \<and> zns_geo (zns_init hu n) \<and> zones_ok (zns_init hu n) \<and> all_empty (zns_init hu n) \<and>
    num_zones (zns_init hu n) = ns_size n div 2 ^ 27"
  using init_default_ok [OF assms] by blast

theorem init_establishes_invariant_witness:
  "zns_inv (zns_init ex_hu (ex_ctrl\<lparr>ns_size := 3 * 2 ^ 27, nr_open_zones := 0, nr_active_zones := 0\<rparr>)) \<and>
   num_zones (zns_init ex_hu (ex_ctrl\<lparr>ns_size := 3 * 2 ^ 27, nr_open_zones := 0, nr_active_zones := 0\<rparr>)) = 3"
  using init_establishes_invariant [OF ex_hu_ok, of "ex_ctrl\<lparr>ns_size := 3 * 2 ^ 27, nr_open_zones := 0, nr_active_zones := 0\<rparr>"]
  by (simp add: ex_ctrl_def)

text \<open>C19: on a namespace that is a whole number of zones of 128 MiB (with blocks of at most that size, below
  2^59 bytes), every controller reached from an initialised one by commands and shutdowns is consistent, so that
  the next command and the next shutdown return.\<close>

theorem reachable_consistent:
  assumes "host_utils_ok hu" and "lbads n0 \<le> 27" and "0 < ns_size n0" and "ns_size n0 < 2 ^ 59"
    and "2 ^ 27 dvd ns_size n0" and "nr_open_zones n0 = 0" and "nr_active_zones n0 = 0"
    and "reachable ext (zns_init hu n0) n"
  shows "zns_inv n \<and> zns_geo n \<and> (\<exists>n'. zns_ns_shutdown n = Some n' \<and> reachable ext (zns_init hu n0) n') \<and>
    (\<forall>req. rw_slba (r_cmd req) < 2 ^ 64 \<longrightarrow> (\<exists>s n' req'. zns_io_cmd ext n (r_cmd req) req = Some (s, n', req') \<and> reachable ext (zns_init hu n0) n'))"
proof -
  have inv: "zns_inv n \<and> zns_geo n" using reachable_inv [OF _ _ assms(8)] init_default_ok [OF assms(1-7)] by blast
  have "\<exists>n'. zns_ns_shutdown n = Some n' \<and> reachable ext (zns_init hu n0) n'"
    using shutdown_safe [of n] inv reachable.shutdown [OF assms(8)] by blast
  moreover have "\<exists>s n' req'. zns_io_cmd ext n (r_cmd req) req = Some (s, n', req') \<and> reachable ext (zns_init hu n0) n'"
    if "rw_slba (r_cmd req) < 2 ^ 64" for req
    using io_cmd_safe [of n req ext] inv that reachable.command [OF assms(8) that] by blast
  ultimately show ?thesis using inv by blast
qed

theorem reachable_consistent_witness:
  "\<exists>n. reachable ex_ext (zns_init ex_hu (ex_ctrl\<lparr>ns_size := 2 ^ 27, nr_open_zones := 0, nr_active_zones := 0\<rparr>)) n \<and> zns_inv n \<and>
     (\<exists>s n' req'. zns_io_cmd ex_ext n (r_cmd (ex_req NVME_CMD_WRITE 0 0 0)) (ex_req NVME_CMD_WRITE 0 0 0) = Some (s, n', req'))"
proof -
  let ?n = "ex_ctrl\<lparr>ns_size := 2 ^ 27, nr_open_zones := 0, nr_active_zones := 0\<rparr>"
  have "lbads ?n \<le> 27" "0 < ns_size ?n" "ns_size ?n < 2 ^ 59" "2 ^ 27 dvd ns_size ?n" "nr_open_zones ?n = 0" "nr_active_zones ?n = 0"
    by (simp_all add: ex_ctrl_def)
  note c = reachable_consistent [OF ex_hu_ok this reachable.start, of ex_ext]
  have "rw_slba (r_cmd (ex_req NVME_CMD_WRITE 0 0 0)) < 2 ^ 64" by (simp add: ex_req_def)
  then show ?thesis using c reachable.start [of ex_ext "zns_init ex_hu ?n"] by blast
qed

text \<open>C20: a valid zone report returns a buffer of the requested size: its header holds the
  number of zones from the given one on that match the filter, capped by the room in the buffer
  for a partial report, followed by the descriptors of the first of them that fit.\<close>

theorem report_describes_matching_zones:
  assumes "zns_inv n" and "zns_geo n" and "report_valid ext n (r_cmd req)"
    and "u32 (cdw11 (r_cmd req)) * 2 ^ 32 + u32 (cdw10 (r_cmd req)) < nsze n"
  shows "\<exists>buf. zns_zone_mgmt_recv ext n req =
      Some (dma_read_prp ext n buf (prp1 (r_cmd req)) (prp2 (r_cmd req)), req\<lparr>r_status := OK\<rparr>) \<and>
    length buf = report_size (r_cmd req) \<and>
    buf = report_buffer n (u32 (cdw13 (r_cmd req)) AND 0xff) (drop_bit 8 (u32 (cdw13 (r_cmd req))) AND 0xff)
      (drop_bit 16 (u32 (cdw13 (r_cmd req))) AND 0x01 \<noteq> 0) (report_size (r_cmd req))
      ((u32 (cdw11 (r_cmd req)) * 2 ^ 32 + u32 (cdw10 (r_cmd req))) div zone_size n)"
proof -
  have "64 \<le> report_size (r_cmd req)" using assms(3) by (simp add: report_valid_def Let_def)
  with mgmt_recv_report [OF assms] length_report_buffer show ?thesis by blast
qed

theorem report_describes_matching_zones_witness:
  "\<exists>buf. zns_zone_mgmt_recv ex_ext ex_ctrl (ex_req NVME_CMD_ZONE_MGMT_RECV 8 0 0x100) =
      Some (dma_read_prp ex_ext ex_ctrl buf (prp1 (r_cmd (ex_req NVME_CMD_ZONE_MGMT_RECV 8 0 0x100)))
          (prp2 (r_cmd (ex_req NVME_CMD_ZONE_MGMT_RECV 8 0 0x100))),
        (ex_req NVME_CMD_ZONE_MGMT_RECV 8 0 0x100)\<lparr>r_status := OK\<rparr>) \<and>
    length buf = 320"
proof -
  let ?req = "ex_req NVME_CMD_ZONE_MGMT_RECV 8 0 0x100"
  have sz: "report_size (r_cmd ?req) = 320" by (simp add: report_size_def ex_req_def u32_def)
  have valid: "report_valid ex_ext ex_ctrl (r_cmd ?req)"
    unfolding report_valid_def sz Let_def by (simp add: ex_ext_def ex_req_def u32_def)
  have lt: "u32 (cdw11 (r_cmd ?req)) * 2 ^ 32 + u32 (cdw10 (r_cmd ?req)) < nsze ex_ctrl"
    by (simp add: ex_ctrl_def ex_req_def u32_def)
  show ?thesis
    using report_describes_matching_zones [OF ex_ctrl_inv ex_ctrl_geo valid lt, unfolded sz] by blast
qed

definition ex_odd :: FemuCtrl where
  "ex_odd = ex_ctrl\<lparr>ns_size := 36 * 512\<rparr>"

lemma report_count_leaves:
  assumes inv: "zns_inv n" and over: "num_zones n * zone_size n + off < zns_ns_nlbas n" and wrap: "zns_ns_nlbas n + zone_size n < 2 ^ 64"
  shows "i \<le> num_zones n \<Longrightarrow> zns_report_count n False maxz zrasf (i * zone_size n + off) i nr = None"
proof (induction "num_zones n - i" arbitrary: i nr)
  case 0
  then have i: "i = num_zones n" by simp
  have "zone_at n i = None" using inv i by (simp add: zone_at_def zns_inv_queue queue_inv_length)
  then show ?case using over i by (subst zns_report_count.simps) simp
next
  case (Suc k)
  then have i: "i < num_zones n" by simp
  have "(i + 1) * zone_size n \<le> num_zones n * zone_size n" using i by (intro mult_right_mono) simp_all
  then have lt: "i * zone_size n + off < zns_ns_nlbas n" using over by simp
  then have u: "u64 (i * zone_size n + off + zone_size n) = Suc i * zone_size n + off" using wrap by (subst u64_id) simp_all
  have at: "zone_at n i = Some (zone_array n ! i)" by (rule zone_at_eq [OF zns_inv_queue [OF inv] i])
  have "zns_report_count n False maxz zrasf (Suc i * zone_size n + off) (Suc i) nr' = None" for nr'
    using Suc.hyps(1) [of "Suc i" nr'] Suc.hyps(2) i by simp
  then show ?case using lt u at by (subst zns_report_count.simps) simp
qed

text \<open>C21: the counting loop of a zone report runs to the size of the namespace in blocks and not to the end of the last zone: on
  a namespace that is not a whole number of zones, every valid report that is not partial and starts at a zone (or
  in it, closer to its start than the namespace goes on after the last zone) reads past the zone array.\<close>

theorem report_can_leave_zone_array:
  assumes "zns_inv n" and "zoned n" and "0 < zone_size n" and "num_zones n < 2 ^ 32"
    and "zone_size_log2 n = 0 \<or> zone_size n = 2 ^ zone_size_log2 n" and "nsze n = num_zones n * zone_size n"
    and "zns_ns_nlbas n + zone_size n < 2 ^ 64"
    and "report_valid ext n (r_cmd req)" and "drop_bit 16 (u32 (cdw13 (r_cmd req))) AND 0x01 = 0"
    and "u32 (cdw11 (r_cmd req)) * 2 ^ 32 + u32 (cdw10 (r_cmd req)) = slba" and "slba < nsze n"
    and "num_zones n * zone_size n + slba mod zone_size n < zns_ns_nlbas n"
  shows "zns_zone_mgmt_recv ext n req = None"
proof -
  let ?i = "slba div zone_size n" and ?zra = "u32 (cdw13 (r_cmd req)) AND 0xff" and ?zrasf = "drop_bit 8 (u32 (cdw13 (r_cmd req))) AND 0xff"
  have i: "?i < num_zones n" using assms(3,6,11) by (simp add: div_less_iff_less_mult)
  then have "u32 ?i = ?i" using assms(4) by (simp add: u32_id)
  then have "zns_zone_idx n slba = Some ?i" using assms(3,5) by (auto simp: zns_zone_idx_def)
  then have get: "zns_get_mgmt_zone_slba_idx n (r_cmd req) = Some (OK, slba, ?i)"
    using assms(2,10,11) i by (simp add: zns_get_mgmt_zone_slba_idx_def Let_def)
  have cnt: "zns_report_count n False maxz ?zrasf slba ?i 0 = None" for maxz
    using report_count_leaves [OF assms(1,12,7), of ?i maxz ?zrasf 0] i by simp
  have v: "?zra = NVME_ZONE_REPORT \<or> ?zra = NVME_ZONE_REPORT_EXTENDED \<and> zd_extension_size n \<noteq> 0"
    "\<not> NVME_ZONE_REPORT_OFFLINE < ?zrasf" "\<not> report_size (r_cmd req) < 64" "nvme_check_mdts ext n (report_size (r_cmd req)) = OK"
    using assms(8) by (auto simp: report_valid_def Let_def not_less)
  have part: "(drop_bit 16 (u32 (cdw13 (r_cmd req))) AND 0x01 \<noteq> 0) = False" using assms(9) by simp
  show ?thesis
    unfolding zns_zone_mgmt_recv_def Let_def report_size_def [symmetric] get bind.bind_lunit prod.case part cnt
    using v by auto
qed

theorem report_can_leave_zone_array_witness:
  "zns_ns_nlbas ex_odd div zone_size ex_odd = num_zones ex_odd \<and> zns_zone_mgmt_recv ex_ext ex_odd (ex_req NVME_CMD_ZONE_MGMT_RECV 0 0 0) = None"
proof -
  let ?req = "ex_req NVME_CMD_ZONE_MGMT_RECV 0 0 0"
  have "zns_inv ex_odd = zns_inv ex_ctrl"
    by (simp add: ex_odd_def zns_inv_def queue_inv_def aor_inv_def states_inv_def zone_q_def zone_state_def open_cnt_def
        active_cnt_def queue_states_def)
  then have inv: "zns_inv ex_odd" using ex_ctrl_inv by blast
  have "zns_zone_mgmt_recv ex_ext ex_odd ?req = None"
    by (rule report_can_leave_zone_array [OF inv, where slba = 0])
       (simp_all add: report_valid_def report_size_def ex_odd_def ex_ctrl_def ex_ext_def ex_req_def zns_ns_nlbas_def zns_ns_lbads_def widths Let_def)
  then show ?thesis by (simp add: ex_odd_def ex_ctrl_def zns_ns_nlbas_def zns_ns_lbads_def)
qed

text \<open>C22: the write command and the general write routine, which the source has as two copies of
  the same code, agree.\<close>

theorem write_is_do_write:
  assumes "zoned n"
  shows "zns_write ext n (r_cmd req) req = zns_do_write ext n (req\<lparr>is_write := True\<rparr>) False False"
  using assms by (rule write_eq_do_write)

theorem write_is_do_write_witness:
  "zns_write ex_ext ex_ctrl (r_cmd (ex_req NVME_CMD_WRITE 3 1 0)) (ex_req NVME_CMD_WRITE 3 1 0) =
   zns_do_write ex_ext ex_ctrl ((ex_req NVME_CMD_WRITE 3 1 0)\<lparr>is_write := True\<rparr>) False False"
  by (rule write_is_do_write) (simp add: ex_ctrl_def)

text \<open>C23: the zone of a block address, found by a shift when the zone size is a power of two and by
  a division otherwise, is the zone whose range of addresses contains it.\<close>

theorem zone_of_address:
  assumes "zns_geo n" and "slba < nsze n"
  shows "\<exists>i < num_zones n. zns_get_zone_by_slba n slba = Some i \<and>
    d_zslba (zone_array n ! i) \<le> slba \<and> slba < zns_zone_rd_boundary n (zone_array n ! i)"
proof -
  let ?i = "slba div zone_size n"
  note idx = zone_idx_eq [OF assms]
  have zs: "0 < zone_size n" "d_zslba (zone_array n ! ?i) = ?i * zone_size n" using assms(1) idx(2) by (simp_all add: zns_geo_def)
  have "?i * zone_size n \<le> slba" "slba < (?i + 1) * zone_size n"
    using zs dividend_less_div_times [OF zs(1), of slba] by (simp_all add: algebra_simps)
  then show ?thesis using idx zs rd_boundary_eq [OF assms(1) idx(2)] by (intro exI [of _ ?i]) simp
qed

theorem zone_of_address_witness:
  "\<exists>i < num_zones ex_ctrl. zns_get_zone_by_slba ex_ctrl 19 = Some i \<and> d_zslba (zone_array ex_ctrl ! i) \<le> 19"
  using zone_of_address [OF ex_ctrl_geo, of 19] by (auto simp: ex_ctrl_def)

end
