(* ===== verification/SsdTypes.thy ===== *)
theory SsdTypes
  imports ZnsProps
begin

text \<open>
  The data of the flash device behind the controller: the structures of
  \<open>src/zns/supplement/sup_zns_mapping_strategy_interface.h\<close>,
  \<open>src/zns/supplement/sup_zns_mapping_strategy_tradition.h\<close> and
  \<open>src/zns/fairness/fairness.h\<close>.

  Arrays are lists. Nodes of a queue live in a store that belongs to the queue, transactions and
  wrapped requests live in the stores \<open>ts_heap\<close> and \<open>plus_heap\<close> of the device; a pointer is an
  address in its store, \<open>g_free\<close> removes the entry and a later access through the pointer is an
  abort. The structures of \<open>bbssd/ftl.h\<close>, which is not part of the repository, appear with the
  fields the sources use.
\<close>

section \<open>The NAND geometry\<close>

record ssdparams =
  secsz :: nat
  secs_per_pg :: nat
  pgs_per_blk :: nat
  blks_per_pl :: nat
  pls_per_lun :: nat
  luns_per_ch :: nat
  nchs :: nat
  pg_rd_lat :: nat
  pg_wr_lat :: nat
  blk_er_lat :: nat
  ch_xfer_lat :: nat
  secs_per_blk :: nat
  secs_per_pl :: nat
  secs_per_lun :: nat
  secs_per_ch :: nat
  tt_secs :: nat
  pgs_per_pl :: nat
  pgs_per_lun :: nat
  pgs_per_ch :: nat
  tt_pgs :: nat
  blks_per_lun :: nat
  blks_per_ch :: nat
  tt_blks :: nat
  pls_per_ch :: nat
  tt_pls :: nat
  tt_luns :: nat

datatype nand_sec_status = SEC_FREE | SEC_OTHER nat

datatype nand_pg_status = PG_FREE | PG_VALID | PG_OTHER nat

datatype nand_op = NAND_READ | NAND_WRITE | NAND_ERASE | NAND_OTHER nat

record nand_page =
  pg_sec :: "nand_sec_status list"
  nsecs :: nat
  pg_st :: nand_pg_status

record nand_block =
  blk_pg :: "nand_page list"
  npgs :: nat
  ipc :: nat
  vpc :: nat
  erase_cnt :: nat
  blk_wp :: nat

record nand_plane =
  pl_blk :: "nand_block list"
  nblks :: nat

record nand_lun =
  lun_pl :: "nand_plane list"
  npls :: nat
  next_lun_avail_time :: nat
  lun_busy :: bool

record ssd_channel =
  ch_lun :: "nand_lun list"
  nluns :: nat
  next_ch_avail_time :: nat
  ch_busy :: bool

record ppa =
  g_ch :: nat
  g_lun :: nat
  g_pl :: nat
  g_blk :: nat
  g_pg :: nat
  g_sec :: nat

record zone_info =
  zi_zone_idx :: nat
  zi_wp :: nat
  zi_lbasz :: nat
  zi_nlb :: nat

text \<open>What \<open>bbssd/ftl.h\<close> defines: the latencies of the operations, and whether \<open>ftl_assert\<close> checks
  its argument.\<close>

record ftl_consts =
  NAND_READ_LATENCY :: nat
  NAND_PROG_LATENCY :: nat
  NAND_ERASE_LATENCY :: nat
  ftl_assert_on :: bool

section \<open>Requests, transactions and queues\<close>

record FtlRequest = NvmeRequest +
  stime :: nat
  expire_time :: nat
  reqlat :: nat

record NvmeRequestPlus =
  p_req :: FtlRequest
  flash_ts :: "nat option list"
  ts_num :: nat
  ts_sum :: nat
  maxlat :: nat
  cmd_type :: nand_op

record flash_transaction =
  req_plus :: nat
  zone_idx :: nat
  ops_num :: nat
  die_idx :: nat
  pl_idx :: nat
  blk_idx :: nat
  pg_idx :: nat

record Node_t =
  n_prev :: "nat option"
  n_data :: nat
  n_next :: "nat option"

text \<open>\<open>nodes\<close> is the part of the heap that holds the nodes of this queue, \<open>fresh\<close> an address no
  node of it has had.\<close>

record List_t =
  nodes :: "nat \<Rightarrow> Node_t option"
  fresh :: nat
  l_head :: nat
  l_tail :: nat
  l_len :: int

section \<open>The dynamic mapping\<close>

record phy_zone =
  map_die_group_num :: nat
  die_groups :: "nat list"
  fbg_ofst :: nat
  fbg_part :: nat

record fbg_part_map =
  fp_fbg_id :: nat
  fp_part_sum :: nat
  fp_next_part :: nat

record die_group =
  die :: "nat list"
  fbgs_used_bitmap :: "nat list"
  fbgs_parts_sum :: "nat list"
  remain_fbgs_num :: nat
  next_fbg_id :: nat
  part_map_flag :: nat
  fbg_parts :: fbg_part_map

definition MAXOPENZONES :: nat where
  "MAXOPENZONES = 10"

definition ZONE_MAX_DIE_PARA :: nat where
  "ZONE_MAX_DIE_PARA = 16"

definition INITIAL_OPEN_LIMIT :: nat where
  "INITIAL_OPEN_LIMIT = 4"

definition PARA_LEVEL :: nat where
  "PARA_LEVEL = 16"

record zns_dynamic_mapping =
  opened_zones :: "nat list"
  opened_zones_num :: nat
  open_zone_limit :: nat
  die_group_sum :: nat
  dgroups :: "die_group list"
  die_group_used_bitmap :: "nat list"
  fbgs_per_dg :: nat
  phy_zones :: "phy_zone list"
  st_stage_flag :: nat
  last_opened_zones_num :: nat

section \<open>The device\<close>

record map_tradition =
  trad_die_group :: "nat list"
  block_group_num_per_die :: nat

record zns_ssd =
  sp :: ssdparams
  chans :: "ssd_channel list"
  zns_map_trad :: map_tradition
  die_list :: "List_t list"
  ts_heap :: "nat \<Rightarrow> flash_transaction option"
  plus_heap :: "nat \<Rightarrow> NvmeRequestPlus option"
  next_ptr :: nat
  to_poller :: "(nat \<times> FtlRequest) list"
  dymap :: zns_dynamic_mapping
  start_up_flag :: nat
  req_sum :: nat
  sm_pl_sz :: nat
  df_addr_type_sz :: nat
  pl_sz :: nat
  ops_sum :: nat
  pl_sum :: nat
  sum_serv_time_us :: nat
  dg_time_us :: "nat list"

text \<open>An access to an array of the C source: outside its bounds is an abort.\<close>

definition nth_opt :: "'a list \<Rightarrow> nat \<Rightarrow> 'a option" where
  "nth_opt xs i = (if i < length xs then Some (xs ! i) else None)"

definition upd_opt :: "'a list \<Rightarrow> nat \<Rightarrow> ('a \<Rightarrow> 'a) \<Rightarrow> 'a list option" where
  "upd_opt xs i f = (if i < length xs then Some (xs[i := f (xs ! i)]) else None)"

lemma nth_opt_in [simp]: "i < length xs \<Longrightarrow> nth_opt xs i = Some (xs ! i)"
  by (simp add: nth_opt_def)

lemma upd_opt_in [simp]: "i < length xs \<Longrightarrow> upd_opt xs i f = Some (xs[i := f (xs ! i)])"
  by (simp add: upd_opt_def)

lemma nth_opt_eq_Some: "nth_opt xs i = Some x \<longleftrightarrow> i < length xs \<and> x = xs ! i"
  by (auto simp: nth_opt_def)

lemma upd_opt_eq_Some: "upd_opt xs i f = Some ys \<longleftrightarrow> i < length xs \<and> ys = xs[i := f (xs ! i)]"
  by (auto simp: upd_opt_def)

end
