(* ===== verification/SsdMap.thy ===== *)
theory SsdMap
  imports SsdTypes
begin

text \<open>
  The layout of the flash device and the static mapping from zones to flash pages:
  \<open>src/zns/supplement/sup_zns_mapping_strategy_interface.c\<close> (geometry, initialisation, the
  calls a strategy serves, the routines compiled under \<open>STATIC_MAP\<close>) and
  \<open>sup_zns_mapping_strategy_tradition.c\<close>, the one strategy of the repository.

  The table of function pointers is the record \<open>sup_zns_phy_m_strategy\<close>. The locale
  \<open>mapping_strategy\<close> states what the reads and writes of the device rely on; the traditional
  mapping is its interpretation. The clock (\<open>qemu_clock_get_ns\<close>) is the argument \<open>now\<close>.
\<close>

section \<open>Addresses\<close>

definition valid_ppa :: "zns_ssd \<Rightarrow> ppa \<Rightarrow> bool" where
  "valid_ppa ssd p \<longleftrightarrow>
     (let spp = sp ssd
      in g_ch p < nchs spp \<and> g_lun p < luns_per_ch spp \<and> g_pl p < pls_per_lun spp \<and>
         g_blk p < blks_per_pl spp \<and> g_pg p < pgs_per_blk spp \<and> g_sec p < secs_per_pg spp)"

definition get_ch :: "zns_ssd \<Rightarrow> ppa \<Rightarrow> ssd_channel option" where
  "get_ch ssd p = nth_opt (chans ssd) (g_ch p)"

definition get_lun :: "zns_ssd \<Rightarrow> ppa \<Rightarrow> nand_lun option" where
  "get_lun ssd p = do { c \<leftarrow> get_ch ssd p; nth_opt (ch_lun c) (g_lun p) }"

definition get_pl :: "zns_ssd \<Rightarrow> ppa \<Rightarrow> nand_plane option" where
  "get_pl ssd p = do { l \<leftarrow> get_lun ssd p; nth_opt (lun_pl l) (g_pl p) }"

definition get_blk :: "zns_ssd \<Rightarrow> ppa \<Rightarrow> nand_block option" where
  "get_blk ssd p = do { pl \<leftarrow> get_pl ssd p; nth_opt (pl_blk pl) (g_blk p) }"

definition get_pg :: "zns_ssd \<Rightarrow> ppa \<Rightarrow> nand_page option" where
  "get_pg ssd p = do { b \<leftarrow> get_blk ssd p; nth_opt (blk_pg b) (g_pg p) }"

text \<open>Writes through the pointers these functions return.\<close>

definition upd_lun :: "ppa \<Rightarrow> (nand_lun \<Rightarrow> nand_lun) \<Rightarrow> zns_ssd \<Rightarrow> zns_ssd" where
  "upd_lun p f ssd =
     (let c = chans ssd ! g_ch p
      in ssd\<lparr>chans := (chans ssd)[g_ch p := c\<lparr>ch_lun := (ch_lun c)[g_lun p := f (ch_lun c ! g_lun p)]\<rparr>]\<rparr>)"

definition upd_blk :: "ppa \<Rightarrow> (nand_block \<Rightarrow> nand_block) \<Rightarrow> zns_ssd \<Rightarrow> zns_ssd" where
  "upd_blk p f =
     upd_lun p (\<lambda>l. let pl = lun_pl l ! g_pl p
                    in l\<lparr>lun_pl := (lun_pl l)[g_pl p := pl\<lparr>pl_blk := (pl_blk pl)[g_blk p := f (pl_blk pl ! g_blk p)]\<rparr>]\<rparr>)"

section \<open>Initialisation\<close>

definition zns_ssd_init_nand_page :: "ssdparams \<Rightarrow> nand_page" where
  "zns_ssd_init_nand_page spp =
     \<lparr>pg_sec = replicate (secs_per_pg spp) SEC_FREE, nsecs = secs_per_pg spp, pg_st = PG_FREE\<rparr>"

definition zns_ssd_init_nand_blk :: "ssdparams \<Rightarrow> nand_block" where
  "zns_ssd_init_nand_blk spp =
     \<lparr>blk_pg = replicate (pgs_per_blk spp) (zns_ssd_init_nand_page spp), npgs = pgs_per_blk spp,
      ipc = 0, vpc = 0, erase_cnt = 0, blk_wp = 0\<rparr>"

definition zns_ssd_init_nand_plane :: "ssdparams \<Rightarrow> nand_plane" where
  "zns_ssd_init_nand_plane spp =
     \<lparr>pl_blk = replicate (blks_per_pl spp) (zns_ssd_init_nand_blk spp), nblks = blks_per_pl spp\<rparr>"

definition zns_ssd_init_nand_lun :: "ssdparams \<Rightarrow> nand_lun" where
  "zns_ssd_init_nand_lun spp =
     \<lparr>lun_pl = replicate (pls_per_lun spp) (zns_ssd_init_nand_plane spp), npls = pls_per_lun spp,
      next_lun_avail_time = 0, lun_busy = False\<rparr>"

definition zns_ssd_init_ch :: "ssdparams \<Rightarrow> ssd_channel" where
  "zns_ssd_init_ch spp =
     \<lparr>ch_lun = replicate (luns_per_ch spp) (zns_ssd_init_nand_lun spp), nluns = luns_per_ch spp,
      next_ch_avail_time = 0, ch_busy = False\<rparr>"

definition zns_ssd_init_params :: "ftl_consts \<Rightarrow> ssdparams" where
  "zns_ssd_init_params fc =
     (let v_secsz = 512; v_secs_per_pg = 8; v_pgs_per_blk = 1024; v_blks_per_pl = 64;
          v_pls_per_lun = 2; v_luns_per_ch = 8; v_nchs = 8;
          v_secs_per_blk = v_secs_per_pg * v_pgs_per_blk;
          v_secs_per_pl = v_secs_per_blk * v_blks_per_pl;
          v_secs_per_lun = v_secs_per_pl * v_pls_per_lun;
          v_secs_per_ch = v_secs_per_lun * v_luns_per_ch;
          v_pgs_per_pl = v_pgs_per_blk * v_blks_per_pl;
          v_pgs_per_lun = v_pgs_per_pl * v_pls_per_lun;
          v_pgs_per_ch = v_pgs_per_lun * v_luns_per_ch;
          v_blks_per_lun = v_blks_per_pl * v_pls_per_lun;
          v_blks_per_ch = v_blks_per_lun * v_luns_per_ch;
          v_pls_per_ch = v_pls_per_lun * v_luns_per_ch
      in \<lparr>secsz = v_secsz, secs_per_pg = v_secs_per_pg, pgs_per_blk = v_pgs_per_blk,
          blks_per_pl = v_blks_per_pl, pls_per_lun = v_pls_per_lun, luns_per_ch = v_luns_per_ch,
          nchs = v_nchs, pg_rd_lat = NAND_READ_LATENCY fc, pg_wr_lat = NAND_PROG_LATENCY fc,
          blk_er_lat = NAND_ERASE_LATENCY fc, ch_xfer_lat = 0,
          secs_per_blk = v_secs_per_blk, secs_per_pl = v_secs_per_pl, secs_per_lun = v_secs_per_lun,
          secs_per_ch = v_secs_per_ch, tt_secs = v_secs_per_ch * v_nchs,
          pgs_per_pl = v_pgs_per_pl, pgs_per_lun = v_pgs_per_lun, pgs_per_ch = v_pgs_per_ch,
          tt_pgs = v_pgs_per_ch * v_nchs, blks_per_lun = v_blks_per_lun,
          blks_per_ch = v_blks_per_ch, tt_blks = v_blks_per_ch * v_nchs,
          pls_per_ch = v_pls_per_ch, tt_pls = v_pls_per_ch * v_nchs,
          tt_luns = v_luns_per_ch * v_nchs\<rparr>)"

definition zns_ssd_init_internal_structure :: "ftl_consts \<Rightarrow> zns_ssd \<Rightarrow> zns_ssd" where
  "zns_ssd_init_internal_structure fc ssd =
     (let spp = zns_ssd_init_params fc
      in ssd\<lparr>sp := spp, chans := replicate (nchs spp) (zns_ssd_init_ch spp)\<rparr>)"

section \<open>Strategies\<close>

record nand_cmd =
  nc_cmd :: nand_op
  nc_user_io :: bool
  nc_stime :: nat

record sup_zns_phy_m_strategy =
  strat_name :: string
  phy_zone_mapping_init :: "string \<Rightarrow> FemuCtrl \<Rightarrow> zns_ssd \<Rightarrow> zns_ssd option"
  get_ppa_by_zone_info :: "zns_ssd \<Rightarrow> nat \<Rightarrow> nat \<Rightarrow> nat \<Rightarrow> (ppa \<times> zns_ssd) option"
  zone_advance_avail_time ::
    "nat \<Rightarrow> zns_ssd \<Rightarrow> nand_cmd \<Rightarrow> (nat \<times> nat) list \<Rightarrow> nat list \<Rightarrow> (int \<times> zns_ssd) option"
  strat_get_para_level :: "nat \<Rightarrow> nat"
  strat_get_lun :: "zns_ssd \<Rightarrow> nat \<Rightarrow> nat list option"

definition MAP_TRADITION_NAME :: string where
  "MAP_TRADITION_NAME = ''tradition map''"

text \<open>The quotient of a division by zero is an abort.\<close>

definition div_opt :: "nat \<Rightarrow> nat \<Rightarrow> nat option" where
  "div_opt a b = (if b = 0 then None else Some (a div b))"

definition phy_zone_mapping_init_tradition :: "string \<Rightarrow> FemuCtrl \<Rightarrow> zns_ssd \<Rightarrow> zns_ssd option" where
  "phy_zone_mapping_init_tradition name n ssd = do {
     assert_c (name = MAP_TRADITION_NAME);
     bgn \<leftarrow> div_opt (u64 (PARA_LEVEL * secs_per_lun (sp ssd) * secsz (sp ssd))) (zone_size_bs n);
     Some (ssd\<lparr>zns_map_trad := \<lparr>trad_die_group = replicate PARA_LEVEL 0, block_group_num_per_die = bgn\<rparr>\<rparr>)
   }"

definition get_para_level_by_zone_info_tradition :: "nat \<Rightarrow> nat" where
  "get_para_level_by_zone_info_tradition zone_index = PARA_LEVEL"

definition get_lun_by_zone_info_tradition :: "zns_ssd \<Rightarrow> nat \<Rightarrow> nat list option" where
  "get_lun_by_zone_info_tradition ssd zone = do {
     q \<leftarrow> div_opt zone (block_group_num_per_die (zns_map_trad ssd));
     let first_die_idx = q * PARA_LEVEL;
     Some (map (\<lambda>i. u32 (first_die_idx + i)) [0 ..< PARA_LEVEL])
   }"

definition get_ppa_by_blkg_info :: "ppa \<Rightarrow> ssdparams \<Rightarrow> nat \<Rightarrow> nat \<Rightarrow> nat \<Rightarrow> ppa option" where
  "get_ppa_by_blkg_info p spp tt_blkg blkg_offset page_offset_in_blkg = do {
     blocks_per_blkg \<leftarrow> div_opt (blks_per_lun spp) tt_blkg;
     let start_block_the_blkg = blkg_offset * blocks_per_blkg;
     block_offset_in_blkg \<leftarrow> div_opt page_offset_in_blkg (pgs_per_blk spp);
     let page_offset_in_block = page_offset_in_blkg mod pgs_per_blk spp;
     pl_offset_in_die \<leftarrow> div_opt (start_block_the_blkg + block_offset_in_blkg) (blks_per_pl spp);
     let block_offset_in_plane = (start_block_the_blkg + block_offset_in_blkg) mod blks_per_pl spp;
     Some (p\<lparr>g_pl := pl_offset_in_die, g_blk := block_offset_in_plane, g_pg := page_offset_in_block\<rparr>)
   }"

definition get_ppa_by_zone_info_tradition ::
  "zns_ssd \<Rightarrow> nat \<Rightarrow> nat \<Rightarrow> nat \<Rightarrow> (ppa \<times> zns_ssd) option" where
  "get_ppa_by_zone_info_tradition ssd zone_index wp lbasz = do {
     let spp = sp ssd;
     let bgn = block_group_num_per_die (zns_map_trad ssd);
     q \<leftarrow> div_opt zone_index bgn;
     let first_die_index = u32 (q * PARA_LEVEL);
     let group = map (\<lambda>i. u32 (first_die_index + i)) [0 ..< PARA_LEVEL];
     let ssd = ssd\<lparr>zns_map_trad := (zns_map_trad ssd)\<lparr>trad_die_group := group\<rparr>\<rparr>;
     let blkg_ofst_in_die = zone_index mod bgn;
     lbas_per_page \<leftarrow> div_opt (secs_per_pg spp * secsz spp) lbasz;
     pgs \<leftarrow> div_opt wp lbas_per_page;
     let page_ofst_in_zone = u32 pgs;
     let die_offset = page_ofst_in_zone mod PARA_LEVEL;
     let page_ofst_in_blkg = page_ofst_in_zone div PARA_LEVEL;
     die_ofst_in_chan \<leftarrow> div_opt (group ! die_offset) (nchs spp);
     let p = \<lparr>g_ch = group ! die_offset mod nchs spp, g_lun = die_ofst_in_chan,
              g_pl = 0, g_blk = 0, g_pg = 0, g_sec = 0\<rparr>;
     p \<leftarrow> get_ppa_by_blkg_info p spp bgn blkg_ofst_in_die page_ofst_in_blkg;
     Some (p, ssd)
   }"

text \<open>The conversion of an unsigned 64-bit difference to \<open>int\<close>.\<close>

definition s32 :: "nat \<Rightarrow> int" where
  "s32 x = (int x + 2 ^ 31) mod 2 ^ 32 - 2 ^ 31"

text \<open>One round of the loop: \<open>curlat\<close> and \<open>maxlat\<close> are carried from die to die. A die with no page is
  skipped, an unknown command leaves \<open>curlat\<close> as it is.\<close>

definition advance_die ::
  "nat \<Rightarrow> nat \<Rightarrow> nand_cmd \<Rightarrow> (nat \<times> nat) \<times> nat \<Rightarrow> int \<times> int \<times> zns_ssd \<Rightarrow> (int \<times> int \<times> zns_ssd) option" where
  "advance_die cmd_stime blocks_per_die ncmd = (\<lambda>((c, l), page_num) (curlat, maxlat, ssd).
     if page_num = 0 then Some (curlat, maxlat, ssd)
     else do {
       let spp = sp ssd;
       let p = \<lparr>g_ch = c, g_lun = l, g_pl = 0, g_blk = 0, g_pg = 0, g_sec = 0\<rparr>;
       lun \<leftarrow> get_lun ssd p;
       let nand_stime = max (next_lun_avail_time lun) cmd_stime;
       let occupy = (\<lambda>busy.
              let avail = u64 (nand_stime + busy)
              in (s32 (sub64 avail cmd_stime), upd_lun p (\<lambda>l. l\<lparr>next_lun_avail_time := avail\<rparr>) ssd));
       let (curlat, ssd) =
         (case nc_cmd ncmd of
            NAND_READ \<Rightarrow> occupy (u32 (pg_rd_lat spp * page_num))
          | NAND_WRITE \<Rightarrow> occupy (u32 (pg_wr_lat spp * page_num))
          | NAND_ERASE \<Rightarrow> occupy (u32 (blk_er_lat spp * blocks_per_die))
          | NAND_OTHER _ \<Rightarrow> (curlat, ssd));
       Some (curlat, max curlat maxlat, ssd)
     })"

definition zone_advance_avail_time_tradition ::
  "nat \<Rightarrow> zns_ssd \<Rightarrow> nand_cmd \<Rightarrow> (nat \<times> nat) list \<Rightarrow> nat list \<Rightarrow> (int \<times> zns_ssd) option" where
  "zone_advance_avail_time_tradition now ssd ncmd lun_group page_arr = do {
     let cmd_stime = (if nc_stime ncmd = 0 then now else nc_stime ncmd);
     blocks_per_die \<leftarrow> div_opt (blks_per_lun (sp ssd)) (block_group_num_per_die (zns_map_trad ssd));
     assert_c (PARA_LEVEL \<le> length lun_group \<and> PARA_LEVEL \<le> length page_arr);
     (_, maxlat, ssd) \<leftarrow> foldM (advance_die cmd_stime blocks_per_die ncmd)
        (zip (take PARA_LEVEL lun_group) (take PARA_LEVEL page_arr)) (0, 0, ssd);
     Some (maxlat, ssd)
   }"

definition sup_zns_phy_m_tradition_register :: sup_zns_phy_m_strategy where
  "sup_zns_phy_m_tradition_register =
     \<lparr>strat_name = MAP_TRADITION_NAME,
      phy_zone_mapping_init = phy_zone_mapping_init_tradition,
      get_ppa_by_zone_info = get_ppa_by_zone_info_tradition,
      zone_advance_avail_time = zone_advance_avail_time_tradition,
      strat_get_para_level = get_para_level_by_zone_info_tradition,
      strat_get_lun = get_lun_by_zone_info_tradition\<rparr>"

text \<open>An unknown name leaves the table of the zeroed device: the call of its null pointer aborts.\<close>

definition sup_zns_phy_m_strategy_select :: "string \<Rightarrow> sup_zns_phy_m_strategy option" where
  "sup_zns_phy_m_strategy_select name =
     (if name = MAP_TRADITION_NAME then Some sup_zns_phy_m_tradition_register else None)"

text \<open>The device \<open>g_malloc0\<close> returns.\<close>

definition ssdparams_zero :: ssdparams where
  "ssdparams_zero =
     \<lparr>secsz = 0, secs_per_pg = 0, pgs_per_blk = 0, blks_per_pl = 0, pls_per_lun = 0, luns_per_ch = 0, nchs = 0,
      pg_rd_lat = 0, pg_wr_lat = 0, blk_er_lat = 0, ch_xfer_lat = 0, secs_per_blk = 0, secs_per_pl = 0,
      secs_per_lun = 0, secs_per_ch = 0, tt_secs = 0, pgs_per_pl = 0, pgs_per_lun = 0, pgs_per_ch = 0, tt_pgs = 0,
      blks_per_lun = 0, blks_per_ch = 0, tt_blks = 0, pls_per_ch = 0, tt_pls = 0, tt_luns = 0\<rparr>"

definition dymap_zero :: zns_dynamic_mapping where
  "dymap_zero =
     \<lparr>opened_zones = replicate MAXOPENZONES 0, opened_zones_num = 0, open_zone_limit = 0, die_group_sum = 0,
      dgroups = [], die_group_used_bitmap = [], fbgs_per_dg = 0, phy_zones = [], st_stage_flag = 0,
      last_opened_zones_num = 0\<rparr>"

definition zns_ssd_zero :: zns_ssd where
  "zns_ssd_zero =
     \<lparr>sp = ssdparams_zero, chans = [], zns_map_trad = \<lparr>trad_die_group = [], block_group_num_per_die = 0\<rparr>,
      die_list = [], ts_heap = (\<lambda>_. None), plus_heap = (\<lambda>_. None), next_ptr = 0, to_poller = [],
      dymap = dymap_zero, start_up_flag = 0, req_sum = 0, sm_pl_sz = 0, df_addr_type_sz = 0, pl_sz = 0,
      ops_sum = 0, pl_sum = 0, sum_serv_time_us = 0, dg_time_us = replicate 8 0\<rparr>"

definition zns_ssd_init ::
  "ftl_consts \<Rightarrow> string \<Rightarrow> FemuCtrl \<Rightarrow> (zns_ssd \<times> sup_zns_phy_m_strategy) option" where
  "zns_ssd_init fc name n = do {
     let ssd = zns_ssd_init_internal_structure fc zns_ssd_zero;
     strategy \<leftarrow> sup_zns_phy_m_strategy_select name;
     ssd \<leftarrow> phy_zone_mapping_init strategy name n ssd;
     Some (ssd\<lparr>sm_pl_sz := 0, df_addr_type_sz := 0, pl_sz := 0, sum_serv_time_us := 0\<rparr>, strategy)
   }"

section \<open>Reads and writes under the static mapping\<close>

definition zns_check_page_valid :: "zns_ssd \<Rightarrow> ppa \<Rightarrow> bool option" where
  "zns_check_page_valid ssd p = do { pg \<leftarrow> get_pg ssd p; Some (pg_st pg = PG_VALID) }"

definition zns_mark_page_valid :: "ftl_consts \<Rightarrow> ppa \<Rightarrow> zns_ssd \<Rightarrow> zns_ssd option" where
  "zns_mark_page_valid fc p ssd = do {
     pg \<leftarrow> get_pg ssd p;
     assert_c (ftl_assert_on fc \<longrightarrow> pg_st pg = PG_FREE);
     let ssd = upd_blk p (\<lambda>b. b\<lparr>blk_pg := (blk_pg b)[g_pg p := pg\<lparr>pg_st := PG_VALID\<rparr>]\<rparr>) ssd;
     blk \<leftarrow> get_blk ssd p;
     assert_c (ftl_assert_on fc \<longrightarrow> vpc blk < pgs_per_blk (sp ssd));
     Some (upd_blk p (\<lambda>b. b\<lparr>vpc := vpc b + 1\<rparr>) ssd)
   }"

text \<open>The first loop of a write: the address is computed from \<open>wp\<close>, not from the loop variable \<open>i\<close>.
  The loop of a read is the same without the marking. The result is the die of the first round.\<close>

partial_function (option) zns_write_pages ::
  "ftl_consts \<Rightarrow> bool \<Rightarrow> sup_zns_phy_m_strategy \<Rightarrow> zone_info \<Rightarrow> nat \<Rightarrow> nat \<Rightarrow> (nat \<times> nat) option \<Rightarrow> zns_ssd \<Rightarrow>
   ((nat \<times> nat) option \<times> zns_ssd) option" where
  "zns_write_pages fc mark st zi tt_lba_page i first_lun ssd =
     (if i \<le> u64 (zi_wp zi + zi_nlb zi) then do {
        (p, ssd) \<leftarrow> get_ppa_by_zone_info st ssd (zi_zone_idx zi) (zi_wp zi) (zi_lbasz zi);
        ssd \<leftarrow> (if mark then zns_mark_page_valid fc p ssd else Some ssd);
        first_lun \<leftarrow> (if i = zi_wp zi then do { _ \<leftarrow> get_lun ssd p; Some (Some (g_ch p, g_lun p)) }
                      else Some first_lun);
        zns_write_pages fc mark st zi tt_lba_page (u64 (i + tt_lba_page)) first_lun ssd
      } else Some (first_lun, ssd))"

text \<open>The dies of the zone as pointers, with the index of the last that is the first die of the
  request; the assertion after the loop is that there is one.\<close>

definition zns_lun_group ::
  "sup_zns_phy_m_strategy \<Rightarrow> nat \<Rightarrow> (nat \<times> nat) option \<Rightarrow> zns_ssd \<Rightarrow> ((nat \<times> nat) list \<times> nat) option" where
  "zns_lun_group st zone first_lun ssd = do {
     let para_level = strat_get_para_level st zone;
     lun_num \<leftarrow> strat_get_lun st ssd zone;
     group \<leftarrow> those (map (\<lambda>i. do {
         d \<leftarrow> nth_opt lun_num i;
         q \<leftarrow> div_opt d (nchs (sp ssd));
         let p = \<lparr>g_ch = d mod nchs (sp ssd), g_lun = q, g_pl = 0, g_blk = 0, g_pg = 0, g_sec = 0\<rparr>;
         _ \<leftarrow> get_lun ssd p;
         Some (g_ch p, g_lun p) }) [0 ..< para_level]);
     let hits = filter (\<lambda>i. Some (group ! i) = first_lun) [0 ..< para_level];
     assert_c (hits \<noteq> []);
     Some (group, last hits)
   }"

text \<open>The pages of the request dealt to the dies in turn.\<close>

fun zns_deal_pages :: "nat \<Rightarrow> nat \<Rightarrow> nat \<Rightarrow> nat list \<Rightarrow> nat list" where
  "zns_deal_pages para_level 0 temp page_arr = page_arr"
| "zns_deal_pages para_level (Suc k) temp page_arr =
     zns_deal_pages para_level k (if Suc temp = para_level then 0 else Suc temp)
       (page_arr[temp := page_arr ! temp + 1])"

definition zns_ssd_rw ::
  "ftl_consts \<Rightarrow> sup_zns_phy_m_strategy \<Rightarrow> nat \<Rightarrow> nand_op \<Rightarrow> bool \<Rightarrow> zns_ssd \<Rightarrow> FtlRequest \<Rightarrow> zone_info \<Rightarrow>
   (nat \<times> zns_ssd) option" where
  "zns_ssd_rw fc st now opn mark ssd req zi = do {
     tt \<leftarrow> div_opt (secs_per_pg (sp ssd) * secsz (sp ssd)) (zi_lbasz zi);
     pgs \<leftarrow> div_opt (sub32 (zi_nlb zi) 1) tt;
     let page_num = u32 (pgs + 1);
     (first_lun, ssd) \<leftarrow> zns_write_pages fc mark st zi tt (zi_wp zi) None ssd;
     (lun_group, temp) \<leftarrow> zns_lun_group st (zi_zone_idx zi) first_lun ssd;
     let para_level = strat_get_para_level st (zi_zone_idx zi);
     let page_arr = zns_deal_pages para_level page_num temp (replicate para_level 0);
     (lat, ssd) \<leftarrow> zone_advance_avail_time st now ssd
       \<lparr>nc_cmd = opn, nc_user_io = True, nc_stime = stime req\<rparr> lun_group page_arr;
     Some (nat (lat mod 2 ^ 64), ssd)
   }"

definition zns_ssd_write ::
  "ftl_consts \<Rightarrow> sup_zns_phy_m_strategy \<Rightarrow> nat \<Rightarrow> zns_ssd \<Rightarrow> FtlRequest \<Rightarrow> zone_info \<Rightarrow> (nat \<times> zns_ssd) option" where
  "zns_ssd_write fc st now = zns_ssd_rw fc st now NAND_WRITE True"

definition zns_ssd_read ::
  "ftl_consts \<Rightarrow> sup_zns_phy_m_strategy \<Rightarrow> nat \<Rightarrow> zns_ssd \<Rightarrow> FtlRequest \<Rightarrow> zone_info \<Rightarrow> (nat \<times> zns_ssd) option" where
  "zns_ssd_read fc st now = zns_ssd_rw fc st now NAND_READ False"

definition zns_ssd_erase :: "zns_ssd \<Rightarrow> FtlRequest \<Rightarrow> zone_info \<Rightarrow> nat \<times> zns_ssd" where
  "zns_ssd_erase ssd req zi = (0, ssd)"


section \<open>The geometry\<close>

definition lun_shape :: "ssdparams \<Rightarrow> nand_lun \<Rightarrow> bool" where
  "lun_shape spp l \<longleftrightarrow> length (lun_pl l) = pls_per_lun spp \<and>
     (\<forall>pl \<in> set (lun_pl l). length (pl_blk pl) = blks_per_pl spp \<and>
        (\<forall>b \<in> set (pl_blk pl). length (blk_pg b) = pgs_per_blk spp))"

definition nand_shape :: "zns_ssd \<Rightarrow> bool" where
  "nand_shape ssd \<longleftrightarrow> length (chans ssd) = nchs (sp ssd) \<and>
     (\<forall>c \<in> set (chans ssd). length (ch_lun c) = luns_per_ch (sp ssd) \<and>
        (\<forall>l \<in> set (ch_lun c). lun_shape (sp ssd) l))"

text \<open>Zones and pages the traditional mapping can place, and the requirements on the parameters.\<close>

definition trad_zones :: "zns_ssd \<Rightarrow> nat" where
  "trad_zones ssd = tt_luns (sp ssd) div PARA_LEVEL * block_group_num_per_die (zns_map_trad ssd)"

definition blks_per_blkg :: "zns_ssd \<Rightarrow> nat" where
  "blks_per_blkg ssd = blks_per_lun (sp ssd) div block_group_num_per_die (zns_map_trad ssd)"

definition trad_zone_pages :: "zns_ssd \<Rightarrow> nat" where
  "trad_zone_pages ssd = PARA_LEVEL * (blks_per_blkg ssd * pgs_per_blk (sp ssd))"

definition geo_ok :: "zns_ssd \<Rightarrow> bool" where
  "geo_ok ssd \<longleftrightarrow>
     (let spp = sp ssd; bgn = block_group_num_per_die (zns_map_trad ssd)
      in 0 < bgn \<and> bgn dvd blks_per_lun spp \<and> 0 < blks_per_lun spp \<and>
         blks_per_lun spp = blks_per_pl spp * pls_per_lun spp \<and>
         tt_luns spp = luns_per_ch spp * nchs spp \<and> PARA_LEVEL dvd tt_luns spp \<and>
         0 < nchs spp \<and> 0 < pgs_per_blk spp \<and> 0 < secs_per_pg spp \<and>
         tt_luns spp < 2 ^ 31 \<and> trad_zone_pages ssd < 2 ^ 32 \<and> nand_shape ssd)"

definition lbas_per_pg :: "zns_ssd \<Rightarrow> nat \<Rightarrow> nat" where
  "lbas_per_pg ssd lbasz = secs_per_pg (sp ssd) * secsz (sp ssd) div lbasz"

text \<open>The die and the block of a page of a zone, and back.\<close>

definition trad_die :: "zns_ssd \<Rightarrow> nat \<Rightarrow> nat \<Rightarrow> nat" where
  "trad_die ssd z page = z div block_group_num_per_die (zns_map_trad ssd) * PARA_LEVEL + page mod PARA_LEVEL"

definition trad_block :: "zns_ssd \<Rightarrow> nat \<Rightarrow> nat \<Rightarrow> nat" where
  "trad_block ssd z page =
     z mod block_group_num_per_die (zns_map_trad ssd) * blks_per_blkg ssd +
     page div PARA_LEVEL div pgs_per_blk (sp ssd)"

definition zone_page_of :: "zns_ssd \<Rightarrow> ppa \<Rightarrow> nat \<times> nat" where
  "zone_page_of ssd p =
     (let d = g_lun p * nchs (sp ssd) + g_ch p; b = g_pl p * blks_per_pl (sp ssd) + g_blk p
      in (d div PARA_LEVEL * block_group_num_per_die (zns_map_trad ssd) + b div blks_per_blkg ssd,
          (b mod blks_per_blkg ssd * pgs_per_blk (sp ssd) + g_pg p) * PARA_LEVEL + d mod PARA_LEVEL))"

lemma geo_ok_facts:
  assumes "geo_ok ssd"
  shows "0 < block_group_num_per_die (zns_map_trad ssd)" "0 < blks_per_blkg ssd" "0 < nchs (sp ssd)"
    "0 < pgs_per_blk (sp ssd)" "0 < blks_per_pl (sp ssd)" "0 < pls_per_lun (sp ssd)"
    "blks_per_blkg ssd * block_group_num_per_die (zns_map_trad ssd) = blks_per_lun (sp ssd)"
    "blks_per_lun (sp ssd) = blks_per_pl (sp ssd) * pls_per_lun (sp ssd)"
    "tt_luns (sp ssd) = luns_per_ch (sp ssd) * nchs (sp ssd)"
    "tt_luns (sp ssd) div PARA_LEVEL * PARA_LEVEL = tt_luns (sp ssd)"
    "tt_luns (sp ssd) < 2 ^ 31" "trad_zone_pages ssd < 2 ^ 32" "0 < secs_per_pg (sp ssd)" "nand_shape ssd"
  using assms by (auto simp: geo_ok_def blks_per_blkg_def Let_def dvd_div_eq_0_iff intro: gr0I)

lemma trad_die_bound:
  assumes "geo_ok ssd" and "z < trad_zones ssd"
  shows "trad_die ssd z page < tt_luns (sp ssd)"
proof -
  have "z div block_group_num_per_die (zns_map_trad ssd) < tt_luns (sp ssd) div PARA_LEVEL"
    using assms geo_ok_facts(1) by (simp add: trad_zones_def less_mult_imp_div_less)
  then have "Suc (z div block_group_num_per_die (zns_map_trad ssd)) * PARA_LEVEL
      \<le> tt_luns (sp ssd) div PARA_LEVEL * PARA_LEVEL"
    by (intro mult_le_mono1) simp
  moreover have "page mod PARA_LEVEL < PARA_LEVEL" by (simp add: PARA_LEVEL_def)
  ultimately show ?thesis
    using geo_ok_facts(10)[OF assms(1)] by (simp add: trad_die_def)
qed

lemma trad_block_bound:
  assumes "geo_ok ssd" and "page < trad_zone_pages ssd"
  shows "page div PARA_LEVEL div pgs_per_blk (sp ssd) < blks_per_blkg ssd"
    and "trad_block ssd z page < blks_per_lun (sp ssd)"
proof -
  let ?b = "block_group_num_per_die (zns_map_trad ssd)"
  from assms(2) have "page div PARA_LEVEL < blks_per_blkg ssd * pgs_per_blk (sp ssd)"
    unfolding trad_zone_pages_def by (intro less_mult_imp_div_less) (simp add: ac_simps)
  then show *: "page div PARA_LEVEL div pgs_per_blk (sp ssd) < blks_per_blkg ssd"
    by (rule less_mult_imp_div_less)
  have "z mod ?b < ?b" using geo_ok_facts(1)[OF assms(1)] by simp
  then have "Suc (z mod ?b) * blks_per_blkg ssd \<le> ?b * blks_per_blkg ssd" by (intro mult_le_mono1) simp
  with * show "trad_block ssd z page < blks_per_lun (sp ssd)"
    using geo_ok_facts(7)[OF assms(1)] by (simp add: trad_block_def mult.commute)
qed

lemma map_nth_upt [simp]: "i < n \<Longrightarrow> map f [0 ..< n] ! i = f i"
  by simp

text \<open>The address the strategy computes, in closed form.\<close>

lemma get_ppa_tradition_eq:
  assumes "geo_ok ssd" and "z < trad_zones ssd" and "wp div lbas_per_pg ssd lbasz < trad_zone_pages ssd"
    and "0 < lbas_per_pg ssd lbasz"
  defines "page \<equiv> wp div lbas_per_pg ssd lbasz"
  shows "\<exists>g. get_ppa_by_zone_info_tradition ssd z wp lbasz =
    Some (\<lparr>g_ch = trad_die ssd z page mod nchs (sp ssd), g_lun = trad_die ssd z page div nchs (sp ssd),
           g_pl = trad_block ssd z page div blks_per_pl (sp ssd),
           g_blk = trad_block ssd z page mod blks_per_pl (sp ssd),
           g_pg = page div PARA_LEVEL mod pgs_per_blk (sp ssd), g_sec = 0\<rparr>,
          ssd\<lparr>zns_map_trad := (zns_map_trad ssd)\<lparr>trad_die_group := g\<rparr>\<rparr>)"
proof -
  note f = geo_ok_facts[OF assms(1)]
  have q: "z div block_group_num_per_die (zns_map_trad ssd) * PARA_LEVEL + i < 2 ^ 31" if "i < PARA_LEVEL" for i
    using trad_die_bound[OF assms(1,2), of i] f(11) that by (simp add: trad_die_def)
  have q0: "z div block_group_num_per_die (zns_map_trad ssd) * PARA_LEVEL < 2 ^ 31"
    using q[of 0] by (simp add: PARA_LEVEL_def)
  have die: "u32 (u32 (z div block_group_num_per_die (zns_map_trad ssd) * PARA_LEVEL) + page mod PARA_LEVEL)
      = trad_die ssd z page"
    using q[of "page mod PARA_LEVEL"] q0 by (simp add: trad_die_def PARA_LEVEL_def)
  have lb: "lbasz \<noteq> 0" using assms(4) by (cases "lbasz = 0") (simp_all add: lbas_per_pg_def)
  have pg: "u32 (wp div lbas_per_pg ssd lbasz) = page"
    using assms(3) f(12) by (simp add: page_def)
  have nth: "map (\<lambda>i. u32 (u32 (z div block_group_num_per_die (zns_map_trad ssd) * PARA_LEVEL) + i)) [0 ..< PARA_LEVEL]
      ! (page mod PARA_LEVEL) = trad_die ssd z page"
    by (subst map_nth_upt) (simp_all add: die, simp add: PARA_LEVEL_def)
  show ?thesis
    using f(1,3,4,5) lb assms(4) unfolding lbas_per_pg_def[symmetric]
    by (simp add: get_ppa_by_zone_info_tradition_def div_opt_def get_ppa_by_blkg_info_def Let_def pg nth
        trad_block_def blks_per_blkg_def lbas_per_pg_def[symmetric]) (rule exI, rule refl)
qed

lemma get_ppa_tradition_valid:
  assumes "geo_ok ssd" and "z < trad_zones ssd" and "wp div lbas_per_pg ssd lbasz < trad_zone_pages ssd"
    and "0 < lbas_per_pg ssd lbasz"
  shows "\<exists>p g. get_ppa_by_zone_info_tradition ssd z wp lbasz =
      Some (p, ssd\<lparr>zns_map_trad := (zns_map_trad ssd)\<lparr>trad_die_group := g\<rparr>\<rparr>) \<and>
    valid_ppa ssd p \<and> g_lun p * nchs (sp ssd) + g_ch p = trad_die ssd z (wp div lbas_per_pg ssd lbasz) \<and>
    zone_page_of ssd p = (z, wp div lbas_per_pg ssd lbasz)"
proof -
  let ?page = "wp div lbas_per_pg ssd lbasz" and ?b = "block_group_num_per_die (zns_map_trad ssd)"
  let ?p = "\<lparr>g_ch = trad_die ssd z ?page mod nchs (sp ssd), g_lun = trad_die ssd z ?page div nchs (sp ssd),
           g_pl = trad_block ssd z ?page div blks_per_pl (sp ssd),
           g_blk = trad_block ssd z ?page mod blks_per_pl (sp ssd),
           g_pg = ?page div PARA_LEVEL mod pgs_per_blk (sp ssd), g_sec = 0\<rparr>"
  note f = geo_ok_facts[OF assms(1)]
  obtain g where g: "get_ppa_by_zone_info_tradition ssd z wp lbasz =
      Some (?p, ssd\<lparr>zns_map_trad := (zns_map_trad ssd)\<lparr>trad_die_group := g\<rparr>\<rparr>)"
    using get_ppa_tradition_eq[OF assms] by blast
  have die: "trad_die ssd z ?page div nchs (sp ssd) < luns_per_ch (sp ssd)"
    using trad_die_bound[OF assms(1,2)] f(9) by (intro less_mult_imp_div_less) simp
  have blk: "trad_block ssd z ?page div blks_per_pl (sp ssd) < pls_per_lun (sp ssd)"
    using trad_block_bound(2)[OF assms(1,3)] f(8) by (intro less_mult_imp_div_less) (simp add: mult.commute)
  have "valid_ppa ssd ?p"
    using die blk f by (simp add: valid_ppa_def Let_def)
  moreover have "zone_page_of ssd ?p = (z, ?page)"
  proof -
    let ?d = "trad_die ssd z ?page" and ?k = "trad_block ssd z ?page"
    have P: "0 < PARA_LEVEL" by (simp add: PARA_LEVEL_def)
    have d: "?d div PARA_LEVEL = z div ?b" "?d mod PARA_LEVEL = ?page mod PARA_LEVEL"
      using P by (simp_all add: trad_die_def)
    have k: "?k div blks_per_blkg ssd = z mod ?b"
        "?k mod blks_per_blkg ssd = ?page div PARA_LEVEL div pgs_per_blk (sp ssd)"
      using f(2) trad_block_bound(1)[OF assms(1,3)] by (simp_all add: trad_block_def)
    show ?thesis by (simp add: zone_page_of_def Let_def d k)
  qed
  ultimately show ?thesis using g by auto
qed

lemma geo_ok_cache [simp]:
  "geo_ok (ssd\<lparr>zns_map_trad := (zns_map_trad ssd)\<lparr>trad_die_group := g\<rparr>\<rparr>) = geo_ok ssd"
  "trad_zones (ssd\<lparr>zns_map_trad := (zns_map_trad ssd)\<lparr>trad_die_group := g\<rparr>\<rparr>) = trad_zones ssd"
  "trad_zone_pages (ssd\<lparr>zns_map_trad := (zns_map_trad ssd)\<lparr>trad_die_group := g\<rparr>\<rparr>) = trad_zone_pages ssd"
  "trad_die (ssd\<lparr>zns_map_trad := (zns_map_trad ssd)\<lparr>trad_die_group := g\<rparr>\<rparr>) = trad_die ssd"
  "lbas_per_pg (ssd\<lparr>zns_map_trad := (zns_map_trad ssd)\<lparr>trad_die_group := g\<rparr>\<rparr>) = lbas_per_pg ssd"
  by (simp_all add: geo_ok_def trad_zones_def trad_zone_pages_def blks_per_blkg_def Let_def nand_shape_def
      trad_die_def lbas_per_pg_def fun_eq_iff)

section \<open>Lists\<close>

lemma those_map_Some:
  assumes "\<And>x. x \<in> set xs \<Longrightarrow> f x = Some (g x)"
  shows "those (map f xs) = Some (map g xs)"
  using assms by (induction xs) auto

lemma filter_upt_single: "i < n \<Longrightarrow> filter (\<lambda>j. j = i) [0 ..< n] = [i]"
  by (induction n) (auto simp: less_Suc_eq)

lemma div_mod_eqI: "a mod n = b mod n \<Longrightarrow> a div n = b div n \<Longrightarrow> a = (b :: nat)"
  by (metis div_mult_mod_eq)

section \<open>What a strategy promises\<close>

text \<open>\<open>ok\<close> is the invariant of the strategy's data, \<open>zones\<close> and \<open>pages\<close> are the number of zones and
  of pages per zone it can place.\<close>

locale mapping_strategy =
  fixes st :: sup_zns_phy_m_strategy
    and ok :: "zns_ssd \<Rightarrow> bool"
    and zones :: "zns_ssd \<Rightarrow> nat"
    and pages :: "zns_ssd \<Rightarrow> nat"
    and dies :: "zns_ssd \<Rightarrow> nat \<Rightarrow> nat list"
  assumes ppa_law: "\<lbrakk>ok ssd; z < zones ssd; 0 < lbas_per_pg ssd lbasz; wp div lbas_per_pg ssd lbasz < pages ssd\<rbrakk>
      \<Longrightarrow> \<exists>p ssd'. get_ppa_by_zone_info st ssd z wp lbasz = Some (p, ssd') \<and> valid_ppa ssd p \<and>
        ok ssd' \<and> sp ssd' = sp ssd \<and> chans ssd' = chans ssd \<and> zones ssd' = zones ssd \<and> pages ssd' = pages ssd \<and>
        dies ssd' z = dies ssd z \<and>
        g_lun p * nchs (sp ssd) + g_ch p =
          dies ssd z ! (wp div lbas_per_pg ssd lbasz mod strat_get_para_level st z)"
    and dies_law: "\<lbrakk>ok ssd; z < zones ssd\<rbrakk> \<Longrightarrow>
        strat_get_lun st ssd z = Some (dies ssd z) \<and> length (dies ssd z) = strat_get_para_level st z \<and>
        distinct (dies ssd z) \<and> (\<forall>d \<in> set (dies ssd z). d < luns_per_ch (sp ssd) * nchs (sp ssd))"
    and shape_law: "ok ssd \<Longrightarrow> nand_shape ssd \<and> 0 < nchs (sp ssd)"
    and para_law: "0 < strat_get_para_level st z"
begin

lemma get_lun_in_shape:
  assumes "ok ssd" and "d < luns_per_ch (sp ssd) * nchs (sp ssd)"
  shows "\<exists>l. get_lun ssd \<lparr>g_ch = d mod nchs (sp ssd), g_lun = d div nchs (sp ssd), g_pl = a, g_blk = b, g_pg = c, g_sec = e\<rparr> = Some l"
proof -
  have *: "d mod nchs (sp ssd) < length (chans ssd)"
    using shape_law[OF assms(1)] by (simp add: nand_shape_def)
  have "d div nchs (sp ssd) < luns_per_ch (sp ssd)"
    using assms(2) by (rule less_mult_imp_div_less)
  then have "d div nchs (sp ssd) < length (ch_lun (chans ssd ! (d mod nchs (sp ssd))))"
    using shape_law[OF assms(1)] * by (simp add: nand_shape_def)
  with * show ?thesis by (simp add: get_lun_def get_ch_def)
qed

text \<open>The first loop of a read finds the die of the first page.\<close>

lemma read_pages_rest:
  assumes "ok ssd" and "zi_zone_idx zi < zones ssd" and "0 < lbas_per_pg ssd (zi_lbasz zi)"
    and "zi_wp zi div lbas_per_pg ssd (zi_lbasz zi) < pages ssd"
    and "zi_wp zi + zi_nlb zi + lbas_per_pg ssd (zi_lbasz zi) < 2 ^ 64" and "zi_wp zi < i"
    and "i \<le> zi_wp zi + zi_nlb zi + lbas_per_pg ssd (zi_lbasz zi)"
  shows "\<exists>ssd'. zns_write_pages fc False st zi (lbas_per_pg ssd (zi_lbasz zi)) i fl ssd = Some (fl, ssd') \<and>
    ok ssd' \<and> sp ssd' = sp ssd \<and> chans ssd' = chans ssd \<and> zones ssd' = zones ssd \<and>
    dies ssd' (zi_zone_idx zi) = dies ssd (zi_zone_idx zi)"
  using assms
proof (induction "zi_wp zi + zi_nlb zi + lbas_per_pg ssd (zi_lbasz zi) - i" arbitrary: i ssd rule: less_induct)
  case less
  let ?t = "lbas_per_pg ssd (zi_lbasz zi)"
  show ?case
  proof (cases "i \<le> zi_wp zi + zi_nlb zi")
    case False
    with less.prems show ?thesis by (subst zns_write_pages.simps) simp
  next
    case True
    obtain p ssd' where p: "get_ppa_by_zone_info st ssd (zi_zone_idx zi) (zi_wp zi) (zi_lbasz zi) = Some (p, ssd')"
      and s: "ok ssd'" "sp ssd' = sp ssd" "chans ssd' = chans ssd" "zones ssd' = zones ssd" "pages ssd' = pages ssd"
        "dies ssd' (zi_zone_idx zi) = dies ssd (zi_zone_idx zi)"
      using ppa_law[OF less.prems(1-4)] by blast
    have t: "lbas_per_pg ssd' = lbas_per_pg ssd" using s(2) by (simp add: lbas_per_pg_def fun_eq_iff)
    have u: "u64 (i + ?t) = i + ?t" using True less.prems(5) by simp
    have m: "zi_wp zi + zi_nlb zi + ?t - (i + ?t) < zi_wp zi + zi_nlb zi + ?t - i"
      using True less.prems(3) by linarith
    obtain ssd'' where "zns_write_pages fc False st zi ?t (i + ?t) fl ssd' = Some (fl, ssd'')" "ok ssd''"
        "sp ssd'' = sp ssd'" "chans ssd'' = chans ssd'" "zones ssd'' = zones ssd'"
        "dies ssd'' (zi_zone_idx zi) = dies ssd' (zi_zone_idx zi)"
      using less.hyps[of ssd' "i + ?t", unfolded t, OF m] less.prems s True by (auto simp: t)
    with True p s u less.prems show ?thesis by (subst zns_write_pages.simps) simp
  qed
qed

lemma read_pages:
  assumes "ok ssd" and "zi_zone_idx zi < zones ssd" and "0 < lbas_per_pg ssd (zi_lbasz zi)"
    and "zi_wp zi div lbas_per_pg ssd (zi_lbasz zi) < pages ssd"
    and "zi_wp zi + zi_nlb zi + lbas_per_pg ssd (zi_lbasz zi) < 2 ^ 64"
  defines "d \<equiv> dies ssd (zi_zone_idx zi) ! (zi_wp zi div lbas_per_pg ssd (zi_lbasz zi) mod strat_get_para_level st (zi_zone_idx zi))"
  shows "\<exists>ssd'. zns_write_pages fc False st zi (lbas_per_pg ssd (zi_lbasz zi)) (zi_wp zi) None ssd =
      Some (Some (d mod nchs (sp ssd), d div nchs (sp ssd)), ssd') \<and>
    ok ssd' \<and> sp ssd' = sp ssd \<and> chans ssd' = chans ssd \<and> zones ssd' = zones ssd \<and>
    dies ssd' (zi_zone_idx zi) = dies ssd (zi_zone_idx zi)"
proof -
  let ?t = "lbas_per_pg ssd (zi_lbasz zi)"
  obtain p ssd' where p: "get_ppa_by_zone_info st ssd (zi_zone_idx zi) (zi_wp zi) (zi_lbasz zi) = Some (p, ssd')"
    and s: "ok ssd'" "sp ssd' = sp ssd" "chans ssd' = chans ssd" "zones ssd' = zones ssd" "pages ssd' = pages ssd"
      "dies ssd' (zi_zone_idx zi) = dies ssd (zi_zone_idx zi)"
    and v: "valid_ppa ssd p" and d: "g_lun p * nchs (sp ssd) + g_ch p = d"
    using ppa_law[OF assms(1-4)] unfolding d_def by blast
  have t: "lbas_per_pg ssd' = lbas_per_pg ssd" using s(2) by (simp add: lbas_per_pg_def fun_eq_iff)
  have ch: "g_ch p < nchs (sp ssd)" using v by (simp add: valid_ppa_def Let_def)
  then have dm: "d mod nchs (sp ssd) = g_ch p" "d div nchs (sp ssd) = g_lun p"
    unfolding d[symmetric] by simp_all
  have "\<exists>l. get_lun ssd' p = Some l"
    using v shape_law[OF s(1)] s(2,3) by (auto simp: get_lun_def get_ch_def valid_ppa_def Let_def nand_shape_def)
  moreover obtain ssd'' where "zns_write_pages fc False st zi ?t (zi_wp zi + ?t) (Some (g_ch p, g_lun p)) ssd' =
      Some (Some (g_ch p, g_lun p), ssd'')" "ok ssd''"
      "sp ssd'' = sp ssd'" "chans ssd'' = chans ssd'" "zones ssd'' = zones ssd'"
      "dies ssd'' (zi_zone_idx zi) = dies ssd' (zi_zone_idx zi)"
    using read_pages_rest[OF s(1), of zi "zi_wp zi + ?t" fc "Some (g_ch p, g_lun p)"] assms(2-5) s
    by (auto simp: t)
  ultimately show ?thesis
    using p s assms(5) by (subst zns_write_pages.simps) (auto simp: dm)
qed

lemma lun_group_found:
  assumes "ok ssd" and "z < zones ssd" and "i < strat_get_para_level st z"
  shows "zns_lun_group st z (Some (dies ssd z ! i mod nchs (sp ssd), dies ssd z ! i div nchs (sp ssd))) ssd =
    Some (map (\<lambda>d. (d mod nchs (sp ssd), d div nchs (sp ssd))) (dies ssd z), i)"
proof -
  let ?n = "nchs (sp ssd)" and ?k = "strat_get_para_level st z"
  note dl = dies_law[OF assms(1,2)]
  have n: "0 < ?n" using shape_law[OF assms(1)] by simp
  have one: "(do { d \<leftarrow> nth_opt (dies ssd z) j; q \<leftarrow> div_opt d ?n;
       let p = \<lparr>g_ch = d mod ?n, g_lun = q, g_pl = 0, g_blk = 0, g_pg = 0, g_sec = 0\<rparr>;
       _ \<leftarrow> get_lun ssd p; Some (g_ch p, g_lun p) }) = Some (dies ssd z ! j mod ?n, dies ssd z ! j div ?n)"
    if "j < ?k" for j
  proof -
    have "dies ssd z ! j < luns_per_ch (sp ssd) * ?n" using dl that by auto
    from get_lun_in_shape[OF assms(1) this, of 0 0 0 0] dl that n show ?thesis by (auto simp: div_opt_def)
  qed
  have group: "those (map (\<lambda>j. do { d \<leftarrow> nth_opt (dies ssd z) j; q \<leftarrow> div_opt d ?n;
       let p = \<lparr>g_ch = d mod ?n, g_lun = q, g_pl = 0, g_blk = 0, g_pg = 0, g_sec = 0\<rparr>;
       _ \<leftarrow> get_lun ssd p; Some (g_ch p, g_lun p) }) [0 ..< ?k]) =
     Some (map (\<lambda>d. (d mod ?n, d div ?n)) (dies ssd z))"
    using dl by (subst those_map_Some[OF one]) (auto intro!: nth_equalityI)
  have inj: "(map (\<lambda>d. (d mod ?n, d div ?n)) (dies ssd z)) ! j = (dies ssd z ! i mod ?n, dies ssd z ! i div ?n) \<longleftrightarrow> j = i"
    if "j < ?k" for j
    using dl that assms(3) by (auto simp: nth_eq_iff_index_eq dest: div_mod_eqI)
  have "filter (\<lambda>j. Some ((map (\<lambda>d. (d mod ?n, d div ?n)) (dies ssd z)) ! j) = Some (dies ssd z ! i mod ?n, dies ssd z ! i div ?n)) [0 ..< ?k] = [i]"
    using filter_upt_single[OF assms(3)] by (rule trans[rotated]) (auto simp: inj intro!: filter_cong)
  with group dl show ?thesis by (simp add: zns_lun_group_def Let_def)
qed

end

section \<open>The traditional mapping\<close>

definition trad_dies :: "zns_ssd \<Rightarrow> nat \<Rightarrow> nat list" where
  "trad_dies ssd z = map (trad_die ssd z) [0 ..< PARA_LEVEL]"

lemma trad_dies_nth: "i < PARA_LEVEL \<Longrightarrow> trad_dies ssd z ! i = trad_die ssd z i"
  by (simp add: trad_dies_def)

lemma trad_die_mod: "trad_die ssd z (page mod PARA_LEVEL) = trad_die ssd z page"
  by (simp add: trad_die_def)

lemma get_lun_tradition_eq:
  assumes "geo_ok ssd" and "z < trad_zones ssd"
  shows "get_lun_by_zone_info_tradition ssd z = Some (trad_dies ssd z)"
proof -
  have "u32 (z div block_group_num_per_die (zns_map_trad ssd) * PARA_LEVEL + i) = trad_die ssd z i" if "i < PARA_LEVEL" for i
    using trad_die_bound[OF assms, of i] geo_ok_facts(11)[OF assms(1)] that by (simp add: trad_die_def)
  then show ?thesis
    using geo_ok_facts(1)[OF assms(1)]
    by (simp add: get_lun_by_zone_info_tradition_def div_opt_def trad_dies_def Let_def)
qed

lemma distinct_trad_dies: "distinct (trad_dies ssd z)"
  by (auto simp: trad_dies_def distinct_map inj_on_def trad_die_def)

interpretation tradition:
  mapping_strategy sup_zns_phy_m_tradition_register geo_ok trad_zones trad_zone_pages trad_dies
proof unfold_locales
  fix ssd z lbasz wp
  assume a: "geo_ok ssd" "z < trad_zones ssd" "0 < lbas_per_pg ssd lbasz"
    "wp div lbas_per_pg ssd lbasz < trad_zone_pages ssd"
  obtain p g where p: "get_ppa_by_zone_info_tradition ssd z wp lbasz =
      Some (p, ssd\<lparr>zns_map_trad := (zns_map_trad ssd)\<lparr>trad_die_group := g\<rparr>\<rparr>)" "valid_ppa ssd p"
      "g_lun p * nchs (sp ssd) + g_ch p = trad_die ssd z (wp div lbas_per_pg ssd lbasz)"
    using get_ppa_tradition_valid[OF a(1,2,4,3)] by blast
  have "trad_die ssd z (wp div lbas_per_pg ssd lbasz) =
      trad_dies ssd z ! (wp div lbas_per_pg ssd lbasz mod PARA_LEVEL)"
    by (subst trad_dies_nth) (simp_all add: trad_die_mod, simp add: PARA_LEVEL_def)
  with p a show "\<exists>p ssd'. get_ppa_by_zone_info sup_zns_phy_m_tradition_register ssd z wp lbasz = Some (p, ssd') \<and>
      valid_ppa ssd p \<and> geo_ok ssd' \<and> sp ssd' = sp ssd \<and> chans ssd' = chans ssd \<and> trad_zones ssd' = trad_zones ssd \<and>
      trad_zone_pages ssd' = trad_zone_pages ssd \<and> trad_dies ssd' z = trad_dies ssd z \<and>
      g_lun p * nchs (sp ssd) + g_ch p = trad_dies ssd z ! (wp div lbas_per_pg ssd lbasz mod
        strat_get_para_level sup_zns_phy_m_tradition_register z)"
    by (auto simp: sup_zns_phy_m_tradition_register_def get_para_level_by_zone_info_tradition_def trad_dies_def)
next
  fix ssd z assume a: "geo_ok ssd" "z < trad_zones ssd"
  show "strat_get_lun sup_zns_phy_m_tradition_register ssd z = Some (trad_dies ssd z) \<and>
      length (trad_dies ssd z) = strat_get_para_level sup_zns_phy_m_tradition_register z \<and>
      distinct (trad_dies ssd z) \<and> (\<forall>d \<in> set (trad_dies ssd z). d < luns_per_ch (sp ssd) * nchs (sp ssd))"
    using get_lun_tradition_eq[OF a] distinct_trad_dies trad_die_bound[OF a] geo_ok_facts(9)[OF a(1)]
    by (auto simp: sup_zns_phy_m_tradition_register_def get_para_level_by_zone_info_tradition_def trad_dies_def)
next
  fix ssd assume "geo_ok ssd"
  then show "nand_shape ssd \<and> 0 < nchs (sp ssd)" using geo_ok_facts by blast
next
  fix z show "0 < strat_get_para_level sup_zns_phy_m_tradition_register z"
    by (simp add: sup_zns_phy_m_tradition_register_def get_para_level_by_zone_info_tradition_def PARA_LEVEL_def)
qed

section \<open>Latency\<close>

definition lun_avail :: "zns_ssd \<Rightarrow> nat \<times> nat \<Rightarrow> nat" where
  "lun_avail ssd cl = next_lun_avail_time (ch_lun (chans ssd ! fst cl) ! snd cl)"

definition lun_in :: "zns_ssd \<Rightarrow> nat \<times> nat \<Rightarrow> bool" where
  "lun_in ssd cl \<longleftrightarrow> fst cl < length (chans ssd) \<and> snd cl < length (ch_lun (chans ssd ! fst cl))"

text \<open>When a die has finished \<open>k\<close> pages of a request that arrived at \<open>t\<close>.\<close>

definition die_done :: "zns_ssd \<Rightarrow> nat \<Rightarrow> nat \<Rightarrow> nat \<times> nat \<Rightarrow> nat \<Rightarrow> nat" where
  "die_done ssd t lat cl k = max (lun_avail ssd cl) t + lat * k"

lemma lun_in_get: "lun_in ssd (c, l) \<Longrightarrow>
    get_lun ssd \<lparr>g_ch = c, g_lun = l, g_pl = 0, g_blk = 0, g_pg = 0, g_sec = 0\<rparr> = Some (ch_lun (chans ssd ! c) ! l)"
  by (simp add: lun_in_def get_lun_def get_ch_def)

lemma upd_lun_frames [simp]:
  "sp (upd_lun p f ssd) = sp ssd" "zns_map_trad (upd_lun p f ssd) = zns_map_trad ssd"
  by (simp_all add: upd_lun_def Let_def)

lemma lun_in_upd [simp]: "lun_in (upd_lun p f ssd) cl = lun_in ssd cl"
  by (cases "g_ch p < length (chans ssd)") (auto simp: lun_in_def upd_lun_def Let_def nth_list_update)

lemma lun_avail_upd:
  assumes "lun_in ssd (g_ch p, g_lun p)"
  shows "lun_avail (upd_lun p (\<lambda>l. l\<lparr>next_lun_avail_time := a\<rparr>) ssd) cl =
    (if cl = (g_ch p, g_lun p) then a else lun_avail ssd cl)"
  using assms by (cases cl) (auto simp: lun_avail_def lun_in_def upd_lun_def Let_def nth_list_update)

lemma s32_id: "x < 2 ^ 31 \<Longrightarrow> s32 x = int x"
  by (simp add: s32_def)

definition op_lat :: "ssdparams \<Rightarrow> nand_op \<Rightarrow> nat" where
  "op_lat spp opn = (case opn of NAND_READ \<Rightarrow> pg_rd_lat spp | _ \<Rightarrow> pg_wr_lat spp)"

lemma advance_die_eq:
  assumes "lun_in ssd cl" and "nc_cmd ncmd = NAND_READ \<or> nc_cmd ncmd = NAND_WRITE"
    and "die_done ssd t (op_lat (sp ssd) (nc_cmd ncmd)) cl k < t + 2 ^ 31" and "t + 2 ^ 31 < 2 ^ 64" and "0 < k"
  shows "\<exists>ssd'. advance_die t bpd ncmd (cl, k) (cur, m, ssd) =
      Some (int (die_done ssd t (op_lat (sp ssd) (nc_cmd ncmd)) cl k - t),
            max (int (die_done ssd t (op_lat (sp ssd) (nc_cmd ncmd)) cl k - t)) m, ssd') \<and>
    sp ssd' = sp ssd \<and> (\<forall>x. lun_in ssd' x = lun_in ssd x) \<and>
    (\<forall>x. lun_avail ssd' x = (if x = cl then die_done ssd t (op_lat (sp ssd) (nc_cmd ncmd)) cl k else lun_avail ssd x))"
proof -
  obtain c l where cl: "cl = (c, l)" by force
  let ?D = "die_done ssd t (op_lat (sp ssd) (nc_cmd ncmd)) cl k"
  have D: "max (next_lun_avail_time (ch_lun (chans ssd ! c) ! l)) t + op_lat (sp ssd) (nc_cmd ncmd) * k = ?D"
    by (simp add: die_done_def lun_avail_def cl)
  have small: "u32 (op_lat (sp ssd) (nc_cmd ncmd) * k) = op_lat (sp ssd) (nc_cmd ncmd) * k"
    using assms(3) by (intro u32_id) (simp add: die_done_def)
  have "t \<le> ?D" by (simp add: die_done_def)
  then have lat: "s32 (sub64 (u64 ?D) t) = int (?D - t)" "u64 ?D = ?D"
    using assms(3,4) by (simp_all add: s32_id)
  show ?thesis
    using assms(2,5) lun_in_get[of ssd c l] assms(1) small D lat
    by (auto simp: advance_die_def cl Let_def op_lat_def lun_avail_upd max.commute)
qed

lemma advance_all_dies:
  assumes "distinct (map fst xs)" and "\<forall>(cl, k) \<in> set xs. lun_in ssd cl"
    and "nc_cmd ncmd = NAND_READ \<or> nc_cmd ncmd = NAND_WRITE"
    and "\<forall>(cl, k) \<in> set xs. 0 < k \<longrightarrow> die_done ssd t (op_lat (sp ssd) (nc_cmd ncmd)) cl k < t + 2 ^ 31"
    and "t + 2 ^ 31 < 2 ^ 64" and "0 \<le> m"
  shows "\<exists>cur' ssd'. foldM (advance_die t bpd ncmd) xs (cur, m, ssd) =
      Some (cur', fold max (map (\<lambda>(cl, k). int (die_done ssd t (op_lat (sp ssd) (nc_cmd ncmd)) cl k - t))
                              (filter (\<lambda>(cl, k). 0 < k) xs)) m, ssd') \<and>
    (\<forall>x. lun_avail ssd' x = (case map_of (filter (\<lambda>(cl, k). 0 < k) xs) x of
        Some k \<Rightarrow> die_done ssd t (op_lat (sp ssd) (nc_cmd ncmd)) x k | None \<Rightarrow> lun_avail ssd x))"
  using assms
proof (induction xs arbitrary: cur m ssd)
  case Nil
  then show ?case by simp
next
  case (Cons y ys)
  obtain cl k where y: "y = (cl, k)" by (cases y) blast
  show ?case
  proof (cases "k = 0")
    case True
    then have "advance_die t bpd ncmd y (cur, m, ssd) = Some (cur, m, ssd)"
      by (cases cl) (simp add: advance_die_def y)
    with Cons.IH[of ssd m cur] Cons.prems True y show ?thesis by auto
  next
    case False
    let ?L = "op_lat (sp ssd) (nc_cmd ncmd)"
    let ?d = "int (die_done ssd t ?L cl k - t)"
    obtain ssd1 where s1: "advance_die t bpd ncmd y (cur, m, ssd) = Some (?d, max ?d m, ssd1)"
      and f: "sp ssd1 = sp ssd" "\<And>x. lun_in ssd1 x = lun_in ssd x"
        "\<And>x. lun_avail ssd1 x = (if x = cl then die_done ssd t ?L cl k else lun_avail ssd x)"
      using advance_die_eq[of ssd cl ncmd t k bpd cur m] Cons.prems False y by auto
    have same: "die_done ssd1 t ?L c j = die_done ssd t ?L c j" if "(c, j) \<in> set ys" for c j
    proof -
      from that Cons.prems(1) y have "c \<noteq> cl" by force
      then show ?thesis by (simp add: die_done_def f(3))
    qed
    have d1: "distinct (map fst ys)" using Cons.prems(1) by simp
    have d2: "\<forall>(cl, k) \<in> set ys. lun_in ssd1 cl" using Cons.prems(2) f(2) by auto
    have d4: "\<forall>(cl, k) \<in> set ys. 0 < k \<longrightarrow> die_done ssd1 t (op_lat (sp ssd1) (nc_cmd ncmd)) cl k < t + 2 ^ 31"
      using Cons.prems(4) same f(1) by auto
    have d6: "0 \<le> max ?d m" by simp
    from Cons.IH[OF d1 d2 Cons.prems(3) d4 Cons.prems(5) d6, of ?d, unfolded f(1)] obtain cur' ssd' where
      r: "foldM (advance_die t bpd ncmd) ys (?d, max ?d m, ssd1) = Some (cur',
        fold max (map (\<lambda>(cl, k). int (die_done ssd1 t ?L cl k - t)) (filter (\<lambda>(cl, k). 0 < k) ys)) (max ?d m), ssd')"
      "\<forall>x. lun_avail ssd' x = (case map_of (filter (\<lambda>(cl, k). 0 < k) ys) x of
        Some k \<Rightarrow> die_done ssd1 t ?L x k | None \<Rightarrow> lun_avail ssd1 x)"
      by blast
    have eqm: "map (\<lambda>(cl, k). int (die_done ssd1 t ?L cl k - t)) (filter (\<lambda>(cl, k). 0 < k) ys) =
        map (\<lambda>(cl, k). int (die_done ssd t ?L cl k - t)) (filter (\<lambda>(cl, k). 0 < k) ys)"
      using same by (auto split: prod.splits)
    note r1 = r(1)[unfolded eqm]
    have "map_of (filter (\<lambda>(cl, k). 0 < k) ys) cl = None"
      using Cons.prems(1) y by (force simp: map_of_eq_None_iff)
    moreover have "\<And>x j. map_of (filter (\<lambda>(cl, k). 0 < k) ys) x = Some j \<Longrightarrow> die_done ssd1 t ?L x j = die_done ssd t ?L x j"
      using same by (meson filter_is_subset map_of_SomeD subsetD)
    ultimately show ?thesis
      using s1 r1 r(2) False by (auto simp: y f(3) split: option.splits)
  qed
qed

lemma para_pos: "0 < PARA_LEVEL"
  by (simp add: PARA_LEVEL_def)

lemma length_deal_pages [simp]: "length (zns_deal_pages para k temp arr) = length arr"
  by (induction k arbitrary: temp arr) simp_all

lemma deal_pages:
  assumes "temp < para" and "length arr = para" and "i < para"
  shows "zns_deal_pages para k temp arr ! i = arr ! i + card {j. j < k \<and> (temp + j) mod para = i}"
  using assms(1,2)
proof (induction k arbitrary: temp arr)
  case 0
  then show ?case by simp
next
  case (Suc k)
  define t where "t = (if Suc temp = para then 0 else Suc temp)"
  define A where "A = {j. j < k \<and> (t + j) mod para = i}"
  have t: "t < para" using Suc.prems(1) by (auto simp: t_def)
  have shift: "(t + j) mod para = (temp + Suc j) mod para" for j
  proof (cases "Suc temp = para")
    case True
    then have "temp + Suc j = para + j" by simp
    then have "(temp + Suc j) mod para = j mod para" by (simp only: mod_add_self1)
    with True show ?thesis by (simp add: t_def)
  qed (simp add: t_def)
  have "{j. j < Suc k \<and> (temp + j) mod para = i} = (if temp = i then {0} else {}) \<union> Suc ` A"
  proof (intro set_eqI)
    fix j
    show "j \<in> {j. j < Suc k \<and> (temp + j) mod para = i} \<longleftrightarrow> j \<in> (if temp = i then {0} else {}) \<union> Suc ` A"
      using Suc.prems(1) by (cases j) (simp_all add: A_def shift image_iff del: add_Suc_right)
  qed
  moreover have "finite A" "card (Suc ` A) = card A" by (simp_all add: A_def card_image)
  ultimately have "card {j. j < Suc k \<and> (temp + j) mod para = i} = (if temp = i then 1 else 0) + card A"
    by (simp add: card_insert_if)
  with Suc.IH[OF t, of "arr[temp := arr ! temp + 1]"] Suc.prems assms(3) show ?case
    by (simp add: t_def[symmetric] A_def nth_list_update)
qed

lemma fold_max_int: "fold max (map (\<lambda>x. int (f x)) xs) (int m) = int (Max (insert m (f ` set xs)))"
proof (induction xs arbitrary: m)
  case Nil
  then show ?case by simp
next
  case (Cons x xs)
  have "Max (insert (max (f x) m) (f ` set xs)) = Max (insert m (insert (f x) (f ` set xs)))"
    by (cases "set xs = {}") (auto simp: ac_simps)
  with Cons.IH[of "max (f x) m"] show ?case by (simp add: of_nat_max[symmetric] del: of_nat_max)
qed

text \<open>The pages of a request, and how many of them each die of the zone serves.\<close>

definition req_pages :: "zns_ssd \<Rightarrow> zone_info \<Rightarrow> nat set" where
  "req_pages ssd zi =
     (let t = lbas_per_pg ssd (zi_lbasz zi); p0 = zi_wp zi div t in {p0 ..< p0 + ((zi_nlb zi - 1) div t + 1)})"

definition die_share :: "zns_ssd \<Rightarrow> zone_info \<Rightarrow> nat \<Rightarrow> nat" where
  "die_share ssd zi page = card {p \<in> req_pages ssd zi. p mod PARA_LEVEL = page mod PARA_LEVEL}"

definition die_at :: "zns_ssd \<Rightarrow> nat \<Rightarrow> nat \<times> nat" where
  "die_at ssd d = (d mod nchs (sp ssd), d div nchs (sp ssd))"

lemma die_share_eq:
  assumes "t = lbas_per_pg ssd (zi_lbasz zi)" and "k = (zi_nlb zi - 1) div t + 1" and "i < PARA_LEVEL"
  shows "card {j. j < k \<and> (zi_wp zi div t mod PARA_LEVEL + j) mod PARA_LEVEL = i} = die_share ssd zi i"
proof -
  let ?p = "zi_wp zi div t"
  have "{p \<in> {?p ..< ?p + k}. p mod PARA_LEVEL = i} = (\<lambda>j. ?p + j) ` {j. j < k \<and> (?p + j) mod PARA_LEVEL = i}"
  proof (intro set_eqI)
    fix p
    show "p \<in> {p \<in> {?p ..< ?p + k}. p mod PARA_LEVEL = i} \<longleftrightarrow>
        p \<in> (\<lambda>j. ?p + j) ` {j. j < k \<and> (?p + j) mod PARA_LEVEL = i}"
      by (cases "?p \<le> p") (auto simp: image_iff le_iff_add)
  qed
  moreover have "req_pages ssd zi = {?p ..< ?p + k}" using assms(1,2) by (simp add: req_pages_def Let_def)
  ultimately show ?thesis
    using assms(3) by (simp add: die_share_def card_image mod_add_left_eq)
qed

lemma die_share_pos: "page \<in> req_pages ssd zi \<Longrightarrow> 0 < die_share ssd zi page"
  unfolding die_share_def by (subst card_gt_0_iff) (auto simp: req_pages_def Let_def)

lemma die_share_mod: "die_share ssd zi (page mod PARA_LEVEL) = die_share ssd zi page"
  by (simp add: die_share_def)

lemma share_classes: "{i. i < PARA_LEVEL \<and> 0 < die_share ssd zi i} = (\<lambda>page. page mod PARA_LEVEL) ` req_pages ssd zi"
  (is "?A = ?B")
proof
  show "?A \<subseteq> ?B"
  proof
    fix i assume "i \<in> ?A"
    then obtain page where "page \<in> req_pages ssd zi" "page mod PARA_LEVEL = i"
      by (auto simp: die_share_def card_gt_0_iff)
    then show "i \<in> ?B" by auto
  qed
  have "page mod PARA_LEVEL < PARA_LEVEL" for page by (simp add: PARA_LEVEL_def)
  then show "?B \<subseteq> ?A" using die_share_pos by (auto simp: die_share_mod)
qed

text \<open>The latency of a command whose pages have been dealt to the dies of a zone.\<close>

lemma advance_tradition_eq:
  assumes "geo_ok ssd" and "z < trad_zones ssd"
    and "nc_cmd ncmd = NAND_READ \<or> nc_cmd ncmd = NAND_WRITE"
    and "length arr = PARA_LEVEL" and "\<exists>i < PARA_LEVEL. 0 < arr ! i"
    and "t = (if nc_stime ncmd = 0 then now else nc_stime ncmd)" and "t + 2 ^ 31 < 2 ^ 64"
    and "\<forall>i < PARA_LEVEL. 0 < arr ! i \<longrightarrow>
      die_done ssd t (op_lat (sp ssd) (nc_cmd ncmd)) (die_at ssd (trad_die ssd z i)) (arr ! i) < t + 2 ^ 31"
  shows "\<exists>ssd'. zone_advance_avail_time_tradition now ssd ncmd (map (die_at ssd) (trad_dies ssd z)) arr =
    Some (int (Max ((\<lambda>i. die_done ssd t (op_lat (sp ssd) (nc_cmd ncmd)) (die_at ssd (trad_die ssd z i)) (arr ! i) - t) `
      {i. i < PARA_LEVEL \<and> 0 < arr ! i})), ssd')"
proof -
  let ?xs = "zip (map (die_at ssd) (trad_dies ssd z)) arr"
  let ?D = "\<lambda>cl k. die_done ssd t (op_lat (sp ssd) (nc_cmd ncmd)) cl k"
  have xs: "?xs = map (\<lambda>i. (die_at ssd (trad_die ssd z i), arr ! i)) [0 ..< PARA_LEVEL]"
    using assms(4) by (auto simp: trad_dies_def intro!: nth_equalityI)
  have inj: "inj_on (\<lambda>i. die_at ssd (trad_die ssd z i)) {0 ..< PARA_LEVEL}"
  proof (rule inj_onI)
    fix i j assume ij: "i \<in> {0 ..< PARA_LEVEL}" "j \<in> {0 ..< PARA_LEVEL}"
      and "die_at ssd (trad_die ssd z i) = die_at ssd (trad_die ssd z j)"
    then have "trad_die ssd z i = trad_die ssd z j" by (auto simp: die_at_def dest: div_mod_eqI)
    with ij show "i = j" by (simp add: trad_die_def)
  qed
  have d1: "distinct (map fst ?xs)" using inj by (simp add: xs comp_def distinct_map)
  have "lun_in ssd (die_at ssd (trad_die ssd z i))" for i
    using tradition.get_lun_in_shape[OF assms(1), of "trad_die ssd z i" 0 0 0 0] trad_die_bound[OF assms(1,2), of i]
      geo_ok_facts(9)[OF assms(1)]
    by (auto simp: lun_in_def die_at_def get_lun_def get_ch_def nth_opt_eq_Some bind_eq_Some_conv)
  then have d2: "\<forall>(cl, k) \<in> set ?xs. lun_in ssd cl" by (auto simp: xs)
  have d4: "\<forall>(cl, k) \<in> set ?xs. 0 < k \<longrightarrow> ?D cl k < t + 2 ^ 31" using assms(8) by (auto simp: xs)
  have bgn: "0 < block_group_num_per_die (zns_map_trad ssd)" using geo_ok_facts(1)[OF assms(1)] .
  let ?bpd = "blks_per_lun (sp ssd) div block_group_num_per_die (zns_map_trad ssd)"
  obtain cur ssd' where f: "foldM (advance_die t ?bpd ncmd) ?xs (0, 0, ssd) =
      Some (cur, fold max (map (\<lambda>(cl, k). int (?D cl k - t)) (filter (\<lambda>(cl, k). 0 < k) ?xs)) 0, ssd')"
    using advance_all_dies[OF d1 d2 assms(3) d4 assms(7), of 0 ?bpd 0] by blast
  have "map (\<lambda>(cl, k). int (?D cl k - t)) (filter (\<lambda>(cl, k). 0 < k) ?xs) =
      map (\<lambda>i. int (?D (die_at ssd (trad_die ssd z i)) (arr ! i) - t)) (filter (\<lambda>i. 0 < arr ! i) [0 ..< PARA_LEVEL])"
    by (simp add: xs filter_map comp_def)
  moreover define S where "S = (\<lambda>i. ?D (die_at ssd (trad_die ssd z i)) (arr ! i) - t) ` {i. i < PARA_LEVEL \<and> 0 < arr ! i}"
  moreover have "S \<noteq> {}" "finite S" using assms(5) by (auto simp: S_def)
  moreover have "(\<lambda>i. ?D (die_at ssd (trad_die ssd z i)) (arr ! i) - t) ` set (filter (\<lambda>i. 0 < arr ! i) [0 ..< PARA_LEVEL]) = S"
    by (auto simp: S_def)
  ultimately have "fold max (map (\<lambda>(cl, k). int (?D cl k - t)) (filter (\<lambda>(cl, k). 0 < k) ?xs)) 0 = int (Max S)"
    using fold_max_int[of "\<lambda>i. ?D (die_at ssd (trad_die ssd z i)) (arr ! i) - t" "filter (\<lambda>i. 0 < arr ! i) [0 ..< PARA_LEVEL]" 0]
    by simp
  moreover have "take PARA_LEVEL (map (die_at ssd) (trad_dies ssd z)) = map (die_at ssd) (trad_dies ssd z)"
      "take PARA_LEVEL arr = arr" "length (trad_dies ssd z) = PARA_LEVEL"
    using assms(4) by (simp_all add: trad_dies_def)
  ultimately show ?thesis
    using f bgn assms(4,6) by (auto simp: zone_advance_avail_time_tradition_def div_opt_def Let_def S_def)
qed

lemma static_read_eq:
  assumes "geo_ok ssd" and "zi_zone_idx zi < trad_zones ssd" and "0 < lbas_per_pg ssd (zi_lbasz zi)"
    and "zi_wp zi div lbas_per_pg ssd (zi_lbasz zi) < trad_zone_pages ssd"
    and "zi_wp zi + zi_nlb zi + lbas_per_pg ssd (zi_lbasz zi) < 2 ^ 64"
    and "0 < zi_nlb zi" and "zi_nlb zi < 2 ^ 32"
    and "t = (if stime req = 0 then now else stime req)" and "t + 2 ^ 31 < 2 ^ 64"
    and "\<forall>page \<in> req_pages ssd zi.
      die_done ssd t (pg_rd_lat (sp ssd)) (die_at ssd (trad_die ssd (zi_zone_idx zi) page)) (die_share ssd zi page) < t + 2 ^ 31"
  shows "\<exists>ssd'. zns_ssd_read fc sup_zns_phy_m_tradition_register now ssd req zi =
    Some (Max ((\<lambda>page. die_done ssd t (pg_rd_lat (sp ssd)) (die_at ssd (trad_die ssd (zi_zone_idx zi) page))
                          (die_share ssd zi page) - t) ` req_pages ssd zi), ssd')"
proof -
  let ?t = "lbas_per_pg ssd (zi_lbasz zi)" and ?z = "zi_zone_idx zi" and ?st = sup_zns_phy_m_tradition_register
  let ?p = "zi_wp zi div ?t" and ?P = PARA_LEVEL
  define k where "k = (zi_nlb zi - 1) div ?t + 1"
  have para: "strat_get_para_level ?st ?z = ?P"
    by (simp add: sup_zns_phy_m_tradition_register_def get_para_level_by_zone_info_tradition_def)
  have P: "?p mod ?P < ?P" by (simp add: PARA_LEVEL_def)
  have lb: "zi_lbasz zi \<noteq> 0" using assms(3) by (cases "zi_lbasz zi = 0") (simp_all add: lbas_per_pg_def)
  have "(zi_nlb zi - 1) div ?t \<le> zi_nlb zi - 1" by simp
  then have k: "u32 (sub32 (zi_nlb zi) 1 div ?t + 1) = k"
    using assms(6,7) by (subst sub32_id) (auto simp: k_def simp del: div_le_dividend intro!: u32_id)
  obtain ssd1 where r: "zns_write_pages fc False ?st zi ?t (zi_wp zi) None ssd =
      Some (Some (die_at ssd (trad_dies ssd ?z ! (?p mod ?P))), ssd1)"
    and s1: "geo_ok ssd1" "sp ssd1 = sp ssd" "chans ssd1 = chans ssd" "trad_zones ssd1 = trad_zones ssd"
      "trad_dies ssd1 ?z = trad_dies ssd ?z"
    using tradition.read_pages[OF assms(1-5), of fc] by (auto simp: para die_at_def)
  have die1: "die_at ssd1 = die_at ssd" "die_done ssd1 = die_done ssd"
    using s1(2,3) by (simp_all add: die_at_def die_done_def lun_avail_def fun_eq_iff)
  have dies1: "trad_die ssd1 ?z i = trad_die ssd ?z i" for i
    using arg_cong[OF s1(5), of "\<lambda>ds. ds ! (i mod ?P)"] mod_less_divisor[of ?P i] trad_die_mod
    by (simp add: trad_dies_nth para_pos)
  have g: "zns_lun_group ?st ?z (Some (die_at ssd (trad_dies ssd ?z ! (?p mod ?P)))) ssd1 =
      Some (map (die_at ssd) (trad_dies ssd ?z), ?p mod ?P)"
    using tradition.lun_group_found[OF s1(1), of ?z "?p mod ?P"] assms(2) s1 P
    by (simp add: para die_at_def)
  define arr where "arr = zns_deal_pages ?P k (?p mod ?P) (replicate ?P 0)"
  have arr: "length arr = ?P" "i < ?P \<Longrightarrow> arr ! i = die_share ssd zi i" for i
    using deal_pages[OF P, of "replicate ?P 0" i k] die_share_eq[of ?t ssd zi k i] k_def
    by (simp_all add: arr_def)
  have pages: "{i. i < ?P \<and> 0 < arr ! i} = (\<lambda>page. page mod ?P) ` req_pages ssd zi"
    unfolding share_classes[symmetric] using arr(2) by auto
  let ?D = "\<lambda>i. die_done ssd t (pg_rd_lat (sp ssd)) (die_at ssd (trad_die ssd ?z i)) (die_share ssd zi i)"
  let ?nc = "\<lparr>nc_cmd = NAND_READ, nc_user_io = True, nc_stime = stime req\<rparr>"
  have D_mod: "?D (page mod ?P) = ?D page" for page by (simp add: die_share_mod trad_die_mod)
  have "?p mod ?P \<in> {i. i < ?P \<and> 0 < arr ! i}" unfolding pages by (simp add: req_pages_def Let_def)
  then have pos: "\<exists>i < ?P. 0 < arr ! i" by auto
  have small: "\<forall>i < ?P. 0 < arr ! i \<longrightarrow>
      die_done ssd1 t (op_lat (sp ssd1) (nc_cmd ?nc)) (die_at ssd1 (trad_die ssd1 ?z i)) (arr ! i) < t + 2 ^ 31"
  proof (intro allI impI)
    fix i assume i: "i < ?P" "0 < arr ! i"
    then have "i \<in> (\<lambda>page. page mod ?P) ` req_pages ssd zi" using pages by auto
    then obtain page where "page \<in> req_pages ssd zi" "i = page mod ?P" by auto
    with assms(10) D_mod[of page] have "?D i < t + 2 ^ 31" by auto
    then show "die_done ssd1 t (op_lat (sp ssd1) (nc_cmd ?nc)) (die_at ssd1 (trad_die ssd1 ?z i)) (arr ! i) < t + 2 ^ 31"
      using i by (simp add: die1 dies1 s1 op_lat_def arr)
  qed
  have tt: "t = (if nc_stime ?nc = 0 then now else nc_stime ?nc)" using assms(8) by simp
  obtain ssd2 where a: "zone_advance_avail_time_tradition now ssd1 ?nc (map (die_at ssd1) (trad_dies ssd1 ?z)) arr =
    Some (int (Max ((\<lambda>i. die_done ssd1 t (op_lat (sp ssd1) (nc_cmd ?nc)) (die_at ssd1 (trad_die ssd1 ?z i)) (arr ! i) - t) `
      {i. i < ?P \<and> 0 < arr ! i})), ssd2)"
    using advance_tradition_eq[OF s1(1) _ _ arr(1) pos tt assms(9) small] assms(2) s1(4) by auto
  have "(\<lambda>i. die_done ssd1 t (op_lat (sp ssd1) (nc_cmd ?nc)) (die_at ssd1 (trad_die ssd1 ?z i)) (arr ! i) - t) ` {i. i < ?P \<and> 0 < arr ! i}
      = (\<lambda>i. ?D i - t) ` {i. i < ?P \<and> 0 < arr ! i}"
    by (intro image_cong) (simp_all add: die1 dies1 s1 op_lat_def arr)
  also have "\<dots> = (\<lambda>page. ?D page - t) ` req_pages ssd zi"
    unfolding pages image_image D_mod ..
  finally have a2: "zone_advance_avail_time_tradition now ssd1 ?nc (map (die_at ssd) (trad_dies ssd ?z)) arr =
      Some (int (Max ((\<lambda>page. ?D page - t) ` req_pages ssd zi)), ssd2)"
    using a by (simp add: die1 s1)
  define M where "M = Max ((\<lambda>page. ?D page - t) ` req_pages ssd zi)"
  have fin: "finite (req_pages ssd zi)" "req_pages ssd zi \<noteq> {}" by (auto simp: req_pages_def Let_def)
  have "M < 2 ^ 31" unfolding M_def using fin assms(10) by (subst Max_less_iff) auto
  then have M: "nat (int M mod 2 ^ 64) = M" by simp
  have a3: "zone_advance_avail_time ?st now ssd1 ?nc (map (die_at ssd) (trad_dies ssd ?z)) arr = Some (int M, ssd2)"
    using a2 by (simp add: sup_zns_phy_m_tradition_register_def M_def)
  show ?thesis
    unfolding M_def[symmetric]
    using lb assms(3) k r g a3 M
    by (simp add: zns_ssd_read_def zns_ssd_rw_def div_opt_def lbas_per_pg_def[symmetric] para arr_def Let_def)
qed

section \<open>Writes under the static mapping\<close>

definition ppa_in :: "zns_ssd \<Rightarrow> ppa \<Rightarrow> bool" where
  "ppa_in ssd p \<longleftrightarrow> g_ch p < length (chans ssd) \<and> g_lun p < length (ch_lun (chans ssd ! g_ch p)) \<and>
     g_pl p < length (lun_pl (ch_lun (chans ssd ! g_ch p) ! g_lun p)) \<and>
     g_blk p < length (pl_blk (lun_pl (ch_lun (chans ssd ! g_ch p) ! g_lun p) ! g_pl p)) \<and>
     g_pg p < length (blk_pg (pl_blk (lun_pl (ch_lun (chans ssd ! g_ch p) ! g_lun p) ! g_pl p) ! g_blk p))"

lemma valid_ppa_in:
  assumes "nand_shape ssd" and "valid_ppa ssd p"
  shows "ppa_in ssd p"
proof -
  have c: "g_ch p < length (chans ssd)" using assms by (simp add: nand_shape_def valid_ppa_def Let_def)
  then have l: "g_lun p < length (ch_lun (chans ssd ! g_ch p))"
    using assms by (simp add: nand_shape_def valid_ppa_def Let_def)
  have "\<forall>l \<in> set (ch_lun (chans ssd ! g_ch p)). lun_shape (sp ssd) l" using assms(1) c by (auto simp: nand_shape_def)
  then have sh: "lun_shape (sp ssd) (ch_lun (chans ssd ! g_ch p) ! g_lun p)" using l by simp
  then have pl: "g_pl p < length (lun_pl (ch_lun (chans ssd ! g_ch p) ! g_lun p))"
    using assms(2) by (simp add: lun_shape_def valid_ppa_def Let_def)
  have "length (pl_blk (lun_pl (ch_lun (chans ssd ! g_ch p) ! g_lun p) ! g_pl p)) = blks_per_pl (sp ssd) \<and>
      (\<forall>b \<in> set (pl_blk (lun_pl (ch_lun (chans ssd ! g_ch p) ! g_lun p) ! g_pl p)). length (blk_pg b) = pgs_per_blk (sp ssd))"
    using sh pl by (auto simp: lun_shape_def)
  with c l pl assms(2) show ?thesis by (simp add: ppa_in_def valid_ppa_def Let_def)
qed

lemma ppa_in_get:
  assumes "ppa_in ssd p"
  obtains b pg where "get_blk ssd p = Some b" "get_pg ssd p = Some pg" "g_pg p < length (blk_pg b)" "pg = blk_pg b ! g_pg p"
  using assms that by (auto simp: ppa_in_def get_pg_def get_blk_def get_pl_def get_lun_def get_ch_def)

lemma get_blk_upd_blk: "ppa_in ssd p \<Longrightarrow> get_blk (upd_blk p f ssd) p = map_option f (get_blk ssd p)"
  by (simp add: ppa_in_def upd_blk_def upd_lun_def get_blk_def get_pl_def get_lun_def get_ch_def Let_def)

lemma ppa_in_upd_blk:
  assumes "ppa_in ssd p" and "\<And>b. length (blk_pg (f b)) = length (blk_pg b)"
  shows "ppa_in (upd_blk p f ssd) p"
  using assms by (simp add: ppa_in_def upd_blk_def upd_lun_def Let_def)

lemma upd_blk_frames [simp]:
  "sp (upd_blk p f ssd) = sp ssd" "zns_map_trad (upd_blk p f ssd) = zns_map_trad ssd"
  by (simp_all add: upd_blk_def)

text \<open>Marking a page: the second time the same page is marked, the assertion of the source fails;
  where \<open>ftl_assert\<close> is compiled out, the count of valid pages of the block moves without a page
  becoming valid.\<close>

lemma mark_page_eq:
  assumes "ppa_in ssd p" and "zns_mark_page_valid fc p ssd = Some ssd'" and "get_blk ssd p = Some b" and "get_pg ssd p = Some pg"
  shows "get_blk ssd' p = Some (b\<lparr>blk_pg := (blk_pg b)[g_pg p := pg\<lparr>pg_st := PG_VALID\<rparr>], vpc := vpc b + 1\<rparr>)"
    and "get_pg ssd' p = Some (pg\<lparr>pg_st := PG_VALID\<rparr>)"
    and "sp ssd' = sp ssd" and "zns_map_trad ssd' = zns_map_trad ssd"
proof -
  let ?s = "upd_blk p (\<lambda>b. b\<lparr>blk_pg := (blk_pg b)[g_pg p := pg\<lparr>pg_st := PG_VALID\<rparr>]\<rparr>) ssd"
  have s': "ssd' = upd_blk p (\<lambda>b. b\<lparr>vpc := vpc b + 1\<rparr>) ?s"
    using assms(2,4) by (auto simp: zns_mark_page_valid_def Let_def bind_eq_Some_conv)
  have "ppa_in ?s p" by (rule ppa_in_upd_blk[OF assms(1)]) simp
  then show b': "get_blk ssd' p = Some (b\<lparr>blk_pg := (blk_pg b)[g_pg p := pg\<lparr>pg_st := PG_VALID\<rparr>], vpc := vpc b + 1\<rparr>)"
    using assms(1,3) by (simp add: s' get_blk_upd_blk)
  have "g_pg p < length (blk_pg b)" using assms(3,4) by (simp add: get_pg_def nth_opt_eq_Some)
  with b' show "get_pg ssd' p = Some (pg\<lparr>pg_st := PG_VALID\<rparr>)" by (simp add: get_pg_def)
  show "sp ssd' = sp ssd" "zns_map_trad ssd' = zns_map_trad ssd" by (simp_all add: s')
qed

lemma mark_page_twice:
  assumes "ppa_in ssd p" and "ftl_assert_on fc" and "zns_mark_page_valid fc p ssd = Some ssd'"
    and "get_pg ssd'' p = get_pg ssd' p"
  shows "zns_mark_page_valid fc p ssd'' = None"
proof -
  obtain b pg where "get_blk ssd p = Some b" "get_pg ssd p = Some pg" by (rule ppa_in_get[OF assms(1)])
  from mark_page_eq(2)[OF assms(1,3) this] assms(2,4) show ?thesis by (simp add: zns_mark_page_valid_def)
qed

lemma static_write_aborts:
  assumes "geo_ok ssd" and "zi_zone_idx zi < trad_zones ssd" and "0 < lbas_per_pg ssd (zi_lbasz zi)"
    and "zi_wp zi div lbas_per_pg ssd (zi_lbasz zi) < trad_zone_pages ssd"
    and "zi_wp zi + zi_nlb zi < 2 ^ 64" and "lbas_per_pg ssd (zi_lbasz zi) \<le> zi_nlb zi" and "ftl_assert_on fc"
  shows "zns_ssd_write fc sup_zns_phy_m_tradition_register now ssd req zi = None"
proof -
  let ?t = "lbas_per_pg ssd (zi_lbasz zi)" and ?z = "zi_zone_idx zi" and ?st = sup_zns_phy_m_tradition_register
  let ?get = "\<lambda>ssd. get_ppa_by_zone_info_tradition ssd ?z (zi_wp zi) (zi_lbasz zi)"
  obtain p g where p: "?get ssd = Some (p, ssd\<lparr>zns_map_trad := (zns_map_trad ssd)\<lparr>trad_die_group := g\<rparr>\<rparr>)" "valid_ppa ssd p"
    using get_ppa_tradition_valid[OF assms(1,2,4,3)] by blast
  let ?s = "ssd\<lparr>zns_map_trad := (zns_map_trad ssd)\<lparr>trad_die_group := g\<rparr>\<rparr>"
  have pin: "ppa_in ?s p"
    by (rule valid_ppa_in) (use geo_ok_facts(14)[OF assms(1)] p(2) in \<open>simp_all add: nand_shape_def valid_ppa_def\<close>)
  have u: "u64 (zi_wp zi + ?t) = zi_wp zi + ?t" "u64 (zi_wp zi + zi_nlb zi) = zi_wp zi + zi_nlb zi"
    using assms(5,6) by simp_all
  have fst: "get_ppa_by_zone_info ?st = get_ppa_by_zone_info_tradition"
    by (simp add: sup_zns_phy_m_tradition_register_def)
  have second: "zns_write_pages fc True ?st zi ?t (zi_wp zi + ?t) fl ssd1 = None"
    if m: "zns_mark_page_valid fc p ?s = Some ssd1" for fl ssd1
  proof -
    obtain b pg where bp: "get_blk ?s p = Some b" "get_pg ?s p = Some pg" by (rule ppa_in_get[OF pin])
    obtain g' where same: "?get ssd1 = Some (p, ssd1\<lparr>zns_map_trad := (zns_map_trad ssd1)\<lparr>trad_die_group := g'\<rparr>\<rparr>)"
      using p(1) mark_page_eq(3,4)[OF pin m bp]
      by (auto simp: get_ppa_by_zone_info_tradition_def Let_def bind_eq_Some_conv)
    have "zns_mark_page_valid fc p (ssd1\<lparr>zns_map_trad := (zns_map_trad ssd1)\<lparr>trad_die_group := g'\<rparr>\<rparr>) = None"
      by (rule mark_page_twice[OF pin assms(7) m]) (simp add: get_pg_def get_blk_def get_pl_def get_lun_def get_ch_def)
    with same assms(3,6) u show ?thesis by (subst zns_write_pages.simps) (simp add: fst)
  qed
  have "zns_write_pages fc True ?st zi ?t (zi_wp zi) None ssd = None"
    using p(1) u second by (subst zns_write_pages.simps) (auto simp: fst Let_def split: Option.bind_splits)
  then show ?thesis
    by (simp add: zns_ssd_write_def zns_ssd_rw_def div_opt_def lbas_per_pg_def[symmetric] Let_def split: Option.bind_splits)
qed

section \<open>The initial device\<close>

definition fresh_ssd :: "ftl_consts \<Rightarrow> zns_ssd" where
  "fresh_ssd fc = (zns_ssd_init_internal_structure fc zns_ssd_zero)
     \<lparr>zns_map_trad := \<lparr>trad_die_group = replicate PARA_LEVEL 0, block_group_num_per_die = 64\<rparr>\<rparr>"

lemma fresh_ssd_sp: "sp (fresh_ssd fc) = zns_ssd_init_params fc"
  by (simp add: fresh_ssd_def zns_ssd_init_internal_structure_def Let_def)

lemma nand_shape_fresh: "nand_shape (fresh_ssd fc)"
  by (auto simp: nand_shape_def lun_shape_def fresh_ssd_def zns_ssd_init_internal_structure_def zns_ssd_init_ch_def
      zns_ssd_init_nand_lun_def zns_ssd_init_nand_plane_def zns_ssd_init_nand_blk_def Let_def)

lemma geo_ok_fresh: "geo_ok (fresh_ssd fc)"
  using nand_shape_fresh[of fc]
  by (simp add: geo_ok_def trad_zone_pages_def blks_per_blkg_def fresh_ssd_sp Let_def PARA_LEVEL_def)
     (simp add: fresh_ssd_def zns_ssd_init_params_def Let_def)

lemma fresh_ssd_sizes: "trad_zones (fresh_ssd fc) = 256" "trad_zone_pages (fresh_ssd fc) = 32768"
  by (simp_all add: trad_zones_def trad_zone_pages_def blks_per_blkg_def fresh_ssd_sp PARA_LEVEL_def)
     (simp_all add: fresh_ssd_def zns_ssd_init_params_def Let_def)

lemma fresh_ssd_lbas: "lbas_per_pg (fresh_ssd fc) 512 = 8"
  by (simp add: lbas_per_pg_def fresh_ssd_sp) (simp add: zns_ssd_init_params_def Let_def)

lemma fresh_ssd_avail: "c < 8 \<Longrightarrow> l < 8 \<Longrightarrow> lun_avail (fresh_ssd fc) (c, l) = 0"
  by (simp add: lun_avail_def fresh_ssd_def zns_ssd_init_internal_structure_def zns_ssd_init_ch_def
      zns_ssd_init_params_def zns_ssd_init_nand_lun_def Let_def)

definition ex_fc :: "bool \<Rightarrow> ftl_consts" where
  "ex_fc on = \<lparr>NAND_READ_LATENCY = 40000, NAND_PROG_LATENCY = 200000, NAND_ERASE_LATENCY = 2000000, ftl_assert_on = on\<rparr>"

definition ex_zi :: "nat \<Rightarrow> nat \<Rightarrow> nat \<Rightarrow> zone_info" where
  "ex_zi z wp nlb = \<lparr>zi_zone_idx = z, zi_wp = wp, zi_lbasz = 512, zi_nlb = nlb\<rparr>"

definition ex_ftl_req :: "NvmeRequest \<Rightarrow> nat \<Rightarrow> FtlRequest" where
  "ex_ftl_req r t = NvmeRequest.extend r \<lparr>stime = t, expire_time = t, reqlat = 0\<rparr>"

lemma ex_zi_fields:
  "zi_zone_idx (ex_zi z wp nlb) = z" "zi_wp (ex_zi z wp nlb) = wp" "zi_lbasz (ex_zi z wp nlb) = 512" "zi_nlb (ex_zi z wp nlb) = nlb"
  by (simp_all add: ex_zi_def)

section \<open>Properties\<close>

text \<open>C24: the static mapping places every page of every zone the device has room for at a valid flash
  address, and the zone and the page can be recovered from the address: no two pages, of one zone
  or of two, share a flash page.\<close>

theorem static_mapping_roundtrip:
  assumes "geo_ok ssd" and "z < trad_zones ssd" and "0 < lbas_per_pg ssd lbasz"
    and "wp div lbas_per_pg ssd lbasz < trad_zone_pages ssd"
  shows "\<exists>p ssd'. get_ppa_by_zone_info sup_zns_phy_m_tradition_register ssd z wp lbasz = Some (p, ssd') \<and>
    valid_ppa ssd p \<and> geo_ok ssd' \<and> zone_page_of ssd p = (z, wp div lbas_per_pg ssd lbasz)"
  using get_ppa_tradition_valid[OF assms(1,2,4,3)] assms(1)
  by (auto simp: sup_zns_phy_m_tradition_register_def)

theorem static_mapping_roundtrip_witness:
  "\<exists>p ssd'. get_ppa_by_zone_info sup_zns_phy_m_tradition_register (fresh_ssd (ex_fc False)) 255 262143 512 = Some (p, ssd') \<and>
    zone_page_of (fresh_ssd (ex_fc False)) p = (255, 32767)"
  using static_mapping_roundtrip[OF geo_ok_fresh[of "ex_fc False"], of 255 512 262143]
  by (auto simp: fresh_ssd_sizes fresh_ssd_lbas)

text \<open>C25: initialising the device under the name of the traditional mapping selects that strategy and
  gives a geometry on which it is well defined; with the default zone size there are 256 zones,
  each with exactly the pages that hold its bytes.\<close>

theorem ssd_init_geometry:
  assumes "zone_size_bs n = NVME_DEFAULT_ZONE_SIZE"
  shows "\<exists>ssd. zns_ssd_init fc MAP_TRADITION_NAME n = Some (ssd, sup_zns_phy_m_tradition_register) \<and> geo_ok ssd \<and>
    trad_zones ssd = 256 \<and> trad_zone_pages ssd * (secs_per_pg (sp ssd) * secsz (sp ssd)) = zone_size_bs n"
proof -
  have "zns_ssd_init fc MAP_TRADITION_NAME n =
      Some ((fresh_ssd fc)\<lparr>sm_pl_sz := 0, df_addr_type_sz := 0, pl_sz := 0, sum_serv_time_us := 0\<rparr>, sup_zns_phy_m_tradition_register)"
    using assms
    by (simp add: zns_ssd_init_def sup_zns_phy_m_strategy_select_def fresh_ssd_def phy_zone_mapping_init_tradition_def
        sup_zns_phy_m_tradition_register_def div_opt_def Let_def zns_ssd_init_internal_structure_def PARA_LEVEL_def)
       (simp add: zns_ssd_init_params_def Let_def NVME_DEFAULT_ZONE_SIZE_def)
  moreover have "geo_ok (s\<lparr>sm_pl_sz := a, df_addr_type_sz := b, pl_sz := c, sum_serv_time_us := d\<rparr>) = geo_ok s"
      "trad_zones (s\<lparr>sm_pl_sz := a, df_addr_type_sz := b, pl_sz := c, sum_serv_time_us := d\<rparr>) = trad_zones s"
      "trad_zone_pages (s\<lparr>sm_pl_sz := a, df_addr_type_sz := b, pl_sz := c, sum_serv_time_us := d\<rparr>) = trad_zone_pages s" for s a b c d
    by (simp_all add: geo_ok_def nand_shape_def trad_zones_def trad_zone_pages_def blks_per_blkg_def)
  ultimately show ?thesis
    using assms geo_ok_fresh[of fc]
    by (simp add: fresh_ssd_sizes fresh_ssd_sp) (simp add: zns_ssd_init_params_def Let_def NVME_DEFAULT_ZONE_SIZE_def)
qed

theorem ssd_init_geometry_witness:
  "\<exists>ssd. zns_ssd_init (ex_fc False) MAP_TRADITION_NAME (ex_ctrl\<lparr>zone_size_bs := NVME_DEFAULT_ZONE_SIZE\<rparr>) =
     Some (ssd, sup_zns_phy_m_tradition_register) \<and> trad_zones ssd = 256"
  using ssd_init_geometry[of "ex_ctrl\<lparr>zone_size_bs := NVME_DEFAULT_ZONE_SIZE\<rparr>" "ex_fc False"] by auto

text \<open>C26: the latency of a read is the time its slowest die takes: every die of the zone serves its
  share of the pages of the request one after the other, starting when it is free. (Latencies of
  two seconds and more do not fit the integer they are computed in.)\<close>

theorem static_read_latency:
  assumes "geo_ok ssd" and "zi_zone_idx zi < trad_zones ssd" and "0 < lbas_per_pg ssd (zi_lbasz zi)"
    and "zi_wp zi div lbas_per_pg ssd (zi_lbasz zi) < trad_zone_pages ssd"
    and "zi_wp zi + zi_nlb zi + lbas_per_pg ssd (zi_lbasz zi) < 2 ^ 64"
    and "0 < zi_nlb zi" and "zi_nlb zi < 2 ^ 32"
    and "t = (if stime req = 0 then now else stime req)" and "t + 2 ^ 31 < 2 ^ 64"
    and "\<forall>page \<in> req_pages ssd zi.
      die_done ssd t (pg_rd_lat (sp ssd)) (die_at ssd (trad_die ssd (zi_zone_idx zi) page)) (die_share ssd zi page) < t + 2 ^ 31"
  shows "\<exists>ssd'. zns_ssd_read fc sup_zns_phy_m_tradition_register now ssd req zi =
    Some (Max ((\<lambda>page. die_done ssd t (pg_rd_lat (sp ssd)) (die_at ssd (trad_die ssd (zi_zone_idx zi) page))
                          (die_share ssd zi page) - t) ` req_pages ssd zi), ssd')"
  using static_read_eq[OF assms] .

theorem static_read_latency_witness:
  "\<exists>ssd'. zns_ssd_read (ex_fc False) sup_zns_phy_m_tradition_register 0 (fresh_ssd (ex_fc False))
     (ex_ftl_req (ex_req NVME_CMD_READ 0 7 0) 1000) (ex_zi 3 0 8) = Some (40000, ssd')"
proof -
  let ?s = "fresh_ssd (ex_fc False)" and ?r = "ex_ftl_req (ex_req NVME_CMD_READ 0 7 0) 1000"
  have pages: "req_pages ?s (ex_zi 3 0 8) = {0}" by (auto simp: req_pages_def Let_def fresh_ssd_lbas ex_zi_def)
  have share: "die_share ?s (ex_zi 3 0 8) 0 = 1" by (simp add: die_share_def pages Collect_conv_if)
  have dn: "die_done ?s 1000 (pg_rd_lat (sp ?s)) (die_at ?s (trad_die ?s 3 0)) 1 = 41000"
    by (simp add: die_done_def die_at_def trad_die_def fresh_ssd_sp fresh_ssd_avail PARA_LEVEL_def)
       (simp add: fresh_ssd_def fresh_ssd_avail zns_ssd_init_params_def Let_def ex_fc_def fresh_ssd_avail[unfolded fresh_ssd_def])
  have t: "stime ?r = 1000" by (simp add: ex_ftl_req_def NvmeRequest.extend_def)
  show ?thesis
    using static_read_latency[OF geo_ok_fresh[of "ex_fc False"], of "ex_zi 3 0 8" 1000 ?r 0 "ex_fc False"] share dn
    by (simp add: pages t fresh_ssd_sizes fresh_ssd_lbas ex_zi_fields)
qed

text \<open>C27: the loop of a write computes every address from the start of the request instead of its
  loop variable: where \<open>ftl_assert\<close> is active, every write of a page or more marks its first page
  twice and aborts.\<close>

theorem static_write_marks_page_twice:
  assumes "geo_ok ssd" and "zi_zone_idx zi < trad_zones ssd" and "0 < lbas_per_pg ssd (zi_lbasz zi)"
    and "zi_wp zi div lbas_per_pg ssd (zi_lbasz zi) < trad_zone_pages ssd"
    and "zi_wp zi + zi_nlb zi < 2 ^ 64" and "lbas_per_pg ssd (zi_lbasz zi) \<le> zi_nlb zi" and "ftl_assert_on fc"
  shows "zns_ssd_write fc sup_zns_phy_m_tradition_register now ssd req zi = None"
  using static_write_aborts[OF assms] .

theorem static_write_marks_page_twice_witness:
  "zns_ssd_write (ex_fc True) sup_zns_phy_m_tradition_register 0 (fresh_ssd (ex_fc True))
     (ex_ftl_req (ex_req NVME_CMD_WRITE 0 7 0) 1000) (ex_zi 3 0 8) = None"
  using static_write_marks_page_twice[OF geo_ok_fresh[of "ex_fc True"], of "ex_zi 3 0 8" "ex_fc True"]
  by (simp add: fresh_ssd_sizes fresh_ssd_lbas ex_zi_def ex_fc_def)

end
