(* ===== verification/DynMap.thy ===== *)
theory DynMap
  imports SsdMap
begin

text \<open>
  The dynamic mapping of zones to groups of dies (\<open>src/zns/fairness/fairness.c\<close>): the groups and
  their flash block groups (FBG), their allocation (\<open>alloc_fbg\<close>), opening and closing a zone, and
  the translation of an offset in a zone to a flash address (\<open>get_ppa_by_lba_base\<close>, with
  \<open>PARA_ZNS\<close> as \<open>fairness.h\<close> defines it).

  The operations return \<open>None\<close> for a failed assertion, an access outside an array and a loop that
  does not end.
\<close>

section \<open>Initialisation\<close>

definition die_group_init :: "nat \<Rightarrow> nat \<Rightarrow> die_group" where
  "die_group_init fbgs i =
     \<lparr>die = map (\<lambda>j. i * ZONE_MAX_DIE_PARA + j) [0 ..< ZONE_MAX_DIE_PARA],
      fbgs_used_bitmap = replicate fbgs 0, fbgs_parts_sum = replicate fbgs 0x01010101,
      remain_fbgs_num = fbgs, next_fbg_id = 0, part_map_flag = 0,
      fbg_parts = \<lparr>fp_fbg_id = 0, fp_part_sum = 0, fp_next_part = 0\<rparr>\<rparr>"

definition zns_dynamic_mapping_init :: "FemuCtrl \<Rightarrow> zns_ssd \<Rightarrow> zns_ssd" where
  "zns_dynamic_mapping_init n ssd =
     (let spp = sp ssd;
          groups = tt_luns spp div ZONE_MAX_DIE_PARA
      in ssd\<lparr>dymap :=
           \<lparr>opened_zones = replicate MAXOPENZONES 0, opened_zones_num = 0,
            open_zone_limit = INITIAL_OPEN_LIMIT, die_group_sum = groups,
            dgroups = map (die_group_init (blks_per_pl spp)) [0 ..< groups],
            die_group_used_bitmap = replicate groups 0, fbgs_per_dg = blks_per_pl spp,
            phy_zones = replicate (num_zones n)
              \<lparr>map_die_group_num = 0, die_groups = replicate 8 0, fbg_ofst = 0, fbg_part = 0\<rparr>,
            st_stage_flag = 1, last_opened_zones_num = 0\<rparr>\<rparr>)"

section \<open>Allocation of a flash block group\<close>

text \<open>The scan for a free FBG, round robin from \<open>next_fbg_id\<close>: it does not return when there is none.\<close>

partial_function (option) fbg_search :: "nat list \<Rightarrow> nat \<Rightarrow> nat \<Rightarrow> nat option" where
  "fbg_search bitmap fbgs i =
     (case nth_opt bitmap i of
        None \<Rightarrow> None
      | Some used \<Rightarrow> if used > 0 then fbg_search bitmap fbgs (if Suc i = fbgs then 0 else Suc i) else Some i)"

definition wrap_next :: "nat \<Rightarrow> nat \<Rightarrow> nat" where
  "wrap_next fbgs i = (if Suc i = fbgs then 0 else Suc i)"

definition upd_group :: "nat \<Rightarrow> (die_group \<Rightarrow> die_group) \<Rightarrow> zns_dynamic_mapping \<Rightarrow> zns_dynamic_mapping option" where
  "upd_group i f d = do { gs \<leftarrow> upd_opt (dgroups d) i f; Some (d\<lparr>dgroups := gs\<rparr>) }"

text \<open>One more zone uses FBG \<open>o\<close> of group \<open>i\<close>.\<close>

definition use_fbg :: "nat \<Rightarrow> nat \<Rightarrow> zns_dynamic_mapping \<Rightarrow> zns_dynamic_mapping option" where
  "use_fbg ofst i d = do {
     dg \<leftarrow> nth_opt (dgroups d) i;
     bm \<leftarrow> upd_opt (fbgs_used_bitmap dg) ofst Suc;
     upd_group i (\<lambda>g. g\<lparr>fbgs_used_bitmap := bm\<rparr>) d
   }"

text \<open>The branch for a whole FBG.\<close>

definition alloc_fbg_full :: "nat \<Rightarrow> zns_dynamic_mapping \<Rightarrow> (nat \<times> zns_dynamic_mapping) option" where
  "alloc_fbg_full dg_idx d = do {
     dg \<leftarrow> nth_opt (dgroups d) dg_idx;
     assert_c (remain_fbgs_num dg > 0);
     ofst \<leftarrow> fbg_search (fbgs_used_bitmap dg) (fbgs_per_dg d) (next_fbg_id dg);
     d \<leftarrow> use_fbg ofst dg_idx d;
     let nxt = wrap_next (fbgs_per_dg d) ofst;
     assert_c (nxt < fbgs_per_dg d);
     d \<leftarrow> upd_group dg_idx (\<lambda>g. g\<lparr>remain_fbgs_num := remain_fbgs_num g - 1, next_fbg_id := nxt\<rparr>) d;
     Some (ofst, d)
   }"

text \<open>The branch for a part of an FBG that spans several groups: the next part of the FBG that is
  being divided, or the first part of a new one, at the largest \<open>next_fbg_id\<close> of the groups.\<close>

definition alloc_fbg_next_part ::
  "nat \<Rightarrow> nat \<Rightarrow> zns_dynamic_mapping \<Rightarrow> (nat \<times> nat \<times> zns_dynamic_mapping) option" where
  "alloc_fbg_next_part fbg_type dg_idx d = do {
     dg \<leftarrow> nth_opt (dgroups d) dg_idx;
     let part = fp_next_part (fbg_parts dg);
     assert_c (fp_part_sum (fbg_parts dg) = fbg_type \<and> part > 0);
     let ofst = fp_fbg_id (fbg_parts dg);
     d \<leftarrow> foldM (use_fbg ofst) [dg_idx ..< dg_idx + fbg_type] d;
     d \<leftarrow> upd_group dg_idx (\<lambda>g. g\<lparr>fbg_parts := (fbg_parts g)\<lparr>fp_next_part := part + 1\<rparr>,
                                   part_map_flag := (if part + 1 = fbg_type then 0 else part_map_flag g)\<rparr>) d;
     Some (ofst, part, d)
   }"

definition take_fbg :: "nat \<Rightarrow> nat \<Rightarrow> zns_dynamic_mapping \<Rightarrow> zns_dynamic_mapping option" where
  "take_fbg ofst i d = do {
     d \<leftarrow> use_fbg ofst i d;
     dg \<leftarrow> nth_opt (dgroups d) i;
     let nxt = wrap_next (fbgs_per_dg d) (next_fbg_id dg);
     assert_c (nxt < fbgs_per_dg d);
     upd_group i (\<lambda>g. g\<lparr>next_fbg_id := nxt, remain_fbgs_num := sub32 (remain_fbgs_num g) 1\<rparr>) d
   }"

definition alloc_fbg_first_part ::
  "nat \<Rightarrow> nat \<Rightarrow> zns_dynamic_mapping \<Rightarrow> (nat \<times> nat \<times> zns_dynamic_mapping) option" where
  "alloc_fbg_first_part fbg_type dg_idx d = do {
     nexts \<leftarrow> those (map (\<lambda>i. do { assert_c (i < die_group_sum d); dg \<leftarrow> nth_opt (dgroups d) i; Some (next_fbg_id dg) })
                 [dg_idx ..< dg_idx + fbg_type]);
     let max_next_fbg = fold max nexts 0;
     d \<leftarrow> foldM (take_fbg max_next_fbg) [dg_idx ..< dg_idx + fbg_type] d;
     d \<leftarrow> upd_group dg_idx (\<lambda>g. g\<lparr>part_map_flag := 1,
            fbg_parts := \<lparr>fp_fbg_id = max_next_fbg, fp_part_sum = fbg_type, fp_next_part = 1\<rparr>\<rparr>) d;
     Some (max_next_fbg, 0, d)
   }"

text \<open>The result is the offset and the part; a whole FBG leaves the part of the caller at zero.\<close>

definition alloc_fbg :: "nat \<Rightarrow> nat \<Rightarrow> zns_dynamic_mapping \<Rightarrow> (nat \<times> nat \<times> zns_dynamic_mapping) option" where
  "alloc_fbg fbg_type dg_idx d =
     (if fbg_type = 1 then do { (ofst, d) \<leftarrow> alloc_fbg_full dg_idx d; Some (ofst, 0, d) }
      else do {
        dg \<leftarrow> nth_opt (dgroups d) dg_idx;
        if part_map_flag dg = 1 then alloc_fbg_next_part fbg_type dg_idx d
        else alloc_fbg_first_part fbg_type dg_idx d
      })"

section \<open>Opening and closing zones\<close>

text \<open>Whether the zone is among the zones opened before, in the order of the loop.\<close>

fun scan_opened :: "nat list \<Rightarrow> nat \<Rightarrow> nat list \<Rightarrow> bool option" where
  "scan_opened zs zone [] = Some False"
| "scan_opened zs zone (i # is) = do {
     z \<leftarrow> nth_opt zs i;
     if z = zone then Some True else scan_opened zs zone is }"

text \<open>The least used group among the candidates: the first with a count below all before it, and 100
  when there is none below 100.\<close>

fun min_group :: "nat list \<Rightarrow> nat list \<Rightarrow> nat \<times> nat \<Rightarrow> (nat \<times> nat) option" where
  "min_group bitmap [] (min_used, min_idx) = Some (min_used, min_idx)"
| "min_group bitmap (i # is) (min_used, min_idx) = do {
     u \<leftarrow> nth_opt bitmap i;
     min_group bitmap is (if u < min_used then (u, i) else (min_used, min_idx)) }"

definition use_group :: "nat \<Rightarrow> zns_dynamic_mapping \<Rightarrow> zns_dynamic_mapping option" where
  "use_group g d = do { bm \<leftarrow> upd_opt (die_group_used_bitmap d) g Suc; Some (d\<lparr>die_group_used_bitmap := bm\<rparr>) }"

definition upd_phy :: "nat \<Rightarrow> (phy_zone \<Rightarrow> phy_zone) \<Rightarrow> zns_dynamic_mapping \<Rightarrow> zns_dynamic_mapping option" where
  "upd_phy z f d = do { ps \<leftarrow> upd_opt (phy_zones d) z f; Some (d\<lparr>phy_zones := ps\<rparr>) }"

text \<open>The recording of the zone and the number of zones the device is shared among.\<close>

definition record_open :: "nat \<Rightarrow> zns_dynamic_mapping \<Rightarrow> (nat \<times> zns_dynamic_mapping) option" where
  "record_open zone d = do {
     zs \<leftarrow> upd_opt (opened_zones d) (opened_zones_num d) (\<lambda>_. zone);
     let d = d\<lparr>opened_zones := zs, opened_zones_num := opened_zones_num d + 1\<rparr>;
     if st_stage_flag d \<noteq> 0 then do {
       assert_c (opened_zones_num d \<le> open_zone_limit d);
       Some (open_zone_limit d,
             if opened_zones_num d = open_zone_limit d then d\<lparr>st_stage_flag := 0\<rparr> else d)
     } else Some (if opened_zones_num d \<le> 2 then opened_zones_num d else die_group_sum d, d)
   }"

definition open_on_groups :: "nat \<Rightarrow> zns_dynamic_mapping \<Rightarrow> zns_dynamic_mapping option" where
  "open_on_groups zone d = do {
     k \<leftarrow> div_opt (die_group_sum d) (open_zone_limit d);
     assert_c (0 < k);
     (_, min_idx) \<leftarrow> min_group (die_group_used_bitmap d) (filter (\<lambda>i. i mod k = 0) [0 ..< die_group_sum d]) (100, 0);
     phy \<leftarrow> nth_opt (phy_zones d) zone;
     assert_c (k \<le> length (die_groups phy));
     let groups = map (\<lambda>i. min_idx + i) [0 ..< k];
     d \<leftarrow> upd_phy zone (\<lambda>p. p\<lparr>map_die_group_num := k, die_groups := groups @ drop k (die_groups p)\<rparr>) d;
     d \<leftarrow> foldM use_group groups d;
     (ofst, part, d) \<leftarrow> alloc_fbg k min_idx d;
     upd_phy zone (\<lambda>p. p\<lparr>fbg_ofst := ofst, fbg_part := part\<rparr>) d
   }"

text \<open>The array of the groups with a free FBG has four elements.\<close>

definition open_on_one_group :: "nat \<Rightarrow> zns_dynamic_mapping \<Rightarrow> zns_dynamic_mapping option" where
  "open_on_one_group zone d = do {
     dgs \<leftarrow> those (map (nth_opt (dgroups d)) [0 ..< die_group_sum d]);
     let avail_dg = filter (\<lambda>i. remain_fbgs_num (dgs ! i) > 0) [0 ..< die_group_sum d];
     assert_c (length avail_dg \<le> 4);
     (min_used, min_idx) \<leftarrow> min_group (die_group_used_bitmap d) avail_dg (100, 0);
     assert_c (min_used \<noteq> 100);
     d \<leftarrow> upd_phy zone (\<lambda>p. p\<lparr>map_die_group_num := 1, die_groups := (die_groups p)[0 := min_idx]\<rparr>) d;
     d \<leftarrow> use_group min_idx d;
     (ofst, _, d) \<leftarrow> alloc_fbg 1 min_idx d;
     upd_phy zone (\<lambda>p. p\<lparr>fbg_ofst := ofst, fbg_part := 0\<rparr>) d
   }"

definition zone_open :: "FemuCtrl \<Rightarrow> nat \<Rightarrow> zns_dynamic_mapping \<Rightarrow> zns_dynamic_mapping option" where
  "zone_open n zone d = do {
     assert_c (zone < num_zones n);
     before \<leftarrow> scan_opened (opened_zones d) zone [0 ..< last_opened_zones_num d];
     if before then Some d
     else do {
       (map_zone_num, d) \<leftarrow> record_open zone d;
       if map_zone_num < die_group_sum d then open_on_groups zone d else open_on_one_group zone d
     }
   }"

definition release_group :: "nat \<Rightarrow> zns_dynamic_mapping \<Rightarrow> zns_dynamic_mapping option" where
  "release_group g d = do {
     u \<leftarrow> nth_opt (die_group_used_bitmap d) g;
     assert_c (u > 0);
     Some (d\<lparr>die_group_used_bitmap := (die_group_used_bitmap d)[g := u - 1]\<rparr>) }"

definition zone_close :: "FemuCtrl \<Rightarrow> nat \<Rightarrow> zns_dynamic_mapping \<Rightarrow> zns_dynamic_mapping option" where
  "zone_close n zone d = do {
     assert_c (zone < num_zones n);
     phy \<leftarrow> nth_opt (phy_zones d) zone;
     opened \<leftarrow> those (map (nth_opt (opened_zones d)) [0 ..< opened_zones_num d]);
     if zone \<in> set opened then do {
       groups \<leftarrow> those (map (nth_opt (die_groups phy)) [0 ..< map_die_group_num phy]);
       d \<leftarrow> foldM release_group groups d;
       let temp = filter (\<lambda>z. z \<noteq> zone) opened;
       let num = opened_zones_num d - 1;
       assert_c (num = length temp);
       Some (d\<lparr>opened_zones_num := num, opened_zones := temp @ drop num (opened_zones d)\<rparr>)
     } else Some d
   }"

definition reset_open_infos :: "zns_dynamic_mapping \<Rightarrow> zns_dynamic_mapping option" where
  "reset_open_infos d = do {
     let k = opened_zones_num d;
     let d = d\<lparr>st_stage_flag := 1\<rparr>;
     d \<leftarrow> (if k = 4 then Some (d\<lparr>last_opened_zones_num := k, open_zone_limit := 2\<rparr>)
           else if k = 2 \<or> k = 1 then Some (d\<lparr>last_opened_zones_num := k, open_zone_limit := 8\<rparr>)
           else if k = 8 then Some (d\<lparr>last_opened_zones_num := k, open_zone_limit := 4\<rparr>)
           else if k = 0 then Some d
           else None);
     Some (d\<lparr>opened_zones_num := 0\<rparr>)
   }"

section \<open>Translation of addresses\<close>

definition get_ppa_by_lba_base :: "zns_ssd \<Rightarrow> nat \<Rightarrow> nat \<Rightarrow> ppa option" where
  "get_ppa_by_lba_base ssd zone wp = do {
     let spp = sp ssd;
     let d = dymap ssd;
     phy \<leftarrow> nth_opt (phy_zones d) zone;
     let k = map_die_group_num phy;
     assert_c (k > 0);
     page \<leftarrow> div_opt wp (secs_per_pg spp);
     let page_ofst_in_zone = u32 page;
     let die_ofst_in_zone = page_ofst_in_zone mod (k * ZONE_MAX_DIE_PARA);
     let page_ofst_in_dg = page_ofst_in_zone div (k * ZONE_MAX_DIE_PARA);
     let dg_ofst_in_zone = die_ofst_in_zone div ZONE_MAX_DIE_PARA;
     let die_ofst_in_dg = die_ofst_in_zone mod ZONE_MAX_DIE_PARA;
     assert_c (dg_ofst_in_zone \<le> k);
     g \<leftarrow> nth_opt (die_groups phy) dg_ofst_in_zone;
     dg \<leftarrow> nth_opt (dgroups d) g;
     die_id \<leftarrow> nth_opt (die dg) die_ofst_in_dg;
     assert_c (die_id < tt_luns spp);
     pg_ofst_in_pl \<leftarrow> div_opt page_ofst_in_dg (pls_per_lun spp);
     let pl_ofst_in_die = page_ofst_in_dg mod pls_per_lun spp;
     let pg_ofst_st_in_blk = (if k > 1 then fbg_part phy * (pgs_per_blk spp div k) else 0);
     chan \<leftarrow> div_opt die_id (luns_per_ch spp);
     let pg = pg_ofst_in_pl + pg_ofst_st_in_blk;
     assert_c (pg < pgs_per_blk spp);
     Some \<lparr>g_ch = chan, g_lun = die_id mod luns_per_ch spp, g_pl = pl_ofst_in_die,
           g_blk = fbg_ofst phy, g_pg = pg, g_sec = 0\<rparr>
   }"

section \<open>The mapping part of a reset\<close>

text \<open>\<open>zone_reset\<close> releases the FBG of the zone in each of its groups and tells whether it is to be
  erased, because no other zone uses it. The transactions it queues are part of the scheduler.\<close>

definition release_fbg :: "bool \<Rightarrow> nat \<Rightarrow> nat \<Rightarrow> zns_dynamic_mapping \<Rightarrow> zns_dynamic_mapping option" where
  "release_fbg erase ofst g d = do {
     dg \<leftarrow> nth_opt (dgroups d) g;
     bm \<leftarrow> upd_opt (fbgs_used_bitmap dg) ofst (\<lambda>u. sub32 u 1);
     upd_group g (\<lambda>dg. dg\<lparr>fbgs_used_bitmap := bm,
                          remain_fbgs_num := (if erase then remain_fbgs_num dg + 1 else remain_fbgs_num dg)\<rparr>) d }"

definition zone_reset_map :: "nat \<Rightarrow> zns_dynamic_mapping \<Rightarrow> (bool \<times> zns_dynamic_mapping) option" where
  "zone_reset_map zone d = do {
     phy \<leftarrow> nth_opt (phy_zones d) zone;
     g \<leftarrow> nth_opt (die_groups phy) 0;
     dg \<leftarrow> nth_opt (dgroups d) g;
     u \<leftarrow> nth_opt (fbgs_used_bitmap dg) (fbg_ofst phy);
     assert_c (u > 0);
     groups \<leftarrow> those (map (nth_opt (die_groups phy)) [0 ..< map_die_group_num phy]);
     d \<leftarrow> foldM (release_fbg (u = 1) (fbg_ofst phy)) groups d;
     Some (u = 1, d)
   }"

section \<open>Invariants\<close>

definition free_fbgs :: "nat list \<Rightarrow> nat" where
  "free_fbgs bm = card {i. i < length bm \<and> bm ! i = 0}"

definition group_inv :: "nat \<Rightarrow> nat \<Rightarrow> die_group \<Rightarrow> bool" where
  "group_inv fbgs i dg \<longleftrightarrow>
     die dg = map (\<lambda>j. i * ZONE_MAX_DIE_PARA + j) [0 ..< ZONE_MAX_DIE_PARA] \<and>
     length (fbgs_used_bitmap dg) = fbgs \<and> (\<forall>u \<in> set (fbgs_used_bitmap dg). u \<le> 1) \<and>
     next_fbg_id dg < fbgs \<and> remain_fbgs_num dg = free_fbgs (fbgs_used_bitmap dg)"

text \<open>The configuration in which every zone is mapped to one group: as many zones share the device as
  there are groups. It is the one the initialisation sets up, and only \<open>reset_open_infos\<close>, which
  nothing calls, leaves it.\<close>

definition dymap_inv :: "zns_dynamic_mapping \<Rightarrow> bool" where
  "dymap_inv d \<longleftrightarrow>
     0 < fbgs_per_dg d \<and> 0 < die_group_sum d \<and> length (dgroups d) = die_group_sum d \<and>
     length (die_group_used_bitmap d) = die_group_sum d \<and>
     (\<forall>i < die_group_sum d. group_inv (fbgs_per_dg d) i (dgroups d ! i)) \<and>
     (\<forall>p \<in> set (phy_zones d). length (die_groups p) = 8) \<and>
     open_zone_limit d = die_group_sum d \<and> last_opened_zones_num d = 0"

text \<open>The FBG of a zone. Zones in \<open>live\<close> have been opened and not reset since.\<close>

definition zone_fbg :: "zns_dynamic_mapping \<Rightarrow> nat \<Rightarrow> nat \<times> nat" where
  "zone_fbg d z = (die_groups (phy_zones d ! z) ! 0, fbg_ofst (phy_zones d ! z))"

definition fbg_used :: "zns_dynamic_mapping \<Rightarrow> nat \<times> nat \<Rightarrow> nat" where
  "fbg_used d gf = fbgs_used_bitmap (dgroups d ! fst gf) ! snd gf"

definition live_inv :: "zns_dynamic_mapping \<Rightarrow> nat set \<Rightarrow> bool" where
  "live_inv d live \<longleftrightarrow>
     inj_on (zone_fbg d) live \<and>
     (\<forall>z \<in> live. z < length (phy_zones d) \<and> map_die_group_num (phy_zones d ! z) = 1 \<and>
        fst (zone_fbg d z) < die_group_sum d \<and> snd (zone_fbg d z) < fbgs_per_dg d \<and>
        fbg_used d (zone_fbg d z) = 1)"

section \<open>Allocation finds a free flash block group\<close>

lemma fbg_search_finds:
  assumes "length bm = n" and "i < n" and "j < n" and "bm ! j = 0"
  shows "\<exists>k < n. fbg_search bm n i = Some k \<and> bm ! k = 0"
  using assms(2)
proof (induction "if i \<le> j then j - i else n - i + j" arbitrary: i rule: less_induct)
  case less
  show ?case
  proof (cases "bm ! i = 0")
    case True
    then show ?thesis using less.prems assms(1) by (auto simp: fbg_search.simps)
  next
    case False
    define i' where "i' = (if Suc i = n then 0 else Suc i)"
    from False assms have "i \<noteq> j" by auto
    then have "(if i' \<le> j then j - i' else n - i' + j) < (if i \<le> j then j - i else n - i + j)" "i' < n"
      using less.prems assms(3) by (auto simp: i'_def)
    from less.hyps[OF this] False show ?thesis
      using less.prems assms(1) by (subst fbg_search.simps) (auto simp: i'_def)
  qed
qed

lemma free_fbgs_pos: "0 < free_fbgs bm \<longleftrightarrow> (\<exists>j < length bm. bm ! j = 0)"
  unfolding free_fbgs_def by (subst card_gt_0_iff) auto

lemma free_fbgs_use:
  assumes "k < length bm" and "bm ! k = 0" and "0 < u"
  shows "free_fbgs (bm[k := u]) = free_fbgs bm - 1"
proof -
  have "{i. i < length (bm[k := u]) \<and> bm[k := u] ! i = 0} = {i. i < length bm \<and> bm ! i = 0} - {k}"
    using assms by (auto simp: nth_list_update)
  moreover have "k \<in> {i. i < length bm \<and> bm ! i = 0}" using assms by simp
  ultimately show ?thesis by (simp add: free_fbgs_def)
qed

lemma free_fbgs_release:
  assumes "k < length bm" and "0 < bm ! k"
  shows "free_fbgs (bm[k := 0]) = free_fbgs bm + 1"
proof -
  have "{i. i < length (bm[k := 0]) \<and> bm[k := 0] ! i = 0} = insert k {i. i < length bm \<and> bm ! i = 0}"
    using assms by (auto simp: nth_list_update)
  then show ?thesis using assms by (simp add: free_fbgs_def)
qed

lemma group_inv_use:
  assumes "group_inv fbgs i dg" and "k < fbgs" and "fbgs_used_bitmap dg ! k = 0" and "nxt < fbgs"
  shows "group_inv fbgs i (dg\<lparr>fbgs_used_bitmap := (fbgs_used_bitmap dg)[k := 1],
    remain_fbgs_num := remain_fbgs_num dg - 1, next_fbg_id := nxt\<rparr>)"
  using assms by (auto simp: group_inv_def free_fbgs_use dest!: set_update_subset_insert[THEN subsetD])

lemma group_inv_release:
  assumes "group_inv fbgs i dg" and "k < fbgs" and "0 < fbgs_used_bitmap dg ! k"
  shows "group_inv fbgs i (dg\<lparr>fbgs_used_bitmap := (fbgs_used_bitmap dg)[k := 0],
    remain_fbgs_num := remain_fbgs_num dg + 1\<rparr>)"
  using assms by (auto simp: group_inv_def free_fbgs_release dest!: set_update_subset_insert[THEN subsetD])

lemma dymap_inv_group_upd:
  assumes "dymap_inv d" and "g < die_group_sum d" and "group_inv (fbgs_per_dg d) g dg"
  shows "dymap_inv (d\<lparr>dgroups := (dgroups d)[g := dg]\<rparr>)"
  using assms by (auto simp: dymap_inv_def nth_list_update)

definition fbg_taken :: "nat \<Rightarrow> nat \<Rightarrow> zns_dynamic_mapping \<Rightarrow> zns_dynamic_mapping" where
  "fbg_taken g ofst d = d\<lparr>dgroups := (dgroups d)[g := (dgroups d ! g)\<lparr>
     fbgs_used_bitmap := (fbgs_used_bitmap (dgroups d ! g))[ofst := 1],
     remain_fbgs_num := remain_fbgs_num (dgroups d ! g) - 1,
     next_fbg_id := wrap_next (fbgs_per_dg d) ofst\<rparr>]\<rparr>"

lemma wrap_next_less: "i < n \<Longrightarrow> wrap_next n i < n"
  by (auto simp: wrap_next_def)

lemma alloc_fbg_full_eq:
  assumes "dymap_inv d" and "g < die_group_sum d" and "0 < remain_fbgs_num (dgroups d ! g)"
  shows "\<exists>ofst < fbgs_per_dg d. alloc_fbg_full g d = Some (ofst, fbg_taken g ofst d) \<and>
    fbg_used d (g, ofst) = 0 \<and> dymap_inv (fbg_taken g ofst d)"
proof -
  let ?dg = "dgroups d ! g" and ?n = "fbgs_per_dg d"
  have gi: "group_inv ?n g ?dg" "g < length (dgroups d)" using assms(1,2) by (auto simp: dymap_inv_def)
  then have l: "length (fbgs_used_bitmap ?dg) = ?n" "next_fbg_id ?dg < ?n" by (auto simp: group_inv_def)
  from assms(3) gi l obtain j where "j < ?n" "fbgs_used_bitmap ?dg ! j = 0"
    by (auto simp: group_inv_def free_fbgs_pos)
  from fbg_search_finds[OF l this] obtain k where k: "k < ?n"
    "fbg_search (fbgs_used_bitmap ?dg) ?n (next_fbg_id ?dg) = Some k" "fbgs_used_bitmap ?dg ! k = 0" by blast
  have inv: "dymap_inv (fbg_taken g k d)"
    unfolding fbg_taken_def
    by (rule dymap_inv_group_upd[OF assms(1,2)]) (rule group_inv_use[OF gi(1) k(1,3) wrap_next_less[OF k(1)]])
  have "alloc_fbg_full g d = Some (k, fbg_taken g k d)"
    using gi(2) assms(3) k l wrap_next_less[OF k(1)]
    by (simp add: alloc_fbg_full_def use_fbg_def upd_group_def fbg_taken_def Let_def)
  with k inv show ?thesis by (auto simp: fbg_used_def)
qed

lemma alloc_fbg_full_pos: "alloc_fbg_full g d = Some r \<Longrightarrow> g < length (dgroups d) \<and> 0 < remain_fbgs_num (dgroups d ! g)"
  by (auto simp: alloc_fbg_full_def bind_eq_Some_conv nth_opt_eq_Some)

section \<open>Choosing a group\<close>

lemma min_group_Some:
  "\<lbrakk>min_group bm is (m, i0) = Some (m', i'); \<forall>i \<in> set is. i < length bm\<rbrakk> \<Longrightarrow>
    (m' = m \<and> i' = i0 \<and> (\<forall>j \<in> set is. m \<le> bm ! j)) \<or>
    (i' \<in> set is \<and> m' = bm ! i' \<and> m' < m \<and> (\<forall>j \<in> set is. m' \<le> bm ! j))"
proof (induction "is" arbitrary: m i0)
  case Nil
  then show ?case by simp
next
  case (Cons i "is")
  from Cons.prems(2) have i: "i < length bm" by simp
  show ?case
  proof (cases "bm ! i < m")
    case True
    with Cons.prems i have "min_group bm is (bm ! i, i) = Some (m', i')" by simp
    from Cons.IH[OF this] Cons.prems(2) True show ?thesis by auto
  next
    case False
    with Cons.prems i have "min_group bm is (m, i0) = Some (m', i')" by simp
    from Cons.IH[OF this] Cons.prems(2) False show ?thesis by auto
  qed
qed

definition phy_mapped :: "nat \<Rightarrow> nat \<Rightarrow> phy_zone \<Rightarrow> phy_zone" where
  "phy_mapped g ofst p = p\<lparr>map_die_group_num := 1, die_groups := (die_groups p)[0 := g], fbg_ofst := ofst, fbg_part := 0\<rparr>"

text \<open>What opening a zone does: it takes a free FBG of the least used group that was considered.\<close>

definition zone_opened :: "nat \<Rightarrow> nat \<Rightarrow> nat \<Rightarrow> zns_dynamic_mapping \<Rightarrow> zns_dynamic_mapping \<Rightarrow> bool" where
  "zone_opened z g ofst d d' \<longleftrightarrow>
     z < length (phy_zones d) \<and> g < die_group_sum d \<and> ofst < fbgs_per_dg d \<and> fbg_used d (g, ofst) = 0 \<and>
     dgroups d' = dgroups (fbg_taken g ofst d) \<and>
     die_group_used_bitmap d' = (die_group_used_bitmap d)[g := Suc (die_group_used_bitmap d ! g)] \<and>
     phy_zones d' = (phy_zones d)[z := phy_mapped g ofst (phy_zones d ! z)] \<and>
     die_group_sum d' = die_group_sum d \<and> fbgs_per_dg d' = fbgs_per_dg d \<and>
     open_zone_limit d' = open_zone_limit d \<and> last_opened_zones_num d' = last_opened_zones_num d"

lemma those_nth_opt: "k \<le> length xs \<Longrightarrow> those (map (nth_opt xs) [0 ..< k]) = Some (take k xs)"
  by (subst those_map_Some[where g = "(!) xs"]) (auto intro!: nth_equalityI)

lemma record_open_frames:
  assumes "record_open z d = Some (m, d1)"
  shows "dgroups d1 = dgroups d" "die_group_used_bitmap d1 = die_group_used_bitmap d" "phy_zones d1 = phy_zones d"
    "die_group_sum d1 = die_group_sum d" "fbgs_per_dg d1 = fbgs_per_dg d" "open_zone_limit d1 = open_zone_limit d"
    "last_opened_zones_num d1 = last_opened_zones_num d"
  using assms by (auto simp: record_open_def Let_def bind_eq_Some_conv split: if_splits)

lemma dymap_inv_fields:
  assumes "dymap_inv d" and "dgroups d' = dgroups d" and "die_group_sum d' = die_group_sum d"
    and "length (die_group_used_bitmap d') = length (die_group_used_bitmap d)"
    and "\<forall>p \<in> set (phy_zones d'). length (die_groups p) = 8"
    and "fbgs_per_dg d' = fbgs_per_dg d" and "open_zone_limit d' = open_zone_limit d"
    and "last_opened_zones_num d' = last_opened_zones_num d"
  shows "dymap_inv d'"
  using assms by (simp add: dymap_inv_def)

text \<open>The common tail of the two ways to open a zone: record the group, count it, take an FBG of it.\<close>

lemma open_tail:
  assumes "dymap_inv d" and "g < die_group_sum d" and "z < length (phy_zones d)"
    and "alloc_fbg 1 g (d\<lparr>phy_zones := (phy_zones d)[z := (phy_zones d ! z)\<lparr>map_die_group_num := 1,
        die_groups := (die_groups (phy_zones d ! z))[0 := g]\<rparr>],
      die_group_used_bitmap := (die_group_used_bitmap d)[g := Suc (die_group_used_bitmap d ! g)]\<rparr>) = Some (ofst, part, d2)"
    and "upd_phy z (\<lambda>p. p\<lparr>fbg_ofst := ofst, fbg_part := 0\<rparr>) d2 = Some d'"
  shows "zone_opened z g ofst d d' \<and> part = 0"
proof -
  define e where "e = d\<lparr>phy_zones := (phy_zones d)[z := (phy_zones d ! z)\<lparr>map_die_group_num := 1,
      die_groups := (die_groups (phy_zones d ! z))[0 := g]\<rparr>],
    die_group_used_bitmap := (die_group_used_bitmap d)[g := Suc (die_group_used_bitmap d ! g)]\<rparr>"
  have e: "dymap_inv e"
    using assms(1,3) by (intro dymap_inv_fields[OF assms(1)])
      (auto simp: e_def dymap_inv_def dest!: set_update_subset_insert[THEN subsetD])
  have a: "alloc_fbg_full g e = Some (ofst, d2)" "part = 0"
    using assms(4)[folded e_def] by (auto simp: alloc_fbg_def bind_eq_Some_conv)
  have ge: "g < die_group_sum e" using assms(2) by (simp add: e_def)
  from alloc_fbg_full_eq[OF e ge] alloc_fbg_full_pos[OF a(1)] a(1)
  have d2: "d2 = fbg_taken g ofst e" "ofst < fbgs_per_dg e" "fbg_used e (g, ofst) = 0" by auto
  show ?thesis
    using assms(2,3,5) d2 a(2)
    by (auto simp: zone_opened_def upd_phy_def bind_eq_Some_conv upd_opt_eq_Some e_def fbg_taken_def fbg_used_def
        phy_mapped_def)
qed

lemma open_on_one_group_effect:
  assumes "dymap_inv d" and "open_on_one_group z d = Some d'"
  shows "\<exists>g ofst. zone_opened z g ofst d d' \<and> 0 < remain_fbgs_num (dgroups d ! g) \<and>
    (\<forall>j < die_group_sum d. 0 < remain_fbgs_num (dgroups d ! j) \<longrightarrow> die_group_used_bitmap d ! g \<le> die_group_used_bitmap d ! j)"
proof -
  have len: "length (dgroups d) = die_group_sum d" "length (die_group_used_bitmap d) = die_group_sum d"
    using assms(1) by (simp_all add: dymap_inv_def)
  define avail where "avail = filter (\<lambda>i. remain_fbgs_num (dgroups d ! i) > 0) [0 ..< die_group_sum d]"
  obtain m g ofst part d1 d2 d3 where s: "min_group (die_group_used_bitmap d) avail (100, 0) = Some (m, g)" "m \<noteq> 100"
      "upd_phy z (\<lambda>p. p\<lparr>map_die_group_num := 1, die_groups := (die_groups p)[0 := g]\<rparr>) d = Some d1"
      "use_group g d1 = Some d2" "alloc_fbg 1 g d2 = Some (ofst, part, d3)"
      "upd_phy z (\<lambda>p. p\<lparr>fbg_ofst := ofst, fbg_part := 0\<rparr>) d3 = Some d'"
    using assms(2) len by (auto simp: open_on_one_group_def those_nth_opt Let_def bind_eq_Some_conv avail_def)
  have "g \<in> set avail \<and> (\<forall>j \<in> set avail. die_group_used_bitmap d ! g \<le> die_group_used_bitmap d ! j)"
    using min_group_Some[OF s(1)] s(2) len by (auto simp: avail_def)
  then have g: "g < die_group_sum d" "0 < remain_fbgs_num (dgroups d ! g)"
      "\<forall>j < die_group_sum d. 0 < remain_fbgs_num (dgroups d ! j) \<longrightarrow> die_group_used_bitmap d ! g \<le> die_group_used_bitmap d ! j"
    by (auto simp: avail_def)
  have z: "z < length (phy_zones d)" and d2: "d2 = d\<lparr>phy_zones := (phy_zones d)[z := (phy_zones d ! z)\<lparr>map_die_group_num := 1,
      die_groups := (die_groups (phy_zones d ! z))[0 := g]\<rparr>],
    die_group_used_bitmap := (die_group_used_bitmap d)[g := Suc (die_group_used_bitmap d ! g)]\<rparr>"
    using s(3,4) by (auto simp: upd_phy_def use_group_def bind_eq_Some_conv upd_opt_eq_Some)
  from open_tail[OF assms(1) g(1) z, of ofst part d3 d'] s(5,6) g show ?thesis by (auto simp: d2)
qed

lemma filter_mod_1: "filter (\<lambda>i. i mod Suc 0 = 0) xs = xs"
  by (simp add: filter_id_conv)

lemma open_on_groups_effect:
  assumes "dymap_inv d" and "open_on_groups z d = Some d'"
  shows "\<exists>g ofst. zone_opened z g ofst d d' \<and> 0 < remain_fbgs_num (dgroups d ! g) \<and>
    ((\<forall>j < die_group_sum d. die_group_used_bitmap d ! j < 100) \<longrightarrow>
     (\<forall>j < die_group_sum d. die_group_used_bitmap d ! g \<le> die_group_used_bitmap d ! j))"
proof -
  have len: "length (die_group_used_bitmap d) = die_group_sum d" "0 < die_group_sum d" "open_zone_limit d = die_group_sum d"
    using assms(1) by (simp_all add: dymap_inv_def)
  then have k: "div_opt (die_group_sum d) (open_zone_limit d) = Some (Suc 0)" by (simp add: div_opt_def)
  obtain m g ofst part d1 d2 d3 where s: "min_group (die_group_used_bitmap d) [0 ..< die_group_sum d] (100, 0) = Some (m, g)"
      "upd_phy z (\<lambda>p. p\<lparr>map_die_group_num := 1, die_groups := [g] @ drop 1 (die_groups p)\<rparr>) d = Some d1"
      "use_group g d1 = Some d2" "alloc_fbg 1 g d2 = Some (ofst, part, d3)"
      "upd_phy z (\<lambda>p. p\<lparr>fbg_ofst := ofst, fbg_part := part\<rparr>) d3 = Some d'"
    using assms(2) by (auto simp: open_on_groups_def k Let_def bind_eq_Some_conv filter_mod_1)
  have mg: "m = 100 \<and> g = 0 \<and> (\<forall>j < die_group_sum d. 100 \<le> die_group_used_bitmap d ! j) \<or>
      g < die_group_sum d \<and> m = die_group_used_bitmap d ! g \<and> (\<forall>j < die_group_sum d. m \<le> die_group_used_bitmap d ! j)"
    using min_group_Some[OF s(1)] len(1) by auto
  have g: "g < die_group_sum d" using mg len(2) by auto
  have z: "z < length (phy_zones d)" using s(2) by (auto simp: upd_phy_def bind_eq_Some_conv upd_opt_eq_Some)
  then have "length (die_groups (phy_zones d ! z)) = 8" using assms(1) by (simp add: dymap_inv_def)
  then have "g # drop (Suc 0) (die_groups (phy_zones d ! z)) = (die_groups (phy_zones d ! z))[0 := g]"
    by (cases "die_groups (phy_zones d ! z)") auto
  then have d2: "d2 = d\<lparr>phy_zones := (phy_zones d)[z := (phy_zones d ! z)\<lparr>map_die_group_num := 1,
      die_groups := (die_groups (phy_zones d ! z))[0 := g]\<rparr>],
    die_group_used_bitmap := (die_group_used_bitmap d)[g := Suc (die_group_used_bitmap d ! g)]\<rparr>"
    using s(2,3) by (auto simp: upd_phy_def use_group_def bind_eq_Some_conv upd_opt_eq_Some)
  have part: "part = 0" using s(4) by (auto simp: alloc_fbg_def bind_eq_Some_conv)
  have "zone_opened z g ofst d d'"
    using open_tail[OF assms(1) g z, of ofst part d3 d'] s(4,5) by (simp add: d2 part)
  moreover have "0 < remain_fbgs_num (dgroups d ! g)"
    using s(4) by (auto simp: d2 alloc_fbg_def bind_eq_Some_conv dest!: alloc_fbg_full_pos)
  moreover have "(\<forall>j < die_group_sum d. die_group_used_bitmap d ! j < 100) \<longrightarrow>
     (\<forall>j < die_group_sum d. die_group_used_bitmap d ! g \<le> die_group_used_bitmap d ! j)"
    using mg by (auto simp: not_less[symmetric])
  ultimately show ?thesis by blast
qed

lemma zone_opened_cong:
  assumes "zone_opened z g ofst d1 d'" and "dgroups d1 = dgroups d" "die_group_used_bitmap d1 = die_group_used_bitmap d"
    "phy_zones d1 = phy_zones d" "die_group_sum d1 = die_group_sum d" "fbgs_per_dg d1 = fbgs_per_dg d"
    "open_zone_limit d1 = open_zone_limit d" "last_opened_zones_num d1 = last_opened_zones_num d"
  shows "zone_opened z g ofst d d'"
  using assms by (simp add: zone_opened_def fbg_used_def fbg_taken_def)

lemma zone_open_effect:
  assumes "dymap_inv d" and "zone_open n z d = Some d'"
  shows "\<exists>g ofst. zone_opened z g ofst d d' \<and>
    0 < remain_fbgs_num (dgroups d ! g) \<and>
    ((\<forall>j < die_group_sum d. die_group_used_bitmap d ! j < 100) \<longrightarrow>
     (\<forall>j < die_group_sum d. 0 < remain_fbgs_num (dgroups d ! j) \<longrightarrow> die_group_used_bitmap d ! g \<le> die_group_used_bitmap d ! j))"
proof -
  have "last_opened_zones_num d = 0" using assms(1) by (simp add: dymap_inv_def)
  then obtain m d1 where r: "record_open z d = Some (m, d1)"
    and o: "(if m < die_group_sum d1 then open_on_groups z d1 else open_on_one_group z d1) = Some d'"
    using assms(2) by (auto simp: zone_open_def bind_eq_Some_conv)
  note f = record_open_frames[OF r]
  have inv: "dymap_inv d1" using assms(1) f by (intro dymap_inv_fields[OF assms(1)]) (auto simp: dymap_inv_def)
  show ?thesis
  proof (cases "m < die_group_sum d1")
    case True
    with o open_on_groups_effect[OF inv] zone_opened_cong[OF _ f] f show ?thesis by (simp add: f) metis
  next
    case False
    with o open_on_one_group_effect[OF inv] zone_opened_cong[OF _ f] f show ?thesis by (simp add: f) metis
  qed
qed

section \<open>Live zones do not share flash blocks\<close>

lemma zone_opened_inv:
  assumes "dymap_inv d" and "zone_opened z g ofst d d'"
  shows "dymap_inv d'"
proof -
  have o: "g < die_group_sum d" "ofst < fbgs_per_dg d" "fbg_used d (g, ofst) = 0" "z < length (phy_zones d)"
    using assms(2) by (auto simp: zone_opened_def)
  have gi: "group_inv (fbgs_per_dg d) g (dgroups d ! g)" using assms(1) o(1) by (simp add: dymap_inv_def)
  have inv: "dymap_inv (fbg_taken g ofst d)"
    unfolding fbg_taken_def
    by (rule dymap_inv_group_upd[OF assms(1) o(1)], rule group_inv_use[OF gi o(2) _ wrap_next_less[OF o(2)]])
       (use o(3) in \<open>simp add: fbg_used_def\<close>)
  have ph: "\<forall>p \<in> set (phy_zones d'). length (die_groups p) = 8"
  proof
    fix p assume "p \<in> set (phy_zones d')"
    then have "p \<in> insert (phy_mapped g ofst (phy_zones d ! z)) (set (phy_zones d))"
      using assms(2) set_update_subset_insert[of "phy_zones d" z "phy_mapped g ofst (phy_zones d ! z)"]
      by (auto simp: zone_opened_def)
    moreover have "phy_zones d ! z \<in> set (phy_zones d)" using o(4) by simp
    ultimately show "length (die_groups p) = 8" using assms(1) by (auto simp: dymap_inv_def phy_mapped_def)
  qed
  have "length (die_group_used_bitmap d') = length (die_group_used_bitmap (fbg_taken g ofst d))"
      "die_group_sum d' = die_group_sum (fbg_taken g ofst d)" "fbgs_per_dg d' = fbgs_per_dg (fbg_taken g ofst d)"
      "open_zone_limit d' = open_zone_limit (fbg_taken g ofst d)"
      "last_opened_zones_num d' = last_opened_zones_num (fbg_taken g ofst d)" "dgroups d' = dgroups (fbg_taken g ofst d)"
    using assms(2) by (simp_all add: zone_opened_def fbg_taken_def)
  with ph show ?thesis by (intro dymap_inv_fields[OF inv])
qed

lemma fbg_used_opened:
  assumes "dymap_inv d" and "zone_opened z g ofst d d'" and "fst gf < die_group_sum d" and "snd gf < fbgs_per_dg d"
  shows "fbg_used d' gf = (if gf = (g, ofst) then 1 else fbg_used d gf)"
proof -
  have "length (fbgs_used_bitmap (dgroups d ! g)) = fbgs_per_dg d" "length (dgroups d) = die_group_sum d"
    using assms(1,2) by (auto simp: dymap_inv_def group_inv_def zone_opened_def)
  then show ?thesis
    using assms(2-4) by (cases gf) (auto simp: zone_opened_def fbg_used_def fbg_taken_def nth_list_update)
qed

lemma zone_fbg_opened:
  assumes "dymap_inv d" and "zone_opened z g ofst d d'"
  shows "zone_fbg d' z' = (if z' = z then (g, ofst) else zone_fbg d z')"
proof -
  have "length (die_groups (phy_zones d ! z)) = 8" using assms by (auto simp: dymap_inv_def zone_opened_def)
  then show ?thesis
    using assms(2) by (auto simp: zone_opened_def zone_fbg_def phy_mapped_def nth_list_update)
qed

lemma live_inv_opened:
  assumes "dymap_inv d" and "live_inv d live" and "zone_opened z g ofst d d'"
  shows "live_inv d' (insert z live)"
proof -
  have o: "g < die_group_sum d" "ofst < fbgs_per_dg d" "fbg_used d (g, ofst) = 0" "z < length (phy_zones d)"
    "die_group_sum d' = die_group_sum d" "fbgs_per_dg d' = fbgs_per_dg d" "length (phy_zones d') = length (phy_zones d)"
    "\<And>y. y < length (phy_zones d) \<Longrightarrow> map_die_group_num (phy_zones d' ! y) =
       (if y = z then 1 else map_die_group_num (phy_zones d ! y))"
    using assms(3) by (auto simp: zone_opened_def phy_mapped_def nth_list_update)
  have free: "zone_fbg d y \<noteq> (g, ofst)" if "y \<in> live" for y
    using assms(2) o(3) that by (auto simp: live_inv_def)
  have inj: "inj_on (zone_fbg d') (insert z live)"
  proof (rule inj_onI)
    fix a b assume ab: "a \<in> insert z live" "b \<in> insert z live" "zone_fbg d' a = zone_fbg d' b"
    show "a = b"
    proof (cases "a = z \<or> b = z")
      case True
      with ab free show ?thesis by (auto simp: zone_fbg_opened[OF assms(1,3)] split: if_splits)
    next
      case False
      with ab have "zone_fbg d a = zone_fbg d b" "a \<in> live" "b \<in> live" by (auto simp: zone_fbg_opened[OF assms(1,3)])
      with assms(2) show ?thesis by (auto simp: live_inv_def dest: inj_onD)
    qed
  qed
  have "y < length (phy_zones d') \<and> map_die_group_num (phy_zones d' ! y) = 1 \<and> fst (zone_fbg d' y) < die_group_sum d' \<and>
      snd (zone_fbg d' y) < fbgs_per_dg d' \<and> fbg_used d' (zone_fbg d' y) = 1" if "y \<in> insert z live" for y
  proof (cases "y = z")
    case True
    with o show ?thesis by (simp add: zone_fbg_opened[OF assms(1,3)] fbg_used_opened[OF assms(1,3)])
  next
    case False
    with that have "y \<in> live" by simp
    with assms(2) have l: "y < length (phy_zones d)" "map_die_group_num (phy_zones d ! y) = 1"
        "fst (zone_fbg d y) < die_group_sum d" "snd (zone_fbg d y) < fbgs_per_dg d" "fbg_used d (zone_fbg d y) = 1"
      by (auto simp: live_inv_def)
    with False o show ?thesis
      by (simp add: zone_fbg_opened[OF assms(1,3)] fbg_used_opened[OF assms(1,3) l(3,4)])
  qed
  with inj show ?thesis by (simp add: live_inv_def)
qed

lemma release_group_frames:
  "foldM release_group gs d = Some d' \<Longrightarrow> \<exists>bm. d' = d\<lparr>die_group_used_bitmap := bm\<rparr> \<and> length bm = length (die_group_used_bitmap d)"
proof (induction gs arbitrary: d)
  case Nil
  then show ?case by (auto intro: exI[of _ "die_group_used_bitmap d"])
next
  case (Cons g gs)
  then obtain d1 where d1: "release_group g d = Some d1" "foldM release_group gs d1 = Some d'"
    by (auto simp: bind_eq_Some_conv)
  from d1(1) obtain bm where "d1 = d\<lparr>die_group_used_bitmap := bm\<rparr>" "length bm = length (die_group_used_bitmap d)"
    by (auto simp: release_group_def bind_eq_Some_conv)
  with Cons.IH[OF d1(2)] show ?case by auto
qed

lemma zone_close_frames:
  assumes "zone_close n z d = Some d'"
  shows "dgroups d' = dgroups d" "phy_zones d' = phy_zones d" "die_group_sum d' = die_group_sum d"
    "fbgs_per_dg d' = fbgs_per_dg d" "open_zone_limit d' = open_zone_limit d"
    "last_opened_zones_num d' = last_opened_zones_num d"
    "length (die_group_used_bitmap d') = length (die_group_used_bitmap d)"
  using assms by (auto simp: zone_close_def Let_def bind_eq_Some_conv split: if_splits dest!: release_group_frames)

lemma live_inv_fields:
  "\<lbrakk>live_inv d live; dgroups d' = dgroups d; phy_zones d' = phy_zones d; die_group_sum d' = die_group_sum d;
    fbgs_per_dg d' = fbgs_per_dg d\<rbrakk> \<Longrightarrow> live_inv d' live"
  by (simp add: live_inv_def zone_fbg_def[abs_def] fbg_used_def)

text \<open>Resetting a live zone frees its FBG and asks for the erase.\<close>

definition fbg_released :: "nat \<times> nat \<Rightarrow> zns_dynamic_mapping \<Rightarrow> zns_dynamic_mapping" where
  "fbg_released gf d = d\<lparr>dgroups := (dgroups d)[fst gf := (dgroups d ! fst gf)\<lparr>
      fbgs_used_bitmap := (fbgs_used_bitmap (dgroups d ! fst gf))[snd gf := 0],
      remain_fbgs_num := remain_fbgs_num (dgroups d ! fst gf) + 1\<rparr>]\<rparr>"

lemma fbg_released_frames [simp]:
  "phy_zones (fbg_released gf d) = phy_zones d" "fbgs_per_dg (fbg_released gf d) = fbgs_per_dg d"
  "die_group_sum (fbg_released gf d) = die_group_sum d" "zone_fbg (fbg_released gf d) = zone_fbg d"
  by (simp_all add: fbg_released_def zone_fbg_def fun_eq_iff)

lemma fbg_used_released:
  assumes "dymap_inv d" and "fst gf < die_group_sum d" and "snd gf < fbgs_per_dg d" and "fst h < die_group_sum d"
  shows "fbg_used (fbg_released gf d) h = (if h = gf then 0 else fbg_used d h)"
proof -
  have "length (fbgs_used_bitmap (dgroups d ! fst gf)) = fbgs_per_dg d" "length (dgroups d) = die_group_sum d"
    using assms(1,2) by (auto simp: dymap_inv_def group_inv_def)
  then show ?thesis using assms(2-4) by (cases h; cases gf) (auto simp: fbg_released_def fbg_used_def nth_list_update)
qed

lemma zone_reset_map_live:
  assumes "dymap_inv d" and "live_inv d live" and "z \<in> live"
  shows "zone_reset_map z d = Some (True, fbg_released (zone_fbg d z) d)" and "dymap_inv (fbg_released (zone_fbg d z) d)"
    and "live_inv (fbg_released (zone_fbg d z) d) (live - {z})"
proof -
  obtain g f where gf: "zone_fbg d z = (g, f)" by force
  have l: "z < length (phy_zones d)" "map_die_group_num (phy_zones d ! z) = 1" "g < die_group_sum d" "f < fbgs_per_dg d"
      "fbgs_used_bitmap (dgroups d ! g) ! f = 1" "die_groups (phy_zones d ! z) ! 0 = g" "fbg_ofst (phy_zones d ! z) = f"
    using assms(2,3) gf by (auto simp: live_inv_def fbg_used_def zone_fbg_def)
  have len: "length (die_groups (phy_zones d ! z)) = 8" "length (dgroups d) = die_group_sum d"
      "length (fbgs_used_bitmap (dgroups d ! g)) = fbgs_per_dg d" "group_inv (fbgs_per_dg d) g (dgroups d ! g)"
    using assms(1) l by (auto simp: dymap_inv_def group_inv_def)
  show "zone_reset_map z d = Some (True, fbg_released (zone_fbg d z) d)"
    using l len by (simp add: zone_reset_map_def release_fbg_def upd_group_def fbg_released_def gf)
  show "dymap_inv (fbg_released (zone_fbg d z) d)"
    unfolding fbg_released_def gf fst_conv snd_conv
    by (rule dymap_inv_group_upd[OF assms(1) l(3)], rule group_inv_release[OF len(4) l(4)]) (simp add: l)
  have inj: "inj_on (zone_fbg d) live" using assms(2) by (simp add: live_inv_def)
  then have ne: "zone_fbg d y \<noteq> zone_fbg d z" if "y \<in> live - {z}" for y
    using that assms(3) by (metis DiffE insertCI inj_onD)
  show "live_inv (fbg_released (zone_fbg d z) d) (live - {z})"
    using assms(2) ne inj_on_diff[OF inj, of "{z}"] fbg_used_released[OF assms(1), of "zone_fbg d z"] l(3,4) gf
    by (auto simp: live_inv_def)
qed

text \<open>A reset of a zone that was never opened changes nothing.\<close>

lemma zone_reset_map_unmapped:
  assumes "zone_reset_map z d = Some (e, d')" and "map_die_group_num (phy_zones d ! z) = 0"
  shows "d' = d"
  using assms by (auto simp: zone_reset_map_def bind_eq_Some_conv nth_opt_eq_Some)

text \<open>Runs of the mapping: any sequence of calls that open, close and reset zones.\<close>

datatype mapping_op = OpenOp nat | CloseOp nat | ResetOp nat

fun mapping_step :: "FemuCtrl \<Rightarrow> mapping_op \<Rightarrow> zns_dynamic_mapping \<Rightarrow> zns_dynamic_mapping option" where
  "mapping_step n (OpenOp z) d = zone_open n z d"
| "mapping_step n (CloseOp z) d = zone_close n z d"
| "mapping_step n (ResetOp z) d = map_option snd (zone_reset_map z d)"

definition run_mapping :: "FemuCtrl \<Rightarrow> mapping_op list \<Rightarrow> zns_dynamic_mapping \<Rightarrow> zns_dynamic_mapping option" where
  "run_mapping n ops d = foldM (mapping_step n) ops d"

text \<open>The live zones have been opened and not reset since; the stale ones have been reset and not opened
  since. \<open>zone_reset\<close> leaves the record of a zone as it is, so a stale zone still names a flash block group.\<close>

fun track :: "mapping_op \<Rightarrow> nat set \<times> nat set \<Rightarrow> nat set \<times> nat set" where
  "track (OpenOp z) (live, stale) = (insert z live, stale - {z})"
| "track (CloseOp z) (live, stale) = (live, stale)"
| "track (ResetOp z) (live, stale) = (live - {z}, if z \<in> live then insert z stale else stale)"

fun no_stale_reset :: "mapping_op list \<Rightarrow> nat set \<times> nat set \<Rightarrow> bool" where
  "no_stale_reset [] ls = True"
| "no_stale_reset (op # ops) ls =
     ((case op of ResetOp z \<Rightarrow> z \<notin> snd ls | _ \<Rightarrow> True) \<and> no_stale_reset ops (track op ls))"

definition run_inv :: "zns_dynamic_mapping \<Rightarrow> nat set \<times> nat set \<Rightarrow> bool" where
  "run_inv d ls \<longleftrightarrow> dymap_inv d \<and> live_inv d (fst ls) \<and>
     (\<forall>z < length (phy_zones d). z \<notin> fst ls \<union> snd ls \<longrightarrow> map_die_group_num (phy_zones d ! z) = 0)"

lemma run_inv_open:
  assumes "run_inv d (live, stale)" and "zone_open n z d = Some d'"
  shows "run_inv d' (insert z live, stale - {z}) \<and> fbgs_per_dg d' = fbgs_per_dg d \<and> die_group_sum d' = die_group_sum d"
proof -
  have inv: "dymap_inv d" "live_inv d live" using assms(1) by (simp_all add: run_inv_def)
  obtain g ofst where o: "zone_opened z g ofst d d'" using zone_open_effect[OF inv(1) assms(2)] by blast
  then have "phy_zones d' = (phy_zones d)[z := phy_mapped g ofst (phy_zones d ! z)]" "fbgs_per_dg d' = fbgs_per_dg d"
      "die_group_sum d' = die_group_sum d"
    by (simp_all add: zone_opened_def)
  with zone_opened_inv[OF inv(1) o] live_inv_opened[OF inv o] assms(1) show ?thesis by (auto simp: run_inv_def)
qed

lemma run_inv_close:
  assumes "run_inv d ls" and "zone_close n z d = Some d'"
  shows "run_inv d' ls \<and> fbgs_per_dg d' = fbgs_per_dg d \<and> die_group_sum d' = die_group_sum d"
proof -
  note f = zone_close_frames[OF assms(2)]
  from assms(1) f show ?thesis
    using dymap_inv_fields[of d d'] live_inv_fields[of d "fst ls" d'] by (auto simp: run_inv_def dymap_inv_def)
qed

lemma run_inv_reset:
  assumes "run_inv d (live, stale)" and "zone_reset_map z d = Some (e, d')" and "z \<notin> stale"
  shows "run_inv d' (live - {z}, if z \<in> live then insert z stale else stale) \<and> fbgs_per_dg d' = fbgs_per_dg d \<and>
    die_group_sum d' = die_group_sum d"
proof (cases "z \<in> live")
  case True
  with zone_reset_map_live[of d live z] assms(1,2) show ?thesis by (auto simp: run_inv_def)
next
  case False
  have "z < length (phy_zones d)" using assms(2) by (auto simp: zone_reset_map_def bind_eq_Some_conv nth_opt_eq_Some)
  with assms False have "d' = d" by (intro zone_reset_map_unmapped[OF assms(2)]) (simp add: run_inv_def)
  with assms(1) False show ?thesis by simp
qed

lemma mapping_step_inv:
  assumes "mapping_step n op d = Some d'" and "run_inv d ls" and "case op of ResetOp z \<Rightarrow> z \<notin> snd ls | _ \<Rightarrow> True"
  shows "run_inv d' (track op ls) \<and> fbgs_per_dg d' = fbgs_per_dg d \<and> die_group_sum d' = die_group_sum d"
proof (cases op)
  case (OpenOp z)
  with assms run_inv_open[of d "fst ls" "snd ls" n z d'] show ?thesis by (cases ls) simp
next
  case (CloseOp z)
  with assms run_inv_close[of d ls n z d'] show ?thesis by (cases ls) simp
next
  case (ResetOp z)
  with assms run_inv_reset[of d "fst ls" "snd ls" z _ d'] show ?thesis by (cases ls) auto
qed

lemma run_mapping_inv:
  "\<lbrakk>run_mapping n ops d = Some d'; no_stale_reset ops ls; run_inv d ls\<rbrakk> \<Longrightarrow>
    run_inv d' (fold track ops ls) \<and> fbgs_per_dg d' = fbgs_per_dg d \<and> die_group_sum d' = die_group_sum d"
proof (induction ops arbitrary: d ls)
  case Nil
  then show ?case by (simp add: run_mapping_def)
next
  case (Cons op ops)
  then obtain e where e: "mapping_step n op d = Some e" "run_mapping n ops e = Some d'"
    by (auto simp: run_mapping_def bind_eq_Some_conv)
  from mapping_step_inv[OF e(1) Cons.prems(3)] Cons.prems(2) Cons.IH[OF e(2), of "track op ls"] show ?case by auto
qed

section \<open>The translation of addresses\<close>

definition dev_ok :: "zns_ssd \<Rightarrow> bool" where
  "dev_ok ssd \<longleftrightarrow>
     (let spp = sp ssd
      in 0 < luns_per_ch spp \<and> 0 < pls_per_lun spp \<and> 0 < pgs_per_blk spp \<and> 0 < secs_per_pg spp \<and> 0 < blks_per_pl spp \<and>
         tt_luns spp = luns_per_ch spp * nchs spp \<and> tt_luns spp div ZONE_MAX_DIE_PARA = INITIAL_OPEN_LIMIT \<and>
         ZONE_MAX_DIE_PARA * (pls_per_lun spp * pgs_per_blk spp) < 2 ^ 32)"

text \<open>The pages of a zone that is mapped to one FBG.\<close>

definition fbg_pages :: "zns_ssd \<Rightarrow> nat" where
  "fbg_pages ssd = ZONE_MAX_DIE_PARA * (pls_per_lun (sp ssd) * pgs_per_blk (sp ssd))"

definition dyn_ppa :: "zns_ssd \<Rightarrow> nat \<times> nat \<Rightarrow> nat \<Rightarrow> ppa" where
  "dyn_ppa ssd gf page =
     (let spp = sp ssd; k = page div ZONE_MAX_DIE_PARA;
          die_id = fst gf * ZONE_MAX_DIE_PARA + page mod ZONE_MAX_DIE_PARA
      in \<lparr>g_ch = die_id div luns_per_ch spp, g_lun = die_id mod luns_per_ch spp, g_pl = k mod pls_per_lun spp,
          g_blk = snd gf, g_pg = k div pls_per_lun spp, g_sec = 0\<rparr>)"

lemma zone_para_pos: "0 < ZONE_MAX_DIE_PARA"
  by (simp add: ZONE_MAX_DIE_PARA_def)

lemma group_die_less:
  assumes "dev_ok ssd" and "g < tt_luns (sp ssd) div ZONE_MAX_DIE_PARA" and "j < ZONE_MAX_DIE_PARA"
  shows "g * ZONE_MAX_DIE_PARA + j < tt_luns (sp ssd)"
proof -
  have "Suc g * ZONE_MAX_DIE_PARA \<le> tt_luns (sp ssd) div ZONE_MAX_DIE_PARA * ZONE_MAX_DIE_PARA"
    using assms(2) by (intro mult_le_mono1) simp
  also have "\<dots> \<le> tt_luns (sp ssd)" by simp
  finally show ?thesis using assms(3) by simp
qed

lemma page_in_block:
  assumes "page < p * (a * b)"
  shows "page div p div a < (b :: nat)"
proof -
  from assms have "page div p < a * b" by (intro less_mult_imp_div_less) (simp add: mult.commute)
  then show ?thesis by (subst less_mult_imp_div_less) (simp_all add: mult.commute)
qed

lemma dyn_ppa_valid:
  assumes "dev_ok ssd" and "fst gf < tt_luns (sp ssd) div ZONE_MAX_DIE_PARA" and "snd gf < blks_per_pl (sp ssd)"
    and "page < fbg_pages ssd"
  shows "valid_ppa ssd (dyn_ppa ssd gf page)"
proof -
  let ?d = "fst gf * ZONE_MAX_DIE_PARA + page mod ZONE_MAX_DIE_PARA"
  have "?d < luns_per_ch (sp ssd) * nchs (sp ssd)"
    using group_die_less[OF assms(1,2), of "page mod ZONE_MAX_DIE_PARA"] zone_para_pos assms(1)
    by (simp add: dev_ok_def Let_def)
  then have "?d div luns_per_ch (sp ssd) < nchs (sp ssd)"
    by (intro less_mult_imp_div_less) (simp add: mult.commute)
  moreover have "page div ZONE_MAX_DIE_PARA div pls_per_lun (sp ssd) < pgs_per_blk (sp ssd)"
    using assms(4) unfolding fbg_pages_def by (rule page_in_block)
  ultimately show ?thesis
    using assms(1,3) by (simp add: valid_ppa_def dyn_ppa_def Let_def dev_ok_def)
qed

lemma dyn_ppa_inj:
  assumes "dyn_ppa ssd gf page = dyn_ppa ssd gf' page'"
  shows "gf = gf' \<and> page = page'"
proof -
  let ?P = ZONE_MAX_DIE_PARA
  have "fst gf * ?P + page mod ?P = fst gf' * ?P + page' mod ?P"
    using assms by (auto simp: dyn_ppa_def Let_def intro: div_mod_eqI)
  then have "(fst gf * ?P + page mod ?P) div ?P = (fst gf' * ?P + page' mod ?P) div ?P"
    "(fst gf * ?P + page mod ?P) mod ?P = (fst gf' * ?P + page' mod ?P) mod ?P" by simp_all
  then have "fst gf = fst gf'" "page mod ?P = page' mod ?P" using zone_para_pos by simp_all
  moreover have "page div ?P = page' div ?P" "snd gf = snd gf'"
    using assms by (auto simp: dyn_ppa_def Let_def intro: div_mod_eqI)
  ultimately show ?thesis by (auto intro: prod_eqI div_mod_eqI)
qed

lemma get_ppa_live:
  assumes "dev_ok ssd" and "dymap_inv (dymap ssd)" and "live_inv (dymap ssd) live" and "z \<in> live"
    and "die_group_sum (dymap ssd) = tt_luns (sp ssd) div ZONE_MAX_DIE_PARA"
    and "wp div secs_per_pg (sp ssd) < fbg_pages ssd"
  shows "get_ppa_by_lba_base ssd z wp = Some (dyn_ppa ssd (zone_fbg (dymap ssd) z) (wp div secs_per_pg (sp ssd)))"
proof -
  let ?P = ZONE_MAX_DIE_PARA and ?page = "wp div secs_per_pg (sp ssd)" and ?d = "dymap ssd"
  obtain g f where gf: "zone_fbg ?d z = (g, f)" by force
  have l: "z < length (phy_zones ?d)" "map_die_group_num (phy_zones ?d ! z) = 1" "g < die_group_sum ?d"
      "die_groups (phy_zones ?d ! z) ! 0 = g" "fbg_ofst (phy_zones ?d ! z) = f"
    using assms(3,4) gf by (auto simp: live_inv_def zone_fbg_def)
  have len: "length (die_groups (phy_zones ?d ! z)) = 8" "length (dgroups ?d) = die_group_sum ?d"
      "die (dgroups ?d ! g) = map (\<lambda>j. g * ?P + j) [0 ..< ?P]"
    using assms(2) l by (auto simp: dymap_inv_def group_inv_def)
  have j: "?page mod ?P < ?P" using zone_para_pos by simp
  have die: "nth_opt (die (dgroups ?d ! g)) (?page mod ?P) = Some (g * ?P + ?page mod ?P)"
    using j by (simp add: len nth_opt_def)
  have u: "u32 ?page = ?page" using assms(1,6) by (simp add: dev_ok_def Let_def fbg_pages_def)
  have tt: "g * ?P + ?page mod ?P < tt_luns (sp ssd)"
    using group_die_less[OF assms(1) _ j] l(3) assms(5) by simp
  have pg: "?page div ?P div pls_per_lun (sp ssd) < pgs_per_blk (sp ssd)"
    using assms(6) unfolding fbg_pages_def by (rule page_in_block)
  show ?thesis
    using l len(1,2) die u tt pg assms(1)
    by (simp add: get_ppa_by_lba_base_def Let_def div_opt_def dev_ok_def dyn_ppa_def gf)
qed

lemma free_fbgs_replicate [simp]: "free_fbgs (replicate k 0) = k"
  by (simp add: free_fbgs_def cong: conj_cong)

lemma mapping_init_inv:
  assumes "dev_ok ssd"
  shows "dymap_inv (dymap (zns_dynamic_mapping_init n ssd))"
    "fbgs_per_dg (dymap (zns_dynamic_mapping_init n ssd)) = blks_per_pl (sp ssd)"
    "die_group_sum (dymap (zns_dynamic_mapping_init n ssd)) = tt_luns (sp ssd) div ZONE_MAX_DIE_PARA"
    "length (phy_zones (dymap (zns_dynamic_mapping_init n ssd))) = num_zones n"
  using assms
  by (auto simp: dymap_inv_def zns_dynamic_mapping_init_def Let_def group_inv_def die_group_init_def
      dev_ok_def INITIAL_OPEN_LIMIT_def)

lemma mapping_init_run: "dev_ok ssd \<Longrightarrow> run_inv (dymap (zns_dynamic_mapping_init n ssd)) ({}, {})"
  by (simp add: run_inv_def mapping_init_inv(1) live_inv_def) (simp add: zns_dynamic_mapping_init_def Let_def)

lemma dev_ok_dymap [simp]: "dev_ok (ssd\<lparr>dymap := d\<rparr>) = dev_ok ssd" "fbg_pages (ssd\<lparr>dymap := d\<rparr>) = fbg_pages ssd"
  "dyn_ppa (ssd\<lparr>dymap := d\<rparr>) = dyn_ppa ssd" "valid_ppa (ssd\<lparr>dymap := d\<rparr>) p = valid_ppa ssd p"
  by (simp_all add: dev_ok_def fbg_pages_def dyn_ppa_def valid_ppa_def fun_eq_iff)

lemma dev_ok_fresh: "dev_ok (fresh_ssd fc)"
  by (simp add: dev_ok_def fresh_ssd_sp) (simp add: zns_ssd_init_params_def Let_def ZONE_MAX_DIE_PARA_def INITIAL_OPEN_LIMIT_def)

section \<open>Properties\<close>

text \<open>C7: take any sequence of calls that open, close and reset zones of an initialised device, in which no zone
  is reset a second time without having been opened in between. Every page of every zone that has
  been opened and not reset since is then translated to a valid flash address, and no flash page
  belongs to two of these zones or to two pages of one zone. Resets of zones that were never opened
  are allowed; a second reset of a zone is not, since it takes the flash block group of another zone
  away.\<close>

theorem live_zones_isolated:
  assumes "dev_ok ssd" and "run_mapping n ops (dymap (zns_dynamic_mapping_init n ssd)) = Some d"
    and "no_stale_reset ops ({}, {})" and "z1 \<in> fst (fold track ops ({}, {}))" and "z2 \<in> fst (fold track ops ({}, {}))"
    and "wp1 div secs_per_pg (sp ssd) < fbg_pages ssd" and "wp2 div secs_per_pg (sp ssd) < fbg_pages ssd"
  shows "\<exists>p1 p2. get_ppa_by_lba_base (ssd\<lparr>dymap := d\<rparr>) z1 wp1 = Some p1 \<and>
    get_ppa_by_lba_base (ssd\<lparr>dymap := d\<rparr>) z2 wp2 = Some p2 \<and> valid_ppa ssd p1 \<and> valid_ppa ssd p2 \<and>
    (p1 = p2 \<longrightarrow> z1 = z2 \<and> wp1 div secs_per_pg (sp ssd) = wp2 div secs_per_pg (sp ssd))"
proof -
  let ?s = "ssd\<lparr>dymap := d\<rparr>" and ?page = "\<lambda>wp. wp div secs_per_pg (sp ssd)" and ?live = "fst (fold track ops ({}, {}))"
  have inv: "dymap_inv d" "live_inv d ?live" and per: "fbgs_per_dg d = blks_per_pl (sp ssd)"
    and sum: "die_group_sum d = tt_luns (sp ssd) div ZONE_MAX_DIE_PARA"
    using run_mapping_inv[OF assms(2,3) mapping_init_run[OF assms(1)]] mapping_init_inv[OF assms(1)] by (auto simp: run_inv_def)
  have get: "get_ppa_by_lba_base ?s z wp = Some (dyn_ppa ssd (zone_fbg d z) (?page wp)) \<and>
      valid_ppa ssd (dyn_ppa ssd (zone_fbg d z) (?page wp))" if "z \<in> ?live" "?page wp < fbg_pages ssd" for z wp
  proof -
    have "fst (zone_fbg d z) < die_group_sum d" "snd (zone_fbg d z) < fbgs_per_dg d"
      using inv(2) that(1) by (auto simp: live_inv_def)
    then show ?thesis
      using get_ppa_live[of ?s ?live z wp] dyn_ppa_valid[OF assms(1), of "zone_fbg d z" "?page wp"] that inv sum per assms(1)
      by simp
  qed
  have "z1 = z2 \<and> ?page wp1 = ?page wp2" if "dyn_ppa ssd (zone_fbg d z1) (?page wp1) = dyn_ppa ssd (zone_fbg d z2) (?page wp2)"
    using dyn_ppa_inj[OF that] inv(2) assms(4,5) by (auto simp: live_inv_def dest: inj_onD)
  with get[OF assms(4,6)] get[OF assms(5,7)] show ?thesis by blast
qed

lemma free_fbgs_filter: "free_fbgs bm = length (filter (\<lambda>u. u = 0) bm)"
  by (simp add: free_fbgs_def length_filter_conv_card)

lemma min_group_total: "\<forall>i \<in> set is. i < length bm \<Longrightarrow> \<exists>r. min_group bm is a = Some r"
  by (induction "is" arbitrary: a) auto

definition groups_free :: "nat \<Rightarrow> zns_dynamic_mapping \<Rightarrow> bool" where
  "groups_free z d \<longleftrightarrow> z < length (phy_zones d) \<and> die_group_sum d \<le> 4 \<and>
     (\<forall>j < die_group_sum d. die_group_used_bitmap d ! j < 100 \<and> 0 < remain_fbgs_num (dgroups d ! j))"

definition can_open_zone :: "nat \<Rightarrow> zns_dynamic_mapping \<Rightarrow> bool" where
  "can_open_zone z d \<longleftrightarrow> groups_free z d \<and> opened_zones_num d < length (opened_zones d) \<and>
     (st_stage_flag d \<noteq> 0 \<longrightarrow> opened_zones_num d < open_zone_limit d)"

lemma open_tail_total:
  assumes "dymap_inv d" and "g < die_group_sum d" and "z < length (phy_zones d)" and "0 < remain_fbgs_num (dgroups d ! g)"
  shows "\<exists>ofst d2. alloc_fbg 1 g (d\<lparr>phy_zones := (phy_zones d)[z := (phy_zones d ! z)\<lparr>map_die_group_num := 1,
        die_groups := (die_groups (phy_zones d ! z))[0 := g]\<rparr>],
      die_group_used_bitmap := (die_group_used_bitmap d)[g := Suc (die_group_used_bitmap d ! g)]\<rparr>) = Some (ofst, 0, d2) \<and>
    length (phy_zones d2) = length (phy_zones d)"
proof -
  let ?e = "d\<lparr>phy_zones := (phy_zones d)[z := (phy_zones d ! z)\<lparr>map_die_group_num := 1,
        die_groups := (die_groups (phy_zones d ! z))[0 := g]\<rparr>],
      die_group_used_bitmap := (die_group_used_bitmap d)[g := Suc (die_group_used_bitmap d ! g)]\<rparr>"
  have "dymap_inv ?e"
    using assms(1,3) by (intro dymap_inv_fields[OF assms(1)])
      (auto simp: dymap_inv_def dest!: set_update_subset_insert[THEN subsetD])
  from alloc_fbg_full_eq[OF this, of g] assms(2,4) obtain ofst where "alloc_fbg_full g ?e = Some (ofst, fbg_taken g ofst ?e)"
    by auto
  then show ?thesis by (simp add: alloc_fbg_def fbg_taken_def)
qed

lemma open_on_one_group_total:
  assumes "dymap_inv d" and "groups_free z d"
  shows "\<exists>d'. open_on_one_group z d = Some d'"
proof -
  have len: "length (dgroups d) = die_group_sum d" "length (die_group_used_bitmap d) = die_group_sum d" "0 < die_group_sum d"
    using assms(1) by (simp_all add: dymap_inv_def)
  have av: "filter (\<lambda>i. 0 < remain_fbgs_num (dgroups d ! i)) [0 ..< die_group_sum d] = [0 ..< die_group_sum d]"
    using assms(2) by (auto simp: filter_id_conv groups_free_def)
  obtain m g where mg: "min_group (die_group_used_bitmap d) [0 ..< die_group_sum d] (100, 0) = Some (m, g)"
    using min_group_total[of "[0 ..< die_group_sum d]" "die_group_used_bitmap d" "(100, 0)"] len by auto
  have g: "g < die_group_sum d" "m \<noteq> 100"
    using min_group_Some[OF mg] len assms(2) by (auto simp: groups_free_def not_less[symmetric])
  with open_tail_total[OF assms(1) g(1), of z] assms(2) len av mg show ?thesis
    by (auto simp: open_on_one_group_def those_nth_opt Let_def upd_phy_def use_group_def groups_free_def)
qed

lemma open_on_groups_total:
  assumes "dymap_inv d" and "groups_free z d"
  shows "\<exists>d'. open_on_groups z d = Some d'"
proof -
  have len: "length (dgroups d) = die_group_sum d" "length (die_group_used_bitmap d) = die_group_sum d" "0 < die_group_sum d"
      "open_zone_limit d = die_group_sum d"
    using assms(1) by (simp_all add: dymap_inv_def)
  have k: "div_opt (die_group_sum d) (open_zone_limit d) = Some (Suc 0)" using len by (simp add: div_opt_def)
  obtain m g where mg: "min_group (die_group_used_bitmap d) [0 ..< die_group_sum d] (100, 0) = Some (m, g)"
    using min_group_total[of "[0 ..< die_group_sum d]" "die_group_used_bitmap d" "(100, 0)"] len by auto
  have g: "g < die_group_sum d" using min_group_Some[OF mg] len by auto
  have z: "z < length (phy_zones d)" using assms(2) by (simp add: groups_free_def)
  then have l8: "length (die_groups (phy_zones d ! z)) = 8" using assms(1) by (simp add: dymap_inv_def)
  then have "g # drop (Suc 0) (die_groups (phy_zones d ! z)) = (die_groups (phy_zones d ! z))[0 := g]"
    by (cases "die_groups (phy_zones d ! z)") auto
  with open_tail_total[OF assms(1) g z] assms(2) len k mg g z l8 show ?thesis
    by (auto simp: open_on_groups_def Let_def upd_phy_def use_group_def groups_free_def filter_mod_1)
qed

lemma zone_open_total:
  assumes "dymap_inv d" and "can_open_zone z d" and "z < num_zones n"
  shows "\<exists>d'. zone_open n z d = Some d'"
proof -
  have "last_opened_zones_num d = 0" using assms(1) by (simp add: dymap_inv_def)
  moreover have "record_open z d \<noteq> None" using assms(2) by (auto simp: record_open_def Let_def can_open_zone_def Suc_le_eq)
  then obtain m d1 where r: "record_open z d = Some (m, d1)" by auto
  have f: "dymap_inv d1" using assms(1) record_open_frames[OF r]
    by (intro dymap_inv_fields[OF assms(1)]) (auto simp: dymap_inv_def)
  have gf: "groups_free z d1"
    using assms(2) record_open_frames[OF r] by (simp add: can_open_zone_def groups_free_def)
  ultimately show ?thesis
    using assms(3) r open_on_one_group_total[of d1 z] open_on_groups_total[of d1 z] f gf by (auto simp: zone_open_def)
qed

lemma can_open_fresh:
  assumes "dev_ok ssd" and "z < num_zones n"
  shows "can_open_zone z (dymap (zns_dynamic_mapping_init n ssd))"
proof -
  have "tt_luns (sp ssd) div ZONE_MAX_DIE_PARA = 4" "0 < blks_per_pl (sp ssd)"
    using assms(1) unfolding dev_ok_def Let_def INITIAL_OPEN_LIMIT_def by blast+
  with assms(2) show ?thesis
    by (auto simp: can_open_zone_def groups_free_def zns_dynamic_mapping_init_def Let_def MAXOPENZONES_def INITIAL_OPEN_LIMIT_def die_group_init_def)
qed

lemma mapping_open_fresh:
  assumes "dev_ok ssd" and "z < num_zones n"
  shows "\<exists>d. zone_open n z (dymap (zns_dynamic_mapping_init n ssd)) = Some d"
  using zone_open_total[OF mapping_init_inv(1)[OF assms(1)] can_open_fresh[OF assms] assms(2)] .

lemma zone_opened_opened:
  assumes "dymap_inv d" and "zone_open n z d = Some d'"
  shows "opened_zones_num d < length (opened_zones d)"
    "opened_zones d' = (opened_zones d)[opened_zones_num d := z]" "opened_zones_num d' = Suc (opened_zones_num d)"
proof -
  have "last_opened_zones_num d = 0" using assms(1) by (simp add: dymap_inv_def)
  then obtain m d1 where r: "record_open z d = Some (m, d1)"
    and o: "(if m < die_group_sum d1 then open_on_groups z d1 else open_on_one_group z d1) = Some d'"
    using assms(2) by (auto simp: zone_open_def bind_eq_Some_conv)
  have u: "use_group g e = Some e' \<Longrightarrow> opened_zones e' = opened_zones e \<and> opened_zones_num e' = opened_zones_num e" for g e e'
    by (auto simp: use_group_def bind_eq_Some_conv)
  have p: "upd_phy y f e = Some e' \<Longrightarrow> opened_zones e' = opened_zones e \<and> opened_zones_num e' = opened_zones_num e" for y f e e'
    by (auto simp: upd_phy_def bind_eq_Some_conv)
  have a: "alloc_fbg (Suc 0) g e = Some (x, y, e') \<Longrightarrow> opened_zones e' = opened_zones e \<and> opened_zones_num e' = opened_zones_num e" for g e x y e'
    by (auto simp: alloc_fbg_def alloc_fbg_full_def use_fbg_def upd_group_def bind_eq_Some_conv Let_def)
  have k: "div_opt (die_group_sum d1) (open_zone_limit d1) = Some (Suc 0)"
    using assms(1) record_open_frames[OF r] by (simp add: dymap_inv_def div_opt_def)
  have "opened_zones d' = opened_zones d1 \<and> opened_zones_num d' = opened_zones_num d1"
    using o k by (auto simp: open_on_groups_def open_on_one_group_def bind_eq_Some_conv Let_def split: if_splits
        dest!: u p a)
  then show "opened_zones_num d < length (opened_zones d)"
    "opened_zones d' = (opened_zones d)[opened_zones_num d := z]" "opened_zones_num d' = Suc (opened_zones_num d)"
    using r by (auto simp: record_open_def Let_def bind_eq_Some_conv upd_opt_eq_Some split: if_splits)
qed

lemma open_twice_fresh:
  assumes "dev_ok ssd" and "z < num_zones n" and "z' < num_zones n" and "1 < blks_per_pl (sp ssd)"
  shows "\<exists>d1 d2. zone_open n z (dymap (zns_dynamic_mapping_init n ssd)) = Some d1 \<and> zone_open n z' d1 = Some d2"
proof -
  let ?d = "dymap (zns_dynamic_mapping_init n ssd)"
  have four: "die_group_sum ?d = 4"
    unfolding mapping_init_inv(3)[OF assms(1)] using assms(1) unfolding dev_ok_def Let_def INITIAL_OPEN_LIMIT_def by blast
  note inv = mapping_init_inv(1)[OF assms(1), of n]
  obtain d1 where d1: "zone_open n z ?d = Some d1" using mapping_open_fresh[OF assms(1,2)] by blast
  obtain g ofst where o: "zone_opened z g ofst ?d d1" using zone_open_effect[OF inv d1] by blast
  have init: "die_group_used_bitmap ?d ! j = 0 \<and> remain_fbgs_num (dgroups ?d ! j) = blks_per_pl (sp ssd)" if "j < 4" for j
    using that four by (auto simp: zns_dynamic_mapping_init_def Let_def die_group_init_def)
  have len: "length (die_group_used_bitmap ?d) = 4" "length (dgroups ?d) = 4" "open_zone_limit ?d = 4"
      "opened_zones_num ?d = 0" "length (opened_zones ?d) = 10"
    using inv four by (auto simp: dymap_inv_def zns_dynamic_mapping_init_def Let_def MAXOPENZONES_def)
  have "groups_free z' d1"
    using o init assms(3,4) len four mapping_init_inv(4)[OF assms(1), of n]
    by (auto simp: groups_free_def zone_opened_def fbg_taken_def nth_list_update)
  moreover have "opened_zones_num d1 = 1" "length (opened_zones d1) = 10" "open_zone_limit d1 = 4"
    using zone_opened_opened[OF inv d1] len o by (simp_all add: zone_opened_def)
  ultimately have "can_open_zone z' d1" by (simp add: can_open_zone_def)
  with zone_open_total[OF zone_opened_inv[OF inv o] _ assms(3)] d1 show ?thesis by blast
qed

theorem live_zones_isolated_witness:
  "\<exists>d p1 p2. run_mapping ex_ctrl [OpenOp 2, OpenOp 3] (dymap (zns_dynamic_mapping_init ex_ctrl (fresh_ssd (ex_fc False)))) = Some d \<and>
    get_ppa_by_lba_base ((fresh_ssd (ex_fc False))\<lparr>dymap := d\<rparr>) 2 17 = Some p1 \<and>
    get_ppa_by_lba_base ((fresh_ssd (ex_fc False))\<lparr>dymap := d\<rparr>) 3 17 = Some p2 \<and> p1 \<noteq> p2"
proof -
  let ?s = "fresh_ssd (ex_fc False)"
  have z: "2 < num_zones ex_ctrl" "3 < num_zones ex_ctrl" "1 < blks_per_pl (sp ?s)"
    by (simp_all add: ex_ctrl_def fresh_ssd_sp) (simp add: zns_ssd_init_params_def Let_def)
  obtain d where d: "run_mapping ex_ctrl [OpenOp 2, OpenOp 3] (dymap (zns_dynamic_mapping_init ex_ctrl ?s)) = Some d"
    using open_twice_fresh[OF dev_ok_fresh z] by (auto simp: run_mapping_def)
  have "17 div secs_per_pg (sp ?s) < fbg_pages ?s"
    by (simp add: fbg_pages_def fresh_ssd_sp) (simp add: zns_ssd_init_params_def Let_def ZONE_MAX_DIE_PARA_def)
  with live_zones_isolated[OF dev_ok_fresh d, of 2 3 17 17] d show ?thesis by fastforce
qed

text \<open>C29: the round-robin search for a flash block group ends whenever the group has a free one. It takes one
  that no zone uses, lowers the count of free ones of the group by one, which keeps the count exact,
  and leaves every other flash block group and every other group of dies as it was.\<close>

theorem alloc_takes_free_fbg:
  assumes "dymap_inv d" and "g < die_group_sum d" and "0 < remain_fbgs_num (dgroups d ! g)"
  shows "\<exists>ofst d'. alloc_fbg 1 g d = Some (ofst, 0, d') \<and> ofst < fbgs_per_dg d \<and> fbg_used d (g, ofst) = 0 \<and>
    dymap_inv d' \<and> remain_fbgs_num (dgroups d' ! g) + 1 = remain_fbgs_num (dgroups d ! g) \<and>
    (\<forall>h < die_group_sum d. \<forall>f < fbgs_per_dg d. fbg_used d' (h, f) = (if (h, f) = (g, ofst) then 1 else fbg_used d (h, f))) \<and>
    (\<forall>h < die_group_sum d. h \<noteq> g \<longrightarrow> dgroups d' ! h = dgroups d ! h) \<and> phy_zones d' = phy_zones d"
proof -
  obtain ofst where o: "ofst < fbgs_per_dg d" "alloc_fbg_full g d = Some (ofst, fbg_taken g ofst d)"
      "fbg_used d (g, ofst) = 0" "dymap_inv (fbg_taken g ofst d)"
    using alloc_fbg_full_eq[OF assms] by blast
  have len: "length (fbgs_used_bitmap (dgroups d ! g)) = fbgs_per_dg d" "length (dgroups d) = die_group_sum d"
    using assms(1,2) by (auto simp: dymap_inv_def group_inv_def)
  have "fbg_used (fbg_taken g ofst d) (h, f) = (if (h, f) = (g, ofst) then 1 else fbg_used d (h, f))"
    if "h < die_group_sum d" "f < fbgs_per_dg d" for h f
    using that o(1) len by (cases "h = g") (auto simp: fbg_used_def fbg_taken_def nth_list_update)
  moreover have "dgroups (fbg_taken g ofst d) ! h = dgroups d ! h" if "h \<noteq> g" for h using that by (simp add: fbg_taken_def)
  moreover have "remain_fbgs_num (dgroups (fbg_taken g ofst d) ! g) + 1 = remain_fbgs_num (dgroups d ! g)"
      "phy_zones (fbg_taken g ofst d) = phy_zones d"
    using assms(2,3) len by (simp_all add: fbg_taken_def)
  ultimately show ?thesis using o by (intro exI[of _ ofst] exI[of _ "fbg_taken g ofst d"]) (simp add: alloc_fbg_def)
qed

theorem alloc_takes_free_fbg_witness:
  "\<exists>ofst d'. alloc_fbg 1 3 (dymap (zns_dynamic_mapping_init ex_ctrl (fresh_ssd (ex_fc False)))) = Some (ofst, 0, d')"
proof -
  let ?d = "dymap (zns_dynamic_mapping_init ex_ctrl (fresh_ssd (ex_fc False)))"
  have "3 < die_group_sum ?d" "0 < remain_fbgs_num (dgroups ?d ! 3)"
    by (simp_all add: zns_dynamic_mapping_init_def Let_def fresh_ssd_sp die_group_init_def)
       (simp_all add: zns_ssd_init_params_def Let_def ZONE_MAX_DIE_PARA_def die_group_init_def)
  with alloc_takes_free_fbg[OF mapping_init_inv(1)[OF dev_ok_fresh], of 3 ex_ctrl "ex_fc False"] show ?thesis by blast
qed

text \<open>C30: the group a zone is opened on. While no group counts 100 open zones or more, the bound the search starts
  from, the group that is chosen has a free flash block group, no group with a free one has fewer
  open zones, and only its number of open zones grows, by one. So if moreover every group has a free
  flash block group and the numbers of open zones of any two groups differed by at most one before,
  they still do.\<close>

theorem open_keeps_groups_even:
  assumes "dymap_inv d" and "zone_open n z d = Some d'" and "\<forall>j < die_group_sum d. die_group_used_bitmap d ! j < 100"
    and "g = fst (zone_fbg d' z)"
  shows "g < die_group_sum d \<and> 0 < remain_fbgs_num (dgroups d ! g) \<and>
    (\<forall>j < die_group_sum d. 0 < remain_fbgs_num (dgroups d ! j) \<longrightarrow> die_group_used_bitmap d ! g \<le> die_group_used_bitmap d ! j) \<and>
    die_group_used_bitmap d' = (die_group_used_bitmap d)[g := die_group_used_bitmap d ! g + 1] \<and>
    ((\<forall>j < die_group_sum d. 0 < remain_fbgs_num (dgroups d ! j)) \<and>
     (\<forall>i < die_group_sum d. \<forall>j < die_group_sum d. die_group_used_bitmap d ! i \<le> die_group_used_bitmap d ! j + 1) \<longrightarrow>
     (\<forall>i < die_group_sum d. \<forall>j < die_group_sum d. die_group_used_bitmap d' ! i \<le> die_group_used_bitmap d' ! j + 1))"
proof -
  obtain h ofst where o: "zone_opened z h ofst d d'" "0 < remain_fbgs_num (dgroups d ! h)"
      "\<forall>j < die_group_sum d. 0 < remain_fbgs_num (dgroups d ! j) \<longrightarrow> die_group_used_bitmap d ! h \<le> die_group_used_bitmap d ! j"
    using zone_open_effect[OF assms(1,2)] assms(3) by blast
  have h: "h = g" using zone_fbg_opened[OF assms(1) o(1)] assms(4) by simp
  have bm: "die_group_used_bitmap d' = (die_group_used_bitmap d)[g := die_group_used_bitmap d ! g + 1]" "g < die_group_sum d"
      "length (die_group_used_bitmap d) = die_group_sum d"
    using o(1) assms(1) h by (simp_all add: zone_opened_def dymap_inv_def)
  have even: "die_group_used_bitmap d' ! i \<le> die_group_used_bitmap d' ! j + 1"
    if "\<forall>j < die_group_sum d. 0 < remain_fbgs_num (dgroups d ! j)" "i < die_group_sum d" "j < die_group_sum d"
      "\<forall>i < die_group_sum d. \<forall>j < die_group_sum d. die_group_used_bitmap d ! i \<le> die_group_used_bitmap d ! j + 1" for i j
    using that(4)[rule_format, of i j] o(3)[rule_format, of j] that(1-3) bm h by (auto simp: nth_list_update)
  show ?thesis
  proof (intro conjI)
    show "(\<forall>j < die_group_sum d. 0 < remain_fbgs_num (dgroups d ! j)) \<and>
     (\<forall>i < die_group_sum d. \<forall>j < die_group_sum d. die_group_used_bitmap d ! i \<le> die_group_used_bitmap d ! j + 1) \<longrightarrow>
     (\<forall>i < die_group_sum d. \<forall>j < die_group_sum d. die_group_used_bitmap d' ! i \<le> die_group_used_bitmap d' ! j + 1)"
      using even by blast
  qed (use o(2,3) bm h in simp_all)
qed

theorem open_keeps_groups_even_witness:
  "\<exists>d'. zone_open ex_ctrl 1 (dymap (zns_dynamic_mapping_init ex_ctrl (fresh_ssd (ex_fc False)))) = Some d' \<and>
    die_group_used_bitmap d' ! 0 \<le> die_group_used_bitmap d' ! 3 + 1"
proof -
  let ?d = "dymap (zns_dynamic_mapping_init ex_ctrl (fresh_ssd (ex_fc False)))"
  have "1 < num_zones ex_ctrl" by (simp add: ex_ctrl_def)
  then obtain d' where d': "zone_open ex_ctrl 1 ?d = Some d'" using mapping_open_fresh[OF dev_ok_fresh] by blast
  have four: "die_group_sum ?d = 4"
    by (simp add: zns_dynamic_mapping_init_def Let_def fresh_ssd_sp) (simp add: zns_ssd_init_params_def Let_def ZONE_MAX_DIE_PARA_def)
  have b: "die_group_used_bitmap ?d ! j = 0 \<and> remain_fbgs_num (dgroups ?d ! j) = 64" if "j < 4" for j
    using that
    by (simp add: zns_dynamic_mapping_init_def Let_def fresh_ssd_sp die_group_init_def)
       (simp add: zns_ssd_init_params_def Let_def ZONE_MAX_DIE_PARA_def die_group_init_def)
  have "(\<forall>j < die_group_sum ?d. 0 < remain_fbgs_num (dgroups ?d ! j)) \<and>
      (\<forall>i < die_group_sum ?d. \<forall>j < die_group_sum ?d. die_group_used_bitmap ?d ! i \<le> die_group_used_bitmap ?d ! j + 1)"
    using b by (simp add: four)
  moreover have "\<forall>j < die_group_sum ?d. die_group_used_bitmap ?d ! j < 100" using b by (simp add: four)
  ultimately have "\<forall>i < 4. \<forall>j < 4. die_group_used_bitmap d' ! i \<le> die_group_used_bitmap d' ! j + 1"
    using open_keeps_groups_even[OF mapping_init_inv(1)[OF dev_ok_fresh] d' _ refl] unfolding four by blast
  with d' show ?thesis by auto
qed

text \<open>C31: an open zone that is opened again is recorded twice, since only zones of an earlier run are
  looked up; closing it then fails the assertion on the number of open zones.\<close>

theorem close_after_double_open_aborts:
  assumes "dymap_inv d" and "zone_open n z d = Some d1" and "zone_open n z d1 = Some d2"
  shows "zone_close n z d2 = None"
proof -
  have inv1: "dymap_inv d1" using zone_open_effect[OF assms(1,2)] zone_opened_inv[OF assms(1)] by blast
  note o1 = zone_opened_opened[OF assms(1,2)] and o2 = zone_opened_opened[OF inv1 assms(3)]
  let ?k = "opened_zones_num d" and ?o = "take (Suc (Suc (opened_zones_num d))) (opened_zones d2)"
  have take: "those (map (nth_opt (opened_zones d2)) [0 ..< opened_zones_num d2]) = Some ?o"
    using o1 o2 by (subst those_nth_opt) simp_all
  have o: "?o = take ?k (opened_zones d) @ [z, z]"
    using o1 o2 by (simp add: take_Suc_conv_app_nth take_update_cancel nth_list_update)
  then have len: "length (filter (\<lambda>y. y \<noteq> z) ?o) \<le> ?k" by (simp add: le_trans[OF length_filter_le])
  show ?thesis
  proof (rule ccontr)
    assume "zone_close n z d2 \<noteq> None"
    then obtain d' where "zone_close n z d2 = Some d'" by auto
    then obtain groups e where e: "foldM release_group groups d2 = Some e"
        "opened_zones_num e - 1 = length (filter (\<lambda>y. y \<noteq> z) ?o)"
      unfolding zone_close_def take Let_def by (auto simp: o bind_eq_Some_conv)
    with release_group_frames[OF e(1)] o1 o2 len show False by auto
  qed
qed

theorem close_after_double_open_aborts_witness:
  "\<exists>d1 d2. zone_open ex_ctrl 2 (dymap (zns_dynamic_mapping_init ex_ctrl (fresh_ssd (ex_fc False)))) = Some d1 \<and>
    zone_open ex_ctrl 2 d1 = Some d2 \<and> zone_close ex_ctrl 2 d2 = None"
proof -
  have z: "2 < num_zones ex_ctrl" "1 < blks_per_pl (sp (fresh_ssd (ex_fc False)))"
    by (simp_all add: ex_ctrl_def fresh_ssd_sp) (simp add: zns_ssd_init_params_def Let_def)
  from open_twice_fresh[OF dev_ok_fresh z(1,1,2)] show ?thesis
    using close_after_double_open_aborts[OF mapping_init_inv(1)[OF dev_ok_fresh]] by blast
qed

text \<open>A device with a single flash block group in each group of dies.\<close>

definition ex_narrow :: zns_ssd where
  "ex_narrow = (fresh_ssd (ex_fc False))\<lparr>sp := (sp (fresh_ssd (ex_fc False)))\<lparr>blks_per_pl := 1\<rparr>\<rparr>"

lemma no_free_fbg:
  assumes "dymap_inv d" and "g < die_group_sum d" and "remain_fbgs_num (dgroups d ! g) = 0" and "f < fbgs_per_dg d"
  shows "fbg_used d (g, f) \<noteq> 0"
  using assms free_fbgs_pos[of "fbgs_used_bitmap (dgroups d ! g)"] by (auto simp: dymap_inv_def group_inv_def fbg_used_def)

text \<open>C32: a second reset of a zone takes the flash block group of another zone away. \<open>zone_reset\<close> keeps the record
  of the zone it resets, so once the flash block group has been given to a zone that is live, resetting
  the first zone again passes the assertion, asks for the blocks to be erased and marks the flash
  block group as free, although the live zone is still mapped to it; when it is the only free one
  of its group, the next allocation hands it out again.\<close>

theorem stale_reset_frees_live_zone:
  assumes "dymap_inv d" and "live_inv d live" and "z' \<in> live" and "z \<notin> live" and "z < length (phy_zones d)"
    and "map_die_group_num (phy_zones d ! z) = 1" and "zone_fbg d z = zone_fbg d z'" and "zone_fbg d z' = (g, f)"
  shows "\<exists>d'. zone_reset_map z d = Some (True, d') \<and> zone_fbg d' z' = (g, f) \<and> map_die_group_num (phy_zones d' ! z') = 1 \<and>
    fbg_used d (g, f) = 1 \<and> fbg_used d' (g, f) = 0 \<and>
    (remain_fbgs_num (dgroups d ! g) = 0 \<longrightarrow> (\<exists>d''. alloc_fbg 1 g d' = Some (f, 0, d'')))"
proof -
  let ?d = "fbg_released (g, f) d"
  have l: "live_inv d {z}" "g < die_group_sum d" "f < fbgs_per_dg d" "fbg_used d (g, f) = 1" "map_die_group_num (phy_zones d ! z') = 1"
    using assms(2,3,5-8) by (auto simp: live_inv_def)
  have r: "zone_reset_map z d = Some (True, ?d)" "dymap_inv ?d"
    using zone_reset_map_live[OF assms(1) l(1)] assms(7,8) by simp_all
  note used = fbg_used_released[OF assms(1), of "(g, f)", simplified, OF l(2,3)]
  have "\<exists>d''. alloc_fbg 1 g ?d = Some (f, 0, d'')" if "remain_fbgs_num (dgroups d ! g) = 0"
  proof -
    have "length (dgroups d) = die_group_sum d" using assms(1) by (simp add: dymap_inv_def)
    then have "0 < remain_fbgs_num (dgroups ?d ! g)" using l(2) by (simp add: fbg_released_def)
    then obtain k where k: "k < fbgs_per_dg d" "alloc_fbg_full g ?d = Some (k, fbg_taken g k ?d)" "fbg_used ?d (g, k) = 0"
      using alloc_fbg_full_eq[OF r(2), of g] l(2) by auto
    then have "k = f" using no_free_fbg[OF assms(1) l(2) that k(1)] used[of "(g, k)"] l(2) by (simp split: if_splits)
    with k(2) show ?thesis by (simp add: alloc_fbg_def)
  qed
  with r(1) l assms(8) used[of "(g, f)"] show ?thesis by (intro exI[of _ ?d]) simp
qed

definition ex_one :: zns_dynamic_mapping where
  "ex_one = (let p = \<lparr>map_die_group_num = 0, die_groups = [0, 0, 0, 0, 0, 0, 0, 0], fbg_ofst = 0, fbg_part = 0\<rparr>
     in \<lparr>opened_zones = [0, 0, 0, 0, 0, 0, 0, 0, 0, 0], opened_zones_num = 0, open_zone_limit = 4, die_group_sum = 4,
     dgroups = [die_group_init 1 0, die_group_init 1 1, die_group_init 1 2, die_group_init 1 3],
     die_group_used_bitmap = [0, 0, 0, 0], fbgs_per_dg = 1, phy_zones = [p, p, p, p],
     st_stage_flag = 1, last_opened_zones_num = 0\<rparr>)"

lemma ex_narrow_init: "dymap (zns_dynamic_mapping_init ex_ctrl ex_narrow) = ex_one"
proof -
  have sp: "tt_luns (sp ex_narrow) = 64" "blks_per_pl (sp ex_narrow) = 1" "num_zones ex_ctrl = 4"
    by (simp_all add: ex_narrow_def fresh_ssd_sp ex_ctrl_def) (simp add: zns_ssd_init_params_def Let_def)
  have r: "replicate 4 x = [x, x, x, x]" "replicate 8 y = [y, y, y, y, y, y, y, y]"
      "replicate 10 y = [y, y, y, y, y, y, y, y, y, y]" for x :: 'a and y :: nat
    by (simp_all add: numeral_eq_Suc)
  show ?thesis
    by (simp add: zns_dynamic_mapping_init_def Let_def sp ex_one_def ZONE_MAX_DIE_PARA_def INITIAL_OPEN_LIMIT_def MAXOPENZONES_def r)
       (simp add: numeral_eq_Suc)
qed

lemma ex_narrow_ok: "dev_ok ex_narrow"
  by (simp add: dev_ok_def ex_narrow_def fresh_ssd_sp) (simp add: zns_ssd_init_params_def Let_def ZONE_MAX_DIE_PARA_def INITIAL_OPEN_LIMIT_def)

lemma ex_search: "fbg_search [0] (Suc 0) 0 = Some 0"
  by (subst fbg_search.simps) (simp add: nth_opt_def)

lemmas ex_run_defs = run_mapping_def zone_open_def zone_close_def zone_reset_map_def record_open_def open_on_one_group_def
  open_on_groups_def use_group_def upd_phy_def alloc_fbg_def alloc_fbg_full_def use_fbg_def upd_group_def
  release_group_def release_fbg_def wrap_next_def nth_opt_def upd_opt_def

lemma ex_stale_run:
  "\<exists>d. run_mapping ex_ctrl [OpenOp 0, CloseOp 0, ResetOp 0, OpenOp 1] ex_one = Some d \<and>
     0 < length (phy_zones d) \<and> map_die_group_num (phy_zones d ! 0) = 1 \<and> zone_fbg d 0 = (0, 0) \<and>
     zone_fbg d 1 = (0, 0) \<and> remain_fbgs_num (dgroups d ! 0) = 0"
proof -
  have nz: "num_zones ex_ctrl = 4" by (simp add: ex_ctrl_def)
  have up: "[0 ..< 4] = [0, 1, 2, 3]" by (simp add: upt_rec)
  show ?thesis
    by (simp add: ex_run_defs nz ex_one_def Let_def die_group_init_def ex_search up zone_fbg_def sub32_def numeral_2_eq_2 numeral_3_eq_3)
qed

theorem stale_reset_frees_live_zone_witness:
  "\<exists>d d' d''. run_mapping ex_ctrl [OpenOp 0, CloseOp 0, ResetOp 0, OpenOp 1] (dymap (zns_dynamic_mapping_init ex_ctrl ex_narrow)) = Some d \<and>
    zone_reset_map 0 d = Some (True, d') \<and> fbg_used d (zone_fbg d 1) = 1 \<and> fbg_used d' (zone_fbg d' 1) = 0 \<and>
    alloc_fbg 1 0 d' = Some (0, 0, d'')"
proof -
  let ?ops = "[OpenOp 0, CloseOp 0, ResetOp 0, OpenOp 1]"
  obtain d where d: "run_mapping ex_ctrl ?ops (dymap (zns_dynamic_mapping_init ex_ctrl ex_narrow)) = Some d"
    and f: "0 < length (phy_zones d)" "map_die_group_num (phy_zones d ! 0) = 1" "zone_fbg d 0 = (0, 0)" "zone_fbg d 1 = (0, 0)"
      "remain_fbgs_num (dgroups d ! 0) = 0"
    using ex_stale_run unfolding ex_narrow_init by blast
  have "run_inv d ({1}, {0})"
    using run_mapping_inv[OF d _ mapping_init_run[OF ex_narrow_ok]] by simp
  then have inv: "dymap_inv d" "live_inv d {1}" by (simp_all add: run_inv_def)
  have "zone_fbg d 0 = zone_fbg d 1" using f(3,4) by simp
  from stale_reset_frees_live_zone[OF inv _ _ f(1,2) this f(4)] obtain d' d'' where
    "zone_reset_map 0 d = Some (True, d')" "zone_fbg d' 1 = (0, 0)" "fbg_used d (0, 0) = 1" "fbg_used d' (0, 0) = 0"
    "alloc_fbg 1 0 d' = Some (0, 0, d'')"
    using f(5) by auto
  with d f(4) show ?thesis by (intro exI[of _ d] exI[of _ d'] exI[of _ d'']) (simp only: simp_thms)
qed

end
