(* ===== verification/DieList.thy ===== *)
theory DieList
  imports SsdTypes
begin

text \<open>
  The queue of a die (\<open>src/zns/fairness/fairness.c\<close>, \<open>InitList\<close>, \<open>InsertInTail\<close>,
  \<open>DeleteInHead\<close>): a doubly linked list with a head node and a pointer to its last node, over an
  explicit store of nodes. The locale \<open>fifo_queue\<close> is what the scheduler relies on, a first-in
  first-out queue; the linked list is its interpretation.
\<close>

section \<open>The list operations\<close>

definition InitList :: List_t where
  "InitList = \<lparr>nodes = (\<lambda>_. None)(0 \<mapsto> \<lparr>n_prev = None, n_data = 0, n_next = None\<rparr>), fresh = 1,
     l_head = 0, l_tail = 0, l_len = 0\<rparr>"

definition InsertInTail :: "List_t \<Rightarrow> nat \<Rightarrow> List_t option" where
  "InsertInTail l d = do {
     let temp = fresh l;
     t \<leftarrow> nodes l (l_tail l);
     Some (l\<lparr>nodes := (nodes l)(l_tail l \<mapsto> t\<lparr>n_next := Some temp\<rparr>,
                                temp \<mapsto> \<lparr>n_prev = Some (l_tail l), n_data = d, n_next = None\<rparr>),
             fresh := fresh l + 1, l_tail := temp, l_len := l_len l + 1\<rparr>)
   }"

text \<open>The result is the data of the first node, or nothing when the list is empty (\<open>-1\<close>).\<close>

definition DeleteInHead :: "List_t \<Rightarrow> (nat option \<times> List_t) option" where
  "DeleteInHead l = do {
     h \<leftarrow> nodes l (l_head l);
     (case n_next h of
        None \<Rightarrow> Some (None, l)
      | Some p \<Rightarrow> do {
          pn \<leftarrow> nodes l p;
          assert_c (n_prev pn = Some (l_head l));
          let l = l\<lparr>nodes := (nodes l)(l_head l \<mapsto> h\<lparr>n_next := n_next pn\<rparr>)\<rparr>;
          l \<leftarrow> (case n_next pn of
                  Some q \<Rightarrow> do {
                    qn \<leftarrow> nodes l q;
                    Some (l\<lparr>nodes := (nodes l)(q \<mapsto> qn\<lparr>n_prev := Some (l_head l)\<rparr>)\<rparr>)
                  }
                | None \<Rightarrow> Some (l\<lparr>l_tail := l_head l\<rparr>));
          Some (Some (n_data pn), l\<lparr>nodes := (nodes l)(p := None), l_len := l_len l - 1\<rparr>)
        })
   }"

section \<open>The contents of a list\<close>

text \<open>Following the next pointers from the head for as many nodes as the list counts.\<close>

fun walk :: "(nat \<Rightarrow> Node_t option) \<Rightarrow> nat \<Rightarrow> nat option \<Rightarrow> nat list" where
  "walk h (Suc k) (Some p) = (case h p of Some n \<Rightarrow> n_data n # walk h k (n_next n) | None \<Rightarrow> [])"
| "walk h _ _ = []"

definition list_contents :: "List_t \<Rightarrow> nat list" where
  "list_contents l =
     (case nodes l (l_head l) of Some h \<Rightarrow> walk (nodes l) (nat (l_len l)) (n_next h) | None \<Rightarrow> [])"

text \<open>The nodes from a pointer on: each points back to its predecessor, and the last has no next.\<close>

fun chain :: "(nat \<Rightarrow> Node_t option) \<Rightarrow> nat \<Rightarrow> nat option \<Rightarrow> (nat \<times> nat) list \<Rightarrow> nat \<Rightarrow> bool" where
  "chain h prev p [] last_node \<longleftrightarrow> p = None \<and> last_node = prev"
| "chain h prev p ((a, d) # xs) last_node \<longleftrightarrow>
     p = Some a \<and> (\<exists>nx. h a = Some \<lparr>n_prev = Some prev, n_data = d, n_next = nx\<rparr> \<and> chain h a nx xs last_node)"

definition list_rep :: "List_t \<Rightarrow> (nat \<times> nat) list \<Rightarrow> bool" where
  "list_rep l xs \<longleftrightarrow>
     (\<exists>h. nodes l (l_head l) = Some h \<and> chain (nodes l) (l_head l) (n_next h) xs (l_tail l)) \<and>
     distinct (l_head l # map fst xs) \<and> (\<forall>a \<in> set (l_head l # map fst xs). a < fresh l) \<and>
     l_len l = int (length xs)"

definition list_inv :: "List_t \<Rightarrow> bool" where
  "list_inv l \<longleftrightarrow> (\<exists>xs. list_rep l xs)"

lemma walk_chain: "chain h prev p xs z \<Longrightarrow> walk h (length xs) p = map snd xs"
  by (induction xs arbitrary: prev p) (auto split: option.splits)

lemma list_contents_rep: "list_rep l xs \<Longrightarrow> list_contents l = map snd xs"
  by (auto simp: list_rep_def list_contents_def dest: walk_chain)

lemma chain_upd_other: "a \<notin> set (map fst xs) \<Longrightarrow> chain (h(a := v)) prev p xs z = chain h prev p xs z"
  by (induction xs arbitrary: prev p) auto

lemma chain_last: "chain h prev p xs z \<Longrightarrow> z = last (prev # map fst xs)"
  by (induction xs arbitrary: prev p) auto

text \<open>Linking a new node behind the last one.\<close>

lemma chain_snoc:
  assumes "chain h prev p xs z" and "xs \<noteq> []" and "distinct (map fst xs)" and "new \<notin> set (map fst xs)"
    and "h z = Some t"
  shows "chain (h(z \<mapsto> t\<lparr>n_next := Some new\<rparr>, new \<mapsto> \<lparr>n_prev = Some z, n_data = d, n_next = None\<rparr>)) prev p (xs @ [(new, d)]) new"
  using assms
proof (induction xs arbitrary: prev p)
  case Nil
  then show ?case by simp
next
  case (Cons x xs)
  obtain a e where x: "x = (a, e)" by force
  show ?case
  proof (cases xs)
    case Nil
    with Cons.prems x show ?thesis by auto
  next
    case (Cons y ys)
    obtain nx where nx: "h a = Some \<lparr>n_prev = Some prev, n_data = e, n_next = nx\<rparr>" "chain h a nx xs z" "p = Some a"
      using Cons.prems(1) x by auto
    have z: "z \<in> set (map fst xs)" using chain_last[OF nx(2)] last_in_set[of "map fst xs"] Cons by simp
    then have "a \<noteq> z" "a \<noteq> new" using Cons.prems(3,4) x by auto
    with Cons.IH[OF nx(2)] Cons.prems x nx Cons show ?thesis by auto
  qed
qed

lemma chain_node: "chain h prev p xs z \<Longrightarrow> a \<in> set (map fst xs) \<Longrightarrow> \<exists>n. h a = Some n"
proof (induction xs arbitrary: prev p)
  case (Cons x xs)
  then show ?case by (cases x) auto
qed simp

lemma insert_rep:
  assumes "list_rep l xs"
  shows "\<exists>l'. InsertInTail l d = Some l' \<and> list_rep l' (xs @ [(fresh l, d)])"
proof -
  obtain h where h: "nodes l (l_head l) = Some h" "chain (nodes l) (l_head l) (n_next h) xs (l_tail l)"
    and d: "l_head l \<notin> set (map fst xs)" "distinct (map fst xs)" "l_head l < fresh l" "\<forall>a \<in> set (map fst xs). a < fresh l"
    and n: "l_len l = int (length xs)"
    using assms by (auto simp: list_rep_def)
  have new: "fresh l \<notin> set (map fst xs)" "fresh l \<noteq> l_head l" using d(3,4) by auto
  have tail: "l_tail l = last (l_head l # map fst xs)" by (rule chain_last[OF h(2)])
  show ?thesis
  proof (cases "xs = []")
    case True
    then show ?thesis
      using h n tail new d(3) by (simp add: InsertInTail_def list_rep_def Let_def)
  next
    case False
    then have mem: "l_tail l \<in> set (map fst xs)" using tail last_in_set[of "map fst xs"] by simp
    then obtain t where t: "nodes l (l_tail l) = Some t" using chain_node[OF h(2)] by auto
    have "l_tail l \<noteq> l_head l" using mem d(1) by metis
    then show ?thesis
      using chain_snoc[OF h(2) False d(2) new(1) t, of d] h(1) t d n new
      by (auto simp: InsertInTail_def list_rep_def less_Suc_eq Let_def)
  qed
qed

lemma delete_rep:
  assumes "list_rep l xs"
  shows "(case xs of [] \<Rightarrow> DeleteInHead l = Some (None, l)
    | (a, d) # ys \<Rightarrow> \<exists>l'. DeleteInHead l = Some (Some d, l') \<and> list_rep l' ys)"
proof -
  obtain h where h: "nodes l (l_head l) = Some h" "chain (nodes l) (l_head l) (n_next h) xs (l_tail l)"
    and d: "l_head l \<notin> set (map fst xs)" "distinct (map fst xs)" "l_head l < fresh l" "\<forall>a \<in> set (map fst xs). a < fresh l"
    and n: "l_len l = int (length xs)"
    using assms by (auto simp: list_rep_def)
  show ?thesis
  proof (cases xs)
    case Nil
    with h show ?thesis by (simp add: DeleteInHead_def)
  next
    case (Cons x ys)
    obtain a e where x: "x = (a, e)" by force
    with h(2) Cons obtain nx where nx: "nodes l a = Some \<lparr>n_prev = Some (l_head l), n_data = e, n_next = nx\<rparr>"
      "n_next h = Some a" "chain (nodes l) a nx ys (l_tail l)" by auto
    have a: "a \<noteq> l_head l" "a \<notin> set (map fst ys)" using d Cons x by auto
    show ?thesis
    proof (cases ys)
      case Nil
      with nx h d n Cons x a show ?thesis by (auto simp: DeleteInHead_def list_rep_def Let_def)
    next
      case (Cons y zs)
      obtain b g where y: "y = (b, g)" by force
      with nx(3) Cons obtain ny where ny: "nx = Some b" "nodes l b = Some \<lparr>n_prev = Some a, n_data = g, n_next = ny\<rparr>"
        "chain (nodes l) b ny zs (l_tail l)" by auto
      have "b \<noteq> l_head l" "b \<noteq> a" "b \<notin> set (map fst zs)" "a \<notin> set (map fst zs)" "l_head l \<notin> set (map fst zs)"
        using d a \<open>xs = x # ys\<close> x y Cons by auto
      with nx h ny d n \<open>xs = x # ys\<close> x y Cons a show ?thesis
        by (auto simp: DeleteInHead_def list_rep_def Let_def chain_upd_other)
    qed
  qed
qed

section \<open>First in, first out\<close>

text \<open>A sequence of insertions (\<open>Some x\<close>) and removals (\<open>None\<close>) on a queue, with the results of the
  removals, and on a list.\<close>

fun queue_run ::
  "('q \<Rightarrow> 'a \<Rightarrow> 'q option) \<Rightarrow> ('q \<Rightarrow> ('a option \<times> 'q) option) \<Rightarrow> 'q \<Rightarrow> 'a option list \<Rightarrow> ('a option list \<times> 'q) option" where
  "queue_run ins_q del_q q [] = Some ([], q)"
| "queue_run ins_q del_q q (Some x # ops) = do { q \<leftarrow> ins_q q x; queue_run ins_q del_q q ops }"
| "queue_run ins_q del_q q (None # ops) = do {
     (x, q) \<leftarrow> del_q q; (ys, q) \<leftarrow> queue_run ins_q del_q q ops; Some (x # ys, q) }"

fun list_run :: "'a list \<Rightarrow> 'a option list \<Rightarrow> 'a option list \<times> 'a list" where
  "list_run xs [] = ([], xs)"
| "list_run xs (Some x # ops) = list_run (xs @ [x]) ops"
| "list_run xs (None # ops) =
     (let (ys, r) = list_run (tl xs) ops in ((case xs of [] \<Rightarrow> None | x # _ \<Rightarrow> Some x) # ys, r))"

locale fifo_queue =
  fixes inv :: "'q \<Rightarrow> bool"
    and contents :: "'q \<Rightarrow> 'a list"
    and empty :: 'q
    and ins :: "'q \<Rightarrow> 'a \<Rightarrow> 'q option"
    and del :: "'q \<Rightarrow> ('a option \<times> 'q) option"
  assumes empty_law: "inv empty" "contents empty = []"
    and ins_law: "inv q \<Longrightarrow> \<exists>q'. ins q x = Some q' \<and> inv q' \<and> contents q' = contents q @ [x]"
    and del_law: "inv q \<Longrightarrow> \<exists>q'. del q = Some (case contents q of [] \<Rightarrow> None | x # _ \<Rightarrow> Some x, q') \<and> inv q' \<and>
      contents q' = tl (contents q)"
begin

lemma run_eq:
  assumes "inv q"
  shows "\<exists>q'. queue_run ins del q ops = Some (fst (list_run (contents q) ops), q') \<and> inv q' \<and>
    contents q' = snd (list_run (contents q) ops)"
  using assms
proof (induction ops arbitrary: q)
  case Nil
  then show ?case by simp
next
  case (Cons op ops)
  show ?case
  proof (cases op)
    case None
    obtain q' where q': "del q = Some (case contents q of [] \<Rightarrow> None | x # _ \<Rightarrow> Some x, q')" "inv q'"
        "contents q' = tl (contents q)"
      using del_law[OF Cons.prems] by blast
    from Cons.IH[OF q'(2)] q' None show ?thesis by (auto simp: case_prod_unfold Let_def)
  next
    case (Some x)
    obtain q' where q': "ins q x = Some q'" "inv q'" "contents q' = contents q @ [x]"
      using ins_law[OF Cons.prems] by blast
    from Cons.IH[OF q'(2)] q' Some show ?thesis by (auto simp: case_prod_unfold Let_def)
  qed
qed

end

interpretation die_q: fifo_queue list_inv list_contents InitList InsertInTail DeleteInHead
proof unfold_locales
  have "list_rep InitList []" by (simp add: list_rep_def InitList_def)
  then show "list_inv InitList" "list_contents InitList = []"
    by (auto simp: list_inv_def list_contents_rep)
next
  fix q x assume "list_inv q"
  then obtain xs where xs: "list_rep q xs" by (auto simp: list_inv_def)
  from insert_rep[OF this, of x] obtain l' where "InsertInTail q x = Some l'" "list_rep l' (xs @ [(fresh q, x)])"
    by blast
  with xs show "\<exists>q'. InsertInTail q x = Some q' \<and> list_inv q' \<and> list_contents q' = list_contents q @ [x]"
    by (auto simp: list_inv_def list_contents_rep)
next
  fix q assume "list_inv q"
  then obtain xs where xs: "list_rep q xs" by (auto simp: list_inv_def)
  show "\<exists>q'. DeleteInHead q = Some (case list_contents q of [] \<Rightarrow> None | x # _ \<Rightarrow> Some x, q') \<and> list_inv q' \<and>
      list_contents q' = tl (list_contents q)"
    using delete_rep[OF xs] xs
    by (cases xs) (auto simp: list_inv_def list_contents_rep)
qed

text \<open>C28: whatever sequence of insertions and removals is run on a new die queue, the pointer
  manipulation never follows a dangling pointer and returns exactly what a first-in first-out list
  returns.\<close>

theorem die_list_refines_fifo:
  "\<exists>q'. queue_run InsertInTail DeleteInHead InitList ops = Some (fst (list_run [] ops), q') \<and>
    list_contents q' = snd (list_run [] ops)"
  using die_q.run_eq[OF die_q.empty_law(1), of ops] by (auto simp: die_q.empty_law)

end
