(* ===== verification/Sched.thy ===== *)
theory Sched
  imports DynMap DieList "HOL-Library.Multiset"
begin

text \<open>
  The scheduler of the flash device (\<open>src/zns/fairness/fairness.c\<close>): requests are split into one
  transaction per die (\<open>zone_rw\<close>, \<open>zone_reset\<close>), the transactions wait in the queue of their die,
  and \<open>zns_process_die_queue\<close> takes one from the queue of every idle die; the request is given back
  to the poller when its last transaction has been taken (\<open>release_ts\<close>).

  The poller rings are the trace \<open>to_poller\<close>; the clock is an argument. The statistics, the number of
  operations of a transaction and the expiry time of a request are numbers that do not wrap.
\<close>

section \<open>Stores\<close>

definition alloc_ptr :: "zns_ssd \<Rightarrow> nat \<times> zns_ssd" where
  "alloc_ptr ssd = (next_ptr ssd, ssd\<lparr>next_ptr := next_ptr ssd + 1\<rparr>)"

definition queue_ts :: "nat \<Rightarrow> zns_ssd \<Rightarrow> zns_ssd option" where
  "queue_ts ts ssd = do {
     t \<leftarrow> ts_heap ssd ts;
     l \<leftarrow> nth_opt (die_list ssd) (die_idx t);
     l \<leftarrow> InsertInTail l ts;
     Some (ssd\<lparr>die_list := (die_list ssd)[die_idx t := l]\<rparr>)
   }"

definition upd_ts :: "nat \<Rightarrow> (flash_transaction \<Rightarrow> flash_transaction) \<Rightarrow> zns_ssd \<Rightarrow> zns_ssd option" where
  "upd_ts ts f ssd = do { t \<leftarrow> ts_heap ssd ts; Some (ssd\<lparr>ts_heap := (ts_heap ssd)(ts \<mapsto> f t)\<rparr>) }"

definition submit :: "nat \<Rightarrow> FtlRequest \<Rightarrow> zns_ssd \<Rightarrow> zns_ssd" where
  "submit index_poller req ssd = ssd\<lparr>to_poller := to_poller ssd @ [(index_poller, req)]\<rparr>"

section \<open>Completion of a transaction\<close>

fun clear_slot :: "nat \<Rightarrow> nat option list \<Rightarrow> nat option list option" where
  "clear_slot ts [] = None"
| "clear_slot ts (p # ps) = (if p = Some ts then Some (None # ps) else map_option ((#) p) (clear_slot ts ps))"

definition release_ts :: "nat \<Rightarrow> nat \<Rightarrow> nat \<Rightarrow> zns_ssd \<Rightarrow> zns_ssd option" where
  "release_ts index_poller ts curlat ssd = do {
     t \<leftarrow> ts_heap ssd ts;
     r \<leftarrow> plus_heap ssd (req_plus t);
     let r = r\<lparr>maxlat := curlat, ts_num := sub32 (ts_num r) 1\<rparr>;
     if ts_num r = 0 then do {
       let req = (p_req r)\<lparr>reqlat := maxlat r, expire_time := expire_time (p_req r) + maxlat r\<rparr>;
       let ssd = submit index_poller req ssd;
       Some (ssd\<lparr>plus_heap := (plus_heap ssd)(req_plus t := None), ts_heap := (ts_heap ssd)(ts := None)\<rparr>)
     } else
       (case clear_slot ts (flash_ts r) of
          Some fs \<Rightarrow> Some (ssd\<lparr>plus_heap := (plus_heap ssd)(req_plus t \<mapsto> r\<lparr>flash_ts := fs\<rparr>),
                             ts_heap := (ts_heap ssd)(ts := None)\<rparr>)
        | None \<Rightarrow> Some (ssd\<lparr>plus_heap := (plus_heap ssd)(req_plus t \<mapsto> r)\<rparr>))
   }"

section \<open>Reset\<close>

text \<open>One round of the loop of \<open>zone_reset\<close>: a transaction for die \<open>j\<close>. The fields \<open>blk_idx\<close> and
  \<open>pg_idx\<close> are left as allocated and never read.\<close>

definition reset_die :: "nat \<Rightarrow> nat \<Rightarrow> nat \<Rightarrow> zns_ssd \<Rightarrow> zns_ssd option" where
  "reset_die rp zone j ssd = do {
     let (ts, ssd) = alloc_ptr ssd;
     let t = \<lparr>req_plus = rp, zone_idx = zone, ops_num = pls_per_lun (sp ssd), die_idx = j,
              pl_idx = 0, blk_idx = 0, pg_idx = 0\<rparr>;
     assert_c (j + 1 \<le> tt_luns (sp ssd));
     r \<leftarrow> plus_heap ssd rp;
     let ssd = ssd\<lparr>ts_heap := (ts_heap ssd)(ts \<mapsto> t),
                   plus_heap := (plus_heap ssd)(rp \<mapsto> r\<lparr>flash_ts := flash_ts r @ [Some ts]\<rparr>)\<rparr>;
     queue_ts ts ssd
   }"

definition zone_reset :: "FtlRequest \<Rightarrow> nat \<Rightarrow> zns_ssd \<Rightarrow> (nat \<times> zns_ssd) option" where
  "zone_reset req zone ssd = do {
     (erase, d) \<leftarrow> zone_reset_map zone (dymap ssd);
     ssd \<leftarrow> (if erase then do {
         phy \<leftarrow> nth_opt (phy_zones (dymap ssd)) zone;
         g \<leftarrow> nth_opt (die_groups phy) 0;
         dg \<leftarrow> nth_opt (dgroups (dymap ssd)) g;
         first_die \<leftarrow> nth_opt (die dg) 0;
         let k = u32 (map_die_group_num phy * ZONE_MAX_DIE_PARA);
         let (rp, ssd) = alloc_ptr ssd;
         let ssd = ssd\<lparr>plus_heap := (plus_heap ssd)(rp \<mapsto>
               \<lparr>p_req = req, flash_ts = [], ts_num = k, ts_sum = k, maxlat = 0, cmd_type = NAND_ERASE\<rparr>)\<rparr>;
         foldM (reset_die rp zone) [first_die ..< first_die + k] ssd
       } else Some ssd);
     Some (if erase then 1 else 0, ssd\<lparr>dymap := d\<rparr>)
   }"

section \<open>Reads and writes\<close>

text \<open>The transactions of a request before its pages are dealt to them.\<close>

fun new_ts :: "nat \<Rightarrow> zns_ssd \<Rightarrow> nat list \<times> zns_ssd" where
  "new_ts 0 ssd = ([], ssd)"
| "new_ts (Suc k) ssd =
     (let (ts, ssd) = alloc_ptr ssd;
          ssd = ssd\<lparr>ts_heap := (ts_heap ssd)(ts \<mapsto>
                  \<lparr>req_plus = 0, zone_idx = 0, ops_num = 0, die_idx = 0, pl_idx = 0, blk_idx = 0, pg_idx = 0xff\<rparr>)\<rparr>;
          (rest, ssd) = new_ts k ssd
      in (ts # rest, ssd))"

text \<open>The loop over the pages: the page at \<open>i\<close> goes to transaction \<open>temp\<close>.\<close>

definition deal_page :: "nat \<Rightarrow> nat \<Rightarrow> nat \<Rightarrow> zns_ssd \<Rightarrow> zns_ssd option" where
  "deal_page zone i ts ssd = do {
     p \<leftarrow> get_ppa_by_lba_base ssd zone i;
     t \<leftarrow> ts_heap ssd ts;
     let t = t\<lparr>die_idx := g_ch p * luns_per_ch (sp ssd) + g_lun p\<rparr>;
     assert_c (die_idx t < tt_luns (sp ssd));
     t \<leftarrow> (if pl_idx t = 0xff then do {
              let t = t\<lparr>pl_idx := g_pl p\<rparr>;
              assert_c (pl_idx t < pls_per_lun (sp ssd));
              Some t
            } else Some t);
     Some (ssd\<lparr>ts_heap := (ts_heap ssd)(ts \<mapsto> t\<lparr>ops_num := ops_num t + 1\<rparr>)\<rparr>)
   }"

partial_function (option) rw_pages ::
  "nat \<Rightarrow> nat list \<Rightarrow> nat \<Rightarrow> nat \<Rightarrow> nat \<Rightarrow> nat \<Rightarrow> zns_ssd \<Rightarrow> zns_ssd option" where
  "rw_pages zone tts tt_lba_page limit i temp ssd =
     (if i < limit then do {
        ts \<leftarrow> nth_opt tts temp;
        ssd \<leftarrow> deal_page zone i ts ssd;
        rw_pages zone tts tt_lba_page limit (u32 (i + tt_lba_page)) (if Suc temp = length tts then 0 else Suc temp) ssd
      } else Some ssd)"

definition link_ts :: "nat \<Rightarrow> nat \<Rightarrow> nat \<Rightarrow> zns_ssd \<Rightarrow> zns_ssd option" where
  "link_ts rp zone ts ssd = do {
     ssd \<leftarrow> upd_ts ts (\<lambda>t. t\<lparr>req_plus := rp, zone_idx := zone\<rparr>) ssd;
     queue_ts ts ssd }"

definition rw_cmd_type :: "NvmeCmd \<Rightarrow> nat \<Rightarrow> nand_op option" where
  "rw_cmd_type cmd groups =
     (case opcode cmd of
        NVME_CMD_WRITE \<Rightarrow> do { assert_c (groups > 0); Some NAND_WRITE }
      | NVME_CMD_READ \<Rightarrow> Some NAND_READ
      | _ \<Rightarrow> None)"

text \<open>The part of \<open>zone_rw\<close> after the start of the request has been moved to the next page.\<close>

definition split_rw :: "FtlRequest \<Rightarrow> nat \<Rightarrow> nat \<Rightarrow> nat \<Rightarrow> nat \<Rightarrow> phy_zone \<Rightarrow> zns_ssd \<Rightarrow> zns_ssd option" where
  "split_rw req zone tt_lba_page nlb new_wp phy ssd = do {
     let page_num = u32 (sub32 nlb 1 div tt_lba_page + 1);
     let (rp, ssd) = alloc_ptr ssd;
     ct \<leftarrow> rw_cmd_type (r_cmd req) (map_die_group_num phy);
     let para_num_in_zone = u32 (map_die_group_num phy * ZONE_MAX_DIE_PARA);
     let k = (if page_num > para_num_in_zone then para_num_in_zone else page_num);
     let (tts, ssd) = new_ts k ssd;
     let ssd = ssd\<lparr>plus_heap := (plus_heap ssd)(rp \<mapsto>
           \<lparr>p_req = req, flash_ts = map Some tts, ts_num = k, ts_sum = k, maxlat = 0, cmd_type = ct\<rparr>)\<rparr>;
     ssd \<leftarrow> rw_pages zone tts tt_lba_page (u32 (new_wp + nlb)) new_wp 0 ssd;
     foldM (link_ts rp zone) tts ssd
   }"

definition zone_rw :: "FemuCtrl \<Rightarrow> FtlRequest \<Rightarrow> nat \<Rightarrow> nat \<Rightarrow> zns_ssd \<Rightarrow> zns_ssd option" where
  "zone_rw n req zone wp ssd = do {
     phy \<leftarrow> nth_opt (phy_zones (dymap ssd)) zone;
     tt_lba_page \<leftarrow> div_opt (secs_per_pg (sp ssd) * secsz (sp ssd)) (u32 (2 ^ zns_ns_lbads n));
     assert_c (tt_lba_page > 0);
     let nlb = zone_nlb (r_cmd req);
     let unaligned = (wp mod tt_lba_page > 0);
     let new_wp = u32 (if unaligned then (wp div tt_lba_page + 1) * tt_lba_page else wp);
     let skip = sub64 new_wp wp;
     if unaligned \<and> nlb \<le> skip then Some ssd
     else split_rw req zone tt_lba_page (if unaligned then u32 (sub64 nlb skip) else nlb) new_wp phy ssd
   }"

section \<open>Distribution of requests\<close>

text \<open>The first 150 reads and writes are answered at once.\<close>

definition counted :: "zns_ssd \<Rightarrow> zns_ssd" where
  "counted ssd = (if start_up_flag ssd = 0 then
                    (let ssd = ssd\<lparr>req_sum := req_sum ssd + 1\<rparr>
                     in if req_sum ssd > 150 then ssd\<lparr>start_up_flag := 1\<rparr> else ssd)
                  else ssd)"

definition zns_req_distribute :: "FemuCtrl \<Rightarrow> nat \<Rightarrow> FtlRequest \<Rightarrow> zns_ssd \<Rightarrow> zns_ssd option" where
  "zns_req_distribute n index_poller req ssd = do {
     let cmd = r_cmd req;
     let slba = rw_slba cmd;
     zone \<leftarrow> zns_zone_idx n slba;
     assert_c (zone < num_zones n);
     z \<leftarrow> zone_at n zone;
     let wp = sub64 slba (d_zslba z);
     phy \<leftarrow> nth_opt (phy_zones (dymap ssd)) zone;
     let done_now = submit index_poller (req\<lparr>reqlat := 0\<rparr>);
     if opcode cmd \<noteq> NVME_CMD_WRITE \<and> opcode cmd \<noteq> NVME_CMD_READ then do {
       assert_c (wp = 0);
       let action = u32 (cdw13 cmd) AND 0xff;
       if action \<noteq> NVME_ZONE_ACTION_RESET then do {
         d \<leftarrow> (if action = NVME_ZONE_ACTION_OPEN then zone_open n zone (dymap ssd)
               else if action = NVME_ZONE_ACTION_CLOSE then zone_close n zone (dymap ssd)
               else Some (dymap ssd));
         Some (done_now (ssd\<lparr>dymap := d\<rparr>))
       } else do {
         (ret, ssd) \<leftarrow> zone_reset req zone ssd;
         Some (if ret = 0 then done_now ssd else ssd)
       }
     } else do {
       let ssd = counted ssd;
       if start_up_flag ssd \<noteq> 0 then
         (if opcode cmd = NVME_CMD_READ \<and> map_die_group_num phy = 0 then Some (done_now ssd)
          else zone_rw n req zone wp ssd)
       else Some (done_now ssd)
     }
   }"

section \<open>Processing the queues\<close>

definition op_time :: "ssdparams \<Rightarrow> nand_op \<Rightarrow> nat option" where
  "op_time spp ct =
     (case ct of NAND_WRITE \<Rightarrow> Some (pg_wr_lat spp) | NAND_READ \<Rightarrow> Some (pg_rd_lat spp)
      | NAND_ERASE \<Rightarrow> Some (blk_er_lat spp) | NAND_OTHER _ \<Rightarrow> None)"

text \<open>The service of a transaction that has been taken from the queue of its die: the die is occupied,
  the statistics are kept, the transaction is released. The latency of an unknown command is that
  of the transaction before it.\<close>

definition occupy_die :: "nat \<Rightarrow> nat \<Rightarrow> nand_op \<Rightarrow> nat \<Rightarrow> nat \<Rightarrow> nat \<Rightarrow> zns_ssd \<Rightarrow> (nat \<times> zns_ssd) option" where
  "occupy_die now i ct pl_ops start curlat ssd =
     (case op_time (sp ssd) ct of
        None \<Rightarrow> Some (curlat, ssd)
      | Some lat \<Rightarrow> do {
          let busy = u32 (pl_ops * lat);
          let avail = u64 (now + busy);
          let ssd = upd_lun \<lparr>g_ch = i mod nchs (sp ssd), g_lun = i div nchs (sp ssd), g_pl = 0, g_blk = 0, g_pg = 0, g_sec = 0\<rparr>
                      (\<lambda>l. l\<lparr>next_lun_avail_time := avail\<rparr>) ssd;
          times \<leftarrow> upd_opt (dg_time_us ssd) (i div ZONE_MAX_DIE_PARA) (\<lambda>x. x + busy div 1000);
          Some (sub64 avail start,
                ssd\<lparr>sum_serv_time_us := sum_serv_time_us ssd + busy div 1000, dg_time_us := times\<rparr>)
        })"

definition serve_ts :: "nat \<Rightarrow> nat \<Rightarrow> nat \<Rightarrow> nat \<Rightarrow> nat \<Rightarrow> zns_ssd \<Rightarrow> (nat \<times> zns_ssd) option" where
  "serve_ts index_poller now i ts curlat ssd = do {
     t \<leftarrow> ts_heap ssd ts;
     assert_c (die_idx t = i);
     r \<leftarrow> plus_heap ssd (req_plus t);
     q \<leftarrow> div_opt (sub32 (u32 (pl_idx t + ops_num t)) 1) (pls_per_lun (sp ssd));
     let pl_ops = u32 (q + 1);
     (curlat, ssd) \<leftarrow> occupy_die now i (cmd_type r) pl_ops (stime (p_req r)) curlat ssd;
     let ssd = (if cmd_type r \<noteq> NAND_ERASE
                then ssd\<lparr>pl_sz := pl_sz ssd + ops_num t, pl_sum := pl_sum ssd + ops_num t, ops_sum := ops_sum ssd + pl_ops\<rparr>
                else ssd);
     ssd \<leftarrow> release_ts index_poller ts curlat ssd;
     Some (curlat, ssd)
   }"

text \<open>The body of the loop for die \<open>i\<close>; \<open>clock i\<close> is the reading of the clock in its round.\<close>

definition process_die :: "nat \<Rightarrow> (nat \<Rightarrow> nat) \<Rightarrow> nat \<Rightarrow> nat \<times> zns_ssd \<Rightarrow> (nat \<times> zns_ssd) option" where
  "process_die index_poller clock i = (\<lambda>(curlat, ssd). do {
     let spp = sp ssd;
     chip \<leftarrow> div_opt i (nchs spp);
     lun \<leftarrow> get_lun ssd \<lparr>g_ch = i mod nchs spp, g_lun = chip, g_pl = 0, g_blk = 0, g_pg = 0, g_sec = 0\<rparr>;
     if next_lun_avail_time lun \<le> clock i then do {
       l \<leftarrow> nth_opt (die_list ssd) i;
       (x, l) \<leftarrow> DeleteInHead l;
       (case x of
          None \<Rightarrow> Some (curlat, ssd)
        | Some ts \<Rightarrow> serve_ts index_poller (clock i) i ts curlat (ssd\<lparr>die_list := (die_list ssd)[i := l]\<rparr>))
     } else Some (curlat, ssd)
   })"

definition zns_process_die_queue :: "nat \<Rightarrow> (nat \<Rightarrow> nat) \<Rightarrow> zns_ssd \<Rightarrow> zns_ssd option" where
  "zns_process_die_queue index_poller clock ssd = do {
     (_, ssd) \<leftarrow> foldM (process_die index_poller clock) [0 ..< tt_luns (sp ssd)] (0, ssd);
     Some ssd
   }"

definition zns_ftl_init :: "FemuCtrl \<Rightarrow> zns_ssd \<Rightarrow> zns_ssd" where
  "zns_ftl_init n ssd = zns_dynamic_mapping_init n (ssd\<lparr>die_list := replicate (tt_luns (sp ssd)) InitList\<rparr>)"

section \<open>The invariant of the queues\<close>

definition waiting_ts :: "zns_ssd \<Rightarrow> nat list" where
  "waiting_ts ssd = concat (map list_contents (die_list ssd))"

definition ts_of :: "zns_ssd \<Rightarrow> nat \<Rightarrow> nat set" where
  "ts_of ssd rp = {ts \<in> set (waiting_ts ssd). \<exists>t. ts_heap ssd ts = Some t \<and> req_plus t = rp}"

text \<open>\<open>pending rp\<close> is the number of transactions of a request that have not been queued yet.\<close>

definition sched_inv :: "(nat \<Rightarrow> nat) \<Rightarrow> zns_ssd \<Rightarrow> bool" where
  "sched_inv pending ssd \<longleftrightarrow>
     length (die_list ssd) = tt_luns (sp ssd) \<and> (\<forall>l \<in> set (die_list ssd). list_inv l) \<and> distinct (waiting_ts ssd) \<and>
     (\<forall>i < tt_luns (sp ssd). \<forall>ts \<in> set (list_contents (die_list ssd ! i)).
        \<exists>t. ts_heap ssd ts = Some t \<and> die_idx t = i \<and> plus_heap ssd (req_plus t) \<noteq> None) \<and>
     (\<forall>rp r. plus_heap ssd rp = Some r \<longrightarrow>
        ts_num r < 2 ^ 32 \<and> ts_num r = card (ts_of ssd rp) + pending rp) \<and>
     (\<forall>p \<ge> next_ptr ssd. ts_heap ssd p = None \<and> plus_heap ssd p = None)"

text \<open>The parts of the device the loop over the dies relies on.\<close>

definition dies_ok :: "zns_ssd \<Rightarrow> bool" where
  "dies_ok ssd \<longleftrightarrow>
     0 < nchs (sp ssd) \<and> 0 < pls_per_lun (sp ssd) \<and> tt_luns (sp ssd) \<le> ZONE_MAX_DIE_PARA * length (dg_time_us ssd) \<and>
     (\<forall>i < tt_luns (sp ssd). lun_in ssd (die_at ssd i))"

section \<open>Queue updates\<close>

lemma concat_upd: "i < length xss \<Longrightarrow> mset (concat (xss[i := ys])) + mset (xss ! i) = mset (concat xss) + mset ys"
  by (induction xss arbitrary: i) (auto split: nat.splits)

lemma sched_inv_cong:
  assumes "die_list s' = die_list s" and "sp s' = sp s" and "ts_heap s' = ts_heap s" and "plus_heap s' = plus_heap s"
    and "next_ptr s' = next_ptr s"
  shows "sched_inv pend s' = sched_inv pend s" and "waiting_ts s' = waiting_ts s" and "ts_of s' = ts_of s"
proof -
  show q: "waiting_ts s' = waiting_ts s" using assms by (simp add: waiting_ts_def)
  show t: "ts_of s' = ts_of s" using assms by (simp add: ts_of_def fun_eq_iff q)
  show "sched_inv pend s' = sched_inv pend s" using assms by (simp add: sched_inv_def q t)
qed

lemma queued_push:
  assumes "i < length (die_list ssd)" and "list_contents l = list_contents (die_list ssd ! i) @ [ts]"
  shows "mset (waiting_ts (ssd\<lparr>die_list := (die_list ssd)[i := l]\<rparr>)) = add_mset ts (mset (waiting_ts ssd))"
  using concat_upd[of i "map list_contents (die_list ssd)" "list_contents l"] assms
  by (simp add: waiting_ts_def map_update)

lemma queued_pop:
  assumes "i < length (die_list ssd)" and "list_contents (die_list ssd ! i) = ts # list_contents l"
  shows "mset (waiting_ts ssd) = add_mset ts (mset (waiting_ts (ssd\<lparr>die_list := (die_list ssd)[i := l]\<rparr>)))"
  using concat_upd[of i "map list_contents (die_list ssd)" "list_contents l"] assms
  by (simp add: waiting_ts_def map_update)

lemma mset_add_set: "mset xs = add_mset x (mset ys) \<Longrightarrow> set xs = insert x (set ys)"
  by (metis set_mset_add_mset_insert set_mset_mset)

lemma mset_add_distinct: "mset xs = add_mset x (mset ys) \<Longrightarrow> distinct xs \<longleftrightarrow> x \<notin> set ys \<and> distinct ys"
  using mset_eq_imp_distinct_iff[of xs "x # ys"] by simp

lemma sched_inv_list:
  "sched_inv pend ssd \<Longrightarrow> i < tt_luns (sp ssd) \<Longrightarrow> i < length (die_list ssd) \<and> list_inv (die_list ssd ! i)"
  by (auto simp: sched_inv_def)

lemma sched_plus:
  "sched_inv pend ssd \<Longrightarrow> plus_heap ssd rp = Some r \<Longrightarrow> ts_num r < 2 ^ 32 \<and> ts_num r = card (ts_of ssd rp) + pend rp"
  unfolding sched_inv_def by blast

lemma mem_queued: "i < length (die_list ssd) \<Longrightarrow> x \<in> set (list_contents (die_list ssd ! i)) \<Longrightarrow> x \<in> set (waiting_ts ssd)"
  by (auto simp: waiting_ts_def)

lemma finite_ts_of [simp]: "finite (ts_of ssd rp)"
  by (simp add: ts_of_def)

text \<open>A transaction that is put into a queue.\<close>

lemma queue_ts_inv:
  assumes "sched_inv pend ssd" and "ts_heap ssd ts = Some t" and "ts \<notin> set (waiting_ts ssd)" and "die_idx t < tt_luns (sp ssd)"
    and "plus_heap ssd (req_plus t) \<noteq> None" and "0 < pend (req_plus t)"
  shows "\<exists>dl. queue_ts ts ssd = Some (ssd\<lparr>die_list := dl\<rparr>) \<and>
    sched_inv (pend(req_plus t := pend (req_plus t) - 1)) (ssd\<lparr>die_list := dl\<rparr>) \<and>
    set (waiting_ts (ssd\<lparr>die_list := dl\<rparr>)) = insert ts (set (waiting_ts ssd))"
proof -
  let ?i = "die_idx t" and ?rp = "req_plus t"
  note il = sched_inv_list[OF assms(1,4)]
  obtain l where l: "InsertInTail (die_list ssd ! ?i) ts = Some l" "list_inv l"
      "list_contents l = list_contents (die_list ssd ! ?i) @ [ts]"
    using die_q.ins_law il by blast
  let ?dl = "(die_list ssd)[?i := l]"
  let ?s = "ssd\<lparr>die_list := ?dl\<rparr>"
  have m: "mset (waiting_ts ?s) = add_mset ts (mset (waiting_ts ssd))" using queued_push il l(3) by blast
  note q = mset_add_set[OF m]
  have cnt: "ts_of ?s rp = (if rp = ?rp then insert ts (ts_of ssd rp) else ts_of ssd rp)" for rp
    using assms(2) by (auto simp: ts_of_def q)
  have "ts \<notin> ts_of ssd rp" for rp using assms(3) by (simp add: ts_of_def)
  then have card: "card (ts_of ?s rp) + (pend(?rp := pend ?rp - 1)) rp = card (ts_of ssd rp) + pend rp" for rp
    using assms(6) by (simp add: cnt)
  have "sched_inv (pend(?rp := pend ?rp - 1)) ?s"
    unfolding sched_inv_def
  proof (intro conjI)
    show "length (die_list ?s) = tt_luns (sp ?s)" using assms(1) by (simp add: sched_inv_def)
    show "\<forall>l \<in> set (die_list ?s). list_inv l"
      using assms(1) l(2) by (auto simp: sched_inv_def dest!: set_update_subset_insert[THEN subsetD])
    show "distinct (waiting_ts ?s)" using mset_add_distinct[OF m] assms(1,3) by (simp add: sched_inv_def)
    show "\<forall>i < tt_luns (sp ?s). \<forall>ts \<in> set (list_contents (die_list ?s ! i)).
        \<exists>t. ts_heap ?s ts = Some t \<and> die_idx t = i \<and> plus_heap ?s (req_plus t) \<noteq> None"
      using assms(1,2,5) il l(3) by (auto simp: sched_inv_def nth_list_update)
    show "\<forall>rp r. plus_heap ?s rp = Some r \<longrightarrow> ts_num r < 2 ^ 32 \<and>
        ts_num r = card (ts_of ?s rp) + (pend(?rp := pend ?rp - 1)) rp"
      unfolding card by (intro allI impI, rule sched_plus[OF assms(1)]) simp
    show "\<forall>p \<ge> next_ptr ?s. ts_heap ?s p = None \<and> plus_heap ?s p = None" using assms(1) by (simp add: sched_inv_def)
  qed
  moreover have "queue_ts ts ssd = Some ?s" using assms(2) il l(1) by (simp add: queue_ts_def)
  ultimately show ?thesis using q by blast
qed

text \<open>A transaction that is taken from its queue counts as pending until it is released.\<close>

lemma pop_inv:
  assumes "sched_inv pend ssd" and "i < tt_luns (sp ssd)" and "DeleteInHead (die_list ssd ! i) = Some (Some ts, l)"
  shows "\<exists>t. ts_heap ssd ts = Some t \<and> die_idx t = i \<and> plus_heap ssd (req_plus t) \<noteq> None \<and>
    sched_inv (pend(req_plus t := Suc (pend (req_plus t)))) (ssd\<lparr>die_list := (die_list ssd)[i := l]\<rparr>) \<and>
    ts \<notin> set (waiting_ts (ssd\<lparr>die_list := (die_list ssd)[i := l]\<rparr>)) \<and> list_contents l = tl (list_contents (die_list ssd ! i))"
proof -
  let ?s = "ssd\<lparr>die_list := (die_list ssd)[i := l]\<rparr>"
  note il = sched_inv_list[OF assms(1,2)]
  have l: "list_inv l" "list_contents (die_list ssd ! i) = ts # list_contents l"
    using die_q.del_law[OF il[THEN conjunct2]] assms(3) by (auto split: list.splits)
  have m: "mset (waiting_ts ssd) = add_mset ts (mset (waiting_ts ?s))" using queued_pop il l(2) by blast
  note q = mset_add_set[OF m]
  have nq: "ts \<notin> set (waiting_ts ?s)" using mset_add_distinct[OF m] assms(1) by (simp add: sched_inv_def)
  obtain t where t: "ts_heap ssd ts = Some t" "die_idx t = i" "plus_heap ssd (req_plus t) \<noteq> None"
    using assms(1,2) l(2) unfolding sched_inv_def by (metis list.set_intros(1))
  let ?rp = "req_plus t"
  have cnt: "ts_of ssd rp = (if rp = ?rp then insert ts (ts_of ?s rp) else ts_of ?s rp)" for rp
    using t(1) by (auto simp: ts_of_def q)
  have "ts \<notin> ts_of ?s rp" for rp using nq by (simp add: ts_of_def)
  then have card: "card (ts_of ?s rp) + (pend(?rp := Suc (pend ?rp))) rp = card (ts_of ssd rp) + pend rp" for rp
    by (simp add: cnt)
  have "sched_inv (pend(?rp := Suc (pend ?rp))) ?s"
    unfolding sched_inv_def
  proof (intro conjI)
    show "length (die_list ?s) = tt_luns (sp ?s)" using assms(1) by (simp add: sched_inv_def)
    show "\<forall>l \<in> set (die_list ?s). list_inv l"
      using assms(1) l(1) by (auto simp: sched_inv_def dest!: set_update_subset_insert[THEN subsetD])
    show "distinct (waiting_ts ?s)" using mset_add_distinct[OF m] assms(1) by (simp add: sched_inv_def)
    show "\<forall>j < tt_luns (sp ?s). \<forall>ts \<in> set (list_contents (die_list ?s ! j)).
        \<exists>t. ts_heap ?s ts = Some t \<and> die_idx t = j \<and> plus_heap ?s (req_plus t) \<noteq> None"
    proof (intro allI impI ballI)
      fix j x assume j: "j < tt_luns (sp ?s)" "x \<in> set (list_contents (die_list ?s ! j))"
      then have "x \<in> set (list_contents (die_list ssd ! j))" using il l(2) by (cases "j = i") auto
      with assms(1) j(1) show "\<exists>t. ts_heap ?s x = Some t \<and> die_idx t = j \<and> plus_heap ?s (req_plus t) \<noteq> None"
        by (simp add: sched_inv_def)
    qed
    show "\<forall>rp r. plus_heap ?s rp = Some r \<longrightarrow> ts_num r < 2 ^ 32 \<and>
        ts_num r = card (ts_of ?s rp) + (pend(?rp := Suc (pend ?rp))) rp"
      unfolding card by (intro allI impI, rule sched_plus[OF assms(1)]) simp
    show "\<forall>p \<ge> next_ptr ?s. ts_heap ?s p = None \<and> plus_heap ?s p = None" using assms(1) by (simp add: sched_inv_def)
  qed
  with t nq l(2) show ?thesis by auto
qed

section \<open>Completion\<close>

text \<open>The requests that have been given back and those in flight, which have transactions left, without
  their latency.\<close>

definition returned :: "zns_ssd \<Rightarrow> NvmeRequest multiset" where
  "returned ssd = mset (map (NvmeRequest.truncate \<circ> snd) (to_poller ssd))"

definition in_flight :: "(nat \<Rightarrow> NvmeRequestPlus option) \<Rightarrow> NvmeRequest multiset" where
  "in_flight h = image_mset (\<lambda>p. NvmeRequest.truncate (p_req (the (h p)))) (mset_set {p. \<exists>r. h p = Some r \<and> 0 < ts_num r})"

definition accepted :: "zns_ssd \<Rightarrow> NvmeRequest multiset" where
  "accepted ssd = returned ssd + in_flight (plus_heap ssd)"

lemma in_flight_new:
  assumes "finite (dom h)" and "h p = None"
  shows "in_flight (h(p \<mapsto> r)) = (if 0 < ts_num r then add_mset (NvmeRequest.truncate (p_req r)) (in_flight h) else in_flight h)"
proof -
  let ?S = "{q. \<exists>r. h q = Some r \<and> 0 < ts_num r}"
  have "finite ?S" by (rule finite_subset[OF _ assms(1)]) auto
  moreover have "p \<notin> ?S" using assms(2) by simp
  moreover have "{q. \<exists>x. (h(p \<mapsto> r)) q = Some x \<and> 0 < ts_num x} = (if 0 < ts_num r then insert p ?S else ?S)"
    using assms(2) by auto
  ultimately show ?thesis using assms(2) by (auto simp: in_flight_def intro!: image_mset_cong)
qed

lemma in_flight_del:
  assumes "finite (dom h)" and "h p = Some r" and "0 < ts_num r"
  shows "in_flight h = add_mset (NvmeRequest.truncate (p_req r)) (in_flight (h(p := None)))"
  using in_flight_new[of "h(p := None)" p r] assms by (simp add: fun_upd_idem)

lemma in_flight_upd:
  assumes "h p = Some r" and "p_req r' = p_req r" and "0 < ts_num r' \<longleftrightarrow> 0 < ts_num r"
  shows "in_flight (h(p \<mapsto> r')) = in_flight h"
proof -
  have "{q. \<exists>x. (h(p \<mapsto> r')) q = Some x \<and> 0 < ts_num x} = {q. \<exists>x. h q = Some x \<and> 0 < ts_num x}"
    using assms(1,3) by auto
  then show ?thesis using assms(1,2) by (auto simp: in_flight_def intro!: image_mset_cong)
qed

lemma finite_dom_plus: "sched_inv pend ssd \<Longrightarrow> finite (dom (plus_heap ssd))"
  by (rule finite_subset[of _ "{..< next_ptr ssd}"]) (auto simp: sched_inv_def not_less[symmetric])

lemma sched_basic:
  assumes "sched_inv pend ssd"
  shows "length (die_list ssd) = tt_luns (sp ssd)" "\<forall>l \<in> set (die_list ssd). list_inv l" "distinct (waiting_ts ssd)"
    "\<forall>p \<ge> next_ptr ssd. ts_heap ssd p = None \<and> plus_heap ssd p = None"
  using assms by (simp_all add: sched_inv_def)

lemma sched_lists:
  assumes "sched_inv pend ssd" and "i < tt_luns (sp ssd)" and "x \<in> set (list_contents (die_list ssd ! i))"
  shows "x \<in> set (waiting_ts ssd)"
    and "\<exists>t. ts_heap ssd x = Some t \<and> die_idx t = i \<and> plus_heap ssd (req_plus t) \<noteq> None"
proof -
  show "x \<in> set (waiting_ts ssd)" using mem_queued assms sched_basic(1)[OF assms(1)] by simp
  show "\<exists>t. ts_heap ssd x = Some t \<and> die_idx t = i \<and> plus_heap ssd (req_plus t) \<noteq> None"
    using assms by (simp add: sched_inv_def)
qed

text \<open>The last transaction of a request gives it back.\<close>

lemma release_last_inv:
  fixes idx req
  assumes "sched_inv (pend(req_plus t := Suc (pend (req_plus t)))) ssd" and "ts \<notin> set (waiting_ts ssd)"
    and "plus_heap ssd (req_plus t) = Some r" and "ts_num r = 1"
    and "NvmeRequest.truncate req = NvmeRequest.truncate (p_req r)"
  defines "ssd' \<equiv> (submit idx req ssd)\<lparr>plus_heap := (plus_heap ssd)(req_plus t := None), ts_heap := (ts_heap ssd)(ts := None)\<rparr>"
  shows "sched_inv pend ssd'" and "accepted ssd' = accepted ssd"
proof -
  let ?rp = "req_plus t"
  have f: "die_list ssd' = die_list ssd" "sp ssd' = sp ssd" "next_ptr ssd' = next_ptr ssd"
      "plus_heap ssd' = (plus_heap ssd)(?rp := None)" "ts_heap ssd' = (ts_heap ssd)(ts := None)"
      "to_poller ssd' = to_poller ssd @ [(idx, req)]" "waiting_ts ssd' = waiting_ts ssd"
    by (simp_all add: ssd'_def submit_def waiting_ts_def)
  have none: "ts_of ssd ?rp = {}" using sched_plus[OF assms(1,3)] assms(4) by (simp add: card_eq_0_iff)
  have tsof: "ts_of ssd' p = ts_of ssd p" for p using assms(2) by (auto simp: ts_of_def f)
  show "sched_inv pend ssd'"
    unfolding sched_inv_def
  proof (intro conjI)
    show "\<forall>i < tt_luns (sp ssd'). \<forall>x \<in> set (list_contents (die_list ssd' ! i)).
        \<exists>t. ts_heap ssd' x = Some t \<and> die_idx t = i \<and> plus_heap ssd' (req_plus t) \<noteq> None"
    proof (intro allI impI ballI)
      fix i x assume "i < tt_luns (sp ssd')" "x \<in> set (list_contents (die_list ssd' ! i))"
      then have ix: "i < tt_luns (sp ssd)" "x \<in> set (list_contents (die_list ssd ! i))" by (simp_all add: f)
      note w = sched_lists(1)[OF assms(1) ix]
      obtain u where u: "ts_heap ssd x = Some u" "die_idx u = i" "plus_heap ssd (req_plus u) \<noteq> None"
        using sched_lists(2)[OF assms(1) ix] by blast
      from u(1) none w have "req_plus u \<noteq> ?rp" by (auto simp: ts_of_def)
      with u w assms(2) show "\<exists>t. ts_heap ssd' x = Some t \<and> die_idx t = i \<and> plus_heap ssd' (req_plus t) \<noteq> None"
        by (auto simp: f)
    qed
    show "\<forall>p q. plus_heap ssd' p = Some q \<longrightarrow> ts_num q < 2 ^ 32 \<and> ts_num q = card (ts_of ssd' p) + pend p"
    proof (intro allI impI)
      fix p q assume "plus_heap ssd' p = Some q"
      then have p: "plus_heap ssd p = Some q" "p \<noteq> ?rp" by (auto simp: f split: if_splits)
      from sched_plus[OF assms(1) p(1)] p(2) show "ts_num q < 2 ^ 32 \<and> ts_num q = card (ts_of ssd' p) + pend p"
        unfolding tsof by auto
    qed
  qed (use sched_basic[OF assms(1)] in \<open>simp_all add: f\<close>)
  show "accepted ssd' = accepted ssd"
    using in_flight_del[OF finite_dom_plus[OF assms(1)] assms(3)] assms(4,5) by (simp add: accepted_def returned_def f)
qed

text \<open>An earlier one is freed, or at least no longer referred to.\<close>

lemma release_more_inv:
  assumes "sched_inv (pend(req_plus t := Suc (pend (req_plus t)))) ssd" and "ts \<notin> set (waiting_ts ssd)"
    and "plus_heap ssd (req_plus t) = Some r" and "ts_num r \<noteq> 1" and "ts_num r' = ts_num r - 1" and "p_req r' = p_req r"
    and "th = ts_heap ssd \<or> th = (ts_heap ssd)(ts := None)"
  defines "ssd' \<equiv> ssd\<lparr>plus_heap := (plus_heap ssd)(req_plus t \<mapsto> r'), ts_heap := th\<rparr>"
  shows "sched_inv pend ssd'" and "accepted ssd' = accepted ssd"
proof -
  let ?rp = "req_plus t"
  have f: "die_list ssd' = die_list ssd" "sp ssd' = sp ssd" "next_ptr ssd' = next_ptr ssd"
      "plus_heap ssd' = (plus_heap ssd)(?rp \<mapsto> r')" "ts_heap ssd' = th"
      "to_poller ssd' = to_poller ssd" "waiting_ts ssd' = waiting_ts ssd"
    by (simp_all add: ssd'_def waiting_ts_def)
  have th: "x \<noteq> ts \<Longrightarrow> th x = ts_heap ssd x" "ts_heap ssd x = None \<Longrightarrow> th x = None" for x
    using assms(7) by auto
  have "x \<in> set (waiting_ts ssd) \<Longrightarrow> th x = ts_heap ssd x" for x using th(1)[of x] assms(2) by (cases "x = ts") auto
  then have tsof: "ts_of ssd' p = ts_of ssd p" for p by (auto simp: ts_of_def f)
  show "sched_inv pend ssd'"
    unfolding sched_inv_def
  proof (intro conjI)
    show "\<forall>i < tt_luns (sp ssd'). \<forall>x \<in> set (list_contents (die_list ssd' ! i)).
        \<exists>t. ts_heap ssd' x = Some t \<and> die_idx t = i \<and> plus_heap ssd' (req_plus t) \<noteq> None"
    proof (intro allI impI ballI)
      fix i x assume "i < tt_luns (sp ssd')" "x \<in> set (list_contents (die_list ssd' ! i))"
      then have ix: "i < tt_luns (sp ssd)" "x \<in> set (list_contents (die_list ssd ! i))" by (simp_all add: f)
      have "x \<noteq> ts" using sched_lists(1)[OF assms(1) ix] assms(2) by blast
      with sched_lists(2)[OF assms(1) ix] th(1)[of x]
      show "\<exists>t. ts_heap ssd' x = Some t \<and> die_idx t = i \<and> plus_heap ssd' (req_plus t) \<noteq> None" by (auto simp: f)
    qed
    show "\<forall>p q. plus_heap ssd' p = Some q \<longrightarrow> ts_num q < 2 ^ 32 \<and> ts_num q = card (ts_of ssd' p) + pend p"
    proof (intro allI impI)
      fix p q assume p: "plus_heap ssd' p = Some q"
      show "ts_num q < 2 ^ 32 \<and> ts_num q = card (ts_of ssd' p) + pend p"
      proof (cases "p = ?rp")
        case True
        with p sched_plus[OF assms(1,3)] assms(4,5) show ?thesis unfolding tsof by (auto simp: f)
      next
        case False
        with p have "plus_heap ssd p = Some q" by (simp add: f)
        from sched_plus[OF assms(1) this] False show ?thesis unfolding tsof by auto
      qed
    qed
    show "\<forall>p \<ge> next_ptr ssd'. ts_heap ssd' p = None \<and> plus_heap ssd' p = None"
      using sched_basic(4)[OF assms(1)] th(2) assms(3) by (auto simp: f)
  qed (use sched_basic[OF assms(1)] in \<open>simp_all add: f\<close>)
  have "0 < ts_num r" "0 < ts_num r'" using assms(4,5) sched_plus[OF assms(1,3)] by auto
  with in_flight_upd[of "plus_heap ssd" ?rp r r'] assms(3,6) show "accepted ssd' = accepted ssd"
    by (simp add: accepted_def returned_def f)
qed

lemma release_inv:
  assumes "sched_inv (pend(req_plus t := Suc (pend (req_plus t)))) ssd" and "ts_heap ssd ts = Some t"
    and "ts \<notin> set (waiting_ts ssd)" and "plus_heap ssd (req_plus t) = Some r"
  shows "\<exists>ssd'. release_ts idx ts lat ssd = Some ssd' \<and> sched_inv pend ssd' \<and> accepted ssd' = accepted ssd \<and>
    die_list ssd' = die_list ssd \<and> sp ssd' = sp ssd \<and> chans ssd' = chans ssd \<and> dg_time_us ssd' = dg_time_us ssd \<and>
    dymap ssd' = dymap ssd"
proof -
  note r = sched_plus[OF assms(1,4)]
  have sub: "sub32 (ts_num r) 1 = ts_num r - 1" using r by (intro sub32_id) auto
  show ?thesis
  proof (cases "ts_num r = 1")
    case True
    let ?s = "(submit idx ((p_req r)\<lparr>reqlat := lat, expire_time := expire_time (p_req r) + lat\<rparr>) ssd)
      \<lparr>plus_heap := (plus_heap ssd)(req_plus t := None), ts_heap := (ts_heap ssd)(ts := None)\<rparr>"
    have "release_ts idx ts lat ssd = Some ?s"
      using assms(2,4) True sub by (simp add: release_ts_def submit_def Let_def)
    with release_last_inv[OF assms(1,3,4) True, of "(p_req r)\<lparr>reqlat := lat, expire_time := expire_time (p_req r) + lat\<rparr>" idx]
    show ?thesis by (simp add: submit_def NvmeRequest.defs)
  next
    case False
    then have "ts_num r - 1 \<noteq> 0" using r by simp
    then have nz: "\<not> ts_num r \<le> 1" by simp
    show ?thesis
    proof (cases "clear_slot ts (flash_ts r)")
      case None
      let ?r = "r\<lparr>maxlat := lat, ts_num := ts_num r - 1\<rparr>"
      have "release_ts idx ts lat ssd = Some (ssd\<lparr>plus_heap := (plus_heap ssd)(req_plus t \<mapsto> ?r), ts_heap := ts_heap ssd\<rparr>)"
        using assms(2,4) sub None nz by (simp add: release_ts_def Let_def)
      with release_more_inv[OF assms(1,3,4) False, of ?r "ts_heap ssd"] show ?thesis by simp
    next
      case (Some fs)
      let ?r = "r\<lparr>maxlat := lat, ts_num := ts_num r - 1, flash_ts := fs\<rparr>"
      have "release_ts idx ts lat ssd =
          Some (ssd\<lparr>plus_heap := (plus_heap ssd)(req_plus t \<mapsto> ?r), ts_heap := (ts_heap ssd)(ts := None)\<rparr>)"
        using assms(2,4) sub Some nz by (simp add: release_ts_def Let_def)
      with release_more_inv[OF assms(1,3,4) False, of ?r "(ts_heap ssd)(ts := None)"] show ?thesis by simp
    qed
  qed
qed

section \<open>One die\<close>

lemma die_lun:
  assumes "dies_ok ssd" and "i < tt_luns (sp ssd)"
  shows "\<exists>l. get_lun ssd \<lparr>g_ch = i mod nchs (sp ssd), g_lun = i div nchs (sp ssd), g_pl = 0, g_blk = 0, g_pg = 0, g_sec = 0\<rparr> = Some l \<and>
    next_lun_avail_time l = lun_avail ssd (die_at ssd i)"
  using assms by (auto simp: dies_ok_def die_at_def lun_in_def lun_avail_def get_lun_def get_ch_def)

text \<open>Everything the queues are made of.\<close>

definition same_queues :: "zns_ssd \<Rightarrow> zns_ssd \<Rightarrow> bool" where
  "same_queues s s' \<longleftrightarrow>
     die_list s' = die_list s \<and> sp s' = sp s \<and> ts_heap s' = ts_heap s \<and> plus_heap s' = plus_heap s \<and>
     next_ptr s' = next_ptr s \<and> to_poller s' = to_poller s \<and> dymap s' = dymap s"

lemma same_queues_inv:
  "same_queues s s' \<Longrightarrow> sched_inv pend s' = sched_inv pend s \<and> waiting_ts s' = waiting_ts s \<and> accepted s' = accepted s"
  using sched_inv_cong[of s' s] by (simp add: same_queues_def accepted_def returned_def)

lemma occupy_die_frame:
  assumes "dies_ok ssd" and "i < tt_luns (sp ssd)"
  shows "\<exists>c ssd'. occupy_die now i ct pl_ops start cur ssd = Some (c, ssd') \<and> same_queues ssd ssd' \<and> dies_ok ssd' \<and>
    lun_avail ssd' (die_at ssd i) \<le> max (lun_avail ssd (die_at ssd i)) (now + 2 ^ 32) \<and>
    (\<forall>j. j \<noteq> i \<longrightarrow> lun_avail ssd' (die_at ssd j) = lun_avail ssd (die_at ssd j))"
proof (cases "op_time (sp ssd) ct")
  case None
  with assms show ?thesis by (simp add: occupy_die_def same_queues_def)
next
  case (Some lat)
  define p where "p = \<lparr>g_ch = i mod nchs (sp ssd), g_lun = i div nchs (sp ssd), g_pl = 0, g_blk = 0, g_pg = 0, g_sec = 0\<rparr>"
  define a where "a = u64 (now + u32 (pl_ops * lat))"
  define s where "s = upd_lun p (\<lambda>l. l\<lparr>next_lun_avail_time := a\<rparr>) ssd"
  have s: "same_queues ssd s" "dg_time_us s = dg_time_us ssd"
    by (simp_all add: s_def upd_lun_def same_queues_def Let_def)
  have lun: "lun_in ssd (g_ch p, g_lun p)" using assms by (simp add: dies_ok_def die_at_def p_def)
  have g: "i div ZONE_MAX_DIE_PARA < length (dg_time_us ssd)"
    using assms by (intro less_mult_imp_div_less) (simp add: dies_ok_def mult.commute)
  define s' where "s' = s\<lparr>sum_serv_time_us := sum_serv_time_us s + u32 (pl_ops * lat) div 1000,
    dg_time_us := (dg_time_us s)[i div ZONE_MAX_DIE_PARA := dg_time_us s ! (i div ZONE_MAX_DIE_PARA) + u32 (pl_ops * lat) div 1000]\<rparr>"
  have eq: "occupy_die now i ct pl_ops start cur ssd = Some (sub64 a start, s')"
    using Some g s(2) by (simp add: occupy_die_def Let_def s'_def upd_opt_def flip: p_def a_def s_def)
  have ds: "dies_ok s" using assms(1) s unfolding dies_ok_def s_def by (simp add: same_queues_def die_at_def)
  then have "dies_ok s'" by (simp add: s'_def dies_ok_def lun_in_def die_at_def)
  moreover have "lun_avail s' (die_at ssd j) = lun_avail ssd (die_at ssd j)" if "j \<noteq> i" for j
  proof -
    have "die_at ssd j \<noteq> (g_ch p, g_lun p)" using that div_mod_eqI[of j "nchs (sp ssd)" i] by (auto simp: die_at_def p_def)
    then have "lun_avail s (die_at ssd j) = lun_avail ssd (die_at ssd j)" using lun_avail_upd[OF lun] by (simp add: s_def)
    then show ?thesis by (simp add: s'_def lun_avail_def)
  qed
  moreover have "lun_avail s' (die_at ssd i) \<le> max (lun_avail ssd (die_at ssd i)) (now + 2 ^ 32)"
  proof -
    have "u32 (pl_ops * lat) \<le> 2 ^ 32" by (simp add: u32_def less_imp_le)
    then have "a \<le> now + 2 ^ 32" unfolding a_def u64_def by (meson add_left_mono le_trans mod_less_eq_dividend)
    moreover have "lun_avail s (die_at ssd i) = a" using lun_avail_upd[OF lun] by (simp add: s_def die_at_def p_def)
    moreover have "lun_avail s' = lun_avail s" by (simp add: s'_def lun_avail_def fun_eq_iff)
    ultimately show ?thesis by simp
  qed
  moreover have "same_queues ssd s'" using s(1) by (simp add: s'_def same_queues_def)
  ultimately show ?thesis using eq by blast
qed

lemma serve_ts_inv:
  assumes "sched_inv (pend(req_plus t := Suc (pend (req_plus t)))) ssd" and "ts_heap ssd ts = Some t" and "die_idx t = i"
    and "ts \<notin> set (waiting_ts ssd)" and "plus_heap ssd (req_plus t) \<noteq> None" and "dies_ok ssd" and "i < tt_luns (sp ssd)"
  shows "\<exists>c ssd'. serve_ts idx now i ts cur ssd = Some (c, ssd') \<and> sched_inv pend ssd' \<and> dies_ok ssd' \<and>
    accepted ssd' = accepted ssd \<and> die_list ssd' = die_list ssd \<and> sp ssd' = sp ssd \<and> dymap ssd' = dymap ssd \<and>
    lun_avail ssd' (die_at ssd i) \<le> max (lun_avail ssd (die_at ssd i)) (now + 2 ^ 32) \<and>
    (\<forall>j. j \<noteq> i \<longrightarrow> lun_avail ssd' (die_at ssd j) = lun_avail ssd (die_at ssd j))"
proof -
  obtain r where r: "plus_heap ssd (req_plus t) = Some r" using assms(5) by blast
  define q where "q = u32 (sub32 (u32 (pl_idx t + ops_num t)) 1 div pls_per_lun (sp ssd) + 1)"
  obtain c s where s: "occupy_die now i (cmd_type r) q (stime (p_req r)) cur ssd = Some (c, s)" "same_queues ssd s" "dies_ok s"
      "lun_avail s (die_at ssd i) \<le> max (lun_avail ssd (die_at ssd i)) (now + 2 ^ 32)"
      "\<forall>j. j \<noteq> i \<longrightarrow> lun_avail s (die_at ssd j) = lun_avail ssd (die_at ssd j)"
    using occupy_die_frame[OF assms(6,7)] by blast
  define s1 where "s1 = (if cmd_type r \<noteq> NAND_ERASE
      then s\<lparr>pl_sz := pl_sz s + ops_num t, pl_sum := pl_sum s + ops_num t, ops_sum := ops_sum s + q\<rparr> else s)"
  have q1: "same_queues ssd s1" using s(2) by (simp add: s1_def same_queues_def)
  have d1: "dies_ok s1" "chans s1 = chans s" using s(3) by (auto simp: s1_def dies_ok_def lun_in_def die_at_def)
  note inv = same_queues_inv[OF q1]
  have h: "ts_heap s1 ts = Some t" "plus_heap s1 (req_plus t) = Some r" "ts \<notin> set (waiting_ts s1)"
    using q1 inv assms(2,4) r by (simp_all add: same_queues_def)
  obtain s2 where s2: "release_ts idx ts c s1 = Some s2" "sched_inv pend s2" "accepted s2 = accepted s1" "die_list s2 = die_list s1"
      "sp s2 = sp s1" "chans s2 = chans s1" "dg_time_us s2 = dg_time_us s1" "dymap s2 = dymap s1"
    using release_inv[of pend t s1 ts r idx c] inv assms(1) h by blast
  have av: "lun_avail s2 x = lun_avail s x" for x by (simp add: lun_avail_def s2 d1)
  have "dies_ok s2" using d1(1) s2 by (simp add: dies_ok_def lun_in_def die_at_def)
  moreover have "serve_ts idx now i ts cur ssd = Some (c, s2)"
    using assms(2,3,6) r s(1) s2(1) 
    by (cases "cmd_type r = NAND_ERASE") (simp_all add: serve_ts_def dies_ok_def div_opt_def Let_def q_def s1_def)
  ultimately show ?thesis using s2 s inv q1 by (auto simp: same_queues_def av)
qed

lemma process_die_inv:
  assumes "sched_inv (\<lambda>_. 0) ssd" and "dies_ok ssd" and "i < tt_luns (sp ssd)"
  shows "\<exists>c ssd'. process_die idx clock i (cur, ssd) = Some (c, ssd') \<and> sched_inv (\<lambda>_. 0) ssd' \<and> dies_ok ssd' \<and>
    accepted ssd' = accepted ssd \<and> sp ssd' = sp ssd \<and> dymap ssd' = dymap ssd \<and>
    list_contents (die_list ssd' ! i) =
      (if lun_avail ssd (die_at ssd i) \<le> clock i then tl (list_contents (die_list ssd ! i)) else list_contents (die_list ssd ! i)) \<and>
    lun_avail ssd' (die_at ssd i) \<le> max (lun_avail ssd (die_at ssd i)) (clock i + 2 ^ 32) \<and>
    (\<forall>j. j \<noteq> i \<longrightarrow> die_list ssd' ! j = die_list ssd ! j \<and> lun_avail ssd' (die_at ssd j) = lun_avail ssd (die_at ssd j))"
proof -
  obtain lun where lun: "get_lun ssd \<lparr>g_ch = i mod nchs (sp ssd), g_lun = i div nchs (sp ssd), g_pl = 0, g_blk = 0, g_pg = 0, g_sec = 0\<rparr> = Some lun"
      "next_lun_avail_time lun = lun_avail ssd (die_at ssd i)"
    using die_lun[OF assms(2,3)] by blast
  have n: "div_opt i (nchs (sp ssd)) = Some (i div nchs (sp ssd))" using assms(2) by (simp add: dies_ok_def div_opt_def)
  note il = sched_inv_list[OF assms(1,3)]
  obtain x l where l: "DeleteInHead (die_list ssd ! i) = Some (x, l)"
    using die_q.del_law[OF il[THEN conjunct2]] by (auto split: list.splits)
  show ?thesis
  proof (cases "lun_avail ssd (die_at ssd i) \<le> clock i")
    case False
    with lun n assms show ?thesis by (simp add: process_die_def)
  next
    case idle: True
    show ?thesis
    proof (cases x)
      case None
      have "list_contents (die_list ssd ! i) = []"
        using die_q.del_law[OF il[THEN conjunct2]] l None by (auto split: list.splits)
      with lun n assms il l None idle show ?thesis by (simp add: process_die_def)
    next
      case (Some ts)
      let ?s = "ssd\<lparr>die_list := (die_list ssd)[i := l]\<rparr>"
      obtain t where t: "ts_heap ssd ts = Some t" "die_idx t = i" "plus_heap ssd (req_plus t) \<noteq> None"
          "sched_inv ((\<lambda>_. 0)(req_plus t := Suc 0)) ?s" "ts \<notin> set (waiting_ts ?s)"
          "list_contents l = tl (list_contents (die_list ssd ! i))"
        using pop_inv[OF assms(1,3)] l Some by blast
      have f: "dies_ok ?s" "accepted ?s = accepted ssd" "lun_avail ?s = lun_avail ssd" "die_at ?s = die_at ssd"
        using assms(2) by (simp_all add: dies_ok_def lun_in_def die_at_def accepted_def returned_def lun_avail_def fun_eq_iff)
      have "process_die idx clock i (cur, ssd) = serve_ts idx (clock i) i ts cur ?s"
        using lun n il l Some idle by (simp add: process_die_def)
      with serve_ts_inv[of "\<lambda>_. 0" t ?s ts i idx "clock i" cur] t f assms(3) il idle show ?thesis by auto
    qed
  qed
qed

section \<open>A pass over all dies\<close>

definition idle :: "(nat \<Rightarrow> nat) \<Rightarrow> zns_ssd \<Rightarrow> nat \<Rightarrow> bool" where
  "idle clock ssd i \<longleftrightarrow> lun_avail ssd (die_at ssd i) \<le> clock i"

lemma pass_inv:
  assumes "sched_inv (\<lambda>_. 0) ssd" and "dies_ok ssd" and "m \<le> tt_luns (sp ssd)"
  shows "\<exists>c ssd'. foldM (process_die idx clock) [0 ..< m] (cur, ssd) = Some (c, ssd') \<and> sched_inv (\<lambda>_. 0) ssd' \<and> dies_ok ssd' \<and>
    accepted ssd' = accepted ssd \<and> sp ssd' = sp ssd \<and> dymap ssd' = dymap ssd \<and>
    (\<forall>j < m. list_contents (die_list ssd' ! j) =
        (if idle clock ssd j then tl (list_contents (die_list ssd ! j)) else list_contents (die_list ssd ! j)) \<and>
      lun_avail ssd' (die_at ssd j) \<le> max (lun_avail ssd (die_at ssd j)) (clock j + 2 ^ 32)) \<and>
    (\<forall>j \<ge> m. die_list ssd' ! j = die_list ssd ! j \<and> lun_avail ssd' (die_at ssd j) = lun_avail ssd (die_at ssd j))"
  using assms(3)
proof (induction m)
  case 0
  with assms show ?case by simp
next
  case (Suc m)
  then obtain c s where s: "foldM (process_die idx clock) [0 ..< m] (cur, ssd) = Some (c, s)" "sched_inv (\<lambda>_. 0) s" "dies_ok s"
      "accepted s = accepted ssd" "sp s = sp ssd" "dymap s = dymap ssd"
      "\<And>j. j < m \<Longrightarrow> list_contents (die_list s ! j) =
          (if idle clock ssd j then tl (list_contents (die_list ssd ! j)) else list_contents (die_list ssd ! j)) \<and>
        lun_avail s (die_at ssd j) \<le> max (lun_avail ssd (die_at ssd j)) (clock j + 2 ^ 32)"
      "\<And>j. m \<le> j \<Longrightarrow> die_list s ! j = die_list ssd ! j \<and> lun_avail s (die_at ssd j) = lun_avail ssd (die_at ssd j)"
    by force
  have at: "die_at s = die_at ssd" by (simp add: die_at_def s(5) fun_eq_iff)
  from Suc.prems have m: "m < tt_luns (sp s)" by (simp add: s(5))
  obtain c' s' where s': "process_die idx clock m (c, s) = Some (c', s')" "sched_inv (\<lambda>_. 0) s'" "dies_ok s'"
      "accepted s' = accepted s" "sp s' = sp s" "dymap s' = dymap s"
      "list_contents (die_list s' ! m) =
        (if idle clock s m then tl (list_contents (die_list s ! m)) else list_contents (die_list s ! m))"
      "lun_avail s' (die_at ssd m) \<le> max (lun_avail s (die_at ssd m)) (clock m + 2 ^ 32)"
      "\<And>j. j \<noteq> m \<Longrightarrow> die_list s' ! j = die_list s ! j \<and> lun_avail s' (die_at ssd j) = lun_avail s (die_at ssd j)"
    using process_die_inv[OF s(2,3) m, of idx clock c] unfolding idle_def at by blast
  have "idle clock s m = idle clock ssd m" using s(8)[of m] by (simp add: idle_def at)
  then have m': "list_contents (die_list s' ! m) =
        (if idle clock ssd m then tl (list_contents (die_list ssd ! m)) else list_contents (die_list ssd ! m)) \<and>
      lun_avail s' (die_at ssd m) \<le> max (lun_avail ssd (die_at ssd m)) (clock m + 2 ^ 32)"
    using s'(7,8) s(8)[of m] by simp
  have "list_contents (die_list s' ! j) =
        (if idle clock ssd j then tl (list_contents (die_list ssd ! j)) else list_contents (die_list ssd ! j)) \<and>
      lun_avail s' (die_at ssd j) \<le> max (lun_avail ssd (die_at ssd j)) (clock j + 2 ^ 32)" if "j < Suc m" for j
    using that m' s(7)[of j] s'(9)[of j] by (cases "j = m") auto
  moreover have "die_list s' ! j = die_list ssd ! j \<and> lun_avail s' (die_at ssd j) = lun_avail ssd (die_at ssd j)" if "Suc m \<le> j" for j
    using that s(8)[of j] s'(9)[of j] by auto
  moreover have "foldM (process_die idx clock) [0 ..< Suc m] (cur, ssd) = Some (c', s')"
    using s(1) s'(1) by (simp add: foldM_append)
  ultimately show ?case using s' s by auto
qed

lemma process_inv:
  assumes "sched_inv (\<lambda>_. 0) ssd" and "dies_ok ssd"
  shows "\<exists>ssd'. zns_process_die_queue idx clock ssd = Some ssd' \<and> sched_inv (\<lambda>_. 0) ssd' \<and> dies_ok ssd' \<and>
    accepted ssd' = accepted ssd \<and> sp ssd' = sp ssd \<and> dymap ssd' = dymap ssd \<and>
    (\<forall>j < tt_luns (sp ssd). list_contents (die_list ssd' ! j) =
        (if idle clock ssd j then tl (list_contents (die_list ssd ! j)) else list_contents (die_list ssd ! j)) \<and>
      lun_avail ssd' (die_at ssd j) \<le> max (lun_avail ssd (die_at ssd j)) (clock j + 2 ^ 32))"
  using pass_inv[OF assms order_refl, of idx clock 0] by (auto simp: zns_process_die_queue_def)

lemma drained_returned:
  assumes "sched_inv (\<lambda>_. 0) ssd" and "waiting_ts ssd = []"
  shows "plus_heap ssd rp = Some r \<Longrightarrow> ts_num r = 0" and "returned ssd = accepted ssd"
proof -
  have idle: "ts_num r = 0" if "plus_heap ssd rp = Some r" for rp r
    using sched_plus[OF assms(1) that] assms(2) by (simp add: ts_of_def)
  then have none: "{p. \<exists>r. plus_heap ssd p = Some r \<and> 0 < ts_num r} = {}" by auto
  show "returned ssd = accepted ssd" by (simp add: accepted_def in_flight_def none)
  show "plus_heap ssd rp = Some r \<Longrightarrow> ts_num r = 0" by (rule idle)
qed

section \<open>Draining\<close>

text \<open>Passes over the dies, each with its clock; a die is read again at least \<open>2 ^ 32\<close> nanoseconds after
  it was last occupied, the longest a transaction can take.\<close>

definition run_passes :: "nat \<Rightarrow> (nat \<Rightarrow> nat) list \<Rightarrow> zns_ssd \<Rightarrow> zns_ssd option" where
  "run_passes idx clocks ssd = foldM (zns_process_die_queue idx) clocks ssd"

fun spaced :: "nat \<Rightarrow> (nat \<Rightarrow> nat) \<Rightarrow> (nat \<Rightarrow> nat) list \<Rightarrow> bool" where
  "spaced n b [] = True"
| "spaced n b (c # cs) = ((\<forall>i < n. b i \<le> c i) \<and> spaced n (\<lambda>i. c i + 2 ^ 32) cs)"

lemma spaced_mono: "spaced n b cs \<Longrightarrow> (\<And>i. i < n \<Longrightarrow> b' i \<le> b i) \<Longrightarrow> spaced n b' cs"
  by (cases cs) (auto intro: order_trans)

lemma passes_drain:
  assumes "sched_inv (\<lambda>_. 0) ssd" and "dies_ok ssd" and "spaced (tt_luns (sp ssd)) (\<lambda>i. lun_avail ssd (die_at ssd i)) clocks"
  shows "\<exists>ssd'. run_passes idx clocks ssd = Some ssd' \<and> sched_inv (\<lambda>_. 0) ssd' \<and> dies_ok ssd' \<and> accepted ssd' = accepted ssd \<and>
    sp ssd' = sp ssd \<and>
    (\<forall>j < tt_luns (sp ssd). list_contents (die_list ssd' ! j) = drop (length clocks) (list_contents (die_list ssd ! j)))"
  using assms
proof (induction clocks arbitrary: ssd)
  case Nil
  then show ?case by (simp add: run_passes_def)
next
  case (Cons clock cs)
  obtain s where s: "zns_process_die_queue idx clock ssd = Some s" "sched_inv (\<lambda>_. 0) s" "dies_ok s" "accepted s = accepted ssd"
      "sp s = sp ssd"
      "\<And>j. j < tt_luns (sp ssd) \<Longrightarrow> list_contents (die_list s ! j) =
          (if idle clock ssd j then tl (list_contents (die_list ssd ! j)) else list_contents (die_list ssd ! j)) \<and>
        lun_avail s (die_at ssd j) \<le> max (lun_avail ssd (die_at ssd j)) (clock j + 2 ^ 32)"
    using process_inv[OF Cons.prems(1,2), of idx clock] by auto
  have at: "die_at s = die_at ssd" by (simp add: die_at_def s(5) fun_eq_iff)
  have id: "lun_avail ssd (die_at ssd j) \<le> clock j" if "j < tt_luns (sp ssd)" for j using Cons.prems(3) that by simp
  have "spaced (tt_luns (sp ssd)) (\<lambda>i. lun_avail s (die_at s i)) cs"
  proof (rule spaced_mono)
    show "spaced (tt_luns (sp ssd)) (\<lambda>i. clock i + 2 ^ 32) cs" using Cons.prems(3) by simp
    fix i assume "i < tt_luns (sp ssd)"
    from s(6)[OF this] id[OF this] show "lun_avail s (die_at s i) \<le> clock i + 2 ^ 32" by (simp add: at)
  qed
  with Cons.IH[OF s(2,3)] obtain s' where s': "run_passes idx cs s = Some s'" "sched_inv (\<lambda>_. 0) s'" "dies_ok s'"
      "accepted s' = accepted s" "sp s' = sp s"
      "\<And>j. j < tt_luns (sp ssd) \<Longrightarrow> list_contents (die_list s' ! j) = drop (length cs) (list_contents (die_list s ! j))"
    unfolding s(5) by blast
  have "list_contents (die_list s' ! j) = drop (length (clock # cs)) (list_contents (die_list ssd ! j))"
    if "j < tt_luns (sp ssd)" for j
    using s'(6)[OF that] s(6)[OF that] id[OF that] by (simp add: idle_def drop_Suc)
  moreover have "run_passes idx (clock # cs) ssd = Some s'" using s(1) s'(1) by (simp add: run_passes_def)
  ultimately show ?case using s' s by auto
qed

lemma waiting_empty:
  assumes "\<And>j. j < length (die_list ssd) \<Longrightarrow> list_contents (die_list ssd ! j) = []"
  shows "waiting_ts ssd = []"
  using assms by (auto simp: waiting_ts_def in_set_conv_nth)

section \<open>Splitting a request\<close>

text \<open>What a request in preparation adds to the state does not touch what waits already.\<close>

lemma extend_inv:
  assumes "sched_inv pend ssd" and "\<And>x. x \<in> set (waiting_ts ssd) \<Longrightarrow> ts_heap s' x = ts_heap ssd x"
    and "die_list s' = die_list ssd" and "sp s' = sp ssd" and "next_ptr ssd \<le> next_ptr s'"
    and "\<And>p. next_ptr s' \<le> p \<Longrightarrow> ts_heap s' p = None" and "plus_heap s' = plus_heap ssd"
  shows "sched_inv pend s'" and "waiting_ts s' = waiting_ts ssd"
proof -
  show w: "waiting_ts s' = waiting_ts ssd" by (simp add: waiting_ts_def assms(3))
  have tsof: "ts_of s' p = ts_of ssd p" for p using assms(2) by (auto simp: ts_of_def w)
  show "sched_inv pend s'"
    unfolding sched_inv_def w tsof
  proof (intro conjI)
    show "\<forall>i < tt_luns (sp s'). \<forall>x \<in> set (list_contents (die_list s' ! i)).
        \<exists>t. ts_heap s' x = Some t \<and> die_idx t = i \<and> plus_heap s' (req_plus t) \<noteq> None"
      using sched_lists[OF assms(1)] assms(2,3,4,7) by simp
    show "\<forall>rp r. plus_heap s' rp = Some r \<longrightarrow> ts_num r < 2 ^ 32 \<and> ts_num r = card (ts_of ssd rp) + pend rp"
      unfolding assms(7) using sched_plus[OF assms(1)] by blast
    show "\<forall>p \<ge> next_ptr s'. ts_heap s' p = None \<and> plus_heap s' p = None"
      using sched_basic(4)[OF assms(1)] assms(5,6,7) by auto
  qed (use sched_basic[OF assms(1)] assms(3,4) in simp_all)
qed

lemma new_req_inv:
  assumes "sched_inv pend ssd" and "plus_heap ssd rp = None" and "rp < next_ptr ssd" and "ts_num r < 2 ^ 32"
  shows "sched_inv (pend(rp := ts_num r)) (ssd\<lparr>plus_heap := (plus_heap ssd)(rp \<mapsto> r)\<rparr>)"
proof -
  let ?s = "ssd\<lparr>plus_heap := (plus_heap ssd)(rp \<mapsto> r)\<rparr>"
  have w: "waiting_ts ?s = waiting_ts ssd" by (simp add: waiting_ts_def)
  have tsof: "ts_of ?s p = ts_of ssd p" for p by (auto simp: ts_of_def w)
  have empty: "ts_of ssd rp = {}"
  proof (rule ccontr)
    assume "ts_of ssd rp \<noteq> {}"
    then obtain x t i where x: "ts_heap ssd x = Some t" "req_plus t = rp" "i < length (die_list ssd)"
        "x \<in> set (list_contents (die_list ssd ! i))"
      by (auto simp: ts_of_def waiting_ts_def in_set_conv_nth) (metis in_set_conv_nth)
    with sched_lists(2)[OF assms(1), of i x] sched_basic(1)[OF assms(1)] assms(2) show False by simp
  qed
  show ?thesis
    unfolding sched_inv_def w tsof
  proof (intro conjI)
    show "\<forall>i < tt_luns (sp ?s). \<forall>x \<in> set (list_contents (die_list ?s ! i)).
        \<exists>t. ts_heap ?s x = Some t \<and> die_idx t = i \<and> plus_heap ?s (req_plus t) \<noteq> None"
      using sched_lists(2)[OF assms(1)] by fastforce
    show "\<forall>p q. plus_heap ?s p = Some q \<longrightarrow>
        ts_num q < 2 ^ 32 \<and> ts_num q = card (ts_of ssd p) + (pend(rp := ts_num r)) p"
    proof (intro allI impI)
      fix p q assume "plus_heap ?s p = Some q"
      with sched_plus[OF assms(1), of p q] assms(4) empty
      show "ts_num q < 2 ^ 32 \<and> ts_num q = card (ts_of ssd p) + (pend(rp := ts_num r)) p"
        by (cases "p = rp") auto
    qed
    show "\<forall>p \<ge> next_ptr ?s. ts_heap ?s p = None \<and> plus_heap ?s p = None"
      using sched_basic(4)[OF assms(1)] assms(3) by auto
  qed (use sched_basic[OF assms(1)] in simp_all)
qed

lemma upd_req_inv:
  assumes "sched_inv pend ssd" and "plus_heap ssd rp = Some r" and "ts_num r' = ts_num r"
  shows "sched_inv pend (ssd\<lparr>plus_heap := (plus_heap ssd)(rp \<mapsto> r')\<rparr>)"
proof -
  let ?s = "ssd\<lparr>plus_heap := (plus_heap ssd)(rp \<mapsto> r')\<rparr>"
  have w: "waiting_ts ?s = waiting_ts ssd" by (simp add: waiting_ts_def)
  have tsof: "ts_of ?s p = ts_of ssd p" for p by (auto simp: ts_of_def w)
  show ?thesis
    unfolding sched_inv_def w tsof
  proof (intro conjI)
    show "\<forall>i < tt_luns (sp ?s). \<forall>x \<in> set (list_contents (die_list ?s ! i)).
        \<exists>t. ts_heap ?s x = Some t \<and> die_idx t = i \<and> plus_heap ?s (req_plus t) \<noteq> None"
      using sched_lists(2)[OF assms(1)] by fastforce
    show "\<forall>p q. plus_heap ?s p = Some q \<longrightarrow> ts_num q < 2 ^ 32 \<and> ts_num q = card (ts_of ssd p) + pend p"
    proof (intro allI impI)
      fix p q assume "plus_heap ?s p = Some q"
      with sched_plus[OF assms(1), of p q] sched_plus[OF assms(1,2)] assms(3)
      show "ts_num q < 2 ^ 32 \<and> ts_num q = card (ts_of ssd p) + pend p"
        by (cases "p = rp") auto
    qed
    show "\<forall>p \<ge> next_ptr ?s. ts_heap ?s p = None \<and> plus_heap ?s p = None"
      using sched_basic(4)[OF assms(1)] assms(2) by auto
  qed (use sched_basic[OF assms(1)] in simp_all)
qed

text \<open>The parts of the state that queueing transactions leaves alone.\<close>

definition same_rest :: "zns_ssd \<Rightarrow> zns_ssd \<Rightarrow> bool" where
  "same_rest s s' \<longleftrightarrow> sp s' = sp s \<and> to_poller s' = to_poller s \<and> dymap s' = dymap s \<and> chans s' = chans s \<and>
     dg_time_us s' = dg_time_us s"

lemma same_rest_refl [simp]: "same_rest s s"
  by (simp add: same_rest_def)

lemma same_rest_trans: "same_rest s s1 \<Longrightarrow> same_rest s1 s2 \<Longrightarrow> same_rest s s2"
  by (simp add: same_rest_def)

lemma same_rest_ok: "same_rest s s' \<Longrightarrow> dies_ok s' = dies_ok s \<and> returned s' = returned s"
  by (simp add: same_rest_def dies_ok_def lun_in_def die_at_def returned_def)

lemma link_loop:
  assumes "sched_inv (pend(rp := pend rp + length tts)) ssd" and "distinct tts" and "set tts \<inter> set (waiting_ts ssd) = {}"
    and "\<forall>x \<in> set tts. \<exists>t. ts_heap ssd x = Some t \<and> die_idx t < tt_luns (sp ssd)" and "plus_heap ssd rp \<noteq> None"
  shows "\<exists>ssd'. foldM (link_ts rp zone) tts ssd = Some ssd' \<and> sched_inv pend ssd' \<and> plus_heap ssd' = plus_heap ssd \<and> same_rest ssd ssd' \<and>
    set (waiting_ts ssd') = set tts \<union> set (waiting_ts ssd) \<and>
    (\<forall>x. ts_heap ssd' x = (if x \<in> set tts then map_option (\<lambda>t. t\<lparr>req_plus := rp, zone_idx := zone\<rparr>) (ts_heap ssd x) else ts_heap ssd x))"
  using assms
proof (induction tts arbitrary: ssd)
  case Nil
  then show ?case by simp
next
  case (Cons ts tts)
  obtain t where t: "ts_heap ssd ts = Some t" "die_idx t < tt_luns (sp ssd)" using Cons.prems(4) by auto
  let ?p = "pend(rp := pend rp + length (ts # tts))"
  define s where "s = ssd\<lparr>ts_heap := (ts_heap ssd)(ts \<mapsto> t\<lparr>req_plus := rp, zone_idx := zone\<rparr>)\<rparr>"
  have f: "plus_heap s = plus_heap ssd" "sp s = sp ssd" "die_list s = die_list ssd" "next_ptr s = next_ptr ssd"
    by (simp_all add: s_def)
  have ts: "ts < next_ptr ssd" using sched_basic(4)[OF Cons.prems(1)] t(1) by (metis not_le option.distinct(1))
  have "sched_inv ?p s"
    by (rule extend_inv(1)[OF Cons.prems(1)]) (use Cons.prems(3) ts sched_basic(4)[OF Cons.prems(1)] in \<open>auto simp: s_def\<close>)
  moreover have "waiting_ts s = waiting_ts ssd" by (simp add: waiting_ts_def f)
  ultimately have w: "sched_inv ?p s" "waiting_ts s = waiting_ts ssd" .
  obtain dl where q: "queue_ts ts s = Some (s\<lparr>die_list := dl\<rparr>)" "sched_inv (?p(rp := ?p rp - 1)) (s\<lparr>die_list := dl\<rparr>)"
      "set (waiting_ts (s\<lparr>die_list := dl\<rparr>)) = insert ts (set (waiting_ts s))"
    using queue_ts_inv[OF w(1), of ts "t\<lparr>req_plus := rp, zone_idx := zone\<rparr>"] t(2) Cons.prems(3,5) w(2) f by (auto simp: s_def)
  let ?s = "s\<lparr>die_list := dl\<rparr>"
  have "\<exists>ssd'. foldM (link_ts rp zone) tts ?s = Some ssd' \<and> sched_inv pend ssd' \<and> plus_heap ssd' = plus_heap ?s \<and> same_rest ?s ssd' \<and>
    set (waiting_ts ssd') = set tts \<union> set (waiting_ts ?s) \<and>
    (\<forall>x. ts_heap ssd' x = (if x \<in> set tts then map_option (\<lambda>t. t\<lparr>req_plus := rp, zone_idx := zone\<rparr>) (ts_heap ?s x) else ts_heap ?s x))"
  proof (rule Cons.IH)
    show "sched_inv (pend(rp := pend rp + length tts)) ?s" using q(2) by simp
    show "set tts \<inter> set (waiting_ts ?s) = {}" using q(3) w(2) Cons.prems(2,3) by auto
    show "\<forall>x \<in> set tts. \<exists>t. ts_heap ?s x = Some t \<and> die_idx t < tt_luns (sp ?s)" using Cons.prems(2,4) by (auto simp: s_def)
  qed (use Cons.prems(2,5) f in simp_all)
  then obtain s' where s': "foldM (link_ts rp zone) tts ?s = Some s'" "sched_inv pend s'" "plus_heap s' = plus_heap ?s" "same_rest ?s s'"
      "set (waiting_ts s') = set tts \<union> set (waiting_ts ?s)"
      "\<And>x. ts_heap s' x = (if x \<in> set tts then map_option (\<lambda>t. t\<lparr>req_plus := rp, zone_idx := zone\<rparr>) (ts_heap ?s x) else ts_heap ?s x)"
    by blast
  have "ts_heap s' x = (if x \<in> set (ts # tts) then map_option (\<lambda>t. t\<lparr>req_plus := rp, zone_idx := zone\<rparr>) (ts_heap ssd x) else ts_heap ssd x)" for x
    using s'(6)[of x] t(1) Cons.prems(2) by (auto simp: s_def)
  moreover have "link_ts rp zone ts ssd = Some ?s" using t(1) q(1) by (simp add: link_ts_def upd_ts_def s_def)
  moreover have "same_rest ssd ?s" by (simp add: same_rest_def s_def)
  then have "same_rest ssd s'" using s'(4) same_rest_trans by blast
  ultimately show ?case using f s' q(3) w(2) by auto
qed

lemma fresh_not_waiting:
  assumes "sched_inv pend ssd" and "next_ptr ssd \<le> p"
  shows "p \<notin> set (waiting_ts ssd)"
proof
  assume "p \<in> set (waiting_ts ssd)"
  then obtain i where "i < length (die_list ssd)" "p \<in> set (list_contents (die_list ssd ! i))"
    by (auto simp: waiting_ts_def in_set_conv_nth) (metis in_set_conv_nth)
  with sched_lists(2)[OF assms(1)] sched_basic(1,4)[OF assms(1)] assms(2) show False by fastforce
qed

lemma reset_loop:
  assumes "sched_inv (pend(rp := pend rp + length js)) ssd" and "plus_heap ssd rp = Some r"
    and "foldM (reset_die rp zone) js ssd = Some ssd'"
  shows "sched_inv pend ssd' \<and> same_rest ssd ssd' \<and> (\<exists>r'. p_req r' = p_req r \<and> ts_num r' = ts_num r \<and> plus_heap ssd' = (plus_heap ssd)(rp \<mapsto> r'))"
  using assms
proof (induction js arbitrary: ssd r)
  case Nil
  then show ?case by (auto intro!: exI[of _ r] simp: fun_upd_idem)
next
  case (Cons j js)
  let ?p = "pend(rp := pend rp + length (j # js))"
  define ts where "ts = next_ptr ssd"
  define t where "t = \<lparr>req_plus = rp, zone_idx = zone, ops_num = pls_per_lun (sp ssd), die_idx = j, pl_idx = 0, blk_idx = 0, pg_idx = 0\<rparr>"
  define r1 where "r1 = r\<lparr>flash_ts := flash_ts r @ [Some ts]\<rparr>"
  define s0 where "s0 = ssd\<lparr>next_ptr := ts + 1, ts_heap := (ts_heap ssd)(ts \<mapsto> t)\<rparr>"
  define s where "s = s0\<lparr>plus_heap := (plus_heap s0)(rp \<mapsto> r1)\<rparr>"
  note b = sched_basic(4)[OF Cons.prems(1)]
  have nw: "ts \<notin> set (waiting_ts ssd)" using fresh_not_waiting[OF Cons.prems(1)] by (simp add: ts_def)
  have s0: "sched_inv ?p s0"
    by (rule extend_inv(1)[OF Cons.prems(1)]) (use nw b in \<open>auto simp: s0_def ts_def\<close>)
  have s: "sched_inv ?p s" using upd_req_inv[OF s0, of rp r r1] Cons.prems(2) by (simp add: s_def r1_def s0_def)
  have ws: "waiting_ts s = waiting_ts ssd" by (simp add: s_def s0_def waiting_ts_def)
  have "reset_die rp zone j ssd = (if j < tt_luns (sp ssd) then queue_ts ts s else None)"
    using Cons.prems(2)
    by (auto simp: reset_die_def alloc_ptr_def Let_def ts_def t_def r1_def s0_def s_def assert_c_def)
  with Cons.prems(3) have j: "j < tt_luns (sp ssd)" and q0: "queue_ts ts s \<bind> foldM (reset_die rp zone) js = Some ssd'"
    by (auto split: if_splits)
  obtain dl where q: "queue_ts ts s = Some (s\<lparr>die_list := dl\<rparr>)" "sched_inv (?p(rp := ?p rp - 1)) (s\<lparr>die_list := dl\<rparr>)"
    using queue_ts_inv[OF s, of ts t] nw ws j by (auto simp: s_def s0_def t_def)
  let ?s = "s\<lparr>die_list := dl\<rparr>"
  have ih: "sched_inv pend ssd' \<and> same_rest ?s ssd' \<and> (\<exists>r'. p_req r' = p_req r1 \<and> ts_num r' = ts_num r1 \<and> plus_heap ssd' = (plus_heap ?s)(rp \<mapsto> r'))"
  proof (rule Cons.IH)
    show "sched_inv (pend(rp := pend rp + length js)) ?s" using q(2) by simp
  qed (use q0 q(1) in \<open>simp_all add: s_def\<close>)
  then obtain r' where "p_req r' = p_req r" "ts_num r' = ts_num r" "plus_heap ssd' = (plus_heap ssd)(rp \<mapsto> r')"
    by (auto simp: s_def s0_def r1_def)
  moreover have "same_rest ssd ?s" by (simp add: same_rest_def s_def s0_def)
  ultimately show ?case using same_rest_trans ih by blast
qed

definition blank_ts :: flash_transaction where
  "blank_ts = \<lparr>req_plus = 0, zone_idx = 0, ops_num = 0, die_idx = 0, pl_idx = 0, blk_idx = 0, pg_idx = 0xff\<rparr>"

lemma new_ts_eq:
  "new_ts k ssd = ([next_ptr ssd ..< next_ptr ssd + k],
     ssd\<lparr>next_ptr := next_ptr ssd + k,
         ts_heap := (\<lambda>p. if next_ptr ssd \<le> p \<and> p < next_ptr ssd + k then Some blank_ts else ts_heap ssd p)\<rparr>)"
proof (induction k arbitrary: ssd)
  case 0
  have "(\<lambda>p. if next_ptr ssd \<le> p \<and> p < next_ptr ssd + 0 then Some blank_ts else ts_heap ssd p) = ts_heap ssd"
    by (auto simp: fun_eq_iff)
  then show ?case by simp
next
  case (Suc k)
  let ?s = "ssd\<lparr>next_ptr := next_ptr ssd + 1, ts_heap := (ts_heap ssd)(next_ptr ssd \<mapsto> blank_ts)\<rparr>"
  have "new_ts (Suc k) ssd = (let (rest, s) = new_ts k ?s in (next_ptr ssd # rest, s))"
    by (simp add: alloc_ptr_def blank_ts_def)
  moreover have "(\<lambda>p. if next_ptr ?s \<le> p \<and> p < next_ptr ?s + k then Some blank_ts else ts_heap ?s p) =
      (\<lambda>p. if next_ptr ssd \<le> p \<and> p < next_ptr ssd + Suc k then Some blank_ts else ts_heap ssd p)"
    by (auto simp: fun_eq_iff)
  then have "new_ts k ?s = ([Suc (next_ptr ssd) ..< next_ptr ssd + Suc k], ssd\<lparr>next_ptr := next_ptr ssd + Suc k,
      ts_heap := (\<lambda>p. if next_ptr ssd \<le> p \<and> p < next_ptr ssd + Suc k then Some blank_ts else ts_heap ssd p)\<rparr>)"
    unfolding Suc.IH[of ?s] by simp
  ultimately show ?case by (simp add: upt_conv_Cons del: upt_Suc new_ts.simps)
qed

text \<open>Dealing pages changes only the transactions of the request.\<close>

definition dealt :: "nat set \<Rightarrow> zns_ssd \<Rightarrow> zns_ssd \<Rightarrow> bool" where
  "dealt T s s' \<longleftrightarrow>
     (\<exists>th. s' = s\<lparr>ts_heap := th\<rparr> \<and> (\<forall>x. x \<notin> T \<longrightarrow> th x = ts_heap s x) \<and>
        (\<forall>x \<in> T. \<exists>t. th x = Some t \<and> die_idx t < tt_luns (sp s)))"

lemma dealt_trans: "dealt T s s1 \<Longrightarrow> dealt T s1 s2 \<Longrightarrow> dealt T s s2"
  by (auto simp: dealt_def)

lemma dealt_refl: "\<forall>x \<in> T. \<exists>t. ts_heap s x = Some t \<and> die_idx t < tt_luns (sp s) \<Longrightarrow> dealt T s s"
  by (auto simp: dealt_def intro!: exI[of _ "ts_heap s"])

lemma deal_page_dealt:
  assumes "\<forall>x \<in> T. \<exists>t. ts_heap s x = Some t \<and> die_idx t < tt_luns (sp s)" and "ts \<in> T" and "deal_page zone i ts s = Some s'"
  shows "dealt T s s'"
proof -
  obtain t where t: "s' = s\<lparr>ts_heap := (ts_heap s)(ts \<mapsto> t)\<rparr>" "die_idx t < tt_luns (sp s)"
    using assms(3) by (auto simp: deal_page_def Let_def bind_eq_Some_conv assert_c_def split: if_splits)
  then show ?thesis using assms(1,2) unfolding dealt_def by (intro exI[of _ "(ts_heap s)(ts \<mapsto> t)"]) auto
qed

lemma rw_pages_dealt_aux:
  assumes "rw_pages zone tts tt limit i temp s = Some s'"
  shows "(\<forall>x \<in> set tts. \<exists>t. ts_heap s x = Some t \<and> die_idx t < tt_luns (sp s)) \<longrightarrow> dealt (set tts) s s'"
proof (rule rw_pages.raw_induct[OF _ assms, of
    "\<lambda>zone tts tt limit i temp s s'. (\<forall>x \<in> set tts. \<exists>t. ts_heap s x = Some t \<and> die_idx t < tt_luns (sp s)) \<longrightarrow> dealt (set tts) s s'"],
    intro impI, goal_cases)
  case (1 rw zone tts tt limit i temp s s')
  show ?case
  proof (cases "i < limit")
    case True
    with 1(2) obtain ts s1 where ts: "nth_opt tts temp = Some ts" "deal_page zone i ts s = Some s1"
        "rw zone tts tt limit (u32 (i + tt)) (if Suc temp = length tts then 0 else Suc temp) s1 = Some s'"
      by (auto simp: bind_eq_Some_conv)
    have d: "dealt (set tts) s s1" using deal_page_dealt[OF 1(3) _ ts(2)] ts(1) by (auto simp: nth_opt_eq_Some)
    then have "\<forall>x \<in> set tts. \<exists>t. ts_heap s1 x = Some t \<and> die_idx t < tt_luns (sp s1)" by (auto simp: dealt_def)
    with 1(1)[OF ts(3)] d show ?thesis using dealt_trans by blast
  next
    case False
    with 1 show ?thesis by (simp add: dealt_refl)
  qed
qed

lemmas rw_pages_dealt = rw_pages_dealt_aux[THEN mp]

section \<open>Distribution\<close>

text \<open>A request inside a page that has been written already.\<close>

definition lbas_per_page :: "FemuCtrl \<Rightarrow> zns_ssd \<Rightarrow> nat" where
  "lbas_per_page n ssd = secs_per_pg (sp ssd) * secsz (sp ssd) div u32 (2 ^ zns_ns_lbads n)"

definition inside_page :: "FemuCtrl \<Rightarrow> FtlRequest \<Rightarrow> nat \<Rightarrow> zns_ssd \<Rightarrow> bool" where
  "inside_page n req wp ssd \<longleftrightarrow>
     (let t = lbas_per_page n ssd
      in 0 < wp mod t \<and> zone_nlb (r_cmd req) \<le> sub64 (u32 ((wp div t + 1) * t)) wp)"

lemma zone_nlb_bounds: "0 < zone_nlb cmd \<and> zone_nlb cmd \<le> 65536"
proof -
  have "u16 (rw_nlb cmd) < 65536" by (simp add: u16_def)
  then show ?thesis by (simp add: zone_nlb_def)
qed

lemma zone_rw_inside_page:
  assumes "zone_rw n req zone wp ssd = Some ssd'" and "inside_page n req wp ssd"
  shows "ssd' = ssd"
  using assms by (auto simp: zone_rw_def inside_page_def lbas_per_page_def Let_def bind_eq_Some_conv div_opt_def split: if_splits)

text \<open>The state in which the transactions of a request wait for their pages.\<close>

definition prepared :: "FtlRequest \<Rightarrow> nand_op \<Rightarrow> nat \<Rightarrow> zns_ssd \<Rightarrow> zns_ssd" where
  "prepared req ct k ssd = ssd
     \<lparr>next_ptr := next_ptr ssd + 1 + k,
      ts_heap := (\<lambda>p. if next_ptr ssd + 1 \<le> p \<and> p < next_ptr ssd + 1 + k then Some blank_ts else ts_heap ssd p),
      plus_heap := (plus_heap ssd)(next_ptr ssd \<mapsto>
        \<lparr>p_req = req, flash_ts = map Some [next_ptr ssd + 1 ..< next_ptr ssd + 1 + k], ts_num = k, ts_sum = k, maxlat = 0, cmd_type = ct\<rparr>)\<rparr>"

lemma prepared_inv:
  assumes "sched_inv (\<lambda>_. 0) ssd" and "k < 2 ^ 32"
  shows "sched_inv ((\<lambda>_. 0)(next_ptr ssd := k)) (prepared req ct k ssd)" and "waiting_ts (prepared req ct k ssd) = waiting_ts ssd"
    and "accepted (prepared req ct k ssd) = (if 0 < k then add_mset (NvmeRequest.truncate req) (accepted ssd) else accepted ssd)"
proof -
  note b = sched_basic(4)[OF assms(1)]
  define s where "s = ssd\<lparr>next_ptr := next_ptr ssd + 1 + k,
      ts_heap := (\<lambda>p. if next_ptr ssd + 1 \<le> p \<and> p < next_ptr ssd + 1 + k then Some blank_ts else ts_heap ssd p)\<rparr>"
  have "sched_inv (\<lambda>_. 0) s"
    by (rule extend_inv(1)[OF assms(1)]) (use fresh_not_waiting[OF assms(1)] b in \<open>auto simp: s_def\<close>)
  moreover have "plus_heap s (next_ptr ssd) = None" using b by (simp add: s_def)
  moreover define r where
    "r = \<lparr>p_req = req, flash_ts = map Some [next_ptr ssd + 1 ..< next_ptr ssd + 1 + k], ts_num = k, ts_sum = k, maxlat = 0, cmd_type = ct\<rparr>"
  ultimately have "sched_inv ((\<lambda>_. 0)(next_ptr ssd := ts_num r)) (s\<lparr>plus_heap := (plus_heap s)(next_ptr ssd \<mapsto> r)\<rparr>)"
    using assms(2) by (intro new_req_inv) (simp_all add: r_def s_def)
  then show "sched_inv ((\<lambda>_. 0)(next_ptr ssd := k)) (prepared req ct k ssd)" by (simp add: prepared_def s_def r_def)
  show "waiting_ts (prepared req ct k ssd) = waiting_ts ssd" by (simp add: prepared_def waiting_ts_def)
  show "accepted (prepared req ct k ssd) = (if 0 < k then add_mset (NvmeRequest.truncate req) (accepted ssd) else accepted ssd)"
    using in_flight_new[OF finite_dom_plus[OF assms(1)], of "next_ptr ssd"] b
    by (simp add: accepted_def returned_def prepared_def)
qed

lemma split_rw_eq:
  "split_rw req zone tt nlb new_wp phy ssd = do {
     ct \<leftarrow> rw_cmd_type (r_cmd req) (map_die_group_num phy);
     let k = min (u32 (sub32 nlb 1 div tt + 1)) (u32 (map_die_group_num phy * ZONE_MAX_DIE_PARA));
     let tts = [next_ptr ssd + 1 ..< next_ptr ssd + 1 + k];
     ssd' \<leftarrow> rw_pages zone tts tt (u32 (new_wp + nlb)) new_wp 0 (prepared req ct k ssd);
     foldM (link_ts (next_ptr ssd) zone) tts ssd'
   }"
proof -
  have "(if x > y then y else x) = min x y" for x y :: nat by simp
  then show ?thesis
    by (simp add: split_rw_def alloc_ptr_def Let_def new_ts_eq prepared_def min.commute del: upt_Suc cong del: if_weak_cong)
qed

text \<open>Once the pages are dealt, all transactions of the request are queued.\<close>

lemma queue_split:
  assumes "sched_inv (\<lambda>_. 0) ssd" and "0 < k" and "k < 2 ^ 32" and "0 < tt_luns (sp ssd)"
    and "rw_pages zone [next_ptr ssd + 1 ..< next_ptr ssd + 1 + k] tt lim i 0 (prepared req ct k ssd) = Some s"
  shows "\<exists>ssd'. foldM (link_ts (next_ptr ssd) zone) [next_ptr ssd + 1 ..< next_ptr ssd + 1 + k] s = Some ssd' \<and>
    sched_inv (\<lambda>_. 0) ssd' \<and> same_rest ssd ssd' \<and> accepted ssd' = add_mset (NvmeRequest.truncate req) (accepted ssd) \<and>
    plus_heap ssd' = plus_heap (prepared req ct k ssd) \<and>
    (\<forall>x \<in> {next_ptr ssd + 1 ..< next_ptr ssd + 1 + k}. x \<in> set (waiting_ts ssd') \<and>
      ts_heap ssd' x = map_option (\<lambda>t. t\<lparr>req_plus := next_ptr ssd, zone_idx := zone\<rparr>) (ts_heap s x))"
proof -
  define tts where "tts = [next_ptr ssd + 1 ..< next_ptr ssd + 1 + k]"
  note s = assms(5)[folded tts_def]
  let ?p = "prepared req ct k ssd"
  note p = prepared_inv[OF assms(1,3), of req ct]
  have "\<forall>x \<in> set tts. \<exists>t. ts_heap ?p x = Some t \<and> die_idx t < tt_luns (sp ?p)"
    using assms(4) by (auto simp: prepared_def tts_def blank_ts_def)
  then obtain th where th: "s = ?p\<lparr>ts_heap := th\<rparr>" "\<And>x. x \<notin> set tts \<Longrightarrow> th x = ts_heap ?p x"
      "\<And>x. x \<in> set tts \<Longrightarrow> \<exists>t. th x = Some t \<and> die_idx t < tt_luns (sp ?p)"
    using rw_pages_dealt[OF s] unfolding dealt_def by blast
  have disj: "set tts \<inter> set (waiting_ts ?p) = {}" using p(2) fresh_not_waiting[OF assms(1)] by (auto simp: tts_def)
  have "sched_inv ((\<lambda>_. 0)(next_ptr ssd := k)) s"
  proof (rule extend_inv(1)[OF p(1)])
    show "ts_heap s x = ts_heap ?p x" if "x \<in> set (waiting_ts ?p)" for x using that disj th(1,2) by auto
    show "ts_heap s x = None" if "next_ptr s \<le> x" for x
      using that th(1) th(2)[of x] sched_basic(4)[OF p(1)] by (auto simp: prepared_def tts_def)
  qed (simp_all add: th(1))
  then have pend: "sched_inv ((\<lambda>_. 0)(next_ptr ssd := 0 + length tts)) s" by (simp add: tts_def del: upt_Suc)
  have "set tts \<inter> set (waiting_ts s) = {}" using disj by (simp add: th(1) waiting_ts_def)
  moreover have "\<forall>x \<in> set tts. \<exists>t. ts_heap s x = Some t \<and> die_idx t < tt_luns (sp s)" using th(3) by (simp add: th(1))
  moreover have "plus_heap s (next_ptr ssd) \<noteq> None" by (simp add: th(1) prepared_def)
  moreover have "distinct tts" by (simp add: tts_def del: upt_Suc)
  ultimately obtain ssd' where l: "foldM (link_ts (next_ptr ssd) zone) tts s = Some ssd'" "sched_inv (\<lambda>_. 0) ssd'"
      "plus_heap ssd' = plus_heap s" "same_rest s ssd'" "set (waiting_ts ssd') = set tts \<union> set (waiting_ts s)"
      "\<And>x. ts_heap ssd' x = (if x \<in> set tts then map_option (\<lambda>t. t\<lparr>req_plus := next_ptr ssd, zone_idx := zone\<rparr>) (ts_heap s x) else ts_heap s x)"
    using link_loop[OF pend] by blast
  have "same_rest ?p s" "same_rest ssd ?p" by (simp_all add: same_rest_def th(1) prepared_def)
  then have sr: "same_rest ssd ssd'" "same_rest ?p ssd'" using l(4) same_rest_trans by blast+
  have ph: "plus_heap ssd' = plus_heap ?p" using l(3) by (simp add: th(1))
  then have "accepted ssd' = accepted ?p" using same_rest_ok[OF sr(2)] by (simp add: accepted_def)
  moreover have "{next_ptr ssd + 1 ..< next_ptr ssd + 1 + k} = set tts" by (simp add: tts_def del: upt_Suc)
  ultimately show ?thesis using l sr p(3) assms(2) ph unfolding tts_def[symmetric] by (intro exI[of _ ssd']) auto
qed

text \<open>Whether the reset of a zone has the blocks erased.\<close>

definition erases :: "nat \<Rightarrow> zns_ssd \<Rightarrow> bool" where
  "erases zone ssd \<longleftrightarrow> (case zone_reset_map zone (dymap ssd) of None \<Rightarrow> False | Some (erase, _) \<Rightarrow> erase)"

lemma split_rw_inv:
  assumes "split_rw req zone tt nlb new_wp phy ssd = Some ssd'" and "sched_inv (\<lambda>_. 0) ssd" and "0 < tt_luns (sp ssd)"
    and "0 < nlb" and "nlb \<le> 65536"
  shows "sched_inv (\<lambda>_. 0) ssd' \<and> same_rest ssd ssd' \<and> accepted ssd' =
    (if 0 < u32 (map_die_group_num phy * ZONE_MAX_DIE_PARA) then add_mset (NvmeRequest.truncate req) (accepted ssd) else accepted ssd)"
proof -
  define k where "k = min (u32 (sub32 nlb 1 div tt + 1)) (u32 (map_die_group_num phy * ZONE_MAX_DIE_PARA))"
  obtain ct s where s: "rw_pages zone [next_ptr ssd + 1 ..< next_ptr ssd + 1 + k] tt (u32 (new_wp + nlb)) new_wp 0 (prepared req ct k ssd) = Some s"
      "foldM (link_ts (next_ptr ssd) zone) [next_ptr ssd + 1 ..< next_ptr ssd + 1 + k] s = Some ssd'"
    using assms(1) by (auto simp: split_rw_eq Let_def bind_eq_Some_conv k_def)
  have "(nlb - 1) div tt < 65536" using assms(5) by (simp add: le_less_trans[OF div_le_dividend])
  then have k: "0 < k \<longleftrightarrow> 0 < u32 (map_die_group_num phy * ZONE_MAX_DIE_PARA)" "k < 2 ^ 32"
    using assms(4,5) by (auto simp: k_def min_less_iff_disj)
  show ?thesis
  proof (cases "0 < k")
    case True
    from queue_split[OF assms(2) this k(2) assms(3) s(1)] s(2) k(1) True show ?thesis by auto
  next
    case False
    then have "ssd' = prepared req ct 0 ssd"
      using s by (subst (asm) rw_pages.simps) (auto simp: nth_opt_def split: if_splits)
    with prepared_inv[OF assms(2), of 0 req ct] False k(1) show ?thesis
      by (auto simp: same_rest_def prepared_def fun_upd_idem)
  qed
qed

lemma zone_rw_inv:
  assumes "zone_rw n req zone wp ssd = Some ssd'" and "sched_inv (\<lambda>_. 0) ssd" and "\<not> inside_page n req wp ssd" and "0 < tt_luns (sp ssd)"
    and "nth_opt (phy_zones (dymap ssd)) zone = Some phy"
  shows "sched_inv (\<lambda>_. 0) ssd' \<and> same_rest ssd ssd' \<and> accepted ssd' =
    (if 0 < u32 (map_die_group_num phy * ZONE_MAX_DIE_PARA) then add_mset (NvmeRequest.truncate req) (accepted ssd) else accepted ssd)"
proof -
  let ?t = "lbas_per_page n ssd" and ?nlb = "zone_nlb (r_cmd req)"
  define una where "una = (0 < wp mod ?t)"
  define new_wp where "new_wp = u32 (if una then (wp div ?t + 1) * ?t else wp)"
  define nlb where "nlb = (if una then u32 (sub64 ?nlb (sub64 new_wp wp)) else ?nlb)"
  have skip: "una \<Longrightarrow> sub64 new_wp wp < ?nlb"
    using assms(3) by (auto simp: inside_page_def Let_def una_def new_wp_def)
  then have nlb: "0 < nlb" "nlb \<le> 65536" using zone_nlb_bounds[of "r_cmd req"] by (auto simp: nlb_def)
  have "split_rw req zone ?t nlb new_wp phy ssd = Some ssd'"
    using assms(1,5) skip
    by (auto simp: zone_rw_def Let_def div_opt_def bind_eq_Some_conv not_le una_def new_wp_def nlb_def
        simp flip: lbas_per_page_def split: if_splits)
  from split_rw_inv[OF this assms(2,4) nlb] show ?thesis .
qed

lemma zone_reset_inv:
  assumes "zone_reset req zone ssd = Some (ret, ssd')" and "sched_inv (\<lambda>_. 0) ssd"
    and "nth_opt (phy_zones (dymap ssd)) zone = Some phy"
  shows "sched_inv (\<lambda>_. 0) ssd' \<and> sp ssd' = sp ssd \<and> dies_ok ssd' = dies_ok ssd \<and> (ret \<noteq> 0 \<longleftrightarrow> erases zone ssd) \<and>
    accepted ssd' = (if ret = 0 \<or> u32 (map_die_group_num phy * ZONE_MAX_DIE_PARA) = 0 then accepted ssd
      else add_mset (NvmeRequest.truncate req) (accepted ssd))"
proof -
  obtain erase d where d: "zone_reset_map zone (dymap ssd) = Some (erase, d)" using assms(1) by (auto simp: zone_reset_def bind_eq_Some_conv)
  show ?thesis
  proof (cases erase)
    case False
    then have "ssd' = ssd\<lparr>dymap := d\<rparr>" "ret = 0" using assms(1) d by (auto simp: zone_reset_def)
    with assms(2) False d sched_inv_cong[of ssd' ssd] show ?thesis
      by (simp add: accepted_def returned_def dies_ok_def lun_in_def die_at_def erases_def)
  next
    case True
    let ?k = "u32 (map_die_group_num phy * ZONE_MAX_DIE_PARA)" and ?rp = "next_ptr ssd"
    define r where "r = \<lparr>p_req = req, flash_ts = [], ts_num = ?k, ts_sum = ?k, maxlat = 0, cmd_type = NAND_ERASE\<rparr>"
    define s0 where "s0 = ssd\<lparr>next_ptr := ?rp + 1\<rparr>"
    define s where "s = s0\<lparr>plus_heap := (plus_heap s0)(?rp \<mapsto> r)\<rparr>"
    obtain j s1 where s1: "foldM (reset_die ?rp zone) [j ..< j + ?k] s = Some s1" "ssd' = s1\<lparr>dymap := d\<rparr>" "ret = 1"
      using assms(1,3) d True
      by (auto simp: zone_reset_def alloc_ptr_def Let_def bind_eq_Some_conv s_def s0_def r_def)
    note b = sched_basic(4)[OF assms(2)]
    have "sched_inv (\<lambda>_. 0) s0" by (rule extend_inv(1)[OF assms(2)]) (use b in \<open>simp_all add: s0_def\<close>)
    then have "sched_inv ((\<lambda>_. 0)(?rp := ts_num r)) s"
      unfolding s_def using b by (intro new_req_inv) (simp_all add: s0_def r_def)
    then have "sched_inv ((\<lambda>_. 0)(?rp := 0 + length [j ..< j + ?k])) s" by (simp add: r_def)
    from reset_loop[OF this _ s1(1), of r] obtain r' where
      l: "sched_inv (\<lambda>_. 0) s1" "same_rest s s1" "p_req r' = req" "ts_num r' = ?k" "plus_heap s1 = (plus_heap s)(?rp \<mapsto> r')"
      by (auto simp: s_def r_def)
    have "same_rest ssd s" by (simp add: s_def s0_def same_rest_def)
    then have sr: "same_rest ssd s1" using l(2) same_rest_trans by blast
    have "in_flight (plus_heap s1) =
        (if 0 < ?k then add_mset (NvmeRequest.truncate req) (in_flight (plus_heap ssd)) else in_flight (plus_heap ssd))"
      using in_flight_new[OF finite_dom_plus[OF assms(2)], of ?rp r'] b l(3-5) by (simp add: s_def s0_def)
    with sr same_rest_ok[OF sr] s1(2,3) l(1) True d sched_inv_cong[of ssd' s1] show ?thesis
      by (simp add: same_rest_def accepted_def returned_def dies_ok_def lun_in_def die_at_def erases_def)
  qed
qed

text \<open>The requests the device loses: a read or write after the start-up phase that lies inside a page which is
  written already, or that has no die to go to, and a reset that has blocks erased for a zone that
  has no die, since it was never opened. Nothing is queued for them and nothing is given back.\<close>

definition lost_req :: "FemuCtrl \<Rightarrow> FtlRequest \<Rightarrow> zns_ssd \<Rightarrow> bool" where
  "lost_req n req ssd \<longleftrightarrow>
     (case (do {
        let cmd = r_cmd req;
        zone \<leftarrow> zns_zone_idx n (rw_slba cmd);
        z \<leftarrow> zone_at n zone;
        phy \<leftarrow> nth_opt (phy_zones (dymap ssd)) zone;
        let no_die = (u32 (map_die_group_num phy * ZONE_MAX_DIE_PARA) = 0);
        Some (if opcode cmd \<noteq> NVME_CMD_WRITE \<and> opcode cmd \<noteq> NVME_CMD_READ
              then u32 (cdw13 cmd) AND 0xff = NVME_ZONE_ACTION_RESET \<and> no_die \<and> erases zone ssd
              else start_up_flag (counted ssd) \<noteq> 0 \<and> \<not> (opcode cmd = NVME_CMD_READ \<and> map_die_group_num phy = 0) \<and>
                   (no_die \<or> inside_page n req (sub64 (rw_slba cmd) (d_zslba z)) ssd))
      }) of None \<Rightarrow> False | Some b \<Rightarrow> b)"

lemma submit_inv:
  assumes "sched_inv pend ssd" and "NvmeRequest.truncate req' = NvmeRequest.truncate req"
  shows "sched_inv pend (submit idx req' ssd) \<and> dies_ok (submit idx req' ssd) = dies_ok ssd \<and>
    accepted (submit idx req' ssd) = add_mset (NvmeRequest.truncate req) (accepted ssd)"
  using assms sched_inv_cong[of "submit idx req' ssd" ssd]
  by (simp add: submit_def accepted_def returned_def dies_ok_def lun_in_def die_at_def)

lemma stats_inv:
  assumes "sched_inv pend ssd"
  shows "sched_inv pend (ssd\<lparr>req_sum := x, start_up_flag := y\<rparr>)"
  using assms sched_inv_cong[of "ssd\<lparr>req_sum := x, start_up_flag := y\<rparr>" ssd] by simp

lemma counted_eq: "counted ssd = ssd\<lparr>req_sum := req_sum (counted ssd), start_up_flag := start_up_flag (counted ssd)\<rparr>"
  by (simp add: counted_def Let_def)

lemma counted_inv:
  assumes "sched_inv pend ssd"
  shows "sched_inv pend (counted ssd)" and "dies_ok (counted ssd) = dies_ok ssd" and "accepted (counted ssd) = accepted ssd"
    and "sp (counted ssd) = sp ssd" and "dymap (counted ssd) = dymap ssd"
    and "inside_page n req wp (counted ssd) = inside_page n req wp ssd"
proof -
  show "sched_inv pend (counted ssd)" by (subst counted_eq) (rule stats_inv[OF assms])
qed (simp_all add: counted_def Let_def dies_ok_def lun_in_def die_at_def accepted_def returned_def inside_page_def lbas_per_page_def)

text \<open>Distribution accepts the request, once, or loses it.\<close>

lemma distribute_inv:
  assumes "zns_req_distribute n idx req ssd = Some ssd'" and "sched_inv (\<lambda>_. 0) ssd" and "dies_ok ssd" and "0 < tt_luns (sp ssd)"
  shows "sched_inv (\<lambda>_. 0) ssd' \<and> dies_ok ssd' \<and> sp ssd' = sp ssd \<and>
    accepted ssd' = (if lost_req n req ssd then accepted ssd else add_mset (NvmeRequest.truncate req) (accepted ssd))"
proof -
  let ?cmd = "r_cmd req" and ?fin = "submit idx (req\<lparr>reqlat := 0\<rparr>)"
  obtain zone z phy where z: "zns_zone_idx n (rw_slba ?cmd) = Some zone" "zone < num_zones n" "zone_at n zone = Some z"
      "nth_opt (phy_zones (dymap ssd)) zone = Some phy"
    using assms(1) by (auto simp: zns_req_distribute_def Let_def bind_eq_Some_conv)
  let ?wp = "sub64 (rw_slba ?cmd) (d_zslba z)"
  have tr: "NvmeRequest.truncate (req\<lparr>reqlat := 0\<rparr>) = NvmeRequest.truncate req" by (simp add: NvmeRequest.defs)
  note sub = submit_inv[OF _ tr]
  have sub_sp: "sp (?fin s) = sp s" for s by (simp add: submit_def)
  show ?thesis
  proof (cases "opcode ?cmd \<noteq> NVME_CMD_WRITE \<and> opcode ?cmd \<noteq> NVME_CMD_READ")
    case mgmt: True
    let ?a = "u32 (cdw13 ?cmd) AND 0xff"
    show ?thesis
    proof (cases "?a = NVME_ZONE_ACTION_RESET")
      case True
      with mgmt z have lost: "lost_req n req ssd \<longleftrightarrow> u32 (map_die_group_num phy * ZONE_MAX_DIE_PARA) = 0 \<and> erases zone ssd"
        by (simp add: lost_req_def Let_def)
      obtain ret s where s: "zone_reset req zone ssd = Some (ret, s)" "ssd' = (if ret = 0 then ?fin s else s)"
        using assms(1) mgmt z True by (auto simp: zns_req_distribute_def Let_def bind_eq_Some_conv)
      from zone_reset_inv[OF s(1) assms(2) z(4)] sub[of "\<lambda>_. 0" s idx] assms(3) s(2) show ?thesis
        unfolding lost by (auto simp: sub_sp)
    next
      case False
      then obtain d where d: "ssd' = ?fin (ssd\<lparr>dymap := d\<rparr>)"
        using assms(1) mgmt z by (auto simp: zns_req_distribute_def Let_def bind_eq_Some_conv)
      let ?s = "ssd\<lparr>dymap := d\<rparr>"
      have "sched_inv (\<lambda>_. 0) ?s" using assms(2) sched_inv_cong[of ?s ssd] by simp
      moreover have "dies_ok ?s" "accepted ?s = accepted ssd"
        using assms(3) by (simp_all add: dies_ok_def lun_in_def die_at_def accepted_def returned_def)
      moreover have "\<not> lost_req n req ssd" using mgmt z False by (simp add: lost_req_def Let_def)
      ultimately show ?thesis using sub d by (simp add: sub_sp)
    qed
  next
    case rw: False
    note c = counted_inv[OF assms(2)]
    let ?direct = "start_up_flag (counted ssd) = 0 \<or> opcode ?cmd = NVME_CMD_READ \<and> map_die_group_num phy = 0"
    have r: "(if ?direct then Some (?fin (counted ssd)) else zone_rw n req zone ?wp (counted ssd)) = Some ssd'"
      using assms(1) rw z by (auto simp: zns_req_distribute_def Let_def split: if_splits)
    have lost: "lost_req n req ssd \<longleftrightarrow>
        \<not> ?direct \<and> (u32 (map_die_group_num phy * ZONE_MAX_DIE_PARA) = 0 \<or> inside_page n req ?wp ssd)"
      using rw z by (auto simp: lost_req_def Let_def)
    consider (direct) "?direct" | (inside) "\<not> ?direct" "inside_page n req ?wp ssd" | (split) "\<not> ?direct" "\<not> inside_page n req ?wp ssd"
      by blast
    then show ?thesis
    proof cases
      case direct
      with r have "ssd' = ?fin (counted ssd)" by simp
      with sub[OF c(1), of idx] c(2-4) assms(3) direct show ?thesis unfolding lost by (simp add: sub_sp)
    next
      case inside
      with r have "ssd' = counted ssd" using zone_rw_inside_page[of n req zone ?wp "counted ssd"] by (simp add: c)
      with c assms(3) inside show ?thesis unfolding lost by simp
    next
      case split
      with r have "zone_rw n req zone ?wp (counted ssd) = Some ssd'" by simp
      from zone_rw_inv[OF this c(1), of phy] split z(4) assms(4)
      have l: "sched_inv (\<lambda>_. 0) ssd'" "same_rest (counted ssd) ssd'" "accepted ssd' =
          (if 0 < u32 (map_die_group_num phy * ZONE_MAX_DIE_PARA) then add_mset (NvmeRequest.truncate req) (accepted ssd) else accepted ssd)"
        by (auto simp: c)
      from same_rest_ok[OF l(2)] l assms(3) split show ?thesis unfolding lost by (simp add: same_rest_def c)
    qed
  qed
qed

end
