(* ===== verification/SchedProps.thy ===== *)
theory SchedProps
  imports Sched
begin

text \<open>
  The properties of the scheduler: every request that is not lost on its way to the dies is given back
  exactly once, the queues drain, a pass serves the heads of the queues of the idle dies, and how a
  request is divided over the dies of its zone. A run of the device starts with the initialisation of
  \<open>zns_init\<close> (\<open>zns_ssd_init\<close>, then \<open>zns_ftl_init\<close>) and interleaves the distribution of requests with
  passes over the queues in any order.
\<close>

section \<open>Runs\<close>

lemma ssd_init_eq:
  assumes "zns_ssd_init fc name n = Some (ssd, strat)"
  shows "sp ssd = zns_ssd_init_params fc \<and> chans ssd = replicate 8 (zns_ssd_init_ch (zns_ssd_init_params fc)) \<and>
    ts_heap ssd = Map.empty \<and> plus_heap ssd = Map.empty \<and> to_poller ssd = [] \<and> dg_time_us ssd = replicate 8 0 \<and>
    start_up_flag ssd = 0 \<and> req_sum ssd = 0"
proof -
  let ?s = "zns_ssd_init_internal_structure fc zns_ssd_zero"
  obtain bgn where "ssd = ?s\<lparr>zns_map_trad := \<lparr>trad_die_group = replicate PARA_LEVEL 0, block_group_num_per_die = bgn\<rparr>,
      sm_pl_sz := 0, df_addr_type_sz := 0, pl_sz := 0, sum_serv_time_us := 0\<rparr>"
    using assms
    by (auto simp: zns_ssd_init_def sup_zns_phy_m_strategy_select_def bind_eq_Some_conv phy_zone_mapping_init_tradition_def
        sup_zns_phy_m_tradition_register_def Let_def split: if_splits)
  moreover have "nchs (zns_ssd_init_params fc) = 8" by (simp add: zns_ssd_init_params_def Let_def)
  ultimately show ?thesis
    by (simp add: zns_ssd_init_internal_structure_def zns_ssd_zero_def Let_def)
qed

lemma boot_inv:
  assumes "zns_ssd_init fc name n = Some (ssd, strat)"
  shows "sched_inv (\<lambda>_. 0) (zns_ftl_init n ssd)" and "dies_ok (zns_ftl_init n ssd)" and "accepted (zns_ftl_init n ssd) = {#}"
    and "0 < tt_luns (sp (zns_ftl_init n ssd))"
proof -
  note i = ssd_init_eq[OF assms]
  have f: "die_list (zns_ftl_init n ssd) = replicate (tt_luns (sp ssd)) InitList" "sp (zns_ftl_init n ssd) = sp ssd"
      "ts_heap (zns_ftl_init n ssd) = Map.empty" "plus_heap (zns_ftl_init n ssd) = Map.empty" "to_poller (zns_ftl_init n ssd) = []"
      "chans (zns_ftl_init n ssd) = chans ssd" "dg_time_us (zns_ftl_init n ssd) = dg_time_us ssd"
    using i by (simp_all add: zns_ftl_init_def zns_dynamic_mapping_init_def Let_def)
  have e: "list_inv InitList" "list_contents InitList = []" using die_q.empty_law by auto
  have w: "waiting_ts (zns_ftl_init n ssd) = []" by (auto simp: waiting_ts_def f e)
  show "sched_inv (\<lambda>_. 0) (zns_ftl_init n ssd)" using e by (simp add: sched_inv_def f w)
  show "accepted (zns_ftl_init n ssd) = {#}" by (simp add: accepted_def returned_def in_flight_def f)
  have p: "tt_luns (zns_ssd_init_params fc) = 64" "nchs (zns_ssd_init_params fc) = 8" "pls_per_lun (zns_ssd_init_params fc) = 2"
      "luns_per_ch (zns_ssd_init_params fc) = 8"
    by (simp_all add: zns_ssd_init_params_def Let_def)
  then have "length (ch_lun (zns_ssd_init_ch (zns_ssd_init_params fc))) = 8" by (simp add: zns_ssd_init_ch_def)
  then show "dies_ok (zns_ftl_init n ssd)"
    using i p by (simp add: dies_ok_def f lun_in_def die_at_def ZONE_MAX_DIE_PARA_def) auto
  show "0 < tt_luns (sp (zns_ftl_init n ssd))" using i p by (simp add: f)
qed

text \<open>\<open>reqs\<close> are the requests handed to \<open>zns_req_distribute\<close>, in their order; \<open>lost\<close> are those among them
  that satisfied \<open>lost_req\<close> when they were handed over.\<close>

inductive sched_run :: "ftl_consts \<Rightarrow> FtlRequest list \<Rightarrow> FtlRequest list \<Rightarrow> zns_ssd \<Rightarrow> bool" for fc where
  boot: "zns_ssd_init fc name n = Some (ssd, strat) \<Longrightarrow> sched_run fc [] [] (zns_ftl_init n ssd)"
| distribute: "sched_run fc reqs lost ssd \<Longrightarrow> zns_req_distribute n idx req ssd = Some ssd' \<Longrightarrow>
    sched_run fc (reqs @ [req]) (if lost_req n req ssd then lost @ [req] else lost) ssd'"
| process: "sched_run fc reqs lost ssd \<Longrightarrow> zns_process_die_queue idx clock ssd = Some ssd' \<Longrightarrow> sched_run fc reqs lost ssd'"

lemma sched_run_inv:
  assumes "sched_run fc reqs lost ssd"
  shows "sched_inv (\<lambda>_. 0) ssd \<and> dies_ok ssd \<and> 0 < tt_luns (sp ssd) \<and>
    accepted ssd + mset (map NvmeRequest.truncate lost) = mset (map NvmeRequest.truncate reqs)"
  using assms
proof induction
  case (boot name n ssd strat)
  from boot_inv[OF this] show ?case by simp
next
  case (distribute reqs lost ssd n req idx ssd')
  with distribute_inv[OF distribute(2)] show ?case by auto
next
  case (process reqs lost ssd idx clock ssd')
  with process_inv[of ssd idx clock] show ?case by auto
qed

section \<open>Dealing the pages\<close>

text \<open>The number of pages before page \<open>m\<close> of a request that go to transaction \<open>r\<close> of \<open>k\<close>.\<close>

definition pages_of :: "nat \<Rightarrow> nat \<Rightarrow> nat \<Rightarrow> nat" where
  "pages_of k m r = card {i. i < m \<and> i mod k = r}"

lemma pages_of_Suc: "pages_of k (Suc m) r = pages_of k m r + (if m mod k = r then 1 else 0)"
proof -
  have "{i. i < Suc m \<and> i mod k = r} = (if m mod k = r then insert m {i. i < m \<and> i mod k = r} else {i. i < m \<and> i mod k = r})"
    by (auto simp: less_Suc_eq)
  then show ?thesis by (simp add: pages_of_def)
qed

lemma pages_of_0 [simp]: "pages_of k 0 r = 0"
  by (simp add: pages_of_def)

text \<open>The transactions after \<open>m\<close> pages; \<open>D j\<close> is the die of page \<open>j\<close>.\<close>

definition dealt_to :: "(nat \<Rightarrow> nat) \<Rightarrow> nat \<Rightarrow> nat \<Rightarrow> nat \<Rightarrow> zns_ssd \<Rightarrow> zns_ssd" where
  "dealt_to D b k m s = s\<lparr>ts_heap := (\<lambda>x. if b \<le> x \<and> x < b + k
     then Some (blank_ts\<lparr>die_idx := (if x - b < m then D (x - b) else 0), ops_num := pages_of k m (x - b)\<rparr>) else ts_heap s x)\<rparr>"

lemma dealt_to_0:
  assumes "\<And>x. b \<le> x \<Longrightarrow> x < b + k \<Longrightarrow> ts_heap s x = Some blank_ts"
  shows "dealt_to D b k 0 s = s"
proof -
  have "blank_ts\<lparr>die_idx := 0, ops_num := 0\<rparr> = blank_ts" by (simp add: blank_ts_def)
  then have "(\<lambda>x. if b \<le> x \<and> x < b + k then Some (blank_ts\<lparr>die_idx := (if x - b < 0 then D (x - b) else 0),
      ops_num := pages_of k 0 (x - b)\<rparr>) else ts_heap s x) = ts_heap s"
    using assms by (auto simp: fun_eq_iff)
  then show ?thesis by (simp add: dealt_to_def)
qed

lemma deal_page_step:
  assumes "get_ppa_by_lba_base s zone i = Some p" and "g_ch p * luns_per_ch (sp s) + g_lun p = D m" and "D m < tt_luns (sp s)"
    and "D (m mod k) = D m" and "0 < k"
  shows "deal_page zone i (b + m mod k) (dealt_to D b k m s) = Some (dealt_to D b k (Suc m) s)"
proof -
  let ?r = "m mod k"
  have r: "?r < k" "?r < Suc m" using assms(5) by (simp_all add: le_imp_less_Suc)
  have other: "(x - b < Suc m) = (x - b < m)" if "x \<noteq> b + ?r" "b \<le> x" "x < b + k" for x
  proof -
    have "x - b \<noteq> m" using that by (cases "m < k") auto
    then show ?thesis by auto
  qed
  let ?h = "\<lambda>m x. if b \<le> x \<and> x < b + k
     then Some (blank_ts\<lparr>die_idx := (if x - b < m then D (x - b) else 0), ops_num := pages_of k m (x - b)\<rparr>) else ts_heap s x"
  have "(?h m)(b + ?r \<mapsto> blank_ts\<lparr>die_idx := D m, ops_num := pages_of k m ?r + 1\<rparr>) = ?h (Suc m)"
    using r other assms(4) by (auto simp: fun_eq_iff pages_of_Suc)
  moreover have "get_ppa_by_lba_base (dealt_to D b k m s) zone i = Some p"
    using assms(1) by (simp add: get_ppa_by_lba_base_def dealt_to_def Let_def)
  moreover have "pl_idx blank_ts = 0" by (simp add: blank_ts_def)
  ultimately show ?thesis
    using assms(2,3) r by (simp add: deal_page_def Let_def dealt_to_def)
qed

lemma rw_pages_deals:
  assumes "\<And>j. j < P \<Longrightarrow> \<exists>p. get_ppa_by_lba_base s zone (w + j * t) = Some p \<and> g_ch p * luns_per_ch (sp s) + g_lun p = D j \<and> D j < tt_luns (sp s)"
    and "\<And>j. j < P \<Longrightarrow> D (j mod k) = D j" and "0 < k" and "lim \<le> w + P * t" and "w + P * t < 2 ^ 32"
    and "\<And>j. j < P \<Longrightarrow> w + j * t < lim" and "m \<le> P"
  shows "rw_pages zone [b ..< b + k] t lim (w + m * t) (m mod k) (dealt_to D b k m s) = Some (dealt_to D b k P s)"
  using assms(7)
proof (induction rule: inc_induct)
  case base
  then show ?case using assms(4) by (subst rw_pages.simps) simp
next
  case (step m)
  obtain p where p: "get_ppa_by_lba_base s zone (w + m * t) = Some p" "g_ch p * luns_per_ch (sp s) + g_lun p = D m" "D m < tt_luns (sp s)"
    using assms(1)[OF step(2)] by blast
  have k: "m mod k < k" using assms(3) by simp
  have "Suc m * t \<le> P * t" using step(2) by (intro mult_le_mono1) simp
  then have i: "u32 (w + m * t + t) = w + Suc m * t" using assms(5) by (subst u32_id) (simp_all add: algebra_simps)
  have r: "(if Suc (m mod k) = length [b ..< b + k] then 0 else Suc (m mod k)) = Suc m mod k" by (simp add: mod_Suc)
  have "nth_opt [b ..< b + k] (m mod k) = Some (b + m mod k)" using k by (simp add: nth_opt_def)
  with assms(6)[OF step(2)] deal_page_step[OF p assms(2)[OF step(2)] assms(3), of b] step.IH show ?case
    by (subst rw_pages.simps) (simp only: i r if_True bind.simps)
qed

text \<open>The die of page \<open>j\<close> of a request that starts at \<open>wp\<close>.\<close>

definition page_die :: "zns_ssd \<Rightarrow> nat \<Rightarrow> nat \<Rightarrow> nat \<Rightarrow> nat" where
  "page_die ssd zone wp j =
     fst (zone_fbg (dymap ssd) zone) * ZONE_MAX_DIE_PARA + (wp div secs_per_pg (sp ssd) + j) mod ZONE_MAX_DIE_PARA"

lemma page_die_ppa:
  assumes "dev_ok ssd" and "dymap_inv (dymap ssd)" and "live_inv (dymap ssd) live" and "zone \<in> live"
    and "die_group_sum (dymap ssd) = tt_luns (sp ssd) div ZONE_MAX_DIE_PARA" and "wp mod secs_per_pg (sp ssd) = 0"
    and "wp div secs_per_pg (sp ssd) + j < fbg_pages ssd"
  shows "\<exists>p. get_ppa_by_lba_base ssd zone (wp + j * secs_per_pg (sp ssd)) = Some p \<and>
    g_ch p * luns_per_ch (sp ssd) + g_lun p = page_die ssd zone wp j \<and> page_die ssd zone wp j < tt_luns (sp ssd)"
proof -
  let ?t = "secs_per_pg (sp ssd)"
  have "0 < ?t" using assms(1) by (simp add: dev_ok_def Let_def)
  then have pg: "(wp + j * ?t) div ?t = wp div ?t + j" by simp
  have "fst (zone_fbg (dymap ssd) zone) < die_group_sum (dymap ssd)"
    using assms(3,4) by (auto simp: live_inv_def)
  then have "page_die ssd zone wp j < tt_luns (sp ssd)"
    using group_die_less[OF assms(1)] assms(5) zone_para_pos by (simp add: page_die_def)
  with get_ppa_live[OF assms(1-5), of "wp + j * ?t"] assms(7) show ?thesis
    by (simp add: pg dyn_ppa_def Let_def page_die_def)
qed

lemma page_die_period:
  assumes "k = min P ZONE_MAX_DIE_PARA" and "j < P"
  shows "page_die ssd zone wp (j mod k) = page_die ssd zone wp j"
proof (cases "P \<le> ZONE_MAX_DIE_PARA")
  case True
  with assms show ?thesis by simp
next
  case False
  then have "k = ZONE_MAX_DIE_PARA" using assms(1) by simp
  then show ?thesis by (simp add: page_die_def mod_simps)
qed

lemma zone_rw_aligned:
  assumes "wp mod lbas_per_page n ssd = 0" and "0 < lbas_per_page n ssd" and "wp < 2 ^ 32"
    and "zone < length (phy_zones (dymap ssd))"
  shows "zone_rw n req zone wp ssd =
    split_rw req zone (lbas_per_page n ssd) (zone_nlb (r_cmd req)) wp (phy_zones (dymap ssd) ! zone) ssd"
proof -
  have "u32 (2 ^ zns_ns_lbads n) \<noteq> 0" using assms(2) by (cases "u32 (2 ^ zns_ns_lbads n) = 0") (simp_all add: lbas_per_page_def)
  with assms show ?thesis by (simp add: zone_rw_def div_opt_def Let_def flip: lbas_per_page_def)
qed

lemma waiting_on_die:
  assumes "sched_inv pend ssd" and "x \<in> set (waiting_ts ssd)" and "ts_heap ssd x = Some t"
  shows "x \<in> set (list_contents (die_list ssd ! die_idx t))"
proof -
  obtain i where i: "i < length (die_list ssd)" "x \<in> set (list_contents (die_list ssd ! i))"
    using assms(2) by (auto simp: waiting_ts_def in_set_conv_nth) (metis in_set_conv_nth)
  with sched_lists(2)[OF assms(1)] sched_basic(1)[OF assms(1)] assms(3) show ?thesis by force
qed

lemma aligned_split:
  assumes "dev_ok ssd" and "dymap_inv (dymap ssd)" and "live_inv (dymap ssd) live" and "zone \<in> live"
    and "die_group_sum (dymap ssd) = tt_luns (sp ssd) div ZONE_MAX_DIE_PARA" and "sched_inv (\<lambda>_. 0) ssd"
    and "opcode (r_cmd req) = NVME_CMD_WRITE \<or> opcode (r_cmd req) = NVME_CMD_READ"
    and "lbas_per_page n ssd = secs_per_pg (sp ssd)" and "wp mod secs_per_pg (sp ssd) = 0"
    and "P = (zone_nlb (r_cmd req) - 1) div secs_per_pg (sp ssd) + 1" and "wp div secs_per_pg (sp ssd) + P \<le> fbg_pages ssd"
    and "k = min P ZONE_MAX_DIE_PARA" and "wp + P * secs_per_pg (sp ssd) < 2 ^ 32"
  shows "\<exists>s ct. zone_rw n req zone wp ssd = Some s \<and> sched_inv (\<lambda>_. 0) s \<and>
    accepted s = add_mset (NvmeRequest.truncate req) (accepted ssd) \<and> plus_heap s = plus_heap (prepared req ct k ssd) \<and>
    (\<forall>x \<in> {next_ptr ssd + 1 ..< next_ptr ssd + 1 + k}. x \<in> set (waiting_ts s) \<and>
      ts_heap s x = map_option (\<lambda>t. t\<lparr>req_plus := next_ptr ssd, zone_idx := zone\<rparr>)
        (ts_heap (dealt_to (page_die ssd zone wp) (next_ptr ssd + 1) k P (prepared req ct k ssd)) x))"
proof -
  let ?t = "secs_per_pg (sp ssd)" and ?phy = "phy_zones (dymap ssd) ! zone" and ?nlb = "zone_nlb (r_cmd req)"
    and ?b = "next_ptr ssd + 1" and ?D = "page_die ssd zone wp"
  note nb = zone_nlb_bounds[of "r_cmd req"]
  have t: "0 < ?t" "0 < tt_luns (sp ssd)" using assms(1) by (auto simp: dev_ok_def Let_def INITIAL_OPEN_LIMIT_def intro: gr0I)
  have z: "zone < length (phy_zones (dymap ssd))" "map_die_group_num ?phy = 1" using assms(3,4) by (auto simp: live_inv_def)
  have "(?nlb - 1) div ?t \<le> ?nlb - 1" by (rule div_le_dividend)
  then have P: "0 < P" "P \<le> 65536" using assms(10) nb by linarith+
  have "?nlb - 1 < P * ?t" using assms(10) t(1) by (simp add: dividend_less_div_times)
  then have Pt: "?nlb \<le> P * ?t" by simp
  have k: "0 < k" "k < 2 ^ 32" using P assms(12) by (auto simp: ZONE_MAX_DIE_PARA_def)
  have k': "k = min (u32 (sub32 ?nlb 1 div ?t + 1)) (u32 (map_die_group_num ?phy * ZONE_MAX_DIE_PARA))"
    using assms(10,12) nb P(2) z(2) by (simp add: ZONE_MAX_DIE_PARA_def)
  obtain ct where ct: "rw_cmd_type (r_cmd req) (map_die_group_num ?phy) = Some ct" using assms(7) z(2) by (auto simp: rw_cmd_type_def)
  let ?p = "prepared req ct k ssd"
  have lim: "wp + j * ?t < wp + ?nlb" if "j < P" for j
  proof -
    have "j \<le> (?nlb - 1) div ?t" using that assms(10) by simp
    then have "j * ?t \<le> ?nlb - 1" using t(1) by (simp add: less_eq_div_iff_mult_less_eq)
    then show ?thesis using nb by linarith
  qed
  have pages: "\<exists>p. get_ppa_by_lba_base ssd zone (wp + j * ?t) = Some p \<and>
      g_ch p * luns_per_ch (sp ssd) + g_lun p = ?D j \<and> ?D j < tt_luns (sp ssd)" if "j < P" for j
    using page_die_ppa[OF assms(1-5,9)] assms(11) that by simp
  have same: "sp ?p = sp ssd" "get_ppa_by_lba_base ?p = get_ppa_by_lba_base ssd"
    by (simp_all add: prepared_def get_ppa_by_lba_base_def fun_eq_iff Let_def)
  have "rw_pages zone [?b ..< ?b + k] ?t (wp + ?nlb) (wp + 0 * ?t) (0 mod k) (dealt_to ?D ?b k 0 ?p) = Some (dealt_to ?D ?b k P ?p)"
    by (rule rw_pages_deals) (use pages page_die_period[OF assms(12)] k Pt lim assms(13) in \<open>simp_all add: same\<close>)
  moreover have "dealt_to ?D ?b k 0 ?p = ?p" by (rule dealt_to_0) (simp add: prepared_def)
  ultimately have rw: "rw_pages zone [?b ..< ?b + k] ?t (u32 (wp + ?nlb)) wp 0 ?p = Some (dealt_to ?D ?b k P ?p)"
    using assms(13) Pt by simp
  have "zone_rw n req zone wp ssd = foldM (link_ts (next_ptr ssd) zone) [?b ..< ?b + k] (dealt_to ?D ?b k P ?p)"
  proof -
    have "split_rw req zone ?t ?nlb wp ?phy ssd = foldM (link_ts (next_ptr ssd) zone) [?b ..< ?b + k] (dealt_to ?D ?b k P ?p)"
      unfolding split_rw_eq k'[symmetric] Let_def using ct rw by (simp del: upt_Suc)
    then show ?thesis using zone_rw_aligned[of wp n ssd zone req] assms(8,9,13) t z(1) by simp
  qed
  with queue_split[OF assms(6) k t(2) rw] show ?thesis by auto
qed

section \<open>A run\<close>

text \<open>A device with the zones of \<open>ex_ctrl\<close> after its initialisation.\<close>

definition ex_zns :: FemuCtrl where
  "ex_zns = ex_ctrl\<lparr>zone_size_bs := NVME_DEFAULT_ZONE_SIZE\<rparr>"

lemma ex_boot: "\<exists>ssd. zns_ssd_init (ex_fc False) MAP_TRADITION_NAME ex_zns = Some (ssd, sup_zns_phy_m_tradition_register)"
  by (simp add: ex_zns_def zns_ssd_init_def sup_zns_phy_m_strategy_select_def phy_zone_mapping_init_tradition_def
        sup_zns_phy_m_tradition_register_def div_opt_def Let_def NVME_DEFAULT_ZONE_SIZE_def)

lemma ftl_init_fields:
  "start_up_flag (zns_ftl_init n ssd) = start_up_flag ssd" "req_sum (zns_ftl_init n ssd) = req_sum ssd"
  "length (phy_zones (dymap (zns_ftl_init n ssd))) = num_zones n" "sp (zns_ftl_init n ssd) = sp ssd"
  by (simp_all add: zns_ftl_init_def zns_dynamic_mapping_init_def Let_def)

lemma ex_zns_fields:
  "zns_zone_idx ex_zns 2 = Some 0" "num_zones ex_zns = 4" "zone_at ex_zns 0 = Some (ex_zone 0 NVME_ZONE_STATE_IMPLICITLY_OPEN 3)"
  "zns_ns_lbads ex_zns = 9" "zns_zone_idx ex_zns 16 = Some 2" "map_option d_zslba (zone_at ex_zns 2) = Some 16"
  by (simp_all add: ex_zns_def ex_ctrl_def zns_zone_idx_def zone_at_def zns_ns_lbads_def ex_states)

lemma ex_cmd:
  "r_cmd (ex_ftl_req r t) = r_cmd r" "opcode (r_cmd (ex_req op slba nlb dw)) = op" "rw_slba (r_cmd (ex_req op slba nlb dw)) = slba"
  "rw_nlb (r_cmd (ex_req op slba nlb dw)) = nlb"
  by (simp_all add: ex_ftl_req_def ex_req_def NvmeRequest.defs)

text \<open>Zone 2 is opened, which is answered at once, and reset, which puts a transaction into the queue of each
  of its dies.\<close>

lemma reset_die_total:
  assumes "sched_inv pend ssd" and "plus_heap ssd rp = Some r" and "j < tt_luns (sp ssd)"
  shows "\<exists>s. reset_die rp zone j ssd = Some s"
  using sched_inv_list[OF assms(1,3)] die_q.ins_law[of "die_list ssd ! j" "next_ptr ssd"] assms(2,3)
  by (auto simp: reset_die_def alloc_ptr_def Let_def queue_ts_def)

lemma reset_loop_total:
  assumes "sched_inv (pend(rp := pend rp + length js)) ssd" and "plus_heap ssd rp = Some r" and "\<forall>j \<in> set js. j < tt_luns (sp ssd)"
  shows "\<exists>s. foldM (reset_die rp zone) js ssd = Some s"
  using assms
proof (induction js arbitrary: ssd r)
  case Nil
  then show ?case by simp
next
  case (Cons j js)
  let ?p = "pend(rp := pend rp + length js)"
  obtain s where s: "reset_die rp zone j ssd = Some s" using reset_die_total[OF Cons.prems(1,2), of j zone] Cons.prems(3) by auto
  have "?p(rp := ?p rp + length [j]) = pend(rp := pend rp + length (j # js))" by (simp add: fun_eq_iff)
  with Cons.prems(1) have "sched_inv (?p(rp := ?p rp + length [j])) ssd" by (simp only:)
  from reset_loop[OF this Cons.prems(2), of zone s] s obtain r' where
    "sched_inv ?p s" "sp s = sp ssd" "plus_heap s rp = Some r'" by (auto simp: same_rest_def)
  with Cons.IH[of s r'] Cons.prems(3) s show ?case by (simp add: fun_upd_def)
qed

lemma reset_live_total:
  assumes "sched_inv (\<lambda>_. 0) ssd" and "dev_ok ssd" and "dymap_inv (dymap ssd)" and "live_inv (dymap ssd) live" and "zone \<in> live"
    and "die_group_sum (dymap ssd) = tt_luns (sp ssd) div ZONE_MAX_DIE_PARA"
  shows "\<exists>ssd'. zone_reset req zone ssd = Some (1, ssd')"
proof -
  let ?d = "dymap ssd" and ?P = ZONE_MAX_DIE_PARA
  obtain g f where gf: "zone_fbg ?d zone = (g, f)" by force
  have l: "zone < length (phy_zones ?d)" "map_die_group_num (phy_zones ?d ! zone) = 1" "g < die_group_sum ?d"
      "die_groups (phy_zones ?d ! zone) ! 0 = g"
    using assms(4,5) gf by (auto simp: live_inv_def zone_fbg_def)
  have len: "length (die_groups (phy_zones ?d ! zone)) = 8" "length (dgroups ?d) = die_group_sum ?d"
      "die (dgroups ?d ! g) = map (\<lambda>j. g * ?P + j) [0 ..< ?P]"
    using assms(3) l by (auto simp: dymap_inv_def group_inv_def)
  have die: "nth_opt (die (dgroups ?d ! g)) 0 = Some (g * ?P)" "u32 ?P = ?P" by (simp_all add: len nth_opt_def ZONE_MAX_DIE_PARA_def)
  define r where "r = \<lparr>p_req = req, flash_ts = [], ts_num = ?P, ts_sum = ?P, maxlat = 0, cmd_type = NAND_ERASE\<rparr>"
  define s where "s = ssd\<lparr>next_ptr := next_ptr ssd + 1, plus_heap := (plus_heap ssd)(next_ptr ssd \<mapsto> r)\<rparr>"
  note b = sched_basic(4)[OF assms(1)]
  have "sched_inv (\<lambda>_. 0) (ssd\<lparr>next_ptr := next_ptr ssd + 1\<rparr>)" by (rule extend_inv(1)[OF assms(1)]) (use b in simp_all)
  from new_req_inv[OF this, of "next_ptr ssd" r] b
  have "sched_inv ((\<lambda>_. 0)(next_ptr ssd := 0 + length [g * ?P ..< g * ?P + ?P])) s"
    by (simp add: s_def r_def ZONE_MAX_DIE_PARA_def)
  moreover have "\<forall>j \<in> set [g * ?P ..< g * ?P + ?P]. j < tt_luns (sp s)"
  proof
    fix j assume "j \<in> set [g * ?P ..< g * ?P + ?P]"
    then have "g * ?P \<le> j" "j - g * ?P < ?P" by auto
    with group_die_less[OF assms(2), of g "j - g * ?P"] l(3) assms(6) show "j < tt_luns (sp s)" by (simp add: s_def)
  qed
  ultimately obtain s' where "foldM (reset_die (next_ptr ssd) zone) [g * ?P ..< g * ?P + ?P] s = Some s'"
    using reset_loop_total[of "\<lambda>_. 0" "next_ptr ssd" "[g * ?P ..< g * ?P + ?P]" s r zone] by (auto simp: s_def)
  with l len die zone_reset_map_live(1)[OF assms(3-5)] show ?thesis
    by (simp add: zone_reset_def alloc_ptr_def Let_def s_def r_def)
qed

lemma reset_poller:
  assumes "zone_reset req zone ssd = Some (ret, ssd')"
  shows "to_poller ssd' = to_poller ssd"
proof -
  have "foldM (reset_die rp zone) js s = Some s' \<Longrightarrow> to_poller s' = to_poller s" for rp js s s'
    by (induction js arbitrary: s) (auto simp: reset_die_def queue_ts_def alloc_ptr_def Let_def bind_eq_Some_conv)
  with assms show ?thesis by (fastforce simp: zone_reset_def alloc_ptr_def Let_def bind_eq_Some_conv split: if_splits)
qed

definition ex_open :: FtlRequest where
  "ex_open = ex_ftl_req (ex_req NVME_CMD_ZONE_MGMT_SEND 16 0 NVME_ZONE_ACTION_OPEN) 5"

definition ex_reset :: FtlRequest where
  "ex_reset = ex_ftl_req (ex_req NVME_CMD_ZONE_MGMT_SEND 16 0 NVME_ZONE_ACTION_RESET) 6"

lemma ex_run: "\<exists>ssd. sched_run (ex_fc False) [ex_open, ex_reset] [] ssd \<and> map (NvmeRequest.truncate \<circ> snd) (to_poller ssd) = [NvmeRequest.truncate ex_open]"
proof -
  obtain s0 where b: "zns_ssd_init (ex_fc False) MAP_TRADITION_NAME ex_zns = Some (s0, sup_zns_phy_m_tradition_register)"
    using ex_boot by blast
  let ?i = "zns_ftl_init ex_zns s0"
  have dev: "dev_ok s0"
    using ssd_init_eq[OF b] by (simp add: dev_ok_def) (simp add: zns_ssd_init_params_def Let_def ZONE_MAX_DIE_PARA_def INITIAL_OPEN_LIMIT_def)
  have dm: "dymap ?i = dymap (zns_dynamic_mapping_init ex_zns s0)" by (simp add: zns_ftl_init_def zns_dynamic_mapping_init_def Let_def)
  obtain d where d: "zone_open ex_zns 2 (dymap ?i) = Some d"
    using mapping_open_fresh[OF dev, of 2 ex_zns] by (auto simp: dm ex_zns_fields)
  have m: "run_inv d ({2}, {})" "die_group_sum d = tt_luns (sp s0) div ZONE_MAX_DIE_PARA"
    using run_inv_open[OF mapping_init_run[OF dev] d[unfolded dm]] mapping_init_inv(3)[OF dev, of ex_zns] by simp_all
  obtain z where z: "zone_at ex_zns 2 = Some z" "d_zslba z = 16" using ex_zns_fields(6) by auto
  have c: "opcode (r_cmd r) = NVME_CMD_ZONE_MGMT_SEND \<and> rw_slba (r_cmd r) = 16" if "r \<in> {ex_open, ex_reset}" for r
    using that by (auto simp: ex_open_def ex_reset_def ex_cmd)
  have a: "u32 (cdw13 (r_cmd ex_open)) AND 0xff = NVME_ZONE_ACTION_OPEN" "u32 (cdw13 (r_cmd ex_reset)) AND 0xff = NVME_ZONE_ACTION_RESET"
    by (simp_all add: ex_open_def ex_reset_def ex_ftl_req_def ex_req_def NvmeRequest.defs)
  have len: "length (phy_zones (dymap ?i)) = 4" by (simp add: ftl_init_fields ex_zns_fields)
  define s1 where "s1 = submit 1 (ex_open\<lparr>reqlat := 0\<rparr>) (?i\<lparr>dymap := d\<rparr>)"
  have o: "zns_req_distribute ex_zns 1 ex_open ?i = Some s1" "\<not> lost_req ex_zns ex_open ?i"
    using c[of ex_open] a(1) z d len by (simp_all add: zns_req_distribute_def lost_req_def s1_def Let_def ex_zns_fields)
  have r1: "sched_run (ex_fc False) [ex_open] [] s1" using distribute[OF boot[OF b] o(1)] o(2) by simp
  have f: "dymap s1 = d" "sp s1 = sp s0" "to_poller s1 = [(1, ex_open\<lparr>reqlat := 0\<rparr>)]"
    using ssd_init_eq[OF b] by (simp_all add: s1_def submit_def ftl_init_fields) (simp add: zns_ftl_init_def zns_dynamic_mapping_init_def Let_def)
  have dev1: "dev_ok s1" using dev by (simp add: dev_ok_def f)
  obtain s2 where s2: "zone_reset ex_reset 2 s1 = Some (1, s2)"
    using reset_live_total[OF _ dev1, of "{2}" 2] sched_run_inv[OF r1] m f by (auto simp: run_inv_def)
  have l: "map_die_group_num (phy_zones d ! 2) = 1" "2 < length (phy_zones d)" using m(1) by (simp_all add: run_inv_def live_inv_def)
  have q: "zns_req_distribute ex_zns 1 ex_reset s1 = Some s2" "\<not> lost_req ex_zns ex_reset s1"
    using c[of ex_reset] a(2) z l s2 by (simp_all add: zns_req_distribute_def lost_req_def f Let_def ex_zns_fields ZONE_MAX_DIE_PARA_def)
  have "to_poller s2 = to_poller s1" by (rule reset_poller[OF s2])
  then show ?thesis using distribute[OF r1 q(1)] q(2) f(3) by (intro exI[of _ s2]) (simp add: NvmeRequest.defs)
qed

lemma spaced_exists: "\<exists>cs. spaced n b cs \<and> length cs = m"
proof (induction m arbitrary: b)
  case 0
  then show ?case by simp
next
  case (Suc m)
  obtain cs where "spaced n (\<lambda>i. b i + 2 ^ 32) cs" "length cs = m" using Suc by blast
  then show ?case by (intro exI[of _ "b # cs"]) simp
qed

section \<open>Properties\<close>

text \<open>C6: no request is answered twice, and the only requests that are lost are those that satisfy \<open>lost_req\<close> when
  they are handed to the distribution: reads and writes inside a page that is written already, and
  requests for zones without a die. Whatever the requests and the interleaving of distribution and
  passes, as long as no assertion fails, the requests given back to the poller, those that still have
  transactions in the queues and the lost ones are together exactly the requests handed over, each
  as often as it was; and every request record counts exactly its transactions in the queues.\<close>

theorem requests_conserved:
  assumes "sched_run fc reqs lost ssd"
  shows "mset (map (NvmeRequest.truncate \<circ> snd) (to_poller ssd)) + in_flight (plus_heap ssd) + mset (map NvmeRequest.truncate lost) =
      mset (map NvmeRequest.truncate reqs) \<and>
    (\<forall>rp r. plus_heap ssd rp = Some r \<longrightarrow> ts_num r = card (ts_of ssd rp))"
proof
  note inv = sched_run_inv[OF assms]
  show "mset (map (NvmeRequest.truncate \<circ> snd) (to_poller ssd)) + in_flight (plus_heap ssd) + mset (map NvmeRequest.truncate lost) =
      mset (map NvmeRequest.truncate reqs)"
    using inv by (simp add: accepted_def returned_def)
  show "\<forall>rp r. plus_heap ssd rp = Some r \<longrightarrow> ts_num r = card (ts_of ssd rp)"
    using inv sched_plus[of "\<lambda>_. 0" ssd] by fastforce
qed

theorem requests_conserved_witness:
  "\<exists>ssd. sched_run (ex_fc False) [ex_open, ex_reset] [] ssd \<and> length (to_poller ssd) = 1 \<and>
     in_flight (plus_heap ssd) = {# NvmeRequest.truncate ex_reset #}"
proof -
  obtain ssd where ssd: "sched_run (ex_fc False) [ex_open, ex_reset] [] ssd"
      "map (NvmeRequest.truncate \<circ> snd) (to_poller ssd) = [NvmeRequest.truncate ex_open]"
    using ex_run by (elim exE conjE)
  with requests_conserved[OF ssd(1)] have "in_flight (plus_heap ssd) = {# NvmeRequest.truncate ex_reset #}" by simp
  with ssd show ?thesis using arg_cong[OF ssd(2), of length] by auto
qed

text \<open>C33: the queues drain and every request that was not lost is given back. From any state of a run, as
  many passes as the longest queue has transactions, each at least \<open>2 ^ 32\<close> nanoseconds after a die
  was last occupied, empty the queues without an abort; no request record has transactions left, and
  the requests given back and the lost ones are then exactly those handed over.\<close>

theorem requests_completed:
  assumes "sched_run fc reqs lost ssd" and "spaced (tt_luns (sp ssd)) (\<lambda>i. lun_avail ssd (die_at ssd i)) clocks"
    and "\<forall>i < tt_luns (sp ssd). length (list_contents (die_list ssd ! i)) \<le> length clocks"
  shows "\<exists>ssd'. run_passes idx clocks ssd = Some ssd' \<and> waiting_ts ssd' = [] \<and> in_flight (plus_heap ssd') = {#} \<and>
    mset (map (NvmeRequest.truncate \<circ> snd) (to_poller ssd')) + mset (map NvmeRequest.truncate lost) = mset (map NvmeRequest.truncate reqs)"
proof -
  note inv = sched_run_inv[OF assms(1)]
  obtain s where s: "run_passes idx clocks ssd = Some s" "sched_inv (\<lambda>_. 0) s" "accepted s = accepted ssd" "sp s = sp ssd"
      "\<And>j. j < tt_luns (sp ssd) \<Longrightarrow> list_contents (die_list s ! j) = drop (length clocks) (list_contents (die_list ssd ! j))"
    using passes_drain[of ssd clocks idx] inv assms(2) by blast
  have "waiting_ts s = []"
    by (rule waiting_empty) (use s(4,5) sched_basic(1)[OF s(2)] assms(3) in simp)
  with drained_returned[OF s(2)] s(1,3) inv show ?thesis by (auto simp: returned_def accepted_def)
qed

theorem requests_completed_witness:
  "\<exists>ssd clocks ssd'. sched_run (ex_fc False) [ex_open, ex_reset] [] ssd \<and> length (to_poller ssd) = 1 \<and>
     run_passes 1 clocks ssd = Some ssd' \<and> waiting_ts ssd' = [] \<and>
     mset (map (NvmeRequest.truncate \<circ> snd) (to_poller ssd')) = {# NvmeRequest.truncate ex_open, NvmeRequest.truncate ex_reset #}"
proof -
  obtain ssd where run: "sched_run (ex_fc False) [ex_open, ex_reset] [] ssd"
      "map (NvmeRequest.truncate \<circ> snd) (to_poller ssd) = [NvmeRequest.truncate ex_open]"
    using ex_run by (elim exE conjE)
  let ?m = "sum_list (map (length \<circ> list_contents) (die_list ssd))"
  obtain clocks where c: "spaced (tt_luns (sp ssd)) (\<lambda>i. lun_avail ssd (die_at ssd i)) clocks" "length clocks = ?m"
    using spaced_exists by blast
  have len: "length (die_list ssd) = tt_luns (sp ssd)" using sched_run_inv[OF run(1)] sched_basic(1) by blast
  have "\<forall>i < tt_luns (sp ssd). length (list_contents (die_list ssd ! i)) \<le> length clocks"
    unfolding c(2) len[symmetric] using elem_le_sum_list[of _ "map (length \<circ> list_contents) (die_list ssd)"] by auto
  from requests_completed[OF run(1) c(1) this, of 1] obtain ssd' where
    "run_passes 1 clocks ssd = Some ssd'" "waiting_ts ssd' = []"
    "mset (map (NvmeRequest.truncate \<circ> snd) (to_poller ssd')) = {# NvmeRequest.truncate ex_open, NvmeRequest.truncate ex_reset #}"
    by auto
  moreover have "length (to_poller ssd) = 1" using arg_cong[OF run(2), of length] by simp
  ultimately show ?thesis using run(1) by (intro exI[of _ ssd] exI[of _ clocks] exI[of _ ssd'] conjI)
qed

text \<open>C34: one pass over the dies. It never aborts; of every die that is idle at the reading of the clock in its
  round exactly the oldest waiting transaction is taken, the queues of busy dies are untouched, and
  none of the requests given back or in flight gets lost.\<close>

theorem pass_serves_oldest:
  assumes "sched_run fc reqs lost ssd"
  shows "\<exists>ssd'. zns_process_die_queue idx clock ssd = Some ssd' \<and> accepted ssd' = accepted ssd \<and> dymap ssd' = dymap ssd \<and>
    (\<forall>i < tt_luns (sp ssd). list_contents (die_list ssd' ! i) =
      (if lun_avail ssd (die_at ssd i) \<le> clock i then tl (list_contents (die_list ssd ! i)) else list_contents (die_list ssd ! i)))"
  using process_inv[of ssd idx clock] sched_run_inv[OF assms] unfolding idle_def by blast

theorem pass_serves_oldest_witness:
  "\<exists>ssd ssd'. sched_run (ex_fc False) [ex_open, ex_reset] [] ssd \<and>
     zns_process_die_queue 1 (\<lambda>_. 7) ssd = Some ssd' \<and> accepted ssd' = accepted ssd"
proof -
  obtain ssd where "sched_run (ex_fc False) [ex_open, ex_reset] [] ssd" using ex_run by blast
  with pass_serves_oldest[OF this, of 1 "\<lambda>_. 7"] show ?thesis by blast
qed

text \<open>C35: a write or read that lies inside a page which is written already is lost. After the start-up phase
  it is neither queued nor given back: distribution leaves the device as it was.\<close>

theorem rw_inside_page_lost:
  assumes "opcode (r_cmd req) = NVME_CMD_WRITE \<or>
      opcode (r_cmd req) = NVME_CMD_READ \<and> 0 < map_die_group_num (phy_zones (dymap ssd) ! zone)" and "zns_zone_idx n (rw_slba (r_cmd req)) = Some zone" and "zone < num_zones n"
    and "zone_at n zone = Some z" and "zone < length (phy_zones (dymap ssd))" and "start_up_flag ssd \<noteq> 0"
    and "0 < lbas_per_page n ssd" and "inside_page n req (sub64 (rw_slba (r_cmd req)) (d_zslba z)) ssd"
  shows "zns_req_distribute n idx req ssd = Some ssd"
proof -
  have "u32 (2 ^ zns_ns_lbads n) \<noteq> 0" using assms(7) by (cases "u32 (2 ^ zns_ns_lbads n) = 0") (simp_all add: lbas_per_page_def)
  then have "zone_rw n req zone (sub64 (rw_slba (r_cmd req)) (d_zslba z)) ssd = Some ssd"
    using assms(5,7,8) by (simp add: zone_rw_def div_opt_def inside_page_def Let_def flip: lbas_per_page_def)
  moreover have "counted ssd = ssd" using assms(6) by (simp add: counted_def)
  ultimately show ?thesis using assms(1-6) by (auto simp: zns_req_distribute_def Let_def)
qed

theorem rw_inside_page_lost_witness:
  "\<exists>ssd. zns_req_distribute ex_zns 1 (ex_ftl_req (ex_req NVME_CMD_WRITE 2 0 0) 5) ssd = Some ssd \<and> to_poller ssd = []"
proof -
  let ?r = "ex_ftl_req (ex_req NVME_CMD_WRITE 2 0 0) 5"
  let ?s = "(zns_ftl_init ex_zns (fresh_ssd (ex_fc False)))\<lparr>start_up_flag := 2, to_poller := []\<rparr>"
  have c: "opcode (r_cmd ?r) = NVME_CMD_WRITE" "rw_slba (r_cmd ?r) = 2" "zone_nlb (r_cmd ?r) = 1"
    by (simp_all add: ex_cmd zone_nlb_def u16_def)
  have l: "lbas_per_page ex_zns ?s = 8"
    by (simp add: lbas_per_page_def ftl_init_fields fresh_ssd_sp ex_zns_fields) (simp add: zns_ssd_init_params_def Let_def)
  have "inside_page ex_zns ?r (sub64 (rw_slba (r_cmd ?r)) (d_zslba (ex_zone 0 NVME_ZONE_STATE_IMPLICITLY_OPEN 3))) ?s"
    unfolding inside_page_def l by (simp add: c ex_zone_def)
  then have "zns_req_distribute ex_zns 1 ?r ?s = Some ?s"
    by (intro rw_inside_page_lost[of ?r ?s 0]) (simp_all add: c l ex_zns_fields ftl_init_fields)
  then show ?thesis by (intro exI[of _ ?s]) simp
qed

text \<open>C36: how a request is divided. A read or write that starts on a page boundary of a live zone and fits
  the zone is accepted without an abort; it is divided into one transaction per die, or per page when
  it has fewer pages than the zone has dies. Page \<open>j\<close> belongs to the transaction \<open>j mod k\<close>, which waits in
  the queue of the very die the mapping puts the page on; the operations of a transaction are
  exactly its pages; and the start plane is recorded as 0 whatever the plane of the first page is.\<close>

theorem rw_split_over_dies:
  assumes "dev_ok ssd" and "dymap_inv (dymap ssd)" and "live_inv (dymap ssd) live" and "zone \<in> live"
    and "die_group_sum (dymap ssd) = tt_luns (sp ssd) div ZONE_MAX_DIE_PARA" and "sched_inv (\<lambda>_. 0) ssd"
    and "opcode (r_cmd req) = NVME_CMD_WRITE \<or> opcode (r_cmd req) = NVME_CMD_READ"
    and "lbas_per_page n ssd = secs_per_pg (sp ssd)" and "wp mod secs_per_pg (sp ssd) = 0"
    and "P = (zone_nlb (r_cmd req) - 1) div secs_per_pg (sp ssd) + 1" and "wp div secs_per_pg (sp ssd) + P \<le> fbg_pages ssd"
    and "k = min P ZONE_MAX_DIE_PARA" and "wp + P * secs_per_pg (sp ssd) < 2 ^ 32"
  shows "\<exists>ssd'. zone_rw n req zone wp ssd = Some ssd' \<and> accepted ssd' = add_mset (NvmeRequest.truncate req) (accepted ssd) \<and>
    (\<exists>r. plus_heap ssd' (next_ptr ssd) = Some r \<and> p_req r = req \<and> ts_num r = k) \<and>
    (\<forall>j < P. \<exists>t p. ts_heap ssd' (next_ptr ssd + 1 + j mod k) = Some t \<and> req_plus t = next_ptr ssd \<and>
       get_ppa_by_lba_base ssd zone (wp + j * secs_per_pg (sp ssd)) = Some p \<and>
       die_idx t = g_ch p * luns_per_ch (sp ssd) + g_lun p \<and>
       next_ptr ssd + 1 + j mod k \<in> set (list_contents (die_list ssd' ! die_idx t)) \<and>
       ops_num t = card {i. i < P \<and> i mod k = j mod k} \<and> pl_idx t = 0)"
proof -
  let ?t = "secs_per_pg (sp ssd)" and ?b = "next_ptr ssd + 1" and ?D = "page_die ssd zone wp"
  obtain s ct where s: "zone_rw n req zone wp ssd = Some s" "sched_inv (\<lambda>_. 0) s"
      "accepted s = add_mset (NvmeRequest.truncate req) (accepted ssd)" "plus_heap s = plus_heap (prepared req ct k ssd)"
      "\<And>x. x \<in> {?b ..< ?b + k} \<Longrightarrow> x \<in> set (waiting_ts s) \<and>
        ts_heap s x = map_option (\<lambda>t. t\<lparr>req_plus := next_ptr ssd, zone_idx := zone\<rparr>) (ts_heap (dealt_to ?D ?b k P (prepared req ct k ssd)) x)"
    using aligned_split[OF assms] by blast
  have k: "0 < k" using assms(10,12) by (simp add: ZONE_MAX_DIE_PARA_def)
  have "\<exists>t p. ts_heap s (?b + j mod k) = Some t \<and> req_plus t = next_ptr ssd \<and> get_ppa_by_lba_base ssd zone (wp + j * ?t) = Some p \<and>
       die_idx t = g_ch p * luns_per_ch (sp ssd) + g_lun p \<and> ?b + j mod k \<in> set (list_contents (die_list s ! die_idx t)) \<and>
       ops_num t = card {i. i < P \<and> i mod k = j mod k} \<and> pl_idx t = 0" if j: "j < P" for j
  proof -
    have r: "j mod k < k" "j mod k < P" using k j le_less_trans[OF mod_less_eq_dividend] by auto
    define T where "T = blank_ts\<lparr>die_idx := ?D j, ops_num := pages_of k P (j mod k), req_plus := next_ptr ssd, zone_idx := zone\<rparr>"
    have T: "ts_heap s (?b + j mod k) = Some T" "?b + j mod k \<in> set (waiting_ts s)"
      using s(5)[of "?b + j mod k"] r page_die_period[OF assms(12) j] by (simp_all add: dealt_to_def T_def)
    obtain p where p: "get_ppa_by_lba_base ssd zone (wp + j * ?t) = Some p" "g_ch p * luns_per_ch (sp ssd) + g_lun p = ?D j"
      using page_die_ppa[OF assms(1-5,9), of j] assms(11) j by fastforce
    from waiting_on_die[OF s(2) T(2,1)] T(1) p show ?thesis
      by (intro exI[of _ T] exI[of _ p]) (simp add: T_def pages_of_def blank_ts_def)
  qed
  with s show ?thesis by (auto simp: prepared_def)
qed

theorem rw_split_over_dies_witness:
  "\<exists>ssd ssd' r. zone_rw ex_zns (ex_ftl_req (ex_req NVME_CMD_WRITE 16 159 0) 5) 2 16 ssd = Some ssd' \<and>
     plus_heap ssd' (next_ptr ssd) = Some r \<and> ts_num r = 16"
proof -
  obtain s0 where b: "zns_ssd_init (ex_fc False) MAP_TRADITION_NAME ex_zns = Some (s0, sup_zns_phy_m_tradition_register)"
    using ex_boot by blast
  have dev: "dev_ok s0"
    using ssd_init_eq[OF b] by (simp add: dev_ok_def) (simp add: zns_ssd_init_params_def Let_def ZONE_MAX_DIE_PARA_def INITIAL_OPEN_LIMIT_def)
  let ?i = "zns_ftl_init ex_zns s0" and ?r = "ex_ftl_req (ex_req NVME_CMD_WRITE 16 159 0) 5"
  obtain d where d: "zone_open ex_zns 2 (dymap (zns_dynamic_mapping_init ex_zns s0)) = Some d"
    using mapping_open_fresh[OF dev] by (force simp: ex_zns_fields)
  let ?s = "?i\<lparr>dymap := d\<rparr>"
  have "run_inv d ({2}, {}) \<and> die_group_sum d = die_group_sum (dymap (zns_dynamic_mapping_init ex_zns s0))"
    using run_inv_open[OF mapping_init_run[OF dev] d] by simp
  with mapping_init_inv(3)[OF dev, of ex_zns]
  have m: "dymap_inv d" "live_inv d {2}" "die_group_sum d = tt_luns (sp s0) div ZONE_MAX_DIE_PARA" by (simp_all add: run_inv_def)
  have sp: "sp ?s = sp s0" "secs_per_pg (sp s0) = 8" "secsz (sp s0) = 512" "fbg_pages ?s = 32768"
    using ssd_init_eq[OF b] by (simp_all add: ftl_init_fields fbg_pages_def) (simp_all add: zns_ssd_init_params_def Let_def ZONE_MAX_DIE_PARA_def)
  have dev': "dev_ok ?s" using dev by (simp add: dev_ok_def ftl_init_fields)
  have inv: "sched_inv (\<lambda>_. 0) ?s" using boot_inv(1)[OF b] sched_inv_cong[of ?s ?i] by simp
  have c: "opcode (r_cmd ?r) = NVME_CMD_WRITE" "zone_nlb (r_cmd ?r) = 160" by (simp_all add: ex_cmd zone_nlb_def u16_def)
  have l: "lbas_per_page ex_zns ?s = 8" using sp by (simp add: lbas_per_page_def ex_zns_fields)
  have "dymap_inv (dymap ?s)" "live_inv (dymap ?s) {2}" "die_group_sum (dymap ?s) = tt_luns (sp ?s) div ZONE_MAX_DIE_PARA"
    using m by (simp_all add: sp)
  from rw_split_over_dies[OF dev' this(1,2) _ this(3) inv, of 2 ?r ex_zns 16 20 16]
  have "\<exists>ssd'. zone_rw ex_zns ?r 2 16 ?s = Some ssd' \<and> (\<exists>r. plus_heap ssd' (next_ptr ?s) = Some r \<and> p_req r = ?r \<and> ts_num r = 16)"
    unfolding sp(1,2,4) c l ZONE_MAX_DIE_PARA_def by fastforce
  then show ?thesis by blast
qed

end
