(* ===== verification/Coding.thy ===== *)
theory Coding
  imports Prelude
begin

text \<open>
  The binary coding of RocksDB that the metadata of ZenFS is written with
  (\<open>src/rocksdb-8.11.4/util/coding.h\<close>, \<open>coding_lean.h\<close>, \<open>coding.cc\<close>): little-endian integers of fixed
  size, variable-length integers, and byte strings with their length in front. A slice is a list of
  bytes; a parser returns the value and the rest of the slice, or \<open>None\<close> for the result \<open>false\<close>.
\<close>

unbundle bit_operations_syntax

type_synonym bytes = "nat list"

definition is_bytes :: "bytes \<Rightarrow> bool" where
  "is_bytes bs \<longleftrightarrow> (\<forall>b \<in> set bs. b < 256)"

section \<open>Fixed size\<close>

text \<open>The loads and stores of \<open>k\<close> bytes of a little-endian machine.\<close>

fun le_store :: "nat \<Rightarrow> nat \<Rightarrow> bytes" where
  "le_store 0 v = []"
| "le_store (Suc k) v = v mod 256 # le_store k (v div 256)"

fun le_load :: "bytes \<Rightarrow> nat" where
  "le_load [] = 0"
| "le_load (b # bs) = b + 256 * le_load bs"

definition EncodeFixed32 :: "nat \<Rightarrow> bytes" where
  "EncodeFixed32 v = le_store 4 v"

definition EncodeFixed64 :: "nat \<Rightarrow> bytes" where
  "EncodeFixed64 v = le_store 8 v"

definition PutFixed32 :: "bytes \<Rightarrow> nat \<Rightarrow> bytes" where
  "PutFixed32 dst v = dst @ EncodeFixed32 v"

definition PutFixed64 :: "bytes \<Rightarrow> nat \<Rightarrow> bytes" where
  "PutFixed64 dst v = dst @ EncodeFixed64 v"

definition DecodeFixed32 :: "bytes \<Rightarrow> nat" where
  "DecodeFixed32 bs = le_load (take 4 bs)"

definition DecodeFixed64 :: "bytes \<Rightarrow> nat" where
  "DecodeFixed64 bs = le_load (take 8 bs)"

definition GetFixed32 :: "bytes \<Rightarrow> (nat \<times> bytes) option" where
  "GetFixed32 input = (if length input < 4 then None else Some (DecodeFixed32 input, drop 4 input))"

definition GetFixed64 :: "bytes \<Rightarrow> (nat \<times> bytes) option" where
  "GetFixed64 input = (if length input < 8 then None else Some (DecodeFixed64 input, drop 8 input))"

section \<open>Variable size\<close>

text \<open>A store into an unsigned char.\<close>

definition uchar :: "nat \<Rightarrow> nat" where
  "uchar v = v mod 256"

definition EncodeVarint32 :: "nat \<Rightarrow> bytes" where
  "EncodeVarint32 v =
     (if v < 2 ^ 7 then [uchar v]
      else if v < 2 ^ 14 then [uchar (v OR 128), uchar (drop_bit 7 v)]
      else if v < 2 ^ 21 then [uchar (v OR 128), uchar (drop_bit 7 v OR 128), uchar (drop_bit 14 v)]
      else if v < 2 ^ 28 then
        [uchar (v OR 128), uchar (drop_bit 7 v OR 128), uchar (drop_bit 14 v OR 128), uchar (drop_bit 21 v)]
      else [uchar (v OR 128), uchar (drop_bit 7 v OR 128), uchar (drop_bit 14 v OR 128), uchar (drop_bit 21 v OR 128),
            uchar (drop_bit 28 v)])"

definition PutVarint32 :: "bytes \<Rightarrow> nat \<Rightarrow> bytes" where
  "PutVarint32 dst v = dst @ EncodeVarint32 v"

fun GetVarint32PtrFallback :: "nat \<Rightarrow> nat \<Rightarrow> bytes \<Rightarrow> (nat \<times> bytes) option" where
  "GetVarint32PtrFallback shift result [] = None"
| "GetVarint32PtrFallback shift result (byte # p) =
     (if \<not> shift \<le> 28 then None
      else if byte AND 128 \<noteq> 0 then GetVarint32PtrFallback (shift + 7) (result OR u32 (push_bit shift (byte AND 127))) p
      else Some (result OR u32 (push_bit shift byte), p))"

definition GetVarint32 :: "bytes \<Rightarrow> (nat \<times> bytes) option" where
  "GetVarint32 input =
     (case input of
        byte # p \<Rightarrow> if byte AND 128 = 0 then Some (byte, p) else GetVarint32PtrFallback 0 0 input
      | [] \<Rightarrow> GetVarint32PtrFallback 0 0 input)"

section \<open>Length-prefixed slices\<close>

definition PutLengthPrefixedSlice :: "bytes \<Rightarrow> bytes \<Rightarrow> bytes" where
  "PutLengthPrefixedSlice dst value = PutVarint32 dst (u32 (length value)) @ value"

definition GetLengthPrefixedSlice :: "bytes \<Rightarrow> (bytes \<times> bytes) option" where
  "GetLengthPrefixedSlice input = do {
     (len, input) \<leftarrow> GetVarint32 input;
     if length input \<ge> len then Some (take len input, drop len input) else None
   }"

section \<open>Round trips\<close>

lemma length_le_store [simp]: "length (le_store k v) = k"
  by (induction k arbitrary: v) auto

lemma is_bytes_append [simp]: "is_bytes (xs @ ys) \<longleftrightarrow> is_bytes xs \<and> is_bytes ys"
  by (auto simp: is_bytes_def)

lemma is_bytes_le_store [simp]: "is_bytes (le_store k v)"
  by (induction k arbitrary: v) (auto simp: is_bytes_def)

lemma le_load_store [simp]: "le_load (le_store k v) = v mod 256 ^ k"
proof (induction k arbitrary: v)
  case 0
  then show ?case by simp
next
  case (Suc k)
  have "v mod (256 * 256 ^ k) = 256 * (v div 256 mod 256 ^ k) + v mod 256" by (rule mod_mult2_eq)
  with Suc show ?case by simp
qed

lemma GetFixed32_Encode [simp]: "GetFixed32 (EncodeFixed32 v @ rest) = Some (u32 v, rest)"
  by (simp add: GetFixed32_def EncodeFixed32_def DecodeFixed32_def u32_def)

lemma GetFixed64_Encode [simp]: "GetFixed64 (EncodeFixed64 v @ rest) = Some (u64 v, rest)"
  by (simp add: GetFixed64_def EncodeFixed64_def DecodeFixed64_def u64_def)

lemma length_EncodeFixed [simp]: "length (EncodeFixed32 v) = 4" "length (EncodeFixed64 v) = 8"
  by (simp_all add: EncodeFixed32_def EncodeFixed64_def)

lemma uchar_or: "uchar (v OR 128) = v mod 128 + 128"
proof -
  have "uchar (v OR 128) = take_bit 8 (v OR 2 ^ 7)" by (simp add: uchar_def take_bit_eq_mod)
  also have "\<dots> = take_bit 8 v OR 2 ^ 7" by (simp add: take_bit_or)
  also have "\<dots> = take_bit 7 v OR 2 ^ 7"
  proof (rule bit_eqI)
    fix n
    have "bit (128 :: nat) 7" by (simp add: bit_iff_odd)
    then show "bit (take_bit 8 v OR 2 ^ 7) n \<longleftrightarrow> bit (take_bit 7 v OR 2 ^ 7) n"
      by (cases "n = 7") (auto simp: bit_or_iff bit_take_bit_iff)
  qed
  also have "\<dots> = take_bit 7 v + 2 ^ 7" by (rule disjunctive_add[symmetric]) (auto simp: bit_take_bit_iff bit_exp_iff simp del: power_numeral)
  finally show ?thesis by (simp add: take_bit_eq_mod)
qed

lemma and_128: "m AND 128 = (if odd (m div 128) then 128 else 0)" for m :: nat
proof -
  have "m AND 2 ^ 7 = (if bit m 7 then 2 ^ 7 else 0)"
    by (rule bit_eqI) (auto simp: bit_and_iff bit_exp_iff simp del: power_numeral)
  then show ?thesis by (simp add: bit_iff_odd)
qed

lemma and_127: "m AND 127 = m mod 128" for m :: nat
proof -
  have "m AND mask 7 = take_bit 7 m" by (simp only: take_bit_eq_mask)
  then show ?thesis by (simp add: take_bit_eq_mod mask_eq_exp_minus_1)
qed

lemma or_push_bit: "r < 2 ^ s \<Longrightarrow> r OR push_bit s x = r + 2 ^ s * x" for r x :: nat
proof -
  assume "r < 2 ^ s"
  then have r: "take_bit s r = r" by (simp add: take_bit_nat_eq_self_iff)
  have "take_bit s r + push_bit s x = take_bit s r OR push_bit s x"
    by (rule disjunctive_add) (auto simp: bit_take_bit_iff bit_push_bit_iff simp del: r)
  then show ?thesis using r by (simp add: push_bit_eq_mult mult.commute)
qed

declare GetVarint32PtrFallback.simps [simp del]

lemma fallback_more:
  assumes "m < 128" "s \<le> 21" "r < 2 ^ s"
  shows "GetVarint32PtrFallback s r ((m + 128) # p) = GetVarint32PtrFallback (s + 7) (r + 2 ^ s * m) p"
proof -
  have "(2 :: nat) ^ s \<le> 2 ^ 21" using assms by (intro power_increasing) auto
  then have "2 ^ s * m < 2 ^ 21 * (128 :: nat)" using assms by (intro mult_le_less_imp_less) auto
  then have "u32 (push_bit s m) = push_bit s m" by (simp add: push_bit_eq_mult mult.commute)
  moreover have "(m + 128) div 128 = 1" using assms(1) by simp
  ultimately show ?thesis using assms by (simp add: GetVarint32PtrFallback.simps and_128 and_127 or_push_bit)
qed

lemma fallback_last:
  assumes "m < 128" "s \<le> 28" "r < 2 ^ s" "2 ^ s * m < 2 ^ 32"
  shows "GetVarint32PtrFallback s r (m # p) = Some (r + 2 ^ s * m, p)"
proof -
  have "u32 (push_bit s m) = push_bit s m" using assms(4) by (simp add: push_bit_eq_mult mult.commute)
  with assms show ?thesis by (simp add: GetVarint32PtrFallback.simps and_128 or_push_bit)
qed

text \<open>A loop pass on a digit of \<open>v\<close> extends the part of \<open>v\<close> read so far by seven bits.\<close>

lemma fallback_digit:
  assumes "s \<le> 21"
  shows "GetVarint32PtrFallback s (v mod 2 ^ s) (uchar (drop_bit s v OR 128) # p) = GetVarint32PtrFallback (s + 7) (v mod 2 ^ (s + 7)) p"
proof -
  have "v mod 2 ^ (s + 7) = 2 ^ s * (v div 2 ^ s mod 2 ^ 7) + v mod 2 ^ s" by (simp only: power_add mod_mult2_eq)
  with assms show ?thesis
    using fallback_more[of "v div 2 ^ s mod 128" s "v mod 2 ^ s" p] by (simp add: uchar_or drop_bit_eq_div add.commute)
qed

lemma fallback_top:
  assumes "s \<le> 28" "v < 2 ^ (s + 7)" "v < 2 ^ 32"
  shows "GetVarint32PtrFallback s (v mod 2 ^ s) (uchar (drop_bit s v) # p) = Some (v, p)"
proof -
  have "v div 2 ^ s < 2 ^ 7" using assms(2) by (simp add: power_add less_mult_imp_div_less mult.commute)
  moreover have "2 ^ s * (v div 2 ^ s) < 2 ^ 32"
    by (rule le_less_trans[OF _ assms(3)]) simp
  moreover have "v mod 2 ^ s + 2 ^ s * (v div 2 ^ s) = v" by simp
  ultimately show ?thesis using assms(1)
    by (simp add: uchar_def fallback_last drop_bit_eq_div)
qed

lemmas varint_step =
  fallback_digit[of 0, simplified] fallback_digit[of 7, simplified] fallback_digit[of 14, simplified]
  fallback_digit[of 21, simplified]
  fallback_top[of 0, simplified] fallback_top[of 7, simplified] fallback_top[of 14, simplified]
  fallback_top[of 21, simplified] fallback_top[of 28, simplified]

lemma GetVarint32_Fallback: "GetVarint32 (uchar m # p) = GetVarint32PtrFallback 0 0 (uchar m # p)"
  by (simp add: GetVarint32_def GetVarint32PtrFallback.simps uchar_def)

lemma GetVarint32_Encode [simp]: "v < 2 ^ 32 \<Longrightarrow> GetVarint32 (EncodeVarint32 v @ rest) = Some (v, rest)"
  by (simp add: EncodeVarint32_def GetVarint32_Fallback varint_step)

lemma GetLengthPrefixedSlice_Put:
  "length value < 2 ^ 32 \<Longrightarrow> GetLengthPrefixedSlice (PutLengthPrefixedSlice [] value @ rest) = Some (value, rest)"
  by (simp add: PutLengthPrefixedSlice_def PutVarint32_def GetLengthPrefixedSlice_def)

end
