(* ===== verification/ZenZone.thy ===== *)
theory ZenZone
  imports Coding
begin

text \<open>
  The zoned block device of ZenFS (\<open>src/zenfs-2.0.0/fs/zbd_zenfs.h\<close>, \<open>zbd_zenfs.cc\<close>): zones, the tokens
  that limit the open and the active zones, and the choice of a zone for a file.

  A pointer to a zone is a number, \<open>zones\<close> maps it to the object. A status is its code; the message is
  left out. Each function returns \<open>None\<close> for a failed assertion, for a wait that no other thread ends
  and for a loop that does not end. The libzbd calls and the system calls are the fields of the
  parameter \<open>outside\<close>; each takes the number of the call, so that two calls may give different results.
  Metrics, log lines and the JSON output are left out.
\<close>

section \<open>Statuses and hints\<close>

datatype IOStatus = OK | NotFound | Corruption | NotSupported | InvalidArgument | IOError | Busy | Aborted | NoSpace

datatype WriteLifeTimeHint = WLTH_NOT_SET | WLTH_NONE | WLTH_SHORT | WLTH_MEDIUM | WLTH_LONG | WLTH_EXTREME

fun hint_num :: "WriteLifeTimeHint \<Rightarrow> nat" where
  "hint_num WLTH_NOT_SET = 0"
| "hint_num WLTH_NONE = 1"
| "hint_num WLTH_SHORT = 2"
| "hint_num WLTH_MEDIUM = 3"
| "hint_num WLTH_LONG = 4"
| "hint_num WLTH_EXTREME = 5"

datatype IOType = kData | kFilter | kIndex | kMetadata | kWAL | kManifest | kLog | kUnknown | kInvalid

section \<open>libzbd and the system calls\<close>

datatype zbd_zone_type = ZBD_ZONE_TYPE_CNV | ZBD_ZONE_TYPE_SWR | ZBD_ZONE_TYPE_SWP

datatype zbd_zone_cond =
    ZBD_ZONE_COND_NOT_WP | ZBD_ZONE_COND_EMPTY | ZBD_ZONE_COND_IMP_OPEN | ZBD_ZONE_COND_EXP_OPEN
  | ZBD_ZONE_COND_CLOSED | ZBD_ZONE_COND_READONLY | ZBD_ZONE_COND_FULL | ZBD_ZONE_COND_OFFLINE

record zbd_zone =
  zz_start :: nat
  zz_capacity :: nat
  zz_wp :: nat
  zz_type :: zbd_zone_type
  zz_cond :: zbd_zone_cond

record zbd_info =
  host_managed :: bool
  info_nr_zones :: nat
  info_zone_size :: nat
  info_pblock_size :: nat
  info_max_nr_open_zones :: nat
  info_max_nr_active_zones :: nat

datatype open_mode = O_RDONLY | O_RDONLY_EXCL | O_RDONLY_DIRECT | O_WRONLY_DIRECT

text \<open>The two descriptors the device is read through: \<open>read_f_\<close> and \<open>read_direct_f_\<close>, which is opened with
  \<open>O_DIRECT\<close>.\<close>

datatype read_fd = ReadFD | ReadDirectFD

type_synonym disk = "nat \<Rightarrow> nat"

record outside =
  zbd_open :: "nat \<Rightarrow> open_mode \<Rightarrow> int \<times> zbd_info"
  zbd_list_zones :: "nat \<Rightarrow> nat \<Rightarrow> int \<times> zbd_zone list"
  zbd_report_zones :: "nat \<Rightarrow> nat \<Rightarrow> nat \<Rightarrow> int \<times> zbd_zone \<times> nat"
  zbd_reset_zones :: "nat \<Rightarrow> nat \<Rightarrow> nat \<Rightarrow> disk \<Rightarrow> int \<times> disk"
  zbd_finish_zones :: "nat \<Rightarrow> nat \<Rightarrow> nat \<Rightarrow> int"
  zbd_close_zones :: "nat \<Rightarrow> nat \<Rightarrow> nat \<Rightarrow> int"
  pwrite :: "nat \<Rightarrow> bytes \<Rightarrow> nat \<Rightarrow> disk \<Rightarrow> int \<times> disk"
  pread :: "nat \<Rightarrow> read_fd \<Rightarrow> nat \<Rightarrow> nat \<Rightarrow> disk \<Rightarrow> int \<times> bytes"
  interrupted :: "nat \<Rightarrow> bool"
  scheduler_line :: "string option"

section \<open>State\<close>

record Zone =
  busy :: bool
  start :: nat
  capacity :: nat
  max_capacity :: nat
  wp :: nat
  lifetime :: WriteLifeTimeHint
  used_capacity :: nat

record ZonedBlockDevice =
  block_sz :: nat
  zone_sz :: nat
  nr_zones :: nat
  zones :: "nat \<Rightarrow> Zone"
  nr_objects :: nat
  io_zones :: "nat list"
  meta_zones :: "nat list"
  finish_threshold :: nat
  active_io_zones :: int
  open_io_zones :: int
  zone_deferred_status :: IOStatus
  migrating :: bool
  max_nr_active_io_zones :: nat
  max_nr_open_io_zones :: nat
  calls :: nat
  the_disk :: disk

definition on_zone :: "nat \<Rightarrow> (Zone \<Rightarrow> Zone) \<Rightarrow> 'm ZonedBlockDevice_scheme \<Rightarrow> 'm ZonedBlockDevice_scheme" where
  "on_zone p f d = d\<lparr>zones := (zones d)(p := f (zones d p))\<rparr>"

definition tick :: "'m ZonedBlockDevice_scheme \<Rightarrow> 'm ZonedBlockDevice_scheme" where
  "tick d = d\<lparr>calls := calls d + 1\<rparr>"

section \<open>Zones\<close>

definition new_Zone :: "zbd_zone \<Rightarrow> Zone" where
  "new_Zone z =
     \<lparr>busy = False, start = zz_start z,
      capacity = (if zz_cond z = ZBD_ZONE_COND_FULL \<or> zz_cond z = ZBD_ZONE_COND_OFFLINE \<or> zz_cond z = ZBD_ZONE_COND_READONLY
                  then 0 else sub64 (zz_capacity z) (sub64 (zz_wp z) (zz_start z))),
      max_capacity = zz_capacity z, wp = zz_wp z, lifetime = WLTH_NOT_SET, used_capacity = 0\<rparr>"

definition IsUsed :: "Zone \<Rightarrow> bool" where
  "IsUsed z \<longleftrightarrow> used_capacity z > 0"

definition IsFull :: "Zone \<Rightarrow> bool" where
  "IsFull z \<longleftrightarrow> capacity z = 0"

definition IsEmpty :: "Zone \<Rightarrow> bool" where
  "IsEmpty z \<longleftrightarrow> wp z = start z"

definition GetZoneNr :: "nat \<Rightarrow> 'm ZonedBlockDevice_scheme \<Rightarrow> nat" where
  "GetZoneNr p d = start (zones d p) div zone_sz d"

definition Acquire :: "nat \<Rightarrow> 'm ZonedBlockDevice_scheme \<Rightarrow> bool \<times> 'm ZonedBlockDevice_scheme" where
  "Acquire p d = (if busy (zones d p) then (False, d) else (True, on_zone p (\<lambda>z. z\<lparr>busy := True\<rparr>) d))"

definition Release :: "nat \<Rightarrow> 'm ZonedBlockDevice_scheme \<Rightarrow> bool \<times> 'm ZonedBlockDevice_scheme" where
  "Release p d = (if busy (zones d p) then (True, on_zone p (\<lambda>z. z\<lparr>busy := False\<rparr>) d) else (False, d))"

definition CheckRelease :: "nat \<Rightarrow> 'm ZonedBlockDevice_scheme \<Rightarrow> (IOStatus \<times> 'm ZonedBlockDevice_scheme) option" where
  "CheckRelease p d = (case Release p d of (ok, d) \<Rightarrow> if \<not> ok then None else Some (OK, d))"

definition Reset :: "outside \<Rightarrow> nat \<Rightarrow> 'm ZonedBlockDevice_scheme \<Rightarrow> (IOStatus \<times> 'm ZonedBlockDevice_scheme) option" where
  "Reset E p d = do {
     assert_c (\<not> IsUsed (zones d p));
     assert_c (busy (zones d p));
     case zbd_reset_zones E (calls d) (start (zones d p)) (zone_sz d) (the_disk d) of (ret, disk) \<Rightarrow>
       let d = tick (d\<lparr>the_disk := disk\<rparr>)
       in if ret \<noteq> 0 then Some (IOError, d)
          else case zbd_report_zones E (calls d) (start (zones d p)) (zone_sz d) of (ret, z, report) \<Rightarrow>
            let d = tick d
            in if ret \<noteq> 0 \<or> report \<noteq> 1 then Some (IOError, d)
               else let d = (if zz_cond z = ZBD_ZONE_COND_OFFLINE then on_zone p (\<lambda>zo. zo\<lparr>capacity := 0\<rparr>) d
                             else on_zone p (\<lambda>zo. zo\<lparr>capacity := zz_capacity z, max_capacity := zz_capacity z\<rparr>) d)
                    in Some (OK, on_zone p (\<lambda>zo. zo\<lparr>wp := start zo, lifetime := WLTH_NOT_SET\<rparr>) d)
   }"

definition Finish :: "outside \<Rightarrow> nat \<Rightarrow> 'm ZonedBlockDevice_scheme \<Rightarrow> (IOStatus \<times> 'm ZonedBlockDevice_scheme) option" where
  "Finish E p d = do {
     assert_c (busy (zones d p));
     let ret = zbd_finish_zones E (calls d) (start (zones d p)) (zone_sz d);
     let d = tick d;
     if ret \<noteq> 0 then Some (IOError, d)
     else Some (OK, on_zone p (\<lambda>z. z\<lparr>capacity := 0, wp := u64 (start z + zone_sz d)\<rparr>) d)
   }"

definition Close :: "outside \<Rightarrow> nat \<Rightarrow> 'm ZonedBlockDevice_scheme \<Rightarrow> (IOStatus \<times> 'm ZonedBlockDevice_scheme) option" where
  "Close E p d = do {
     assert_c (busy (zones d p));
     if \<not> (IsEmpty (zones d p) \<or> IsFull (zones d p)) then
       let ret = zbd_close_zones E (calls d) (start (zones d p)) (zone_sz d); d = tick d
       in if ret \<noteq> 0 then Some (IOError, d) else Some (OK, d)
     else Some (OK, d)
   }"

text \<open>The loop of \<open>Append\<close>: \<open>pwrite\<close> may write less than it was given.\<close>

partial_function (option) append_loop ::
  "outside \<Rightarrow> nat \<Rightarrow> bytes \<Rightarrow> nat \<Rightarrow> 'm ZonedBlockDevice_scheme \<Rightarrow> (IOStatus \<times> 'm ZonedBlockDevice_scheme) option" where
  "append_loop E p ptr left d =
     (if left = 0 then Some (OK, d)
      else case pwrite E (calls d) (take left ptr) (wp (zones d p)) (the_disk d) of (ret, disk) \<Rightarrow>
        let d = tick (d\<lparr>the_disk := disk\<rparr>)
        in if ret < 0 then Some (IOError, d)
           else append_loop E p (drop (nat ret) ptr) (sub32 left (nat ret))
                  (on_zone p (\<lambda>z. z\<lparr>wp := u64 (wp z + nat ret), capacity := sub64 (capacity z) (nat ret)\<rparr>) d))"

definition Append :: "outside \<Rightarrow> nat \<Rightarrow> bytes \<Rightarrow> 'm ZonedBlockDevice_scheme \<Rightarrow> (IOStatus \<times> 'm ZonedBlockDevice_scheme) option" where
  "Append E p data d =
     (let size = length data
      in if capacity (zones d p) < size then Some (NoSpace, d)
         else do { assert_c (size mod block_sz d = 0); append_loop E p data size d })"

section \<open>The device: lookup, opening, space\<close>

definition GetIOZone :: "nat \<Rightarrow> 'm ZonedBlockDevice_scheme \<Rightarrow> nat option" where
  "GetIOZone offset d =
     List.find (\<lambda>p. start (zones d p) \<le> offset \<and> offset < u64 (start (zones d p) + zone_sz d)) (io_zones d)"

definition ZENFS_META_ZONES :: nat where
  "ZENFS_META_ZONES = 3"

definition ZENFS_MIN_ZONES :: nat where
  "ZENFS_MIN_ZONES = 32"

definition mq_deadline :: string where
  "mq_deadline = ''[mq-deadline]''"

fun occurs_in :: "string \<Rightarrow> string \<Rightarrow> bool" where
  "occurs_in w [] \<longleftrightarrow> w = []"
| "occurs_in w (c # s) \<longleftrightarrow> take (length w) (c # s) = w \<or> occurs_in w s"

definition CheckScheduler :: "outside \<Rightarrow> IOStatus" where
  "CheckScheduler E =
     (case scheduler_line E of
        None \<Rightarrow> InvalidArgument
      | Some buf \<Rightarrow> if \<not> occurs_in mq_deadline buf then InvalidArgument else OK)"

definition new_zone :: "zbd_zone \<Rightarrow> 'm ZonedBlockDevice_scheme \<Rightarrow> nat \<times> 'm ZonedBlockDevice_scheme" where
  "new_zone z d = (nr_objects d, d\<lparr>zones := (zones d)(nr_objects d := new_Zone z), nr_objects := nr_objects d + 1\<rparr>)"

text \<open>The loop over the zones reserved for metadata returns the zones that are left.\<close>

fun open_meta_zones :: "nat \<Rightarrow> zbd_zone list \<Rightarrow> 'm ZonedBlockDevice_scheme \<Rightarrow> zbd_zone list \<times> 'm ZonedBlockDevice_scheme" where
  "open_meta_zones m [] d = ([], d)"
| "open_meta_zones m (z # zs) d =
     (if \<not> m < ZENFS_META_ZONES then (z # zs, d)
      else if zz_type z = ZBD_ZONE_TYPE_SWR then
        (if zz_cond z \<noteq> ZBD_ZONE_COND_OFFLINE
         then (case new_zone z d of (p, d) \<Rightarrow> open_meta_zones (m + 1) zs (d\<lparr>meta_zones := meta_zones d @ [p]\<rparr>))
         else open_meta_zones (m + 1) zs d)
      else open_meta_zones m zs d)"

definition open_io_zone :: "outside \<Rightarrow> bool \<Rightarrow> zbd_zone \<Rightarrow> 'm ZonedBlockDevice_scheme \<Rightarrow> (IOStatus \<times> 'm ZonedBlockDevice_scheme) option" where
  "open_io_zone E readonly z d =
     (case new_zone z d of (p, d) \<Rightarrow>
      case Acquire p d of (acquired, d) \<Rightarrow>
        if \<not> acquired then None
        else do {
          let d = d\<lparr>io_zones := io_zones d @ [p]\<rparr>;
          d \<leftarrow> (if zz_cond z = ZBD_ZONE_COND_IMP_OPEN \<or> zz_cond z = ZBD_ZONE_COND_EXP_OPEN \<or> zz_cond z = ZBD_ZONE_COND_CLOSED then
                  let d = d\<lparr>active_io_zones := active_io_zones d + 1\<rparr>
                  in if (zz_cond z = ZBD_ZONE_COND_IMP_OPEN \<or> zz_cond z = ZBD_ZONE_COND_EXP_OPEN) \<and> \<not> readonly
                     then map_option snd (Close E p d) else Some d
                else Some d);
          CheckRelease p d
        })"

fun open_io_zones_loop :: "outside \<Rightarrow> bool \<Rightarrow> zbd_zone list \<Rightarrow> 'm ZonedBlockDevice_scheme \<Rightarrow> (IOStatus \<times> 'm ZonedBlockDevice_scheme) option" where
  "open_io_zones_loop E readonly [] d = Some (OK, d)"
| "open_io_zones_loop E readonly (z # zs) d =
     (if zz_type z = ZBD_ZONE_TYPE_SWR \<and> zz_cond z \<noteq> ZBD_ZONE_COND_OFFLINE then do {
        (status, d) \<leftarrow> open_io_zone E readonly z d;
        if status \<noteq> OK then Some (status, d) else open_io_zones_loop E readonly zs d
      } else open_io_zones_loop E readonly zs d)"

text \<open>The last part of \<open>Open\<close>, after the device files have been opened and checked.\<close>

definition open_zones :: "outside \<Rightarrow> bool \<Rightarrow> zbd_info \<Rightarrow> 'm ZonedBlockDevice_scheme \<Rightarrow> (IOStatus \<times> 'm ZonedBlockDevice_scheme) option" where
  "open_zones E readonly info d =
     (let d = d\<lparr>block_sz := info_pblock_size info, zone_sz := info_zone_size info, nr_zones := info_nr_zones info,
              max_nr_active_io_zones := (if info_max_nr_active_zones info = 0 then info_nr_zones info
                                         else sub32 (info_max_nr_active_zones info) 2),
              max_nr_open_io_zones := (if info_max_nr_open_zones info = 0 then info_nr_zones info
                                       else sub32 (info_max_nr_open_zones info) 2)\<rparr>;
          addr_space_sz = u64 (nr_zones d * zone_sz d)
      in case zbd_list_zones E (calls d) addr_space_sz of (ret, zone_rep) \<Rightarrow>
        let d = tick d
        in if ret \<noteq> 0 \<or> length zone_rep \<noteq> nr_zones d then Some (IOError, d)
           else case open_meta_zones 0 zone_rep d of (rest, d) \<Rightarrow>
             open_io_zones_loop E readonly rest (d\<lparr>active_io_zones := 0, open_io_zones := 0\<rparr>))"

definition Open :: "outside \<Rightarrow> bool \<Rightarrow> bool \<Rightarrow> 'm ZonedBlockDevice_scheme \<Rightarrow> (IOStatus \<times> 'm ZonedBlockDevice_scheme) option" where
  "Open E readonly exclusive d =
     (if \<not> readonly \<and> \<not> exclusive then Some (InvalidArgument, d)
      else case zbd_open E (calls d) (if exclusive then O_RDONLY_EXCL else O_RDONLY) of (read_f, info) \<Rightarrow>
        let d = tick d
        in if read_f < 0 then Some (InvalidArgument, d)
           else case zbd_open E (calls d) O_RDONLY_DIRECT of (read_direct_f, info) \<Rightarrow>
             let d = tick d
             in if read_direct_f < 0 then Some (InvalidArgument, d)
                else case (if readonly then (0, info) else zbd_open E (calls d) O_WRONLY_DIRECT) of (write_f, info) \<Rightarrow>
                  let d = (if readonly then d else tick d)
                  in if write_f < 0 then Some (InvalidArgument, d)
                     else if \<not> host_managed info then Some (NotSupported, d)
                     else if info_nr_zones info < ZENFS_MIN_ZONES then Some (NotSupported, d)
                     else if CheckScheduler E \<noteq> OK then Some (CheckScheduler E, d)
                     else open_zones E readonly info d)"

definition GetFreeSpace :: "'m ZonedBlockDevice_scheme \<Rightarrow> nat" where
  "GetFreeSpace d = fold (\<lambda>p free. u64 (free + capacity (zones d p))) (io_zones d) 0"

definition GetUsedSpace :: "'m ZonedBlockDevice_scheme \<Rightarrow> nat" where
  "GetUsedSpace d = fold (\<lambda>p used. u64 (used + used_capacity (zones d p))) (io_zones d) 0"

definition GetReclaimableSpace :: "'m ZonedBlockDevice_scheme \<Rightarrow> nat" where
  "GetReclaimableSpace d =
     fold (\<lambda>p reclaimable.
             if IsFull (zones d p) then u64 (reclaimable + sub64 (max_capacity (zones d p)) (used_capacity (zones d p)))
             else reclaimable) (io_zones d) 0"

section \<open>Tokens\<close>

definition WaitForOpenIOZoneToken :: "bool \<Rightarrow> 'm ZonedBlockDevice_scheme \<Rightarrow> 'm ZonedBlockDevice_scheme option" where
  "WaitForOpenIOZoneToken prioritized d =
     (let allocator_open_limit = int (if prioritized then max_nr_open_io_zones d else sub32 (max_nr_open_io_zones d) 1)
      in if open_io_zones d < allocator_open_limit then Some (d\<lparr>open_io_zones := open_io_zones d + 1\<rparr>) else None)"

definition GetActiveIOZoneTokenIfAvailable :: "'m ZonedBlockDevice_scheme \<Rightarrow> bool \<times> 'm ZonedBlockDevice_scheme" where
  "GetActiveIOZoneTokenIfAvailable d =
     (if active_io_zones d < int (max_nr_active_io_zones d) then (True, d\<lparr>active_io_zones := active_io_zones d + 1\<rparr>)
      else (False, d))"

definition PutOpenIOZoneToken :: "'m ZonedBlockDevice_scheme \<Rightarrow> 'm ZonedBlockDevice_scheme" where
  "PutOpenIOZoneToken d = d\<lparr>open_io_zones := open_io_zones d - 1\<rparr>"

definition PutActiveIOZoneToken :: "'m ZonedBlockDevice_scheme \<Rightarrow> 'm ZonedBlockDevice_scheme" where
  "PutActiveIOZoneToken d = d\<lparr>active_io_zones := active_io_zones d - 1\<rparr>"

section \<open>Metadata zones, resets\<close>

fun allocate_meta_loop ::
  "outside \<Rightarrow> nat list \<Rightarrow> 'm ZonedBlockDevice_scheme \<Rightarrow> (IOStatus \<times> nat option \<times> 'm ZonedBlockDevice_scheme) option" where
  "allocate_meta_loop E [] d = Some (NoSpace, None, d)"
| "allocate_meta_loop E (p # ps) d =
     (case Acquire p d of (acquired, d) \<Rightarrow>
        if \<not> acquired then allocate_meta_loop E ps d
        else if IsUsed (zones d p) then allocate_meta_loop E ps d
        else if IsEmpty (zones d p) then Some (OK, Some p, d)
        else do {
          (reset_status, d) \<leftarrow> Reset E p d;
          if reset_status = OK then Some (OK, Some p, d)
          else do {
            (status, d) \<leftarrow> CheckRelease p d;
            if status \<noteq> OK then Some (status, None, d) else allocate_meta_loop E ps d
          }
        })"

definition AllocateMetaZone :: "outside \<Rightarrow> 'm ZonedBlockDevice_scheme \<Rightarrow> (IOStatus \<times> nat option \<times> 'm ZonedBlockDevice_scheme) option" where
  "AllocateMetaZone E d = allocate_meta_loop E (meta_zones d) d"

fun reset_unused_loop :: "outside \<Rightarrow> nat list \<Rightarrow> 'm ZonedBlockDevice_scheme \<Rightarrow> (IOStatus \<times> 'm ZonedBlockDevice_scheme) option" where
  "reset_unused_loop E [] d = Some (OK, d)"
| "reset_unused_loop E (p # ps) d =
     (case Acquire p d of (acquired, d) \<Rightarrow>
        if \<not> acquired then reset_unused_loop E ps d
        else if \<not> IsEmpty (zones d p) \<and> \<not> IsUsed (zones d p) then do {
          let full = IsFull (zones d p);
          (reset_status, d) \<leftarrow> Reset E p d;
          (release_status, d) \<leftarrow> CheckRelease p d;
          if reset_status \<noteq> OK then Some (reset_status, d)
          else if release_status \<noteq> OK then Some (release_status, d)
          else reset_unused_loop E ps (if \<not> full then PutActiveIOZoneToken d else d)
        }
        else do {
          (release_status, d) \<leftarrow> CheckRelease p d;
          if release_status \<noteq> OK then Some (release_status, d) else reset_unused_loop E ps d
        })"

definition ResetUnusedIOZones :: "outside \<Rightarrow> 'm ZonedBlockDevice_scheme \<Rightarrow> (IOStatus \<times> 'm ZonedBlockDevice_scheme) option" where
  "ResetUnusedIOZones E d = reset_unused_loop E (io_zones d) d"

section \<open>Finishing zones\<close>

definition within_finish_threshold :: "'m ZonedBlockDevice_scheme \<Rightarrow> Zone \<Rightarrow> bool" where
  "within_finish_threshold d z \<longleftrightarrow> capacity z < u64 (max_capacity z * finish_threshold d) div 100"

fun apply_finish_loop :: "outside \<Rightarrow> nat list \<Rightarrow> 'm ZonedBlockDevice_scheme \<Rightarrow> (IOStatus \<times> 'm ZonedBlockDevice_scheme) option" where
  "apply_finish_loop E [] d = Some (OK, d)"
| "apply_finish_loop E (p # ps) d =
     (case Acquire p d of (acquired, d) \<Rightarrow>
        if \<not> acquired then apply_finish_loop E ps d
        else if \<not> (IsEmpty (zones d p) \<or> IsFull (zones d p)) \<and> within_finish_threshold d (zones d p) then do {
          (s, d) \<leftarrow> Finish E p d;
          if s \<noteq> OK then Some (s, snd (Release p d))
          else do {
            (s, d) \<leftarrow> CheckRelease p d;
            if s \<noteq> OK then Some (s, d) else apply_finish_loop E ps (PutActiveIOZoneToken d)
          }
        }
        else do {
          (s, d) \<leftarrow> CheckRelease p d;
          if s \<noteq> OK then Some (s, d) else apply_finish_loop E ps d
        })"

definition ApplyFinishThreshold :: "outside \<Rightarrow> 'm ZonedBlockDevice_scheme \<Rightarrow> (IOStatus \<times> 'm ZonedBlockDevice_scheme) option" where
  "ApplyFinishThreshold E d = (if finish_threshold d = 0 then Some (OK, d) else apply_finish_loop E (io_zones d) d)"

text \<open>The search of \<open>FinishCheapestIOZone\<close>; the victim found so far is held.\<close>

fun finish_victim_loop ::
  "nat list \<Rightarrow> nat option \<Rightarrow> 'm ZonedBlockDevice_scheme \<Rightarrow> (IOStatus \<times> nat option \<times> 'm ZonedBlockDevice_scheme) option" where
  "finish_victim_loop [] finish_victim d = Some (OK, finish_victim, d)"
| "finish_victim_loop (p # ps) finish_victim d =
     (case Acquire p d of (acquired, d) \<Rightarrow>
        if \<not> acquired then finish_victim_loop ps finish_victim d
        else if IsEmpty (zones d p) \<or> IsFull (zones d p) then do {
          (s, d) \<leftarrow> CheckRelease p d;
          if s \<noteq> OK then Some (s, finish_victim, d) else finish_victim_loop ps finish_victim d
        }
        else case finish_victim of
          None \<Rightarrow> finish_victim_loop ps (Some p) d
        | Some v \<Rightarrow>
            if capacity (zones d v) > capacity (zones d p) then do {
              (s, d) \<leftarrow> CheckRelease v d;
              if s \<noteq> OK then Some (s, finish_victim, d) else finish_victim_loop ps (Some p) d
            }
            else do {
              (s, d) \<leftarrow> CheckRelease p d;
              if s \<noteq> OK then Some (s, finish_victim, d) else finish_victim_loop ps finish_victim d
            })"

definition FinishCheapestIOZone :: "outside \<Rightarrow> 'm ZonedBlockDevice_scheme \<Rightarrow> (IOStatus \<times> 'm ZonedBlockDevice_scheme) option" where
  "FinishCheapestIOZone E d = do {
     (s, finish_victim, d) \<leftarrow> finish_victim_loop (io_zones d) None d;
     if s \<noteq> OK then Some (s, d)
     else case finish_victim of
       None \<Rightarrow> Some (OK, d)
     | Some v \<Rightarrow> do {
         (s, d) \<leftarrow> Finish E v d;
         (release_status, d) \<leftarrow> CheckRelease v d;
         let d = (if s = OK then PutActiveIOZoneToken d else d);
         if release_status \<noteq> OK then Some (release_status, d) else Some (s, d)
       }
   }"

section \<open>Choosing a zone for a file\<close>

definition LIFETIME_DIFF_NOT_GOOD :: nat where
  "LIFETIME_DIFF_NOT_GOOD = 100"

definition LIFETIME_DIFF_COULD_BE_WORSE :: nat where
  "LIFETIME_DIFF_COULD_BE_WORSE = 50"

definition GetLifeTimeDiff :: "WriteLifeTimeHint \<Rightarrow> WriteLifeTimeHint \<Rightarrow> nat" where
  "GetLifeTimeDiff zone_lifetime file_lifetime =
     (if file_lifetime = WLTH_NOT_SET \<or> file_lifetime = WLTH_NONE
      then (if file_lifetime = zone_lifetime then 0 else LIFETIME_DIFF_NOT_GOOD)
      else if hint_num zone_lifetime > hint_num file_lifetime then hint_num zone_lifetime - hint_num file_lifetime
      else if zone_lifetime = file_lifetime then LIFETIME_DIFF_COULD_BE_WORSE
      else LIFETIME_DIFF_NOT_GOOD)"

fun best_match_loop ::
  "WriteLifeTimeHint \<Rightarrow> nat \<Rightarrow> nat list \<Rightarrow> nat \<Rightarrow> nat option \<Rightarrow> 'm ZonedBlockDevice_scheme \<Rightarrow>
   (IOStatus \<times> nat \<times> nat option \<times> 'm ZonedBlockDevice_scheme) option" where
  "best_match_loop file_lifetime min_capacity [] best_diff allocated_zone d = Some (OK, best_diff, allocated_zone, d)"
| "best_match_loop file_lifetime min_capacity (p # ps) best_diff allocated_zone d =
     (case Acquire p d of (acquired, d) \<Rightarrow>
        if \<not> acquired then best_match_loop file_lifetime min_capacity ps best_diff allocated_zone d
        else if used_capacity (zones d p) > 0 \<and> \<not> IsFull (zones d p) \<and> capacity (zones d p) \<ge> min_capacity then
          let diff = GetLifeTimeDiff (lifetime (zones d p)) file_lifetime
          in if diff \<le> best_diff then
               (case allocated_zone of
                  None \<Rightarrow> best_match_loop file_lifetime min_capacity ps diff (Some p) d
                | Some a \<Rightarrow> do {
                    (s, d) \<leftarrow> CheckRelease a d;
                    if s \<noteq> OK then do {
                      (s', d) \<leftarrow> CheckRelease p d;
                      if s' \<noteq> OK then Some (s', best_diff, allocated_zone, d) else Some (s, best_diff, allocated_zone, d)
                    }
                    else best_match_loop file_lifetime min_capacity ps diff (Some p) d
                  })
             else do {
               (s, d) \<leftarrow> CheckRelease p d;
               if s \<noteq> OK then Some (s, best_diff, allocated_zone, d)
               else best_match_loop file_lifetime min_capacity ps best_diff allocated_zone d
             }
        else do {
          (s, d) \<leftarrow> CheckRelease p d;
          if s \<noteq> OK then Some (s, best_diff, allocated_zone, d)
          else best_match_loop file_lifetime min_capacity ps best_diff allocated_zone d
        })"

definition GetBestOpenZoneMatch ::
  "WriteLifeTimeHint \<Rightarrow> nat \<Rightarrow> 'm ZonedBlockDevice_scheme \<Rightarrow> (IOStatus \<times> nat \<times> nat option \<times> 'm ZonedBlockDevice_scheme) option" where
  "GetBestOpenZoneMatch file_lifetime min_capacity d =
     best_match_loop file_lifetime min_capacity (io_zones d) LIFETIME_DIFF_NOT_GOOD None d"

fun allocate_empty_loop :: "nat list \<Rightarrow> 'm ZonedBlockDevice_scheme \<Rightarrow> (IOStatus \<times> nat option \<times> 'm ZonedBlockDevice_scheme) option" where
  "allocate_empty_loop [] d = Some (OK, None, d)"
| "allocate_empty_loop (p # ps) d =
     (case Acquire p d of (acquired, d) \<Rightarrow>
        if \<not> acquired then allocate_empty_loop ps d
        else if IsEmpty (zones d p) then Some (OK, Some p, d)
        else do {
          (s, d) \<leftarrow> CheckRelease p d;
          if s \<noteq> OK then Some (s, None, d) else allocate_empty_loop ps d
        })"

definition AllocateEmptyZone :: "'m ZonedBlockDevice_scheme \<Rightarrow> (IOStatus \<times> nat option \<times> 'm ZonedBlockDevice_scheme) option" where
  "AllocateEmptyZone d = allocate_empty_loop (io_zones d) d"

definition GetZoneDeferredStatus :: "'m ZonedBlockDevice_scheme \<Rightarrow> IOStatus" where
  "GetZoneDeferredStatus d = zone_deferred_status d"

definition SetZoneDeferredStatus :: "IOStatus \<Rightarrow> 'm ZonedBlockDevice_scheme \<Rightarrow> 'm ZonedBlockDevice_scheme" where
  "SetZoneDeferredStatus status d =
     (if zone_deferred_status d \<noteq> OK then d\<lparr>zone_deferred_status := status\<rparr> else d)"

text \<open>The loop that finishes zones until there is a token for an active zone.\<close>

partial_function (option) finish_until_token ::
  "outside \<Rightarrow> bool \<Rightarrow> 'm ZonedBlockDevice_scheme \<Rightarrow> (IOStatus \<times> 'm ZonedBlockDevice_scheme) option" where
  "finish_until_token E got_token d =
     (if got_token then Some (OK, d)
      else case GetActiveIOZoneTokenIfAvailable d of (got, d) \<Rightarrow>
        if got then Some (OK, d)
        else do {
          (s, d) \<leftarrow> FinishCheapestIOZone E d;
          if s \<noteq> OK then Some (s, d) else finish_until_token E got_token d
        })"

text \<open>The part of \<open>AllocateIOZone\<close> that opens an empty zone.\<close>

definition open_new_zone ::
  "outside \<Rightarrow> WriteLifeTimeHint \<Rightarrow> bool \<Rightarrow> 'm ZonedBlockDevice_scheme \<Rightarrow> (IOStatus \<times> nat option \<times> 'm ZonedBlockDevice_scheme) option" where
  "open_new_zone E file_lifetime got_token d = do {
     (s, d) \<leftarrow> finish_until_token E got_token d;
     if s \<noteq> OK then Some (s, None, PutOpenIOZoneToken d)
     else do {
       (s, allocated_zone, d) \<leftarrow> AllocateEmptyZone d;
       if s \<noteq> OK then Some (s, None, PutOpenIOZoneToken (PutActiveIOZoneToken d))
       else case allocated_zone of
         Some p \<Rightarrow> do {
           assert_c (busy (zones d p));
           Some (OK, Some p, on_zone p (\<lambda>z. z\<lparr>lifetime := file_lifetime\<rparr>) d)
         }
       | None \<Rightarrow> Some (OK, None, PutOpenIOZoneToken (PutActiveIOZoneToken d))
     }
   }"

text \<open>The choice between the best match and a new zone.\<close>

definition allocate_zone ::
  "outside \<Rightarrow> WriteLifeTimeHint \<Rightarrow> nat \<Rightarrow> nat option \<Rightarrow> 'm ZonedBlockDevice_scheme \<Rightarrow> (IOStatus \<times> nat option \<times> 'm ZonedBlockDevice_scheme) option" where
  "allocate_zone E file_lifetime best_diff allocated_zone d =
     (if best_diff \<ge> LIFETIME_DIFF_COULD_BE_WORSE then
        (case GetActiveIOZoneTokenIfAvailable d of (got_token, d) \<Rightarrow>
         case allocated_zone of
           None \<Rightarrow> open_new_zone E file_lifetime got_token d
         | Some p \<Rightarrow>
             if \<not> got_token \<and> best_diff = LIFETIME_DIFF_COULD_BE_WORSE then Some (OK, Some p, d)
             else do {
               (s, d) \<leftarrow> CheckRelease p d;
               if s \<noteq> OK then
                 Some (s, None, if got_token then PutActiveIOZoneToken (PutOpenIOZoneToken d) else PutOpenIOZoneToken d)
               else open_new_zone E file_lifetime got_token d
             })
      else Some (OK, allocated_zone, case allocated_zone of None \<Rightarrow> PutOpenIOZoneToken d | Some p \<Rightarrow> d))"

definition AllocateIOZone ::
  "outside \<Rightarrow> WriteLifeTimeHint \<Rightarrow> IOType \<Rightarrow> 'm ZonedBlockDevice_scheme \<Rightarrow> (IOStatus \<times> nat option \<times> 'm ZonedBlockDevice_scheme) option" where
  "AllocateIOZone E file_lifetime io_type d =
     (let s = GetZoneDeferredStatus d
      in if s \<noteq> OK then Some (s, None, d)
         else do {
           (s, d) \<leftarrow> (if io_type \<noteq> kWAL then ApplyFinishThreshold E d else Some (OK, d));
           if s \<noteq> OK then Some (s, None, d)
           else do {
             d \<leftarrow> WaitForOpenIOZoneToken (io_type = kWAL) d;
             (s, best_diff, allocated_zone, d) \<leftarrow> GetBestOpenZoneMatch file_lifetime 0 d;
             if s \<noteq> OK then Some (s, None, PutOpenIOZoneToken d)
             else do {
               (s, zone, d) \<leftarrow> allocate_zone E file_lifetime best_diff allocated_zone d;
               assert_c (case zone of Some p \<Rightarrow> busy (zones d p) | None \<Rightarrow> True);
               Some (s, zone, d)
             }
           }
         })"

section \<open>Reading and migration\<close>

text \<open>
  \<open>pread\<close> gives the bytes it put in the buffer; \<open>r\<close> is at most the number asked for, so \<open>left\<close> never
  becomes negative.
\<close>

partial_function (option) direct_read_loop ::
  "outside \<Rightarrow> nat \<Rightarrow> nat \<Rightarrow> bytes \<Rightarrow> 'm ZonedBlockDevice_scheme \<Rightarrow> (int \<times> bytes \<times> 'm ZonedBlockDevice_scheme) option" where
  "direct_read_loop E offset left buf d =
     (if left = 0 then Some (int (length buf), buf, d)
      else case pread E (calls d) ReadDirectFD left offset (the_disk d) of (r, bs) \<Rightarrow>
        let again = interrupted E (calls d); d = tick d
        in if r \<le> 0 then
             (if r = - 1 \<and> again then direct_read_loop E offset left buf d
              else if r < 0 then Some (r, buf, d) else Some (int (length buf), buf, d))
           else direct_read_loop E (u64 (offset + nat r)) (left - nat r) (buf @ take (nat r) bs) d)"

definition DirectRead :: "outside \<Rightarrow> nat \<Rightarrow> nat \<Rightarrow> 'm ZonedBlockDevice_scheme \<Rightarrow> (int \<times> bytes \<times> 'm ZonedBlockDevice_scheme) option" where
  "DirectRead E offset n d = direct_read_loop E offset n [] d"

definition ReleaseMigrateZone :: "nat option \<Rightarrow> 'm ZonedBlockDevice_scheme \<Rightarrow> (IOStatus \<times> 'm ZonedBlockDevice_scheme) option" where
  "ReleaseMigrateZone zone d =
     (let d = d\<lparr>migrating := False\<rparr>
      in case zone of None \<Rightarrow> Some (OK, d) | Some p \<Rightarrow> CheckRelease p d)"

definition TakeMigrateZone ::
  "WriteLifeTimeHint \<Rightarrow> nat \<Rightarrow> 'm ZonedBlockDevice_scheme \<Rightarrow> (IOStatus \<times> nat option \<times> 'm ZonedBlockDevice_scheme) option" where
  "TakeMigrateZone file_lifetime min_capacity d =
     (if migrating d then None
      else do {
        (s, best_diff, out_zone, d) \<leftarrow> GetBestOpenZoneMatch file_lifetime min_capacity (d\<lparr>migrating := True\<rparr>);
        Some (s, out_zone, if s = OK \<and> out_zone \<noteq> None then d else d\<lparr>migrating := False\<rparr>)
      })"

section \<open>Holding a zone\<close>


definition hold :: "nat option \<Rightarrow> 'm ZonedBlockDevice_scheme \<Rightarrow> 'm ZonedBlockDevice_scheme" where
  "hold held d = (case held of None \<Rightarrow> d | Some p \<Rightarrow> on_zone p (\<lambda>z. z\<lparr>busy := True\<rparr>) d)"

lemma on_zone_same [simp]: "zones (on_zone p f d) p = f (zones d p)"
  by (simp add: on_zone_def)

lemma on_zone_other [simp]: "q \<noteq> p \<Longrightarrow> zones (on_zone p f d) q = zones d q"
  by (simp add: on_zone_def)

lemma on_zone_fields [simp]:
  "block_sz (on_zone p f d) = block_sz d" "zone_sz (on_zone p f d) = zone_sz d" "nr_zones (on_zone p f d) = nr_zones d"
  "nr_objects (on_zone p f d) = nr_objects d" "io_zones (on_zone p f d) = io_zones d" "meta_zones (on_zone p f d) = meta_zones d"
  "finish_threshold (on_zone p f d) = finish_threshold d" "active_io_zones (on_zone p f d) = active_io_zones d"
  "open_io_zones (on_zone p f d) = open_io_zones d" "zone_deferred_status (on_zone p f d) = zone_deferred_status d"
  "migrating (on_zone p f d) = migrating d" "max_nr_active_io_zones (on_zone p f d) = max_nr_active_io_zones d"
  "max_nr_open_io_zones (on_zone p f d) = max_nr_open_io_zones d" "calls (on_zone p f d) = calls d" "the_disk (on_zone p f d) = the_disk d"
  "ZonedBlockDevice.more (on_zone p f d) = ZonedBlockDevice.more d"
  by (simp_all add: on_zone_def)

lemma tick_fields [simp]:
  "block_sz (tick d) = block_sz d" "zone_sz (tick d) = zone_sz d" "nr_zones (tick d) = nr_zones d" "zones (tick d) = zones d"
  "nr_objects (tick d) = nr_objects d" "io_zones (tick d) = io_zones d" "meta_zones (tick d) = meta_zones d"
  "finish_threshold (tick d) = finish_threshold d" "active_io_zones (tick d) = active_io_zones d"
  "open_io_zones (tick d) = open_io_zones d" "zone_deferred_status (tick d) = zone_deferred_status d"
  "migrating (tick d) = migrating d" "max_nr_active_io_zones (tick d) = max_nr_active_io_zones d"
  "max_nr_open_io_zones (tick d) = max_nr_open_io_zones d" "the_disk (tick d) = the_disk d" "calls (tick d) = calls d + 1"
  "ZonedBlockDevice.more (tick d) = ZonedBlockDevice.more d"
  by (simp_all add: tick_def)

lemma on_zone_twice: "on_zone p f (on_zone p g d) = on_zone p (\<lambda>z. f (g z)) d"
  by (simp add: on_zone_def)

lemma on_zone_cong: "f (zones d p) = g (zones d p) \<Longrightarrow> on_zone p f d = on_zone p g d"
  by (simp add: on_zone_def)

lemma on_zone_id: "f (zones d p) = zones d p \<Longrightarrow> on_zone p f d = d"
  by (simp add: on_zone_def)

lemma hold_None [simp]: "hold None d = d"
  by (simp add: hold_def)

lemma hold_fields [simp]:
  "io_zones (hold q d) = io_zones d" "zone_sz (hold q d) = zone_sz d" "open_io_zones (hold q d) = open_io_zones d"
  "active_io_zones (hold q d) = active_io_zones d" "the_disk (hold q d) = the_disk d" "calls (hold q d) = calls d"
  "max_nr_active_io_zones (hold q d) = max_nr_active_io_zones d" "max_nr_open_io_zones (hold q d) = max_nr_open_io_zones d"
  "block_sz (hold q d) = block_sz d" "finish_threshold (hold q d) = finish_threshold d" "meta_zones (hold q d) = meta_zones d"
  "zone_deferred_status (hold q d) = zone_deferred_status d" "migrating (hold q d) = migrating d"
  "start (zones (hold q d) p) = start (zones d p)" "capacity (zones (hold q d) p) = capacity (zones d p)"
  "max_capacity (zones (hold q d) p) = max_capacity (zones d p)" "wp (zones (hold q d) p) = wp (zones d p)"
  "lifetime (zones (hold q d) p) = lifetime (zones d p)" "used_capacity (zones (hold q d) p) = used_capacity (zones d p)"
  "IsEmpty (zones (hold q d) p) = IsEmpty (zones d p)" "IsFull (zones (hold q d) p) = IsFull (zones d p)"
  "IsUsed (zones (hold q d) p) = IsUsed (zones d p)"
  "busy (zones (hold q d) p) \<longleftrightarrow> busy (zones d p) \<or> q = Some p"
  by (simp_all add: hold_def on_zone_def IsEmpty_def IsFull_def IsUsed_def split: option.split)

lemma Acquire_eq: "Acquire p d = (if busy (zones d p) then (False, d) else (True, hold (Some p) d))"
  by (simp add: Acquire_def hold_def)

text \<open>Acquiring a zone and releasing it again changes nothing.\<close>

lemma CheckRelease_hold [simp]: "\<not> busy (zones d p) \<Longrightarrow> CheckRelease p (hold (Some p) d) = Some (OK, d)"
  by (simp add: CheckRelease_def Release_def hold_def on_zone_twice on_zone_id)

lemma hold_swap: "hold (Some q) (hold (Some p) d) = hold (Some p) (hold (Some q) d)"
  by (auto simp: hold_def on_zone_def fun_eq_iff)

lemma CheckRelease_hold2 [simp]:
  "\<not> busy (zones d p) \<Longrightarrow> p \<noteq> q \<Longrightarrow> CheckRelease p (hold (Some q) (hold (Some p) d)) = Some (OK, hold (Some q) d)"
  by (subst hold_swap) (simp add: hold_def[of "Some q"])

lemma CheckRelease_busy: "busy (zones d p) \<Longrightarrow> CheckRelease p d = Some (OK, on_zone p (\<lambda>z. z\<lparr>busy := False\<rparr>) d)"
  by (simp add: CheckRelease_def Release_def)

section \<open>The best match\<close>

text \<open>The zones a file may share, and the one that is taken: the last of those with the least difference.\<close>

definition candidate :: "nat \<Rightarrow> 'm ZonedBlockDevice_scheme \<Rightarrow> nat \<Rightarrow> bool" where
  "candidate min_capacity d p \<longleftrightarrow>
     \<not> busy (zones d p) \<and> used_capacity (zones d p) > 0 \<and> \<not> IsFull (zones d p) \<and> capacity (zones d p) \<ge> min_capacity"

definition diff_of :: "WriteLifeTimeHint \<Rightarrow> 'm ZonedBlockDevice_scheme \<Rightarrow> nat \<Rightarrow> nat" where
  "diff_of file_lifetime d p = GetLifeTimeDiff (lifetime (zones d p)) file_lifetime"

lemma GetLifeTimeDiff_le: "GetLifeTimeDiff a b \<le> 100"
  by (cases a; cases b) (simp_all add: GetLifeTimeDiff_def LIFETIME_DIFF_NOT_GOOD_def LIFETIME_DIFF_COULD_BE_WORSE_def)

fun best_of :: "(nat \<Rightarrow> nat) \<Rightarrow> nat list \<Rightarrow> nat \<Rightarrow> nat option \<Rightarrow> nat \<times> nat option" where
  "best_of diff [] best held = (best, held)"
| "best_of diff (p # ps) best held = (if diff p \<le> best then best_of diff ps (diff p) (Some p) else best_of diff ps best held)"

lemma best_match_loop_eq:
  assumes "case held of None \<Rightarrow> True | Some a \<Rightarrow> \<not> busy (zones d a) \<and> candidate mc d a \<and> best = diff_of fl d a"
  shows "best_match_loop fl mc ps best held (hold held d) =
         (case best_of (diff_of fl d) (filter (candidate mc d) ps) best held of (b, a) \<Rightarrow> Some (OK, b, a, hold a d))"
  using assms
proof (induction ps arbitrary: best held)
  case Nil
  then show ?case by simp
next
  case (Cons p ps)
  show ?case
  proof (cases "busy (zones d p) \<or> held = Some p")
    case True
    then have "best_match_loop fl mc (p # ps) best held (hold held d) = best_match_loop fl mc ps best held (hold held d)"
      by (auto simp: Acquire_eq)
    moreover have "best_of (diff_of fl d) (filter (candidate mc d) (p # ps)) best held = best_of (diff_of fl d) (filter (candidate mc d) ps) best held"
      using True Cons.prems by (auto simp: candidate_def)
    ultimately show ?thesis using Cons by simp
  next
    case False
    then have nb: "\<not> busy (zones d p)" "held \<noteq> Some p" by auto
    show ?thesis
    proof (cases held)
      case None
      then show ?thesis using nb Cons.prems Cons.IH[of "diff_of fl d p" "Some p"] Cons.IH[of best None]
        by (simp add: Acquire_eq candidate_def diff_of_def split: prod.splits)
    next
      case (Some a)
      then have "a \<noteq> p" "\<not> busy (zones d a)" using nb Cons.prems by auto
      then show ?thesis using nb Cons.prems Some Cons.IH[of "diff_of fl d p" "Some p"] Cons.IH[of best "Some a"]
        by (simp add: Acquire_eq candidate_def diff_of_def hold_swap[of p a] split: prod.splits)
    qed
  qed
qed

lemma best_of_snoc:
  "best_of diff (ps @ [p]) best held =
   (case best_of diff ps best held of (b, h) \<Rightarrow> if diff p \<le> b then (diff p, Some p) else (b, h))"
  by (induction ps arbitrary: best held) auto

lemma best_of_least:
  assumes "\<forall>p \<in> set cs. diff p \<le> b0"
  shows "best_of diff cs b0 None =
     (if cs = [] then (b0, None)
      else (Min (diff ` set cs), Some (last (filter (\<lambda>p. diff p = Min (diff ` set cs)) cs))))"
  using assms
proof (induction cs rule: rev_induct)
  case Nil
  then show ?case by simp
next
  case (snoc p cs)
  show ?case
  proof (cases "cs = []")
    case True
    with snoc.prems show ?thesis by simp
  next
    case False
    let ?m = "Min (diff ` set cs)"
    have IH: "best_of diff cs b0 None = (?m, Some (last (filter (\<lambda>p. diff p = ?m) cs)))" using snoc False by simp
    have new: "Min (diff ` set (cs @ [p])) = min (diff p) ?m" using False by simp
    show ?thesis
    proof (cases "diff p \<le> ?m")
      case True
      then have "Min (diff ` set (cs @ [p])) = diff p" using new by simp
      then show ?thesis using IH True by (simp add: best_of_snoc)
    next
      case False
      then have "Min (diff ` set (cs @ [p])) = ?m" using new by simp
      then show ?thesis using IH False by (simp add: best_of_snoc)
    qed
  qed
qed

definition best_match :: "WriteLifeTimeHint \<Rightarrow> nat \<Rightarrow> 'm ZonedBlockDevice_scheme \<Rightarrow> nat \<times> nat option" where
  "best_match fl mc d =
     (let cs = filter (candidate mc d) (io_zones d); least = Min (diff_of fl d ` set cs)
      in if cs = [] then (100, None) else (least, Some (last (filter (\<lambda>p. diff_of fl d p = least) cs))))"

lemma GetBestOpenZoneMatch_eq:
  "GetBestOpenZoneMatch fl mc d = (case best_match fl mc d of (b, a) \<Rightarrow> Some (OK, b, a, hold a d))"
  using best_match_loop_eq[where held = None and d = d and mc = mc and best = 100 and fl = fl and ps = "io_zones d"]
    best_of_least[of "filter (candidate mc d) (io_zones d)" "diff_of fl d" 100]
  by (simp add: GetBestOpenZoneMatch_def LIFETIME_DIFF_NOT_GOOD_def best_match_def Let_def GetLifeTimeDiff_le diff_of_def
      split: if_splits)

lemma best_match_None: "best_match fl mc d = (b, None) \<Longrightarrow> b = 100"
  by (auto simp: best_match_def Let_def split: if_splits)

lemma best_match_Some:
  assumes "best_match fl mc d = (b, Some p)"
  shows "p \<in> set (io_zones d)" "candidate mc d p" "b = diff_of fl d p"
    "q \<in> set (io_zones d) \<Longrightarrow> candidate mc d q \<Longrightarrow> b \<le> diff_of fl d q"
proof -
  let ?cs = "filter (candidate mc d) (io_zones d)"
  let ?m = "Min (diff_of fl d ` set ?cs)"
  have ne: "?cs \<noteq> []" and b: "b = ?m" and p: "p = last (filter (\<lambda>p. diff_of fl d p = ?m) ?cs)"
    using assms by (auto simp: best_match_def Let_def simp del: filter_filter split: if_splits)
  have "?m \<in> diff_of fl d ` set ?cs" using ne by (intro Min_in) (auto simp: filter_empty_conv)
  then have "filter (\<lambda>p. diff_of fl d p = ?m) ?cs \<noteq> []" by (auto simp: filter_empty_conv simp del: filter_filter)
  then have "p \<in> set (filter (\<lambda>p. diff_of fl d p = ?m) ?cs)" unfolding p by (rule last_in_set)
  then show "p \<in> set (io_zones d)" "candidate mc d p" "b = diff_of fl d p" using b by auto
  show "b \<le> diff_of fl d q" if "q \<in> set (io_zones d)" "candidate mc d q"
    unfolding b using that by (intro Min_le) auto
qed

section \<open>The cheapest zone to finish\<close>

definition partly_written :: "Zone \<Rightarrow> bool" where
  "partly_written z \<longleftrightarrow> \<not> IsEmpty z \<and> \<not> IsFull z"

fun cheapest :: "(nat \<Rightarrow> nat) \<Rightarrow> nat list \<Rightarrow> nat option \<Rightarrow> nat option" where
  "cheapest cost [] v = v"
| "cheapest cost (p # ps) v =
     (case v of None \<Rightarrow> cheapest cost ps (Some p) | Some q \<Rightarrow> cheapest cost ps (if cost q > cost p then Some p else v))"

definition victim :: "'m ZonedBlockDevice_scheme \<Rightarrow> nat option" where
  "victim d = cheapest (\<lambda>p. capacity (zones d p)) (filter (\<lambda>p. \<not> busy (zones d p) \<and> partly_written (zones d p)) (io_zones d)) None"

lemma finish_victim_loop_eq:
  assumes "case v of None \<Rightarrow> True | Some a \<Rightarrow> \<not> busy (zones d a) \<and> partly_written (zones d a)"
  shows "finish_victim_loop ps v (hold v d) =
         (let w = cheapest (\<lambda>p. capacity (zones d p)) (filter (\<lambda>p. \<not> busy (zones d p) \<and> partly_written (zones d p)) ps) v
          in Some (OK, w, hold w d))"
  using assms
proof (induction ps arbitrary: v)
  case Nil
  then show ?case by simp
next
  case (Cons p ps)
  show ?case
  proof (cases "busy (zones d p) \<or> v = Some p")
    case True
    then have "finish_victim_loop (p # ps) v (hold v d) = finish_victim_loop ps v (hold v d)" by (auto simp: Acquire_eq)
    moreover have "cheapest c (filter (\<lambda>p. \<not> busy (zones d p) \<and> partly_written (zones d p)) (p # ps)) v =
        cheapest c (filter (\<lambda>p. \<not> busy (zones d p) \<and> partly_written (zones d p)) ps) v" for c
      using True Cons.prems by auto
    ultimately show ?thesis using Cons by (simp add: Let_def)
  next
    case False
    then have nb: "\<not> busy (zones d p)" "v \<noteq> Some p" by auto
    show ?thesis
    proof (cases v)
      case None
      then show ?thesis using nb Cons.prems Cons.IH[of "Some p"] Cons.IH[of None]
        by (simp add: Acquire_eq partly_written_def Let_def)
    next
      case (Some a)
      then have "a \<noteq> p" "\<not> busy (zones d a)" using nb Cons.prems by auto
      then show ?thesis using nb Cons.prems Some Cons.IH[of "Some p"] Cons.IH[of "Some a"]
        by (simp add: Acquire_eq partly_written_def Let_def hold_swap[of p a])
    qed
  qed
qed

lemma cheapest_least:
  "cheapest cost ps v = Some w \<Longrightarrow>
   (w \<in> set ps \<or> v = Some w) \<and> (\<forall>q \<in> set ps. cost w \<le> cost q) \<and> (\<forall>q. v = Some q \<longrightarrow> cost w \<le> cost q)"
proof (induction ps arbitrary: v)
  case Nil
  then show ?case by auto
next
  case (Cons p ps)
  show ?case
  proof (cases v)
    case None
    then show ?thesis using Cons.prems Cons.IH[of "Some p"] by auto
  next
    case (Some a)
    then show ?thesis
    proof (cases "cost a > cost p")
      case True
      then show ?thesis using Cons.prems Some Cons.IH[of "Some p"] by auto
    next
      case False
      then show ?thesis using Cons.prems Some Cons.IH[of "Some a"] by fastforce
    qed
  qed
qed

lemma cheapest_None: "cheapest cost ps v = None \<longleftrightarrow> ps = [] \<and> v = None"
  by (induction ps arbitrary: v) (auto split: option.split)

lemma victim_None: "victim d = None \<longleftrightarrow> (\<forall>p \<in> set (io_zones d). partly_written (zones d p) \<longrightarrow> busy (zones d p))"
  by (auto simp: victim_def cheapest_None filter_empty_conv)

lemma victim_Some:
  assumes "victim d = Some v"
  shows "v \<in> set (io_zones d)" "\<not> busy (zones d v)" "partly_written (zones d v)"
    "q \<in> set (io_zones d) \<Longrightarrow> \<not> busy (zones d q) \<Longrightarrow> partly_written (zones d q) \<Longrightarrow> capacity (zones d v) \<le> capacity (zones d q)"
  using cheapest_least[OF assms[unfolded victim_def]] by auto

lemma FinishCheapestIOZone_eq:
  "FinishCheapestIOZone E d =
     (case victim d of
        None \<Rightarrow> Some (OK, d)
      | Some v \<Rightarrow> do {
          (s, d) \<leftarrow> Finish E v (hold (Some v) d);
          (release_status, d) \<leftarrow> CheckRelease v d;
          let d = (if s = OK then PutActiveIOZoneToken d else d);
          if release_status \<noteq> OK then Some (release_status, d) else Some (s, d)
        })"
  using finish_victim_loop_eq[where v = None and d = d and ps = "io_zones d"]
  by (simp add: FinishCheapestIOZone_def victim_def Let_def split: option.split)

section \<open>The first empty zone\<close>

lemma allocate_empty_loop_eq:
  "allocate_empty_loop ps d =
     (let a = List.find (\<lambda>p. \<not> busy (zones d p) \<and> IsEmpty (zones d p)) ps in Some (OK, a, hold a d))"
  by (induction ps) (auto simp: Acquire_eq Let_def)

lemma AllocateEmptyZone_eq:
  "AllocateEmptyZone d =
     (let a = List.find (\<lambda>p. \<not> busy (zones d p) \<and> IsEmpty (zones d p)) (io_zones d) in Some (OK, a, hold a d))"
  by (simp add: AllocateEmptyZone_def allocate_empty_loop_eq)

end
