(* ===== verification/ZenTokens.thy ===== *)
theory ZenTokens
  imports ZenZone
begin

text \<open>
  The accounting of the tokens of the zoned device: what the counters of open and of active zones say
  about the zones, and that an allocation keeps it and returns.
\<close>

section \<open>Accounting of the tokens\<close>

text \<open>
  \<open>H\<close> are the zones held by files, \<open>M\<close> the zones held for a migration. There is one open token per held
  zone, and one active token per zone that is held or partly written; \<open>eo\<close> and \<open>ea\<close> count the tokens
  an unfinished allocation has taken already.
\<close>

definition active_set :: "nat set \<Rightarrow> 'm ZonedBlockDevice_scheme \<Rightarrow> nat set" where
  "active_set H d = {p \<in> set (io_zones d). p \<in> H \<or> partly_written (zones d p)}"

definition zones_sane :: "'m ZonedBlockDevice_scheme \<Rightarrow> bool" where
  "zones_sane d \<longleftrightarrow> 0 < zone_sz d \<and>
     (\<forall>p \<in> set (io_zones d). start (zones d p) + zone_sz d < 2 ^ 64 \<and> (IsUsed (zones d p) \<longrightarrow> \<not> IsEmpty (zones d p)))"

definition tokens :: "nat set \<Rightarrow> nat set \<Rightarrow> int \<Rightarrow> int \<Rightarrow> 'm ZonedBlockDevice_scheme \<Rightarrow> bool" where
  "tokens H M eo ea d \<longleftrightarrow>
     zones_sane d \<and> H \<subseteq> set (io_zones d) \<and> M \<subseteq> set (io_zones d) \<and> H \<inter> M = {} \<and>
     (\<forall>p \<in> set (io_zones d). busy (zones d p) \<longleftrightarrow> p \<in> H \<union> M) \<and>
     open_io_zones d = int (card H) + eo \<and> active_io_zones d = int (card (active_set H d)) + ea"

definition tokens_ok :: "nat set \<Rightarrow> nat set \<Rightarrow> 'm ZonedBlockDevice_scheme \<Rightarrow> bool" where
  "tokens_ok H M d \<longleftrightarrow> tokens H M 0 0 d"

text \<open>What an allocation may do besides: zones in use stay as they are, others may be finished.\<close>

definition zone_settled :: "nat \<Rightarrow> Zone \<Rightarrow> Zone \<Rightarrow> bool" where
  "zone_settled sz z z' \<longleftrightarrow>
     (busy z \<longrightarrow> z' = z) \<and> start z' = start z \<and> used_capacity z' = used_capacity z \<and> max_capacity z' = max_capacity z \<and>
     (wp z' = wp z \<and> capacity z' = capacity z \<or> wp z' = u64 (start z + sz) \<and> capacity z' = 0)"

definition settled :: "'m ZonedBlockDevice_scheme \<Rightarrow> 'm ZonedBlockDevice_scheme \<Rightarrow> bool" where
  "settled d d' \<longleftrightarrow>
     io_zones d' = io_zones d \<and> meta_zones d' = meta_zones d \<and> zone_sz d' = zone_sz d \<and> block_sz d' = block_sz d \<and>
     the_disk d' = the_disk d \<and> max_nr_active_io_zones d' = max_nr_active_io_zones d \<and>
     max_nr_open_io_zones d' = max_nr_open_io_zones d \<and> finish_threshold d' = finish_threshold d \<and>
     zone_deferred_status d' = zone_deferred_status d \<and> migrating d' = migrating d \<and> calls d \<le> calls d' \<and>
     nr_zones d' = nr_zones d \<and> nr_objects d' = nr_objects d \<and> ZonedBlockDevice.more d' = ZonedBlockDevice.more d \<and>
     (\<forall>p. p \<notin> set (io_zones d) \<longrightarrow> zones d' p = zones d p) \<and>
     (\<forall>p. zone_settled (zone_sz d) (zones d p) (zones d' p))"

lemma zone_settled_refl [simp]: "zone_settled sz z z"
  by (simp add: zone_settled_def)

lemma zone_settled_trans: "zone_settled sz z1 z2 \<Longrightarrow> zone_settled sz z2 z3 \<Longrightarrow> zone_settled sz z1 z3"
  by (auto simp: zone_settled_def)

lemma zone_settled_partly: "zone_settled sz z z' \<Longrightarrow> partly_written z' \<Longrightarrow> partly_written z"
  by (auto simp: zone_settled_def partly_written_def IsFull_def IsEmpty_def)

lemma settled_partly: "settled d d' \<Longrightarrow> partly_written (zones d' p) \<Longrightarrow> partly_written (zones d p)"
  using zone_settled_partly[of "zone_sz d" "zones d p" "zones d' p"] by (simp add: settled_def)

lemma settled_refl [simp]: "settled d d"
  by (simp add: settled_def)

lemma settled_trans: "settled d1 d2 \<Longrightarrow> settled d2 d3 \<Longrightarrow> settled d1 d3"
  using zone_settled_trans by (auto simp: settled_def) blast+

lemma settled_tokens_fields [simp]:
  "settled d (d'\<lparr>active_io_zones := a\<rparr>) \<longleftrightarrow> settled d d'"
  "settled d (d'\<lparr>open_io_zones := a\<rparr>) \<longleftrightarrow> settled d d'"
  "settled d (tick d)"
  by (simp_all add: settled_def)

lemma settled_tokens_left [simp]:
  "settled (d\<lparr>active_io_zones := a\<rparr>) d' \<longleftrightarrow> settled d d'"
  "settled (d\<lparr>open_io_zones := a\<rparr>) d' \<longleftrightarrow> settled d d'"
  by (simp_all add: settled_def)

lemma settled_Put [simp]:
  "settled d (PutOpenIOZoneToken d') \<longleftrightarrow> settled d d'"
  "settled d (PutActiveIOZoneToken d') \<longleftrightarrow> settled d d'"
  by (simp_all add: PutOpenIOZoneToken_def PutActiveIOZoneToken_def)

lemma settled_hold [simp]: "p \<in> set (io_zones d) \<Longrightarrow> \<not> busy (zones d p) \<Longrightarrow> settled d (hold (Some p) d)"
  by (auto simp: settled_def hold_def on_zone_def zone_settled_def)

lemma active_set_fields [simp]:
  "active_set H (d\<lparr>active_io_zones := a\<rparr>) = active_set H d"
  "active_set H (d\<lparr>open_io_zones := a\<rparr>) = active_set H d"
  "active_set H (tick d) = active_set H d"
  by (simp_all add: active_set_def)

lemma zones_sane_fields [simp]:
  "zones_sane (d\<lparr>active_io_zones := a\<rparr>) = zones_sane d"
  "zones_sane (d\<lparr>open_io_zones := a\<rparr>) = zones_sane d"
  "zones_sane (tick d) = zones_sane d"
  by (simp_all add: zones_sane_def)

lemma tokens_Put:
  "tokens H M eo ea (PutOpenIOZoneToken d) \<longleftrightarrow> tokens H M (eo + 1) ea d"
  "tokens H M eo ea (PutActiveIOZoneToken d) \<longleftrightarrow> tokens H M eo (ea + 1) d"
  by (auto simp: tokens_def PutOpenIOZoneToken_def PutActiveIOZoneToken_def)

lemma tokens_tick [simp]: "tokens H M eo ea (tick d) \<longleftrightarrow> tokens H M eo ea d"
  by (simp add: tokens_def)

lemma finite_active_set [simp]: "finite (active_set H d)"
  by (simp add: active_set_def)

lemma tokens_finite: "tokens H M eo ea d \<Longrightarrow> finite H \<and> finite M"
  by (meson tokens_def finite_set finite_subset)

subsection \<open>Finishing a zone\<close>

definition finished :: "nat \<Rightarrow> 'm ZonedBlockDevice_scheme \<Rightarrow> 'm ZonedBlockDevice_scheme" where
  "finished p d = on_zone p (\<lambda>z. z\<lparr>capacity := 0, wp := u64 (start z + zone_sz d)\<rparr>) (tick d)"

lemma Finish_hold:
  "Finish E p (hold (Some p) d) =
     (if zbd_finish_zones E (calls d) (start (zones d p)) (zone_sz d) \<noteq> 0 then Some (IOError, hold (Some p) (tick d))
      else Some (OK, hold (Some p) (finished p d)))"
proof -
  have "tick (hold (Some p) d) = hold (Some p) (tick d)" by (simp add: hold_def tick_def on_zone_def)
  moreover have "on_zone p (\<lambda>z. z\<lparr>capacity := 0, wp := u64 (start z + zone_sz d)\<rparr>) (hold (Some p) (tick d)) = hold (Some p) (finished p d)"
    by (auto simp: hold_def finished_def on_zone_twice intro!: on_zone_cong Zone.equality)
  ultimately show ?thesis by (simp add: Finish_def Let_def)
qed

lemma finished_busy [simp]: "busy (zones (finished p d) q) = busy (zones d q)"
  by (cases "q = p") (simp_all add: finished_def)

lemma settled_finished: "p \<in> set (io_zones d) \<Longrightarrow> \<not> busy (zones d p) \<Longrightarrow> settled d (finished p d)"
  by (auto simp: settled_def finished_def on_zone_def zone_settled_def)

lemma finished_io [simp]: "io_zones (finished p d) = io_zones d" "zone_sz (finished p d) = zone_sz d"
  "open_io_zones (finished p d) = open_io_zones d" "active_io_zones (finished p d) = active_io_zones d"
  "max_nr_active_io_zones (finished p d) = max_nr_active_io_zones d"
  by (simp_all add: finished_def)

lemma finished_partly: "partly_written (zones (finished p d) q) \<longleftrightarrow> q \<noteq> p \<and> partly_written (zones d q)"
  by (cases "q = p") (auto simp: finished_def partly_written_def IsFull_def)

lemma finished_sane: "zones_sane d \<Longrightarrow> zones_sane (finished p d)"
proof -
  assume s: "zones_sane d"
  have "IsUsed (zones (finished p d) q) \<longrightarrow> \<not> IsEmpty (zones (finished p d) q)" "start (zones (finished p d) q) = start (zones d q)"
    if "q \<in> set (io_zones d)" for q
    using s that by (cases "q = p"; auto simp: zones_sane_def finished_def IsUsed_def IsEmpty_def)+
  with s show ?thesis by (auto simp: zones_sane_def)
qed

lemma tokens_finished:
  assumes "tokens H M eo ea d" "p \<in> set (io_zones d)" "\<not> busy (zones d p)" "partly_written (zones d p)"
  shows "tokens H M eo (ea + 1) (finished p d)"
proof -
  have p: "p \<notin> H" using assms by (auto simp: tokens_def)
  have "active_set H (finished p d) = active_set H d - {p}" using p by (auto simp: active_set_def finished_partly)
  moreover have "p \<in> active_set H d" using assms by (simp add: active_set_def)
  ultimately have "card (active_set H (finished p d)) + 1 = card (active_set H d)"
    using card_Suc_Diff1[of "active_set H d" p] by simp
  with assms show ?thesis by (auto simp: tokens_def finished_sane)
qed

lemma apply_finish_loop_ok:
  "tokens H M eo ea d \<Longrightarrow> set ps \<subseteq> set (io_zones d) \<Longrightarrow>
   \<exists>s d'. apply_finish_loop E ps d = Some (s, d') \<and> tokens H M eo ea d' \<and> settled d d'"
proof (induction ps arbitrary: d)
  case Nil
  then show ?case by simp
next
  case (Cons p ps)
  show ?case
  proof (cases "busy (zones d p)")
    case True
    with Cons show ?thesis by (simp add: Acquire_eq)
  next
    case nb: False
    show ?thesis
    proof (cases "\<not> (IsEmpty (zones d p) \<or> IsFull (zones d p)) \<and> within_finish_threshold (hold (Some p) d) (zones (hold (Some p) d) p)")
      case False
      with nb Cons show ?thesis by (auto simp: Acquire_eq)
    next
      case True
      show ?thesis
      proof (cases "zbd_finish_zones E (calls d) (start (zones d p)) (zone_sz d) = 0")
        case False
        moreover have "Release p (hold (Some p) (tick d)) = (True, tick d)"
          using nb by (simp add: Release_def hold_def on_zone_twice on_zone_id)
        ultimately show ?thesis using nb True Cons.prems by (simp add: Acquire_eq Finish_hold)
      next
        case fin: True
        let ?d = "PutActiveIOZoneToken (finished p d)"
        have "tokens H M eo ea ?d" using Cons.prems nb True by (simp add: tokens_Put tokens_finished partly_written_def)
        moreover have "settled d ?d" using Cons.prems nb by (simp add: settled_finished)
        moreover have "io_zones ?d = io_zones d" by (simp add: PutActiveIOZoneToken_def)
        ultimately obtain s d' where "apply_finish_loop E ps ?d = Some (s, d')" "tokens H M eo ea d'" "settled d d'"
          using Cons.IH[of ?d] Cons.prems(2) settled_trans[of d ?d] by auto
        then show ?thesis using nb True fin by (simp add: Acquire_eq Finish_hold)
      qed
    qed
  qed
qed

subsection \<open>Waiting for an active token\<close>

definition idle_partly :: "'m ZonedBlockDevice_scheme \<Rightarrow> nat set" where
  "idle_partly d = {p \<in> set (io_zones d). \<not> busy (zones d p) \<and> partly_written (zones d p)}"

lemma idle_partly_finished:
  assumes "p \<in> idle_partly d"
  shows "card (idle_partly (finished p d)) < card (idle_partly d)"
proof -
  have "idle_partly (finished p d) = idle_partly d - {p}" by (auto simp: idle_partly_def finished_partly)
  moreover have "finite (idle_partly d)" by (simp add: idle_partly_def)
  ultimately show ?thesis using assms card_Diff1_less by metis
qed

lemma FinishCheapest_ok:
  assumes t: "tokens H M eo ea d" and f: "FinishCheapestIOZone E d = Some (s, d')"
  shows "tokens H M eo ea d'" "settled d d'" "victim d \<noteq> None \<Longrightarrow> s = OK \<Longrightarrow> card (idle_partly d') < card (idle_partly d)"
proof -
  have *: "tokens H M eo ea d' \<and> settled d d' \<and> (victim d \<noteq> None \<longrightarrow> s = OK \<longrightarrow> card (idle_partly d') < card (idle_partly d))"
  proof (cases "victim d")
    case None
    with t f show ?thesis by (simp add: FinishCheapestIOZone_eq)
  next
    case (Some v)
    note v = victim_Some[OF Some]
    have idle: "v \<in> idle_partly d" using v by (simp add: idle_partly_def)
    have "idle_partly (PutActiveIOZoneToken (finished v d)) = idle_partly (finished v d)" by (simp add: idle_partly_def PutActiveIOZoneToken_def)
    then show ?thesis using t f Some v idle_partly_finished[OF idle]
      by (auto simp: FinishCheapestIOZone_eq Finish_hold tokens_Put tokens_finished settled_finished split: if_splits)
  qed
  show "tokens H M eo ea d'" "settled d d'" "victim d \<noteq> None \<Longrightarrow> s = OK \<Longrightarrow> card (idle_partly d') < card (idle_partly d)"
    using * by auto
qed

lemma FinishCheapest_returns: "\<exists>s d'. FinishCheapestIOZone E d = Some (s, d')"
proof (cases "victim d")
  case None
  then show ?thesis by (simp add: FinishCheapestIOZone_eq)
next
  case (Some v)
  then show ?thesis using victim_Some[OF Some] by (simp add: FinishCheapestIOZone_eq Finish_hold)
qed

lemma finish_until_token_got [simp]: "finish_until_token E True d = Some (OK, d)"
  by (simp add: finish_until_token.simps)

text \<open>Held zones and migration zones alone do not use up the active tokens, so a zone can be finished.\<close>

lemma victim_exists:
  assumes "tokens H M eo 0 d" "\<not> active_io_zones d < int (max_nr_active_io_zones d)" "card H + card M < max_nr_active_io_zones d"
  shows "victim d \<noteq> None"
proof
  assume "victim d = None"
  then have "active_set H d \<subseteq> H \<union> M" using assms(1) by (auto simp: victim_None active_set_def tokens_def)
  moreover have "finite (H \<union> M)" using tokens_finite[OF assms(1)] by simp
  ultimately have "card (active_set H d) \<le> card H + card M" using card_mono card_Un_le le_trans by metis
  with assms show False by (simp add: tokens_def)
qed

lemma finish_until_token_ok:
  "tokens H M eo 0 d \<Longrightarrow> card H + card M < max_nr_active_io_zones d \<Longrightarrow>
   \<exists>s d'. finish_until_token E False d = Some (s, d') \<and> tokens H M eo (if s = OK then 1 else 0) d' \<and> settled d d' \<and>
          (active_io_zones d \<le> int (max_nr_active_io_zones d) \<longrightarrow> active_io_zones d' \<le> int (max_nr_active_io_zones d'))"
proof (induction "card (idle_partly d)" arbitrary: d rule: less_induct)
  case less
  show ?case
  proof (cases "active_io_zones d < int (max_nr_active_io_zones d)")
    case True
    moreover have "tokens H M eo 1 (d\<lparr>active_io_zones := active_io_zones d + 1\<rparr>)"
      using less.prems(1) by (simp add: tokens_def)
    ultimately show ?thesis by (simp add: finish_until_token.simps GetActiveIOZoneTokenIfAvailable_def)
  next
    case False
    obtain s d1 where f: "FinishCheapestIOZone E d = Some (s, d1)" using FinishCheapest_returns by blast
    note ok = FinishCheapest_ok[OF less.prems(1) f]
    have max: "max_nr_active_io_zones d1 = max_nr_active_io_zones d" using ok(2) by (simp add: settled_def)
    have le: "active_io_zones d1 \<le> active_io_zones d"
    proof -
      have "active_set H d1 \<subseteq> active_set H d"
        using settled_partly[OF ok(2)] ok(2) by (auto simp: active_set_def settled_def)
      then have "card (active_set H d1) \<le> card (active_set H d)" by (intro card_mono) auto
      then show ?thesis using less.prems(1) ok(1) by (simp add: tokens_def)
    qed
    show ?thesis
    proof (cases "s = OK")
      case True
      then obtain s' d' where "finish_until_token E False d1 = Some (s', d')" "tokens H M eo (if s' = OK then 1 else 0) d'"
        "settled d1 d'" "active_io_zones d1 \<le> int (max_nr_active_io_zones d1) \<longrightarrow> active_io_zones d' \<le> int (max_nr_active_io_zones d')"
        using less.hyps[of d1] ok victim_exists[OF less.prems(1) False less.prems(2)] less.prems(2) max by metis
      moreover from this have "settled d d'" using settled_trans[OF ok(2)] by simp
      moreover have "finish_until_token E False d = finish_until_token E False d1"
        using True False f by (simp add: finish_until_token.simps[of E False d] GetActiveIOZoneTokenIfAvailable_def)
      ultimately show ?thesis using le max by simp
    next
      case s: False
      have "active_io_zones d1 \<le> int (max_nr_active_io_zones d1)" if "active_io_zones d \<le> int (max_nr_active_io_zones d)"
        using that le max by linarith
      then show ?thesis using s False f ok
        by (simp add: finish_until_token.simps[of E False d] GetActiveIOZoneTokenIfAvailable_def)
    qed
  qed
qed

subsection \<open>Taking a zone\<close>

text \<open>An empty zone that is taken needs both tokens, a partly written one only the open token.\<close>

lemma tokens_hold_empty:
  assumes "tokens H M eo ea d" "p \<in> set (io_zones d)" "\<not> busy (zones d p)" "IsEmpty (zones d p)"
  shows "tokens (insert p H) M (eo - 1) (ea - 1) (hold (Some p) d)"
proof -
  have p: "p \<notin> H" "p \<notin> M" "finite H" using assms(1-3) tokens_finite[OF assms(1)] by (auto simp: tokens_def)
  have "active_set (insert p H) (hold (Some p) d) = insert p (active_set H d)"
    using assms(2) by (auto simp: active_set_def partly_written_def)
  moreover have "p \<notin> active_set H d" using assms(4) p by (simp add: active_set_def partly_written_def)
  ultimately have "card (active_set (insert p H) (hold (Some p) d)) = card (active_set H d) + 1" by simp
  with assms p show ?thesis by (auto simp: tokens_def zones_sane_def)
qed

lemma tokens_hold_partly:
  assumes "tokens H M eo ea d" "p \<in> set (io_zones d)" "\<not> busy (zones d p)" "partly_written (zones d p)"
  shows "tokens (insert p H) M (eo - 1) ea (hold (Some p) d)"
proof -
  have p: "p \<notin> H" "p \<notin> M" "finite H" using assms(1-3) tokens_finite[OF assms(1)] by (auto simp: tokens_def)
  have "active_set (insert p H) (hold (Some p) d) = active_set H d"
    using assms(2,4) by (auto simp: active_set_def partly_written_def)
  with assms p show ?thesis by (auto simp: tokens_def zones_sane_def)
qed

lemma tokens_lifetime:
  "tokens H M eo ea (on_zone p (\<lambda>z. z\<lparr>lifetime := l\<rparr>) d) \<longleftrightarrow> tokens H M eo ea d"
proof -
  have z: "partly_written (zones (on_zone p (\<lambda>z. z\<lparr>lifetime := l\<rparr>) d) q) = partly_written (zones d q)"
    "IsUsed (zones (on_zone p (\<lambda>z. z\<lparr>lifetime := l\<rparr>) d) q) = IsUsed (zones d q)"
    "IsEmpty (zones (on_zone p (\<lambda>z. z\<lparr>lifetime := l\<rparr>) d) q) = IsEmpty (zones d q)"
    "busy (zones (on_zone p (\<lambda>z. z\<lparr>lifetime := l\<rparr>) d) q) = busy (zones d q)"
    "start (zones (on_zone p (\<lambda>z. z\<lparr>lifetime := l\<rparr>) d) q) = start (zones d q)" for q
    by (cases "q = p"; simp add: partly_written_def IsUsed_def IsEmpty_def IsFull_def)+
  then show ?thesis by (simp add: tokens_def active_set_def zones_sane_def)
qed

lemma open_new_zone_ok:
  assumes t: "tokens H M 1 (if got then 1 else 0) d" and c: "card H + card M < max_nr_active_io_zones d"
  shows "\<exists>s z d'. open_new_zone E fl got d = Some (s, z, d') \<and> settled d d' \<and>
     (case z of None \<Rightarrow> tokens H M 0 0 d'
      | Some p \<Rightarrow> s = OK \<and> p \<in> set (io_zones d) \<and> \<not> busy (zones d p) \<and> busy (zones d' p) \<and> tokens (insert p H) M 0 0 d') \<and>
     (active_io_zones d \<le> int (max_nr_active_io_zones d) \<longrightarrow> active_io_zones d' \<le> int (max_nr_active_io_zones d'))"
proof -
  obtain s d1 where f: "finish_until_token E got d = Some (s, d1)" "tokens H M 1 (if s = OK then 1 else 0) d1" "settled d d1"
    "active_io_zones d \<le> int (max_nr_active_io_zones d) \<longrightarrow> active_io_zones d1 \<le> int (max_nr_active_io_zones d1)"
    using t c finish_until_token_ok[of H M 1 d E] by (cases got) auto
  show ?thesis
  proof (cases "s = OK")
    case False
    have m: "active_io_zones (PutOpenIOZoneToken d1) = active_io_zones d1"
      "max_nr_active_io_zones (PutOpenIOZoneToken d1) = max_nr_active_io_zones d1" by (simp_all add: PutOpenIOZoneToken_def)
    show ?thesis using False f by (simp add: open_new_zone_def tokens_Put m)
  next
    case True
    let ?z = "List.find (\<lambda>p. \<not> busy (zones d1 p) \<and> IsEmpty (zones d1 p)) (io_zones d1)"
    show ?thesis
    proof (cases ?z)
      case None
      let ?d = "PutOpenIOZoneToken (PutActiveIOZoneToken d1)"
      have "active_io_zones ?d = active_io_zones d1 - 1" "max_nr_active_io_zones ?d = max_nr_active_io_zones d1"
        by (simp_all add: PutOpenIOZoneToken_def PutActiveIOZoneToken_def)
      then show ?thesis using True f None by (auto simp: open_new_zone_def AllocateEmptyZone_eq tokens_Put)
    next
      case (Some p)
      then have p: "p \<in> set (io_zones d1)" "\<not> busy (zones d1 p)" "IsEmpty (zones d1 p)"
        by (auto simp: find_Some_iff)
      let ?d = "on_zone p (\<lambda>z. z\<lparr>lifetime := fl\<rparr>) (hold (Some p) d1)"
      have "tokens (insert p H) M 0 0 ?d" using tokens_hold_empty[OF f(2) p] True by (simp add: tokens_lifetime)
      moreover have "settled d1 ?d" using p by (auto simp: settled_def zone_settled_def hold_def on_zone_def)
      moreover have "io_zones d1 = io_zones d" using f(3) by (simp add: settled_def)
      moreover have "\<not> busy (zones d p)"
        using f(2,3) p t by (auto simp: tokens_def settled_def)
      ultimately show ?thesis using True f p Some settled_trans[OF f(3)] by (simp add: open_new_zone_def AllocateEmptyZone_eq Let_def)
    qed
  qed
qed

lemma candidate_partly: "zones_sane d \<Longrightarrow> p \<in> set (io_zones d) \<Longrightarrow> candidate mc d p \<Longrightarrow> partly_written (zones d p)"
  by (auto simp: zones_sane_def candidate_def partly_written_def IsUsed_def)

lemma GetActive_ok:
  assumes "tokens H M eo 0 d" "GetActiveIOZoneTokenIfAvailable d = (got, d')"
  shows "tokens H M eo (if got then 1 else 0) d'" "settled d d'" "zones d' = zones d" "io_zones d' = io_zones d"
    "max_nr_active_io_zones d' = max_nr_active_io_zones d"
    "active_io_zones d \<le> int (max_nr_active_io_zones d) \<Longrightarrow> active_io_zones d' \<le> int (max_nr_active_io_zones d')"
  using assms by (auto simp: GetActiveIOZoneTokenIfAvailable_def tokens_def split: if_splits)

lemma hold_GetActive:
  "GetActiveIOZoneTokenIfAvailable (hold a d) =
     (case GetActiveIOZoneTokenIfAvailable d of (got, d) \<Rightarrow> (got, hold a d))"
  by (cases a) (simp_all add: GetActiveIOZoneTokenIfAvailable_def hold_def on_zone_def)

lemma allocate_zone_ok:
  assumes t: "tokens H M 1 0 d" and c: "card H + card M < max_nr_active_io_zones d" and b: "best_match fl 0 d = (best, a)"
  shows "\<exists>s z d'. allocate_zone E fl best a (hold a d) = Some (s, z, d') \<and> settled d d' \<and>
     (case z of None \<Rightarrow> tokens H M 0 0 d'
      | Some p \<Rightarrow> s = OK \<and> p \<in> set (io_zones d) \<and> \<not> busy (zones d p) \<and> busy (zones d' p) \<and> tokens (insert p H) M 0 0 d') \<and>
     (active_io_zones d \<le> int (max_nr_active_io_zones d) \<longrightarrow> active_io_zones d' \<le> int (max_nr_active_io_zones d'))"
proof -
  obtain got d1 where g: "GetActiveIOZoneTokenIfAvailable d = (got, d1)" by fastforce
  note gok = GetActive_ok[OF t g]
  note new = open_new_zone_ok[of H M got d1 E fl, OF gok(1), unfolded gok(3-5), OF c]
  show ?thesis
  proof (cases a)
    case None
    then have "best = 100" using b best_match_None by blast
    with None g gok new show ?thesis
      by (fastforce simp: allocate_zone_def LIFETIME_DIFF_COULD_BE_WORSE_def intro: settled_trans[OF gok(2)])
  next
    case (Some p)
    note p = best_match_Some[OF b[unfolded Some]]
    have nb: "\<not> busy (zones d p)" using p(2) by (simp add: candidate_def)
    have part: "partly_written (zones d p)" using candidate_partly p t by (auto simp: tokens_def)
    have held: "tokens (insert p H) M 0 0 (hold (Some p) d)" using tokens_hold_partly[OF t p(1) nb part] by simp
    consider (keep) "best < 50" | (relax) "best = 50" "\<not> got" | (new) "best > 50 \<or> best = 50 \<and> got" by linarith
    then show ?thesis
    proof cases
      case keep
      then show ?thesis using Some held p(1) nb by (simp add: allocate_zone_def LIFETIME_DIFF_COULD_BE_WORSE_def)
    next
      case relax
      then have "d1 = d" using g by (auto simp: GetActiveIOZoneTokenIfAvailable_def split: if_splits)
      with relax show ?thesis using Some held p(1) nb g
        by (simp add: allocate_zone_def LIFETIME_DIFF_COULD_BE_WORSE_def hold_GetActive)
    next
      case new
      then show ?thesis using Some g gok nb open_new_zone_ok[of H M got d1 E fl, OF gok(1), unfolded gok(3-5), OF c]
        by (fastforce simp: allocate_zone_def LIFETIME_DIFF_COULD_BE_WORSE_def hold_GetActive intro: settled_trans[OF gok(2)])
    qed
  qed
qed

subsection \<open>An allocation\<close>

definition limits_ok :: "'m ZonedBlockDevice_scheme \<Rightarrow> bool" where
  "limits_ok d \<longleftrightarrow>
     open_io_zones d \<le> int (max_nr_open_io_zones d) \<and> active_io_zones d \<le> int (max_nr_active_io_zones d) \<and>
     0 < max_nr_open_io_zones d \<and> max_nr_open_io_zones d < 2 ^ 32"

text \<open>The open tokens that must be free: the last one is kept for the write-ahead log.\<close>

definition token_free :: "IOType \<Rightarrow> 'm ZonedBlockDevice_scheme \<Rightarrow> bool" where
  "token_free io_type d \<longleftrightarrow> open_io_zones d + (if io_type = kWAL then 1 else 2) \<le> int (max_nr_open_io_zones d)"

lemma WaitForOpen_ok:
  assumes "tokens H M 0 0 d" "token_free io_type d" "max_nr_open_io_zones d < 2 ^ 32"
  shows "WaitForOpenIOZoneToken (io_type = kWAL) d = Some (d\<lparr>open_io_zones := open_io_zones d + 1\<rparr>)"
    "tokens H M 1 0 (d\<lparr>open_io_zones := open_io_zones d + 1\<rparr>)"
proof -
  have "open_io_zones d \<ge> 0" using assms(1) by (simp add: tokens_def)
  then have "io_type \<noteq> kWAL \<Longrightarrow> sub32 (max_nr_open_io_zones d) 1 = max_nr_open_io_zones d - 1"
    using assms(2,3) by (simp add: token_free_def sub32_def mod_if)
  with assms(2) \<open>open_io_zones d \<ge> 0\<close>
  show "WaitForOpenIOZoneToken (io_type = kWAL) d = Some (d\<lparr>open_io_zones := open_io_zones d + 1\<rparr>)"
    by (cases "io_type = kWAL") (auto simp: WaitForOpenIOZoneToken_def token_free_def)
  show "tokens H M 1 0 (d\<lparr>open_io_zones := open_io_zones d + 1\<rparr>)" using assms(1) by (simp add: tokens_def)
qed

lemma ApplyFinishThreshold_ok:
  "tokens H M 0 0 d \<Longrightarrow> \<exists>s d'. ApplyFinishThreshold E d = Some (s, d') \<and> tokens H M 0 0 d' \<and> settled d d'"
  using apply_finish_loop_ok[of H M 0 0 d "io_zones d" E] by (simp add: ApplyFinishThreshold_def)

lemma settled_active_le:
  assumes "settled d d'" "tokens H M eo ea d" "tokens H M eo' ea d'"
  shows "active_io_zones d' \<le> active_io_zones d"
proof -
  have "active_set H d' \<subseteq> active_set H d"
    using settled_partly[OF assms(1)] assms(1) by (auto simp: active_set_def settled_def)
  then have "card (active_set H d') \<le> card (active_set H d)" by (intro card_mono) auto
  then show ?thesis using assms(2,3) by (simp add: tokens_def)
qed

definition allocated :: "nat set \<Rightarrow> nat set \<Rightarrow> 'm ZonedBlockDevice_scheme \<Rightarrow> IOStatus \<Rightarrow> nat option \<Rightarrow> 'm ZonedBlockDevice_scheme \<Rightarrow> bool" where
  "allocated H M d s z d' \<longleftrightarrow>
     settled d d' \<and> limits_ok d' \<and>
     (case z of
        None \<Rightarrow> tokens_ok H M d'
      | Some p \<Rightarrow> s = OK \<and> p \<in> set (io_zones d) \<and> p \<notin> H \<union> M \<and> busy (zones d' p) \<and> tokens_ok (insert p H) M d')"

lemma AllocateIOZone_ok:
  assumes t: "tokens_ok H M d" and l: "limits_ok d" and free: "token_free io_type d"
    and room: "max_nr_open_io_zones d + card M \<le> max_nr_active_io_zones d"
  shows "\<exists>s z d'. AllocateIOZone E fl io_type d = Some (s, z, d') \<and> allocated H M d s z d'"
proof (cases "zone_deferred_status d = OK")
  case False
  with t l show ?thesis by (simp add: AllocateIOZone_def GetZoneDeferredStatus_def allocated_def)
next
  case True
  note t0 = t[unfolded tokens_ok_def]
  obtain s1 d1 where d1: "(if io_type \<noteq> kWAL then ApplyFinishThreshold E d else Some (OK, d)) = Some (s1, d1)"
    "tokens H M 0 0 d1" "settled d d1"
    using ApplyFinishThreshold_ok[OF t0, of E] t0 by (cases "io_type = kWAL") auto
  have same: "open_io_zones d1 = open_io_zones d" "max_nr_open_io_zones d1 = max_nr_open_io_zones d"
    "max_nr_active_io_zones d1 = max_nr_active_io_zones d" "io_zones d1 = io_zones d"
    using d1 t0 by (simp_all add: tokens_def settled_def)
  have le1: "active_io_zones d1 \<le> int (max_nr_active_io_zones d1)"
    using settled_active_le[OF d1(3) t0 d1(2)] l same by (simp add: limits_ok_def)
  show ?thesis
  proof (cases "s1 = OK")
    case False
    then have "limits_ok d1" using le1 l same by (simp add: limits_ok_def)
    then show ?thesis using True False d1 by (simp add: AllocateIOZone_def GetZoneDeferredStatus_def allocated_def tokens_ok_def)
  next
    case s1: True
    let ?d2 = "d1\<lparr>open_io_zones := open_io_zones d1 + 1\<rparr>"
    have "token_free io_type d1" using free same by (simp add: token_free_def)
    moreover have "max_nr_open_io_zones d1 < 2 ^ 32" using l same by (simp add: limits_ok_def)
    ultimately have wait: "WaitForOpenIOZoneToken (io_type = kWAL) d1 = Some ?d2" "tokens H M 1 0 ?d2"
      using WaitForOpen_ok[OF d1(2)] by auto
    have "int (card H) = open_io_zones d" using t0 by (simp add: tokens_def)
    then have "card H < max_nr_open_io_zones d" using free by (auto simp: token_free_def split: if_splits)
    then have c: "card H + card M < max_nr_active_io_zones ?d2" using room same by simp
    obtain best a where b: "best_match fl 0 ?d2 = (best, a)" by fastforce
    obtain s z d' where alloc: "allocate_zone E fl best a (hold a ?d2) = Some (s, z, d')" "settled ?d2 d'"
      "case z of None \<Rightarrow> tokens H M 0 0 d'
       | Some p \<Rightarrow> s = OK \<and> p \<in> set (io_zones ?d2) \<and> \<not> busy (zones ?d2 p) \<and> busy (zones d' p) \<and> tokens (insert p H) M 0 0 d'"
      "active_io_zones ?d2 \<le> int (max_nr_active_io_zones ?d2) \<longrightarrow> active_io_zones d' \<le> int (max_nr_active_io_zones d')"
      using allocate_zone_ok[OF wait(2) c b, of E] by blast
    have set: "settled d d'" using settled_trans[OF d1(3)] alloc(2) by simp
    have notin: "p \<notin> H \<union> M" if "z = Some p" for p
      using alloc(3) that wait(2) by (auto simp: tokens_def)
    have "open_io_zones d' \<le> open_io_zones d + 1"
    proof (cases z)
      case None
      then show ?thesis using alloc(3) t0 by (simp add: tokens_def)
    next
      case (Some p)
      then have "card (insert p H) = card H + 1" using notin[OF Some] tokens_finite[OF t0] by simp
      then show ?thesis using Some alloc(3) t0 by (simp add: tokens_def)
    qed
    then have "limits_ok d'" using alloc(4) le1 set l free by (auto simp: limits_ok_def settled_def token_free_def split: if_splits)
    then have "allocated H M d s z d'" using set alloc(3) notin same by (auto simp: allocated_def tokens_ok_def split: option.splits)
    moreover have "AllocateIOZone E fl io_type d = Some (s, z, d')"
      using True d1(1) s1 wait(1) b alloc(1,3)
      by (auto simp: AllocateIOZone_def GetZoneDeferredStatus_def GetBestOpenZoneMatch_eq split: option.splits)
    ultimately show ?thesis by blast
  qed
qed

text \<open>When it returns, the accounting is right even if no token was free.\<close>

lemma AllocateIOZone_returned:
  assumes t: "tokens_ok H M d" and l: "limits_ok d" and room: "max_nr_open_io_zones d + card M \<le> max_nr_active_io_zones d"
    and a: "AllocateIOZone E fl io_type d = Some (s, z, d')"
  shows "allocated H M d s z d'"
proof (cases "token_free io_type d")
  case True
  then show ?thesis using AllocateIOZone_ok[OF t l True room, of E fl] a by auto
next
  case False
  note t0 = t[unfolded tokens_ok_def]
  have no_token: "WaitForOpenIOZoneToken (io_type = kWAL) d1 = None" if "settled d d1" "tokens H M 0 0 d1" for d1
  proof -
    have "open_io_zones d1 = open_io_zones d" "max_nr_open_io_zones d1 = max_nr_open_io_zones d"
      using that t0 by (simp_all add: tokens_def settled_def)
    moreover have "sub32 (max_nr_open_io_zones d) 1 = max_nr_open_io_zones d - 1" using l by (simp add: limits_ok_def)
    ultimately show ?thesis using False l
      by (auto simp: WaitForOpenIOZoneToken_def token_free_def limits_ok_def split: if_splits)
  qed
  obtain s1 d1 where d1: "(if io_type \<noteq> kWAL then ApplyFinishThreshold E d else Some (OK, d)) = Some (s1, d1)"
    "tokens H M 0 0 d1" "settled d d1"
    using ApplyFinishThreshold_ok[OF t0, of E] t0 by (cases "io_type = kWAL") auto
  show ?thesis
  proof (cases "zone_deferred_status d = OK \<and> s1 = OK")
    case True
    then have False using a d1 no_token[OF d1(3,2)] by (simp add: AllocateIOZone_def GetZoneDeferredStatus_def split: if_splits)
    then show ?thesis ..
  next
    case early: False
    show ?thesis
    proof (cases "zone_deferred_status d = OK")
      case True
      then have "s = s1" "z = None" "d' = d1" using early a d1(1) by (auto simp: AllocateIOZone_def GetZoneDeferredStatus_def split: if_splits)
      moreover have "active_io_zones d1 \<le> active_io_zones d" using settled_active_le[OF d1(3) t0 d1(2)] .
      moreover have "open_io_zones d1 = open_io_zones d" using d1(2) t0 by (simp add: tokens_def)
      ultimately show ?thesis using d1 l by (auto simp: allocated_def tokens_ok_def limits_ok_def settled_def)
    next
      case False
      then show ?thesis using a t l by (auto simp: AllocateIOZone_def GetZoneDeferredStatus_def allocated_def)
    qed
  qed
qed

text \<open>A held zone may be written without any change of the tokens.\<close>

lemma tokens_held:
  assumes "tokens H M eo ea d" "p \<in> H" "\<And>q. q \<noteq> p \<Longrightarrow> zones d' q = zones d q"
    "busy (zones d' p)" "start (zones d' p) = start (zones d p)" "IsUsed (zones d' p) \<longrightarrow> \<not> IsEmpty (zones d' p)"
    "io_zones d' = io_zones d" "zone_sz d' = zone_sz d" "open_io_zones d' = open_io_zones d" "active_io_zones d' = active_io_zones d"
  shows "tokens H M eo ea d'"
proof -
  have "active_set H d' = active_set H d" using assms(2,3,7) by (auto simp: active_set_def) metis+
  moreover have "zones_sane d'" using assms unfolding zones_sane_def tokens_def by metis
  moreover have "busy (zones d' q) \<longleftrightarrow> q \<in> H \<union> M" if "q \<in> set (io_zones d)" for q
    using assms that by (cases "q = p") (auto simp: tokens_def)
  ultimately show ?thesis using assms(1,7,9,10) by (simp add: tokens_def)
qed

text \<open>Giving a zone back: the active token stays with it unless it is full.\<close>

lemma tokens_release:
  assumes t: "tokens H M eo ea d" and p: "p \<in> H" and w: "\<not> IsEmpty (zones d p)"
  shows "tokens (H - {p}) M (eo + 1) (if IsFull (zones d p) then ea + 1 else ea) (on_zone p (\<lambda>z. z\<lparr>busy := False\<rparr>) d)"
proof -
  let ?d = "on_zone p (\<lambda>z. z\<lparr>busy := False\<rparr>) d"
  have z: "partly_written (zones ?d q) = partly_written (zones d q)" "IsUsed (zones ?d q) = IsUsed (zones d q)"
    "IsEmpty (zones ?d q) = IsEmpty (zones d q)" "start (zones ?d q) = start (zones d q)" "busy (zones ?d q) \<longleftrightarrow> busy (zones d q) \<and> q \<noteq> p" for q
    by (cases "q = p"; simp add: partly_written_def IsUsed_def IsEmpty_def IsFull_def)+
  have io: "p \<in> set (io_zones d)" "finite H" "p \<notin> M" using t p tokens_finite[OF t] by (auto simp: tokens_def)
  have H: "int (card H) = int (card (H - {p})) + 1" using card_Suc_Diff1[OF io(2) p] by simp
  have A: "active_set (H - {p}) ?d = (if IsFull (zones d p) then active_set H d - {p} else active_set H d)"
    using w p io(1) unfolding active_set_def z on_zone_fields by (auto simp: partly_written_def)
  have "p \<in> active_set H d" using p io by (simp add: active_set_def)
  then have "int (card (active_set H d)) = int (card (active_set H d - {p})) + 1"
    using card_Suc_Diff1[of "active_set H d" p] by simp
  with A have "int (card (active_set H d)) = int (card (active_set (H - {p}) ?d)) + (if IsFull (zones d p) then 1 else 0)" by simp
  moreover have "zones_sane ?d" using t z by (simp add: tokens_def zones_sane_def)
  moreover have "\<forall>q \<in> set (io_zones ?d). busy (zones ?d q) \<longleftrightarrow> q \<in> H - {p} \<union> M" using t io by (auto simp: tokens_def z)
  ultimately show ?thesis using t H by (auto simp: tokens_def)
qed

end
