(* ===== verification/ZenIo.thy ===== *)
theory ZenIo
  imports ZenTokens
begin

text \<open>
  Reads and writes of the zoned device under the documented behaviour of \<open>pwrite\<close> and \<open>pread\<close>, and what
  the operations on single zones do to the tokens.
\<close>

section \<open>What the system calls do\<close>

text \<open>
  \<open>pwrite\<close> writes at most the bytes it is given; those it reports are on the device, and nothing
  outside the range is changed. It reports at least one byte when it is given one.
\<close>

definition pwrite_contract :: "outside \<Rightarrow> bool" where
  "pwrite_contract E \<longleftrightarrow>
     (\<forall>n data off disk r disk'. pwrite E n data off disk = (r, disk') \<longrightarrow>
        r \<le> int (length data) \<and> (data \<noteq> [] \<longrightarrow> r \<noteq> 0) \<and>
        (\<forall>i. int i < r \<longrightarrow> disk' (off + i) = data ! i) \<and>
        (\<forall>a. a < off \<or> off + length data \<le> a \<longrightarrow> disk' a = disk a))"

text \<open>\<open>pread\<close> on the buffered descriptor gives bytes of the device, at least one and at most as many as asked
  for: reads do not fail, are not interrupted and do not reach the end of the device. Nothing is
  said of the direct descriptor, which also asks for aligned offsets and sizes.\<close>

definition pread_contract :: "outside \<Rightarrow> bool" where
  "pread_contract E \<longleftrightarrow>
     (\<forall>n count off disk r bs. pread E n ReadFD count off disk = (r, bs) \<longrightarrow> 0 < count \<longrightarrow>
        0 < r \<and> r \<le> int count \<and> take (nat r) bs = map disk [off ..< off + nat r])"

section \<open>Appending to a zone\<close>

text \<open>\<open>k\<close> bytes of \<open>data\<close> have been written at the write pointer of zone \<open>p\<close>.\<close>

definition appended :: "nat \<Rightarrow> bytes \<Rightarrow> nat \<Rightarrow> 'm ZonedBlockDevice_scheme \<Rightarrow> 'm ZonedBlockDevice_scheme \<Rightarrow> bool" where
  "appended p data k d d' \<longleftrightarrow>
     (\<exists>n disk. d' = on_zone p (\<lambda>z. z\<lparr>wp := wp z + k, capacity := capacity z - k\<rparr>) (d\<lparr>calls := n, the_disk := disk\<rparr>) \<and> calls d \<le> n \<and>
        (\<forall>i<k. disk (wp (zones d p) + i) = data ! i) \<and>
        (\<forall>a. a < wp (zones d p) \<or> wp (zones d p) + length data \<le> a \<longrightarrow> disk a = the_disk d a))"

lemma append_loop_ok:
  assumes E: "pwrite_contract E"
  shows "length ptr < 2 ^ 32 \<Longrightarrow> length ptr \<le> capacity (zones d p) \<Longrightarrow> wp (zones d p) + capacity (zones d p) < 2 ^ 64 \<Longrightarrow>
    \<exists>s k d'. append_loop E p ptr (length ptr) d = Some (s, d') \<and> k \<le> length ptr \<and>
      (s = OK \<and> k = length ptr \<or> s = IOError) \<and> appended p ptr k d d'"
proof (induction "length ptr" arbitrary: ptr d rule: less_induct)
  case less
  show ?case
  proof (cases "ptr = []")
    case True
    have "appended p ptr 0 d d"
      unfolding appended_def using True by (intro exI[of _ "calls d"] exI[of _ "the_disk d"]) (simp add: on_zone_id)
    then show ?thesis using True by (simp add: append_loop.simps)
  next
    case ne: False
    obtain r disk where pw: "pwrite E (calls d) ptr (wp (zones d p)) (the_disk d) = (r, disk)" by fastforce
    have c: "r \<le> int (length ptr)" "r \<noteq> 0" "\<And>i. int i < r \<Longrightarrow> disk (wp (zones d p) + i) = ptr ! i"
      "\<And>a. a < wp (zones d p) \<or> wp (zones d p) + length ptr \<le> a \<Longrightarrow> disk a = the_disk d a"
      using E pw ne unfolding pwrite_contract_def by blast+
    let ?d1 = "tick (d\<lparr>the_disk := disk\<rparr>)"
    show ?thesis
    proof (cases "r < 0")
      case True
      have "appended p ptr 0 d ?d1"
        unfolding appended_def using c(4)
        by (intro exI[of _ "calls d + 1"] exI[of _ disk]) (simp add: tick_def on_zone_id)
      then show ?thesis using ne pw True by (intro exI[of _ IOError] exI[of _ 0] exI[of _ ?d1]) (subst append_loop.simps, simp add: Let_def)
    next
      case False
      define n where "n = nat r"
      have n: "0 < n" "n \<le> length ptr" using False c(1,2) by (auto simp: n_def)
      define d2 where "d2 = on_zone p (\<lambda>z. z\<lparr>wp := wp z + n, capacity := capacity z - n\<rparr>) ?d1"
      have wrap: "u64 (wp (zones d p) + n) = wp (zones d p) + n" "sub64 (capacity (zones d p)) n = capacity (zones d p) - n"
        "sub32 (length ptr) n = length (drop n ptr)"
        using n less.prems by (auto simp: widths mod_if)
      have step: "append_loop E p ptr (length ptr) d = append_loop E p (drop n ptr) (length (drop n ptr)) d2"
        using ne pw False wrap by (subst append_loop.simps) (simp add: Let_def n_def[symmetric] d2_def on_zone_def)
      have d2: "wp (zones d2 p) = wp (zones d p) + n" "capacity (zones d2 p) = capacity (zones d p) - n" "the_disk d2 = disk" "calls d2 = calls d + 1"
        by (simp_all add: d2_def)
      obtain s k d' where IH: "append_loop E p (drop n ptr) (length (drop n ptr)) d2 = Some (s, d')" "k \<le> length (drop n ptr)"
        "s = OK \<and> k = length (drop n ptr) \<or> s = IOError" "appended p (drop n ptr) k d2 d'"
      proof -
        have "length (drop n ptr) < length ptr" "length (drop n ptr) < 2 ^ 32" "length (drop n ptr) \<le> capacity (zones d2 p)"
          "wp (zones d2 p) + capacity (zones d2 p) < 2 ^ 64"
          using n less.prems d2 by auto
        then show ?thesis using less.hyps[of "drop n ptr" d2] that by blast
      qed
      obtain m disk' where d': "d' = on_zone p (\<lambda>z. z\<lparr>wp := wp z + k, capacity := capacity z - k\<rparr>) (d2\<lparr>calls := m, the_disk := disk'\<rparr>)"
        "calls d + 1 \<le> m" "\<And>i. i < k \<Longrightarrow> disk' (wp (zones d p) + n + i) = ptr ! (n + i)"
        "\<And>a. a < wp (zones d p) + n \<or> wp (zones d p) + length ptr \<le> a \<Longrightarrow> disk' a = disk a"
        using IH(4) n unfolding appended_def d2 by auto
      have "d' = on_zone p (\<lambda>z. z\<lparr>wp := wp z + (n + k), capacity := capacity z - (n + k)\<rparr>) (d\<lparr>calls := m, the_disk := disk'\<rparr>)"
        unfolding d'(1) d2_def by (simp add: on_zone_def tick_def add.assoc)
      moreover have "disk' (wp (zones d p) + i) = ptr ! i" if "i < n + k" for i
      proof (cases "i < n")
        case True
        then show ?thesis using d'(4)[of "wp (zones d p) + i"] c(3)[of i] False by (simp add: n_def)
      next
        case False
        then show ?thesis using d'(3)[of "i - n"] that by simp
      qed
      moreover have "disk' a = the_disk d a" if "a < wp (zones d p) \<or> wp (zones d p) + length ptr \<le> a" for a
        using that d'(4)[of a] c(4)[of a] by auto
      ultimately have "appended p ptr (n + k) d d'"
        unfolding appended_def using d'(2) by (intro exI[of _ m] exI[of _ disk']) simp
      then show ?thesis using IH step n by (intro exI[of _ s] exI[of _ "n + k"] exI[of _ d']) auto
    qed
  qed
qed

lemma Append_ok:
  assumes "pwrite_contract E" "length data < 2 ^ 32" "length data mod block_sz d = 0" "wp (zones d p) + capacity (zones d p) < 2 ^ 64"
  shows "\<exists>s k d'. Append E p data d = Some (s, d') \<and> k \<le> length data \<and> appended p data k d d' \<and>
    (if capacity (zones d p) < length data then s = NoSpace \<and> d' = d \<and> k = 0 else s = OK \<and> k = length data \<or> s = IOError)"
proof (cases "capacity (zones d p) < length data")
  case True
  have "appended p data 0 d d"
    unfolding appended_def by (intro exI[of _ "calls d"] exI[of _ "the_disk d"]) (simp add: on_zone_id)
  then show ?thesis using True by (simp add: Append_def)
next
  case False
  then obtain s k d' where "append_loop E p data (length data) d = Some (s, d')" "k \<le> length data"
    "s = OK \<and> k = length data \<or> s = IOError" "appended p data k d d'"
    using append_loop_ok[OF assms(1), of data d p] assms by (auto simp: not_less)
  then show ?thesis using False assms(3) by (intro exI[of _ s] exI[of _ k] exI[of _ d']) (simp add: Append_def Let_def)
qed

end
