(* ===== verification/ZenFile.thy ===== *)
theory ZenFile
  imports ZenIo
begin

text \<open>
  Files of ZenFS (\<open>src/zenfs-2.0.0/fs/io_zenfs.h\<close>, \<open>io_zenfs.cc\<close>): a file is a list of extents in zones; it
  appends to the zone it holds and takes another one when that is full.

  The metadata writer is the parameter \<open>W\<close>: its \<open>Persist\<close> gets the file and the device and may change
  both. Buffers are lists of bytes; a write or read outside of one, and a \<open>memcpy\<close> of overlapping
  ranges, is undefined, hence \<open>None\<close>. The lock of readers against \<open>ReplaceExtentList\<close> is left out, there is
  one thread.
\<close>

section \<open>State\<close>

record ZoneExtent =
  e_start :: nat
  e_length :: nat
  e_zone :: nat

definition NO_EXTENT :: nat where
  "NO_EXTENT = 2 ^ 64 - 1"

definition SPARSE_HEADER_SIZE :: nat where
  "SPARSE_HEADER_SIZE = 8"

record ZoneFile =
  extents :: "ZoneExtent list"
  linkfiles :: "bytes list"
  active_zone :: "nat option"
  extent_start :: nat
  extent_filepos :: nat
  file_lifetime :: WriteLifeTimeHint
  io_type :: IOType
  file_size :: nat
  file_id :: nat
  nr_synced_extents :: nat
  open_for_wr :: bool
  m_time :: nat
  is_sparse :: bool
  is_deleted :: bool
  has_writer :: bool

type_synonym 'm writer = "ZoneFile \<Rightarrow> 'm ZonedBlockDevice_scheme \<Rightarrow> (IOStatus \<times> ZoneFile \<times> 'm ZonedBlockDevice_scheme) option"

definition new_ZoneFile :: "nat \<Rightarrow> ZoneFile" where
  "new_ZoneFile fid =
     \<lparr>extents = [], linkfiles = [], active_zone = None, extent_start = NO_EXTENT, extent_filepos = 0,
      file_lifetime = WLTH_NOT_SET, io_type = kUnknown, file_size = 0, file_id = fid, nr_synced_extents = 0,
      open_for_wr = False, m_time = 0, is_sparse = False, is_deleted = False, has_writer = False\<rparr>"

definition add_used :: "nat \<Rightarrow> nat \<Rightarrow> 'm ZonedBlockDevice_scheme \<Rightarrow> 'm ZonedBlockDevice_scheme" where
  "add_used p n d = on_zone p (\<lambda>z. z\<lparr>used_capacity := u64 (used_capacity z + n)\<rparr>) d"

section \<open>The held zone\<close>

definition PersistMetadata :: "'m writer \<Rightarrow> ZoneFile \<Rightarrow> 'm ZonedBlockDevice_scheme \<Rightarrow> (IOStatus \<times> ZoneFile \<times> 'm ZonedBlockDevice_scheme) option" where
  "PersistMetadata W f d = do { assert_c (has_writer f); W f d }"

definition ReleaseActiveZone :: "ZoneFile \<Rightarrow> 'm ZonedBlockDevice_scheme \<Rightarrow> (ZoneFile \<times> 'm ZonedBlockDevice_scheme) option" where
  "ReleaseActiveZone f d = do {
     p \<leftarrow> active_zone f;
     let (ok, d) = Release p d;
     assert_c ok;
     Some (f\<lparr>active_zone := None\<rparr>, d)
   }"

definition SetActiveZone :: "nat \<Rightarrow> ZoneFile \<Rightarrow> 'm ZonedBlockDevice_scheme \<Rightarrow> ZoneFile option" where
  "SetActiveZone p f d = do {
     assert_c (active_zone f = None);
     assert_c (busy (zones d p));
     Some (f\<lparr>active_zone := Some p\<rparr>)
   }"

definition CloseActiveZone :: "outside \<Rightarrow> ZoneFile \<Rightarrow> 'm ZonedBlockDevice_scheme \<Rightarrow> (IOStatus \<times> ZoneFile \<times> 'm ZonedBlockDevice_scheme) option" where
  "CloseActiveZone E f d =
     (case active_zone f of
        None \<Rightarrow> Some (OK, f, d)
      | Some p \<Rightarrow> do {
          let full = IsFull (zones d p);
          (s, d) \<leftarrow> Close E p d;
          (f, d) \<leftarrow> ReleaseActiveZone f d;
          if s \<noteq> OK then Some (s, f, d)
          else let d = PutOpenIOZoneToken d in Some (s, f, if full then PutActiveIOZoneToken d else d)
        })"

definition OpenWR :: "ZoneFile \<Rightarrow> ZoneFile" where
  "OpenWR f = f\<lparr>open_for_wr := True, has_writer := True\<rparr>"

definition CloseWR :: "outside \<Rightarrow> 'm writer \<Rightarrow> ZoneFile \<Rightarrow> 'm ZonedBlockDevice_scheme \<Rightarrow> (IOStatus \<times> ZoneFile \<times> 'm ZonedBlockDevice_scheme) option" where
  "CloseWR E W f d =
     (if open_for_wr f then do {
        (s, f, d) \<leftarrow> PersistMetadata W (f\<lparr>extent_start := NO_EXTENT\<rparr>) d;
        if s \<noteq> OK then Some (s, f, d) else CloseActiveZone E (f\<lparr>open_for_wr := False\<rparr>) d
      } else Some (OK, f, d))"

fun clear_extents :: "ZoneExtent list \<Rightarrow> 'm ZonedBlockDevice_scheme \<Rightarrow> 'm ZonedBlockDevice_scheme option" where
  "clear_extents [] d = Some d"
| "clear_extents (e # es) d = do {
     assert_c (used_capacity (zones d (e_zone e)) \<ge> e_length e);
     clear_extents es (on_zone (e_zone e) (\<lambda>z. z\<lparr>used_capacity := used_capacity z - e_length e\<rparr>) d)
   }"

definition ClearExtents :: "ZoneFile \<Rightarrow> 'm ZonedBlockDevice_scheme \<Rightarrow> (ZoneFile \<times> 'm ZonedBlockDevice_scheme) option" where
  "ClearExtents f d = do { d \<leftarrow> clear_extents (extents f) d; Some (f\<lparr>extents := []\<rparr>, d) }"

definition destroy_ZoneFile :: "outside \<Rightarrow> 'm writer \<Rightarrow> ZoneFile \<Rightarrow> 'm ZonedBlockDevice_scheme \<Rightarrow> 'm ZonedBlockDevice_scheme option" where
  "destroy_ZoneFile E W f d = do {
     (f, d) \<leftarrow> ClearExtents f d;
     (s, f, d) \<leftarrow> CloseWR E W f d;
     Some (if s \<noteq> OK then SetZoneDeferredStatus s d else d)
   }"

definition AllocateNewZone :: "outside \<Rightarrow> 'm writer \<Rightarrow> ZoneFile \<Rightarrow> 'm ZonedBlockDevice_scheme \<Rightarrow> (IOStatus \<times> ZoneFile \<times> 'm ZonedBlockDevice_scheme) option" where
  "AllocateNewZone E W f d = do {
     (s, zone, d) \<leftarrow> AllocateIOZone E (file_lifetime f) (io_type f) d;
     if s \<noteq> OK then Some (s, f, d)
     else case zone of
       None \<Rightarrow> Some (NoSpace, f, d)
     | Some p \<Rightarrow> do {
         f \<leftarrow> SetActiveZone p f d;
         PersistMetadata W (f\<lparr>extent_start := wp (zones d p), extent_filepos := file_size f\<rparr>) d
       }
   }"

section \<open>Reading\<close>

fun get_extent :: "ZoneExtent list \<Rightarrow> nat \<Rightarrow> (ZoneExtent \<times> nat) option" where
  "get_extent [] file_offset = None"
| "get_extent (e # es) file_offset =
     (if file_offset < e_length e then Some (e, u64 (e_start e + file_offset)) else get_extent es (file_offset - e_length e))"

definition GetExtent :: "ZoneFile \<Rightarrow> nat \<Rightarrow> (ZoneExtent \<times> nat) option" where
  "GetExtent f file_offset = get_extent (extents f) file_offset"

text \<open>The loop of \<open>PositionedRead\<close>; \<open>got\<close> are the bytes in the buffer, of which there are \<open>scratch_sz\<close>.
  A direct read is always aligned once \<open>bytes_to_align\<close> has been added, so it uses the direct descriptor.\<close>

partial_function (option) read_loop ::
  "outside \<Rightarrow> ZoneFile \<Rightarrow> nat \<Rightarrow> nat \<Rightarrow> bool \<Rightarrow> nat \<Rightarrow> bytes \<Rightarrow> nat \<Rightarrow> nat \<Rightarrow> 'm ZonedBlockDevice_scheme \<Rightarrow> (IOStatus \<times> bytes \<times> 'm ZonedBlockDevice_scheme) option" where
  "read_loop E f offset r_sz direct scratch_sz got r_off extent_end d =
     (if length got = r_sz then Some (OK, got, d)
      else
        let left = r_sz - length got;
            want = (if u64 (left + r_off) > extent_end then sub64 extent_end r_off else left);
            bytes_to_align = (if direct \<and> want mod block_sz d \<noteq> 0 then block_sz d - want mod block_sz d else 0);
            pread_sz = u64 (want + bytes_to_align)
        in if length got + pread_sz > scratch_sz then None
           else case pread E (calls d) (if direct then ReadDirectFD else ReadFD) pread_sz r_off (the_disk d) of (r, bs) \<Rightarrow>
             let again = interrupted E (calls d); d = tick d
             in if r \<le> 0 then
                  (if r = - 1 \<and> again then read_loop E f offset r_sz direct scratch_sz got r_off extent_end d
                   else if r < 0 then Some (IOError, [], d) else Some (OK, got, d))
                else
                  let n = (if nat r \<le> pread_sz - bytes_to_align then nat r else pread_sz - bytes_to_align);
                      got = got @ take n bs;
                      r_off = u64 (r_off + n)
                  in if length got \<noteq> r_sz \<and> r_off = extent_end then
                       (case GetExtent f (u64 (offset + length got)) of
                          None \<Rightarrow> Some (OK, got, d)
                        | Some (e, dev_offset) \<Rightarrow>
                            read_loop E f offset r_sz direct scratch_sz got (e_start e) (u64 (e_start e + e_length e)) d)
                     else read_loop E f offset r_sz direct scratch_sz got r_off extent_end d)"

definition PositionedRead ::
  "outside \<Rightarrow> ZoneFile \<Rightarrow> nat \<Rightarrow> nat \<Rightarrow> bool \<Rightarrow> nat \<Rightarrow> 'm ZonedBlockDevice_scheme \<Rightarrow> (IOStatus \<times> bytes \<times> 'm ZonedBlockDevice_scheme) option" where
  "PositionedRead E f offset n direct scratch_sz d =
     (if offset \<ge> file_size f then Some (OK, [], d)
      else case GetExtent f offset of
        None \<Rightarrow> Some (OK, [], d)
      | Some (e, r_off) \<Rightarrow>
          read_loop E f offset (if u64 (offset + n) > file_size f then file_size f - offset else n) direct scratch_sz [] r_off
            (u64 (e_start e + e_length e)) d)"

section \<open>Writing\<close>

definition PushExtent :: "ZoneFile \<Rightarrow> 'm ZonedBlockDevice_scheme \<Rightarrow> (ZoneFile \<times> 'm ZonedBlockDevice_scheme) option" where
  "PushExtent f d = do {
     assert_c (file_size f \<ge> extent_filepos f);
     case active_zone f of
       None \<Rightarrow> Some (f, d)
     | Some p \<Rightarrow>
         let len = file_size f - extent_filepos f
         in if len = 0 then Some (f, d)
            else do {
              assert_c (len \<le> sub64 (wp (zones d p)) (extent_start f));
              Some (f\<lparr>extents := extents f @ [\<lparr>e_start = extent_start f, e_length = len, e_zone = p\<rparr>],
                      extent_start := wp (zones d p), extent_filepos := file_size f\<rparr>,
                    add_used p len d)
            }
   }"

text \<open>\<open>memset\<close> and \<open>memcpy\<close> inside one buffer.\<close>

definition zero_fill :: "nat \<Rightarrow> nat \<Rightarrow> bytes \<Rightarrow> bytes option" where
  "zero_fill pos n buf =
     (if pos + n \<le> length buf then Some (take pos buf @ replicate n 0 @ drop (pos + n) buf) else None)"

definition copy_within :: "nat \<Rightarrow> nat \<Rightarrow> nat \<Rightarrow> bytes \<Rightarrow> bytes option" where
  "copy_within dst src n buf =
     (if src + n \<le> length buf \<and> dst + n \<le> src
      then Some (take dst buf @ take n (drop src buf) @ drop (dst + n) buf) else None)"

definition push_written :: "nat \<Rightarrow> nat \<Rightarrow> nat \<Rightarrow> ZoneFile \<Rightarrow> 'm ZonedBlockDevice_scheme \<Rightarrow> ZoneFile \<times> 'm ZonedBlockDevice_scheme" where
  "push_written p header len f d =
     (f\<lparr>extents := extents f @ [\<lparr>e_start = u64 (extent_start f + header), e_length = len, e_zone = p\<rparr>],
        extent_start := wp (zones d p), file_size := u64 (file_size f + len)\<rparr>,
      add_used p len d)"

partial_function (option) buffered_loop ::
  "outside \<Rightarrow> 'm writer \<Rightarrow> bytes \<Rightarrow> nat \<Rightarrow> ZoneFile \<Rightarrow> 'm ZonedBlockDevice_scheme \<Rightarrow> (IOStatus \<times> ZoneFile \<times> 'm ZonedBlockDevice_scheme) option" where
  "buffered_loop E W buffer left f d =
     (if left = 0 then Some (OK, f, d)
      else do {
        p \<leftarrow> active_zone f;
        let wr_size = (if left > capacity (zones d p) then u32 (capacity (zones d p)) else left);
        let align = wr_size mod block_sz d;
        let pad_sz = (if align \<noteq> 0 then block_sz d - align else 0);
        buffer \<leftarrow> (if pad_sz \<noteq> 0 then zero_fill wr_size pad_sz buffer else Some buffer);
        assert_c (wr_size + pad_sz \<le> length buffer);
        (s, d) \<leftarrow> Append E p (take (wr_size + pad_sz) buffer) d;
        if s \<noteq> OK then Some (s, f, d)
        else do {
          let (f, d) = push_written p 0 wr_size f d;
          let left = left - wr_size;
          if capacity (zones d p) = 0 then do {
            (s, f, d) \<leftarrow> CloseActiveZone E f d;
            if s \<noteq> OK then Some (s, f, d)
            else do {
              buffer \<leftarrow> (if left \<noteq> 0 then copy_within 0 wr_size left buffer else Some buffer);
              (s, f, d) \<leftarrow> AllocateNewZone E W f d;
              if s \<noteq> OK then Some (s, f, d) else buffered_loop E W buffer left f d
            }
          }
          else buffered_loop E W buffer left f d
        }
      })"

definition with_zone ::
  "outside \<Rightarrow> 'm writer \<Rightarrow> (ZoneFile \<Rightarrow> 'm ZonedBlockDevice_scheme \<Rightarrow> (IOStatus \<times> ZoneFile \<times> 'm ZonedBlockDevice_scheme) option) \<Rightarrow>
   ZoneFile \<Rightarrow> 'm ZonedBlockDevice_scheme \<Rightarrow> (IOStatus \<times> ZoneFile \<times> 'm ZonedBlockDevice_scheme) option" where
  "with_zone E W body f d =
     (if active_zone f = None then do {
        (s, f, d) \<leftarrow> AllocateNewZone E W f d;
        if s \<noteq> OK then Some (s, f, d) else body f d
      } else body f d)"

definition BufferedAppend ::
  "outside \<Rightarrow> 'm writer \<Rightarrow> bytes \<Rightarrow> nat \<Rightarrow> ZoneFile \<Rightarrow> 'm ZonedBlockDevice_scheme \<Rightarrow> (IOStatus \<times> ZoneFile \<times> 'm ZonedBlockDevice_scheme) option" where
  "BufferedAppend E W buffer data_size f d = with_zone E W (buffered_loop E W buffer data_size) f d"

partial_function (option) sparse_loop ::
  "outside \<Rightarrow> 'm writer \<Rightarrow> bytes \<Rightarrow> nat \<Rightarrow> ZoneFile \<Rightarrow> 'm ZonedBlockDevice_scheme \<Rightarrow> (IOStatus \<times> ZoneFile \<times> 'm ZonedBlockDevice_scheme) option" where
  "sparse_loop E W sparse_buffer left f d =
     (if left = 0 then Some (OK, f, d)
      else do {
        p \<leftarrow> active_zone f;
        let wr_size = (if u32 (left + SPARSE_HEADER_SIZE) > capacity (zones d p) then u32 (capacity (zones d p))
                       else u32 (left + SPARSE_HEADER_SIZE));
        let align = wr_size mod block_sz d;
        let pad_sz = (if align \<noteq> 0 then block_sz d - align else 0);
        sparse_buffer \<leftarrow> (if pad_sz \<noteq> 0 then zero_fill wr_size pad_sz sparse_buffer else Some sparse_buffer);
        let extent_length = sub32 wr_size SPARSE_HEADER_SIZE;
        assert_c (SPARSE_HEADER_SIZE \<le> length sparse_buffer);
        let sparse_buffer = EncodeFixed64 extent_length @ drop SPARSE_HEADER_SIZE sparse_buffer;
        assert_c (wr_size + pad_sz \<le> length sparse_buffer);
        (s, d) \<leftarrow> Append E p (take (wr_size + pad_sz) sparse_buffer) d;
        if s \<noteq> OK then Some (s, f, d)
        else do {
          let (f, d) = push_written p SPARSE_HEADER_SIZE extent_length f d;
          let left = sub32 left extent_length;
          if capacity (zones d p) = 0 then do {
            (s, f, d) \<leftarrow> CloseActiveZone E f d;
            if s \<noteq> OK then Some (s, f, d)
            else do {
              sparse_buffer \<leftarrow> (if left \<noteq> 0 then copy_within SPARSE_HEADER_SIZE wr_size left sparse_buffer else Some sparse_buffer);
              (s, f, d) \<leftarrow> AllocateNewZone E W f d;
              if s \<noteq> OK then Some (s, f, d) else sparse_loop E W sparse_buffer left f d
            }
          }
          else sparse_loop E W sparse_buffer left f d
        }
      })"

definition SparseAppend ::
  "outside \<Rightarrow> 'm writer \<Rightarrow> bytes \<Rightarrow> nat \<Rightarrow> ZoneFile \<Rightarrow> 'm ZonedBlockDevice_scheme \<Rightarrow> (IOStatus \<times> ZoneFile \<times> 'm ZonedBlockDevice_scheme) option" where
  "SparseAppend E W sparse_buffer data_size f d = with_zone E W (sparse_loop E W sparse_buffer data_size) f d"

partial_function (option) file_append_loop ::
  "outside \<Rightarrow> 'm writer \<Rightarrow> bytes \<Rightarrow> ZoneFile \<Rightarrow> 'm ZonedBlockDevice_scheme \<Rightarrow> (IOStatus \<times> ZoneFile \<times> 'm ZonedBlockDevice_scheme) option" where
  "file_append_loop E W data f d =
     (if data = [] then Some (OK, f, d)
      else do {
        p \<leftarrow> active_zone f;
        (s, f, d) \<leftarrow>
          (if capacity (zones d p) = 0 then do {
             (f, d) \<leftarrow> PushExtent f d;
             (s, f, d) \<leftarrow> CloseActiveZone E f d;
             if s \<noteq> OK then Some (s, f, d) else AllocateNewZone E W f d
           } else Some (OK, f, d));
        if s \<noteq> OK then Some (s, f, d)
        else do {
          p \<leftarrow> active_zone f;
          let wr_size = (if length data > capacity (zones d p) then u32 (capacity (zones d p)) else length data);
          (s, d) \<leftarrow> Append E p (take wr_size data) d;
          if s \<noteq> OK then Some (s, f, d)
          else file_append_loop E W (drop wr_size data) (f\<lparr>file_size := u64 (file_size f + wr_size)\<rparr>) d
        }
      })"

definition ZoneFile_Append ::
  "outside \<Rightarrow> 'm writer \<Rightarrow> bytes \<Rightarrow> ZoneFile \<Rightarrow> 'm ZonedBlockDevice_scheme \<Rightarrow> (IOStatus \<times> ZoneFile \<times> 'm ZonedBlockDevice_scheme) option" where
  "ZoneFile_Append E W data f d = with_zone E W (file_append_loop E W data) f d"

section \<open>Recovery\<close>

partial_function (option) recover_sparse_loop ::
  "outside \<Rightarrow> nat \<Rightarrow> nat \<Rightarrow> nat \<Rightarrow> ZoneFile \<Rightarrow> 'm ZonedBlockDevice_scheme \<Rightarrow> (IOStatus \<times> ZoneFile \<times> 'm ZonedBlockDevice_scheme) option" where
  "recover_sparse_loop E next_extent_start stop p f d =
     (if \<not> next_extent_start < stop then Some (OK, f, d)
      else case pread E (calls d) ReadFD (block_sz d) next_extent_start (the_disk d) of (ret, buffer) \<Rightarrow>
        let d = tick d
        in if ret \<noteq> int (block_sz d) then Some (IOError, f, d)
           else
             let extent_length = DecodeFixed64 buffer
             in if extent_length = 0 then Some (IOError, f, d)
                else
                  let d = add_used p extent_length d;
                      f = f\<lparr>extents := extents f @ [\<lparr>e_start = u64 (next_extent_start + SPARSE_HEADER_SIZE), e_length = extent_length, e_zone = p\<rparr>]\<rparr>;
                      total = u64 (extent_length + SPARSE_HEADER_SIZE);
                      extent_blocks = (if total mod block_sz d \<noteq> 0 then total div block_sz d + 1 else total div block_sz d)
                  in recover_sparse_loop E (u64 (next_extent_start + extent_blocks * block_sz d)) stop p f d)"

definition RecoverSparseExtents ::
  "outside \<Rightarrow> nat \<Rightarrow> nat \<Rightarrow> nat \<Rightarrow> ZoneFile \<Rightarrow> 'm ZonedBlockDevice_scheme \<Rightarrow> (IOStatus \<times> ZoneFile \<times> 'm ZonedBlockDevice_scheme) option" where
  "RecoverSparseExtents E first stop p f d = recover_sparse_loop E first stop p f d"

definition HasActiveExtent :: "ZoneFile \<Rightarrow> bool" where
  "HasActiveExtent f \<longleftrightarrow> extent_start f \<noteq> NO_EXTENT"

definition Recover :: "outside \<Rightarrow> ZoneFile \<Rightarrow> 'm ZonedBlockDevice_scheme \<Rightarrow> (IOStatus \<times> ZoneFile \<times> 'm ZonedBlockDevice_scheme) option" where
  "Recover E f d =
     (if \<not> HasActiveExtent f then Some (OK, f, d)
      else case GetIOZone (extent_start f) d of
        None \<Rightarrow> Some (IOError, f, d)
      | Some p \<Rightarrow>
          if wp (zones d p) < extent_start f then Some (IOError, f, d)
          else
            let to_recover = wp (zones d p) - extent_start f
            in if to_recover = 0 then Some (OK, f\<lparr>extent_start := NO_EXTENT\<rparr>, d)
               else do {
                 (s, f, d) \<leftarrow>
                   (if is_sparse f then RecoverSparseExtents E (extent_start f) (wp (zones d p)) p f d
                    else Some (OK, f\<lparr>extents := extents f @ [\<lparr>e_start = extent_start f, e_length = to_recover, e_zone = p\<rparr>]\<rparr>,
                               add_used p to_recover d));
                 if s \<noteq> OK then Some (s, f, d)
                 else Some (OK, f\<lparr>extent_start := NO_EXTENT, file_size := fold (\<lambda>e sz. u64 (sz + e_length e)) (extents f) 0\<rparr>, d)
               })"

section \<open>Links, extents, migration\<close>

definition ReplaceExtentList :: "ZoneExtent list \<Rightarrow> ZoneFile \<Rightarrow> ZoneFile option" where
  "ReplaceExtentList new_list f = do {
     assert_c (\<not> open_for_wr f \<and> length new_list > 0);
     assert_c (length new_list = length (extents f));
     Some (f\<lparr>extents := new_list\<rparr>)
   }"

definition AddLinkName :: "bytes \<Rightarrow> ZoneFile \<Rightarrow> ZoneFile" where
  "AddLinkName linkf f = f\<lparr>linkfiles := linkfiles f @ [linkf]\<rparr>"

definition RenameLink :: "bytes \<Rightarrow> bytes \<Rightarrow> ZoneFile \<Rightarrow> IOStatus \<times> ZoneFile" where
  "RenameLink src dest f =
     (if src \<in> set (linkfiles f) then (OK, f\<lparr>linkfiles := remove1 src (linkfiles f) @ [dest]\<rparr>) else (IOError, f))"

definition RemoveLinkName :: "bytes \<Rightarrow> ZoneFile \<Rightarrow> (IOStatus \<times> ZoneFile) option" where
  "RemoveLinkName linkf f = do {
     assert_c (linkfiles f \<noteq> []);
     if linkf \<in> set (linkfiles f) then Some (OK, f\<lparr>linkfiles := remove1 linkf (linkfiles f)\<rparr>) else Some (IOError, f)
   }"

partial_function (option) migrate_loop ::
  "outside \<Rightarrow> nat \<Rightarrow> nat \<Rightarrow> nat \<Rightarrow> nat \<Rightarrow> 'm ZonedBlockDevice_scheme \<Rightarrow> (IOStatus \<times> 'm ZonedBlockDevice_scheme) option" where
  "migrate_loop E offset len read_sz target d =
     (if \<not> len > 0 then Some (OK, d)
      else do {
        let read_sz = (if len > read_sz then read_sz else len);
        let pad_sz = (if read_sz mod block_sz d = 0 then 0 else block_sz d - read_sz mod block_sz d);
        (r, buf, d) \<leftarrow> DirectRead E offset (read_sz + pad_sz) d;
        if r < 0 then Some (IOError, d)
        else do {
          (s, d) \<leftarrow> Append E target buf d;
          migrate_loop E (u64 (offset + nat r)) (len - read_sz) read_sz target d
        }
      })"

definition MigrateData :: "outside \<Rightarrow> nat \<Rightarrow> nat \<Rightarrow> nat \<Rightarrow> 'm ZonedBlockDevice_scheme \<Rightarrow> (IOStatus \<times> 'm ZonedBlockDevice_scheme) option" where
  "MigrateData E offset len target d = do {
     assert_c (offset mod block_sz d = 0);
     migrate_loop E offset len (128 * 1024) target d
   }"

section \<open>Files open for writing\<close>

record ZonedWritableFile =
  buffered :: bool
  w_buffer :: bytes
  buffer_sz :: nat
  buffer_pos :: nat
  w_wp :: nat
  w_file :: ZoneFile

text \<open>For a sparse file the buffer starts with the room for the header; data goes behind it.\<close>

definition header_room :: "ZoneFile \<Rightarrow> nat" where
  "header_room f = (if is_sparse f then SPARSE_HEADER_SIZE else 0)"

definition new_ZonedWritableFile :: "bool \<Rightarrow> ZoneFile \<Rightarrow> 'm ZonedBlockDevice_scheme \<Rightarrow> ZonedWritableFile" where
  "new_ZonedWritableFile bufd f d =
     \<lparr>buffered = bufd,
      w_buffer = (if \<not> bufd then [] else if is_sparse f then replicate (1024 * 1024 + block_sz d) 0 else replicate (1024 * 1024) 0),
      buffer_sz = (if is_sparse f then 1024 * 1024 - SPARSE_HEADER_SIZE else 1024 * 1024),
      buffer_pos = 0, w_wp = file_size f, w_file = OpenWR f\<rparr>"

definition FlushBuffer :: "outside \<Rightarrow> 'm writer \<Rightarrow> ZonedWritableFile \<Rightarrow> 'm ZonedBlockDevice_scheme \<Rightarrow> (IOStatus \<times> ZonedWritableFile \<times> 'm ZonedBlockDevice_scheme) option" where
  "FlushBuffer E W w d =
     (if buffer_pos w = 0 then Some (OK, w, d)
      else do {
        (s, f, d) \<leftarrow> (if is_sparse (w_file w) then SparseAppend E W (w_buffer w) (buffer_pos w) (w_file w) d
                      else BufferedAppend E W (w_buffer w) (buffer_pos w) (w_file w) d);
        if s \<noteq> OK then Some (s, w\<lparr>w_file := f\<rparr>, d)
        else Some (OK, w\<lparr>w_file := f, w_wp := u64 (w_wp w + buffer_pos w), buffer_pos := 0\<rparr>, d)
      })"

partial_function (option) buffered_write_loop ::
  "outside \<Rightarrow> 'm writer \<Rightarrow> bytes \<Rightarrow> ZonedWritableFile \<Rightarrow> 'm ZonedBlockDevice_scheme \<Rightarrow> (IOStatus \<times> ZonedWritableFile \<times> 'm ZonedBlockDevice_scheme) option" where
  "buffered_write_loop E W data w d =
     (if data = [] then Some (OK, w, d)
      else do {
        let buffer_left = u32 (sub64 (buffer_sz w) (buffer_pos w));
        (s, w, d) \<leftarrow> (if buffer_left = 0 then FlushBuffer E W w d else Some (OK, w, d));
        if s \<noteq> OK then Some (s, w, d)
        else do {
          let buffer_left = (if buffer_left = 0 then u32 (buffer_sz w) else buffer_left);
          let to_buffer = (if length data > buffer_left then buffer_left else length data);
          let pos = header_room (w_file w) + buffer_pos w;
          assert_c (pos + to_buffer \<le> length (w_buffer w));
          buffered_write_loop E W (drop to_buffer data)
            (w\<lparr>w_buffer := take pos (w_buffer w) @ take to_buffer data @ drop (pos + to_buffer) (w_buffer w), buffer_pos := buffer_pos w + to_buffer\<rparr>) d
        }
      })"

definition BufferedWrite ::
  "outside \<Rightarrow> 'm writer \<Rightarrow> bytes \<Rightarrow> ZonedWritableFile \<Rightarrow> 'm ZonedBlockDevice_scheme \<Rightarrow> (IOStatus \<times> ZonedWritableFile \<times> 'm ZonedBlockDevice_scheme) option" where
  "BufferedWrite E W data w d = buffered_write_loop E W data w d"

definition ZonedWritableFile_Append ::
  "outside \<Rightarrow> 'm writer \<Rightarrow> bytes \<Rightarrow> ZonedWritableFile \<Rightarrow> 'm ZonedBlockDevice_scheme \<Rightarrow> (IOStatus \<times> ZonedWritableFile \<times> 'm ZonedBlockDevice_scheme) option" where
  "ZonedWritableFile_Append E W data w d =
     (if buffered w then BufferedWrite E W data w d
      else do {
        (s, f, d) \<leftarrow> ZoneFile_Append E W data (w_file w) d;
        Some (s, w\<lparr>w_file := f, w_wp := (if s = OK then u64 (w_wp w + length data) else w_wp w)\<rparr>, d)
      })"

definition PositionedAppend ::
  "outside \<Rightarrow> 'm writer \<Rightarrow> bytes \<Rightarrow> nat \<Rightarrow> ZonedWritableFile \<Rightarrow> 'm ZonedBlockDevice_scheme \<Rightarrow> (IOStatus \<times> ZonedWritableFile \<times> 'm ZonedBlockDevice_scheme) option" where
  "PositionedAppend E W data offset w d = do {
     assert_c (offset = w_wp w);
     ZonedWritableFile_Append E W data w d
   }"

definition Truncate :: "nat \<Rightarrow> ZonedWritableFile \<Rightarrow> IOStatus \<times> ZonedWritableFile" where
  "Truncate sz w = (OK, w\<lparr>w_file := (w_file w)\<lparr>file_size := sz\<rparr>\<rparr>)"

definition DataSync :: "outside \<Rightarrow> 'm writer \<Rightarrow> ZonedWritableFile \<Rightarrow> 'm ZonedBlockDevice_scheme \<Rightarrow> (IOStatus \<times> ZonedWritableFile \<times> 'm ZonedBlockDevice_scheme) option" where
  "DataSync E W w d =
     (if buffered w then do {
        (s, w, d) \<leftarrow> FlushBuffer E W w d;
        if s \<noteq> OK then Some (s, w, d)
        else if \<not> is_sparse (w_file w) then do {
          (s, f, d) \<leftarrow> PersistMetadata W (w_file w) d;
          Some (s, w\<lparr>w_file := f\<rparr>, d)
        } else Some (OK, w, d)
      } else do {
        (f, d) \<leftarrow> PushExtent (w_file w) d;
        Some (OK, w\<lparr>w_file := f\<rparr>, d)
      })"

definition Fsync :: "outside \<Rightarrow> 'm writer \<Rightarrow> ZonedWritableFile \<Rightarrow> 'm ZonedBlockDevice_scheme \<Rightarrow> (IOStatus \<times> ZonedWritableFile \<times> 'm ZonedBlockDevice_scheme) option" where
  "Fsync E W w d = do {
     (s, w, d) \<leftarrow> DataSync E W w d;
     if s \<noteq> OK then Some (s, w, d)
     else if buffered w \<and> \<not> is_sparse (w_file w) then Some (OK, w, d)
     else do {
       (s, f, d) \<leftarrow> PersistMetadata W (w_file w) d;
       Some (s, w\<lparr>w_file := f\<rparr>, d)
     }
   }"

definition RangeSync :: "outside \<Rightarrow> 'm writer \<Rightarrow> nat \<Rightarrow> nat \<Rightarrow> ZonedWritableFile \<Rightarrow> 'm ZonedBlockDevice_scheme \<Rightarrow> (IOStatus \<times> ZonedWritableFile \<times> 'm ZonedBlockDevice_scheme) option" where
  "RangeSync E W offset nbytes w d = (if w_wp w < u64 (offset + nbytes) then DataSync E W w d else Some (OK, w, d))"

definition CloseInternal :: "outside \<Rightarrow> 'm writer \<Rightarrow> ZonedWritableFile \<Rightarrow> 'm ZonedBlockDevice_scheme \<Rightarrow> (IOStatus \<times> ZonedWritableFile \<times> 'm ZonedBlockDevice_scheme) option" where
  "CloseInternal E W w d =
     (if \<not> open_for_wr (w_file w) then Some (OK, w, d)
      else do {
        (s, w, d) \<leftarrow> DataSync E W w d;
        if s \<noteq> OK then Some (s, w, d)
        else do {
          (s, f, d) \<leftarrow> CloseWR E W (w_file w) d;
          Some (s, w\<lparr>w_file := f\<rparr>, d)
        }
      })"

definition destroy_ZonedWritableFile :: "outside \<Rightarrow> 'm writer \<Rightarrow> ZonedWritableFile \<Rightarrow> 'm ZonedBlockDevice_scheme \<Rightarrow> (ZoneFile \<times> 'm ZonedBlockDevice_scheme) option" where
  "destroy_ZonedWritableFile E W w d = do {
     (s, w, d) \<leftarrow> CloseInternal E W w d;
     Some (w_file w, if s \<noteq> OK then SetZoneDeferredStatus s d else d)
   }"

section \<open>Files open for reading\<close>

record ZonedSequentialFile =
  rp :: nat
  use_direct :: bool
  r_file :: ZoneFile

definition ZonedSequentialFile_Read ::
  "outside \<Rightarrow> nat \<Rightarrow> nat \<Rightarrow> ZonedSequentialFile \<Rightarrow> 'm ZonedBlockDevice_scheme \<Rightarrow> (IOStatus \<times> bytes \<times> ZonedSequentialFile \<times> 'm ZonedBlockDevice_scheme) option" where
  "ZonedSequentialFile_Read E n scratch_sz q d = do {
     (s, result, d) \<leftarrow> PositionedRead E (r_file q) (rp q) n (use_direct q) scratch_sz d;
     Some (s, result, if s = OK then q\<lparr>rp := u64 (rp q + length result)\<rparr> else q, d)
   }"

definition Skip :: "nat \<Rightarrow> ZonedSequentialFile \<Rightarrow> IOStatus \<times> ZonedSequentialFile" where
  "Skip n q = (if u64 (rp q + n) \<ge> file_size (r_file q) then (InvalidArgument, q) else (OK, q\<lparr>rp := u64 (rp q + n)\<rparr>))"

end
