(* ===== verification/ZenData.thy ===== *)
theory ZenData
  imports ZenFile
begin

text \<open>
  The contents of a file as a list of bytes: what a read returns and what an append adds.
\<close>

section \<open>Contents\<close>

definition extent_bytes :: "disk \<Rightarrow> ZoneExtent \<Rightarrow> bytes" where
  "extent_bytes disk e = map disk [e_start e ..< e_start e + e_length e]"

definition contents :: "disk \<Rightarrow> ZoneExtent list \<Rightarrow> bytes" where
  "contents disk es = concat (map (extent_bytes disk) es)"

definition total_length :: "ZoneExtent list \<Rightarrow> nat" where
  "total_length es = sum_list (map e_length es)"

lemma length_extent_bytes [simp]: "length (extent_bytes disk e) = e_length e"
  by (simp add: extent_bytes_def)

lemma length_contents [simp]: "length (contents disk es) = total_length es"
  by (simp add: contents_def total_length_def length_concat comp_def)

lemma contents_simps [simp]:
  "contents disk [] = []" "contents disk (e # es) = extent_bytes disk e @ contents disk es"
  "contents disk (es @ es') = contents disk es @ contents disk es'"
  by (simp_all add: contents_def)

lemma total_length_simps [simp]:
  "total_length [] = 0" "total_length (e # es) = e_length e + total_length es"
  "total_length (es @ es') = total_length es + total_length es'"
  by (simp_all add: total_length_def)

section \<open>Reading\<close>

lemma get_extent_split:
  "get_extent es off = Some (e, r) \<Longrightarrow>
   \<exists>pre post. es = pre @ e # post \<and> total_length pre \<le> off \<and> off < total_length pre + e_length e \<and> r = u64 (e_start e + (off - total_length pre))"
proof (induction es off rule: get_extent.induct)
  case (1 off)
  then show ?case by simp
next
  case (2 x es off)
  show ?case
  proof (cases "off < e_length x")
    case True
    with 2 show ?thesis by (intro exI[of _ "[]"] exI[of _ es]) auto
  next
    case False
    with 2 obtain pre post where "es = pre @ e # post" "total_length pre \<le> off - e_length x"
      "off - e_length x < total_length pre + e_length e" "r = u64 (e_start e + (off - e_length x - total_length pre))" by auto
    with False show ?thesis by (intro exI[of _ "x # pre"] exI[of _ post]) auto
  qed
qed

lemma get_extent_None: "get_extent es off = None \<longleftrightarrow> total_length es \<le> off"
  by (induction es off rule: get_extent.induct) auto

text \<open>The bytes of an extent inside the contents.\<close>

lemma contents_slice:
  assumes "es = pre @ e # post" "total_length pre \<le> pos" "pos + n \<le> total_length pre + e_length e"
  shows "map disk [e_start e + (pos - total_length pre) ..< e_start e + (pos - total_length pre) + n] = take n (drop pos (contents disk es))"
proof -
  have "drop pos (contents disk es) = drop (pos - total_length pre) (extent_bytes disk e) @ contents disk post"
    using assms by simp
  then have "take n (drop pos (contents disk es)) = take n (drop (pos - total_length pre) (extent_bytes disk e))"
    using assms by simp
  then show ?thesis using assms by (simp add: extent_bytes_def drop_map take_map)
qed

definition extents_fit :: "nat \<Rightarrow> ZoneExtent list \<Rightarrow> bool" where
  "extents_fit n es \<longleftrightarrow> (\<forall>e \<in> set es. e_start e + e_length e + n < 2 ^ 64)"

text \<open>\<open>r_off\<close> and \<open>extent_end\<close> belong to the extent that holds position \<open>pos\<close> of the file.\<close>

definition reading_at :: "ZoneExtent list \<Rightarrow> nat \<Rightarrow> nat \<Rightarrow> nat \<Rightarrow> bool" where
  "reading_at es pos r_off extent_end \<longleftrightarrow>
     (\<exists>pre e post. es = pre @ e # post \<and> total_length pre \<le> pos \<and> pos < total_length pre + e_length e \<and>
        r_off = e_start e + (pos - total_length pre) \<and> extent_end = e_start e + e_length e)"

lemma reading_at_get_extent:
  assumes "get_extent es pos = Some (e, r)" "extents_fit n es"
  shows "reading_at es pos r (u64 (e_start e + e_length e))"
proof -
  obtain pre post where s: "es = pre @ e # post" "total_length pre \<le> pos" "pos < total_length pre + e_length e"
    "r = u64 (e_start e + (pos - total_length pre))" using get_extent_split[OF assms(1)] by blast
  then have "e_start e + e_length e < 2 ^ 64" using assms(2) by (simp add: extents_fit_def)
  with s show ?thesis
    unfolding reading_at_def by (intro exI[of _ pre] exI[of _ e] exI[of _ post]) auto
qed

text \<open>At the end of an extent, the next one is read from its start.\<close>

lemma get_extent_append: "get_extent (es @ es') (total_length es) = get_extent es' 0"
  by (induction es) auto

lemma get_extent_0: "get_extent es 0 = Some (e, r) \<Longrightarrow> r = u64 (e_start e)"
  by (induction es) (auto split: if_splits)

lemma get_extent_boundary:
  assumes "reading_at es pos r_off extent_end" "r_off + n = extent_end" "get_extent es (pos + n) = Some (e, r)" "extents_fit m es"
  shows "r = e_start e"
proof -
  obtain pre e0 post where s: "es = (pre @ [e0]) @ post" "total_length pre \<le> pos"
    "r_off = e_start e0 + (pos - total_length pre)" "extent_end = e_start e0 + e_length e0"
    using assms(1) by (auto simp: reading_at_def)
  then have "pos + n = total_length (pre @ [e0])" using assms(2) by simp
  then have "r = u64 (e_start e)" using assms(3) get_extent_append[of "pre @ [e0]" post] get_extent_0 s(1) by metis
  moreover have "e \<in> set es" using get_extent_split[OF assms(3)] by auto
  ultimately show ?thesis using assms(4) by (auto simp: extents_fit_def)
qed

lemma reading_at_step:
  assumes "reading_at es pos r_off extent_end"
  shows "r_off < extent_end" "extents_fit m es \<Longrightarrow> extent_end + m < 2 ^ 64" "pos < total_length es"
    "r_off + n \<le> extent_end \<Longrightarrow> map disk [r_off ..< r_off + n] = take n (drop pos (contents disk es))"
    "r_off + n < extent_end \<Longrightarrow> reading_at es (pos + n) (r_off + n) extent_end"
proof -
  obtain pre e post where s: "es = pre @ e # post" "total_length pre \<le> pos" "pos < total_length pre + e_length e"
    "r_off = e_start e + (pos - total_length pre)" "extent_end = e_start e + e_length e"
    using assms by (auto simp: reading_at_def)
  show "r_off < extent_end" "extents_fit m es \<Longrightarrow> extent_end + m < 2 ^ 64" "pos < total_length es"
    using s by (auto simp: extents_fit_def)
  show "map disk [r_off ..< r_off + n] = take n (drop pos (contents disk es))" if "r_off + n \<le> extent_end"
    using contents_slice[OF s(1,2), of n disk] s that by simp
  show "reading_at es (pos + n) (r_off + n) extent_end" if "r_off + n < extent_end"
    using s that unfolding reading_at_def by (intro exI[of _ pre] exI[of _ e] exI[of _ post]) auto
qed

lemma read_loop_ok:
  fixes d :: "'m ZonedBlockDevice_scheme"
  assumes E: "pread_contract E" and fit: "extents_fit r_sz (extents f)" and off: "offset + r_sz < 2 ^ 64"
    and scr: "r_sz \<le> scratch_sz" "scratch_sz < 2 ^ 64"
  defines "C \<equiv> drop offset (contents (the_disk d) (extents f))"
  shows "length got < r_sz \<Longrightarrow> got = take (length got) C \<Longrightarrow> reading_at (extents f) (offset + length got) r_off extent_end \<Longrightarrow>
    d1 = d\<lparr>calls := m\<rparr> \<Longrightarrow>
    \<exists>m'. read_loop E f offset r_sz False scratch_sz got r_off extent_end d1 = Some (OK, take r_sz C, d\<lparr>calls := m'\<rparr>)"
proof (induction "r_sz - length got" arbitrary: got r_off extent_end d1 m rule: less_induct)
  case less
  note at = less.prems(3)
  note st = reading_at_step[OF at]
  define want where "want = min (r_sz - length got) (extent_end - r_off)"
  have want: "0 < want" "want \<le> r_sz - length got" "r_off + want \<le> extent_end" using st(1) less.prems(1) by (auto simp: want_def)
  have ends: "extent_end + r_sz < 2 ^ 64" using st(2)[OF fit] .
  have w: "(if u64 (r_sz - length got + r_off) > extent_end then sub64 extent_end r_off else r_sz - length got) = want"
    using ends st(1) by (auto simp: want_def min_def)
  have psz: "u64 want = want" "length got + want \<le> scratch_sz" using want scr less.prems(1) by auto
  obtain r bs where pr: "pread E m ReadFD want r_off (the_disk d) = (r, bs)" by fastforce
  then have r: "0 < r" "r \<le> int want" "take (nat r) bs = map (the_disk d) [r_off ..< r_off + nat r]"
    using E want(1) unfolding pread_contract_def by blast+
  define n where "n = nat r"
  have n: "0 < n" "n \<le> want" "n \<le> nat r" using r want by (auto simp: n_def)
  have bs: "take n bs = take n (drop (length got) C)"
  proof -
    have "take n bs = take n (take (nat r) bs)" using n(3) by (simp add: min_def)
    also have "\<dots> = map (the_disk d) [r_off ..< r_off + n]" using n(3) by (simp add: r(3) take_map)
    also have "\<dots> = take n (drop (length got) C)" using st(4)[of n "the_disk d"] n want by (simp add: C_def add.commute)
    finally show ?thesis .
  qed
  define got' where "got' = got @ take n bs"
  have pos: "length got + n \<le> length C"
  proof -
    obtain pre e post where "extents f = pre @ e # post" "total_length pre \<le> offset + length got"
      "r_off = e_start e + (offset + length got - total_length pre)" "extent_end = e_start e + e_length e"
      using at by (auto simp: reading_at_def)
    then have "offset + length got + n \<le> total_length (extents f)" using n want by simp
    then show ?thesis by (simp add: C_def)
  qed
  have got': "got' = take (length got') C" "length got' = length got + n"
  proof -
    have "got' = take (length got + n) C" unfolding got'_def bs take_add using less.prems(2) by simp
    moreover from this show "length got' = length got + n" using pos by simp
    ultimately show "got' = take (length got') C" by simp
  qed
  have r_off': "u64 (r_off + n) = r_off + n" using n want ends by auto
  have step: "read_loop E f offset r_sz False scratch_sz got r_off extent_end d1 =
      (if length got' \<noteq> r_sz \<and> r_off + n = extent_end then
         (case GetExtent f (u64 (offset + length got')) of
            None \<Rightarrow> Some (OK, got', tick d1)
          | Some (e, dev_offset) \<Rightarrow>
              read_loop E f offset r_sz False scratch_sz got' (e_start e) (u64 (e_start e + e_length e)) (tick d1))
       else read_loop E f offset r_sz False scratch_sz got' (r_off + n) extent_end (tick d1))"
  proof -
    have nn: "(if nat r \<le> want then nat r else want) = n" using n(2) by (simp add: n_def)
    have d1: "block_sz d1 = block_sz d" "calls d1 = m" "the_disk d1 = the_disk d" using less.prems(4) by simp_all
    have ne: "(length got = r_sz) = False" "(scratch_sz < length got + want) = False" "(r \<le> 0) = False"
      using less.prems(1) psz(2) r(1) by auto
    show ?thesis
      unfolding read_loop.simps[of E f offset r_sz False scratch_sz got r_off extent_end d1] Let_def d1 w
      by (simp only: simp_thms if_False add_0_right diff_zero psz(1) pr ne nn prod.case got'_def[symmetric] r_off')
  qed
  have tick: "tick d1 = d\<lparr>calls := m + 1\<rparr>" using less.prems(4) by (simp add: tick_def)
  have le: "length got' \<le> r_sz" using got'(2) n want less.prems(1) by linarith
  have pos': "offset + length got + n = offset + length got'" using got'(2) by simp
  have next_ok: "\<exists>m'. read_loop E f offset r_sz False scratch_sz got' r' x (tick d1) = Some (OK, take r_sz C, d\<lparr>calls := m'\<rparr>)"
    if "length got' < r_sz" "reading_at (extents f) (offset + length got') r' x" for r' x
    using less.hyps[of got' r' x "tick d1" "m + 1"] that got' n tick by auto
  show ?case
  proof (cases "length got' = r_sz")
    case True
    then have "take r_sz C = got'" using got'(1) by simp
    then show ?thesis unfolding step using True tick by (subst read_loop.simps) auto
  next
    case False
    then have lt: "length got' < r_sz" using le by simp
    show ?thesis
    proof (cases "r_off + n = extent_end")
      case last: True
      have u: "u64 (offset + length got') = offset + length got'" using off lt by simp
      show ?thesis
      proof (cases "get_extent (extents f) (offset + length got')")
        case None
        then have "length C \<le> length got'" by (simp add: get_extent_None C_def)
        then have "take r_sz C = got'" using got'(1) lt by simp
        then show ?thesis unfolding step using None last False u tick by (auto simp: GetExtent_def)
      next
        case (Some a)
        obtain e r' where a: "a = (e, r')" by fastforce
        have "r' = e_start e" using get_extent_boundary[OF at last, of e r'] Some a fit pos' by simp
        then have "reading_at (extents f) (offset + length got') (e_start e) (u64 (e_start e + e_length e))"
          using reading_at_get_extent[OF _ fit] Some a by blast
        then show ?thesis unfolding step using next_ok[OF lt] Some a last False u by (simp add: GetExtent_def)
      qed
    next
      case inside: False
      then have "reading_at (extents f) (offset + length got') (r_off + n) extent_end" using st(5)[of n] n want pos' by simp
      then show ?thesis unfolding step using next_ok[OF lt] inside by simp
    qed
  qed
qed

lemma PositionedRead_ok:
  assumes "pread_contract E" "extents_fit n (extents f)" "offset + n < 2 ^ 64" "file_size f < 2 ^ 64"
    "n \<le> scratch_sz" "scratch_sz < 2 ^ 64"
  shows "\<exists>m. PositionedRead E f offset n False scratch_sz d =
     Some (OK, take (min n (file_size f - offset)) (drop offset (contents (the_disk d) (extents f))), d\<lparr>calls := m\<rparr>)"
proof -
  have none: "\<exists>m. Some (OK, [], d) = Some (OK, [] :: bytes, d\<lparr>calls := m\<rparr>)" by (intro exI[of _ "calls d"]) simp
  let ?r = "min n (file_size f - offset)"
  show ?thesis
  proof (cases "offset \<ge> file_size f \<or> total_length (extents f) \<le> offset")
    case True
    then have "PositionedRead E f offset n False scratch_sz d = Some (OK, [], d)"
      using get_extent_None[of "extents f" offset] by (cases "offset \<ge> file_size f") (simp_all add: PositionedRead_def GetExtent_def)
    moreover have "take ?r (drop offset (contents (the_disk d) (extents f))) = []" using True by auto
    ultimately show ?thesis using none by simp
  next
    case False
    then obtain e r_off where g: "get_extent (extents f) offset = Some (e, r_off)"
      using get_extent_None[of "extents f" offset] by (cases "get_extent (extents f) offset") auto
    have at: "reading_at (extents f) offset r_off (u64 (e_start e + e_length e))" using reading_at_get_extent[OF g assms(2)] .
    have r: "(if u64 (offset + n) > file_size f then file_size f - offset else n) = ?r" using assms(3) by auto
    have fit: "extents_fit ?r (extents f)" using assms(2) by (auto simp: extents_fit_def)
    have "\<exists>m. read_loop E f offset ?r False scratch_sz [] r_off (u64 (e_start e + e_length e)) d =
        Some (OK, take ?r (drop offset (contents (the_disk d) (extents f))), d\<lparr>calls := m\<rparr>)"
    proof (cases "?r = 0")
      case True
      then show ?thesis by (subst read_loop.simps) (auto intro!: exI[of _ "calls d"])
    next
      case pos: False
      have b: "offset + ?r < 2 ^ 64" using assms(3) by simp
      have scr: "?r \<le> scratch_sz" using assms(5) min.cobounded1[of n "file_size f - offset"] by linarith
      show ?thesis
        by (rule read_loop_ok[OF assms(1) fit b scr assms(6), where got = "[]" and m = "calls d"]) (use pos at in auto)
    qed
    then show ?thesis using False g r by (simp add: PositionedRead_def GetExtent_def)
  qed
qed

end
