(* ===== verification/ZenAppend.thy ===== *)
theory ZenAppend
  imports ZenData
begin

text \<open>
  What a buffered append does to the contents of its file, to the other files and to the tokens.
\<close>

section \<open>Layout of the zones\<close>

definition zone_fits :: "nat \<Rightarrow> Zone \<Rightarrow> bool" where
  "zone_fits zsz z \<longleftrightarrow> start z \<le> wp z \<and> wp z + capacity z \<le> start z + zsz \<and> start z + zsz < 2 ^ 64"

definition apart :: "nat \<Rightarrow> Zone \<Rightarrow> Zone \<Rightarrow> bool" where
  "apart zsz z z' \<longleftrightarrow> start z + zsz \<le> start z' \<or> start z' + zsz \<le> start z"

definition layout :: "'m ZonedBlockDevice_scheme \<Rightarrow> bool" where
  "layout d \<longleftrightarrow> 0 < block_sz d \<and>
     (\<forall>p \<in> set (io_zones d). zone_fits (zone_sz d) (zones d p)) \<and>
     (\<forall>p \<in> set (io_zones d). \<forall>q \<in> set (io_zones d). p \<noteq> q \<longrightarrow> apart (zone_sz d) (zones d p) (zones d q))"

text \<open>The room left in each zone is a number of blocks; a write that failed half-way can break this.\<close>

definition aligned :: "'m ZonedBlockDevice_scheme \<Rightarrow> bool" where
  "aligned d \<longleftrightarrow> (\<forall>p \<in> set (io_zones d). capacity (zones d p) mod block_sz d = 0)"

text \<open>An extent of data that has been written.\<close>

definition written :: "'m ZonedBlockDevice_scheme \<Rightarrow> ZoneExtent \<Rightarrow> bool" where
  "written d e \<longleftrightarrow> e_zone e \<in> set (io_zones d) \<and> start (zones d (e_zone e)) \<le> e_start e \<and>
     e_start e + e_length e \<le> wp (zones d (e_zone e))"

definition keeps :: "'m ZonedBlockDevice_scheme \<Rightarrow> 'm ZonedBlockDevice_scheme \<Rightarrow> bool" where
  "keeps d d' \<longleftrightarrow> (\<forall>e. written d e \<longrightarrow> written d' e \<and> extent_bytes (the_disk d') e = extent_bytes (the_disk d) e)"

lemma keeps_refl [simp]: "keeps d d"
  by (simp add: keeps_def)

lemma keeps_trans: "keeps d d1 \<Longrightarrow> keeps d1 d2 \<Longrightarrow> keeps d d2"
  by (simp add: keeps_def)

lemma keeps_contents:
  "keeps d d' \<Longrightarrow> \<forall>e \<in> set es. written d e \<Longrightarrow> contents (the_disk d') es = contents (the_disk d) es \<and> (\<forall>e \<in> set es. written d' e)"
  by (induction es) (auto simp: keeps_def)

text \<open>Steps that change neither the zones nor what is written in them.\<close>

definition in_io :: "'m ZonedBlockDevice_scheme \<Rightarrow> nat \<Rightarrow> bool" where
  "in_io d a \<longleftrightarrow> (\<exists>p \<in> set (io_zones d). start (zones d p) \<le> a \<and> a < start (zones d p) + zone_sz d)"

definition quiet :: "'m ZonedBlockDevice_scheme \<Rightarrow> 'm ZonedBlockDevice_scheme \<Rightarrow> bool" where
  "quiet d d' \<longleftrightarrow>
     io_zones d' = io_zones d \<and> zone_sz d' = zone_sz d \<and> block_sz d' = block_sz d \<and>
     open_io_zones d' = open_io_zones d \<and> active_io_zones d' = active_io_zones d \<and>
     max_nr_open_io_zones d' = max_nr_open_io_zones d \<and> max_nr_active_io_zones d' = max_nr_active_io_zones d \<and>
     (\<forall>p \<in> set (io_zones d). zones d' p = zones d p) \<and> (\<forall>a. in_io d a \<longrightarrow> the_disk d' a = the_disk d a)"

lemma written_in_io: "layout d \<Longrightarrow> written d e \<Longrightarrow> e_start e \<le> a \<Longrightarrow> a < e_start e + e_length e \<Longrightarrow> in_io d a"
  unfolding in_io_def written_def layout_def zone_fits_def by (intro bexI[of _ "e_zone e"]) force+

lemma extent_bytes_cong:
  "(\<And>a. e_start e \<le> a \<Longrightarrow> a < e_start e + e_length e \<Longrightarrow> disk' a = disk a) \<Longrightarrow> extent_bytes disk' e = extent_bytes disk e"
  by (simp add: extent_bytes_def)

lemma quiet_ok:
  assumes "quiet d d'" "layout d"
  shows "layout d'" "keeps d d'" "tokens H M eo ea d \<Longrightarrow> tokens H M eo ea d'" "limits_ok d \<Longrightarrow> limits_ok d'" "aligned d \<Longrightarrow> aligned d'"
proof -
  show "aligned d \<Longrightarrow> aligned d'" using assms by (simp add: quiet_def aligned_def)
  show "layout d'" using assms by (simp add: quiet_def layout_def)
  show "keeps d d'"
    unfolding keeps_def
  proof (intro allI impI conjI)
    fix e assume e: "written d e"
    then show "written d' e" using assms(1) by (simp add: written_def quiet_def)
    show "extent_bytes (the_disk d') e = extent_bytes (the_disk d) e"
      using written_in_io[OF assms(2) e] assms(1) by (intro extent_bytes_cong) (simp add: quiet_def)
  qed
  show "limits_ok d \<Longrightarrow> limits_ok d'" using assms(1) by (simp add: quiet_def limits_ok_def)
  have "active_set H d' = active_set H d" using assms(1) by (auto simp: quiet_def active_set_def)
  then show "tokens H M eo ea d \<Longrightarrow> tokens H M eo ea d'" using assms(1) by (simp add: quiet_def tokens_def zones_sane_def)
qed

lemma zone_settled_fits: "zone_settled zsz z z' \<Longrightarrow> zone_fits zsz z \<Longrightarrow> zone_fits zsz z' \<and> wp z \<le> wp z'"
  by (auto simp: zone_settled_def zone_fits_def)

lemma settled_ok:
  assumes "settled d d'" "layout d"
  shows "layout d'" "keeps d d'" "aligned d \<Longrightarrow> aligned d'"
proof -
  show "aligned d'" if "aligned d"
    unfolding aligned_def
  proof
    fix p assume "p \<in> set (io_zones d')"
    then have "zone_settled (zone_sz d) (zones d p) (zones d' p)" "capacity (zones d p) mod block_sz d' = 0"
      using assms(1) that by (simp_all add: settled_def aligned_def)
    then show "capacity (zones d' p) mod block_sz d' = 0" by (auto simp: zone_settled_def)
  qed
  have z: "zone_fits (zone_sz d) (zones d' p)" "wp (zones d p) \<le> wp (zones d' p)" "start (zones d' p) = start (zones d p)"
    if "p \<in> set (io_zones d)" for p
    using zone_settled_fits[of "zone_sz d" "zones d p" "zones d' p"] assms that
    by (auto simp: settled_def layout_def zone_settled_def)
  show "layout d'" using assms z unfolding layout_def settled_def apart_def by simp
  show "keeps d d'" using assms z unfolding keeps_def written_def settled_def by (auto intro: le_trans)
qed

section \<open>One write to the held zone\<close>

lemma appended_ok:
  assumes a: "appended p data k d d'" and k: "k \<le> length data" and fit: "length data \<le> capacity (zones d p)"
    and p: "p \<in> set (io_zones d)" and l: "layout d"
  shows "keeps d d'" "\<forall>i<k. the_disk d' (wp (zones d p) + i) = data ! i"
    "zones d' = (zones d)(p := (zones d p)\<lparr>wp := wp (zones d p) + k, capacity := capacity (zones d p) - k\<rparr>)"
    "io_zones d' = io_zones d" "zone_sz d' = zone_sz d" "block_sz d' = block_sz d" "open_io_zones d' = open_io_zones d"
    "active_io_zones d' = active_io_zones d" "max_nr_open_io_zones d' = max_nr_open_io_zones d"
    "max_nr_active_io_zones d' = max_nr_active_io_zones d"
proof -
  obtain n disk where d': "d' = on_zone p (\<lambda>z. z\<lparr>wp := wp z + k, capacity := capacity z - k\<rparr>) (d\<lparr>calls := n, the_disk := disk\<rparr>)"
    "\<forall>i<k. disk (wp (zones d p) + i) = data ! i"
    "\<And>a. a < wp (zones d p) \<or> wp (zones d p) + length data \<le> a \<Longrightarrow> disk a = the_disk d a"
    using a by (auto simp: appended_def)
  show f: "\<forall>i<k. the_disk d' (wp (zones d p) + i) = data ! i"
    "zones d' = (zones d)(p := (zones d p)\<lparr>wp := wp (zones d p) + k, capacity := capacity (zones d p) - k\<rparr>)"
    "io_zones d' = io_zones d" "zone_sz d' = zone_sz d" "block_sz d' = block_sz d" "open_io_zones d' = open_io_zones d"
    "active_io_zones d' = active_io_zones d" "max_nr_open_io_zones d' = max_nr_open_io_zones d"
    "max_nr_active_io_zones d' = max_nr_active_io_zones d"
    using d'(2) unfolding d'(1) by (simp_all add: on_zone_def)
  have disk: "the_disk d' = disk" unfolding d'(1) by simp
  have zp: "zone_fits (zone_sz d) (zones d p)" using l p by (simp add: layout_def)
  show "keeps d d'"
    unfolding keeps_def
  proof (intro allI impI conjI)
    fix e assume e: "written d e"
    then show "written d' e" by (auto simp: written_def f)
    show "extent_bytes (the_disk d') e = extent_bytes (the_disk d) e"
    proof (rule extent_bytes_cong)
      fix a assume a: "e_start e \<le> a" "a < e_start e + e_length e"
      have "a < wp (zones d p) \<or> wp (zones d p) + length data \<le> a"
      proof (cases "e_zone e = p")
        case True
        then show ?thesis using e a by (simp add: written_def)
      next
        case False
        let ?z = "zones d (e_zone e)"
        have q: "e_zone e \<in> set (io_zones d)" using e by (simp add: written_def)
        have "start ?z \<le> a" "a < start ?z + zone_sz d"
          using e a l q by (auto simp: written_def layout_def zone_fits_def intro: less_le_trans)
        moreover have "apart (zone_sz d) ?z (zones d p)" using l q p False by (simp add: layout_def)
        ultimately show ?thesis using zp fit by (auto simp: apart_def zone_fits_def)
      qed
      then show "the_disk d' a = the_disk d a" using d'(3) disk by simp
    qed
  qed
qed

section \<open>A file and the device\<close>

definition same_file :: "ZoneFile \<Rightarrow> ZoneFile \<Rightarrow> bool" where
  "same_file f f' \<longleftrightarrow> (\<exists>n t. f' = f\<lparr>nr_synced_extents := n, m_time := t\<rparr>)"

lemma same_file_fields:
  assumes "same_file f f'"
  shows "extents f' = extents f" "active_zone f' = active_zone f" "extent_start f' = extent_start f" "file_size f' = file_size f"
    "has_writer f' = has_writer f" "is_sparse f' = is_sparse f" "open_for_wr f' = open_for_wr f" "file_id f' = file_id f"
    "linkfiles f' = linkfiles f" "extent_filepos f' = extent_filepos f" "file_lifetime f' = file_lifetime f" "io_type f' = io_type f"
  using assms by (auto simp: same_file_def)

text \<open>\<open>H\<close> are the zones that other files hold.\<close>

definition file_inv :: "('m ZonedBlockDevice_scheme \<Rightarrow> bool) \<Rightarrow> nat set \<Rightarrow> nat set \<Rightarrow> ZoneFile \<Rightarrow> 'm ZonedBlockDevice_scheme \<Rightarrow> bool" where
  "file_inv I H M f d \<longleftrightarrow>
     I d \<and> layout d \<and> tokens_ok (H \<union> set_option (active_zone f)) M d \<and> H \<inter> set_option (active_zone f) = {} \<and>
     limits_ok d \<and> max_nr_open_io_zones d + card M \<le> max_nr_active_io_zones d \<and> has_writer f \<and>
     (\<forall>e \<in> set (extents f). written d e)"

definition at_wp :: "ZoneFile \<Rightarrow> 'm ZonedBlockDevice_scheme \<Rightarrow> bool" where
  "at_wp f d \<longleftrightarrow> (\<forall>p. active_zone f = Some p \<longrightarrow> extent_start f = wp (zones d p))"

lemma held_zone:
  assumes "file_inv I H M f d" "active_zone f = Some p"
  shows "p \<in> set (io_zones d)" "zone_fits (zone_sz d) (zones d p)" "busy (zones d p)" "tokens (insert p H) M 0 0 d"
  using assms by (auto simp: file_inv_def tokens_ok_def tokens_def layout_def)

text \<open>The padding makes the write a number of blocks that fits the zone.\<close>

lemma padded:
  fixes wr bsz cap :: nat
  assumes "0 < bsz" "wr \<le> cap" "cap mod bsz = 0"
  defines "pad \<equiv> (if wr mod bsz \<noteq> 0 then bsz - wr mod bsz else 0)"
  shows "(wr + pad) mod bsz = 0" "wr + pad \<le> cap"
proof -
  obtain c where c: "cap = bsz * c" using assms(3) by auto
  let ?q = "wr div bsz"
  have wr: "wr = bsz * ?q + wr mod bsz" by simp
  have total: "wr + pad = bsz * (if wr mod bsz \<noteq> 0 then ?q + 1 else ?q)"
  proof (cases "wr mod bsz = 0")
    case True
    then show ?thesis using wr by (simp add: pad_def)
  next
    case False
    have "wr mod bsz < bsz" using assms(1) by simp
    then have "wr + (bsz - wr mod bsz) = bsz * ?q + bsz" using wr by linarith
    then show ?thesis using False by (simp add: pad_def)
  qed
  then show "(wr + pad) mod bsz = 0" by simp
  show "wr + pad \<le> cap"
  proof (cases "wr mod bsz = 0")
    case True
    then show ?thesis using assms(2) by (simp add: pad_def)
  next
    case False
    then have "bsz * ?q < bsz * c" using assms(2) wr c by linarith
    then have "?q + 1 \<le> c" by simp
    then show ?thesis using total False c mult_le_mono2[of "?q + 1" c bsz] by simp
  qed
qed

definition round_size :: "nat \<Rightarrow> nat \<Rightarrow> nat" where
  "round_size left cap = (if left > cap then u32 cap else left)"

definition pad_size :: "nat \<Rightarrow> nat \<Rightarrow> nat" where
  "pad_size bsz wr = (if wr mod bsz \<noteq> 0 then bsz - wr mod bsz else 0)"

definition pad_buffer :: "nat \<Rightarrow> nat \<Rightarrow> bytes \<Rightarrow> bytes option" where
  "pad_buffer wr pad buf = (if pad \<noteq> 0 then zero_fill wr pad buf else Some buf)"

lemma pad_buffer_Some:
  assumes "pad_buffer wr pad buf = Some buf'" "wr \<le> length buf"
  shows "length buf' = length buf" "take wr buf' = take wr buf" "pad = 0 \<Longrightarrow> buf' = buf"
  using assms by (auto simp: pad_buffer_def zero_fill_def split: if_splits)

lemma CloseActiveZone_full_ok:
  assumes "busy (zones d p)" "active_zone f = Some p" "capacity (zones d p) = 0"
  shows "\<exists>f' d'. CloseActiveZone E f d = Some (OK, f', d')"
  using assms by (simp add: CloseActiveZone_def Close_def IsFull_def ReleaseActiveZone_def Release_def Let_def)

lemma Append_nothing: "Append E p [] d = Some (OK, d)"
  by (simp add: Append_def append_loop.simps)

definition grown :: "('m ZonedBlockDevice_scheme \<Rightarrow> bool) \<Rightarrow> nat set \<Rightarrow> nat set \<Rightarrow> ZoneFile \<Rightarrow> 'm ZonedBlockDevice_scheme \<Rightarrow> ZoneFile \<Rightarrow> 'm ZonedBlockDevice_scheme \<Rightarrow> bytes \<Rightarrow> bool" where
  "grown I H M f d f' d' added \<longleftrightarrow>
     file_inv I H M f' d' \<and> keeps d d' \<and>
     contents (the_disk d') (extents f') = contents (the_disk d) (extents f) @ added \<and> file_size f' = file_size f + length added"

lemma grown_trans: "grown I H M f d f1 d1 xs \<Longrightarrow> grown I H M f1 d1 f2 d2 ys \<Longrightarrow> grown I H M f d f2 d2 (xs @ ys)"
  by (auto simp: grown_def intro: keeps_trans)

lemma grown_same:
  "file_inv I H M f d \<Longrightarrow> file_inv I H M f' d' \<Longrightarrow> keeps d d' \<Longrightarrow> extents f' = extents f \<Longrightarrow> file_size f' = file_size f \<Longrightarrow> grown I H M f d f' d' []"
  using keeps_contents[of d d' "extents f"] by (simp add: grown_def file_inv_def)

definition append_pre :: "('m ZonedBlockDevice_scheme \<Rightarrow> bool) \<Rightarrow> outside \<Rightarrow> nat set \<Rightarrow> nat set \<Rightarrow> bytes \<Rightarrow> nat \<Rightarrow> ZoneFile \<Rightarrow> 'm ZonedBlockDevice_scheme \<Rightarrow> bool" where
  "append_pre I E H M buffer left f d \<longleftrightarrow>
     pwrite_contract E \<and> file_inv I H M f d \<and> aligned d \<and> at_wp f d \<and>
     left \<le> length buffer \<and> length buffer < 2 ^ 32 \<and> file_size f + left < 2 ^ 64"

definition append_post :: "('m ZonedBlockDevice_scheme \<Rightarrow> bool) \<Rightarrow> nat set \<Rightarrow> nat set \<Rightarrow> bytes \<Rightarrow> nat \<Rightarrow> ZoneFile \<Rightarrow> 'm ZonedBlockDevice_scheme \<Rightarrow> IOStatus \<times> ZoneFile \<times> 'm ZonedBlockDevice_scheme \<Rightarrow> bool" where
  "append_post I H M buffer left f d r \<longleftrightarrow>
     (case r of (s, f', d') \<Rightarrow>
        (\<exists>k \<le> left. grown I H M f d f' d' (take k buffer) \<and> (s = OK \<longrightarrow> k = left \<and> aligned d' \<and> at_wp f' d')))"

text \<open>Steps that touch only data zones.\<close>

definition io_step :: "'m ZonedBlockDevice_scheme \<Rightarrow> 'm ZonedBlockDevice_scheme \<Rightarrow> bool" where
  "io_step d d' \<longleftrightarrow>
     io_zones d' = io_zones d \<and> meta_zones d' = meta_zones d \<and> zone_sz d' = zone_sz d \<and> block_sz d' = block_sz d \<and>
     nr_zones d' = nr_zones d \<and> nr_objects d' = nr_objects d \<and> ZonedBlockDevice.more d' = ZonedBlockDevice.more d \<and>
     (\<forall>p. p \<notin> set (io_zones d) \<longrightarrow> zones d' p = zones d p) \<and> (\<forall>p. start (zones d' p) = start (zones d p)) \<and>
     (\<forall>a. \<not> in_io d a \<longrightarrow> the_disk d' a = the_disk d a)"

lemma settled_io_step: "settled d d' \<Longrightarrow> io_step d d'"
  by (simp add: settled_def io_step_def zone_settled_def)

lemma appended_io_step:
  assumes a: "appended p data k d d'" and p: "p \<in> set (io_zones d)" and fit: "length data \<le> capacity (zones d p)"
    and z: "zone_fits (zone_sz d) (zones d p)"
  shows "io_step d d'"
proof -
  obtain n disk where d': "d' = on_zone p (\<lambda>z. z\<lparr>wp := wp z + k, capacity := capacity z - k\<rparr>) (d\<lparr>calls := n, the_disk := disk\<rparr>)"
    "\<And>a. a < wp (zones d p) \<or> wp (zones d p) + length data \<le> a \<Longrightarrow> disk a = the_disk d a"
    using a by (auto simp: appended_def)
  have "in_io d a" if "wp (zones d p) \<le> a" "a < wp (zones d p) + length data" for a
    unfolding in_io_def using that fit z by (intro bexI[OF _ p]) (auto simp: zone_fits_def)
  then have "\<forall>a. \<not> in_io d a \<longrightarrow> disk a = the_disk d a" using d'(2) by (metis not_le)
  moreover have "start (zones d' q) = start (zones d q)" for q unfolding d'(1) by (cases "q = p") simp_all
  ultimately show ?thesis using p unfolding io_step_def d'(1) by (auto simp: on_zone_def)
qed

text \<open>
  What a file needs of the writer of its metadata: persisting touches neither the data zones nor the tokens,
  and changes of the file only which extents count as persisted. The writer has an invariant of its own,
  which steps on data zones do not affect.
\<close>

locale metadata_writer =
  fixes W :: "'m writer" and I :: "'m ZonedBlockDevice_scheme \<Rightarrow> bool"
  assumes persist: "I d \<Longrightarrow> layout d \<Longrightarrow> W f d = Some (s, f', d') \<Longrightarrow> quiet d d' \<and> same_file f f' \<and> I d'"
    and unaffected: "I d \<Longrightarrow> layout d \<Longrightarrow> io_step d d' \<Longrightarrow> I d'"
begin

lemma AllocateNewZone_returned:
  assumes i: "file_inv I H M f d" and none: "active_zone f = None"
    and a: "AllocateNewZone E W f d = Some (s, f', d')"
  shows "file_inv I H M f' d'" "keeps d d'" "extents f' = extents f" "file_size f' = file_size f" "at_wp f' d'" "s = OK \<Longrightarrow> active_zone f' \<noteq> None"
    "active_zone f' \<noteq> None \<Longrightarrow> extent_filepos f' = file_size f'" "is_sparse f' = is_sparse f" "aligned d \<Longrightarrow> aligned d'"
proof -
  have inv: "layout d" "tokens_ok H M d" "limits_ok d" "max_nr_open_io_zones d + card M \<le> max_nr_active_io_zones d" "has_writer f"
    "\<forall>e \<in> set (extents f). written d e" "I d" using i none by (simp_all add: file_inv_def)
  obtain s1 z d1 where al: "AllocateIOZone E (file_lifetime f) (io_type f) d = Some (s1, z, d1)"
    using a by (cases "AllocateIOZone E (file_lifetime f) (io_type f) d") (auto simp: AllocateNewZone_def)
  have ok: "allocated H M d s1 z d1" using AllocateIOZone_returned[OF inv(2,3,4) al] .
  then have k1: "layout d1" "keeps d d1" "limits_ok d1" "max_nr_open_io_zones d1 + card M \<le> max_nr_active_io_zones d1" "aligned d \<Longrightarrow> aligned d1"
    using settled_ok[of d d1] inv(1,4) by (auto simp: allocated_def settled_def)
  have w1: "\<forall>e \<in> set (extents f). written d1 e" using keeps_contents[OF k1(2) inv(6)] by blast
  have I1: "I d1" using ok unaffected[OF inv(7,1) settled_io_step] by (simp add: allocated_def)
  have "file_inv I H M f' d' \<and> keeps d d' \<and> extents f' = extents f \<and> file_size f' = file_size f \<and> at_wp f' d' \<and> (s = OK \<longrightarrow> active_zone f' \<noteq> None) \<and>
    (active_zone f' \<noteq> None \<longrightarrow> extent_filepos f' = file_size f') \<and> is_sparse f' = is_sparse f \<and> (aligned d \<longrightarrow> aligned d')"
  proof (cases "s1 = OK \<and> z \<noteq> None")
    case False
    then have r: "f' = f" "d' = d1" "s \<noteq> OK" using a al by (auto simp: AllocateNewZone_def split: if_splits)
    have "tokens_ok H M d1" using ok False by (auto simp: allocated_def split: option.splits)
    then show ?thesis using r none k1 w1 I1 inv(5) by (simp add: file_inv_def at_wp_def)
  next
    case True
    then obtain p where z: "z = Some p" by auto
    define f1 where "f1 = f\<lparr>active_zone := Some p, extent_start := wp (zones d1 p), extent_filepos := file_size f\<rparr>"
    have p: "p \<notin> H" "busy (zones d1 p)" "tokens_ok (insert p H) M d1" "p \<in> set (io_zones d1)"
      using ok z by (auto simp: allocated_def settled_def)
    have "PersistMetadata W f1 d1 = Some (s, f', d')"
      using a al True z none p(2) by (simp add: AllocateNewZone_def SetActiveZone_def f1_def)
    then have W': "quiet d1 d'" "same_file f1 f'" "I d'"
      using persist[OF I1 k1(1), of f1 s f' d'] by (auto simp: PersistMetadata_def bind_eq_Some_conv)
    note q = quiet_ok[OF W'(1) k1(1)]
    note sf = same_file_fields[OF W'(2), unfolded f1_def, simplified]
    have "\<forall>e \<in> set (extents f). written d' e" using keeps_contents[OF q(2) w1] by blast
    moreover have "tokens_ok (insert p H) M d'" using q(3) p(3) by (simp add: tokens_ok_def)
    moreover have "limits_ok d'" "max_nr_open_io_zones d' + card M \<le> max_nr_active_io_zones d'" using q(4) k1 W'(1) by (auto simp: quiet_def)
    moreover have "zones d' p = zones d1 p" using W'(1) p(4) by (simp add: quiet_def)
    ultimately show ?thesis using sf q(1) q(5) k1(5) W'(3) keeps_trans[OF k1(2) q(2)] inv(5) p(1) by (simp add: file_inv_def at_wp_def)
  qed
  then show "file_inv I H M f' d'" "keeps d d'" "extents f' = extents f" "file_size f' = file_size f" "at_wp f' d'" "s = OK \<Longrightarrow> active_zone f' \<noteq> None"
    "active_zone f' \<noteq> None \<Longrightarrow> extent_filepos f' = file_size f'" "is_sparse f' = is_sparse f" "aligned d \<Longrightarrow> aligned d'" by simp_all
qed

text \<open>Closing a full zone only gives the zone and the tokens back.\<close>

lemma CloseActiveZone_full:
  assumes i: "file_inv I H M f d" and p: "active_zone f = Some p" and full: "capacity (zones d p) = 0" and w: "\<not> IsEmpty (zones d p)"
  shows "\<exists>d'. CloseActiveZone E f d = Some (OK, f\<lparr>active_zone := None\<rparr>, d') \<and> file_inv I H M (f\<lparr>active_zone := None\<rparr>) d' \<and> keeps d d' \<and> (aligned d \<longrightarrow> aligned d')"
proof -
  let ?d1 = "on_zone p (\<lambda>z. z\<lparr>busy := False\<rparr>) d"
  let ?d = "PutActiveIOZoneToken (PutOpenIOZoneToken ?d1)"
  have t: "tokens (insert p H) M 0 0 d" "p \<notin> H" using i p by (simp_all add: file_inv_def tokens_ok_def)
  then have b: "busy (zones d p)" by (auto simp: tokens_def)
  have "tokens (insert p H - {p}) M 1 1 ?d1" using tokens_release[OF t(1) _ w] full by (simp add: IsFull_def)
  then have tok: "tokens_ok H M ?d" using t(2) by (simp add: tokens_ok_def tokens_Put)
  have fields: "io_zones ?d = io_zones d" "zone_sz ?d = zone_sz d" "block_sz ?d = block_sz d" "the_disk ?d = the_disk d"
    "zones ?d = zones ?d1" "open_io_zones ?d = open_io_zones d - 1" "active_io_zones ?d = active_io_zones d - 1"
    "max_nr_open_io_zones ?d = max_nr_open_io_zones d" "max_nr_active_io_zones ?d = max_nr_active_io_zones d"
    by (simp_all add: PutActiveIOZoneToken_def PutOpenIOZoneToken_def)
  have z: "start (zones ?d1 q) = start (zones d q)" "wp (zones ?d1 q) = wp (zones d q)" "capacity (zones ?d1 q) = capacity (zones d q)" for q
    by (cases "q = p"; simp)+
  have "layout ?d" using i unfolding file_inv_def layout_def fields by (simp add: zone_fits_def apart_def z)
  moreover have "keeps d ?d" unfolding keeps_def written_def fields by (simp add: z)
  moreover have "aligned d \<longrightarrow> aligned ?d" unfolding aligned_def fields by (simp add: z)
  moreover have "limits_ok ?d" using i unfolding file_inv_def limits_ok_def fields by simp
  moreover have "written ?d e \<longleftrightarrow> written d e" for e unfolding written_def fields by (simp add: z)
  moreover have "io_step d ?d"
    using held_zone(1)[OF i p] by (auto simp: io_step_def PutActiveIOZoneToken_def PutOpenIOZoneToken_def on_zone_def)
  then have "I ?d" using unaffected[of d] i unfolding file_inv_def by blast
  ultimately have "file_inv I H M (f\<lparr>active_zone := None\<rparr>) ?d" "keeps d ?d" "aligned d \<longrightarrow> aligned ?d" using i tok by (simp_all add: file_inv_def fields)
  moreover have "CloseActiveZone E f d = Some (OK, f\<lparr>active_zone := None\<rparr>, ?d)"
    using p b full by (simp add: CloseActiveZone_def Close_def IsFull_def ReleaseActiveZone_def Release_def)
  ultimately show ?thesis by blast
qed

subsection \<open>One round of an append\<close>

text \<open>Any change of the held zone that keeps it inside its range keeps the invariant.\<close>

lemma file_inv_held:
  assumes i: "file_inv I H M f d" and p: "active_zone f = Some p"
    and z: "\<And>q. q \<noteq> p \<Longrightarrow> zones d' q = zones d q" "busy (zones d' p)" "start (zones d' p) = start (zones d p)"
      "IsUsed (zones d' p) \<longrightarrow> \<not> IsEmpty (zones d' p)" "zone_fits (zone_sz d) (zones d' p)"
    and same: "io_zones d' = io_zones d" "zone_sz d' = zone_sz d" "block_sz d' = block_sz d" "open_io_zones d' = open_io_zones d"
      "active_io_zones d' = active_io_zones d" "max_nr_open_io_zones d' = max_nr_open_io_zones d"
      "max_nr_active_io_zones d' = max_nr_active_io_zones d"
    and f: "active_zone f' = Some p" "has_writer f'" "\<forall>e \<in> set (extents f'). written d' e" and io: "io_step d d'"
  shows "file_inv I H M f' d'"
proof -
  note h = held_zone[OF i p]
  have "tokens (insert p H) M 0 0 d'" using tokens_held[OF h(4), of p d'] z same by simp
  moreover have "start (zones d' q) = start (zones d q)" for q using z(1,3) by (cases "q = p") auto
  then have "layout d'" using i z(1,5) unfolding file_inv_def layout_def same apart_def by metis
  moreover have "limits_ok d'" using i by (simp add: file_inv_def limits_ok_def same)
  moreover have "I d'" using unaffected[OF _ _ io] i unfolding file_inv_def by blast
  ultimately show ?thesis using i p f by (simp add: file_inv_def tokens_ok_def same)
qed

lemma write_step:
  assumes i: "file_inv I H M f d" and p: "active_zone f = Some p" and E: "pwrite_contract E"
    and len: "length data \<le> capacity (zones d p)" "length data mod block_sz d = 0" "length data < 2 ^ 32" "0 < length data"
    and a: "Append E p data d = Some (s, d1)"
  shows "keeps d d1" "file_inv I H M f d1" "s \<in> {OK, IOError}"
    "s = OK \<Longrightarrow> zones d1 p = (zones d p)\<lparr>wp := wp (zones d p) + length data, capacity := capacity (zones d p) - length data\<rparr>"
    "s = OK \<Longrightarrow> map (the_disk d1) [wp (zones d p) ..< wp (zones d p) + length data] = data"
    "block_sz d1 = block_sz d" "s = OK \<Longrightarrow> aligned d \<Longrightarrow> aligned d1"
proof -
  note h = held_zone[OF i p]
  have "wp (zones d p) + capacity (zones d p) < 2 ^ 64" using h(2) by (simp add: zone_fits_def)
  then obtain k where k: "k \<le> length data" "appended p data k d d1" "s = OK \<and> k = length data \<or> s = IOError"
    using Append_ok[OF E len(3,2), of p] a len(1) by auto
  have l: "layout d" using i by (simp add: file_inv_def)
  note ao = appended_ok[OF k(2,1) len(1) h(1) l]
  show keep: "keeps d d1" by (rule ao(1))
  show "s \<in> {OK, IOError}" using k(3) by auto
  show "block_sz d1 = block_sz d" by (rule ao(6))
  show "s = OK \<Longrightarrow> zones d1 p = (zones d p)\<lparr>wp := wp (zones d p) + length data, capacity := capacity (zones d p) - length data\<rparr>"
    using ao(3) k(3) by auto
  show "map (the_disk d1) [wp (zones d p) ..< wp (zones d p) + length data] = data" if "s = OK"
    using ao(2) k(3) that by (intro nth_equalityI) auto
  have zp: "zones d1 p = (zones d p)\<lparr>wp := wp (zones d p) + k, capacity := capacity (zones d p) - k\<rparr>" using ao(3) by simp
  have "IsUsed (zones d1 p) \<longrightarrow> \<not> IsEmpty (zones d1 p)"
    using h(1,2,4) zp by (auto simp: tokens_def zones_sane_def IsUsed_def IsEmpty_def zone_fits_def)
  moreover have "zone_fits (zone_sz d) (zones d1 p)" using h(2) zp k(1) len(1) by (auto simp: zone_fits_def)
  moreover have "\<forall>e \<in> set (extents f). written d1 e" using keeps_contents[OF keep, of "extents f"] i by (simp add: file_inv_def)
  moreover have "has_writer f" using i by (simp add: file_inv_def)
  ultimately show "file_inv I H M f d1" 
    using file_inv_held[OF i p, of d1 f] appended_io_step[OF k(2) h(1) len(1) h(2)] ao(3-10) h(3) zp p by simp
  have "aligned d1" if "s = OK" "aligned d"
    unfolding aligned_def ao
  proof
    fix q assume "q \<in> set (io_zones d)"
    then have "block_sz d dvd capacity (zones d q)" "block_sz d dvd capacity (zones d p)" using that(2) h(1) by (auto simp: aligned_def mod_eq_0_iff_dvd)
    then show "capacity (((zones d)(p := (zones d p)\<lparr>wp := wp (zones d p) + k, capacity := capacity (zones d p) - k\<rparr>)) q) mod block_sz d = 0"
      using len(2) k(3) that(1) by (cases "q = p") (auto simp: mod_eq_0_iff_dvd)
  qed
  then show "s = OK \<Longrightarrow> aligned d \<Longrightarrow> aligned d1" .
qed

lemma push_step:
  assumes i: "file_inv I H M f d" and p: "active_zone f = Some p"
    and w: "start (zones d p) \<le> extent_start f" "wp (zones d p) = extent_start f + length data" "0 < length data"
    and data: "map (the_disk d) [extent_start f ..< extent_start f + length data] = data" and len: "header + len \<le> length data"
    and push: "push_written p header len f d = (f', d')"
  shows "file_inv I H M f' d'" "at_wp f' d'" "keeps d d'" "active_zone f' = Some p" "aligned d \<Longrightarrow> aligned d'"
    "contents (the_disk d') (extents f') = contents (the_disk d) (extents f) @ take len (drop header data)"
    "file_size f' = u64 (file_size f + len)" "capacity (zones d' p) = capacity (zones d p)" "\<not> IsEmpty (zones d' p)"
    "block_sz d' = block_sz d" "is_sparse f' = is_sparse f"
proof -
  note h = held_zone[OF i p]
  let ?e = "\<lparr>e_start = extent_start f + header, e_length = len, e_zone = p\<rparr>"
  have "extent_start f + header < 2 ^ 64" using h(2) w(2) len by (simp add: zone_fits_def)
  then have f': "f' = f\<lparr>extents := extents f @ [?e], extent_start := wp (zones d p), file_size := u64 (file_size f + len)\<rparr>"
    and d': "d' = on_zone p (\<lambda>z. z\<lparr>used_capacity := u64 (used_capacity z + len)\<rparr>) d"
    using push by (auto simp: push_written_def add_used_def)
  have z: "start (zones d' q) = start (zones d q)" "wp (zones d' q) = wp (zones d q)" "capacity (zones d' q) = capacity (zones d q)" for q
    unfolding d' by (cases "q = p"; simp)+
  have wr: "written d' e \<longleftrightarrow> written d e" for e unfolding written_def z by (simp add: d')
  show "at_wp f' d'" "active_zone f' = Some p" "file_size f' = u64 (file_size f + len)" "capacity (zones d' p) = capacity (zones d p)"
    "block_sz d' = block_sz d" "is_sparse f' = is_sparse f"
    using p by (simp_all add: f' at_wp_def z) (simp_all add: d')
  show "keeps d d'" unfolding keeps_def wr by (simp add: d')
  show "aligned d \<Longrightarrow> aligned d'" unfolding aligned_def z by (simp add: d')
  show ne: "\<not> IsEmpty (zones d' p)" unfolding IsEmpty_def z using w by linarith
  have e: "written d' ?e" unfolding wr using h(1) w len by (simp add: written_def)
  have "drop header data = map (the_disk d) [extent_start f + header ..< extent_start f + length data]"
    by (subst data[symmetric]) (simp add: drop_map)
  then have "take len (drop header data) = extent_bytes (the_disk d') ?e"
    using len by (simp add: take_map extent_bytes_def d')
  then show "contents (the_disk d') (extents f') = contents (the_disk d) (extents f) @ take len (drop header data)"
    by (simp add: f') (simp add: d')
  have io: "io_step d d'" using h(1) z(1) by (auto simp: io_step_def d' on_zone_def)
  have "\<forall>x \<in> set (extents f'). written d' x" using e i by (auto simp: f' wr file_inv_def)
  moreover have "zone_fits (zone_sz d) (zones d' p)" using h(2) by (simp add: zone_fits_def z)
  moreover have "has_writer f'" using i by (simp add: f' file_inv_def)
  ultimately show "file_inv I H M f' d'"
    using file_inv_held[OF i p, of d' f'] io ne h(3) p z by (simp add: f' d')
qed

text \<open>One round of \<open>BufferedAppend\<close>: the write and the new extent.\<close>

lemma buffered_round:
  assumes E: "pwrite_contract E" and i: "file_inv I H M f d" and al: "aligned d" and at: "at_wp f d" and p: "active_zone f = Some p"
    and left: "0 < left" "left \<le> length buffer" "length buffer < 2 ^ 32" "file_size f + left < 2 ^ 64"
    and cap: "capacity (zones d p) \<noteq> 0"
    and wr: "wr = round_size left (capacity (zones d p))" and pad: "pad = pad_size (block_sz d) wr"
    and b: "pad_buffer wr pad buffer = Some buffer1" and room: "wr + pad \<le> length buffer1"
    and a: "Append E p (take (wr + pad) buffer1) d = Some (s, d1)"
  shows "s \<noteq> OK \<Longrightarrow> grown I H M f d f d1 []"
    "s = OK \<Longrightarrow> push_written p 0 wr f d1 = (f2, d2) \<Longrightarrow>
       grown I H M f d f2 d2 (take wr buffer) \<and> aligned d2 \<and> at_wp f2 d2 \<and> active_zone f2 = Some p \<and> \<not> IsEmpty (zones d2 p) \<and>
       (capacity (zones d2 p) \<noteq> 0 \<longrightarrow> wr = left)"
    "0 < wr" "wr \<le> left" "wr < left \<Longrightarrow> buffer1 = buffer"
proof -
  note h = held_zone[OF i p]
  have cap_al: "capacity (zones d p) mod block_sz d = 0" using al h(1) by (simp add: aligned_def)
  have bsz: "0 < block_sz d" using i by (simp add: file_inv_def layout_def)
  have wr_min: "wr = min left (capacity (zones d p))" using left by (auto simp: wr round_size_def min_def)
  show wr0: "0 < wr" "wr \<le> left" using wr_min left cap by auto
  have wrc: "wr \<le> capacity (zones d p)" using wr_min by simp
  note pd = padded[OF bsz wrc cap_al, folded pad_size_def, folded pad]
  note b1 = pad_buffer_Some[OF b, OF le_trans[OF wr0(2) left(2)]]
  let ?data = "take (wr + pad) buffer1"
  have len: "length ?data = wr + pad" using room by simp
  have full: "pad = 0" "wr = capacity (zones d p)" if "wr < left" using that wr_min cap_al by (auto simp: pad pad_size_def min_def split: if_splits)
  show "wr < left \<Longrightarrow> buffer1 = buffer" using full b1 by simp
  have lim: "wr + pad < 2 ^ 32" using room b1(1) left(3) by simp
  note ws = write_step[OF i p E _ _ _ _ a, unfolded len, OF pd(2,1) lim]
  show "grown I H M f d f d1 []" if "s \<noteq> OK" using ws(1,2) wr0 grown_same[OF i] by simp
  show "grown I H M f d f2 d2 (take wr buffer) \<and> aligned d2 \<and> at_wp f2 d2 \<and> active_zone f2 = Some p \<and> \<not> IsEmpty (zones d2 p) \<and>
       (capacity (zones d2 p) \<noteq> 0 \<longrightarrow> wr = left)"
    if s: "s = OK" and push: "push_written p 0 wr f d1 = (f2, d2)"
  proof -
    have es: "extent_start f = wp (zones d p)" using at p by (simp add: at_wp_def)
    have z1: "zones d1 p = (zones d p)\<lparr>wp := wp (zones d p) + (wr + pad), capacity := capacity (zones d p) - (wr + pad)\<rparr>"
      using ws(4) s wr0 by simp
    have st: "start (zones d1 p) \<le> extent_start f" using h(2) z1 es by (simp add: zone_fits_def)
    have w1: "wp (zones d1 p) = extent_start f + length ?data" using z1 es len by simp
    have bytes: "map (the_disk d1) [extent_start f ..< extent_start f + length ?data] = ?data" using ws(5) s wr0 es len by simp
    have ne: "0 < length ?data" using len wr0 by simp
    have hl: "0 + wr \<le> length ?data" using len by simp
    note ps = push_step[OF _ p st w1 ne bytes hl push]
    have i1: "file_inv I H M f d1" using ws(2) wr0 by simp
    have "contents (the_disk d1) (extents f) = contents (the_disk d) (extents f)"
      using keeps_contents[of d d1 "extents f"] ws(1) wr0 i by (simp add: file_inv_def)
    moreover have "take wr (drop 0 ?data) = take wr buffer" using b1(2) by (simp add: min_def)
    ultimately have c: "contents (the_disk d2) (extents f2) = contents (the_disk d) (extents f) @ take wr buffer" using ps(6)[OF i1] by simp
    have "length (take wr buffer) = wr" using wr0 left(2) by simp
    moreover have "u64 (file_size f + wr) = file_size f + wr" using left(4) wr0(2) by simp
    ultimately have "grown I H M f d f2 d2 (take wr buffer)"
      using ps(1,3,7)[OF i1] c keeps_trans ws(1) wr0 by (auto simp: grown_def)
    moreover have "capacity (zones d2 p) \<noteq> 0 \<longrightarrow> wr = left"
      using ps(8)[OF i1] z1 full wr0(2) by (cases "wr = left") auto
    ultimately show ?thesis using ps(2,4,5,9)[OF i1] ws(7) s wr0 al by simp
  qed
qed

subsection \<open>The whole append\<close>

lemma buffered_loop_step:
  assumes IH: "\<And>buffer left f d r. loop E W buffer left f d = Some r \<Longrightarrow> append_pre I E H M buffer left f d \<Longrightarrow> append_post I H M buffer left f d r"
    and p: "active_zone f = Some p" and left: "left \<noteq> 0" and pre: "append_pre I E H M buffer left f d"
    and wr: "wr = round_size left (capacity (zones d p))" and pad: "pad = pad_size (block_sz d) wr"
    and body: "(do {
        buffer \<leftarrow> pad_buffer wr pad buffer;
        assert_c (wr + pad \<le> length buffer);
        (s, d) \<leftarrow> Append E p (take (wr + pad) buffer) d;
        if s \<noteq> OK then Some (s, f, d)
        else do {
          let (f, d) = push_written p 0 wr f d;
          let left = left - wr;
          if capacity (zones d p) = 0 then do {
            (s, f, d) \<leftarrow> CloseActiveZone E f d;
            if s \<noteq> OK then Some (s, f, d)
            else do {
              buffer \<leftarrow> (if left \<noteq> 0 then copy_within 0 wr left buffer else Some buffer);
              (s, f, d) \<leftarrow> AllocateNewZone E W f d;
              if s \<noteq> OK then Some (s, f, d) else loop E W buffer left f d
            }
          }
          else loop E W buffer left f d
        }
      }) = Some r" and cap: "capacity (zones d p) \<noteq> 0"
  shows "append_post I H M buffer left f d r"
proof -
  have pr: "pwrite_contract E" "file_inv I H M f d" "aligned d" "at_wp f d" "left \<le> length buffer"
    "length buffer < 2 ^ 32" "file_size f + left < 2 ^ 64" using pre by (simp_all add: append_pre_def)
  obtain buffer1 s d1 where b: "pad_buffer wr pad buffer = Some buffer1" "wr + pad \<le> length buffer1"
    "Append E p (take (wr + pad) buffer1) d = Some (s, d1)"
    using body by (auto simp: bind_eq_Some_conv)
  obtain f2 d2 where push: "push_written p 0 wr f d1 = (f2, d2)" by fastforce
  have l0: "0 < left" using left by simp
  note rnd = buffered_round[OF pr(1-4) p l0 pr(5-7) cap wr pad b]
  show ?thesis
  proof (cases "s = OK")
    case False
    then have "r = (s, f, d1)" using body b by simp
    then show ?thesis using rnd(1)[OF False] False by (auto simp: append_post_def intro!: exI[of _ 0])
  next
    case True
    then have g: "grown I H M f d f2 d2 (take wr buffer)" "aligned d2" "at_wp f2 d2" "active_zone f2 = Some p" "\<not> IsEmpty (zones d2 p)"
      "capacity (zones d2 p) \<noteq> 0 \<longrightarrow> wr = left" using rnd(2) push by blast+
    have fs2: "file_size f2 = file_size f + wr" using g(1) rnd(4) pr(5) by (simp add: grown_def)
    have i2: "file_inv I H M f2 d2" using g(1) by (simp add: grown_def)
    have go_on: "append_post I H M buffer left f d r"
      if "loop E W buffer2 (left - wr) f3 d3 = Some r" "grown I H M f2 d2 f3 d3 []" "aligned d3" "at_wp f3 d3"
        "left - wr \<le> length buffer2" "length buffer2 = length buffer" "take (left - wr) buffer2 = take (left - wr) (drop wr buffer)"
      for buffer2 f3 d3
    proof -
      have "file_size f3 + (left - wr) < 2 ^ 64" using that(2) fs2 pr(7) rnd(4) by (simp add: grown_def)
      then have "append_pre I E H M buffer2 (left - wr) f3 d3"
        using that pr by (simp add: append_pre_def grown_def)
      then have "append_post I H M buffer2 (left - wr) f3 d3 r" using IH[OF that(1)] by blast
      then obtain s' f' d' k where r: "r = (s', f', d')" "k \<le> left - wr" "grown I H M f3 d3 f' d' (take k buffer2)"
        "s' = OK \<longrightarrow> k = left - wr \<and> aligned d' \<and> at_wp f' d'" by (auto simp: append_post_def split: prod.splits)
      have "take k buffer2 = take k (take (left - wr) buffer2)" using r(2) by (simp add: min_def)
      also have "\<dots> = take k (drop wr buffer)" unfolding that(7) using r(2) by (simp add: min_def)
      finally have "grown I H M f d f' d' (take (wr + k) buffer)"
        using grown_trans[OF g(1) grown_trans[OF that(2) r(3)]] by (simp add: take_add)
      then show ?thesis using r rnd(4) by (auto simp: append_post_def intro!: exI[of _ "wr + k"])
    qed
    show ?thesis
    proof (cases "capacity (zones d2 p) = 0")
      case notfull: False
      then have "loop E W buffer1 (left - wr) f2 d2 = Some r" using body b True push by (simp add: Let_def)
      moreover have "length buffer1 = length buffer" using pad_buffer_Some[OF b(1)] rnd(4) pr(5) by simp
      ultimately show ?thesis using go_on[of buffer1 f2 d2] g notfull pr grown_same[OF i2 i2] by simp
    next
      case full: True
      obtain d3 where c: "CloseActiveZone E f2 d2 = Some (OK, f2\<lparr>active_zone := None\<rparr>, d3)" "file_inv I H M (f2\<lparr>active_zone := None\<rparr>) d3"
        "keeps d2 d3" "aligned d2 \<longrightarrow> aligned d3"
        using CloseActiveZone_full[OF i2 g(4) full g(5), of E] by blast
      obtain buffer2 s4 f4 d4 where al: "(if left - wr \<noteq> 0 then copy_within 0 wr (left - wr) buffer1 else Some buffer1) = Some buffer2"
        "AllocateNewZone E W (f2\<lparr>active_zone := None\<rparr>) d3 = Some (s4, f4, d4)"
        using body b True push full c(1) by (auto simp: Let_def bind_eq_Some_conv simp del: not_gr_zero)
      note an = AllocateNewZone_returned[OF c(2) _ al(2), simplified]
      have g4: "grown I H M f2 d2 f4 d4 []"
        using grown_same[OF i2 an(1)] keeps_trans[OF c(3) an(2)] an(3,4) by simp
      show ?thesis
      proof (cases "s4 = OK")
        case False
        then have "r = (s4, f4, d4)" using body b True push full c(1) al by (simp add: Let_def split: if_splits)
        then show ?thesis using False grown_trans[OF g(1) g4] rnd(4) by (auto simp: append_post_def intro!: exI[of _ wr])
      next
        case s4: True
        then have "loop E W buffer2 (left - wr) f4 d4 = Some r" using body b True push full c(1) al by (simp add: Let_def split: if_splits)
        moreover have "length buffer1 = length buffer" "wr < left \<Longrightarrow> buffer1 = buffer"
          using pad_buffer_Some[OF b(1)] rnd(4,5) pr(5) by simp_all
        ultimately show ?thesis
          using go_on[of buffer2 f4 d4] g4 an(5,9) c(4) g(2) al(1) pr(5) rnd(4) by (auto simp: copy_within_def split: if_splits)
      qed
    qed
  qed
qed

lemma buffered_loop_returned:
  assumes "buffered_loop E W buffer left f d = Some r" "append_pre I E H M buffer left f d"
  shows "append_post I H M buffer left f d r"
proof -
  have "W = W \<and> append_pre I E H M buffer left f d \<longrightarrow> append_post I H M buffer left f d r"
  proof (rule buffered_loop.raw_induct[OF _ assms(1), of "\<lambda>E W' buffer left f d r. W' = W \<and> append_pre I E H M buffer left f d \<longrightarrow> append_post I H M buffer left f d r"], goal_cases)
    case (1 loop E W' buffer left f d r)
    note IH = 1(1)
    show ?case
    proof
      assume pre': "W' = W \<and> append_pre I E H M buffer left f d"
      then have pre: "append_pre I E H M buffer left f d" by simp
      note body = 1(2)[unfolded conjunct1[OF pre']]
      from pre have i: "file_inv I H M f d" "aligned d" "at_wp f d" by (simp_all add: append_pre_def)
      show "append_post I H M buffer left f d r"
      proof (cases "left = 0")
        case True
        then have "r = (OK, f, d)" using body by simp
        then show ?thesis using True i grown_same[OF i(1) i(1)] by (simp add: append_post_def)
      next
        case left: False
        then obtain p where p: "active_zone f = Some p" using body by (cases "active_zone f") auto
        show ?thesis
        proof (cases "capacity (zones d p) = 0")
          case True
          obtain f2 d2 where push: "push_written p 0 0 f d = (f2, d2)" by fastforce
          have "busy (zones d2 p)" "active_zone f2 = Some p" "capacity (zones d2 p) = 0"
            using push p True held_zone(3)[OF i(1) p] by (auto simp: push_written_def add_used_def)
          then obtain f3 d3 where "CloseActiveZone E f2 d2 = Some (OK, f3, d3)" "capacity (zones d2 p) = 0"
            using CloseActiveZone_full_ok by blast
          then have "Some r = None"
            using body left p True push by (simp add: Append_nothing u32_def copy_within_def)
          then show ?thesis by simp
        next
          case False
          show ?thesis
          proof (rule buffered_loop_step[OF _ p left pre refl refl _ False, of loop r], goal_cases)
            case 1
            then show ?case using IH by blast
          next
            case 2
            show ?case using body unfolding if_not_P[OF left] p bind.bind_lunit Let_def round_size_def pad_size_def pad_buffer_def .
          qed
        qed
      qed
    qed
  qed
  with assms(2) show ?thesis by blast
qed

lemma BufferedAppend_returned:
  assumes "BufferedAppend E W buffer left f d = Some r" "append_pre I E H M buffer left f d"
  shows "append_post I H M buffer left f d r"
proof (cases "active_zone f")
  case (Some p)
  then show ?thesis using assms buffered_loop_returned by (simp add: BufferedAppend_def with_zone_def)
next
  case None
  have pr: "file_inv I H M f d" "aligned d" using assms(2) by (simp_all add: append_pre_def)
  obtain s f1 d1 where a: "AllocateNewZone E W f d = Some (s, f1, d1)"
    using assms(1) None by (cases "AllocateNewZone E W f d") (auto simp: BufferedAppend_def with_zone_def)
  note an = AllocateNewZone_returned[OF pr(1) None a]
  have g: "grown I H M f d f1 d1 []" using grown_same[OF pr(1) an(1,2,3,4)] .
  show ?thesis
  proof (cases "s = OK")
    case False
    then have "r = (s, f1, d1)" using assms(1) None a by (simp add: BufferedAppend_def with_zone_def)
    then show ?thesis using False g by (auto simp: append_post_def intro!: exI[of _ 0])
  next
    case True
    then have l: "buffered_loop E W buffer left f1 d1 = Some r" using assms(1) None a by (simp add: BufferedAppend_def with_zone_def)
    have "append_pre I E H M buffer left f1 d1" using assms(2) an by (simp add: append_pre_def)
    then have "append_post I H M buffer left f1 d1 r" using buffered_loop_returned[OF l] by blast
    then show ?thesis using grown_trans[OF g] by (fastforce simp: append_post_def split: prod.splits)
  qed
qed

text \<open>When the padded data leaves room in the zone, the append returns.\<close>

lemma BufferedAppend_returns:
  assumes pre: "append_pre I E H M buffer left f d" and p: "active_zone f = Some p" and left: "0 < left"
    and fits: "left + pad_size (block_sz d) left < capacity (zones d p)" "left + pad_size (block_sz d) left \<le> length buffer"
  shows "\<exists>r. BufferedAppend E W buffer left f d = Some r"
proof -
  have pr: "pwrite_contract E" "file_inv I H M f d" "aligned d" "at_wp f d" "left \<le> length buffer"
    "length buffer < 2 ^ 32" "file_size f + left < 2 ^ 64" using pre by (simp_all add: append_pre_def)
  note h = held_zone[OF pr(2) p]
  let ?pad = "pad_size (block_sz d) left"
  have cap: "capacity (zones d p) \<noteq> 0" "\<not> left > capacity (zones d p)" using fits by auto
  have bsz: "0 < block_sz d" using pr(2) by (simp add: file_inv_def layout_def)
  have al: "capacity (zones d p) mod block_sz d = 0" using pr(3) h(1) by (simp add: aligned_def)
  note pd = padded[OF bsz _ al, of left, folded pad_size_def]
  obtain buffer1 where b: "pad_buffer left ?pad buffer = Some buffer1"
    using fits(2) by (cases "?pad = 0") (simp_all add: pad_buffer_def zero_fill_def)
  have len: "length buffer1 = length buffer" using pad_buffer_Some[OF b pr(5)] by simp
  let ?data = "take (left + ?pad) buffer1"
  have dl: "length ?data = left + ?pad" using fits(2) len by simp
  have wpc: "wp (zones d p) + capacity (zones d p) < 2 ^ 64" using h(2) by (simp add: zone_fits_def)
  obtain s k d1 where a: "Append E p ?data d = Some (s, d1)" "appended p ?data k d d1" "k \<le> length ?data" "s = OK \<and> k = length ?data \<or> s = IOError"
    using Append_ok[OF pr(1) _ _ wpc, of ?data] dl pd cap fits pr(6) by auto
  have unf: "BufferedAppend E W buffer left f d = (do {
        buffer \<leftarrow> pad_buffer left ?pad buffer;
        assert_c (left + ?pad \<le> length buffer);
        (s, d) \<leftarrow> Append E p (take (left + ?pad) buffer) d;
        if s \<noteq> OK then Some (s, f, d)
        else do {
          let (f, d) = push_written p 0 left f d;
          if capacity (zones d p) = 0 then do {
            (s, f, d) \<leftarrow> CloseActiveZone E f d;
            if s \<noteq> OK then Some (s, f, d)
            else do {
              (s, f, d) \<leftarrow> AllocateNewZone E W f d;
              if s \<noteq> OK then Some (s, f, d) else buffered_loop E W buffer 0 f d
            }
          }
          else buffered_loop E W buffer 0 f d
        }
      })"
    using p left cap(2) unfolding BufferedAppend_def with_zone_def
    by (simp add: buffered_loop.simps[of E W buffer left] pad_size_def pad_buffer_def Let_def cong del: if_weak_cong)
  show ?thesis
  proof (cases "s = OK")
    case False
    then show ?thesis using unf b len fits(2) a(1) by simp
  next
    case True
    then have "capacity (zones d1 p) = capacity (zones d p) - (left + ?pad)" using a(2,4) dl by (auto simp: appended_def)
    then have "capacity (zones (add_used p left d1) p) \<noteq> 0" using fits(1) by (simp add: add_used_def)
    then show ?thesis using unf b len fits(2) a(1) True by (simp add: push_written_def buffered_loop.simps[of E W _ 0])
  qed
qed

end

end
