(* ===== verification/ZenPath.thy ===== *)
theory ZenPath
  imports Coding
begin

text \<open>
  The paths of \<open>std::filesystem\<close> as far as ZenFS uses them (\<open>src/zenfs-2.0.0/fs/fs_zenfs.cc\<close>), on POSIX:
  strings of bytes with the slash as separator and no root names, and the names ZenFS makes of them.
\<close>

section \<open>Names and separators\<close>

definition slash :: nat where "slash = 47"
definition dot :: nat where "dot = 46"

fun split_slash :: "bytes \<Rightarrow> bytes list" where
  "split_slash [] = [[]]"
| "split_slash (c # cs) =
     (if c = slash then [] # split_slash cs
      else case split_slash cs of [] \<Rightarrow> [[c]] | x # xs \<Rightarrow> (c # x) # xs)"

definition names_of :: "bytes \<Rightarrow> bytes list" where
  "names_of p = filter (\<lambda>x. x \<noteq> []) (split_slash p)"

fun join_names :: "bytes list \<Rightarrow> bytes" where
  "join_names [] = []"
| "join_names [x] = x"
| "join_names (x # y # ys) = x @ slash # join_names (y # ys)"

definition is_absolute :: "bytes \<Rightarrow> bool" where
  "is_absolute p \<longleftrightarrow> take 1 p = [slash]"

definition ends_in_slash :: "bytes \<Rightarrow> bool" where
  "ends_in_slash p \<longleftrightarrow> p \<noteq> [] \<and> last p = slash"

section \<open>Normal form\<close>

text \<open>The names so far, the last one first.\<close>

definition normal_step :: "bool \<Rightarrow> bytes \<Rightarrow> bytes list \<Rightarrow> bytes list" where
  "normal_step absolute name st =
     (if name = [dot] then st
      else if name = [dot, dot] then
        (case st of
           [] \<Rightarrow> if absolute then [] else [name]
         | t # rest \<Rightarrow> if t = [dot, dot] then name # st else rest)
      else name # st)"

definition lexically_normal :: "bytes \<Rightarrow> bytes" where
  "lexically_normal p =
     (if p = [] then []
      else
        let names = names_of p;
            st = fold (normal_step (is_absolute p)) names [];
            body = join_names (rev st);
            trailing = (st \<noteq> [] \<and> hd st \<noteq> [dot, dot] \<and> (ends_in_slash p \<or> last names = [dot] \<or> last names = [dot, dot]));
            tail = (if trailing then [slash] else [])
        in if is_absolute p then slash # body @ tail else if st = [] then [dot] else body @ tail)"

text \<open>\<open>operator/\<close>: a separator is put in between unless the left side has no file name.\<close>

definition path_append :: "bytes \<Rightarrow> bytes \<Rightarrow> bytes" where
  "path_append p q = (if is_absolute q then q else if p = [] \<or> ends_in_slash p then p @ q else p @ slash # q)"

definition FormatPathLexically :: "bytes \<Rightarrow> bytes" where
  "FormatPathLexically filepath = path_append [slash] (lexically_normal filepath)"

definition parent_path :: "bytes \<Rightarrow> bytes" where
  "parent_path p =
     (let dir = rev (dropWhile (\<lambda>c. c \<noteq> slash) (rev p));
          stem = rev (dropWhile (\<lambda>c. c = slash) (rev dir))
      in if stem = [] \<and> dir \<noteq> [] then [slash] else stem)"

definition has_filename :: "bytes \<Rightarrow> bool" where
  "has_filename p \<longleftrightarrow> p \<noteq> [] \<and> \<not> ends_in_slash p"

definition path_as_string_with_separator_at_end :: "bytes \<Rightarrow> bytes" where
  "path_as_string_with_separator_at_end p = lexically_normal (path_append p [])"

definition starts_with :: "bytes \<Rightarrow> bytes \<Rightarrow> bool" where
  "starts_with s needle \<longleftrightarrow> take (length needle) s = needle"

definition ends_with :: "bytes \<Rightarrow> bytes \<Rightarrow> bool" where
  "ends_with value ending \<longleftrightarrow> length ending \<le> length value \<and> drop (length value - length ending) value = ending"

section \<open>Names are in normal form\<close>

text \<open>A name that the file table uses: formatting it again gives the same name.\<close>

definition canonical :: "bytes \<Rightarrow> bool" where
  "canonical p \<longleftrightarrow> FormatPathLexically p = p"

definition plain :: "bytes \<Rightarrow> bool" where
  "plain x \<longleftrightarrow> x \<noteq> [] \<and> slash \<notin> set x \<and> x \<noteq> [dot] \<and> x \<noteq> [dot, dot]"

lemma split_slash_nonempty [simp]: "split_slash p \<noteq> []"
  by (induction p) (auto split: list.splits)

lemma split_slash_no_slash: "x \<in> set (split_slash p) \<Longrightarrow> slash \<notin> set x"
  by (induction p arbitrary: x) (auto split: list.splits if_splits)

lemma split_slash_single: "slash \<notin> set x \<Longrightarrow> split_slash x = [x]"
  by (induction x) auto

lemma split_slash_append: "slash \<notin> set x \<Longrightarrow> split_slash (x @ slash # r) = x # split_slash r"
  by (induction x) auto

lemma names_of_join:
  assumes "\<forall>x \<in> set xs. plain x"
  shows "names_of (join_names xs) = xs" "xs \<noteq> [] \<Longrightarrow> names_of (join_names xs @ [slash]) = xs"
proof -
  have "names_of (join_names xs) = xs \<and> (xs \<noteq> [] \<longrightarrow> names_of (join_names xs @ [slash]) = xs)"
    using assms
  proof (induction xs rule: join_names.induct)
    case (2 x)
    then show ?case using split_slash_append[of x "[]"] by (simp add: plain_def names_of_def split_slash_single)
  next
    case (3 x y ys)
    then show ?case by (simp add: plain_def names_of_def split_slash_append)
  qed (simp add: names_of_def)
  then show "names_of (join_names xs) = xs" "xs \<noteq> [] \<Longrightarrow> names_of (join_names xs @ [slash]) = xs" by simp_all
qed

lemma names_of_slash: "names_of (slash # p) = names_of p"
  by (simp add: names_of_def)

lemma normal_absolute_plain:
  "\<forall>x \<in> set names. x \<noteq> [] \<and> slash \<notin> set x \<Longrightarrow> \<forall>x \<in> set st. plain x \<Longrightarrow> \<forall>x \<in> set (fold (normal_step True) names st). plain x"
proof (induction names arbitrary: st)
  case (Cons n names)
  have "n \<noteq> [dot] \<Longrightarrow> n \<noteq> [dot, dot] \<Longrightarrow> plain n" using Cons.prems(1) by (simp add: plain_def)
  then have "\<forall>x \<in> set (normal_step True n st). plain x"
    using Cons.prems(2) by (cases st) (auto simp: normal_step_def)
  then show ?case using Cons by simp
qed simp

lemma normal_plain: "\<forall>x \<in> set names. plain x \<Longrightarrow> fold (normal_step a) names st = rev names @ st"
  by (induction names arbitrary: st) (simp_all add: normal_step_def plain_def)

lemma join_names_ends: "\<forall>x \<in> set xs. plain x \<Longrightarrow> xs \<noteq> [] \<Longrightarrow> join_names xs \<noteq> [] \<and> last (join_names xs) \<noteq> slash"
proof (induction xs rule: join_names.induct)
  case (2 x)
  then show ?case by (metis join_names.simps(2) last_in_set list.set_intros(1) plain_def)
next
  case (3 x y ys)
  then show ?case by simp
qed simp

lemma normal_form_fixed:
  assumes "\<forall>x \<in> set xs. plain x" and p: "p = slash # join_names xs @ (if t \<and> xs \<noteq> [] then [slash] else [])"
  shows "lexically_normal p = p"
proof -
  have names: "names_of p = xs" using names_of_join[OF assms(1)] by (auto simp: p names_of_slash)
  have abs: "is_absolute p" by (simp add: p is_absolute_def)
  show ?thesis
  proof (cases "xs = []")
    case True
    then show ?thesis using names abs by (simp add: lexically_normal_def p)
  next
    case False
    have "ends_in_slash p \<longleftrightarrow> t" using join_names_ends[OF assms(1) False] False by (simp add: p ends_in_slash_def)
    moreover have "plain (last xs)" using assms(1) False by simp
    ultimately show ?thesis
      using False abs normal_plain[OF assms(1), of True "[]"] by (simp add: lexically_normal_def names plain_def hd_rev) (simp add: p)
  qed
qed

lemma FormatPathLexically_absolute: "is_absolute (FormatPathLexically p)"
  by (simp add: FormatPathLexically_def path_append_def is_absolute_def ends_in_slash_def)

lemma canonical_Format:
  assumes "is_absolute p"
  shows "canonical (FormatPathLexically p)"
proof -
  define st where "st = fold (normal_step True) (names_of p) []"
  have "\<forall>x \<in> set (names_of p). x \<noteq> [] \<and> slash \<notin> set x" by (auto simp: names_of_def dest: split_slash_no_slash)
  then have pl: "\<forall>x \<in> set (rev st). plain x" using normal_absolute_plain[of "names_of p" "[]"] by (simp add: st_def)
  define t where "t = (hd st \<noteq> [dot, dot] \<and> (ends_in_slash p \<or> last (names_of p) = [dot] \<or> last (names_of p) = [dot, dot]))"
  have "p \<noteq> []" using assms by (auto simp: is_absolute_def)
  then have n: "lexically_normal p = slash # join_names (rev st) @ (if t \<and> rev st \<noteq> [] then [slash] else [])"
    using assms by (simp add: lexically_normal_def st_def Let_def t_def conj_commute conj_left_commute)
  have f: "FormatPathLexically p = lexically_normal p" using n by (simp add: FormatPathLexically_def path_append_def is_absolute_def)
  have "lexically_normal (lexically_normal p) = lexically_normal p" by (rule normal_form_fixed[OF pl n])
  then show ?thesis using n unfolding canonical_def f by (simp add: FormatPathLexically_def path_append_def is_absolute_def)
qed

text \<open>One pass is not enough for a path that climbs out of the current directory; two passes are.\<close>

lemma canonical_Format_twice: "canonical (FormatPathLexically (FormatPathLexically p))"
  using canonical_Format FormatPathLexically_absolute by blast

lemma Format_climbing: "FormatPathLexically [dot, dot, slash, 120] = [slash, dot, dot, slash, 120]"
  "FormatPathLexically [slash, dot, dot, slash, 120] = [slash, 120]"
  by code_simp+

end
