(* ===== verification/ZenCodec.thy ===== *)
theory ZenCodec
  imports ZenFile
begin

text \<open>
  The encoding of files in the metadata of ZenFS (\<open>EncodeTo\<close>, \<open>DecodeFrom\<close> and \<open>MergeUpdate\<close> of
  \<open>src/zenfs-2.0.0/fs/io_zenfs.cc\<close>). A decoder returns a status, the file and the device, whose zones count
  the data of the extents; \<open>None\<close> stands for a lifetime hint on the disk that is not a value of the
  enumeration.
\<close>

section \<open>Encoding\<close>

definition encode_extent :: "ZoneExtent \<Rightarrow> bytes" where
  "encode_extent e = PutFixed64 (PutFixed64 [] (e_start e)) (e_length e)"

definition kFileID :: nat where "kFileID = 1"
definition kFileSize :: nat where "kFileSize = 3"
definition kWriteLifeTimeHint :: nat where "kWriteLifeTimeHint = 4"
definition kExtent :: nat where "kExtent = 5"
definition kModificationTime :: nat where "kModificationTime = 6"
definition kActiveExtentStart :: nat where "kActiveExtentStart = 7"
definition kIsSparse :: nat where "kIsSparse = 8"
definition kLinkedFilename :: nat where "kLinkedFilename = 9"

lemmas tag_defs = kFileID_def kFileSize_def kWriteLifeTimeHint_def kExtent_def kModificationTime_def kActiveExtentStart_def
  kIsSparse_def kLinkedFilename_def

definition put_extent :: "ZoneExtent \<Rightarrow> bytes" where
  "put_extent e = PutLengthPrefixedSlice (PutFixed32 [] kExtent) (encode_extent e)"

definition put_link :: "bytes \<Rightarrow> bytes" where
  "put_link name = PutLengthPrefixedSlice (PutFixed32 [] kLinkedFilename) name"

definition EncodeTo :: "ZoneFile \<Rightarrow> nat \<Rightarrow> bytes" where
  "EncodeTo f from_extent =
     PutFixed64 (PutFixed32 [] kFileID) (file_id f) @
     PutFixed64 (PutFixed32 [] kFileSize) (file_size f) @
     PutFixed32 (PutFixed32 [] kWriteLifeTimeHint) (hint_num (file_lifetime f)) @
     concat (map put_extent (drop from_extent (extents f))) @
     PutFixed64 (PutFixed32 [] kModificationTime) (m_time f) @
     PutFixed64 (PutFixed32 [] kActiveExtentStart) (extent_start f) @
     (if is_sparse f then PutFixed32 [] kIsSparse else []) @
     concat (map put_link (linkfiles f))"

definition EncodeUpdateTo :: "ZoneFile \<Rightarrow> bytes" where
  "EncodeUpdateTo f = EncodeTo f (nr_synced_extents f)"

definition EncodeSnapshotTo :: "ZoneFile \<Rightarrow> bytes" where
  "EncodeSnapshotTo f = EncodeTo f 0"

definition MetadataSynced :: "ZoneFile \<Rightarrow> ZoneFile" where
  "MetadataSynced f = f\<lparr>nr_synced_extents := u32 (length (extents f))\<rparr>"

declare new_ZoneFile_def [file_defs] AddLinkName_def [file_defs] MetadataSynced_def [file_defs]

section \<open>Decoding\<close>

definition decode_extent :: "bytes \<Rightarrow> (nat \<times> nat) option" where
  "decode_extent slice_bytes =
     (if length slice_bytes \<noteq> 16 then None
      else do { (s, rest) \<leftarrow> GetFixed64 slice_bytes; (l, rest) \<leftarrow> GetFixed64 rest; Some (s, l) })"

fun hint_of_num :: "nat \<Rightarrow> WriteLifeTimeHint option" where
  "hint_of_num n =
     (if n = 0 then Some WLTH_NOT_SET else if n = 1 then Some WLTH_NONE else if n = 2 then Some WLTH_SHORT
      else if n = 3 then Some WLTH_MEDIUM else if n = 4 then Some WLTH_LONG else if n = 5 then Some WLTH_EXTREME else None)"

declare hint_of_num.simps [simp del]

text \<open>One case of the \<open>switch\<close> over the tags: the status, the file, the device and the rest of the input.\<close>

type_synonym 'm decode_state = "IOStatus \<times> ZoneFile \<times> 'm ZonedBlockDevice_scheme \<times> bytes"

definition decode_field :: "nat \<Rightarrow> bytes \<Rightarrow> ZoneFile \<Rightarrow> 'm ZonedBlockDevice_scheme \<Rightarrow> 'm decode_state option" where
  "decode_field tag input f d =
     (if tag = kFileSize then
        (case GetFixed64 input of None \<Rightarrow> Some (Corruption, f, d, input)
         | Some (v, input) \<Rightarrow> Some (OK, f\<lparr>file_size := v\<rparr>, d, input))
      else if tag = kWriteLifeTimeHint then
        (case GetFixed32 input of None \<Rightarrow> Some (Corruption, f, d, input)
         | Some (lt, input) \<Rightarrow> do { h \<leftarrow> hint_of_num lt; Some (OK, f\<lparr>file_lifetime := h\<rparr>, d, input) })
      else if tag = kExtent then
        (case GetLengthPrefixedSlice input of None \<Rightarrow> Some (Corruption, f, d, input)
         | Some (slice_bytes, input) \<Rightarrow>
             (case decode_extent slice_bytes of None \<Rightarrow> Some (Corruption, f, d, input)
              | Some (s, l) \<Rightarrow>
                  (case GetIOZone s d of None \<Rightarrow> Some (Corruption, f, d, input)
                   | Some p \<Rightarrow> Some (OK, f\<lparr>extents := extents f @ [\<lparr>e_start = s, e_length = l, e_zone = p\<rparr>]\<rparr>, add_used p l d, input))))
      else if tag = kModificationTime then
        (case GetFixed64 input of None \<Rightarrow> Some (Corruption, f, d, input)
         | Some (ct, input) \<Rightarrow> Some (OK, f\<lparr>m_time := ct\<rparr>, d, input))
      else if tag = kActiveExtentStart then
        (case GetFixed64 input of None \<Rightarrow> Some (Corruption, f, d, input)
         | Some (es, input) \<Rightarrow> Some (OK, f\<lparr>extent_start := es\<rparr>, d, input))
      else if tag = kIsSparse then Some (OK, f\<lparr>is_sparse := True\<rparr>, d, input)
      else if tag = kLinkedFilename then
        (case GetLengthPrefixedSlice input of None \<Rightarrow> Some (Corruption, f, d, input)
         | Some (name, input) \<Rightarrow>
             if length name = 0 then Some (Corruption, f, d, input)
             else Some (OK, f\<lparr>linkfiles := linkfiles f @ [name]\<rparr>, d, input))
      else Some (Corruption, f, d, input))"

lemma GetFixed_shrinks:
  "GetFixed32 input = Some (v, rest) \<Longrightarrow> length rest < length input"
  "GetFixed64 input = Some (v, rest) \<Longrightarrow> length rest \<le> length input"
  by (auto simp: GetFixed32_def GetFixed64_def split: if_splits)

lemma GetVarint32PtrFallback_shrinks: "GetVarint32PtrFallback s r input = Some (v, rest) \<Longrightarrow> length rest \<le> length input"
  by (induction s r input rule: GetVarint32PtrFallback.induct) (auto simp: GetVarint32PtrFallback.simps split: if_splits)

lemma GetLengthPrefixedSlice_shrinks: "GetLengthPrefixedSlice input = Some (v, rest) \<Longrightarrow> length rest \<le> length input"
  by (auto simp: GetLengthPrefixedSlice_def GetVarint32_def bind_eq_Some_conv split: if_splits list.splits
      dest!: GetVarint32PtrFallback_shrinks)

lemma decode_field_shrinks: "decode_field tag input f d = Some (s, f', d', rest) \<Longrightarrow> length rest \<le> length input"
  by (auto simp: decode_field_def bind_eq_Some_conv split: if_splits option.splits;
      (drule GetFixed_shrinks GetLengthPrefixedSlice_shrinks, simp))

function decode_loop :: "bytes \<Rightarrow> ZoneFile \<Rightarrow> 'm ZonedBlockDevice_scheme \<Rightarrow> (IOStatus \<times> ZoneFile \<times> 'm ZonedBlockDevice_scheme) option" where
  "decode_loop input f d =
     (case GetFixed32 input of
        None \<Rightarrow> Some (OK, MetadataSynced f, d)
      | Some (tag, rest) \<Rightarrow>
          (case decode_field tag rest f d of
             None \<Rightarrow> None
           | Some (s, f, d, rest) \<Rightarrow> if s \<noteq> OK then Some (s, f, d) else decode_loop rest f d))"
  by pat_completeness auto
termination
  by (relation "measure (\<lambda>(input, f, d). length input)") (auto dest!: GetFixed_shrinks decode_field_shrinks)

declare decode_loop.simps [simp del]

definition DecodeFrom :: "bytes \<Rightarrow> ZoneFile \<Rightarrow> 'm ZonedBlockDevice_scheme \<Rightarrow> (IOStatus \<times> ZoneFile \<times> 'm ZonedBlockDevice_scheme) option" where
  "DecodeFrom input f d =
     (case GetFixed32 input of
        None \<Rightarrow> Some (Corruption, f, d)
      | Some (tag, input) \<Rightarrow>
          if tag \<noteq> kFileID then Some (Corruption, f, d)
          else (case GetFixed64 input of
                  None \<Rightarrow> Some (Corruption, f, d)
                | Some (v, input) \<Rightarrow> decode_loop input (f\<lparr>file_id := v\<rparr>) d))"

definition MergeUpdate :: "ZoneFile \<Rightarrow> bool \<Rightarrow> ZoneFile \<Rightarrow> 'm ZonedBlockDevice_scheme \<Rightarrow> (IOStatus \<times> ZoneFile \<times> 'm ZonedBlockDevice_scheme) option" where
  "MergeUpdate update replace f d =
     (if file_id f \<noteq> file_id update then Some (Corruption, f, d)
      else do {
        let f = f\<lparr>file_size := file_size update, file_lifetime := file_lifetime update, m_time := m_time update\<rparr>;
        (f, d) \<leftarrow> (if replace then ClearExtents f d else Some (f, d));
        let d = fold (\<lambda>e d. add_used (e_zone e) (e_length e) d) (extents update) d;
        let f = f\<lparr>extents := extents f @ extents update, extent_start := extent_start update, is_sparse := is_sparse update\<rparr>;
        Some (OK, (MetadataSynced f)\<lparr>linkfiles := linkfiles update\<rparr>, d)
      })"

section \<open>Round trip\<close>

text \<open>A file whose fields fit the encoding and whose extents lie in zones of the device.\<close>

definition encodable :: "'m ZonedBlockDevice_scheme \<Rightarrow> ZoneFile \<Rightarrow> bool" where
  "encodable d f \<longleftrightarrow>
     file_id f < 2 ^ 64 \<and> file_size f < 2 ^ 64 \<and> m_time f < 2 ^ 64 \<and> extent_start f < 2 ^ 64 \<and>
     (\<forall>e \<in> set (extents f). e_start e < 2 ^ 64 \<and> e_length e < 2 ^ 64 \<and> GetIOZone (e_start e) d = Some (e_zone e)) \<and>
     (\<forall>name \<in> set (linkfiles f). 0 < length name \<and> length name < 2 ^ 32)"

lemma hint_of_hint_num [simp]: "hint_of_num (hint_num h) = Some h"
  by (cases h) (simp_all add: hint_of_num.simps)

lemma hint_num_less: "hint_num h < 2 ^ 32"
  by (cases h) simp_all

lemma GetIOZone_add_used [simp]: "GetIOZone s (add_used p n d) = GetIOZone s d"
proof -
  have "start (zones (add_used p n d) q) = start (zones d q)" for q by (cases "q = p") (simp_all add: add_used_def)
  then show ?thesis by (simp add: GetIOZone_def add_used_def)
qed

lemma decode_loop_field:
  assumes "decode_field tag rest f d = Some (OK, f', d', rest')" "tag < 2 ^ 32"
  shows "decode_loop (EncodeFixed32 tag @ rest) f d = decode_loop rest' f' d'"
  using assms by (simp add: decode_loop.simps[of "EncodeFixed32 tag @ rest"])

lemma decode_encode_extent: "e_start e < 2 ^ 64 \<Longrightarrow> e_length e < 2 ^ 64 \<Longrightarrow> decode_extent (encode_extent e) = Some (e_start e, e_length e)"
  using GetFixed64_Encode[of "e_length e" "[]"] by (simp add: decode_extent_def encode_extent_def PutFixed64_def)

lemma decode_loop_extents:
  assumes "\<forall>e \<in> set es. e_start e < 2 ^ 64 \<and> e_length e < 2 ^ 64 \<and> GetIOZone (e_start e) d = Some (e_zone e)"
  shows "decode_loop (concat (map put_extent es) @ rest) f d =
         decode_loop rest (f\<lparr>extents := extents f @ es\<rparr>) (fold (\<lambda>e d. add_used (e_zone e) (e_length e) d) es d)"
  using assms
proof (induction es arbitrary: f d)
  case Nil
  then show ?case by simp
next
  case (Cons e es)
  let ?rest = "concat (map put_extent es) @ rest"
  have len: "length (encode_extent e) < 2 ^ 32" by (simp add: encode_extent_def PutFixed64_def)
  have "put_extent e @ ?rest = EncodeFixed32 kExtent @ PutLengthPrefixedSlice [] (encode_extent e) @ ?rest"
    by (simp add: put_extent_def PutLengthPrefixedSlice_def PutVarint32_def PutFixed32_def)
  moreover have "decode_field kExtent (PutLengthPrefixedSlice [] (encode_extent e) @ ?rest) f d =
      Some (OK, f\<lparr>extents := extents f @ [e]\<rparr>, add_used (e_zone e) (e_length e) d, ?rest)"
    using Cons.prems by (simp add: decode_field_def GetLengthPrefixedSlice_Put[OF len] decode_encode_extent tag_defs)
  ultimately have "decode_loop (concat (map put_extent (e # es)) @ rest) f d =
      decode_loop ?rest (f\<lparr>extents := extents f @ [e]\<rparr>) (add_used (e_zone e) (e_length e) d)"
    using decode_loop_field[of kExtent _ f d] by (simp add: tag_defs)
  then show ?case using Cons by simp
qed

lemma decode_loop_links:
  assumes "\<forall>name \<in> set names. 0 < length name \<and> length name < 2 ^ 32"
  shows "decode_loop (concat (map put_link names) @ rest) f d = decode_loop rest (f\<lparr>linkfiles := linkfiles f @ names\<rparr>) d"
  using assms
proof (induction names arbitrary: f)
  case Nil
  then show ?case by simp
next
  case (Cons name names)
  let ?rest = "concat (map put_link names) @ rest"
  have len: "length name < 2 ^ 32" using Cons.prems by simp
  have "put_link name @ ?rest = EncodeFixed32 kLinkedFilename @ PutLengthPrefixedSlice [] name @ ?rest"
    by (simp add: put_link_def PutLengthPrefixedSlice_def PutVarint32_def PutFixed32_def)
  moreover have "decode_field kLinkedFilename (PutLengthPrefixedSlice [] name @ ?rest) f d = Some (OK, f\<lparr>linkfiles := linkfiles f @ [name]\<rparr>, d, ?rest)"
    using Cons.prems by (simp add: decode_field_def GetLengthPrefixedSlice_Put[OF len] tag_defs)
  ultimately have "decode_loop (concat (map put_link (name # names)) @ rest) f d = decode_loop ?rest (f\<lparr>linkfiles := linkfiles f @ [name]\<rparr>) d"
    using decode_loop_field[of kLinkedFilename _ f d] by (simp add: tag_defs)
  then show ?case using Cons by simp
qed

lemma decode_loop_Fixed64:
  assumes "tag \<in> {kFileSize, kModificationTime, kActiveExtentStart}" "v < 2 ^ 64"
  shows "decode_loop (EncodeFixed32 tag @ EncodeFixed64 v @ rest) f d =
     decode_loop rest (if tag = kFileSize then f\<lparr>file_size := v\<rparr> else if tag = kModificationTime then f\<lparr>m_time := v\<rparr> else f\<lparr>extent_start := v\<rparr>) d"
  using assms by (intro decode_loop_field) (auto simp: decode_field_def tag_defs)

lemma decode_loop_hint:
  "decode_loop (EncodeFixed32 kWriteLifeTimeHint @ EncodeFixed32 (hint_num h) @ rest) f d = decode_loop rest (f\<lparr>file_lifetime := h\<rparr>) d"
  using hint_num_less[of h] by (intro decode_loop_field) (auto simp: decode_field_def tag_defs)

lemma decode_loop_sparse: "decode_loop (EncodeFixed32 kIsSparse @ rest) f d = decode_loop rest (f\<lparr>is_sparse := True\<rparr>) d"
  by (intro decode_loop_field) (auto simp: decode_field_def tag_defs)

text \<open>What the decoder makes of an encoded file, from the extent the encoding starts with.\<close>

definition decoded :: "ZoneFile \<Rightarrow> nat \<Rightarrow> ZoneFile \<Rightarrow> ZoneFile" where
  "decoded f n g = MetadataSynced (g\<lparr>file_id := file_id f, file_size := file_size f, file_lifetime := file_lifetime f,
     extents := extents g @ drop n (extents f), m_time := m_time f, extent_start := extent_start f,
     is_sparse := is_sparse g \<or> is_sparse f, linkfiles := linkfiles g @ linkfiles f\<rparr>)"

definition count_extents :: "ZoneExtent list \<Rightarrow> 'm ZonedBlockDevice_scheme \<Rightarrow> 'm ZonedBlockDevice_scheme" where
  "count_extents es d = fold (\<lambda>e d. add_used (e_zone e) (e_length e) d) es d"

lemma DecodeFrom_EncodeTo:
  assumes f: "encodable d f"
  shows "DecodeFrom (EncodeTo f n) g d = Some (OK, decoded f n g, count_extents (drop n (extents f)) d)"
proof -
  have es: "\<forall>e \<in> set (drop n (extents f)). e_start e < 2 ^ 64 \<and> e_length e < 2 ^ 64 \<and> GetIOZone (e_start e) d = Some (e_zone e)"
    using f by (auto simp: encodable_def dest: in_set_dropD)
  have names: "\<forall>name \<in> set (linkfiles f). 0 < length name \<and> length name < 2 ^ 32" using f by (auto simp: encodable_def)
  have nil: "decode_loop [] g' d' = Some (OK, MetadataSynced g', d')" for g' d'
    by (simp add: decode_loop.simps[of "[]"] GetFixed32_def)
  have links: "decode_loop (concat (map put_link (linkfiles f))) g' d' = decode_loop [] (g'\<lparr>linkfiles := linkfiles g' @ linkfiles f\<rparr>) d'" for g' d'
    using decode_loop_links[OF names, of "[]" g' d'] by simp
  have tags: "kModificationTime \<noteq> kFileSize" "kActiveExtentStart \<noteq> kFileSize" "kActiveExtentStart \<noteq> kModificationTime" "u32 kFileID = kFileID"
    by (simp_all add: tag_defs)
  show ?thesis using f
    by (simp add: DecodeFrom_def EncodeTo_def PutFixed64_def PutFixed32_def decode_loop_Fixed64 decode_loop_hint decode_loop_sparse
        decode_loop_extents[OF es] links nil encodable_def count_extents_def decoded_def tags)
qed

end
