(* ===== verification/ZenMeta.thy ===== *)
theory ZenMeta
  imports ZenIo
begin

text \<open>
  The metadata log of ZenFS (\<open>Superblock\<close> and \<open>ZenMetaLog\<close> of \<open>src/zenfs-2.0.0/fs/fs_zenfs.h\<close> and
  \<open>fs_zenfs.cc\<close>): records with a checksum and a length in front, each starting at a block of a metadata
  zone. The checksum \<open>crc32c::Extend\<close>, of which RocksDB selects one of several implementations when it
  starts, is the parameter \<open>crc\<close>; its mask is modelled on 32-bit words. Allocating memory for a buffer
  does not fail.
\<close>

unbundle bit_operations_syntax

type_synonym crc_fun = "32 word \<Rightarrow> bytes \<Rightarrow> 32 word"

definition kMaskDelta :: "32 word" where
  "kMaskDelta = 0xa282ead8"

definition Mask :: "32 word \<Rightarrow> 32 word" where
  "Mask crc = (drop_bit 15 crc OR push_bit 17 crc) + kMaskDelta"

definition Unmask :: "32 word \<Rightarrow> 32 word" where
  "Unmask masked_crc = (let rot = masked_crc - kMaskDelta in drop_bit 17 rot OR push_bit 15 rot)"

lemma Unmask_Mask [simp]: "Unmask (Mask c) = c"
proof (rule bit_word_eqI)
  fix n
  assume "n < LENGTH(32)"
  then show "bit (Unmask (Mask c)) n \<longleftrightarrow> bit c n"
    by (cases "n < 15") (auto simp: Unmask_def Mask_def Let_def bit_or_iff bit_drop_bit_eq bit_push_bit_iff)
qed

section \<open>The superblock\<close>

record Superblock =
  magic :: nat
  uuid :: bytes
  sequence :: nat
  superblock_version :: nat
  sb_flags :: nat
  sb_block_size :: nat
  sb_zone_size :: nat
  sb_nr_zones :: nat
  aux_fs_path :: bytes
  finish_treshold :: nat
  zenfs_version :: bytes
  reserved :: bytes

definition MAGIC :: nat where "MAGIC = 0x5a454e46"
definition ENCODED_SIZE :: nat where "ENCODED_SIZE = 512"
definition CURRENT_SUPERBLOCK_VERSION :: nat where "CURRENT_SUPERBLOCK_VERSION = 2"

text \<open>A string in a field of \<open>n\<close> characters, cut so that it ends with a zero, and filled with zeros.\<close>

definition in_field :: "nat \<Rightarrow> bytes \<Rightarrow> bytes" where
  "in_field n bs = take (n - 1) bs @ replicate (n - min (length bs) (n - 1)) 0"

definition new_Superblock :: "bytes \<Rightarrow> bytes \<Rightarrow> bytes \<Rightarrow> nat \<Rightarrow> 'm ZonedBlockDevice_scheme \<Rightarrow> Superblock" where
  "new_Superblock unique_id version aux_path threshold d =
     \<lparr>magic = MAGIC, uuid = in_field 37 unique_id, sequence = 0, superblock_version = CURRENT_SUPERBLOCK_VERSION, sb_flags = 0,
      sb_block_size = block_sz d, sb_zone_size = u32 (zone_sz d div block_sz d), sb_nr_zones = nr_zones d,
      aux_fs_path = in_field 256 aux_path, finish_treshold = threshold, zenfs_version = in_field 64 version,
      reserved = replicate 123 0\<rparr>"

definition Superblock_EncodeTo :: "Superblock \<Rightarrow> (bytes \<times> Superblock) option" where
  "Superblock_EncodeTo sb = do {
     let sb = sb\<lparr>sequence := u32 (sequence sb + 1)\<rparr>;
     let output = EncodeFixed32 (magic sb) @ uuid sb @ EncodeFixed32 (sequence sb) @ EncodeFixed32 (superblock_version sb) @
       EncodeFixed32 (sb_flags sb) @ EncodeFixed32 (sb_block_size sb) @ EncodeFixed32 (sb_zone_size sb) @
       EncodeFixed32 (sb_nr_zones sb) @ EncodeFixed32 (finish_treshold sb) @ aux_fs_path sb @ zenfs_version sb @ reserved sb;
     assert_c (length output = ENCODED_SIZE);
     Some (output, sb)
   }"

definition Superblock_DecodeFrom :: "bytes \<Rightarrow> (IOStatus \<times> Superblock) option" where
  "Superblock_DecodeFrom input =
     (let zero = \<lparr>magic = 0, uuid = replicate 37 0, sequence = 0, superblock_version = 0, sb_flags = 0, sb_block_size = 0,
                  sb_zone_size = 0, sb_nr_zones = 0, aux_fs_path = replicate 256 0, finish_treshold = 0,
                  zenfs_version = replicate 64 0, reserved = replicate 123 0\<rparr>
      in if length input \<noteq> ENCODED_SIZE then Some (Corruption, zero)
         else do {
           (m, input) \<leftarrow> GetFixed32 input;
           let id = take 37 input; let input = drop 37 input;
           (sq, input) \<leftarrow> GetFixed32 input;
           (ver, input) \<leftarrow> GetFixed32 input;
           (fl, input) \<leftarrow> GetFixed32 input;
           (bs, input) \<leftarrow> GetFixed32 input;
           (zs, input) \<leftarrow> GetFixed32 input;
           (nz, input) \<leftarrow> GetFixed32 input;
           (ft, input) \<leftarrow> GetFixed32 input;
           let path = take 256 input; let input = drop 256 input;
           let zver = take 64 input; let input = drop 64 input;
           let res = take 123 input; let input = drop 123 input;
           assert_c (input = []);
           let sb = \<lparr>magic = m, uuid = id, sequence = sq, superblock_version = ver, sb_flags = fl, sb_block_size = bs,
                     sb_zone_size = zs, sb_nr_zones = nz, aux_fs_path = path, finish_treshold = ft, zenfs_version = zver,
                     reserved = res\<rparr>;
           Some (if m \<noteq> MAGIC then (Corruption, sb) else if ver \<noteq> CURRENT_SUPERBLOCK_VERSION then (Corruption, sb) else (OK, sb))
         })"

definition CompatibleWith :: "Superblock \<Rightarrow> 'm ZonedBlockDevice_scheme \<Rightarrow> IOStatus" where
  "CompatibleWith sb d =
     (if sb_block_size sb \<noteq> block_sz d then Corruption
      else if sb_zone_size sb \<noteq> zone_sz d div sb_block_size sb then Corruption
      else if sb_nr_zones sb > nr_zones d then Corruption
      else OK)"

definition superblock_ok :: "Superblock \<Rightarrow> bool" where
  "superblock_ok sb \<longleftrightarrow>
     magic sb = MAGIC \<and> superblock_version sb = CURRENT_SUPERBLOCK_VERSION \<and> length (uuid sb) = 37 \<and>
     length (aux_fs_path sb) = 256 \<and> length (zenfs_version sb) = 64 \<and> length (reserved sb) = 123 \<and>
     sequence sb < 2 ^ 32 \<and> sb_flags sb < 2 ^ 32 \<and> sb_block_size sb < 2 ^ 32 \<and> sb_zone_size sb < 2 ^ 32 \<and>
     sb_nr_zones sb < 2 ^ 32 \<and> finish_treshold sb < 2 ^ 32"

lemma superblock_roundtrip:
  assumes "superblock_ok sb"
  shows "\<exists>out. Superblock_EncodeTo sb = Some (out, sb\<lparr>sequence := u32 (sequence sb + 1)\<rparr>) \<and> length out = 512 \<and>
     Superblock_DecodeFrom out = Some (OK, sb\<lparr>sequence := u32 (sequence sb + 1)\<rparr>)"
proof -
  have "superblock_ok (sb\<lparr>sequence := u32 (sequence sb + 1)\<rparr>)" using assms by (simp add: superblock_ok_def)
  then show ?thesis using assms
    by (simp add: Superblock_EncodeTo_def Superblock_DecodeFrom_def superblock_ok_def ENCODED_SIZE_def Let_def MAGIC_def
        CURRENT_SUPERBLOCK_VERSION_def)
qed

section \<open>The log\<close>

record ZenMetaLog =
  read_pos :: nat
  log_zone :: nat

definition zMetaHeaderSize :: nat where
  "zMetaHeaderSize = 8"

definition new_ZenMetaLog :: "nat \<Rightarrow> 'm ZonedBlockDevice_scheme \<Rightarrow> ZenMetaLog option" where
  "new_ZenMetaLog p d = do { assert_c (busy (zones d p)); Some \<lparr>read_pos = start (zones d p), log_zone = p\<rparr> }"

definition destroy_ZenMetaLog :: "ZenMetaLog \<Rightarrow> 'm ZonedBlockDevice_scheme \<Rightarrow> 'm ZonedBlockDevice_scheme option" where
  "destroy_ZenMetaLog log d = (case Release (log_zone log) d of (ok, d) \<Rightarrow> if ok then Some d else None)"

definition phys_size :: "nat \<Rightarrow> nat \<Rightarrow> nat" where
  "phys_size bs record_sz =
     (let phys_sz = record_sz + zMetaHeaderSize in if phys_sz mod bs \<noteq> 0 then phys_sz + (bs - phys_sz mod bs) else phys_sz)"

definition record_crc :: "crc_fun \<Rightarrow> bytes \<Rightarrow> 32 word" where
  "record_crc crc data = crc (crc 0 (EncodeFixed32 (u32 (length data)))) (take (u32 (length data)) data)"

definition record_bytes :: "crc_fun \<Rightarrow> nat \<Rightarrow> bytes \<Rightarrow> bytes" where
  "record_bytes crc bs data =
     (let record_sz = u32 (length data); content = EncodeFixed32 (unat (Mask (record_crc crc data))) @ EncodeFixed32 record_sz @ take record_sz data
      in content @ replicate (phys_size bs record_sz - length content) 0)"

definition AddRecord :: "outside \<Rightarrow> crc_fun \<Rightarrow> ZenMetaLog \<Rightarrow> bytes \<Rightarrow> 'm ZonedBlockDevice_scheme \<Rightarrow> (IOStatus \<times> 'm ZonedBlockDevice_scheme) option" where
  "AddRecord E crc log data d = Append E (log_zone log) (record_bytes crc (block_sz d) data) d"

partial_function (option) log_read_loop ::
  "outside \<Rightarrow> nat \<Rightarrow> bytes \<Rightarrow> ZenMetaLog \<Rightarrow> 'm ZonedBlockDevice_scheme \<Rightarrow> (IOStatus \<times> bytes \<times> ZenMetaLog \<times> 'm ZonedBlockDevice_scheme) option" where
  "log_read_loop E to_read got log d =
     (if \<not> length got < to_read then Some (OK, got, log, d)
      else case pread E (calls d) ReadFD (to_read - length got) (read_pos log) (the_disk d) of (ret, bs) \<Rightarrow>
        let again = interrupted E (calls d); d = tick d
        in if ret = - 1 \<and> again then log_read_loop E to_read got log d
           else if ret < 0 then Some (IOError, got, log, d)
           else log_read_loop E to_read (got @ take (nat ret) bs) (log\<lparr>read_pos := u64 (read_pos log + nat ret)\<rparr>) d)"

text \<open>\<open>Read\<close> of \<open>n\<close> bytes: the empty list stands for the slice that is cleared at the end of the log.\<close>

definition log_Read :: "outside \<Rightarrow> nat \<Rightarrow> ZenMetaLog \<Rightarrow> 'm ZonedBlockDevice_scheme \<Rightarrow> (IOStatus \<times> bytes \<times> ZenMetaLog \<times> 'm ZonedBlockDevice_scheme) option" where
  "log_Read E n log d =
     (let z = zones d (log_zone log)
      in if read_pos log \<ge> wp z then Some (OK, [], log, d)
         else if u64 (read_pos log + n) > u64 (start z + max_capacity z) then Some (IOError, replicate n 0, log, d)
         else log_read_loop E n [] log d)"

definition ReadRecord :: "outside \<Rightarrow> crc_fun \<Rightarrow> ZenMetaLog \<Rightarrow> 'm ZonedBlockDevice_scheme \<Rightarrow> (IOStatus \<times> bytes \<times> ZenMetaLog \<times> 'm ZonedBlockDevice_scheme) option" where
  "ReadRecord E crc log d = do {
     (s, header, log, d) \<leftarrow> log_Read E zMetaHeaderSize log d;
     if s \<noteq> OK then Some (s, [], log, d)
     else if header = [] then Some (OK, [], log, d)
     else do {
       (stored_crc, header) \<leftarrow> GetFixed32 header;
       (record_sz, header) \<leftarrow> GetFixed32 header;
       (s, record, log, d) \<leftarrow> log_Read E record_sz log d;
       if s \<noteq> OK then Some (s, record, log, d)
       else if crc (crc 0 (EncodeFixed32 record_sz)) record \<noteq> Unmask (word_of_nat stored_crc) then Some (IOError, record, log, d)
       else let pos = read_pos log
            in Some (OK, record, log\<lparr>read_pos := (if pos mod block_sz d \<noteq> 0 then u64 (pos + (block_sz d - pos mod block_sz d)) else pos)\<rparr>, d)
     }
   }"

section \<open>Round trip\<close>

lemma phys_size_ok:
  assumes "0 < bs"
  shows "phys_size bs n mod bs = 0" "n + 8 \<le> phys_size bs n" "phys_size bs n < n + 8 + bs"
proof -
  let ?t = "n + 8"
  have m: "?t mod bs < bs" using assms by simp
  have t: "?t = bs * (?t div bs) + ?t mod bs" by simp
  have "phys_size bs n = bs * (if ?t mod bs \<noteq> 0 then ?t div bs + 1 else ?t div bs)"
  proof (cases "?t mod bs = 0")
    case True
    then show ?thesis using t by (simp add: phys_size_def zMetaHeaderSize_def)
  next
    case False
    have "?t + (bs - ?t mod bs) = bs * (?t div bs) + bs" using m t by linarith
    then show ?thesis using False by (simp add: phys_size_def zMetaHeaderSize_def)
  qed
  then show "phys_size bs n mod bs = 0" by simp
  have e: "phys_size bs n = ?t + (if ?t mod bs \<noteq> 0 then bs - ?t mod bs else 0)" by (simp add: phys_size_def zMetaHeaderSize_def Let_def)
  show "n + 8 \<le> phys_size bs n" unfolding e by (rule le_add1)
  have "(if ?t mod bs \<noteq> 0 then bs - ?t mod bs else 0) < bs" using m assms by simp
  then show "phys_size bs n < n + 8 + bs" unfolding e by linarith
qed

lemma length_record_bytes: "0 < bs \<Longrightarrow> length data < 2 ^ 32 \<Longrightarrow> length (record_bytes crc bs data) = phys_size bs (length data)"
  using phys_size_ok(2)[of bs "length data"] by (simp add: record_bytes_def Let_def)

lemma record_bytes_parts:
  assumes "0 < bs" "length data < 2 ^ 32"
  shows "take 8 (record_bytes crc bs data) = EncodeFixed32 (unat (Mask (record_crc crc data))) @ EncodeFixed32 (length data)"
    "take (length data) (drop 8 (record_bytes crc bs data)) = data"
  using assms by (simp_all add: record_bytes_def Let_def)

text \<open>Reading a stretch of the log.\<close>

lemma log_read_loop_ok:
  assumes E: "pread_contract E"
  shows "length got \<le> n \<Longrightarrow> read_pos log + (n - length got) < 2 ^ 64 \<Longrightarrow>
    \<exists>m. log_read_loop E n got log d =
      Some (OK, got @ map (the_disk d) [read_pos log ..< read_pos log + (n - length got)],
            log\<lparr>read_pos := read_pos log + (n - length got)\<rparr>, d\<lparr>calls := m\<rparr>)"
proof (induction "n - length got" arbitrary: got log d rule: less_induct)
  case less
  show ?case
  proof (cases "length got = n")
    case True
    then show ?thesis by (subst log_read_loop.simps) (auto intro!: exI[of _ "calls d"])
  next
    case False
    then have lt: "0 < n - length got" using less.prems by simp
    obtain r bs where pr: "pread E (calls d) ReadFD (n - length got) (read_pos log) (the_disk d) = (r, bs)" by fastforce
    then have r: "0 < r" "r \<le> int (n - length got)" "take (nat r) bs = map (the_disk d) [read_pos log ..< read_pos log + nat r]"
      using E lt unfolding pread_contract_def by blast+
    define k where "k = nat r"
    have k: "0 < k" "k \<le> n - length got" using r by (auto simp: k_def)
    let ?got = "got @ take k bs" and ?log = "log\<lparr>read_pos := read_pos log + k\<rparr>"
    have len: "length (take k bs) = k" using r(3) by (simp add: k_def)
    have step: "log_read_loop E n got log d = log_read_loop E n ?got ?log (tick d)"
      using False lt pr r(1) k less.prems(2) by (subst log_read_loop.simps) (simp add: Let_def k_def[symmetric])
    have "\<exists>m. log_read_loop E n ?got ?log (tick d) =
      Some (OK, ?got @ map (the_disk (tick d)) [read_pos ?log ..< read_pos ?log + (n - length ?got)],
            ?log\<lparr>read_pos := read_pos ?log + (n - length ?got)\<rparr>, (tick d)\<lparr>calls := m\<rparr>)"
      by (rule less.hyps) (use k len less.prems lt in auto)
    moreover have "take k bs @ map (the_disk d) [read_pos log + k ..< read_pos log + (n - length got)] =
        map (the_disk d) [read_pos log ..< read_pos log + (n - length got)]"
      using r(3) k upt_add_eq_append[of "read_pos log" "read_pos log + k" "n - length got - k"]
      by (simp add: k_def[symmetric] map_append[symmetric] del: map_append)
    ultimately show ?thesis using step len k by (simp add: tick_def)
  qed
qed

text \<open>A record that is on the disk at the read position is read back.\<close>

lemma ReadRecord_ok:
  assumes E: "pread_contract E" and bs: "0 < block_sz d" and data: "length data < 2 ^ 32"
    and stored: "map (the_disk d) [pos ..< pos + phys_size (block_sz d) (length data)] = record_bytes crc (block_sz d) data"
    and pos: "pos mod block_sz d = 0" "pos + phys_size (block_sz d) (length data) \<le> wp (zones d p)"
      "wp (zones d p) \<le> start (zones d p) + max_capacity (zones d p)" "start (zones d p) + max_capacity (zones d p) < 2 ^ 64"
    and log: "read_pos log = pos" "log_zone log = p"
  shows "\<exists>m. ReadRecord E crc log d =
     Some (OK, data, log\<lparr>read_pos := pos + phys_size (block_sz d) (length data)\<rparr>, d\<lparr>calls := m\<rparr>)"
proof -
  let ?n = "length data" and ?b = "block_sz d"
  let ?ps = "phys_size ?b ?n"
  note ps = phys_size_ok[OF bs, of ?n]
  have sub: "map (the_disk d) [pos + i ..< pos + i + j] = take j (drop i (record_bytes crc ?b data))" if "i + j \<le> ?ps" for i j
    unfolding stored[symmetric] using that by (simp add: drop_map take_map)
  have h: "map (the_disk d) [pos ..< pos + 8] = EncodeFixed32 (unat (Mask (record_crc crc data))) @ EncodeFixed32 ?n"
    using sub[of 0 8] ps(2) record_bytes_parts(1)[OF bs data] by simp
  have body: "map (the_disk d) [pos + 8 ..< pos + 8 + ?n] = data"
    using sub[of 8 ?n] ps(2) record_bytes_parts(2)[OF bs data] by (simp add: add.commute)
  obtain m where rd1: "log_Read E 8 log d = Some (OK, EncodeFixed32 (unat (Mask (record_crc crc data))) @ EncodeFixed32 ?n, log\<lparr>read_pos := pos + 8\<rparr>, d\<lparr>calls := m\<rparr>)"
    using log_read_loop_ok[OF E, of "[]" 8 log d] h pos ps(2) log by (auto simp: log_Read_def Let_def)
  let ?log1 = "log\<lparr>read_pos := pos + 8\<rparr>" and ?d1 = "d\<lparr>calls := m\<rparr>"
  have rd2: "\<exists>m'. log_Read E ?n ?log1 ?d1 = Some (OK, data, log\<lparr>read_pos := pos + 8 + ?n\<rparr>, d\<lparr>calls := m'\<rparr>)"
  proof (cases "pos + 8 \<ge> wp (zones d p)")
    case True
    then have "length data = 0" using pos(2) ps(2) by linarith
    then have "data = []" by simp
    then show ?thesis using True log by (auto simp: log_Read_def intro!: exI[of _ m])
  next
    case False
    then show ?thesis
      using log_read_loop_ok[OF E, of "[]" ?n ?log1 ?d1] body pos ps(2) log by (auto simp: log_Read_def Let_def)
  qed
  then obtain m' where rd2: "log_Read E ?n ?log1 ?d1 = Some (OK, data, log\<lparr>read_pos := pos + 8 + ?n\<rparr>, d\<lparr>calls := m'\<rparr>)" by blast
  have u: "u32 ?n = ?n" using data by simp
  have mask: "u32 (unat (Mask (record_crc crc data))) = unat (Mask (record_crc crc data))"
    using unsigned_less[of "Mask (record_crc crc data)", where ?'a = nat] by simp
  have mod: "(pos + 8 + ?n) mod ?b = (?n + 8) mod ?b" using pos(1) by (metis add.commute add.left_commute mod_add_right_eq add_0)
  have end_pos: "(if (pos + 8 + ?n) mod ?b \<noteq> 0 then u64 (pos + 8 + ?n + (?b - (pos + 8 + ?n) mod ?b)) else pos + 8 + ?n) = pos + ?ps"
  proof (cases "(?n + 8) mod ?b = 0")
    case True
    then show ?thesis unfolding mod by (simp add: phys_size_def zMetaHeaderSize_def)
  next
    case False
    then have "?ps = ?n + 8 + (?b - (?n + 8) mod ?b)" by (simp add: phys_size_def zMetaHeaderSize_def Let_def)
    then have "pos + 8 + ?n + (?b - (?n + 8) mod ?b) = pos + ?ps" by linarith
    moreover have "pos + ?ps < 2 ^ 64" using pos by linarith
    ultimately show ?thesis unfolding mod using False by simp
  qed
  have ne: "EncodeFixed32 x \<noteq> []" for x using length_EncodeFixed(1)[of x] by (cases "EncodeFixed32 x") auto
  show ?thesis
    unfolding ReadRecord_def zMetaHeaderSize_def
    using rd1 rd2 u mask GetFixed32_Encode[of "length data" "[]"]
    by (intro exI[of _ m']) (simp add: record_crc_def Let_def ne split del: if_split cong del: if_weak_cong, use end_pos in simp)
qed

section \<open>Sequences of records\<close>

fun add_records :: "outside \<Rightarrow> crc_fun \<Rightarrow> ZenMetaLog \<Rightarrow> bytes list \<Rightarrow> 'm ZonedBlockDevice_scheme \<Rightarrow> (IOStatus \<times> 'm ZonedBlockDevice_scheme) option" where
  "add_records E crc log [] d = Some (OK, d)"
| "add_records E crc log (r # rs) d = do {
     (s, d) \<leftarrow> AddRecord E crc log r d;
     if s \<noteq> OK then Some (s, d) else add_records E crc log rs d
   }"

text \<open>Reading until the end of the log, or at most \<open>n\<close> records.\<close>

fun read_records :: "outside \<Rightarrow> crc_fun \<Rightarrow> nat \<Rightarrow> ZenMetaLog \<Rightarrow> 'm ZonedBlockDevice_scheme \<Rightarrow> (IOStatus \<times> bytes list) option" where
  "read_records E crc 0 log d = Some (OK, [])"
| "read_records E crc (Suc n) log d = do {
     (s, r, log, d) \<leftarrow> ReadRecord E crc log d;
     if s \<noteq> OK then Some (s, [])
     else if r = [] then Some (OK, [])
     else do { (s, rs) \<leftarrow> read_records E crc n log d; Some (s, r # rs) }
   }"

fun stored :: "crc_fun \<Rightarrow> disk \<Rightarrow> nat \<Rightarrow> nat \<Rightarrow> bytes list \<Rightarrow> bool" where
  "stored crc disk bs pos [] \<longleftrightarrow> True"
| "stored crc disk bs pos (r # rs) \<longleftrightarrow>
     map disk [pos ..< pos + phys_size bs (length r)] = record_bytes crc bs r \<and> stored crc disk bs (pos + phys_size bs (length r)) rs"

definition log_span :: "nat \<Rightarrow> bytes list \<Rightarrow> nat" where
  "log_span bs rs = sum_list (map (\<lambda>r. phys_size bs (length r)) rs)"

lemma log_span_simps [simp]: "log_span bs [] = 0" "log_span bs (r # rs) = phys_size bs (length r) + log_span bs rs"
  by (simp_all add: log_span_def)

text \<open>A metadata zone in which every record so far has been written completely.\<close>

definition log_zone_ok :: "nat \<Rightarrow> 'm ZonedBlockDevice_scheme \<Rightarrow> bool" where
  "log_zone_ok p d \<longleftrightarrow>
     0 < block_sz d \<and> wp (zones d p) mod block_sz d = 0 \<and> start (zones d p) \<le> wp (zones d p) \<and>
     wp (zones d p) + capacity (zones d p) \<le> start (zones d p) + max_capacity (zones d p) \<and>
     start (zones d p) + max_capacity (zones d p) < 2 ^ 64"

lemma AddRecord_ok:
  assumes E: "pwrite_contract E" and z: "log_zone_ok (log_zone log) d" and r: "phys_size (block_sz d) (length r) < 2 ^ 32"
  defines "p \<equiv> log_zone log" and "n \<equiv> phys_size (block_sz d) (length r)"
  shows "\<exists>s d'. AddRecord E crc log r d = Some (s, d') \<and>
    (if capacity (zones d p) < n then s = NoSpace \<and> d' = d
     else s = IOError \<or> s = OK \<and> log_zone_ok p d' \<and> wp (zones d' p) = wp (zones d p) + n \<and> capacity (zones d' p) = capacity (zones d p) - n \<and>
       start (zones d' p) = start (zones d p) \<and> max_capacity (zones d' p) = max_capacity (zones d p) \<and> block_sz d' = block_sz d \<and>
       map (the_disk d') [wp (zones d p) ..< wp (zones d p) + n] = record_bytes crc (block_sz d) r \<and>
       (\<forall>a < wp (zones d p). the_disk d' a = the_disk d a))"
proof -
  have bs: "0 < block_sz d" using z by (simp add: log_zone_ok_def)
  note ps = phys_size_ok[OF bs, of "length r"]
  have "length r < 2 ^ 32" using ps(2) r by simp
  then have len: "length (record_bytes crc (block_sz d) r) = n" using length_record_bytes[OF bs] by (simp add: n_def)
  have lim: "wp (zones d p) + capacity (zones d p) < 2 ^ 64" using z by (simp add: log_zone_ok_def p_def)
  obtain s k d' where a: "Append E p (record_bytes crc (block_sz d) r) d = Some (s, d')" "k \<le> n" "appended p (record_bytes crc (block_sz d) r) k d d'"
    "if capacity (zones d p) < n then s = NoSpace \<and> d' = d \<and> k = 0 else s = OK \<and> k = n \<or> s = IOError"
    using Append_ok[OF E _ _ lim, of "record_bytes crc (block_sz d) r", unfolded len] r ps(1) unfolding n_def by auto
  show ?thesis
  proof (cases "s = OK")
    case True
    then have k: "k = n" "n \<le> capacity (zones d p)" using a(4) by (auto split: if_splits)
    obtain m disk where d': "d' = on_zone p (\<lambda>z. z\<lparr>wp := wp z + n, capacity := capacity z - n\<rparr>) (d\<lparr>calls := m, the_disk := disk\<rparr>)"
      "\<forall>i<n. disk (wp (zones d p) + i) = record_bytes crc (block_sz d) r ! i"
      "\<forall>a. a < wp (zones d p) \<or> wp (zones d p) + n \<le> a \<longrightarrow> disk a = the_disk d a"
      using a(3) k len unfolding appended_def by auto
    have "map disk [wp (zones d p) ..< wp (zones d p) + n] = record_bytes crc (block_sz d) r"
      using d'(2) len by (intro nth_equalityI) auto
    moreover have "(wp (zones d p) + n) mod block_sz d = 0" using z ps(1) unfolding log_zone_ok_def p_def n_def by (metis add_0 mod_add_eq mod_0)
    ultimately show ?thesis using True a(1) k z d'(1,3) by (simp add: AddRecord_def p_def[symmetric] log_zone_ok_def)
  next
    case False
    then show ?thesis using a by (auto simp: AddRecord_def p_def[symmetric] split: if_splits)
  qed
qed

lemma add_records_stored:
  assumes E: "pwrite_contract E" and p: "log_zone log = p"
  shows "log_zone_ok p d \<Longrightarrow> \<forall>r \<in> set rs. phys_size (block_sz d) (length r) < 2 ^ 32 \<Longrightarrow> add_records E crc log rs d = Some (OK, d') \<Longrightarrow>
    log_zone_ok p d' \<and> block_sz d' = block_sz d \<and> wp (zones d' p) = wp (zones d p) + log_span (block_sz d) rs \<and>
    stored crc (the_disk d') (block_sz d) (wp (zones d p)) rs \<and> (\<forall>a < wp (zones d p). the_disk d' a = the_disk d a)"
proof (induction rs arbitrary: d)
  case Nil
  then show ?case by simp
next
  case (Cons r rs)
  let ?n = "phys_size (block_sz d) (length r)"
  obtain s d1 where a: "AddRecord E crc log r d = Some (s, d1)" using Cons.prems(3) by (auto simp: bind_eq_Some_conv)
  then have s: "s = OK" "add_records E crc log rs d1 = Some (OK, d')" using Cons.prems(3) by (auto split: if_splits)
  have "phys_size (block_sz d) (length r) < 2 ^ 32" using Cons.prems(2) by simp
  then have r: "log_zone_ok p d1" "wp (zones d1 p) = wp (zones d p) + ?n" "block_sz d1 = block_sz d"
    "map (the_disk d1) [wp (zones d p) ..< wp (zones d p) + ?n] = record_bytes crc (block_sz d) r"
    "\<forall>a < wp (zones d p). the_disk d1 a = the_disk d a"
    using AddRecord_ok[OF E, of log d r crc] Cons.prems(1) a s(1) p by (auto split: if_splits)
  note IH = Cons.IH[OF r(1) _ s(2), unfolded r(2,3)]
  have "map (the_disk d') [wp (zones d p) ..< wp (zones d p) + ?n] = map (the_disk d1) [wp (zones d p) ..< wp (zones d p) + ?n]"
    using IH Cons.prems(2) by (intro map_cong) auto
  then show ?case using IH Cons.prems(2) r(4,5) by (auto simp: add.assoc)
qed

lemma read_records_ok:
  assumes E: "pread_contract E"
  shows "stored crc (the_disk d) (block_sz d) (read_pos log) rs \<Longrightarrow> log_zone_ok (log_zone log) d \<Longrightarrow> read_pos log mod block_sz d = 0 \<Longrightarrow>
    \<forall>r \<in> set rs. r \<noteq> [] \<and> length r < 2 ^ 32 \<Longrightarrow> read_pos log + log_span (block_sz d) rs = wp (zones d (log_zone log)) \<Longrightarrow>
    length rs < n \<Longrightarrow> read_records E crc n log d = Some (OK, rs)"
proof (induction rs arbitrary: log d n)
  case Nil
  then obtain n' where n: "n = Suc n'" by (cases n) auto
  have "ReadRecord E crc log d = Some (OK, [], log, d)" using Nil.prems(5) by (simp add: ReadRecord_def log_Read_def)
  then show ?case by (simp add: n)
next
  case (Cons r rs)
  then obtain n' where n: "n = Suc n'" by (cases n) auto
  let ?p = "log_zone log" and ?k = "phys_size (block_sz d) (length r)"
  have z: "0 < block_sz d" "wp (zones d ?p) \<le> start (zones d ?p) + max_capacity (zones d ?p)" "start (zones d ?p) + max_capacity (zones d ?p) < 2 ^ 64"
    using Cons.prems(2) by (auto simp: log_zone_ok_def)
  have st: "map (the_disk d) [read_pos log ..< read_pos log + ?k] = record_bytes crc (block_sz d) r" using Cons.prems(1) by simp
  have len: "length r < 2 ^ 32" "read_pos log + ?k \<le> wp (zones d ?p)" using Cons.prems(4,5) by auto
  obtain m where rd: "ReadRecord E crc log d = Some (OK, r, log\<lparr>read_pos := read_pos log + ?k\<rparr>, d\<lparr>calls := m\<rparr>)"
    using ReadRecord_ok[OF E z(1) len(1) st Cons.prems(3) len(2) z(2,3) refl refl] by blast
  have "(read_pos log + ?k) mod block_sz d = 0" using Cons.prems(3) phys_size_ok(1)[OF z(1), of "length r"] by (metis add_0 mod_add_eq mod_0)
  then have "read_records E crc n' (log\<lparr>read_pos := read_pos log + ?k\<rparr>) (d\<lparr>calls := m\<rparr>) = Some (OK, rs)"
    using Cons.prems n by (intro Cons.IH) (auto simp: log_zone_ok_def)
  then show ?case using rd Cons.prems(4) by (simp add: n)
qed

end
