(* ===== verification/ZenFs.thy ===== *)
theory ZenFs
  imports ZenPath ZenCodec ZenMeta
begin

text \<open>
  The file system (\<open>src/zenfs-2.0.0/fs/fs_zenfs.h\<close>, \<open>fs_zenfs.cc\<close>): the table of files, the metadata log
  and the operations on names.

  The state extends the one of the device. A \<open>ZoneFile\<close> object has an address in the heap \<open>file_objs\<close>; the
  table maps names to addresses, in the order of \<open>std::map\<close>. \<open>handles\<close> lists the other shared pointers to
  objects: the open files and the local variables of the operation that runs. An object is destroyed with its
  last pointer. The locks are left out, there is one thread.

  The auxiliary file system, the clock and the CRC are the parameter \<open>X\<close>.
\<close>

section \<open>State\<close>

datatype aux_call =
    AuxDeleteFile bytes | AuxRenameFile bytes bytes | AuxLinkFile bytes bytes | AuxFileExists bytes
  | AuxDeleteDir bytes | AuxCreateDirIfMissing bytes | AuxNewSequentialFile bytes | AuxNewRandomAccessFile bytes
  | AuxGetFileSize bytes | AuxGetFileModificationTime bytes | AuxNumFileLinks bytes | AuxAreFilesSame bytes bytes

record surroundings =
  crc32c_Extend :: crc_fun
  time_now :: "nat \<Rightarrow> nat"
  unique_id :: bytes
  ZENFS_VERSION :: bytes
  aux :: "nat \<Rightarrow> aux_call \<Rightarrow> IOStatus"
  aux_value :: "nat \<Rightarrow> aux_call \<Rightarrow> nat"
  aux_children :: "nat \<Rightarrow> bytes \<Rightarrow> IOStatus \<times> bytes list"
  aux_is_directory :: "nat \<Rightarrow> bytes \<Rightarrow> IOStatus \<times> bool"

record ZenFS = ZonedBlockDevice +
  files :: "(bytes \<times> nat) list"
  file_objs :: "nat \<Rightarrow> ZoneFile"
  nr_files :: nat
  handles :: "nat list"
  next_file_id :: nat
  meta_log :: "ZenMetaLog option"
  superblock :: "Superblock option"

definition kCompleteFilesSnapshot :: nat where "kCompleteFilesSnapshot = 1"
definition kFileUpdate :: nat where "kFileUpdate = 2"
definition kFileDeletion :: nat where "kFileDeletion = 3"
definition kEndRecord :: nat where "kEndRecord = 4"
definition kFileReplace :: nat where "kFileReplace = 5"

lemmas record_tags = kCompleteFilesSnapshot_def kFileUpdate_def kFileDeletion_def kEndRecord_def kFileReplace_def

text \<open>\<open>std::map\<close>: \<open>insert\<close> leaves an entry that is there already.\<close>

fun name_less :: "bytes \<Rightarrow> bytes \<Rightarrow> bool" where
  "name_less [] ys \<longleftrightarrow> ys \<noteq> []"
| "name_less (x # xs) [] \<longleftrightarrow> False"
| "name_less (x # xs) (y # ys) \<longleftrightarrow> x < y \<or> x = y \<and> name_less xs ys"

fun map_insert :: "bytes \<Rightarrow> nat \<Rightarrow> (bytes \<times> nat) list \<Rightarrow> (bytes \<times> nat) list" where
  "map_insert k a [] = [(k, a)]"
| "map_insert k a ((k', a') # m) =
     (if k = k' then (k', a') # m else if name_less k k' then (k, a) # (k', a') # m else (k', a') # map_insert k a m)"

definition map_erase :: "bytes \<Rightarrow> (bytes \<times> nat) list \<Rightarrow> (bytes \<times> nat) list" where
  "map_erase k m = filter (\<lambda>(k', a). k' \<noteq> k) m"

definition upd_obj :: "nat \<Rightarrow> ZoneFile \<Rightarrow> ZenFS \<Rightarrow> ZenFS" where
  "upd_obj a f fs = fs\<lparr>file_objs := (file_objs fs)(a := f)\<rparr>"

definition call_aux :: "surroundings \<Rightarrow> aux_call \<Rightarrow> ZenFS \<Rightarrow> IOStatus \<times> ZenFS" where
  "call_aux X c fs = (aux X (calls fs) c, tick fs)"

definition ToAuxPath :: "bytes \<Rightarrow> ZenFS \<Rightarrow> bytes option" where
  "ToAuxPath path fs = map_option (\<lambda>sb. takeWhile (\<lambda>c. c \<noteq> 0) (aux_fs_path sb) @ path) (superblock fs)"

section \<open>Persisting metadata\<close>

definition ZenFS_EncodeSnapshotTo :: "ZenFS \<Rightarrow> bytes" where
  "ZenFS_EncodeSnapshotTo fs =
     PutLengthPrefixedSlice (PutFixed32 [] kCompleteFilesSnapshot)
       (fold (\<lambda>(name, a) files_string. PutLengthPrefixedSlice files_string (EncodeSnapshotTo (file_objs fs a))) (files fs) [])"

definition EncodeFileDeletionTo :: "ZoneFile \<Rightarrow> bytes \<Rightarrow> bytes" where
  "EncodeFileDeletionTo f linkf =
     PutLengthPrefixedSlice (PutFixed32 [] kFileDeletion) (PutLengthPrefixedSlice (PutFixed64 [] (file_id f)) linkf)"

definition WriteSnapshotLocked :: "outside \<Rightarrow> surroundings \<Rightarrow> ZenMetaLog \<Rightarrow> ZenFS \<Rightarrow> (IOStatus \<times> ZenFS) option" where
  "WriteSnapshotLocked E X log fs = do {
     (s, fs) \<leftarrow> AddRecord E (crc32c_Extend X) log (ZenFS_EncodeSnapshotTo fs) fs;
     Some (s, if s = OK then fold (\<lambda>(name, a) fs. upd_obj a (MetadataSynced (file_objs fs a)) fs) (files fs) fs else fs)
   }"

definition WriteEndRecord :: "outside \<Rightarrow> surroundings \<Rightarrow> ZenMetaLog \<Rightarrow> ZenFS \<Rightarrow> (IOStatus \<times> ZenFS) option" where
  "WriteEndRecord E X log fs = AddRecord E (crc32c_Extend X) log (PutFixed32 [] kEndRecord) fs"

text \<open>The end record and the finished zone are best effort: their statuses are not looked at.\<close>

definition end_log :: "outside \<Rightarrow> surroundings \<Rightarrow> ZenMetaLog \<Rightarrow> ZenFS \<Rightarrow> ZenFS option" where
  "end_log E X old_meta_log fs = do {
     let p = log_zone old_meta_log;
     fs \<leftarrow> (if capacity (zones fs p) \<noteq> 0 then map_option snd (WriteEndRecord E X old_meta_log fs) else Some fs);
     if capacity (zones fs p) \<noteq> 0 then map_option snd (Finish E p fs) else Some fs
   }"

definition start_log :: "outside \<Rightarrow> surroundings \<Rightarrow> ZenMetaLog \<Rightarrow> ZenFS \<Rightarrow> (IOStatus \<times> ZenFS) option" where
  "start_log E X log fs = do {
     sb \<leftarrow> superblock fs;
     (super_string, sb) \<leftarrow> Superblock_EncodeTo sb;
     AddRecord E (crc32c_Extend X) log super_string (fs\<lparr>superblock := Some sb\<rparr>)
   }"

definition RollMetaZoneLocked :: "outside \<Rightarrow> surroundings \<Rightarrow> ZenFS \<Rightarrow> (IOStatus \<times> ZenFS) option" where
  "RollMetaZoneLocked E X fs = do {
     (status, new_meta_zone, fs) \<leftarrow> AllocateMetaZone E fs;
     if status \<noteq> OK then Some (status, fs)
     else do {
       p \<leftarrow> new_meta_zone;
       new_meta_log \<leftarrow> new_ZenMetaLog p fs;
       old_meta_log \<leftarrow> meta_log fs;
       let fs = fs\<lparr>meta_log := Some new_meta_log\<rparr>;
       fs \<leftarrow> end_log E X old_meta_log fs;
       (s, fs) \<leftarrow> start_log E X new_meta_log fs;
       if s \<noteq> OK then do { fs \<leftarrow> destroy_ZenMetaLog old_meta_log fs; Some (IOError, fs) }
       else do {
         (s, fs) \<leftarrow> WriteSnapshotLocked E X new_meta_log fs;
         fs \<leftarrow> (if s = OK then map_option snd (Reset E (log_zone old_meta_log) fs) else Some fs);
         fs \<leftarrow> destroy_ZenMetaLog old_meta_log fs;
         Some (s, fs)
       }
     }
   }"

definition PersistSnapshot :: "outside \<Rightarrow> surroundings \<Rightarrow> ZenMetaLog \<Rightarrow> ZenFS \<Rightarrow> (IOStatus \<times> ZenFS) option" where
  "PersistSnapshot E X meta_writer fs = do {
     (s, fs) \<leftarrow> WriteSnapshotLocked E X meta_writer fs;
     if s = NoSpace then RollMetaZoneLocked E X fs else Some (s, fs)
   }"

definition PersistRecord :: "outside \<Rightarrow> surroundings \<Rightarrow> bytes \<Rightarrow> ZenFS \<Rightarrow> (IOStatus \<times> ZenFS) option" where
  "PersistRecord E X record fs = do {
     log \<leftarrow> meta_log fs;
     (s, fs) \<leftarrow> AddRecord E (crc32c_Extend X) log record fs;
     if s = NoSpace then RollMetaZoneLocked E X fs else Some (s, fs)
   }"

definition update_record :: "bool \<Rightarrow> ZoneFile \<Rightarrow> bytes" where
  "update_record replace f = PutLengthPrefixedSlice (PutFixed32 [] (if replace then kFileReplace else kFileUpdate)) (EncodeUpdateTo f)"

definition SyncFileMetadataNoLock :: "outside \<Rightarrow> surroundings \<Rightarrow> nat \<Rightarrow> bool \<Rightarrow> ZenFS \<Rightarrow> (IOStatus \<times> ZenFS) option" where
  "SyncFileMetadataNoLock E X a replace fs =
     (if is_deleted (file_objs fs a) then Some (OK, fs)
      else do {
        let fs = (if replace then fs else upd_obj a ((file_objs fs a)\<lparr>m_time := time_now X (calls fs)\<rparr>) (tick fs));
        (s, fs) \<leftarrow> PersistRecord E X (update_record replace (file_objs fs a)) fs;
        Some (s, if s = OK then upd_obj a (MetadataSynced (file_objs fs a)) fs else fs)
      })"

definition SyncFileMetadata :: "outside \<Rightarrow> surroundings \<Rightarrow> nat \<Rightarrow> bool \<Rightarrow> ZenFS \<Rightarrow> (IOStatus \<times> ZenFS) option" where
  "SyncFileMetadata E X a replace fs = SyncFileMetadataNoLock E X a replace fs"

text \<open>The writer of the file at address \<open>a\<close>: the file that runs is put into the heap and taken out again.\<close>

definition Persist :: "outside \<Rightarrow> surroundings \<Rightarrow> nat \<Rightarrow> ZoneFile \<Rightarrow> ZenFS \<Rightarrow> (IOStatus \<times> ZoneFile \<times> ZenFS) option" where
  "Persist E X a f fs = do {
     (s, fs) \<leftarrow> SyncFileMetadata E X a False (upd_obj a f fs);
     Some (s, file_objs fs a, fs)
   }"

fun release_moved :: "ZoneExtent list \<Rightarrow> ZoneExtent list \<Rightarrow> ZenFS \<Rightarrow> ZenFS" where
  "release_moved (old_ext # olds) (new_ext # news) fs =
     release_moved olds news
       (if e_start old_ext \<noteq> e_start new_ext
        then on_zone (e_zone old_ext) (\<lambda>z. z\<lparr>used_capacity := sub64 (used_capacity z) (e_length old_ext)\<rparr>) fs else fs)"
| "release_moved olds news fs = fs"

definition SyncFileExtents :: "outside \<Rightarrow> surroundings \<Rightarrow> nat \<Rightarrow> ZoneExtent list \<Rightarrow> ZenFS \<Rightarrow> (IOStatus \<times> ZenFS) option" where
  "SyncFileExtents E X a new_extents fs = do {
     let old_extents = extents (file_objs fs a);
     f \<leftarrow> ReplaceExtentList new_extents (file_objs fs a);
     (s, fs) \<leftarrow> SyncFileMetadata E X a True (upd_obj a (f\<lparr>nr_synced_extents := 0\<rparr>) fs);
     if s \<noteq> OK then Some (s, fs) else Some (OK, release_moved old_extents new_extents fs)
   }"

section \<open>Shared pointers\<close>

definition referenced :: "nat \<Rightarrow> ZenFS \<Rightarrow> bool" where
  "referenced a fs \<longleftrightarrow> a \<in> snd ` set (files fs) \<or> a \<in> set (handles fs)"

definition hold_ref :: "nat \<Rightarrow> ZenFS \<Rightarrow> ZenFS" where
  "hold_ref a fs = fs\<lparr>handles := a # handles fs\<rparr>"

definition destroy_unreferenced :: "outside \<Rightarrow> surroundings \<Rightarrow> nat \<Rightarrow> ZenFS \<Rightarrow> ZenFS option" where
  "destroy_unreferenced E X a fs =
     (if referenced a fs then Some fs else destroy_ZoneFile E (Persist E X a) (file_objs fs a) fs)"

definition drop_ref :: "outside \<Rightarrow> surroundings \<Rightarrow> nat \<Rightarrow> ZenFS \<Rightarrow> ZenFS option" where
  "drop_ref E X a fs = destroy_unreferenced E X a (fs\<lparr>handles := remove1 a (handles fs)\<rparr>)"

fun clear_files_loop :: "outside \<Rightarrow> surroundings \<Rightarrow> (bytes \<times> nat) list \<Rightarrow> ZenFS \<Rightarrow> ZenFS option" where
  "clear_files_loop E X [] fs = Some (fs\<lparr>files := []\<rparr>)"
| "clear_files_loop E X ((name, a) # m) fs = do {
     fs \<leftarrow> destroy_unreferenced E X a (fs\<lparr>files := m\<rparr>);
     clear_files_loop E X m fs
   }"

definition ClearFiles :: "outside \<Rightarrow> surroundings \<Rightarrow> ZenFS \<Rightarrow> ZenFS option" where
  "ClearFiles E X fs = clear_files_loop E X (files fs) fs"

section \<open>Files by name\<close>

definition GetFileNoLock :: "bytes \<Rightarrow> ZenFS \<Rightarrow> nat option" where
  "GetFileNoLock fname fs = map_of (files fs) (FormatPathLexically fname)"

definition GetFile :: "bytes \<Rightarrow> ZenFS \<Rightarrow> nat option" where
  "GetFile fname fs = GetFileNoLock fname fs"

text \<open>The file at address \<open>a\<close> loses the name; the caller holds a pointer to it.\<close>

definition delete_link :: "outside \<Rightarrow> surroundings \<Rightarrow> bytes \<Rightarrow> nat \<Rightarrow> ZenFS \<Rightarrow> (IOStatus \<times> ZenFS) option" where
  "delete_link E X fname a fs =
     (if open_for_wr (file_objs fs a) then Some (Busy, fs)
      else do {
        let fs = fs\<lparr>files := map_erase fname (files fs)\<rparr>;
        (s, f) \<leftarrow> RemoveLinkName fname (file_objs fs a);
        let fs = upd_obj a f fs;
        if s \<noteq> OK then Some (s, fs)
        else do {
          (s, fs) \<leftarrow> PersistRecord E X (EncodeFileDeletionTo f fname) fs;
          if s \<noteq> OK then Some (s, upd_obj a (AddLinkName fname (file_objs fs a)) (fs\<lparr>files := map_insert fname a (files fs)\<rparr>))
          else if linkfiles (file_objs fs a) \<noteq> [] then Some (s, fs)
          else Some (s, upd_obj a ((file_objs fs a)\<lparr>is_deleted := True\<rparr>) fs)
        }
      })"

definition DeleteFileNoLock :: "outside \<Rightarrow> surroundings \<Rightarrow> bytes \<Rightarrow> ZenFS \<Rightarrow> (IOStatus \<times> ZenFS) option" where
  "DeleteFileNoLock E X fname fs = do {
     let fname = FormatPathLexically fname;
     case GetFileNoLock fname fs of
       Some a \<Rightarrow> do {
         (s, fs) \<leftarrow> delete_link E X fname a (hold_ref a fs);
         fs \<leftarrow> drop_ref E X a fs;
         Some (s, fs)
       }
     | None \<Rightarrow> do { path \<leftarrow> ToAuxPath fname fs; Some (call_aux X (AuxDeleteFile path) fs) }
   }"

definition DeleteFile :: "outside \<Rightarrow> surroundings \<Rightarrow> bytes \<Rightarrow> ZenFS \<Rightarrow> (IOStatus \<times> ZenFS) option" where
  "DeleteFile E X fname fs = do {
     (s, fs) \<leftarrow> DeleteFileNoLock E X fname fs;
     if s = OK then ResetUnusedIOZones E fs else Some (s, fs)
   }"

text \<open>An open file: the address of its object and the state of the handle.\<close>

type_synonym wfile = "nat \<times> ZonedWritableFile"

definition open_handle :: "bool \<Rightarrow> nat \<Rightarrow> ZenFS \<Rightarrow> wfile \<times> ZenFS" where
  "open_handle use_direct_writes a fs =
     (let h = new_ZonedWritableFile (\<not> use_direct_writes) (file_objs fs a) fs
      in ((a, h), hold_ref a (upd_obj a (w_file h) fs)))"

definition dot_log :: bytes where "dot_log = [46, 108, 111, 103]"

definition new_file :: "surroundings \<Rightarrow> bytes \<Rightarrow> bool \<Rightarrow> ZenFS \<Rightarrow> nat \<times> ZenFS" where
  "new_file X fname use_direct_writes fs =
     (let f = AddLinkName fname ((new_ZoneFile (next_file_id fs))\<lparr>m_time := time_now X (calls fs)\<rparr>);
          f = (if ends_with fname dot_log then f\<lparr>io_type := kWAL, is_sparse := \<not> use_direct_writes\<rparr> else f\<lparr>io_type := kUnknown\<rparr>);
          a = nr_files fs
      in (a, upd_obj a f (tick fs\<lparr>next_file_id := u64 (next_file_id fs + 1), nr_files := a + 1\<rparr>)))"

definition create_file :: "outside \<Rightarrow> surroundings \<Rightarrow> bytes \<Rightarrow> bool \<Rightarrow> ZenFS \<Rightarrow> (IOStatus \<times> wfile option \<times> ZenFS) option" where
  "create_file E X fname use_direct_writes fs =
     (case new_file X fname use_direct_writes fs of (a, fs) \<Rightarrow> do {
        (s, fs) \<leftarrow> SyncFileMetadataNoLock E X a False (hold_ref a fs);
        if s \<noteq> OK then do { fs \<leftarrow> drop_ref E X a fs; Some (s, None, fs) }
        else do {
          let (h, fs) = open_handle use_direct_writes a (fs\<lparr>files := map_insert fname a (files fs)\<rparr>);
          fs \<leftarrow> drop_ref E X a fs;
          Some (s, Some h, fs)
        }
      })"

definition OpenWritableFile ::
  "outside \<Rightarrow> surroundings \<Rightarrow> bytes \<Rightarrow> bool \<Rightarrow> bool \<Rightarrow> ZenFS \<Rightarrow> (IOStatus \<times> wfile option \<times> ZenFS) option" where
  "OpenWritableFile E X filename use_direct_writes reopen fs = do {
     let fname = FormatPathLexically filename;
     case GetFileNoLock fname fs of
       None \<Rightarrow> create_file E X fname use_direct_writes fs
     | Some a \<Rightarrow>
         if reopen then (case open_handle use_direct_writes a fs of (h, fs) \<Rightarrow> Some (OK, Some h, fs))
         else do {
           (s, fs) \<leftarrow> DeleteFileNoLock E X fname (hold_ref a fs);
           fs \<leftarrow> drop_ref E X a fs;
           if s \<noteq> OK then Some (s, None, fs)
           else do {
             (s, h, fs) \<leftarrow> create_file E X fname use_direct_writes fs;
             if s \<noteq> OK then Some (s, h, fs)
             else do { (s, fs) \<leftarrow> ResetUnusedIOZones E fs; Some (s, h, fs) }
           }
         }
   }"

definition NewWritableFile :: "outside \<Rightarrow> surroundings \<Rightarrow> bytes \<Rightarrow> bool \<Rightarrow> ZenFS \<Rightarrow> (IOStatus \<times> wfile option \<times> ZenFS) option" where
  "NewWritableFile E X filename use_direct_writes fs = OpenWritableFile E X (FormatPathLexically filename) use_direct_writes False fs"

definition ReopenWritableFile :: "outside \<Rightarrow> surroundings \<Rightarrow> bytes \<Rightarrow> bool \<Rightarrow> ZenFS \<Rightarrow> (IOStatus \<times> wfile option \<times> ZenFS) option" where
  "ReopenWritableFile E X filename use_direct_writes fs = OpenWritableFile E X (FormatPathLexically filename) use_direct_writes True fs"

definition ReuseWritableFile ::
  "outside \<Rightarrow> surroundings \<Rightarrow> bytes \<Rightarrow> bytes \<Rightarrow> bool \<Rightarrow> ZenFS \<Rightarrow> (IOStatus \<times> wfile option \<times> ZenFS) option" where
  "ReuseWritableFile E X filename old_filename use_direct_writes fs = do {
     let fname = FormatPathLexically filename;
     let old_fname = FormatPathLexically old_filename;
     if GetFile old_fname fs = None then Some (NotFound, None, fs)
     else do {
       (s, fs) \<leftarrow> DeleteFile E X old_fname fs;
       if s \<noteq> OK then Some (s, None, fs) else OpenWritableFile E X fname use_direct_writes False fs
     }
   }"

text \<open>
  Opening for reading returns the address of the object; for a file that is not in the table the auxiliary
  file system answers. \<open>NewRandomAccessFile\<close> looks the file up a second time, under the name formatted only
  once; when that is another name than the one found, the map gets an empty pointer, which is followed.
\<close>

definition NewSequentialFile ::
  "surroundings \<Rightarrow> bytes \<Rightarrow> bool \<Rightarrow> ZenFS \<Rightarrow> (IOStatus \<times> (nat \<times> ZonedSequentialFile) option \<times> ZenFS) option" where
  "NewSequentialFile X filename use_direct_reads fs = do {
     let fname = FormatPathLexically filename;
     case GetFile fname fs of
       None \<Rightarrow> do {
         path \<leftarrow> ToAuxPath fname fs;
         let (s, fs) = call_aux X (AuxNewSequentialFile path) fs;
         Some (s, None, fs)
       }
     | Some a \<Rightarrow>
         let f = file_objs fs a
         in Some (OK, Some (a, \<lparr>rp = 0, use_direct = (use_direct_reads \<and> \<not> is_sparse f), r_file = f\<rparr>), hold_ref a fs)
   }"

definition NewRandomAccessFile ::
  "surroundings \<Rightarrow> bytes \<Rightarrow> bool \<Rightarrow> ZenFS \<Rightarrow> (IOStatus \<times> (nat \<times> bool) option \<times> ZenFS) option" where
  "NewRandomAccessFile X filename use_direct_reads fs = do {
     let fname = FormatPathLexically filename;
     case GetFile fname fs of
       None \<Rightarrow> do {
         path \<leftarrow> ToAuxPath fname fs;
         let (s, fs) = call_aux X (AuxNewRandomAccessFile path) fs;
         Some (s, None, fs)
       }
     | Some a \<Rightarrow> do {
         a \<leftarrow> map_of (files fs) fname;
         Some (OK, Some (a, use_direct_reads \<and> \<not> is_sparse (file_objs fs a)), hold_ref a fs)
       }
   }"

section \<open>Queries\<close>

definition ask_aux :: "surroundings \<Rightarrow> (bytes \<Rightarrow> aux_call) \<Rightarrow> bytes \<Rightarrow> ZenFS \<Rightarrow> (IOStatus \<times> nat \<times> ZenFS) option" where
  "ask_aux X c fname fs = do {
     path \<leftarrow> ToAuxPath fname fs;
     Some (aux X (calls fs) (c path), aux_value X (calls fs) (c path), tick fs)
   }"

definition FileExists :: "surroundings \<Rightarrow> bytes \<Rightarrow> ZenFS \<Rightarrow> (IOStatus \<times> ZenFS) option" where
  "FileExists X filename fs = do {
     let fname = FormatPathLexically filename;
     if GetFile fname fs = None then do { path \<leftarrow> ToAuxPath fname fs; Some (call_aux X (AuxFileExists path) fs) }
     else Some (OK, fs)
   }"

definition GetFileModificationTime :: "surroundings \<Rightarrow> bytes \<Rightarrow> ZenFS \<Rightarrow> (IOStatus \<times> nat \<times> ZenFS) option" where
  "GetFileModificationTime X filename fs =
     (let f = FormatPathLexically filename
      in case map_of (files fs) f of
           Some a \<Rightarrow> Some (OK, m_time (file_objs fs a), fs)
         | None \<Rightarrow> ask_aux X AuxGetFileModificationTime f fs)"

definition GetFileSize :: "surroundings \<Rightarrow> bytes \<Rightarrow> ZenFS \<Rightarrow> (IOStatus \<times> nat \<times> ZenFS) option" where
  "GetFileSize X filename fs =
     (let f = FormatPathLexically filename
      in case map_of (files fs) f of
           Some a \<Rightarrow> Some (OK, file_size (file_objs fs a), fs)
         | None \<Rightarrow> ask_aux X AuxGetFileSize f fs)"

definition NumFileLinks :: "surroundings \<Rightarrow> bytes \<Rightarrow> ZenFS \<Rightarrow> (IOStatus \<times> nat \<times> ZenFS) option" where
  "NumFileLinks X filename fs =
     (let fname = FormatPathLexically filename
      in case GetFileNoLock fname fs of
           Some a \<Rightarrow> Some (OK, length (linkfiles (file_objs fs a)), fs)
         | None \<Rightarrow> ask_aux X AuxNumFileLinks fname fs)"

text \<open>The auxiliary file system is asked about names without its own prefix.\<close>

definition AreFilesSame :: "surroundings \<Rightarrow> bytes \<Rightarrow> bytes \<Rightarrow> ZenFS \<Rightarrow> IOStatus \<times> bool \<times> ZenFS" where
  "AreFilesSame X filename linkf fs =
     (let fname = FormatPathLexically filename;
          link = FormatPathLexically linkf
      in case (GetFileNoLock fname fs, GetFileNoLock link fs) of
           (Some a, Some b) \<Rightarrow> (OK, file_id (file_objs fs a) = file_id (file_objs fs b), fs)
         | _ \<Rightarrow> (aux X (calls fs) (AuxAreFilesSame fname link), aux_value X (calls fs) (AuxAreFilesSame fname link) \<noteq> 0, tick fs))"

definition IsDirectoryNoLock :: "surroundings \<Rightarrow> bytes \<Rightarrow> ZenFS \<Rightarrow> (IOStatus \<times> bool \<times> ZenFS) option" where
  "IsDirectoryNoLock X path fs =
     (if GetFileNoLock path fs \<noteq> None then Some (OK, False, fs)
      else do {
        aux_path \<leftarrow> ToAuxPath path fs;
        let (s, is_dir) = aux_is_directory X (calls fs) aux_path;
        Some (s, is_dir, tick fs)
      })"

definition GetZenFSChildrenNoLock :: "bytes \<Rightarrow> bool \<Rightarrow> ZenFS \<Rightarrow> bytes list option" where
  "GetZenFSChildrenNoLock dir include_grandchildren fs =
     (let dir_sep = path_as_string_with_separator_at_end dir
      in do {
        assert_c (list_all (\<lambda>(name, a). has_filename name) (files fs));
        Some (concat (map (\<lambda>(name, a).
          let file_dir = path_as_string_with_separator_at_end (parent_path name)
          in if starts_with file_dir dir_sep \<and> (include_grandchildren \<or> length file_dir = length dir_sep)
             then [drop (length dir_sep) name] else []) (files fs)))
      })"

definition GetChildrenNoLock :: "surroundings \<Rightarrow> bytes \<Rightarrow> ZenFS \<Rightarrow> (IOStatus \<times> bytes list \<times> ZenFS) option" where
  "GetChildrenNoLock X dir_path fs = do {
     let dir = FormatPathLexically dir_path;
     path \<leftarrow> ToAuxPath dir fs;
     let (s, auxfiles) = aux_children X (calls fs) path;
     let fs = tick fs;
     if s \<noteq> OK then Some (if s = NotFound then OK else s, [], fs)
     else do {
       children \<leftarrow> GetZenFSChildrenNoLock dir False fs;
       Some (s, filter (\<lambda>f. f \<noteq> [dot] \<and> f \<noteq> [dot, dot]) auxfiles @ children, fs)
     }
   }"

section \<open>Links, renaming, directories\<close>

definition LinkFile :: "outside \<Rightarrow> surroundings \<Rightarrow> bytes \<Rightarrow> bytes \<Rightarrow> ZenFS \<Rightarrow> (IOStatus \<times> ZenFS) option" where
  "LinkFile E X filename link fs = do {
     let fname = FormatPathLexically filename;
     let lname = FormatPathLexically link;
     if GetFileNoLock lname fs \<noteq> None then Some (InvalidArgument, fs)
     else case GetFileNoLock fname fs of
       Some a \<Rightarrow> do {
         let fs = upd_obj a (AddLinkName lname (file_objs fs a)) fs;
         (s, fs) \<leftarrow> SyncFileMetadataNoLock E X a False (fs\<lparr>files := map_insert lname a (files fs)\<rparr>);
         if s = OK then Some (s, fs)
         else do {
           (s, f) \<leftarrow> RemoveLinkName lname (file_objs fs a);
           let fs = upd_obj a f fs;
           if s \<noteq> OK then Some (s, fs) else Some (s, fs\<lparr>files := map_erase lname (files fs)\<rparr>)
         }
       }
     | None \<Rightarrow> do {
         path \<leftarrow> ToAuxPath fname fs;
         lpath \<leftarrow> ToAuxPath lname fs;
         Some (call_aux X (AuxLinkFile path lpath) fs)
       }
   }"

definition rename_link :: "outside \<Rightarrow> surroundings \<Rightarrow> bytes \<Rightarrow> bytes \<Rightarrow> nat \<Rightarrow> ZenFS \<Rightarrow> (IOStatus \<times> ZenFS) option" where
  "rename_link E X source_path dest_path a fs =
     (case RenameLink source_path dest_path (file_objs fs a) of (s, f) \<Rightarrow>
        let fs = upd_obj a f fs
        in if s \<noteq> OK then Some (s, fs)
           else do {
             (s, fs) \<leftarrow> SyncFileMetadataNoLock E X a False (fs\<lparr>files := map_insert dest_path a (map_erase source_path (files fs))\<rparr>);
             if s = OK then Some (s, fs)
             else (case RenameLink dest_path source_path (file_objs fs a) of (s, f) \<Rightarrow>
               let fs = upd_obj a f (fs\<lparr>files := map_erase dest_path (files fs)\<rparr>)
               in if s \<noteq> OK then Some (s, fs) else Some (s, fs\<lparr>files := map_insert source_path a (files fs)\<rparr>))
           })"

definition rename_zen_file :: "outside \<Rightarrow> surroundings \<Rightarrow> bytes \<Rightarrow> bytes \<Rightarrow> nat \<Rightarrow> ZenFS \<Rightarrow> (IOStatus \<times> ZenFS) option" where
  "rename_zen_file E X source_path dest_path a fs = do {
     let fs = hold_ref a fs;
     (s, fs) \<leftarrow>
       (case GetFileNoLock dest_path fs of
          None \<Rightarrow> rename_link E X source_path dest_path a fs
        | Some b \<Rightarrow> do {
            (s, fs) \<leftarrow> DeleteFileNoLock E X dest_path (hold_ref b fs);
            (s, fs) \<leftarrow> (if s \<noteq> OK then Some (s, fs) else rename_link E X source_path dest_path a fs);
            fs \<leftarrow> drop_ref E X b fs;
            Some (s, fs)
          });
     fs \<leftarrow> drop_ref E X a fs;
     Some (s, fs)
   }"

type_synonym renamer = "bytes \<Rightarrow> bytes \<Rightarrow> ZenFS \<Rightarrow> (IOStatus \<times> ZenFS) option"

definition RenameChildNoLock :: "renamer \<Rightarrow> bytes \<Rightarrow> bytes \<Rightarrow> bytes \<Rightarrow> ZenFS \<Rightarrow> (IOStatus \<times> ZenFS) option" where
  "RenameChildNoLock rename source_dir dest_dir child fs =
     rename (path_append source_dir child) (path_append dest_dir child) fs"

fun rollback_loop :: "renamer \<Rightarrow> bytes \<Rightarrow> bytes \<Rightarrow> bytes list \<Rightarrow> ZenFS \<Rightarrow> (IOStatus \<times> ZenFS) option" where
  "rollback_loop rename source_path dest_path [] fs = Some (OK, fs)"
| "rollback_loop rename source_path dest_path (child # rest) fs = do {
     (s, fs) \<leftarrow> RenameChildNoLock rename dest_path source_path child fs;
     if s \<noteq> OK then Some (Corruption, fs) else rollback_loop rename source_path dest_path rest fs
   }"

definition RollbackAuxDirRenameNoLock ::
  "renamer \<Rightarrow> surroundings \<Rightarrow> bytes \<Rightarrow> bytes \<Rightarrow> bytes list \<Rightarrow> ZenFS \<Rightarrow> (IOStatus \<times> ZenFS) option" where
  "RollbackAuxDirRenameNoLock rename X source_path dest_path renamed_children fs = do {
     (s, fs) \<leftarrow> rollback_loop rename source_path dest_path renamed_children fs;
     if s \<noteq> OK then Some (s, fs)
     else do {
       dest \<leftarrow> ToAuxPath dest_path fs;
       source \<leftarrow> ToAuxPath source_path fs;
       let (s, fs) = call_aux X (AuxRenameFile dest source) fs;
       Some (if s \<noteq> OK then Corruption else s, fs)
     }
   }"

fun rename_children_loop ::
  "renamer \<Rightarrow> surroundings \<Rightarrow> bytes \<Rightarrow> bytes \<Rightarrow> bytes list \<Rightarrow> bytes list \<Rightarrow> ZenFS \<Rightarrow> (IOStatus \<times> ZenFS) option" where
  "rename_children_loop rename X source_path dest_path [] renamed_children fs = Some (OK, fs)"
| "rename_children_loop rename X source_path dest_path (child # rest) renamed_children fs = do {
     (s, fs) \<leftarrow> RenameChildNoLock rename source_path dest_path child fs;
     if s \<noteq> OK then do {
       (r, fs) \<leftarrow> RollbackAuxDirRenameNoLock rename X source_path dest_path renamed_children fs;
       Some (if r \<noteq> OK then r else s, fs)
     }
     else rename_children_loop rename X source_path dest_path rest (renamed_children @ [child]) fs
   }"

definition RenameAuxPathNoLock :: "renamer \<Rightarrow> surroundings \<Rightarrow> bytes \<Rightarrow> bytes \<Rightarrow> ZenFS \<Rightarrow> (IOStatus \<times> ZenFS) option" where
  "RenameAuxPathNoLock rename X source_path dest_path fs = do {
     source \<leftarrow> ToAuxPath source_path fs;
     dest \<leftarrow> ToAuxPath dest_path fs;
     let (s, fs) = call_aux X (AuxRenameFile source dest) fs;
     if s \<noteq> OK then Some (s, fs)
     else do {
       children \<leftarrow> GetZenFSChildrenNoLock source_path True fs;
       rename_children_loop rename X source_path dest_path children [] fs
     }
   }"

text \<open>
  Renaming a directory renames the files below it, so the function calls itself. The first argument bounds the
  depth: the children are names of files in the table, for which there is no further call.
\<close>

fun RenameFileNoLock :: "nat \<Rightarrow> outside \<Rightarrow> surroundings \<Rightarrow> renamer" where
  "RenameFileNoLock 0 E X src_path dst_path fs = None"
| "RenameFileNoLock (Suc n) E X src_path dst_path fs =
     (let source_path = FormatPathLexically src_path;
          dest_path = FormatPathLexically dst_path
      in case GetFileNoLock source_path fs of
           Some a \<Rightarrow> rename_zen_file E X source_path dest_path a fs
         | None \<Rightarrow> RenameAuxPathNoLock (RenameFileNoLock n E X) X source_path dest_path fs)"

definition RenameFile :: "nat \<Rightarrow> outside \<Rightarrow> surroundings \<Rightarrow> bytes \<Rightarrow> bytes \<Rightarrow> ZenFS \<Rightarrow> (IOStatus \<times> ZenFS) option" where
  "RenameFile n E X source_path dest_path fs = do {
     (s, fs) \<leftarrow> RenameFileNoLock n E X source_path dest_path fs;
     if s = OK then ResetUnusedIOZones E fs else Some (s, fs)
   }"

type_synonym remover = "bytes \<Rightarrow> ZenFS \<Rightarrow> (IOStatus \<times> ZenFS) option"

fun delete_children_loop :: "remover \<Rightarrow> outside \<Rightarrow> surroundings \<Rightarrow> bytes \<Rightarrow> bytes list \<Rightarrow> ZenFS \<Rightarrow> (IOStatus \<times> ZenFS) option" where
  "delete_children_loop remove E X d [] fs = Some (OK, fs)"
| "delete_children_loop remove E X d (child # rest) fs = do {
     let file_to_delete = path_append d child;
     (s, is_dir, fs) \<leftarrow> IsDirectoryNoLock X file_to_delete fs;
     if s \<noteq> OK then Some (s, fs)
     else do {
       (s, fs) \<leftarrow> (if is_dir then remove file_to_delete fs else DeleteFileNoLock E X file_to_delete fs);
       if s \<noteq> OK then Some (s, fs) else delete_children_loop remove E X d rest fs
     }
   }"

text \<open>The first argument bounds the depth of the directories.\<close>

fun DeleteDirRecursiveNoLock :: "nat \<Rightarrow> outside \<Rightarrow> surroundings \<Rightarrow> remover" where
  "DeleteDirRecursiveNoLock 0 E X dir fs = None"
| "DeleteDirRecursiveNoLock (Suc n) E X dir fs = do {
     let d = FormatPathLexically dir;
     (s, children, fs) \<leftarrow> GetChildrenNoLock X d fs;
     if s \<noteq> OK then Some (s, fs)
     else do {
       (s, fs) \<leftarrow> delete_children_loop (DeleteDirRecursiveNoLock n E X) E X d children fs;
       if s \<noteq> OK then Some (s, fs)
       else do { path \<leftarrow> ToAuxPath d fs; Some (call_aux X (AuxDeleteDir path) fs) }
     }
   }"

definition DeleteDirRecursive :: "nat \<Rightarrow> outside \<Rightarrow> surroundings \<Rightarrow> bytes \<Rightarrow> ZenFS \<Rightarrow> (IOStatus \<times> ZenFS) option" where
  "DeleteDirRecursive n E X d fs = do {
     (s, fs) \<leftarrow> DeleteDirRecursiveNoLock n E X d fs;
     if s = OK then ResetUnusedIOZones E fs else Some (s, fs)
   }"

definition DeleteDir :: "surroundings \<Rightarrow> bytes \<Rightarrow> ZenFS \<Rightarrow> (IOStatus \<times> ZenFS) option" where
  "DeleteDir X d fs = do {
     (s, children, fs) \<leftarrow> GetChildrenNoLock X d fs;
     if children \<noteq> [] then Some (IOError, fs)
     else do { path \<leftarrow> ToAuxPath d fs; Some (call_aux X (AuxDeleteDir path) fs) }
   }"

section \<open>Operations of an open file\<close>

definition with_handle ::
  "(ZonedWritableFile \<Rightarrow> ZenFS \<Rightarrow> (IOStatus \<times> ZonedWritableFile \<times> ZenFS) option) \<Rightarrow> wfile \<Rightarrow> ZenFS \<Rightarrow> (IOStatus \<times> wfile \<times> ZenFS) option" where
  "with_handle f h fs = (case h of (a, h) \<Rightarrow> do {
     (s, h, fs) \<leftarrow> f (h\<lparr>w_file := file_objs fs a\<rparr>) fs;
     Some (s, (a, h), upd_obj a (w_file h) fs)
   })"

definition file_Append :: "outside \<Rightarrow> surroundings \<Rightarrow> bytes \<Rightarrow> wfile \<Rightarrow> ZenFS \<Rightarrow> (IOStatus \<times> wfile \<times> ZenFS) option" where
  "file_Append E X data h = with_handle (ZonedWritableFile_Append E (Persist E X (fst h)) data) h"

definition file_Fsync :: "outside \<Rightarrow> surroundings \<Rightarrow> wfile \<Rightarrow> ZenFS \<Rightarrow> (IOStatus \<times> wfile \<times> ZenFS) option" where
  "file_Fsync E X h = with_handle (Fsync E (Persist E X (fst h))) h"

definition file_Close :: "outside \<Rightarrow> surroundings \<Rightarrow> wfile \<Rightarrow> ZenFS \<Rightarrow> (IOStatus \<times> wfile \<times> ZenFS) option" where
  "file_Close E X h = with_handle (CloseInternal E (Persist E X (fst h))) h"

end
