(* ===== verification/ZenMount.thy ===== *)
theory ZenMount
  imports ZenFs
begin

text \<open>
  Making, mounting and recovering a file system, and the migration of extents
  (\<open>src/zenfs-2.0.0/fs/fs_zenfs.cc\<close>).
\<close>

section \<open>Replaying the metadata log\<close>

definition insert_links :: "nat \<Rightarrow> bytes list \<Rightarrow> ZenFS \<Rightarrow> ZenFS" where
  "insert_links a names fs = fs\<lparr>files := fold (\<lambda>name m. map_insert name a m) names (files fs)\<rparr>"

definition note_file_id :: "nat \<Rightarrow> ZenFS \<Rightarrow> ZenFS" where
  "note_file_id fid fs = (if fid \<ge> next_file_id fs then fs\<lparr>next_file_id := u64 (fid + 1)\<rparr> else fs)"

text \<open>A new object for what is decoded; the local variable holds it.\<close>

definition decode_object :: "bytes \<Rightarrow> ZenFS \<Rightarrow> (IOStatus \<times> nat \<times> ZenFS) option" where
  "decode_object bs fs = do {
     (s, f, fs) \<leftarrow> DecodeFrom bs (new_ZoneFile 0) fs;
     let a = nr_files fs;
     Some (s, a, hold_ref a (upd_obj a f (fs\<lparr>nr_files := a + 1\<rparr>)))
   }"

lemma GetLengthPrefixedSlice_strict: "GetLengthPrefixedSlice input = Some (v, rest) \<Longrightarrow> length rest < length input"
  by (auto simp: GetLengthPrefixedSlice_def GetVarint32_def GetVarint32PtrFallback.simps bind_eq_Some_conv split: if_splits list.splits
      dest!: GetVarint32PtrFallback_shrinks)

function DecodeSnapshotFrom_loop :: "outside \<Rightarrow> surroundings \<Rightarrow> bytes \<Rightarrow> ZenFS \<Rightarrow> (IOStatus \<times> ZenFS) option" where
  "DecodeSnapshotFrom_loop E X input fs =
     (case GetLengthPrefixedSlice input of
        None \<Rightarrow> Some (OK, fs)
      | Some (bs, rest) \<Rightarrow> do {
          (s, a, fs) \<leftarrow> decode_object bs fs;
          if s \<noteq> OK then do { fs \<leftarrow> drop_ref E X a fs; Some (s, fs) }
          else do {
            let f = file_objs fs a;
            fs \<leftarrow> drop_ref E X a (insert_links a (linkfiles f) (note_file_id (file_id f) fs));
            DecodeSnapshotFrom_loop E X rest fs
          }
        })"
  by pat_completeness auto
termination
  by (relation "measure (\<lambda>(E, X, input, fs). length input)") (auto dest: GetLengthPrefixedSlice_strict)

declare DecodeSnapshotFrom_loop.simps [simp del]

definition DecodeSnapshotFrom :: "outside \<Rightarrow> surroundings \<Rightarrow> bytes \<Rightarrow> ZenFS \<Rightarrow> (IOStatus \<times> ZenFS) option" where
  "DecodeSnapshotFrom E X input fs = do { assert_c (files fs = []); DecodeSnapshotFrom_loop E X input fs }"

text \<open>Taking the names of a file out of the table stops at the first one that is missing.\<close>

fun erase_links :: "bytes list \<Rightarrow> (bytes \<times> nat) list \<Rightarrow> bool \<times> (bytes \<times> nat) list" where
  "erase_links [] m = (True, m)"
| "erase_links (name # names) m = (if map_of m name = None then (False, m) else erase_links names (map_erase name m))"

definition merge_into :: "outside \<Rightarrow> surroundings \<Rightarrow> nat \<Rightarrow> bool \<Rightarrow> nat \<Rightarrow> ZenFS \<Rightarrow> (IOStatus \<times> ZenFS) option" where
  "merge_into E X update replace b fs =
     (case erase_links (linkfiles (file_objs fs b)) (files fs) of (ok, m) \<Rightarrow>
        let fs = fs\<lparr>files := m\<rparr>
        in if \<not> ok then do { fs \<leftarrow> drop_ref E X update fs; Some (Corruption, fs) }
           else do {
             (s, f, fs) \<leftarrow> MergeUpdate (file_objs fs update) replace (file_objs fs b) fs;
             fs \<leftarrow> drop_ref E X update (upd_obj b f fs);
             if s \<noteq> OK then Some (s, fs) else Some (OK, insert_links b (linkfiles (file_objs fs b)) fs)
           })"

definition DecodeFileUpdateFrom :: "outside \<Rightarrow> surroundings \<Rightarrow> bytes \<Rightarrow> bool \<Rightarrow> ZenFS \<Rightarrow> (IOStatus \<times> ZenFS) option" where
  "DecodeFileUpdateFrom E X bs replace fs = do {
     (s, a, fs) \<leftarrow> decode_object bs fs;
     if s \<noteq> OK then do { fs \<leftarrow> drop_ref E X a fs; Some (s, fs) }
     else do {
       let update = file_objs fs a;
       let fs = note_file_id (file_id update) fs;
       case find (\<lambda>(name, b). file_id (file_objs fs b) = file_id update) (files fs) of
         Some (name, b) \<Rightarrow> do {
           (s, fs) \<leftarrow> merge_into E X a replace b (hold_ref b fs);
           fs \<leftarrow> drop_ref E X b fs;
           Some (s, fs)
         }
       | None \<Rightarrow> do {
           assert_c (linkfiles update \<noteq> []);
           let name = hd (linkfiles update);
           assert_c (GetFile name fs = None);
           fs \<leftarrow> drop_ref E X a (fs\<lparr>files := map_insert name a (files fs)\<rparr>);
           Some (OK, fs)
         }
     }
   }"

definition DecodeFileDeletionFrom :: "outside \<Rightarrow> surroundings \<Rightarrow> bytes \<Rightarrow> ZenFS \<Rightarrow> (IOStatus \<times> ZenFS) option" where
  "DecodeFileDeletionFrom E X input fs =
     (case GetFixed64 input of
        None \<Rightarrow> Some (Corruption, fs)
      | Some (fileID, input) \<Rightarrow>
          (case GetLengthPrefixedSlice input of
             None \<Rightarrow> Some (Corruption, fs)
           | Some (fileName, input) \<Rightarrow>
               (case map_of (files fs) fileName of
                  None \<Rightarrow> Some (Corruption, fs)
                | Some a \<Rightarrow>
                    if file_id (file_objs fs a) \<noteq> fileID then Some (Corruption, fs)
                    else do {
                      let fs = hold_ref a (fs\<lparr>files := map_erase fileName (files fs)\<rparr>);
                      (s, f) \<leftarrow> RemoveLinkName fileName (file_objs fs a);
                      fs \<leftarrow> drop_ref E X a (upd_obj a f fs);
                      Some (if s \<noteq> OK then Corruption else OK, fs)
                    })))"

definition replay_record :: "outside \<Rightarrow> surroundings \<Rightarrow> nat \<Rightarrow> bytes \<Rightarrow> ZenFS \<Rightarrow> (IOStatus \<times> ZenFS) option" where
  "replay_record E X tag data fs =
     (if tag = kCompleteFilesSnapshot then do { fs \<leftarrow> ClearFiles E X fs; DecodeSnapshotFrom E X data fs }
      else if tag = kFileUpdate then DecodeFileUpdateFrom E X data False fs
      else if tag = kFileReplace then DecodeFileUpdateFrom E X data True fs
      else if tag = kFileDeletion then DecodeFileDeletionFrom E X data fs
      else Some (Corruption, fs))"

partial_function (option) recover_loop ::
  "outside \<Rightarrow> surroundings \<Rightarrow> ZenMetaLog \<Rightarrow> bool \<Rightarrow> ZenFS \<Rightarrow> (IOStatus \<times> ZenMetaLog \<times> ZenFS) option" where
  "recover_loop E X log at_least_one_snapshot fs = do {
     (rs, record, log, fs) \<leftarrow> ReadRecord E (crc32c_Extend X) log fs;
     let finish = Some (if at_least_one_snapshot then OK else NotFound, log, fs);
     if rs \<noteq> OK then Some (Corruption, log, fs)
     else case GetFixed32 record of
       None \<Rightarrow> finish
     | Some (tag, record) \<Rightarrow>
         if tag = kEndRecord then finish
         else case GetLengthPrefixedSlice record of
           None \<Rightarrow> Some (Corruption, log, fs)
         | Some (data, rest) \<Rightarrow> do {
             (s, fs) \<leftarrow> replay_record E X tag data fs;
             if s \<noteq> OK then Some (s, log, fs)
             else recover_loop E X log (at_least_one_snapshot \<or> tag = kCompleteFilesSnapshot) fs
           }
   }"

definition RecoverFrom :: "outside \<Rightarrow> surroundings \<Rightarrow> ZenMetaLog \<Rightarrow> ZenFS \<Rightarrow> (IOStatus \<times> ZenMetaLog \<times> ZenFS) option" where
  "RecoverFrom E X log fs = recover_loop E X log False fs"

fun repair_loop :: "outside \<Rightarrow> (bytes \<times> nat) list \<Rightarrow> ZenFS \<Rightarrow> (IOStatus \<times> ZenFS) option" where
  "repair_loop E [] fs = Some (OK, fs)"
| "repair_loop E ((name, a) # m) fs =
     (if HasActiveExtent (file_objs fs a) then do {
        (s, f, fs) \<leftarrow> Recover E (file_objs fs a) fs;
        let fs = upd_obj a f fs;
        if s \<noteq> OK then Some (s, fs) else repair_loop E m fs
      }
      else repair_loop E m fs)"

definition Repair :: "outside \<Rightarrow> ZenFS \<Rightarrow> (IOStatus \<times> ZenFS) option" where
  "Repair E fs = repair_loop E (files fs) fs"

section \<open>Mounting\<close>

record valid_log =
  v_seq :: nat
  v_superblock :: Superblock
  v_log :: ZenMetaLog

fun destroy_logs :: "ZenMetaLog list \<Rightarrow> ZenFS \<Rightarrow> ZenFS option" where
  "destroy_logs [] fs = Some fs"
| "destroy_logs (log # logs) fs = do { fs \<leftarrow> destroy_ZenMetaLog log fs; destroy_logs logs fs }"

text \<open>The superblocks at the start of the metadata zones; a failure gives the logs found so far back.\<close>

fun find_superblocks ::
  "outside \<Rightarrow> surroundings \<Rightarrow> nat list \<Rightarrow> valid_log list \<Rightarrow> ZenFS \<Rightarrow> (IOStatus \<times> valid_log list \<times> ZenFS) option" where
  "find_superblocks E X [] found fs = Some (OK, found, fs)"
| "find_superblocks E X (p # ps) found fs =
     (case Acquire p fs of (acquired, fs) \<Rightarrow>
        if \<not> acquired then None
        else do {
          log \<leftarrow> new_ZenMetaLog p fs;
          (s, super_record, log, fs) \<leftarrow> ReadRecord E (crc32c_Extend X) log fs;
          if s \<noteq> OK \<or> super_record = [] then do { fs \<leftarrow> destroy_ZenMetaLog log fs; find_superblocks E X ps found fs }
          else do {
            (s, sb) \<leftarrow> Superblock_DecodeFrom super_record;
            let s = (if s = OK then CompatibleWith sb fs else s);
            if s \<noteq> OK then do { fs \<leftarrow> destroy_logs (log # map v_log found) fs; Some (s, [], fs) }
            else find_superblocks E X ps (found @ [\<lparr>v_seq = sequence sb, v_superblock = sb, v_log = log\<rparr>]) fs
          }
        })"

text \<open>Descending by sequence number, later entries first among equals, as sorting the pairs with their index does.\<close>

fun insert_by_seq :: "valid_log \<Rightarrow> valid_log list \<Rightarrow> valid_log list" where
  "insert_by_seq v [] = [v]"
| "insert_by_seq v (w # ws) = (if v_seq v \<ge> v_seq w then v # w # ws else w # insert_by_seq v ws)"

definition sort_by_seq :: "valid_log list \<Rightarrow> valid_log list" where
  "sort_by_seq vs = fold insert_by_seq vs []"

text \<open>The log that recovery succeeds with, and the logs not looked at.\<close>

fun recover_newest ::
  "outside \<Rightarrow> surroundings \<Rightarrow> valid_log list \<Rightarrow> ZenFS \<Rightarrow> (IOStatus \<times> (valid_log \<times> valid_log list) option \<times> ZenFS) option" where
  "recover_newest E X [] fs = Some (OK, None, fs)"
| "recover_newest E X (v # vs) fs = do {
     (s, log, fs) \<leftarrow> RecoverFrom E X (v_log v) fs;
     if s = NotFound then do { fs \<leftarrow> destroy_ZenMetaLog log fs; recover_newest E X vs fs }
     else if s \<noteq> OK then do { fs \<leftarrow> destroy_logs (log # map v_log vs) fs; Some (s, None, fs) }
     else Some (OK, Some (v\<lparr>v_log := log\<rparr>, vs), fs)
   }"

definition finish_mount :: "outside \<Rightarrow> surroundings \<Rightarrow> bool \<Rightarrow> valid_log \<Rightarrow> valid_log list \<Rightarrow> ZenFS \<Rightarrow> (IOStatus \<times> ZenFS) option" where
  "finish_mount E X readonly v rest fs = do {
     let fs = fs\<lparr>meta_log := Some (v_log v), superblock := Some (v_superblock v), finish_threshold := finish_treshold (v_superblock v)\<rparr>;
     path \<leftarrow> ToAuxPath [] fs;
     let (s, fs) = call_aux X (AuxCreateDirIfMissing path) fs;
     fs \<leftarrow> destroy_logs (map v_log rest) fs;
     if s \<noteq> OK then Some (s, fs)
     else do {
       (s, fs) \<leftarrow> Repair E fs;
       if s \<noteq> OK then Some (s, fs)
       else if readonly then Some (OK, fs)
       else do {
         (s, fs) \<leftarrow> RollMetaZoneLocked E X fs;
         if s \<noteq> OK then Some (s, fs) else ResetUnusedIOZones E fs
       }
     }
   }"

definition Mount :: "outside \<Rightarrow> surroundings \<Rightarrow> bool \<Rightarrow> ZenFS \<Rightarrow> (IOStatus \<times> ZenFS) option" where
  "Mount E X readonly fs =
     (if length (meta_zones fs) < 2 then Some (NotSupported, fs)
      else do {
        (s, found, fs) \<leftarrow> find_superblocks E X (meta_zones fs) [] fs;
        if s \<noteq> OK then Some (s, fs)
        else if found = [] then Some (NotFound, fs)
        else do {
          (s, r, fs) \<leftarrow> recover_newest E X (sort_by_seq found) fs;
          if s \<noteq> OK then Some (s, fs)
          else case r of None \<Rightarrow> Some (IOError, fs) | Some (v, rest) \<Rightarrow> finish_mount E X readonly v rest fs
        }
      })"

section \<open>Making a file system\<close>

text \<open>All metadata zones are reset; the first that could be stays acquired.\<close>

fun reset_meta_zones :: "outside \<Rightarrow> nat list \<Rightarrow> nat option \<Rightarrow> ZenFS \<Rightarrow> (nat option \<times> ZenFS) option" where
  "reset_meta_zones E [] meta_zone fs = Some (meta_zone, fs)"
| "reset_meta_zones E (p # ps) meta_zone fs =
     (case Acquire p fs of (acquired, fs) \<Rightarrow>
        if \<not> acquired then None
        else do {
          (s, fs) \<leftarrow> Reset E p fs;
          let meta_zone = (if s = OK \<and> meta_zone = None then Some p else meta_zone);
          if meta_zone = Some p then reset_meta_zones E ps meta_zone fs
          else (case Release p fs of (ok, fs) \<Rightarrow> if ok then reset_meta_zones E ps meta_zone fs else None)
        })"

definition MkFS :: "outside \<Rightarrow> surroundings \<Rightarrow> bytes \<Rightarrow> nat \<Rightarrow> ZenFS \<Rightarrow> (IOStatus \<times> ZenFS) option" where
  "MkFS E X aux_fs_p threshold fs = do {
     let aux_path = FormatPathLexically aux_fs_p;
     if length aux_path > 255 then Some (InvalidArgument, fs)
     else do {
       fs \<leftarrow> ClearFiles E X fs;
       (status, fs) \<leftarrow> ResetUnusedIOZones E fs;
       if status \<noteq> OK then Some (status, fs)
       else do {
         (meta_zone, fs) \<leftarrow> reset_meta_zones E (meta_zones fs) None fs;
         case meta_zone of
           None \<Rightarrow> Some (IOError, fs)
         | Some p \<Rightarrow> do {
             log \<leftarrow> new_ZenMetaLog p fs;
             (super_string, sb) \<leftarrow> Superblock_EncodeTo (new_Superblock (unique_id X) (ZENFS_VERSION X) aux_path threshold fs);
             (s, fs) \<leftarrow> AddRecord E (crc32c_Extend X) log super_string fs;
             (s, fs) \<leftarrow>
               (if s \<noteq> OK then Some (s, fs)
                else do { (s, fs) \<leftarrow> PersistSnapshot E X log fs; Some (if s \<noteq> OK then IOError else OK, fs) });
             fs \<leftarrow> destroy_ZenMetaLog log fs;
             Some (s, fs)
           }
       }
     }
   }"

section \<open>Migration\<close>

record ZoneExtentSnapshot =
  x_start :: nat
  x_length :: nat
  x_filename :: bytes

definition dot_sst :: bytes where "dot_sst = [46, 115, 115, 116]"

definition migrate_extent :: "outside \<Rightarrow> nat \<Rightarrow> ZoneExtent \<Rightarrow> nat \<Rightarrow> ZenFS \<Rightarrow> (ZoneExtent \<times> ZenFS) option" where
  "migrate_extent E a ext target_zone fs = do {
     let sparse = is_sparse (file_objs fs a);
     let target_start = u64 (wp (zones fs target_zone) + (if sparse then SPARSE_HEADER_SIZE else 0));
     (s, fs) \<leftarrow>
       (if sparse then MigrateData E (sub64 (e_start ext) SPARSE_HEADER_SIZE) (u32 (e_length ext + SPARSE_HEADER_SIZE)) target_zone fs
        else MigrateData E (e_start ext) (u32 (e_length ext)) target_zone fs);
     Some (ext\<lparr>e_start := target_start, e_zone := target_zone\<rparr>, fs)
   }"

text \<open>
  The loop over the copy of the extents. \<open>break\<close> leaves it when the file is gone from the table; the list is
  synced in any case.
\<close>

fun migrate_extents_loop ::
  "outside \<Rightarrow> bytes \<Rightarrow> nat \<Rightarrow> ZoneExtentSnapshot list \<Rightarrow> ZoneExtent list \<Rightarrow> ZenFS \<Rightarrow> (ZoneExtent list \<times> ZenFS) option" where
  "migrate_extents_loop E fname a migrate_exts [] fs = Some ([], fs)"
| "migrate_extents_loop E fname a migrate_exts (ext # exts) fs =
     (if \<not> list_ex (\<lambda>x. x_start x = e_start ext \<and> x_length x = e_length ext) migrate_exts
      then do { (news, fs) \<leftarrow> migrate_extents_loop E fname a migrate_exts exts fs; Some (ext # news, fs) }
      else do {
        (s, target_zone, fs) \<leftarrow> TakeMigrateZone (file_lifetime (file_objs fs a)) (u32 (e_length ext)) fs;
        if s \<noteq> OK then do { (news, fs) \<leftarrow> migrate_extents_loop E fname a migrate_exts exts fs; Some (ext # news, fs) }
        else case target_zone of
          None \<Rightarrow> do {
            (s, fs) \<leftarrow> ReleaseMigrateZone None fs;
            (news, fs) \<leftarrow> migrate_extents_loop E fname a migrate_exts exts fs;
            Some (ext # news, fs)
          }
        | Some p \<Rightarrow> do {
            (new_ext, fs) \<leftarrow> migrate_extent E a ext p fs;
            if GetFileNoLock fname fs = None then do {
              (s, fs) \<leftarrow> ReleaseMigrateZone (Some p) fs;
              Some (ext # exts, fs)
            }
            else do {
              (s, fs) \<leftarrow> ReleaseMigrateZone (Some p) (add_used p (e_length ext) fs);
              (news, fs) \<leftarrow> migrate_extents_loop E fname a migrate_exts exts fs;
              Some (new_ext # news, fs)
            }
          }
      })"

definition MigrateFileExtents :: "outside \<Rightarrow> surroundings \<Rightarrow> bytes \<Rightarrow> ZoneExtentSnapshot list \<Rightarrow> ZenFS \<Rightarrow> (IOStatus \<times> ZenFS) option" where
  "MigrateFileExtents E X fname migrate_exts fs =
     (case GetFile fname fs of
        None \<Rightarrow> Some (OK, fs)
      | Some a \<Rightarrow>
          if open_for_wr (file_objs fs a) then Some (OK, fs)
          else do {
            let fs = hold_ref a fs;
            (new_extent_list, fs) \<leftarrow> migrate_extents_loop E fname a migrate_exts (extents (file_objs fs a)) fs;
            (s, fs) \<leftarrow> SyncFileExtents E X a new_extent_list fs;
            fs \<leftarrow> drop_ref E X a fs;
            Some (OK, fs)
          })"

fun migrate_files_loop ::
  "outside \<Rightarrow> surroundings \<Rightarrow> (bytes \<times> ZoneExtentSnapshot list) list \<Rightarrow> ZenFS \<Rightarrow> (IOStatus \<times> ZenFS) option" where
  "migrate_files_loop E X [] fs = Some (OK, fs)"
| "migrate_files_loop E X ((fname, exts) # rest) fs = do {
     (s, fs) \<leftarrow> MigrateFileExtents E X fname exts fs;
     if s \<noteq> OK then Some (s, fs)
     else do {
       (s, fs) \<leftarrow> ResetUnusedIOZones E fs;
       if s \<noteq> OK then Some (s, fs) else migrate_files_loop E X rest fs
     }
   }"

text \<open>The extents grouped by file name, the names in order.\<close>

fun insert_name :: "bytes \<Rightarrow> bytes list \<Rightarrow> bytes list" where
  "insert_name k [] = [k]"
| "insert_name k (x # xs) = (if k = x then x # xs else if name_less k x then k # x # xs else x # insert_name k xs)"

definition MigrateExtents :: "outside \<Rightarrow> surroundings \<Rightarrow> ZoneExtentSnapshot list \<Rightarrow> ZenFS \<Rightarrow> (IOStatus \<times> ZenFS) option" where
  "MigrateExtents E X exts fs =
     (let chosen = filter (\<lambda>x. ends_with (x_filename x) dot_sst) exts;
          names = fold insert_name (map x_filename chosen) []
      in migrate_files_loop E X (map (\<lambda>name. (name, filter (\<lambda>x. x_filename x = name) chosen)) names) fs)"

end
