(* ===== verification/ZenSync.thy ===== *)
theory ZenSync
  imports ZenAppend ZenMount
begin

text \<open>
  Persisting metadata stays inside the metadata zones: the file system keeps the contract of the metadata
  writer on which appending to files relies.
\<close>

section \<open>Steps on metadata zones\<close>

text \<open>A reset changes only the zone, and the capacity it reports is at most the size of a zone.\<close>

definition reset_contract :: "outside \<Rightarrow> bool" where
  "reset_contract E \<longleftrightarrow>
     (\<forall>n st len disk r disk'. zbd_reset_zones E n st len disk = (r, disk') \<longrightarrow> (\<forall>a. a < st \<or> st + len \<le> a \<longrightarrow> disk' a = disk a)) \<and>
     (\<forall>n st len z k. zbd_report_zones E n st len = (0, z, k) \<longrightarrow> zz_capacity z \<le> len)"

definition in_meta :: "'m ZonedBlockDevice_scheme \<Rightarrow> nat \<Rightarrow> bool" where
  "in_meta d a \<longleftrightarrow> (\<exists>p \<in> set (meta_zones d). start (zones d p) \<le> a \<and> a < start (zones d p) + zone_sz d)"

definition meta_fits :: "nat \<Rightarrow> Zone \<Rightarrow> bool" where
  "meta_fits zsz z \<longleftrightarrow> zone_fits zsz z \<and> capacity z \<le> max_capacity z \<and> max_capacity z \<le> zsz"

text \<open>Zones are smaller than 4 GiB, the largest size that the code passes on as 32 bits.\<close>

definition meta_layout :: "'m ZonedBlockDevice_scheme \<Rightarrow> bool" where
  "meta_layout d \<longleftrightarrow> zone_sz d < 2 ^ 32 \<and> set (meta_zones d) \<inter> set (io_zones d) = {} \<and>
     (\<forall>p \<in> set (meta_zones d). meta_fits (zone_sz d) (zones d p) \<and> start (zones d p) mod block_sz d = 0) \<and>
     (\<forall>p \<in> set (meta_zones d). \<forall>q \<in> set (meta_zones d). p = q \<or> apart (zone_sz d) (zones d p) (zones d q)) \<and>
     (\<forall>p \<in> set (meta_zones d). \<forall>q \<in> set (io_zones d). apart (zone_sz d) (zones d p) (zones d q))"

text \<open>The device part of a step that touches only metadata zones.\<close>

definition meta_step :: "'m ZonedBlockDevice_scheme \<Rightarrow> 'm ZonedBlockDevice_scheme \<Rightarrow> bool" where
  "meta_step d d' \<longleftrightarrow>
     io_zones d' = io_zones d \<and> meta_zones d' = meta_zones d \<and> zone_sz d' = zone_sz d \<and> block_sz d' = block_sz d \<and>
     nr_zones d' = nr_zones d \<and> nr_objects d' = nr_objects d \<and>
     open_io_zones d' = open_io_zones d \<and> active_io_zones d' = active_io_zones d \<and>
     max_nr_open_io_zones d' = max_nr_open_io_zones d \<and> max_nr_active_io_zones d' = max_nr_active_io_zones d \<and>
     (\<forall>p. p \<notin> set (meta_zones d) \<longrightarrow> zones d' p = zones d p) \<and> (\<forall>p. start (zones d' p) = start (zones d p)) \<and>
     (\<forall>a. \<not> in_meta d a \<longrightarrow> the_disk d' a = the_disk d a) \<and> (\<forall>p \<in> set (meta_zones d). meta_fits (zone_sz d) (zones d' p))"

lemma meta_step_in_meta: "meta_step d d' \<Longrightarrow> in_meta d' = in_meta d"
  by (auto simp: meta_step_def in_meta_def)

lemma meta_step_layout: "meta_step d d' \<Longrightarrow> meta_layout d \<Longrightarrow> meta_layout d'"
  by (auto simp: meta_step_def meta_layout_def apart_def)

lemma meta_step_trans: "meta_step d d1 \<Longrightarrow> meta_step d1 d2 \<Longrightarrow> meta_step d d2"
  using meta_step_in_meta[of d d1] by (auto simp: meta_step_def)

lemma meta_step_refl: "meta_layout d \<Longrightarrow> meta_step d d"
  by (simp add: meta_step_def meta_layout_def)

lemma meta_step_quiet:
  assumes "meta_step d d'" "meta_layout d" "layout d"
  shows "quiet d d'"
proof -
  have "\<not> in_meta d a" if io: "in_io d a" for a
  proof
    assume "in_meta d a"
    then obtain p where p: "p \<in> set (meta_zones d)" "start (zones d p) \<le> a" "a < start (zones d p) + zone_sz d" by (auto simp: in_meta_def)
    obtain q where q: "q \<in> set (io_zones d)" "start (zones d q) \<le> a" "a < start (zones d q) + zone_sz d" using io by (auto simp: in_io_def)
    have "apart (zone_sz d) (zones d p) (zones d q)" using assms(2) p(1) q(1) by (simp add: meta_layout_def)
    then show False using p q by (auto simp: apart_def)
  qed
  moreover have "zones d' p = zones d p" if "p \<in> set (io_zones d)" for p
    using assms(1,2) that by (auto simp: meta_step_def meta_layout_def)
  ultimately show ?thesis using assms(1) by (auto simp: meta_step_def quiet_def)
qed

text \<open>A change of one metadata zone and the disk inside it.\<close>

definition same_config :: "'m ZonedBlockDevice_scheme \<Rightarrow> 'm ZonedBlockDevice_scheme \<Rightarrow> bool" where
  "same_config d d' \<longleftrightarrow>
     io_zones d' = io_zones d \<and> meta_zones d' = meta_zones d \<and> zone_sz d' = zone_sz d \<and> block_sz d' = block_sz d \<and>
     nr_zones d' = nr_zones d \<and> nr_objects d' = nr_objects d \<and>
     open_io_zones d' = open_io_zones d \<and> active_io_zones d' = active_io_zones d \<and>
     max_nr_open_io_zones d' = max_nr_open_io_zones d \<and> max_nr_active_io_zones d' = max_nr_active_io_zones d"

lemma meta_step_zone:
  assumes l: "meta_layout d" and p: "p \<in> set (meta_zones d)" and c: "same_config d d'" and zs: "zones d' = (zones d)(p := z)"
    and z: "start z = start (zones d p)" "meta_fits (zone_sz d) z"
    and disk: "\<And>a. a < start (zones d p) \<or> start (zones d p) + zone_sz d \<le> a \<Longrightarrow> the_disk d' a = the_disk d a"
  shows "meta_step d d'"
proof -
  have "the_disk d' a = the_disk d a" if "\<not> in_meta d a" for a
    using that p disk[of a] unfolding in_meta_def by (meson not_le)
  then show ?thesis using l p c z by (auto simp: meta_step_def meta_layout_def same_config_def zs)
qed

lemma meta_step_busy:
  assumes "meta_layout d" "p \<in> set (meta_zones d)"
  shows "meta_step d (on_zone p (\<lambda>z. z\<lparr>busy := b\<rparr>) d)"
  using assms by (intro meta_step_zone[OF assms, where z = "(zones d p)\<lparr>busy := b\<rparr>"]) (auto simp: on_zone_def same_config_def meta_layout_def meta_fits_def zone_fits_def)

lemma meta_Append_appended:
  assumes E: "pwrite_contract E" and l: "meta_layout d" and p: "p \<in> set (meta_zones d)" and a: "Append E p data d = Some (s, d')"
  shows "\<exists>k. k \<le> length data \<and> k \<le> capacity (zones d p) \<and> (wp (zones d p) + length data \<le> start (zones d p) + zone_sz d \<or> d' = d) \<and> (s = NoSpace \<longrightarrow> d' = d) \<and>
    appended p data k d d'"
proof (cases "capacity (zones d p) < length data")
  case True
  then have "d' = d" using a by (simp add: Append_def)
  moreover have "appended p data 0 d d" unfolding appended_def by (intro exI[of _ "calls d"] exI[of _ "the_disk d"]) (simp add: on_zone_id)
  ultimately show ?thesis by auto
next
  case False
  have zf: "zone_fits (zone_sz d) (zones d p)" using l p by (simp add: meta_layout_def meta_fits_def)
  have m: "length data mod block_sz d = 0" using a False by (auto simp: Append_def Let_def bind_eq_Some_conv split: if_splits)
  have len: "length data < 2 ^ 32" using False zf l by (auto simp: zone_fits_def meta_layout_def)
  have lim: "wp (zones d p) + capacity (zones d p) < 2 ^ 64" using zf by (simp add: zone_fits_def)
  show ?thesis using Append_ok[OF E len m lim] a False zf by (auto simp: zone_fits_def)
qed

lemma meta_step_Append:
  assumes E: "pwrite_contract E" and l: "meta_layout d" and p: "p \<in> set (meta_zones d)" and a: "Append E p data d = Some (s, d')"
  shows "meta_step d d'" "ZonedBlockDevice.more d' = ZonedBlockDevice.more d"
proof -
  have mf: "meta_fits (zone_sz d) (zones d p)" using l p by (simp add: meta_layout_def)
  obtain k where k: "k \<le> length data" "k \<le> capacity (zones d p)" "wp (zones d p) + length data \<le> start (zones d p) + zone_sz d \<or> d' = d"
    "appended p data k d d'" using meta_Append_appended[OF assms] by blast
  obtain n disk where d': "d' = on_zone p (\<lambda>z. z\<lparr>wp := wp z + k, capacity := capacity z - k\<rparr>) (d\<lparr>calls := n, the_disk := disk\<rparr>)"
    "\<And>a. a < wp (zones d p) \<or> wp (zones d p) + length data \<le> a \<Longrightarrow> disk a = the_disk d a"
    using k(4) by (auto simp: appended_def)
  then show "ZonedBlockDevice.more d' = ZonedBlockDevice.more d" by simp
  show "meta_step d d'"
  proof (cases "d' = d")
    case False
    show ?thesis
      using mf k(2,3) d'(2) False unfolding d'(1)
      by (intro meta_step_zone[OF l p, where z = "(zones d p)\<lparr>wp := wp (zones d p) + k, capacity := capacity (zones d p) - k\<rparr>"])
        (auto simp: meta_fits_def zone_fits_def same_config_def on_zone_def)
  qed (use meta_step_refl[OF l] in simp)
qed

lemma meta_step_Finish:
  assumes l: "meta_layout d" and p: "p \<in> set (meta_zones d)" and f: "Finish E p d = Some (s, d')"
  shows "meta_step d d'" "ZonedBlockDevice.more d' = ZonedBlockDevice.more d"
proof -
  let ?z = "(zones d p)\<lparr>capacity := 0, wp := u64 (start (zones d p) + zone_sz d)\<rparr>"
  have mf: "meta_fits (zone_sz d) (zones d p)" using l p by (simp add: meta_layout_def)
  then have zf: "zone_fits (zone_sz d) (zones d p)" by (simp add: meta_fits_def)
  then have z: "meta_fits (zone_sz d) ?z" using mf by (simp add: meta_fits_def zone_fits_def)
  have d': "d' = tick d \<or> d' = on_zone p (\<lambda>z. z\<lparr>capacity := 0, wp := u64 (start z + zone_sz d)\<rparr>) (tick d)"
    using f by (auto simp: Finish_def Let_def bind_eq_Some_conv split: if_splits)
  then show "ZonedBlockDevice.more d' = ZonedBlockDevice.more d" by auto
  have "meta_step d (tick d)" using meta_step_refl[OF l] by (simp add: meta_step_def)
  moreover have "meta_step d (on_zone p (\<lambda>z. z\<lparr>capacity := 0, wp := u64 (start z + zone_sz d)\<rparr>) (tick d))"
    using z by (intro meta_step_zone[OF l p, where z = ?z]) (auto simp: same_config_def on_zone_def)
  ultimately show "meta_step d d'" using d' by auto
qed

lemma meta_step_Reset:
  assumes E: "reset_contract E" and l: "meta_layout d" and p: "p \<in> set (meta_zones d)" and r: "Reset E p d = Some (s, d')"
  shows "meta_step d d'" "ZonedBlockDevice.more d' = ZonedBlockDevice.more d"
proof -
  have mf: "meta_fits (zone_sz d) (zones d p)" using l p by (simp add: meta_layout_def)
  then have zf: "zone_fits (zone_sz d) (zones d p)" by (simp add: meta_fits_def)
  obtain ret disk where rs: "zbd_reset_zones E (calls d) (start (zones d p)) (zone_sz d) (the_disk d) = (ret, disk)" by fastforce
  have disk: "disk a = the_disk d a" if "a < start (zones d p) \<or> start (zones d p) + zone_sz d \<le> a" for a
    using E rs that unfolding reset_contract_def by blast
  define d1 where "d1 = tick (d\<lparr>the_disk := disk\<rparr>)"
  obtain ret2 z k where rp: "zbd_report_zones E (calls d1) (start (zones d p)) (zone_sz d) = (ret2, z, k)" by (metis surj_pair)
  have cap: "zz_capacity z \<le> zone_sz d" if "ret2 = 0" using E rp that unfolding reset_contract_def by blast
  define d2 where "d2 = tick d1"
  have f: "zones d1 = zones d" "zones d2 = zones d" "the_disk d1 = disk" "the_disk d2 = disk" "zone_sz d1 = zone_sz d" "same_config d d1" "same_config d d2"
    "ZonedBlockDevice.more d1 = ZonedBlockDevice.more d" "ZonedBlockDevice.more d2 = ZonedBlockDevice.more d"
    by (simp_all add: d1_def d2_def same_config_def)
  let ?off = "on_zone p (\<lambda>zo. zo\<lparr>wp := start zo, lifetime := WLTH_NOT_SET\<rparr>) (on_zone p (\<lambda>zo. zo\<lparr>capacity := 0\<rparr>) d2)"
  let ?on = "on_zone p (\<lambda>zo. zo\<lparr>wp := start zo, lifetime := WLTH_NOT_SET\<rparr>) (on_zone p (\<lambda>zo. zo\<lparr>capacity := zz_capacity z, max_capacity := zz_capacity z\<rparr>) d2)"
  have d': "d' = d1 \<or> d' = d2 \<or> d' = ?off \<or> d' = ?on \<and> ret2 = 0"
    using r rs rp unfolding Reset_def by (auto simp: Let_def bind_eq_Some_conv d1_def[symmetric] d2_def[symmetric] f(1,5) split: if_splits)
  then show "ZonedBlockDevice.more d' = ZonedBlockDevice.more d" using f(8,9) by auto
  have "meta_step d d1" "meta_step d d2"
    using disk f mf by (auto intro!: meta_step_zone[OF l p, where z = "zones d p"])
  moreover have "meta_step d ?off" using disk f mf
    by (intro meta_step_zone[OF l p, where z = "(zones d p)\<lparr>capacity := 0, wp := start (zones d p), lifetime := WLTH_NOT_SET\<rparr>"])
      (auto simp: same_config_def on_zone_def meta_fits_def zone_fits_def)
  moreover have "meta_step d ?on" if "ret2 = 0" using disk f mf cap[OF that]
    by (intro meta_step_zone[OF l p, where z = "(zones d p)\<lparr>capacity := zz_capacity z, max_capacity := zz_capacity z, wp := start (zones d p), lifetime := WLTH_NOT_SET\<rparr>"])
      (auto simp: same_config_def on_zone_def meta_fits_def zone_fits_def)
  ultimately show "meta_step d d'" using d' by auto
qed

lemma allocate_meta_loop_step:
  assumes E: "reset_contract E"
  shows "meta_layout d \<Longrightarrow> set ps \<subseteq> set (meta_zones d) \<Longrightarrow> allocate_meta_loop E ps d = Some (s, z, d') \<Longrightarrow>
    meta_step d d' \<and> ZonedBlockDevice.more d' = ZonedBlockDevice.more d \<and> (\<forall>p. z = Some p \<longrightarrow> p \<in> set ps \<and> s = OK)"
proof (induction ps arbitrary: d)
  case Nil
  then show ?case using meta_step_refl by simp
next
  case (Cons p ps)
  let ?d = "on_zone p (\<lambda>z. z\<lparr>busy := True\<rparr>) d"
  have p: "p \<in> set (meta_zones d)" "set ps \<subseteq> set (meta_zones d)" using Cons.prems(2) by auto
  note b = meta_step_busy[OF Cons.prems(1) p(1), of True]
  have l1: "meta_layout ?d" by (rule meta_step_layout[OF b Cons.prems(1)])
  show ?case
  proof (cases "busy (zones d p)")
    case True
    then show ?thesis using Cons.IH[OF Cons.prems(1) p(2)] Cons.prems(3) by (auto simp: Acquire_def)
  next
    case nb: False
    consider "IsUsed (zones d p)" | "\<not> IsUsed (zones d p)" "IsEmpty (zones d p)" | "\<not> IsUsed (zones d p)" "\<not> IsEmpty (zones d p)" by blast
    then show ?thesis
    proof cases
      case 1
      then show ?thesis using Cons.IH[OF l1] Cons.prems(3) p(2) nb meta_step_trans[OF b] by (auto simp: Acquire_def IsUsed_def)
    next
      case 2
      then show ?thesis using Cons.prems(3) nb b by (auto simp: Acquire_def IsUsed_def IsEmpty_def)
    next
      case 3
      obtain rs d1 where r: "Reset E p ?d = Some (rs, d1)"
        using Cons.prems(3) nb 3 by (cases "Reset E p ?d") (auto simp: Acquire_def IsUsed_def IsEmpty_def)
      have p1: "p \<in> set (meta_zones ?d)" using p by simp
      note rst = meta_step_Reset[OF E l1 p1 r]
      have s1: "meta_step d d1" by (rule meta_step_trans[OF b rst(1)])
      have l2: "meta_layout d1" by (rule meta_step_layout[OF s1 Cons.prems(1)])
      have m1: "meta_zones d1 = meta_zones d" using s1 by (simp add: meta_step_def)
      let ?d2 = "on_zone p (\<lambda>z. z\<lparr>busy := False\<rparr>) d1"
      have s2: "meta_step d1 ?d2" using meta_step_busy[OF l2] p m1 by simp
      have "rs \<noteq> OK \<Longrightarrow> busy (zones d1 p) \<and> allocate_meta_loop E ps ?d2 = Some (s, z, d')" "rs = OK \<Longrightarrow> s = OK \<and> z = Some p \<and> d' = d1"
        using Cons.prems(3) nb 3 r by (auto simp: Acquire_def IsUsed_def IsEmpty_def CheckRelease_def Release_def split: if_splits)
      then show ?thesis
        using Cons.IH[OF meta_step_layout[OF s2 l2]] p(2) m1 rst(2) s1 meta_step_trans[OF s1 meta_step_trans[OF s2]] by (cases "rs = OK") auto
    qed
  qed
qed

section \<open>Steps of the file system\<close>

lemma meta_step_fields [simp]:
  "meta_step d (fs\<lparr>files := a\<rparr>) \<longleftrightarrow> meta_step d fs" "meta_step d (fs\<lparr>file_objs := b\<rparr>) \<longleftrightarrow> meta_step d fs"
  "meta_step d (fs\<lparr>nr_files := c\<rparr>) \<longleftrightarrow> meta_step d fs" "meta_step d (fs\<lparr>handles := e\<rparr>) \<longleftrightarrow> meta_step d fs"
  "meta_step d (fs\<lparr>next_file_id := c\<rparr>) \<longleftrightarrow> meta_step d fs" "meta_step d (fs\<lparr>meta_log := f\<rparr>) \<longleftrightarrow> meta_step d fs"
  "meta_step d (fs\<lparr>superblock := g\<rparr>) \<longleftrightarrow> meta_step d fs" "meta_step d (upd_obj i h fs) \<longleftrightarrow> meta_step d fs"
  "meta_step d (tick fs) \<longleftrightarrow> meta_step d fs"
  by (simp_all add: meta_step_def upd_obj_def)

lemma meta_layout_fields [simp]:
  "meta_layout (fs\<lparr>files := a\<rparr>) \<longleftrightarrow> meta_layout fs" "meta_layout (fs\<lparr>file_objs := b\<rparr>) \<longleftrightarrow> meta_layout fs"
  "meta_layout (fs\<lparr>nr_files := c\<rparr>) \<longleftrightarrow> meta_layout fs" "meta_layout (fs\<lparr>handles := e\<rparr>) \<longleftrightarrow> meta_layout fs"
  "meta_layout (fs\<lparr>next_file_id := c\<rparr>) \<longleftrightarrow> meta_layout fs" "meta_layout (fs\<lparr>meta_log := f\<rparr>) \<longleftrightarrow> meta_layout fs"
  "meta_layout (fs\<lparr>superblock := g\<rparr>) \<longleftrightarrow> meta_layout fs" "meta_layout (upd_obj i h fs) \<longleftrightarrow> meta_layout fs"
  "meta_layout (tick fs) \<longleftrightarrow> meta_layout fs"
  by (simp_all add: meta_layout_def upd_obj_def)

lemma zen_more:
  fixes fs fs' :: ZenFS
  assumes "ZonedBlockDevice.more fs' = ZonedBlockDevice.more fs"
  shows "files fs' = files fs" "file_objs fs' = file_objs fs" "nr_files fs' = nr_files fs" "handles fs' = handles fs"
    "next_file_id fs' = next_file_id fs" "meta_log fs' = meta_log fs" "superblock fs' = superblock fs"
  using assms by (cases fs; cases fs'; simp)+

text \<open>The table and the files stay; files may count as persisted.\<close>

definition same_names :: "ZenFS \<Rightarrow> ZenFS \<Rightarrow> bool" where
  "same_names fs fs' \<longleftrightarrow>
     files fs' = files fs \<and> nr_files fs' = nr_files fs \<and> handles fs' = handles fs \<and> next_file_id fs' = next_file_id fs \<and>
     (\<forall>a. same_file (file_objs fs a) (file_objs fs' a))"

lemma same_file_refl [simp]: "same_file f f"
  unfolding same_file_def by (rule exI[of _ "nr_synced_extents f"], rule exI[of _ "m_time f"]) simp

lemma same_file_trans: "same_file f g \<Longrightarrow> same_file g h \<Longrightarrow> same_file f h"
  unfolding same_file_def by (elim exE) (simp, blast)

lemma same_file_MetadataSynced [simp]: "same_file f (MetadataSynced f)"
  unfolding same_file_def MetadataSynced_def by (rule exI[of _ "u32 (length (extents f))"], rule exI[of _ "m_time f"]) simp

lemma same_names_refl [simp]: "same_names fs fs"
  by (simp add: same_names_def)

lemma same_names_trans: "same_names fs fs1 \<Longrightarrow> same_names fs1 fs2 \<Longrightarrow> same_names fs fs2"
  unfolding same_names_def by (metis same_file_trans)

lemma same_names_more: "ZonedBlockDevice.more fs' = ZonedBlockDevice.more fs \<Longrightarrow> same_names fs fs'"
  using zen_more[of fs' fs] by (simp add: same_names_def)

lemma same_names_fields [simp]:
  "same_names fs (fs'\<lparr>meta_log := f\<rparr>) \<longleftrightarrow> same_names fs fs'" "same_names fs (fs'\<lparr>superblock := g\<rparr>) \<longleftrightarrow> same_names fs fs'"
  "same_names fs (tick fs') \<longleftrightarrow> same_names fs fs'"
  by (simp_all add: same_names_def tick_def)

lemma synced_all:
  "fold (\<lambda>(name, a) fs. upd_obj a (MetadataSynced (file_objs fs a)) fs) m fs =
     fs\<lparr>file_objs := (\<lambda>a. if a \<in> snd ` set m then MetadataSynced (file_objs fs a) else file_objs fs a)\<rparr>"
  by (induction m arbitrary: fs) (auto simp: upd_obj_def MetadataSynced_def fun_eq_iff intro!: ZenFS.equality)

definition log_inv :: "ZenFS \<Rightarrow> bool" where
  "log_inv fs \<longleftrightarrow> meta_layout fs \<and> (\<exists>log. meta_log fs = Some log \<and> log_zone log \<in> set (meta_zones fs))"

lemma AddRecord_step:
  assumes "pwrite_contract E" "meta_layout fs" "log_zone log \<in> set (meta_zones fs)" "AddRecord E crc log data fs = Some (s, fs')"
  shows "meta_step fs fs'" "same_names fs fs'" "meta_log fs' = meta_log fs" "superblock fs' = superblock fs" "meta_zones fs' = meta_zones fs"
  using meta_step_Append[OF assms(1,2,3) assms(4)[unfolded AddRecord_def]] same_names_more[of fs' fs] zen_more[of fs' fs]
  by (simp_all add: meta_step_def)

lemma WriteSnapshotLocked_step:
  assumes "pwrite_contract E" "meta_layout fs" "log_zone log \<in> set (meta_zones fs)" "WriteSnapshotLocked E X log fs = Some (s, fs')"
  shows "meta_step fs fs'" "same_names fs fs'" "meta_log fs' = meta_log fs" "meta_zones fs' = meta_zones fs"
proof -
  obtain fs1 where a: "AddRecord E (crc32c_Extend X) log (ZenFS_EncodeSnapshotTo fs) fs = Some (s, fs1)"
    "fs' = (if s = OK then fs1\<lparr>file_objs := (\<lambda>a. if a \<in> snd ` set (files fs1) then MetadataSynced (file_objs fs1 a) else file_objs fs1 a)\<rparr> else fs1)"
    using assms(4) by (auto simp: WriteSnapshotLocked_def bind_eq_Some_conv synced_all)
  note r = AddRecord_step[OF assms(1-3) a(1)]
  have "same_names fs1 fs'" using a(2) by (auto simp: same_names_def)
  then show "same_names fs fs'" using same_names_trans[OF r(2)] by blast
  show "meta_step fs fs'" "meta_log fs' = meta_log fs" "meta_zones fs' = meta_zones fs" using r a(2) by auto
qed

definition fs_step :: "ZenFS \<Rightarrow> ZenFS \<Rightarrow> bool" where
  "fs_step fs fs' \<longleftrightarrow> meta_step fs fs' \<and> same_names fs fs'"

lemma fs_step_trans: "fs_step fs fs1 \<Longrightarrow> fs_step fs1 fs2 \<Longrightarrow> fs_step fs fs2"
  unfolding fs_step_def using meta_step_trans same_names_trans by blast

lemma fs_step_refl: "meta_layout fs \<Longrightarrow> fs_step fs fs"
  by (simp add: fs_step_def meta_step_refl)

lemma fs_step_layout: "fs_step fs fs' \<Longrightarrow> meta_layout fs \<Longrightarrow> meta_layout fs'"
  unfolding fs_step_def using meta_step_layout by blast

lemma fs_step_meta: "fs_step fs fs' \<Longrightarrow> meta_zones fs' = meta_zones fs"
  by (simp add: fs_step_def meta_step_def)

lemma end_log_step:
  assumes E: "pwrite_contract E" and l: "meta_layout fs" and p: "log_zone old \<in> set (meta_zones fs)" and e: "end_log E X old fs = Some fs'"
  shows "fs_step fs fs'" "meta_log fs' = meta_log fs"
proof -
  obtain fs1 where w: "(if capacity (zones fs (log_zone old)) \<noteq> 0 then map_option snd (WriteEndRecord E X old fs) else Some fs) = Some fs1"
    "(if capacity (zones fs1 (log_zone old)) \<noteq> 0 then map_option snd (Finish E (log_zone old) fs1) else Some fs1) = Some fs'"
    using e unfolding end_log_def Let_def bind_eq_Some_conv by blast
  have 1: "fs_step fs fs1 \<and> meta_log fs1 = meta_log fs"
  proof (cases "capacity (zones fs (log_zone old)) = 0")
    case True
    then show ?thesis using w(1) fs_step_refl[OF l] by simp
  next
    case False
    then obtain s where "AddRecord E (crc32c_Extend X) old (PutFixed32 [] kEndRecord) fs = Some (s, fs1)" using w(1) by (auto simp: WriteEndRecord_def)
    then show ?thesis using AddRecord_step[OF E l p] by (simp add: fs_step_def)
  qed
  then have l1: "meta_layout fs1" "log_zone old \<in> set (meta_zones fs1)" using fs_step_layout[OF _ l] fs_step_meta p by auto
  have "fs_step fs1 fs' \<and> meta_log fs' = meta_log fs1"
  proof (cases "capacity (zones fs1 (log_zone old)) = 0")
    case True
    then show ?thesis using w(2) fs_step_refl[OF l1(1)] by simp
  next
    case False
    then obtain s where "Finish E (log_zone old) fs1 = Some (s, fs')" using w(2) by auto
    then show ?thesis using meta_step_Finish[OF l1] same_names_more[of fs' fs1] zen_more(6)[of fs' fs1] by (simp add: fs_step_def)
  qed
  then show "fs_step fs fs'" "meta_log fs' = meta_log fs" using 1 fs_step_trans by auto
qed

lemma start_log_step:
  assumes "pwrite_contract E" "meta_layout fs" "log_zone log \<in> set (meta_zones fs)" "start_log E X log fs = Some (s, fs')"
  shows "fs_step fs fs'" "meta_log fs' = meta_log fs"
proof -
  obtain bs sb where a: "AddRecord E (crc32c_Extend X) log bs (fs\<lparr>superblock := Some sb\<rparr>) = Some (s, fs')"
    using assms(4) by (auto simp: start_log_def bind_eq_Some_conv)
  have "meta_layout (fs\<lparr>superblock := Some sb\<rparr>)" "log_zone log \<in> set (meta_zones (fs\<lparr>superblock := Some sb\<rparr>))" using assms by simp_all
  note r = AddRecord_step[OF assms(1) this a]
  have "fs_step fs (fs\<lparr>superblock := Some sb\<rparr>)" using fs_step_refl[OF assms(2)] by (simp add: fs_step_def)
  moreover have "fs_step (fs\<lparr>superblock := Some sb\<rparr>) fs'" using r by (simp add: fs_step_def)
  ultimately show "fs_step fs fs'" using fs_step_trans by blast
  show "meta_log fs' = meta_log fs" using r(3) by simp
qed

lemma destroy_log_step:
  assumes "meta_layout fs" "log_zone log \<in> set (meta_zones fs)" "destroy_ZenMetaLog log fs = Some fs'"
  shows "fs_step fs fs'" "meta_log fs' = meta_log fs"
proof -
  have fs': "fs' = on_zone (log_zone log) (\<lambda>z. z\<lparr>busy := False\<rparr>) fs"
    using assms(3) by (auto simp: destroy_ZenMetaLog_def Release_def split: if_splits)
  have "ZonedBlockDevice.more fs' = ZonedBlockDevice.more fs" by (simp add: fs')
  then show "fs_step fs fs'" "meta_log fs' = meta_log fs"
    using meta_step_busy[OF assms(1,2), of False] same_names_more[of fs' fs] zen_more(6)[of fs' fs] fs' by (simp_all add: fs_step_def)
qed

lemma Reset_fs_step:
  assumes "reset_contract E" "meta_layout fs" "p \<in> set (meta_zones fs)" "Reset E p fs = Some (s, fs')"
  shows "fs_step fs fs'" "meta_log fs' = meta_log fs"
  using meta_step_Reset[OF assms] same_names_more[of fs' fs] zen_more(6)[of fs' fs] by (simp_all add: fs_step_def)

lemma RollMetaZoneLocked_step:
  assumes E: "pwrite_contract E" "reset_contract E" and i: "log_inv fs" and r: "RollMetaZoneLocked E X fs = Some (s, fs')"
  shows "fs_step fs fs'" "log_inv fs'"
proof -
  obtain old where l: "meta_layout fs" "meta_log fs = Some old" "log_zone old \<in> set (meta_zones fs)" using i by (auto simp: log_inv_def)
  obtain st z fs1 where a: "AllocateMetaZone E fs = Some (st, z, fs1)" using r by (auto simp: RollMetaZoneLocked_def bind_eq_Some_conv)
  have a1: "meta_step fs fs1" "ZonedBlockDevice.more fs1 = ZonedBlockDevice.more fs" "\<And>p. z = Some p \<Longrightarrow> p \<in> set (meta_zones fs)"
    using allocate_meta_loop_step[OF E(2) l(1) order_refl a[unfolded AllocateMetaZone_def]] by auto
  have s1: "fs_step fs fs1" "meta_log fs1 = Some old" using a1 same_names_more[OF a1(2)] zen_more(6)[OF a1(2)] l(2) by (simp_all add: fs_step_def)
  have "fs_step fs fs' \<and> log_inv fs'"
  proof (cases "st = OK")
    case False
    then show ?thesis using r a s1 l fs_step_layout[OF s1(1) l(1)] fs_step_meta[OF s1(1)] by (simp add: RollMetaZoneLocked_def log_inv_def)
  next
    case True
    then obtain p log fs2 s3 fs3 where st: "z = Some p" "new_ZenMetaLog p fs1 = Some log" "end_log E X old (fs1\<lparr>meta_log := Some log\<rparr>) = Some fs2"
      "start_log E X log fs2 = Some (s3, fs3)"
      using r a s1(2) by (auto simp: RollMetaZoneLocked_def bind_eq_Some_conv)
    let ?g = "fs1\<lparr>meta_log := Some log\<rparr>"
    have lz: "log_zone log = p" "p \<in> set (meta_zones fs)" using st(1,2) a1(3) by (auto simp: new_ZenMetaLog_def bind_eq_Some_conv)
    have g: "fs_step fs ?g" "meta_layout ?g" using s1(1) fs_step_layout[OF s1(1) l(1)] by (simp_all add: fs_step_def)
    have s2: "fs_step fs fs2" "meta_log fs2 = Some log"
      using end_log_step[OF E(1) g(2) _ st(3)] fs_step_meta[OF g(1)] l(3) fs_step_trans[OF g(1)] by auto
    have l2: "meta_layout fs2" "log_zone log \<in> set (meta_zones fs2)" using fs_step_layout[OF s2(1) l(1)] fs_step_meta[OF s2(1)] lz by auto
    note s3 = start_log_step[OF E(1) l2 st(4)]
    have s3': "fs_step fs fs3" "meta_log fs3 = Some log" using s3 s2 fs_step_trans by auto
    have finish: ?thesis if "fs_step fs3 fs4" "meta_log fs4 = Some log" "destroy_ZenMetaLog old fs4 = Some fs'" for fs4
    proof -
      have s4: "fs_step fs fs4" using fs_step_trans[OF s3'(1) that(1)] .
      have l4: "meta_layout fs4" "meta_zones fs4 = meta_zones fs" using fs_step_layout[OF s4 l(1)] fs_step_meta[OF s4] by auto
      note d = destroy_log_step[OF l4(1) _ that(3)]
      have s5: "fs_step fs fs'" using fs_step_trans[OF s4] d(1) l4(2) l(3) by simp
      then show ?thesis using d(2) l4(2) l(3) that(2) fs_step_layout[OF s5 l(1)] fs_step_meta[OF s5] lz by (simp add: log_inv_def)
    qed
    have l3: "meta_layout fs3" "meta_zones fs3 = meta_zones fs" using fs_step_layout[OF s3'(1) l(1)] fs_step_meta[OF s3'(1)] by auto
    show ?thesis
    proof (cases "s3 = OK")
      case False
      then have "destroy_ZenMetaLog old fs3 = Some fs'" using r a True s1(2) st by (auto simp: RollMetaZoneLocked_def bind_eq_Some_conv)
      then show ?thesis using finish fs_step_refl[OF l3(1)] s3'(2) by blast
    next
      case ok: True
      then obtain s4 fs4 fs5 where st2: "WriteSnapshotLocked E X log fs3 = Some (s4, fs4)"
        "(if s4 = OK then map_option snd (Reset E (log_zone old) fs4) else Some fs4) = Some fs5" "destroy_ZenMetaLog old fs5 = Some fs'"
        using r a True s1(2) st by (auto simp: RollMetaZoneLocked_def bind_eq_Some_conv)
      note w = WriteSnapshotLocked_step[OF E(1) l3(1) _ st2(1)]
      have s4: "fs_step fs3 fs4" "meta_log fs4 = Some log" using w l3(2) lz s3'(2) by (simp_all add: fs_step_def)
      have l4: "meta_layout fs4" "log_zone old \<in> set (meta_zones fs4)" using fs_step_layout[OF s4(1) l3(1)] fs_step_meta[OF s4(1)] l3(2) l(3) by auto
      have "fs_step fs4 fs5 \<and> meta_log fs5 = Some log"
        using st2(2) Reset_fs_step[OF E(2) l4] fs_step_refl[OF l4(1)] s4(2) by (auto split: if_splits)
      then show ?thesis using finish[OF _ _ st2(3)] fs_step_trans[OF s4(1)] by blast
    qed
  qed
  then show "fs_step fs fs'" "log_inv fs'" by simp_all
qed

lemma PersistRecord_step:
  assumes E: "pwrite_contract E" "reset_contract E" and i: "log_inv fs" and r: "PersistRecord E X rec fs = Some (s, fs')"
  shows "fs_step fs fs'" "log_inv fs'"
proof -
  obtain log where l: "meta_layout fs" "meta_log fs = Some log" "log_zone log \<in> set (meta_zones fs)" using i by (auto simp: log_inv_def)
  obtain s1 fs1 where a: "AddRecord E (crc32c_Extend X) log rec fs = Some (s1, fs1)"
    "(if s1 = NoSpace then RollMetaZoneLocked E X fs1 else Some (s1, fs1)) = Some (s, fs')"
    using r l(2) by (auto simp: PersistRecord_def bind_eq_Some_conv)
  note ar = AddRecord_step[OF E(1) l(1,3) a(1)]
  have s1: "fs_step fs fs1" "log_inv fs1" using ar l fs_step_layout[of fs fs1] by (auto simp: fs_step_def log_inv_def)
  show "fs_step fs fs'" "log_inv fs'"
    using a(2) s1 RollMetaZoneLocked_step[OF E s1(2)] fs_step_trans[OF s1(1)] by (auto split: if_splits)
qed

lemma SyncFileMetadataNoLock_step:
  assumes E: "pwrite_contract E" "reset_contract E" and i: "log_inv fs" and r: "SyncFileMetadataNoLock E X a replace fs = Some (s, fs')"
  shows "fs_step fs fs'" "log_inv fs'"
proof -
  have l: "meta_layout fs" using i by (simp add: log_inv_def)
  have upd: "fs_step g (upd_obj a f g)" if "meta_layout g" "same_file (file_objs g a) f" for g f
    using that meta_step_refl[OF that(1)] by (simp add: fs_step_def) (simp add: same_names_def upd_obj_def)
  have "fs_step fs fs' \<and> log_inv fs'"
  proof (cases "is_deleted (file_objs fs a)")
    case True
    then show ?thesis using r i fs_step_refl[OF l] by (simp add: SyncFileMetadataNoLock_def)
  next
    case False
    define fs1 where "fs1 = (if replace then fs else upd_obj a ((file_objs fs a)\<lparr>m_time := time_now X (calls fs)\<rparr>) (tick fs))"
    have "same_file (file_objs fs a) ((file_objs fs a)\<lparr>m_time := t\<rparr>)" for t
      unfolding same_file_def by (rule exI[of _ "nr_synced_extents (file_objs fs a)"], rule exI[of _ t]) simp
    moreover have "file_objs (tick fs) = file_objs fs" by (simp add: tick_def)
    ultimately have "fs_step (tick fs) (upd_obj a ((file_objs fs a)\<lparr>m_time := time_now X (calls fs)\<rparr>) (tick fs))"
      using upd[of "tick fs" "(file_objs fs a)\<lparr>m_time := time_now X (calls fs)\<rparr>"] l by simp
    moreover have "fs_step fs (tick fs)" using fs_step_refl[OF l] by (simp add: fs_step_def)
    ultimately have "fs_step fs (upd_obj a ((file_objs fs a)\<lparr>m_time := time_now X (calls fs)\<rparr>) (tick fs))" using fs_step_trans by blast
    then have s1: "fs_step fs fs1" using fs_step_refl[OF l] by (simp add: fs1_def)
    have i1: "log_inv fs1" using i by (auto simp: log_inv_def fs1_def upd_obj_def tick_def meta_layout_def)
    obtain s2 fs2 where p: "PersistRecord E X (update_record replace (file_objs fs1 a)) fs1 = Some (s2, fs2)"
      "fs' = (if s2 = OK then upd_obj a (MetadataSynced (file_objs fs2 a)) fs2 else fs2)"
      using r False unfolding SyncFileMetadataNoLock_def Let_def fs1_def[symmetric] by (auto simp: bind_eq_Some_conv)
    note ps = PersistRecord_step[OF E i1 p(1)]
    have l2: "meta_layout fs2" using ps(2) by (simp add: log_inv_def)
    have "fs_step fs2 fs' \<and> log_inv fs'"
      using p(2) ps(2) upd[OF l2] fs_step_refl[OF l2] by (auto simp: log_inv_def upd_obj_def meta_layout_def)
    then show ?thesis using fs_step_trans[OF s1 fs_step_trans[OF ps(1)]] by blast
  qed
  then show "fs_step fs fs'" "log_inv fs'" by simp_all
qed

section \<open>The writer of a file\<close>

definition writer_inv :: "outside \<Rightarrow> ZenFS \<Rightarrow> bool" where
  "writer_inv E fs \<longleftrightarrow> pwrite_contract E \<and> reset_contract E \<and> log_inv fs"

lemma Persist_step:
  assumes i: "writer_inv E fs" and p: "Persist E X a f fs = Some (s, f', fs')"
  shows "meta_step fs fs'" "same_file f f'" "writer_inv E fs'"
proof -
  have E: "pwrite_contract E" "reset_contract E" "log_inv fs" using i by (simp_all add: writer_inv_def)
  have i1: "log_inv (upd_obj a f fs)" using E(3) by (auto simp: log_inv_def upd_obj_def meta_layout_def)
  have sy: "SyncFileMetadataNoLock E X a False (upd_obj a f fs) = Some (s, fs')" "f' = file_objs fs' a"
    using p by (auto simp: Persist_def SyncFileMetadata_def bind_eq_Some_conv)
  note st = SyncFileMetadataNoLock_step[OF E(1,2) i1 sy(1)]
  have "meta_step fs (upd_obj a f fs)" using meta_step_refl[of fs] E(3) by (simp add: log_inv_def)
  then show "meta_step fs fs'" using st(1) meta_step_trans[of fs "upd_obj a f fs" fs'] by (simp add: fs_step_def)
  show "same_file f f'" using st(1) sy(2) by (auto simp: fs_step_def same_names_def upd_obj_def dest: spec[of _ a])
  show "writer_inv E fs'" using st(2) E by (simp add: writer_inv_def)
qed

lemma io_step_log_inv:
  assumes "log_inv fs" "io_step fs fs'"
  shows "log_inv fs'"
proof -
  have m: "meta_log fs' = meta_log fs" using assms(2) zen_more(6)[of fs' fs] by (simp add: io_step_def)
  have "zones fs' p = zones fs p" if "p \<in> set (meta_zones fs)" for p
    using assms that by (auto simp: log_inv_def meta_layout_def io_step_def)
  then show ?thesis using assms m by (auto simp: log_inv_def meta_layout_def io_step_def apart_def)
qed

interpretation zenfs_writer: metadata_writer "Persist E X a" "writer_inv E" for E X a
proof unfold_locales
  fix f s f' and fs fs' :: ZenFS
  assume i: "writer_inv E fs" and l: "layout fs" and p: "Persist E X a f fs = Some (s, f', fs')"
  note st = Persist_step[OF i p]
  have "meta_layout fs" using i by (simp add: writer_inv_def log_inv_def)
  then show "quiet fs fs' \<and> same_file f f' \<and> writer_inv E fs'" using st meta_step_quiet l by blast
next
  fix fs fs' :: ZenFS
  assume "writer_inv E fs" "layout fs" "io_step fs fs'"
  then show "writer_inv E fs'" using io_step_log_inv[of fs fs'] by (simp add: writer_inv_def)
qed

end
