(* ===== verification/ZenReplay.thy ===== *)
theory ZenReplay
  imports ZenSync
begin

text \<open>
  Replaying metadata records: what a log of snapshots, updates and deletions means, and that the recovery of
  the file system computes it.
\<close>

section \<open>The table as a map\<close>

lemma name_less_irrefl [simp]: "\<not> name_less k k"
  by (induction k) auto

lemma name_less_trans: "name_less x y \<Longrightarrow> name_less y z \<Longrightarrow> name_less x z"
proof (induction x y arbitrary: z rule: name_less.induct)
  case (1 ys)
  then show ?case by (cases ys; cases z) auto
next
  case (3 x xs y ys)
  then show ?case by (cases z) auto
qed simp

lemma name_less_total: "x \<noteq> y \<Longrightarrow> name_less x y \<or> name_less y x"
proof (induction x y rule: name_less.induct)
  case (3 x xs y ys)
  then show ?case by (cases "x = y") auto
qed auto

definition sorted_table :: "(bytes \<times> nat) list \<Rightarrow> bool" where
  "sorted_table m \<longleftrightarrow> sorted_wrt name_less (map fst m)"

lemma sorted_table_simps [simp]:
  "sorted_table []" "sorted_table ((k, a) # m) \<longleftrightarrow> (\<forall>k' \<in> fst ` set m. name_less k k') \<and> sorted_table m"
  by (auto simp: sorted_table_def)

lemma sorted_table_distinct: "sorted_table m \<Longrightarrow> distinct (map fst m)"
  by (induction m) force+

lemma sorted_table_ran: "sorted_table m \<Longrightarrow> snd ` set m = ran (map_of m)"
  using sorted_table_distinct[of m] by (metis ran_distinct)

lemma map_insert_keys: "fst ` set (map_insert k a m) = insert k (fst ` set m)"
  by (induction k a m rule: map_insert.induct) auto

lemma sorted_map_insert: "sorted_table m \<Longrightarrow> sorted_table (map_insert k a m)"
proof (induction k a m rule: map_insert.induct)
  case (2 k a k' a' m)
  then show ?case using name_less_total[of k k'] name_less_trans[of k k'] by (auto simp: map_insert_keys)
qed simp

lemma map_of_insert:
  "sorted_table m \<Longrightarrow> map_of (map_insert k a m) = (if map_of m k = None then (map_of m)(k \<mapsto> a) else map_of m)"
proof (induction k a m rule: map_insert.induct)
  case (2 k a k' a' m)
  show ?case
  proof (cases "k = k'")
    case True
    then show ?thesis by (auto simp: fun_eq_iff)
  next
    case k: False
    show ?thesis
    proof (cases "name_less k k'")
      case True
      then have "k \<notin> fst ` set m" using "2.prems" name_less_trans[OF True] by fastforce
      then show ?thesis using True k by (auto simp: fun_eq_iff map_of_eq_None_iff)
    next
      case False
      then show ?thesis using 2 k by (auto simp: fun_eq_iff)
    qed
  qed
qed (auto simp: fun_eq_iff)

lemma map_of_erase [simp]: "map_of (map_erase k m) = (map_of m)(k := None)"
  by (induction m) (auto simp: map_erase_def fun_eq_iff)

lemma sorted_map_erase: "sorted_table m \<Longrightarrow> sorted_table (map_erase k m)"
  unfolding map_erase_def by (induction m) auto

lemma insert_all:
  "sorted_table m \<Longrightarrow> sorted_table (fold (\<lambda>n m. map_insert n a m) names m) \<and>
     map_of (fold (\<lambda>n m. map_insert n a m) names m) =
       (\<lambda>n. if map_of m n = None \<and> n \<in> set names then Some a else map_of m n)"
proof (induction names arbitrary: m)
  case (Cons n names)
  have "sorted_table (map_insert n a m)" using Cons.prems by (rule sorted_map_insert)
  from Cons.IH[OF this] show ?case using map_of_insert[OF Cons.prems, of n a] by (auto simp: fun_eq_iff)
qed (auto simp: fun_eq_iff)

lemma erase_all:
  "sorted_table m \<Longrightarrow> distinct names \<Longrightarrow> \<forall>n \<in> set names. map_of m n \<noteq> None \<Longrightarrow>
     \<exists>m'. erase_links names m = (True, m') \<and> sorted_table m' \<and> map_of m' = (\<lambda>n. if n \<in> set names then None else map_of m n)"
proof (induction names arbitrary: m)
  case (Cons n names)
  have "sorted_table (map_erase n m)" using Cons.prems(1) by (rule sorted_map_erase)
  moreover have "\<forall>x \<in> set names. map_of (map_erase n m) x \<noteq> None" using Cons.prems(2,3) by auto
  ultimately obtain m' where "erase_links names (map_erase n m) = (True, m')" "sorted_table m'"
    "map_of m' = (\<lambda>x. if x \<in> set names then None else map_of (map_erase n m) x)"
    using Cons.IH[of "map_erase n m"] Cons.prems(2) by auto
  moreover from this(3) have "map_of m' = (\<lambda>x. if x \<in> set (n # names) then None else map_of m x)" by (auto simp: fun_eq_iff)
  ultimately show ?case using Cons.prems(3) by auto
qed simp

section \<open>Accounting\<close>

text \<open>The bytes of a list of extents in zone \<open>p\<close>.\<close>

definition tot :: "ZoneExtent list \<Rightarrow> nat \<Rightarrow> nat" where
  "tot es p = sum_list (map e_length (filter (\<lambda>e. e_zone e = p) es))"

definition used :: "'m ZonedBlockDevice_scheme \<Rightarrow> nat \<Rightarrow> nat" where
  "used d p = used_capacity (zones d p)"

definition with_used :: "(nat \<Rightarrow> nat) \<Rightarrow> 'm ZonedBlockDevice_scheme \<Rightarrow> 'm ZonedBlockDevice_scheme" where
  "with_used u d = d\<lparr>zones := (\<lambda>p. (zones d p)\<lparr>used_capacity := u p\<rparr>)\<rparr>"

lemma used_alt: "used d = (\<lambda>p. used_capacity (zones d p))"
  by (simp add: used_def fun_eq_iff)

lemma tot_simps [simp]: "tot [] p = 0" "tot (e # es) p = (if e_zone e = p then e_length e else 0) + tot es p"
  "tot (es @ es') p = tot es p + tot es' p"
  by (simp_all add: tot_def)

lemma tot_le: "tot es p \<le> total_length es"
  by (induction es) (auto simp: total_length_def)

lemma used_with_used [simp]: "used (with_used u d) = u" "with_used u (with_used u' d) = with_used u d"
  by (simp_all add: used_def with_used_def fun_eq_iff)

lemma with_used_used [simp]: "with_used (used d) d = d"
  by (simp add: used_def with_used_def)

lemma on_zone_used: "on_zone p (\<lambda>z. z\<lparr>used_capacity := u (used_capacity z)\<rparr>) d = with_used ((used d)(p := u (used d p))) d"
  by (auto simp: on_zone_def with_used_def used_def fun_eq_iff intro!: ZonedBlockDevice.equality)

lemma count_extents_used:
  "(\<forall>p. used d p + tot es p < 2 ^ 64) \<Longrightarrow> count_extents es d = with_used (\<lambda>p. used d p + tot es p) d"
proof (induction es arbitrary: d)
  case Nil
  then show ?case by (simp add: count_extents_def)
next
  case (Cons e es)
  let ?u = "\<lambda>p. used d p + (if e_zone e = p then e_length e else 0)"
  have "used d (e_zone e) + e_length e < 2 ^ 64" using spec[OF Cons.prems, of "e_zone e"] by simp
  then have "add_used (e_zone e) (e_length e) d = with_used ?u d"
    unfolding add_used_def on_zone_used[where u = "\<lambda>x. u64 (x + e_length e)"] by (intro arg_cong[where f = "\<lambda>u. with_used u d"]) (auto simp: fun_eq_iff)
  moreover have "count_extents es (with_used ?u d) = with_used (\<lambda>p. ?u p + tot es p) (with_used ?u d)"
    using Cons.prems by (subst Cons.IH) (simp_all add: add.assoc)
  ultimately show ?case by (simp add: count_extents_def add.assoc)
qed

lemma clear_extents_used:
  "(\<forall>p. tot es p \<le> used d p) \<Longrightarrow> clear_extents es d = Some (with_used (\<lambda>p. used d p - tot es p) d)"
proof (induction es arbitrary: d)
  case Nil
  then show ?case by simp
next
  case (Cons e es)
  let ?u = "\<lambda>p. used d p - (if e_zone e = p then e_length e else 0)"
  have le: "e_length e \<le> used d (e_zone e)" using spec[OF Cons.prems, of "e_zone e"] by simp
  have "on_zone (e_zone e) (\<lambda>z. z\<lparr>used_capacity := used_capacity z - e_length e\<rparr>) d = with_used ?u d"
    unfolding on_zone_used[where u = "\<lambda>x. x - e_length e"] by (intro arg_cong[where f = "\<lambda>u. with_used u d"]) (auto simp: fun_eq_iff)
  moreover have "tot es p \<le> ?u p" for p using spec[OF Cons.prems, of p] by auto
  ultimately show ?case using Cons.IH[of "with_used ?u d"] le by (simp add: used_def[symmetric])
qed

lemma destroy_closed:
  assumes "\<not> open_for_wr f" "\<forall>p. tot (extents f) p \<le> used d p"
  shows "destroy_ZoneFile E W f d = Some (with_used (\<lambda>p. used d p - tot (extents f) p) d)"
  using clear_extents_used[OF assms(2)] assms(1) by (simp add: destroy_ZoneFile_def ClearExtents_def CloseWR_def)

section \<open>The part of the state that a replay changes\<close>

definition same_device :: "ZenFS \<Rightarrow> ZenFS \<Rightarrow> bool" where
  "same_device fs fs' \<longleftrightarrow>
     zones fs' = zones (with_used (used fs') fs) \<and> io_zones fs' = io_zones fs \<and> meta_zones fs' = meta_zones fs \<and>
     zone_sz fs' = zone_sz fs \<and> block_sz fs' = block_sz fs \<and> nr_zones fs' = nr_zones fs \<and> the_disk fs' = the_disk fs"

record replay_state =
  r_files :: "(bytes \<times> nat) list"
  r_objs :: "nat \<Rightarrow> ZoneFile"
  r_nr :: nat
  r_handles :: "nat list"
  r_next :: nat
  r_used :: "nat \<Rightarrow> nat"

definition rstate :: "ZenFS \<Rightarrow> replay_state" where
  "rstate fs = \<lparr>r_files = files fs, r_objs = file_objs fs, r_nr = nr_files fs, r_handles = handles fs, r_next = next_file_id fs, r_used = used fs\<rparr>"

text \<open>\<open>fs\<close> is \<open>fs0\<close> up to the replay state \<open>r\<close>.\<close>

definition at_state :: "ZenFS \<Rightarrow> replay_state \<Rightarrow> ZenFS \<Rightarrow> bool" where
  "at_state fs0 r fs \<longleftrightarrow> same_device fs0 fs \<and> rstate fs = r"

lemma same_device_refl [simp]: "same_device fs fs"
  by (simp add: same_device_def)

lemma same_device_trans: "same_device fs fs1 \<Longrightarrow> same_device fs1 fs2 \<Longrightarrow> same_device fs fs2"
  by (auto simp: same_device_def with_used_def)

lemma same_device_zones: "same_device fs fs' \<Longrightarrow> zones fs' p = (zones fs p)\<lparr>used_capacity := used fs' p\<rparr>"
  by (simp add: same_device_def with_used_def)

lemma find_cong: "(\<And>x. x \<in> set xs \<Longrightarrow> P x = Q x) \<Longrightarrow> find P xs = find Q xs"
  by (induction xs) auto

lemma same_device_GetIOZone: "same_device fs fs' \<Longrightarrow> GetIOZone off fs' = GetIOZone off fs"
  unfolding GetIOZone_def by (auto simp: same_device_def with_used_def intro!: find_cong)

lemma same_device_encodable: "same_device fs fs' \<Longrightarrow> encodable fs' f = encodable fs f"
  by (simp add: encodable_def same_device_GetIOZone)

lemma at_state_files: "at_state fs0 r fs \<Longrightarrow> at_state fs0 (r\<lparr>r_files := m\<rparr>) (fs\<lparr>files := m\<rparr>)"
  by (auto simp: at_state_def rstate_def same_device_def with_used_def used_alt)

lemma at_state_hold: "at_state fs0 r fs \<Longrightarrow> at_state fs0 (r\<lparr>r_handles := a # r_handles r\<rparr>) (hold_ref a fs)"
  by (auto simp: at_state_def rstate_def same_device_def with_used_def used_alt hold_ref_def)

lemma at_state_upd: "at_state fs0 r fs \<Longrightarrow> at_state fs0 (r\<lparr>r_objs := (r_objs r)(a := f)\<rparr>) (upd_obj a f fs)"
  by (auto simp: at_state_def rstate_def same_device_def with_used_def used_alt upd_obj_def)

lemma at_state_nr: "at_state fs0 r fs \<Longrightarrow> at_state fs0 (r\<lparr>r_nr := n\<rparr>) (fs\<lparr>nr_files := n\<rparr>)"
  by (auto simp: at_state_def rstate_def same_device_def with_used_def used_alt)

lemma at_state_handles: "at_state fs0 r fs \<Longrightarrow> at_state fs0 (r\<lparr>r_handles := hs\<rparr>) (fs\<lparr>handles := hs\<rparr>)"
  by (auto simp: at_state_def rstate_def same_device_def with_used_def used_alt)

lemma at_state_used: "at_state fs0 r fs \<Longrightarrow> at_state fs0 (r\<lparr>r_used := u\<rparr>) (with_used u fs)"
proof -
  assume s: "at_state fs0 r fs"
  then have "(zones fs p)\<lparr>used_capacity := u p\<rparr> = (zones fs0 p)\<lparr>used_capacity := u p\<rparr>" for p
    by (subst same_device_zones[of fs0 fs]) (simp_all add: at_state_def)
  then have "same_device fs0 (with_used u fs)" using s unfolding at_state_def same_device_def used_with_used by (simp add: with_used_def)
  moreover have "rstate (with_used u fs) = (rstate fs)\<lparr>r_used := u\<rparr>" unfolding rstate_def used_with_used by (simp add: with_used_def)
  ultimately show ?thesis using s by (simp add: at_state_def)
qed

definition next_after :: "nat \<Rightarrow> nat \<Rightarrow> nat" where
  "next_after n i = (if i \<ge> n then u64 (i + 1) else n)"

lemma next_after: "i + 1 < 2 ^ 64 \<Longrightarrow> i < next_after n i \<and> n \<le> next_after n i"
  by (simp add: next_after_def)

lemma at_state_note: "at_state fs0 r fs \<Longrightarrow> at_state fs0 (r\<lparr>r_next := next_after (r_next r) i\<rparr>) (note_file_id i fs)"
  by (auto simp: next_after_def at_state_def rstate_def same_device_def with_used_def used_alt note_file_id_def)

lemma at_state_fields:
  assumes "at_state fs0 r fs"
  shows "files fs = r_files r" "file_objs fs = r_objs r" "nr_files fs = r_nr r" "handles fs = r_handles r" "next_file_id fs = r_next r" "used fs = r_used r"
  using assms by (auto simp: at_state_def rstate_def)

lemma at_state_refl: "at_state fs (rstate fs) fs"
  by (simp add: at_state_def)

lemma at_state_drop_kept:
  assumes "at_state fs0 r fs" "a \<in> snd ` set (r_files r) \<or> a \<in> set (remove1 a (r_handles r))"
  shows "\<exists>fs'. drop_ref E X a fs = Some fs' \<and> at_state fs0 (r\<lparr>r_handles := remove1 a (r_handles r)\<rparr>) fs'"
  using assms(2) at_state_handles[OF assms(1), of "remove1 a (r_handles r)"] at_state_fields[OF assms(1)]
  by (auto simp: drop_ref_def destroy_unreferenced_def referenced_def)

lemma at_state_drop_last:
  assumes s: "at_state fs0 r fs" and a: "a \<notin> snd ` set (r_files r)" "a \<notin> set (remove1 a (r_handles r))"
    and f: "\<not> open_for_wr (r_objs r a)" "\<forall>p. tot (extents (r_objs r a)) p \<le> r_used r p"
  shows "\<exists>fs'. drop_ref E X a fs = Some fs' \<and>
    at_state fs0 (r\<lparr>r_handles := remove1 a (r_handles r), r_used := (\<lambda>p. r_used r p - tot (extents (r_objs r a)) p)\<rparr>) fs'"
proof -
  let ?fs = "fs\<lparr>handles := remove1 a (r_handles r)\<rparr>"
  note h = at_state_handles[OF s, of "remove1 a (r_handles r)"]
  note fl = at_state_fields[OF s] at_state_fields[OF h]
  have "destroy_ZoneFile E (Persist E X a) (file_objs ?fs a) ?fs = Some (with_used (\<lambda>p. used ?fs p - tot (extents (file_objs ?fs a)) p) ?fs)"
    using f fl by (intro destroy_closed) auto
  moreover have "\<not> referenced a ?fs" using a fl by (simp add: referenced_def)
  ultimately have "drop_ref E X a fs = Some (with_used (\<lambda>p. r_used r p - tot (extents (r_objs r a)) p) ?fs)"
    using fl by (simp add: drop_ref_def destroy_unreferenced_def)
  moreover have "at_state fs0 (r\<lparr>r_handles := remove1 a (r_handles r), r_used := (\<lambda>p. r_used r p - tot (extents (r_objs r a)) p)\<rparr>)
    (with_used (\<lambda>p. r_used r p - tot (extents (r_objs r a)) p) ?fs)"
    using at_state_used[OF h, of "\<lambda>p. r_used r p - tot (extents (r_objs r a)) p"] by simp
  ultimately show ?thesis by blast
qed

lemma at_state_decode:
  assumes s: "at_state fs0 r fs" and f: "encodable fs0 f" and u: "\<forall>p. r_used r p + tot (drop n (extents f)) p < 2 ^ 64"
  shows "\<exists>fs'. decode_object (EncodeTo f n) fs = Some (OK, r_nr r, fs') \<and>
    at_state fs0 (r\<lparr>r_used := (\<lambda>p. r_used r p + tot (drop n (extents f)) p), r_nr := r_nr r + 1,
      r_objs := (r_objs r)(r_nr r := decoded f n (new_ZoneFile 0)), r_handles := r_nr r # r_handles r\<rparr>) fs'"
proof -
  note fl = at_state_fields[OF s]
  have e: "encodable fs f" using s f same_device_encodable by (auto simp: at_state_def)
  let ?u = "\<lambda>p. r_used r p + tot (drop n (extents f)) p"
  have c: "count_extents (drop n (extents f)) fs = with_used ?u fs" using count_extents_used[of fs "drop n (extents f)"] u fl by simp
  note w = at_state_used[OF s, of ?u]
  note fw = at_state_fields[OF w]
  have "at_state fs0 (r\<lparr>r_used := ?u, r_nr := r_nr r + 1,
      r_objs := (r_objs r)(r_nr r := decoded f n (new_ZoneFile 0)), r_handles := r_nr r # r_handles r\<rparr>)
    (hold_ref (r_nr r) (upd_obj (r_nr r) (decoded f n (new_ZoneFile 0)) ((with_used ?u fs)\<lparr>nr_files := r_nr r + 1\<rparr>)))"
    using at_state_hold[OF at_state_upd[OF at_state_nr[OF w, of "r_nr r + 1"], of "r_nr r" "decoded f n (new_ZoneFile 0)"], of "r_nr r"]
    by simp
  moreover have "decode_object (EncodeTo f n) fs =
    Some (OK, r_nr r, hold_ref (r_nr r) (upd_obj (r_nr r) (decoded f n (new_ZoneFile 0)) ((with_used ?u fs)\<lparr>nr_files := r_nr r + 1\<rparr>)))"
    using DecodeFrom_EncodeTo[OF e, of n "new_ZoneFile 0"] c fw by (simp add: decode_object_def Let_def)
  ultimately show ?thesis by blast
qed

section \<open>What a log means\<close>

text \<open>
  A log is a snapshot, one entry per name in the table, followed by updates (or replacements) and deletions.
  It describes the files by their identifiers. A file with several names is in a snapshot several times.
\<close>

datatype log_entry = Snapshot "ZoneFile list" | Update bool ZoneFile | Deletion ZoneFile bytes

definition snapshot_record :: "ZoneFile list \<Rightarrow> bytes" where
  "snapshot_record fl =
     PutLengthPrefixedSlice (PutFixed32 [] kCompleteFilesSnapshot)
       (fold (\<lambda>f out. PutLengthPrefixedSlice out (EncodeSnapshotTo f)) fl [])"

fun entry_record :: "log_entry \<Rightarrow> bytes" where
  "entry_record (Snapshot fl) = snapshot_record fl"
| "entry_record (Update replace f) = update_record replace f"
| "entry_record (Deletion f name) = EncodeFileDeletionTo f name"

type_synonym files_view = "nat \<rightharpoonup> ZoneFile"

text \<open>A file as a decoder finds it in a snapshot.\<close>

definition persisted :: "ZoneFile \<Rightarrow> ZoneFile" where
  "persisted f = decoded f 0 (new_ZoneFile 0)"

definition merged :: "bool \<Rightarrow> ZoneFile \<Rightarrow> ZoneFile \<Rightarrow> ZoneFile" where
  "merged replace f v = MetadataSynced (v\<lparr>file_size := file_size f, file_lifetime := file_lifetime f, m_time := m_time f,
     extents := (if replace then [] else extents v) @ drop (nr_synced_extents f) (extents f),
     extent_start := extent_start f, is_sparse := is_sparse f, linkfiles := linkfiles f\<rparr>)"

fun entry_effect :: "log_entry \<Rightarrow> files_view \<Rightarrow> files_view" where
  "entry_effect (Snapshot fl) s = fold (\<lambda>f s. s(file_id f \<mapsto> persisted f)) fl Map.empty"
| "entry_effect (Update replace f) s =
     s(file_id f \<mapsto> (case s (file_id f) of None \<Rightarrow> decoded f (nr_synced_extents f) (new_ZoneFile 0) | Some v \<Rightarrow> merged replace f v))"
| "entry_effect (Deletion f name) s =
     (case s (file_id f) of
        None \<Rightarrow> s
      | Some v \<Rightarrow>
          let links = remove1 name (linkfiles v)
          in if links = [] then s(file_id f := None) else s(file_id f \<mapsto> v\<lparr>linkfiles := links\<rparr>))"

definition bytes_in :: "files_view \<Rightarrow> nat" where
  "bytes_in s = (\<Sum>i \<in> dom s. total_length (extents (the (s i))))"

text \<open>The names of the files other than \<open>i\<close>.\<close>

definition other_names :: "files_view \<Rightarrow> nat \<Rightarrow> bytes set" where
  "other_names s i = (\<Union>j \<in> dom s - {i}. set (linkfiles (the (s j))))"

definition good_names :: "bytes list \<Rightarrow> bool" where
  "good_names names \<longleftrightarrow> names \<noteq> [] \<and> distinct names"

text \<open>Entries that a file system with that view of its files can write.\<close>

definition fine_file :: "ZenFS \<Rightarrow> ZoneFile \<Rightarrow> bool" where
  "fine_file fs f \<longleftrightarrow> encodable fs f \<and> file_id f + 1 < 2 ^ 64 \<and> length (EncodeTo f 0) < 2 ^ 32"

definition unrelated :: "ZoneFile \<Rightarrow> ZoneFile \<Rightarrow> bool" where
  "unrelated f g \<longleftrightarrow> f = g \<or> file_id f \<noteq> file_id g \<and> set (linkfiles f) \<inter> set (linkfiles g) = {}"

fun applies :: "ZenFS \<Rightarrow> log_entry \<Rightarrow> files_view \<Rightarrow> bool" where
  "applies fs (Snapshot fl) s \<longleftrightarrow>
     s = Map.empty \<and> (\<forall>f \<in> set fl. fine_file fs f \<and> good_names (linkfiles f)) \<and>
     (\<forall>f \<in> set fl. \<forall>g \<in> set fl. unrelated f g) \<and>
     sum_list (map (\<lambda>f. total_length (extents f)) fl) < 2 ^ 64 \<and> length (snapshot_record fl) < 2 ^ 32"
| "applies fs (Update replace f) s \<longleftrightarrow>
     fine_file fs f \<and> good_names (linkfiles f) \<and> set (linkfiles f) \<inter> other_names s (file_id f) = {} \<and>
     bytes_in s + 2 * total_length (extents f) < 2 ^ 64 \<and> length (update_record replace f) < 2 ^ 32 \<and>
     (s (file_id f) = None \<longrightarrow> (\<exists>name. linkfiles f = [name] \<and> canonical name))"
| "applies fs (Deletion f name) s \<longleftrightarrow>
     (\<exists>v. s (file_id f) = Some v \<and> name \<in> set (linkfiles v)) \<and> file_id f < 2 ^ 64 \<and> length name < 2 ^ 32 \<and> length (EncodeFileDeletionTo f name) < 2 ^ 32"

text \<open>The view after a log, if every entry applies.\<close>

fun log_view :: "ZenFS \<Rightarrow> log_entry list \<Rightarrow> files_view \<Rightarrow> files_view option" where
  "log_view fs [] s = Some s"
| "log_view fs (r # rs) s = (if applies fs r s then log_view fs rs (entry_effect r s) else None)"

section \<open>The file system shows a view\<close>

definition exhibits :: "replay_state \<Rightarrow> files_view \<Rightarrow> bool" where
  "exhibits r s \<longleftrightarrow>
     sorted_table (r_files r) \<and> r_handles r = [] \<and> finite (dom s) \<and> (\<forall>a \<in> ran (map_of (r_files r)). a < r_nr r) \<and>
     (\<forall>p. r_used r p = (\<Sum>i \<in> dom s. tot (extents (the (s i))) p)) \<and>
     (\<forall>name a. map_of (r_files r) name = Some a \<longrightarrow> name \<in> set (linkfiles (r_objs r a)) \<and> s (file_id (r_objs r a)) = Some (r_objs r a)) \<and>
     (\<forall>i v. s i = Some v \<longrightarrow> file_id v = i \<and> i < r_next r \<and> good_names (linkfiles v) \<and> \<not> open_for_wr v \<and>
        (\<exists>a. r_objs r a = v \<and> (\<forall>name \<in> set (linkfiles v). map_of (r_files r) name = Some a)))"

lemma exhibitsI:
  assumes "sorted_table (r_files r)" "r_handles r = []" "finite (dom s)" "\<forall>a \<in> ran (map_of (r_files r)). a < r_nr r"
    and "\<And>p. r_used r p = (\<Sum>i \<in> dom s. tot (extents (the (s i))) p)"
    and "\<And>name a. map_of (r_files r) name = Some a \<Longrightarrow> name \<in> set (linkfiles (r_objs r a)) \<and> s (file_id (r_objs r a)) = Some (r_objs r a)"
    and "\<And>i v. s i = Some v \<Longrightarrow> file_id v = i \<and> i < r_next r \<and> good_names (linkfiles v) \<and> \<not> open_for_wr v \<and>
        (\<exists>a. r_objs r a = v \<and> (\<forall>name \<in> set (linkfiles v). map_of (r_files r) name = Some a))"
  shows "exhibits r s"
  unfolding exhibits_def
  by (rule conjI[OF assms(1)], rule conjI[OF assms(2)], rule conjI[OF assms(3)], rule conjI[OF assms(4)], rule conjI[OF allI[OF assms(5)]],
      rule conjI[OF allI[OF allI[OF impI[OF assms(6)]]]], assumption, rule allI, rule allI, rule impI, erule assms(7))

lemma exhibits_used_le: "exhibits r s \<Longrightarrow> r_used r p \<le> bytes_in s"
  unfolding exhibits_def bytes_in_def by (auto intro!: sum_mono tot_le)

lemma exhibits_names:
  assumes "exhibits r s" "s i = Some v" "name \<in> set (linkfiles v)" "s j = Some w" "name \<in> set (linkfiles w)"
  shows "i = j"
proof -
  obtain a where a: "r_objs r a = v" "map_of (r_files r) name = Some a" using assms(1-3) unfolding exhibits_def by meson
  obtain b where b: "r_objs r b = w" "map_of (r_files r) name = Some b" using assms(1,4,5) unfolding exhibits_def by meson
  have "file_id v = i" "file_id w = j" using assms(1,2,4) unfolding exhibits_def by meson+
  then show ?thesis using a b by auto
qed

lemma sum_remove:
  fixes f :: "'b \<Rightarrow> nat"
  assumes "finite (dom s)"
  shows "(\<Sum>j \<in> dom s. f (the (s j))) = (\<Sum>j \<in> dom (s(i := None)). f (the ((s(i := None)) j))) + (case s i of None \<Rightarrow> 0 | Some w \<Rightarrow> f w)"
proof -
  have c: "(\<Sum>j \<in> dom s - {i}. f (the ((s(i := None)) j))) = (\<Sum>j \<in> dom s - {i}. f (the (s j)))" by (rule sum.cong) auto
  show ?thesis
  proof (cases "s i")
    case None
    then have "dom s - {i} = dom s" by auto
    then show ?thesis using c None by simp
  next
    case (Some w)
    then have "i \<in> dom s" by auto
    then show ?thesis using c Some sum.remove[OF assms, of i "\<lambda>j. f (the (s j))"] by simp
  qed
qed

lemma sum_update:
  fixes f :: "'b \<Rightarrow> nat"
  assumes "finite (dom s)"
  shows "(\<Sum>j \<in> dom (s(i \<mapsto> v)). f (the ((s(i \<mapsto> v)) j))) = (\<Sum>j \<in> dom (s(i := None)). f (the ((s(i := None)) j))) + f v"
  using sum_remove[of "s(i \<mapsto> v)" f i] assms by simp

lemma exhibits_table:
  assumes "exhibits r s"
  shows "map_of (r_files r) name = Some a \<Longrightarrow> name \<in> set (linkfiles (r_objs r a)) \<and> s (file_id (r_objs r a)) = Some (r_objs r a)"
    "s i = Some v \<Longrightarrow> file_id v = i \<and> i < r_next r \<and> good_names (linkfiles v) \<and> \<not> open_for_wr v \<and>
        (\<exists>a. r_objs r a = v \<and> (\<forall>name \<in> set (linkfiles v). map_of (r_files r) name = Some a))"
  using assms unfolding exhibits_def by meson+

lemma other_namesI: "s i = Some x \<Longrightarrow> i \<noteq> j \<Longrightarrow> n \<in> set (linkfiles x) \<Longrightarrow> n \<in> other_names s j"
  unfolding other_names_def by (rule UN_I[of i]) auto

lemma exhibits_unused:
  assumes "exhibits r s" "name \<notin> other_names s i" "\<forall>v. s i = Some v \<longrightarrow> name \<notin> set (linkfiles v)"
  shows "map_of (r_files r) name = None"
proof (rule ccontr)
  assume "map_of (r_files r) name \<noteq> None"
  then obtain a where "map_of (r_files r) name = Some a" by auto
  from exhibits_table(1)[OF assms(1) this] show False using assms(2,3) unfolding other_names_def by (cases "file_id (r_objs r a) = i") force+
qed

lemma exhibits_new:
  assumes e: "exhibits r s" and s: "s (file_id v) = None" and v: "good_names (linkfiles v)" "\<not> open_for_wr v"
      "set (linkfiles v) \<inter> other_names s (file_id v) = {}"
    and r': "sorted_table (r_files r')" "map_of (r_files r') = (\<lambda>n. if n \<in> set (linkfiles v) then Some (r_nr r) else map_of (r_files r) n)"
      "r_objs r' = (r_objs r)(r_nr r := v)" "r_nr r' = r_nr r + 1" "r_handles r' = []" "file_id v < r_next r'" "r_next r \<le> r_next r'"
      "r_used r' = (\<lambda>p. r_used r p + tot (extents v) p)"
  shows "exhibits r' (s(file_id v \<mapsto> v))"
proof -
  have fin: "finite (dom s)" and nr: "\<And>name a. map_of (r_files r) name = Some a \<Longrightarrow> a < r_nr r"
    and u: "\<And>p. r_used r p = (\<Sum>i \<in> dom s. tot (extents (the (s i))) p)" using e unfolding exhibits_def by (auto simp: ran_def)
  have unused: "map_of (r_files r) n = None" if "n \<in> set (linkfiles v)" for n
    using exhibits_unused[OF e, of n "file_id v"] that v(3) s by auto
  have 1: "\<forall>a \<in> ran (map_of (r_files r')). a < r_nr r'" by (auto simp: r' ran_def split: if_splits dest: nr)
  have u': "r_used r' p = (\<Sum>i \<in> dom (s(file_id v \<mapsto> v)). tot (extents (the ((s(file_id v \<mapsto> v)) i))) p)" for p
    using sum_update[OF fin, of "\<lambda>w. tot (extents w) p" "file_id v" v] sum_remove[OF fin, of "\<lambda>w. tot (extents w) p" "file_id v"] s u
    by (simp add: r')
  have t1: "name \<in> set (linkfiles (r_objs r' a)) \<and> (s(file_id v \<mapsto> v)) (file_id (r_objs r' a)) = Some (r_objs r' a)"
    if "map_of (r_files r') name = Some a" for name a
  proof (cases "name \<in> set (linkfiles v)")
    case True
    then show ?thesis using that by (simp add: r')
  next
    case False
    then have m: "map_of (r_files r) name = Some a" using that by (simp add: r')
    then have "a \<noteq> r_nr r" using nr by fastforce
    then show ?thesis using exhibits_table(1)[OF e m] s by (auto simp: r')
  qed
  have t2: "file_id w = i \<and> i < r_next r' \<and> good_names (linkfiles w) \<and> \<not> open_for_wr w \<and>
      (\<exists>a. r_objs r' a = w \<and> (\<forall>name \<in> set (linkfiles w). map_of (r_files r') name = Some a))"
    if w: "(s(file_id v \<mapsto> v)) i = Some w" for i w
  proof (cases "i = file_id v")
    case True
    then show ?thesis using w v r'(6) by (auto simp: r'(2,3))
  next
    case False
    then have i: "s i = Some w" using w by simp
    from exhibits_table(2)[OF e i] obtain a where a: "r_objs r a = w" "\<forall>name \<in> set (linkfiles w). map_of (r_files r) name = Some a" "linkfiles w \<noteq> []"
      and rest: "file_id w = i" "i < r_next r" "good_names (linkfiles w)" "\<not> open_for_wr w" by (auto simp: good_names_def)
    have "a \<noteq> r_nr r" using a(2,3) nr by (metis list.set_sel(1) less_irrefl)
    moreover have "n \<notin> set (linkfiles v)" if "n \<in> set (linkfiles w)" for n using unused a(2) that by fastforce
    ultimately show ?thesis using a rest r'(7) by (intro conjI exI[of _ a]) (auto simp: r'(2,3))
  qed
  have "finite (dom (s(file_id v \<mapsto> v)))" using fin by simp
  from exhibitsI[OF r'(1,5) this 1 u' t1 t2] show ?thesis .
qed

text \<open>A file that is there changes its value, with its names exchanged.\<close>

lemma exhibits_change:
  assumes e: "exhibits r s" and s: "s (file_id v) = Some w" and b: "r_objs r b = w" "\<forall>name \<in> set (linkfiles w). map_of (r_files r) name = Some b"
    and v: "good_names (linkfiles v)" "\<not> open_for_wr v" "set (linkfiles v) \<inter> other_names s (file_id v) = {}"
    and r': "sorted_table (r_files r')"
      "map_of (r_files r') = (\<lambda>n. if n \<in> set (linkfiles v) then Some b else if n \<in> set (linkfiles w) then None else map_of (r_files r) n)"
      "\<And>a. a < r_nr r \<Longrightarrow> r_objs r' a = ((r_objs r)(b := v)) a" "r_nr r \<le> r_nr r'" "r_handles r' = []" "r_next r \<le> r_next r'"
      "\<And>p. r_used r' p + tot (extents w) p = r_used r p + tot (extents v) p"
  shows "exhibits r' (s(file_id v \<mapsto> v))"
proof -
  have fin: "finite (dom s)" and nr: "\<And>name a. map_of (r_files r) name = Some a \<Longrightarrow> a < r_nr r"
    and u: "\<And>p. r_used r p = (\<Sum>i \<in> dom s. tot (extents (the (s i))) p)" using e unfolding exhibits_def by (auto simp: ran_def)
  note tw = exhibits_table(2)[OF e s]
  have "hd (linkfiles w) \<in> set (linkfiles w)" using tw by (auto simp: good_names_def)
  then have bnr: "b < r_nr r" using nr b(2) by blast
  have 1: "\<forall>a \<in> ran (map_of (r_files r')). a < r_nr r'" using bnr r'(4) by (auto simp: r'(2) ran_def split: if_splits dest!: nr)
  have u': "r_used r' p = (\<Sum>i \<in> dom (s(file_id v \<mapsto> v)). tot (extents (the ((s(file_id v \<mapsto> v)) i))) p)" for p
    using sum_update[OF fin, of "\<lambda>w. tot (extents w) p" "file_id v" v] sum_remove[OF fin, of "\<lambda>w. tot (extents w) p" "file_id v"] s u r'(7)[of p]
    by simp
  have t1: "name \<in> set (linkfiles (r_objs r' a)) \<and> (s(file_id v \<mapsto> v)) (file_id (r_objs r' a)) = Some (r_objs r' a)"
    if m': "map_of (r_files r') name = Some a" for name a
  proof (cases "name \<in> set (linkfiles v)")
    case True
    then show ?thesis using m' bnr r'(3) by (simp add: r'(2))
  next
    case False
    then have m: "map_of (r_files r) name = Some a" "name \<notin> set (linkfiles w)" using m' by (auto simp: r'(2) split: if_splits)
    note t = exhibits_table(1)[OF e m(1)]
    have "a \<noteq> b" using t b(1) m(2) by auto
    moreover have "file_id (r_objs r a) \<noteq> file_id v" using t s m(2) by auto
    ultimately show ?thesis using t r'(3) nr[OF m(1)] by simp
  qed
  have t2: "file_id x = i \<and> i < r_next r' \<and> good_names (linkfiles x) \<and> \<not> open_for_wr x \<and>
      (\<exists>a. r_objs r' a = x \<and> (\<forall>name \<in> set (linkfiles x). map_of (r_files r') name = Some a))"
    if x: "(s(file_id v \<mapsto> v)) i = Some x" for i x
  proof (cases "i = file_id v")
    case True
    then show ?thesis using x v tw bnr r'(3,6) by (auto simp: r'(2) intro!: exI[of _ b])
  next
    case False
    then have i: "s i = Some x" using x by simp
    from exhibits_table(2)[OF e i] obtain a where a: "r_objs r a = x" "\<forall>name \<in> set (linkfiles x). map_of (r_files r) name = Some a" "linkfiles x \<noteq> []"
      and rest: "file_id x = i" "i < r_next r" "good_names (linkfiles x)" "\<not> open_for_wr x" by (auto simp: good_names_def)
    have "a < r_nr r" using a(2,3) nr by (metis list.set_sel(1))
    moreover have "a \<noteq> b" using a(1) b(1) tw rest(1) False by auto
    moreover have "n \<notin> set (linkfiles v)" if "n \<in> set (linkfiles x)" for n using v(3) other_namesI[of s i x, OF i False that] by auto
    moreover have "n \<notin> set (linkfiles w)" if "n \<in> set (linkfiles x)" for n using exhibits_names[OF e i that s] False by auto
    ultimately show ?thesis using a rest r'(3,6) by (intro conjI exI[of _ a]) (auto simp: r'(2))
  qed
  have "finite (dom (s(file_id v \<mapsto> v)))" using fin by simp
  from exhibitsI[OF r'(1,5) this 1 u' t1 t2] show ?thesis .
qed

lemma exhibits_remove:
  assumes e: "exhibits r s" and s: "s i = Some w"
    and r': "sorted_table (r_files r')" "map_of (r_files r') = (\<lambda>n. if n \<in> set (linkfiles w) then None else map_of (r_files r) n)"
      "\<And>a. a < r_nr r \<Longrightarrow> a \<noteq> b \<Longrightarrow> r_objs r' a = r_objs r a" "r_nr r \<le> r_nr r'" "r_handles r' = []" "r_next r \<le> r_next r'"
      "\<And>p. r_used r' p + tot (extents w) p = r_used r p"
    and b: "r_objs r b = w"
  shows "exhibits r' (s(i := None))"
proof -
  have fin: "finite (dom s)" and nr: "\<And>name a. map_of (r_files r) name = Some a \<Longrightarrow> a < r_nr r"
    and u: "\<And>p. r_used r p = (\<Sum>i \<in> dom s. tot (extents (the (s i))) p)" using e unfolding exhibits_def by (auto simp: ran_def)
  note tw = exhibits_table(2)[OF e s]
  have 1: "\<forall>a \<in> ran (map_of (r_files r')). a < r_nr r'" using r'(4) by (auto simp: r'(2) ran_def split: if_splits dest!: nr)
  have u': "r_used r' p = (\<Sum>j \<in> dom (s(i := None)). tot (extents (the ((s(i := None)) j))) p)" for p
    using sum_remove[OF fin, of "\<lambda>w. tot (extents w) p" i] s u r'(7)[of p] by simp
  have t1: "name \<in> set (linkfiles (r_objs r' a)) \<and> (s(i := None)) (file_id (r_objs r' a)) = Some (r_objs r' a)"
    if m': "map_of (r_files r') name = Some a" for name a
  proof -
    have m: "map_of (r_files r) name = Some a" "name \<notin> set (linkfiles w)" using m' by (auto simp: r'(2) split: if_splits)
    note t = exhibits_table(1)[OF e m(1)]
    have "a \<noteq> b" using t b m(2) by auto
    moreover have "file_id (r_objs r a) \<noteq> i" using t s m(2) by auto
    ultimately show ?thesis using t r'(3) nr[OF m(1)] by simp
  qed
  have t2: "file_id x = j \<and> j < r_next r' \<and> good_names (linkfiles x) \<and> \<not> open_for_wr x \<and>
      (\<exists>a. r_objs r' a = x \<and> (\<forall>name \<in> set (linkfiles x). map_of (r_files r') name = Some a))"
    if x: "(s(i := None)) j = Some x" for j x
  proof -
    have j: "s j = Some x" "j \<noteq> i" using x by (auto split: if_splits)
    from exhibits_table(2)[OF e j(1)] obtain a where a: "r_objs r a = x" "\<forall>name \<in> set (linkfiles x). map_of (r_files r) name = Some a" "linkfiles x \<noteq> []"
      and rest: "file_id x = j" "j < r_next r" "good_names (linkfiles x)" "\<not> open_for_wr x" by (auto simp: good_names_def)
    have "a < r_nr r" using a(2,3) nr by (metis list.set_sel(1))
    moreover have "a \<noteq> b" using a(1) b tw rest(1) j(2) by auto
    moreover have "n \<notin> set (linkfiles w)" if "n \<in> set (linkfiles x)" for n using exhibits_names[OF e j(1) that s] j(2) by auto
    ultimately show ?thesis using a rest r'(3,6) by (intro conjI exI[of _ a]) (auto simp: r'(2))
  qed
  have "finite (dom (s(i := None)))" using fin by simp
  from exhibitsI[OF r'(1,5) this 1 u' t1 t2] show ?thesis .
qed

section \<open>Replaying a snapshot\<close>

lemma persisted_simps [simp]:
  "file_id (persisted f) = file_id f" "linkfiles (persisted f) = linkfiles f" "extents (persisted f) = extents f" "\<not> open_for_wr (persisted f)"
  by (simp_all add: persisted_def decoded_def file_defs)

lemma exhibits_nr:
  assumes "exhibits r s" "s i = Some v"
  shows "\<exists>b < r_nr r. r_objs r b = v \<and> (\<forall>name \<in> set (linkfiles v). map_of (r_files r) name = Some b)"
proof -
  from exhibits_table(2)[OF assms] obtain b where b: "r_objs r b = v" "\<forall>name \<in> set (linkfiles v). map_of (r_files r) name = Some b" "linkfiles v \<noteq> []"
    by (auto simp: good_names_def)
  then have "b \<in> ran (map_of (r_files r))" by (metis list.set_sel(1) ranI)
  then have "b < r_nr r" using assms(1) by (simp add: exhibits_def)
  then show ?thesis using b by blast
qed

lemma exhibits_disjoint: "exhibits r s \<Longrightarrow> s i = Some v \<Longrightarrow> set (linkfiles v) \<inter> other_names s i = {}"
  unfolding other_names_def using exhibits_names by fastforce

definition fits :: "files_view \<Rightarrow> ZoneFile \<Rightarrow> bool" where
  "fits s v \<longleftrightarrow> s (file_id v) = None \<and> set (linkfiles v) \<inter> other_names s (file_id v) = {} \<or> s (file_id v) = Some v"

lemma snapshot_step:
  assumes st: "at_state fs0 r fs" and e: "exhibits r s" and f: "encodable fs0 f" "file_id f + 1 < 2 ^ 64" "good_names (linkfiles f)" "fits s (persisted f)"
    and u: "\<forall>p. r_used r p + tot (extents f) p < 2 ^ 64"
  shows "\<exists>fs1 fs2 r'. decode_object (EncodeSnapshotTo f) fs = Some (OK, r_nr r, fs1) \<and> file_objs fs1 (r_nr r) = persisted f \<and>
    drop_ref E X (r_nr r) (insert_links (r_nr r) (linkfiles f) (note_file_id (file_id f) fs1)) = Some fs2 \<and>
    at_state fs0 r' fs2 \<and> exhibits r' (s(file_id f \<mapsto> persisted f))"
proof -
  let ?u = "\<lambda>p. r_used r p + tot (extents f) p" and ?m = "fold (\<lambda>n m. map_insert n (r_nr r) m) (linkfiles f) (r_files r)"
  let ?n = "next_after (r_next r) (file_id f)"
  let ?r1 = "r\<lparr>r_used := ?u, r_nr := r_nr r + 1, r_objs := (r_objs r)(r_nr r := persisted f), r_handles := r_nr r # r_handles r\<rparr>"
  let ?r2 = "?r1\<lparr>r_next := ?n, r_files := ?m\<rparr>"
  have h: "r_handles r = []" and so: "sorted_table (r_files r)" and nr: "\<forall>a \<in> ran (map_of (r_files r)). a < r_nr r"
    using e by (simp_all add: exhibits_def)
  obtain fs1 where d: "decode_object (EncodeSnapshotTo f) fs = Some (OK, r_nr r, fs1)" and s1: "at_state fs0 ?r1 fs1"
    using at_state_decode[OF st f(1), of 0] u by (auto simp: EncodeSnapshotTo_def persisted_def)
  have o: "file_objs fs1 (r_nr r) = persisted f" using at_state_fields(2)[OF s1] by simp
  let ?fs2 = "insert_links (r_nr r) (linkfiles f) (note_file_id (file_id f) fs1)"
  have fl: "files (note_file_id (file_id f) fs1) = r_files r" using at_state_fields(1)[OF s1] by (simp add: note_file_id_def)
  have s2: "at_state fs0 ?r2 ?fs2"
    using at_state_files[OF at_state_note[OF s1, of "file_id f"], of ?m] fl by (simp add: insert_links_def)
  have m: "sorted_table ?m" "map_of ?m = (\<lambda>n. if map_of (r_files r) n = None \<and> n \<in> set (linkfiles f) then Some (r_nr r) else map_of (r_files r) n)"
    using insert_all[OF so, of "r_nr r" "linkfiles f"] by simp_all
  note nx = next_after[OF f(2), of "r_next r"]
  consider (new) "s (file_id f) = None" "set (linkfiles f) \<inter> other_names s (file_id f) = {}" | (again) "s (file_id f) = Some (persisted f)"
    using f(4) by (auto simp: fits_def)
  then show ?thesis
  proof cases
    case new
    have unused: "map_of (r_files r) n = None" if "n \<in> set (linkfiles f)" for n
      using exhibits_unused[OF e, of n "file_id f"] that new by auto
    have "hd (linkfiles f) \<in> set (linkfiles f)" using f(3) by (simp add: good_names_def)
    then have "map_of ?m (hd (linkfiles f)) = Some (r_nr r)" using unused m(2) by simp
    then have "r_nr r \<in> snd ` set (r_files ?r2)" using sorted_table_ran[OF m(1)] by (simp add: ranI)
    then obtain fs2 where "drop_ref E X (r_nr r) ?fs2 = Some fs2" "at_state fs0 (?r2\<lparr>r_handles := []\<rparr>) fs2"
      using at_state_drop_kept[OF s2, of "r_nr r" E X] h by auto
    moreover have "exhibits (?r2\<lparr>r_handles := []\<rparr>) (s(file_id (persisted f) \<mapsto> persisted f))"
      using new f(3) m nx unused by (intro exhibits_new[OF e]) (auto simp: fun_eq_iff)
    ultimately show ?thesis using d o by auto
  next
    case again
    then obtain b where b: "b < r_nr r" "r_objs r b = persisted f" "\<forall>name \<in> set (linkfiles f). map_of (r_files r) name = Some b"
      using exhibits_nr[OF e again] by auto
    have m': "map_of ?m = map_of (r_files r)" using m(2) b(3) by (auto simp: fun_eq_iff)
    have "r_nr r \<notin> snd ` set (r_files ?r2)" using sorted_table_ran[OF m(1)] m' nr by auto
    then obtain fs2 where "drop_ref E X (r_nr r) ?fs2 = Some fs2" "at_state fs0 (?r2\<lparr>r_handles := [], r_used := r_used r\<rparr>) fs2"
      using at_state_drop_last[OF s2, of "r_nr r" E X] h by auto
    moreover have "exhibits (?r2\<lparr>r_handles := [], r_used := r_used r\<rparr>) (s(file_id (persisted f) \<mapsto> persisted f))"
    proof (rule exhibits_change[OF e, of _ "persisted f" b])
      show "set (linkfiles (persisted f)) \<inter> other_names s (file_id (persisted f)) = {}" using exhibits_disjoint[OF e again] by simp
    qed (use again b f(3) m m' nx in \<open>auto simp: fun_eq_iff\<close>)
    ultimately show ?thesis using d o by auto
  qed
qed

lemma exhibits_used_grow: "exhibits r s \<Longrightarrow> exhibits r' (s(i \<mapsto> v)) \<Longrightarrow> r_used r' p \<le> r_used r p + tot (extents v) p"
  using sum_update[of s "\<lambda>w. tot (extents w) p" i v] sum_remove[of s "\<lambda>w. tot (extents w) p" i] by (simp add: exhibits_def)

lemma fits_step:
  assumes "unrelated f g" "fits s (persisted g)"
  shows "fits (s(file_id f \<mapsto> persisted f)) (persisted g)"
proof (cases "f = g")
  case False
  then have a: "file_id f \<noteq> file_id g" "set (linkfiles f) \<inter> set (linkfiles g) = {}" using assms(1) by (auto simp: unrelated_def)
  then have "other_names (s(file_id f \<mapsto> persisted f)) (file_id g) \<subseteq> other_names s (file_id g) \<union> set (linkfiles f)"
    unfolding other_names_def by (auto split: if_splits)
  then show ?thesis using assms(2) a by (auto simp: fits_def)
qed (simp add: fits_def)

lemma PutLengthPrefixedSlice_append: "PutLengthPrefixedSlice out bs = out @ PutLengthPrefixedSlice [] bs"
  by (simp add: PutLengthPrefixedSlice_def PutVarint32_def)

definition snapshot_data :: "ZoneFile list \<Rightarrow> bytes" where
  "snapshot_data fl = concat (map (\<lambda>f. PutLengthPrefixedSlice [] (EncodeSnapshotTo f)) fl)"

lemma fold_snapshot: "fold (\<lambda>f out. PutLengthPrefixedSlice out (EncodeSnapshotTo f)) fl out = out @ snapshot_data fl"
proof (induction fl arbitrary: out)
  case (Cons f fl)
  then show ?case by (simp add: snapshot_data_def PutLengthPrefixedSlice_append[of out])
qed (simp add: snapshot_data_def)

lemma snapshot_loop:
  assumes "at_state fs0 r fs" "exhibits r s" "\<forall>f \<in> set fl. fine_file fs0 f \<and> good_names (linkfiles f) \<and> fits s (persisted f)"
    "\<forall>f \<in> set fl. \<forall>g \<in> set fl. unrelated f g" "\<forall>p. r_used r p + sum_list (map (\<lambda>f. tot (extents f) p) fl) < 2 ^ 64"
  shows "\<exists>fs' r'. DecodeSnapshotFrom_loop E X (snapshot_data fl) fs = Some (OK, fs') \<and> at_state fs0 r' fs' \<and>
    exhibits r' (fold (\<lambda>f s. s(file_id f \<mapsto> persisted f)) fl s)"
  using assms
proof (induction fl arbitrary: r fs s)
  case Nil
  then show ?case by (auto simp: DecodeSnapshotFrom_loop.simps[of E X "[]"] snapshot_data_def GetLengthPrefixedSlice_def GetVarint32_def
        GetVarint32PtrFallback.simps)
next
  case (Cons f fl)
  have f: "encodable fs0 f" "file_id f + 1 < 2 ^ 64" "good_names (linkfiles f)" "fits s (persisted f)" "length (EncodeSnapshotTo f) < 2 ^ 32"
    using Cons.prems(3) by (simp_all add: fine_file_def EncodeSnapshotTo_def)
  have "\<forall>p. r_used r p + tot (extents f) p < 2 ^ 64"
  proof
    fix p show "r_used r p + tot (extents f) p < 2 ^ 64" using spec[OF Cons.prems(5), of p] by simp
  qed
  from snapshot_step[OF Cons.prems(1,2) f(1-4) this, of E X] obtain fs1 fs2 r' where
    d: "decode_object (EncodeSnapshotTo f) fs = Some (OK, r_nr r, fs1)" "file_objs fs1 (r_nr r) = persisted f"
      "drop_ref E X (r_nr r) (insert_links (r_nr r) (linkfiles f) (note_file_id (file_id f) fs1)) = Some fs2"
    and s2: "at_state fs0 r' fs2" "exhibits r' (s(file_id f \<mapsto> persisted f))" by blast
  have "GetLengthPrefixedSlice (snapshot_data (f # fl)) = Some (EncodeSnapshotTo f, snapshot_data fl)"
    using GetLengthPrefixedSlice_Put[OF f(5)] by (simp add: snapshot_data_def)
  then have l: "DecodeSnapshotFrom_loop E X (snapshot_data (f # fl)) fs = DecodeSnapshotFrom_loop E X (snapshot_data fl) fs2"
    using d by (simp add: DecodeSnapshotFrom_loop.simps[of E X "snapshot_data (f # fl)"])
  let ?s = "s(file_id f \<mapsto> persisted f)"
  have 1: "\<forall>g \<in> set fl. fine_file fs0 g \<and> good_names (linkfiles g) \<and> fits (s(file_id f \<mapsto> persisted f)) (persisted g)"
    using Cons.prems(3,4) by (auto intro!: fits_step)
  have 2: "r_used r' p + sum_list (map (\<lambda>f. tot (extents f) p) fl) < 2 ^ 64" for p
    using spec[OF Cons.prems(5), of p] exhibits_used_grow[OF Cons.prems(2) s2(2), of p] by simp
  have 3: "\<forall>f \<in> set fl. \<forall>g \<in> set fl. unrelated f g" using Cons.prems(4) by simp
  from Cons.IH[of r' fs2 ?s, OF s2 1 3 allI[OF 2]] show ?case unfolding l by simp
qed

lemma exhibits_empty: "exhibits r Map.empty \<Longrightarrow> r_files r = []"
proof (cases "r_files r")
  case (Cons x xs)
  assume "exhibits r Map.empty"
  from exhibits_table(1)[OF this, of "fst x" "snd x"] show ?thesis by (simp add: Cons)
qed simp

lemma replay_snapshot:
  assumes st: "at_state fs0 r fs" and e: "exhibits r s" and a: "applies fs0 (Snapshot fl) s"
  shows "\<exists>fs' r'. replay_record E X kCompleteFilesSnapshot (snapshot_data fl) fs = Some (OK, fs') \<and> at_state fs0 r' fs' \<and>
    exhibits r' (entry_effect (Snapshot fl) s)"
proof -
  have s: "s = Map.empty" using a by simp
  have fl: "files fs = []" using exhibits_empty e at_state_fields(1)[OF st] s by simp
  have u: "r_used r p = 0" for p using e by (simp add: exhibits_def s)
  have "sum_list (map (\<lambda>f. tot (extents f) p) fl) < 2 ^ 64" for p
    using sum_list_mono[of fl "\<lambda>f. tot (extents f) p" "\<lambda>f. total_length (extents f)"] tot_le a by (fastforce intro: le_less_trans)
  then have "\<exists>fs' r'. DecodeSnapshotFrom_loop E X (snapshot_data fl) fs = Some (OK, fs') \<and> at_state fs0 r' fs' \<and>
    exhibits r' (fold (\<lambda>f s. s(file_id f \<mapsto> persisted f)) fl s)"
    using snapshot_loop[OF st e, of fl E X] a u by (auto simp: fits_def other_names_def)
  moreover have "fs\<lparr>files := []\<rparr> = fs" unfolding fl[symmetric] by simp
  then have "ClearFiles E X fs = Some fs" unfolding ClearFiles_def fl clear_files_loop.simps by (rule arg_cong)
  ultimately show ?thesis using fl s by (simp add: replay_record_def DecodeSnapshotFrom_def)
qed

section \<open>Replaying an update\<close>

lemma at_state_merge:
  assumes st: "at_state fs0 r fs" and i: "file_id v = file_id u" and t: "\<forall>p. tot (extents v) p \<le> r_used r p" "\<forall>p. r_used r p + tot (extents u) p < 2 ^ 64"
  shows "\<exists>fs'. MergeUpdate u replace v fs = Some (OK, (MetadataSynced (v\<lparr>file_size := file_size u, file_lifetime := file_lifetime u, m_time := m_time u,
      extents := (if replace then [] else extents v) @ extents u, extent_start := extent_start u, is_sparse := is_sparse u\<rparr>))\<lparr>linkfiles := linkfiles u\<rparr>, fs') \<and>
    at_state fs0 (r\<lparr>r_used := (\<lambda>p. (if replace then r_used r p - tot (extents v) p else r_used r p) + tot (extents u) p)\<rparr>) fs'"
proof -
  let ?u0 = "\<lambda>p. if replace then r_used r p - tot (extents v) p else r_used r p"
  note fl = at_state_fields(6)[OF st]
  note w = at_state_used[OF st, of ?u0]
  note fw = at_state_fields(6)[OF w]
  have 1: "clear_extents (extents v) fs = Some (with_used ?u0 fs)" if replace
    using that clear_extents_used[of "extents v" fs] t(1) fl by simp
  have 2: "with_used ?u0 fs = fs" if "\<not> replace" using that fl[symmetric] by simp
  have "used (with_used ?u0 fs) p + tot (extents u) p < 2 ^ 64" for p
    using spec[OF t(2), of p] le_less_trans[OF add_right_mono[OF diff_le_self[of "r_used r p" "tot (extents v) p"]], of "tot (extents u) p"] by simp
  then have c: "count_extents (extents u) (with_used ?u0 fs) = with_used (\<lambda>p. ?u0 p + tot (extents u) p) (with_used ?u0 fs)"
    using count_extents_used[of "with_used ?u0 fs" "extents u"] by simp
  show ?thesis using at_state_used[OF w, of "\<lambda>p. ?u0 p + tot (extents u) p"] i c 1 2
    by (cases replace) (simp_all add: MergeUpdate_def ClearExtents_def Let_def count_extents_def[symmetric] MetadataSynced_def)
qed

lemma update_simps [simp]:
  "file_id (decoded f n (new_ZoneFile 0)) = file_id f" "linkfiles (decoded f n (new_ZoneFile 0)) = linkfiles f"
  "extents (decoded f n (new_ZoneFile 0)) = drop n (extents f)" "\<not> open_for_wr (decoded f n (new_ZoneFile 0))"
  "file_id (merged replace f v) = file_id v" "linkfiles (merged replace f v) = linkfiles f" "open_for_wr (merged replace f v) = open_for_wr v"
  "extents (merged replace f v) = (if replace then [] else extents v) @ drop (nr_synced_extents f) (extents f)"
  by (simp_all add: decoded_def merged_def file_defs)

lemma merged_decoded:
  "(MetadataSynced (v\<lparr>file_size := file_size u, file_lifetime := file_lifetime u, m_time := m_time u,
      extents := (if replace then [] else extents v) @ extents u, extent_start := extent_start u, is_sparse := is_sparse u\<rparr>))\<lparr>linkfiles := linkfiles u\<rparr> =
    merged replace f v" if "u = decoded f (nr_synced_extents f) (new_ZoneFile 0)"
  by (simp add: that decoded_def merged_def file_defs)

lemma merge_step:
  assumes st: "at_state fs0 r fs" and h: "r_handles r = [b, a]" "a \<noteq> b"
    and a: "r_objs r a = decoded f (nr_synced_extents f) (new_ZoneFile 0)" "a \<notin> snd ` set (r_files r)"
    and b: "r_objs r b = w" "file_id w = file_id f" "good_names (linkfiles w)" "\<forall>n \<in> set (linkfiles w). map_of (r_files r) n = Some b"
    and f: "\<forall>n \<in> set (linkfiles f). map_of (r_files r) n \<noteq> None \<longrightarrow> n \<in> set (linkfiles w)"
    and so: "sorted_table (r_files r)"
    and u: "\<forall>p. tot (extents w) p + tot (drop (nr_synced_extents f) (extents f)) p \<le> r_used r p"
      "\<forall>p. r_used r p + tot (drop (nr_synced_extents f) (extents f)) p < 2 ^ 64"
  shows "\<exists>fs' m. merge_into E X a replace b fs = Some (OK, fs') \<and> sorted_table m \<and>
    map_of m = (\<lambda>n. if n \<in> set (linkfiles f) then Some b else if n \<in> set (linkfiles w) then None else map_of (r_files r) n) \<and>
    at_state fs0 (r\<lparr>r_objs := (r_objs r)(b := merged replace f w), r_handles := [b],
      r_used := (\<lambda>p. if replace then r_used r p - tot (extents w) p else r_used r p), r_files := m\<rparr>) fs'"
proof -
  let ?t = "tot (drop (nr_synced_extents f) (extents f))"
  let ?u = "\<lambda>p. (if replace then r_used r p - tot (extents w) p else r_used r p) + ?t p"
  obtain m1 where m1: "erase_links (linkfiles w) (r_files r) = (True, m1)" "sorted_table m1"
    "map_of m1 = (\<lambda>n. if n \<in> set (linkfiles w) then None else map_of (r_files r) n)"
    using erase_all[OF so, of "linkfiles w"] b(3,4) by (auto simp: good_names_def)
  note s1 = at_state_files[OF st, of m1]
  have le: "tot (extents w) p \<le> r_used r p" for p using add_leD1[OF spec[OF u(1)]] .
  have "\<exists>fs'. MergeUpdate (r_objs r a) replace w (fs\<lparr>files := m1\<rparr>) = Some (OK, merged replace f w, fs') \<and> at_state fs0 (r\<lparr>r_files := m1, r_used := ?u\<rparr>) fs'"
    using at_state_merge[OF s1, of w "r_objs r a" replace, unfolded merged_decoded[OF a(1)]] a(1) b(2) u(2) le by (simp cong del: if_weak_cong)
  then obtain fs2 where M: "MergeUpdate (r_objs r a) replace w (fs\<lparr>files := m1\<rparr>) = Some (OK, merged replace f w, fs2)"
    and s2: "at_state fs0 (r\<lparr>r_files := m1, r_used := ?u\<rparr>) fs2" by blast
  let ?r3 = "r\<lparr>r_files := m1, r_used := ?u, r_objs := (r_objs r)(b := merged replace f w)\<rparr>"
  have s3: "at_state fs0 ?r3 (upd_obj b (merged replace f w) fs2)" using at_state_upd[OF s2] by simp
  have "ran (map_of m1) \<subseteq> ran (map_of (r_files r))" by (auto simp: m1(3) ran_def split: if_splits)
  then have na: "a \<notin> snd ` set (r_files ?r3)" using a(2) sorted_table_ran[OF m1(2)] sorted_table_ran[OF so] by auto
  obtain fs4 where d: "drop_ref E X a (upd_obj b (merged replace f w) fs2) = Some fs4"
    and s4: "at_state fs0 (?r3\<lparr>r_handles := [b], r_used := (\<lambda>p. ?u p - ?t p)\<rparr>) fs4"
    using at_state_drop_last[OF s3 na, of E X] h a(1) by auto
  let ?m = "fold (\<lambda>n m. map_insert n b m) (linkfiles f) m1"
  have m: "sorted_table ?m" "map_of ?m = (\<lambda>n. if n \<in> set (linkfiles f) then Some b else if n \<in> set (linkfiles w) then None else map_of (r_files r) n)"
    using insert_all[OF m1(2), of b "linkfiles f"] f m1(3) by (auto simp: fun_eq_iff)
  have "at_state fs0 (r\<lparr>r_objs := (r_objs r)(b := merged replace f w), r_handles := [b],
      r_used := (\<lambda>p. if replace then r_used r p - tot (extents w) p else r_used r p), r_files := ?m\<rparr>) (insert_links b (linkfiles f) fs4)"
    using at_state_files[OF s4, of ?m] at_state_fields(1)[OF s4] by (simp add: insert_links_def)
  moreover have "file_objs fs4 b = merged replace f w" using at_state_fields(2)[OF s4] by simp
  then have "merge_into E X a replace b fs = Some (OK, insert_links b (linkfiles f) fs4)"
    using m1(1) M d at_state_fields[OF st] b(1) by (simp add: merge_into_def)
  ultimately show ?thesis using m by blast
qed

lemma find_file:
  assumes e: "exhibits r s" and o: "\<forall>a < r_nr r. g a = r_objs r a"
  shows "s i = None \<Longrightarrow> find (\<lambda>(name, b). file_id (g b) = i) (r_files r) = None"
    "s i = Some w \<Longrightarrow> \<exists>name b. find (\<lambda>(name, b). file_id (g b) = i) (r_files r) = Some (name, b) \<and> b < r_nr r \<and> r_objs r b = w \<and>
       (\<forall>n \<in> set (linkfiles w). map_of (r_files r) n = Some b)"
proof -
  have so: "sorted_table (r_files r)" and nr: "\<forall>a \<in> ran (map_of (r_files r)). a < r_nr r" using e by (simp_all add: exhibits_def)
  have t: "b < r_nr r \<and> g b = r_objs r b \<and> name \<in> set (linkfiles (r_objs r b)) \<and> s (file_id (r_objs r b)) = Some (r_objs r b)"
    if "(name, b) \<in> set (r_files r)" for name b
  proof -
    have m: "map_of (r_files r) name = Some b" using that sorted_table_distinct[OF so] by simp
    then show ?thesis using nr o exhibits_table(1)[OF e m] by (auto simp: ran_def)
  qed
  show "s i = None \<Longrightarrow> find (\<lambda>(name, b). file_id (g b) = i) (r_files r) = None"
    by (auto simp: find_None_iff dest!: t)
  assume w: "s i = Some w"
  obtain b where b: "b < r_nr r" "r_objs r b = w" "\<forall>n \<in> set (linkfiles w). map_of (r_files r) n = Some b" using exhibits_nr[OF e w] by blast
  have i: "file_id w = i" "linkfiles w \<noteq> []" using exhibits_table(2)[OF e w] by (auto simp: good_names_def)
  then have "(hd (linkfiles w), b) \<in> set (r_files r)" using b(3) by (simp add: map_of_SomeD)
  moreover have "file_id (g b) = i" using o b(1,2) i(1) by simp
  ultimately have "find (\<lambda>(name, b). file_id (g b) = i) (r_files r) \<noteq> None" by (auto simp: find_None_iff)
  then obtain name b' where f: "find (\<lambda>(name, b). file_id (g b) = i) (r_files r) = Some (name, b')" by auto
  then have m: "(name, b') \<in> set (r_files r)" "file_id (g b') = i" by (auto simp: find_Some_iff set_conv_nth)
  from t[OF m(1)] m(2) w have b': "r_objs r b' = w" "name \<in> set (linkfiles w)" by auto
  moreover have "map_of (r_files r) name = Some b'" using m(1) sorted_table_distinct[OF so] by simp
  ultimately have "b' = b" using b(3) by auto
  then show "\<exists>name b. find (\<lambda>(name, b). file_id (g b) = i) (r_files r) = Some (name, b) \<and> b < r_nr r \<and> r_objs r b = w \<and>
       (\<forall>n \<in> set (linkfiles w). map_of (r_files r) n = Some b)" using f b by blast
qed

lemma exhibits_tot_le: "exhibits r s \<Longrightarrow> s i = Some w \<Longrightarrow> tot (extents w) p \<le> r_used r p"
  using sum_remove[of s "\<lambda>w. tot (extents w) p" i] by (simp add: exhibits_def)

lemma update_existing:
  assumes e: "exhibits r s" and a: "applies fs0 (Update replace f) s" and w: "s (file_id f) = Some w"
    and st: "at_state fs0 (r\<lparr>r_used := (\<lambda>p. r_used r p + tot (drop (nr_synced_extents f) (extents f)) p), r_nr := r_nr r + 1,
        r_objs := (r_objs r)(r_nr r := decoded f (nr_synced_extents f) (new_ZoneFile 0)), r_handles := [r_nr r], r_next := nx\<rparr>) fs"
    and nx: "r_next r \<le> nx"
    and b: "b < r_nr r" "r_objs r b = w" "\<forall>n \<in> set (linkfiles w). map_of (r_files r) n = Some b"
    and u: "\<forall>p. r_used r p + 2 * tot (drop (nr_synced_extents f) (extents f)) p < 2 ^ 64"
  shows "\<exists>fs' fs'' r'. merge_into E X (r_nr r) replace b (hold_ref b fs) = Some (OK, fs') \<and> drop_ref E X b fs' = Some fs'' \<and> at_state fs0 r' fs'' \<and>
    exhibits r' (s(file_id f \<mapsto> merged replace f w))"
proof -
  let ?t = "tot (drop (nr_synced_extents f) (extents f))"
  let ?o = "(r_objs r)(r_nr r := decoded f (nr_synced_extents f) (new_ZoneFile 0))"
  let ?r1 = "r\<lparr>r_used := (\<lambda>p. r_used r p + ?t p), r_nr := r_nr r + 1, r_objs := ?o, r_next := nx, r_handles := [b, r_nr r]\<rparr>"
  have s1: "at_state fs0 ?r1 (hold_ref b fs)" using at_state_hold[OF st, of b] by simp
  have so: "sorted_table (r_files r)" and nr: "\<forall>a \<in> ran (map_of (r_files r)). a < r_nr r" using e by (simp_all add: exhibits_def)
  have i: "file_id w = file_id f" "good_names (linkfiles w)" "\<not> open_for_wr w" using exhibits_table(2)[OF e w] by simp_all
  have na: "r_nr r \<notin> snd ` set (r_files ?r1)" using sorted_table_ran[OF so] nr by auto
  have links: "n \<in> set (linkfiles w)" if "n \<in> set (linkfiles f)" "map_of (r_files r) n \<noteq> None" for n
    using exhibits_unused[OF e, of n "file_id f"] that a w by auto
  have c: "r_handles ?r1 = [b, r_nr r]" "r_nr r \<noteq> b" "r_objs ?r1 (r_nr r) = decoded f (nr_synced_extents f) (new_ZoneFile 0)" "r_objs ?r1 b = w"
    "\<forall>n \<in> set (linkfiles w). map_of (r_files ?r1) n = Some b" "sorted_table (r_files ?r1)"
    "\<forall>n \<in> set (linkfiles f). map_of (r_files ?r1) n \<noteq> None \<longrightarrow> n \<in> set (linkfiles w)"
    using b so links by auto
  have u1: "\<forall>p. tot (extents w) p + ?t p \<le> r_used ?r1 p" using exhibits_tot_le[OF e w] by simp
  have u2: "\<forall>p. r_used ?r1 p + ?t p < 2 ^ 64" using u by (simp add: mult_2 add.assoc)
  from merge_step[OF s1 c(1-3) na c(4) i(1,2) c(5,7,6) u1 u2, of E X replace]
  obtain fs' m where M: "merge_into E X (r_nr r) replace b (hold_ref b fs) = Some (OK, fs')" "sorted_table m"
    "map_of m = (\<lambda>n. if n \<in> set (linkfiles f) then Some b else if n \<in> set (linkfiles w) then None else map_of (r_files ?r1) n)"
    and s2: "at_state fs0 (?r1\<lparr>r_objs := (r_objs ?r1)(b := merged replace f w), r_handles := [b],
      r_used := (\<lambda>p. if replace then r_used ?r1 p - tot (extents w) p else r_used ?r1 p), r_files := m\<rparr>) fs'" (is "at_state fs0 ?r2 fs'") by blast
  have "hd (linkfiles f) \<in> set (linkfiles f)" using a by (simp add: good_names_def)
  then have "map_of m (hd (linkfiles f)) = Some b" using M(3) by simp
  then have "b \<in> snd ` set (r_files ?r2)" using sorted_table_ran[OF M(2)] by (simp add: ranI)
  then obtain fs'' where d: "drop_ref E X b fs' = Some fs''" and s3: "at_state fs0 (?r2\<lparr>r_handles := []\<rparr>) fs''"
    using at_state_drop_kept[OF s2, of b E X] by auto
  have "exhibits (?r2\<lparr>r_handles := []\<rparr>) (s(file_id (merged replace f w) \<mapsto> merged replace f w))"
    using w b i a nx M(2,3) exhibits_tot_le[OF e w] by (intro exhibits_change[OF e, of _ w b]) (auto simp: trans_le_add1 cong del: if_weak_cong)
  then show ?thesis using M(1) d s3 i(1) by auto
qed

lemma replay_update:
  assumes st: "at_state fs0 r fs" and e: "exhibits r s" and a: "applies fs0 (Update replace f) s"
  shows "\<exists>fs' r'. replay_record E X (if replace then kFileReplace else kFileUpdate) (EncodeUpdateTo f) fs = Some (OK, fs') \<and> at_state fs0 r' fs' \<and>
    exhibits r' (entry_effect (Update replace f) s)"
proof -
  let ?n = "nr_synced_extents f" and ?nx = "next_after (r_next r) (file_id f)"
  let ?f = "decoded f ?n (new_ZoneFile 0)" and ?t = "tot (drop (nr_synced_extents f) (extents f))"
  have f: "encodable fs0 f" "file_id f + 1 < 2 ^ 64" "good_names (linkfiles f)" using a by (simp_all add: fine_file_def)
  have t: "?t p \<le> total_length (extents f)" for p
    using tot_le[of "extents f" p] tot_simps(3)[of "take ?n (extents f)" "drop ?n (extents f)" p] by simp
  have u: "r_used r p + 2 * ?t p < 2 ^ 64" for p using t[of p] exhibits_used_le[OF e, of p] a by simp
  have h: "r_handles r = []" and so: "sorted_table (r_files r)" and nr: "\<forall>a \<in> ran (map_of (r_files r)). a < r_nr r" using e by (simp_all add: exhibits_def)
  let ?o = "(r_objs r)(r_nr r := ?f)"
  let ?r1 = "r\<lparr>r_used := (\<lambda>p. r_used r p + ?t p), r_nr := r_nr r + 1, r_objs := ?o, r_handles := [r_nr r]\<rparr>"
  have u1: "r_used r p + ?t p < 2 ^ 64" for p using u[of p] by linarith
  obtain fs1 where d: "decode_object (EncodeUpdateTo f) fs = Some (OK, r_nr r, fs1)" and s1: "at_state fs0 ?r1 fs1"
    using at_state_decode[OF st f(1) allI[OF u1]] h by (auto simp: EncodeUpdateTo_def)
  have o: "file_objs fs1 (r_nr r) = ?f" using at_state_fields(2)[OF s1] by simp
  let ?fs = "note_file_id (file_id f) fs1"
  have s2: "at_state fs0 (?r1\<lparr>r_next := ?nx\<rparr>) ?fs" using at_state_note[OF s1, of "file_id f"] by simp
  note fl = at_state_fields[OF s2]
  have D: "replay_record E X (if replace then kFileReplace else kFileUpdate) (EncodeUpdateTo f) fs = DecodeFileUpdateFrom E X (EncodeUpdateTo f) replace fs"
    by (simp add: replay_record_def record_tags)
  show ?thesis
  proof (cases "s (file_id f)")
    case None
    then obtain name where name: "linkfiles f = [name]" "canonical name" using a by auto
    have unused: "map_of (r_files r) name = None" using exhibits_unused[OF e, of name "file_id f"] None name a by auto
    let ?m = "map_insert name (r_nr r) (r_files r)"
    have m: "sorted_table ?m" "map_of ?m = (map_of (r_files r))(name \<mapsto> r_nr r)" using sorted_map_insert[OF so] map_of_insert[OF so] unused by simp_all
    have s3: "at_state fs0 (?r1\<lparr>r_next := ?nx, r_files := ?m\<rparr>) (?fs\<lparr>files := ?m\<rparr>)" using at_state_files[OF s2, of ?m] by simp
    have "r_nr r \<in> snd ` set ?m" using sorted_table_ran[OF m(1)] m(2) by (auto simp: ran_def)
    then obtain fs' where d': "drop_ref E X (r_nr r) (?fs\<lparr>files := ?m\<rparr>) = Some fs'" and s4: "at_state fs0 (?r1\<lparr>r_next := ?nx, r_files := ?m, r_handles := []\<rparr>) fs'"
      using at_state_drop_kept[OF s3, of "r_nr r" E X] by auto
    have "find (\<lambda>(n, b). file_id (file_objs ?fs b) = file_id f) (r_files r) = None" using find_file(1)[OF e _ None, of "file_objs ?fs"] fl by simp
    then have "DecodeFileUpdateFrom E X (EncodeUpdateTo f) replace fs = Some (OK, fs')"
      using d o d' fl name unused by (simp add: DecodeFileUpdateFrom_def GetFile_def GetFileNoLock_def canonical_def)
    moreover have "exhibits (?r1\<lparr>r_next := ?nx, r_files := ?m, r_handles := []\<rparr>) (s(file_id ?f \<mapsto> ?f))"
      using None f(3) m next_after[OF f(2), of "r_next r"] name a by (intro exhibits_new[OF e]) (auto simp: fun_eq_iff)
    ultimately show ?thesis using s4 D None by auto
  next
    case (Some w)
    obtain name b where b: "find (\<lambda>(n, b). file_id (file_objs ?fs b) = file_id f) (r_files r) = Some (name, b)" "b < r_nr r" "r_objs r b = w"
        "\<forall>n \<in> set (linkfiles w). map_of (r_files r) n = Some b"
      using find_file(2)[OF e _ Some, of "file_objs ?fs"] fl by auto
    have s2': "at_state fs0 (r\<lparr>r_used := (\<lambda>p. r_used r p + ?t p), r_nr := r_nr r + 1, r_objs := ?o, r_handles := [r_nr r], r_next := ?nx\<rparr>) ?fs"
      using s2 by simp
    from update_existing[OF e a Some s2' _ b(2-4) allI[OF u], of E X] next_after[OF f(2), of "r_next r"]
    obtain fs' fs'' r' where "merge_into E X (r_nr r) replace b (hold_ref b ?fs) = Some (OK, fs')" "drop_ref E X b fs' = Some fs''" "at_state fs0 r' fs''"
      "exhibits r' (s(file_id f \<mapsto> merged replace f w))" by blast
    then show ?thesis using d o b(1) fl(1) D Some by (auto simp: DecodeFileUpdateFrom_def)
  qed
qed

section \<open>Replaying a deletion\<close>

lemma replay_deletion:
  assumes st: "at_state fs0 r fs" and e: "exhibits r s" and a: "applies fs0 (Deletion f name) s"
  shows "\<exists>fs' r'. replay_record E X kFileDeletion (PutLengthPrefixedSlice (PutFixed64 [] (file_id f)) name) fs = Some (OK, fs') \<and> at_state fs0 r' fs' \<and>
    exhibits r' (entry_effect (Deletion f name) s)"
proof -
  obtain v where v: "s (file_id f) = Some v" "name \<in> set (linkfiles v)" using a by auto
  have vi: "file_id v = file_id f" "good_names (linkfiles v)" "\<not> open_for_wr v" using exhibits_table(2)[OF e v(1)] by simp_all
  obtain b where b: "b < r_nr r" "r_objs r b = v" "\<forall>n \<in> set (linkfiles v). map_of (r_files r) n = Some b" using exhibits_nr[OF e v(1)] by blast
  have h: "r_handles r = []" and so: "sorted_table (r_files r)" using e by (simp_all add: exhibits_def)
  note fl = at_state_fields[OF st]
  let ?m = "map_erase name (r_files r)" and ?v = "v\<lparr>linkfiles := remove1 name (linkfiles v)\<rparr>"
  let ?fs = "upd_obj b ?v (hold_ref b (fs\<lparr>files := ?m\<rparr>))"
  let ?r1 = "r\<lparr>r_files := ?m, r_handles := [b], r_objs := (r_objs r)(b := ?v)\<rparr>"
  have s1: "at_state fs0 ?r1 ?fs" using at_state_upd[OF at_state_hold[OF at_state_files[OF st, of ?m], of b], of b ?v] h by simp
  have m: "sorted_table ?m" using sorted_map_erase[OF so] .
  have "RemoveLinkName name v = Some (OK, ?v)" using v(2) vi(2) by (simp add: RemoveLinkName_def good_names_def)
  moreover have "file_objs (hold_ref b (fs\<lparr>files := ?m\<rparr>)) b = v" using fl b(2) by (simp add: hold_ref_def)
  moreover have "GetFixed64 (PutLengthPrefixedSlice (PutFixed64 [] (file_id f)) name) = Some (file_id f, PutLengthPrefixedSlice [] name)"
    using a by (subst PutLengthPrefixedSlice_append) (simp add: PutFixed64_def)
  moreover have "GetLengthPrefixedSlice (PutLengthPrefixedSlice [] name) = Some (name, [])" using GetLengthPrefixedSlice_Put[of name "[]"] a by simp
  ultimately have D: "replay_record E X kFileDeletion (PutLengthPrefixedSlice (PutFixed64 [] (file_id f)) name) fs =
      do { fs \<leftarrow> drop_ref E X b ?fs; Some (OK, fs) }"
    using b v(2) vi(1) fl by (simp add: replay_record_def record_tags DecodeFileDeletionFrom_def)
  have dl: "distinct (linkfiles v)" "set (remove1 name (linkfiles v)) = set (linkfiles v) - {name}" using vi(2) by (auto simp: good_names_def)
  show ?thesis
  proof (cases "remove1 name (linkfiles v) = []")
    case True
    then have l: "set (linkfiles v) = {name}" using dl v(2) by auto
    have "b \<notin> snd ` set (r_files ?r1)"
    proof
      assume "b \<in> snd ` set (r_files ?r1)"
      then obtain n where "map_of ?m n = Some b" using sorted_table_ran[OF m] by (auto simp: ran_def)
      then have "map_of (r_files r) n = Some b" "n \<noteq> name" by (auto split: if_splits)
      then show False using exhibits_table(1)[OF e, of n b] b(2) l by simp
    qed
    then obtain fs' where "drop_ref E X b ?fs = Some fs'" "at_state fs0 (?r1\<lparr>r_handles := [], r_used := (\<lambda>p. r_used r p - tot (extents v) p)\<rparr>) fs'"
      using at_state_drop_last[OF s1, of b E X] vi(3) exhibits_tot_le[OF e v(1)] by auto
    moreover have "exhibits (?r1\<lparr>r_handles := [], r_used := (\<lambda>p. r_used r p - tot (extents v) p)\<rparr>) (s(file_id f := None))"
      using b(2) m l exhibits_tot_le[OF e v(1)] by (intro exhibits_remove[OF e v(1), of _ b]) (auto simp: fun_eq_iff)
    ultimately show ?thesis using D v True by auto
  next
    case False
    then obtain n where n: "n \<in> set (linkfiles v)" "n \<noteq> name" using dl by (metis Diff_iff insertI1 list.set_intros(1) neq_Nil_conv)
    then have "map_of ?m n = Some b" using b(3) by simp
    then have "b \<in> snd ` set (r_files ?r1)" using sorted_table_ran[OF m] by (simp add: ranI)
    then obtain fs' where "drop_ref E X b ?fs = Some fs'" "at_state fs0 (?r1\<lparr>r_handles := []\<rparr>) fs'"
      using at_state_drop_kept[OF s1, of b E X] by auto
    moreover have "exhibits (?r1\<lparr>r_handles := []\<rparr>) (s(file_id ?v \<mapsto> ?v))"
      using b m vi v exhibits_disjoint[OF e v(1)] dl False
      by (intro exhibits_change[OF e, of _ v b]) (auto simp: fun_eq_iff good_names_def distinct_remove1)
    ultimately show ?thesis using D v(1) vi(1) False by auto
  qed
qed

section \<open>Recovering from a log\<close>

fun entry_tag :: "log_entry \<Rightarrow> nat" where
  "entry_tag (Snapshot fl) = kCompleteFilesSnapshot"
| "entry_tag (Update replace f) = (if replace then kFileReplace else kFileUpdate)"
| "entry_tag (Deletion f name) = kFileDeletion"

fun entry_data :: "log_entry \<Rightarrow> bytes" where
  "entry_data (Snapshot fl) = snapshot_data fl"
| "entry_data (Update replace f) = EncodeUpdateTo f"
| "entry_data (Deletion f name) = PutLengthPrefixedSlice (PutFixed64 [] (file_id f)) name"

lemma entry_parts: "entry_record r = EncodeFixed32 (entry_tag r) @ PutLengthPrefixedSlice [] (entry_data r)"
proof (cases r)
  case (Snapshot fl)
  then show ?thesis by (subst PutLengthPrefixedSlice_append[symmetric]) (simp add: snapshot_record_def fold_snapshot PutFixed32_def)
qed (simp_all add: update_record_def EncodeFileDeletionTo_def PutFixed32_def PutLengthPrefixedSlice_append[symmetric])

lemma entry_parse:
  assumes "applies fs r s"
  shows "GetFixed32 (entry_record r) = Some (entry_tag r, PutLengthPrefixedSlice [] (entry_data r))"
    "GetLengthPrefixedSlice (PutLengthPrefixedSlice [] (entry_data r)) = Some (entry_data r, [])"
    "entry_tag r \<noteq> kEndRecord" "length (entry_record r) < 2 ^ 32"
proof -
  have "entry_tag r < 2 ^ 32" by (cases r) (simp_all add: record_tags)
  then show "GetFixed32 (entry_record r) = Some (entry_tag r, PutLengthPrefixedSlice [] (entry_data r))" unfolding entry_parts by simp
  show l: "length (entry_record r) < 2 ^ 32" using assms by (cases r) auto
  then have "length (entry_data r) < 2 ^ 32" unfolding entry_parts by (simp add: PutLengthPrefixedSlice_def)
  then show "GetLengthPrefixedSlice (PutLengthPrefixedSlice [] (entry_data r)) = Some (entry_data r, [])"
    using GetLengthPrefixedSlice_Put[of "entry_data r" "[]"] by simp
  show "entry_tag r \<noteq> kEndRecord" by (cases r) (simp_all add: record_tags)
qed

lemma replay_entry:
  assumes "at_state fs0 r fs" "exhibits r s" "applies fs0 x s"
  shows "\<exists>fs' r'. replay_record E X (entry_tag x) (entry_data x) fs = Some (OK, fs') \<and> at_state fs0 r' fs' \<and> exhibits r' (entry_effect x s)"
proof (cases x)
  case (Snapshot fl)
  then show ?thesis using replay_snapshot[OF assms(1,2), of fl E X] assms(3) by simp
next
  case (Update replace f)
  then show ?thesis using replay_update[OF assms(1,2), of replace f E X] assms(3) by simp
next
  case (Deletion f name)
  then show ?thesis using replay_deletion[OF assms(1,2), of f name E X] assms(3) by simp
qed

lemma at_state_calls: "at_state fs0 r fs \<Longrightarrow> at_state fs0 r (fs\<lparr>calls := m\<rparr>)"
  by (auto simp: at_state_def rstate_def same_device_def with_used_def used_alt)

definition is_snapshot :: "log_entry \<Rightarrow> bool" where
  "is_snapshot x \<longleftrightarrow> (\<exists>fl. x = Snapshot fl)"

lemma is_snapshot_tag: "entry_tag x = kCompleteFilesSnapshot \<longleftrightarrow> is_snapshot x"
  by (cases x) (simp_all add: is_snapshot_def record_tags)

text \<open>The log may end with the record that marks a log as closed.\<close>

definition log_records :: "log_entry list \<Rightarrow> bool \<Rightarrow> bytes list" where
  "log_records xs closed = map entry_record xs @ (if closed then [PutFixed32 [] kEndRecord] else [])"

lemma read_stored:
  assumes E: "pread_contract E" and st: "at_state fs0 r fs" and z: "log_zone_ok (log_zone log) fs0" "read_pos log mod block_sz fs0 = 0"
    and s: "stored crc (the_disk fs0) (block_sz fs0) (read_pos log) (rec # recs)" "length rec < 2 ^ 32"
      "read_pos log + log_span (block_sz fs0) (rec # recs) = wp (zones fs0 (log_zone log))"
  shows "\<exists>m. ReadRecord E crc log fs = Some (OK, rec, log\<lparr>read_pos := read_pos log + phys_size (block_sz fs0) (length rec)\<rparr>, fs\<lparr>calls := m\<rparr>)"
    "(read_pos log + phys_size (block_sz fs0) (length rec)) mod block_sz fs0 = 0"
proof -
  have d: "block_sz fs = block_sz fs0" "the_disk fs = the_disk fs0" "zones fs p = (zones fs0 p)\<lparr>used_capacity := used fs p\<rparr>" for p
    using st same_device_zones[of fs0 fs] by (auto simp: at_state_def same_device_def)
  show "\<exists>m. ReadRecord E crc log fs = Some (OK, rec, log\<lparr>read_pos := read_pos log + phys_size (block_sz fs0) (length rec)\<rparr>, fs\<lparr>calls := m\<rparr>)"
    using ReadRecord_ok[OF E _ s(2), of fs "read_pos log" crc "log_zone log" log] z s(1,3) unfolding d by (simp add: log_zone_ok_def)
  have "0 < block_sz fs0" using z(1) by (simp add: log_zone_ok_def)
  then show "(read_pos log + phys_size (block_sz fs0) (length rec)) mod block_sz fs0 = 0"
    using z(2) phys_size_ok(1)[of "block_sz fs0" "length rec"] by (metis add_0 mod_add_eq mod_0)
qed

lemma recover_end:
  assumes E: "pread_contract E" and st: "at_state fs0 r fs" and z: "log_zone_ok (log_zone log) fs0" "read_pos log mod block_sz fs0 = 0"
    and s: "stored (crc32c_Extend X) (the_disk fs0) (block_sz fs0) (read_pos log) (log_records [] closed)"
      "read_pos log + log_span (block_sz fs0) (log_records [] closed) = wp (zones fs0 (log_zone log))"
  shows "\<exists>log' fs'. recover_loop E X log flag fs = Some (if flag then OK else NotFound, log', fs') \<and> at_state fs0 r fs' \<and>
    log_zone log' = log_zone log \<and> read_pos log' = wp (zones fs0 (log_zone log))"
proof (cases closed)
  case True
  then have r: "log_records [] closed = [PutFixed32 [] kEndRecord]" by (simp add: log_records_def)
  obtain m where rd: "ReadRecord E (crc32c_Extend X) log fs =
      Some (OK, PutFixed32 [] kEndRecord, log\<lparr>read_pos := read_pos log + phys_size (block_sz fs0) (length (PutFixed32 [] kEndRecord))\<rparr>, fs\<lparr>calls := m\<rparr>)"
    using read_stored(1)[OF E st z, of "crc32c_Extend X" "PutFixed32 [] kEndRecord" "[]"] s unfolding r by (auto simp: PutFixed32_def)
  have "GetFixed32 (PutFixed32 [] kEndRecord) = Some (kEndRecord, [])" using GetFixed32_Encode[of kEndRecord "[]"] by (simp add: PutFixed32_def record_tags)
  then show ?thesis using rd s(2) at_state_calls[OF st, of m] unfolding r by (subst recover_loop.simps) (simp add: log_span_def)
next
  case False
  then have "ReadRecord E (crc32c_Extend X) log fs = Some (OK, [], log, fs)"
    using s(2) st same_device_zones[of fs0 fs] by (auto simp: log_records_def ReadRecord_def log_Read_def at_state_def)
  then show ?thesis using False st s(2) by (subst recover_loop.simps) (simp add: GetFixed32_def log_records_def)
qed

lemma recover_loop_ok:
  assumes E: "pread_contract E"
  shows "at_state fs0 r fs \<Longrightarrow> exhibits r s \<Longrightarrow> log_view fs0 xs s = Some s' \<Longrightarrow> log_zone_ok (log_zone log) fs0 \<Longrightarrow> read_pos log mod block_sz fs0 = 0 \<Longrightarrow>
    stored (crc32c_Extend X) (the_disk fs0) (block_sz fs0) (read_pos log) (log_records xs closed) \<Longrightarrow>
    read_pos log + log_span (block_sz fs0) (log_records xs closed) = wp (zones fs0 (log_zone log)) \<Longrightarrow>
    \<exists>log' fs' r'. recover_loop E X log flag fs = Some (if flag \<or> list_ex is_snapshot xs then OK else NotFound, log', fs') \<and>
      at_state fs0 r' fs' \<and> exhibits r' s' \<and> log_zone log' = log_zone log \<and> read_pos log' = wp (zones fs0 (log_zone log))"
proof (induction xs arbitrary: r fs s log flag)
  case Nil
  then show ?case using recover_end[OF E Nil.prems(1,4,5,6,7), of flag] by auto
next
  case (Cons x xs)
  have a: "applies fs0 x s" "log_view fs0 xs (entry_effect x s) = Some s'" using Cons.prems(3) by (auto split: if_splits)
  note parse = entry_parse[OF a(1)]
  have rec: "log_records (x # xs) closed = entry_record x # log_records xs closed" by (simp add: log_records_def)
  let ?k = "phys_size (block_sz fs0) (length (entry_record x))"
  let ?log = "log\<lparr>read_pos := read_pos log + ?k\<rparr>"
  note rs = read_stored[OF E Cons.prems(1,4,5) Cons.prems(6)[unfolded rec] parse(4) Cons.prems(7)[unfolded rec]]
  obtain m where rd: "ReadRecord E (crc32c_Extend X) log fs = Some (OK, entry_record x, ?log, fs\<lparr>calls := m\<rparr>)" using rs(1) by blast
  obtain fs1 r1 where rp: "replay_record E X (entry_tag x) (entry_data x) (fs\<lparr>calls := m\<rparr>) = Some (OK, fs1)" "at_state fs0 r1 fs1" "exhibits r1 (entry_effect x s)"
    using replay_entry[OF at_state_calls[OF Cons.prems(1)] Cons.prems(2) a(1), of E X m] by blast
  have l: "recover_loop E X log flag fs = recover_loop E X ?log (flag \<or> is_snapshot x) fs1"
    using rd rp(1) parse by (subst recover_loop.simps) (simp add: is_snapshot_tag)
  have "\<exists>log' fs' r'. recover_loop E X ?log (flag \<or> is_snapshot x) fs1 =
        Some (if (flag \<or> is_snapshot x) \<or> list_ex is_snapshot xs then OK else NotFound, log', fs') \<and>
      at_state fs0 r' fs' \<and> exhibits r' s' \<and> log_zone log' = log_zone ?log \<and> read_pos log' = wp (zones fs0 (log_zone ?log))"
    by (rule Cons.IH[OF rp(2,3) a(2)]) (use Cons.prems(4,6,7) rs(2) in \<open>simp_all add: rec\<close>)
  then show ?case unfolding l by (simp add: disj_assoc)
qed

text \<open>The state of a file system object right after it has been made.\<close>

definition fresh_table :: "ZenFS \<Rightarrow> bool" where
  "fresh_table fs \<longleftrightarrow> files fs = [] \<and> handles fs = [] \<and> used fs = (\<lambda>p. 0)"

lemma fresh_exhibits: "fresh_table fs \<Longrightarrow> exhibits (rstate fs) Map.empty"
  by (simp add: fresh_table_def exhibits_def rstate_def)

end
