(* ===== verification/ZenLive.thy ===== *)
theory ZenLive
  imports ZenReplay
begin

text \<open>
  The running file system keeps a log from which it can be recovered: what a successful write of metadata,
  with or without a change of the metadata zone, leaves on the disk.
\<close>

section \<open>The records in a zone\<close>

lemma stored_append:
  "stored crc disk bs pos (rs @ [r]) \<longleftrightarrow> stored crc disk bs pos rs \<and>
     map disk [pos + log_span bs rs ..< pos + log_span bs rs + phys_size bs (length r)] = record_bytes crc bs r"
  by (induction rs arbitrary: pos) (auto simp: add.assoc)

lemma log_span_append [simp]: "log_span bs (rs @ rs') = log_span bs rs + log_span bs rs'"
  by (simp add: log_span_def)

lemma stored_cong:
  "stored crc disk bs pos rs \<Longrightarrow> \<forall>a. pos \<le> a \<and> a < pos + log_span bs rs \<longrightarrow> disk' a = disk a \<Longrightarrow> stored crc disk' bs pos rs"
proof (induction rs arbitrary: pos)
  case (Cons r rs)
  have "map disk' [pos ..< pos + phys_size bs (length r)] = map disk [pos ..< pos + phys_size bs (length r)]"
    using Cons.prems(2) by (intro map_cong) auto
  also have "\<dots> = record_bytes crc bs r" using Cons.prems(1) by simp
  finally show ?case using Cons by simp
qed simp

text \<open>Zone \<open>p\<close> holds the records from \<open>pos\<close> to the write pointer.\<close>

definition log_at :: "surroundings \<Rightarrow> ZenFS \<Rightarrow> nat \<Rightarrow> nat \<Rightarrow> bytes list \<Rightarrow> bool" where
  "log_at X fs p pos recs \<longleftrightarrow>
     log_zone_ok p fs \<and> pos mod block_sz fs = 0 \<and> start (zones fs p) \<le> pos \<and>
     stored (crc32c_Extend X) (the_disk fs) (block_sz fs) pos recs \<and> pos + log_span (block_sz fs) recs = wp (zones fs p)"

lemma log_at_frame:
  assumes l: "log_at X fs p pos recs" and z: "zone_fits zsz (zones fs p)"
    and s: "block_sz fs' = block_sz fs" "start (zones fs' p) = start (zones fs p)" "wp (zones fs' p) = wp (zones fs p)"
      "capacity (zones fs' p) = capacity (zones fs p)" "max_capacity (zones fs' p) = max_capacity (zones fs p)"
    and d: "\<And>a. start (zones fs p) \<le> a \<Longrightarrow> a < start (zones fs p) + zsz \<Longrightarrow> the_disk fs' a = the_disk fs a"
  shows "log_at X fs' p pos recs"
proof -
  have st: "stored (crc32c_Extend X) (the_disk fs) (block_sz fs) pos recs" and b: "start (zones fs p) \<le> pos"
    and e: "pos + log_span (block_sz fs) recs = wp (zones fs p)" using l by (simp_all add: log_at_def)
  have "the_disk fs' a = the_disk fs a" if "pos \<le> a" "a < pos + log_span (block_sz fs) recs" for a
    by (rule d) (use that b e z in \<open>simp_all add: zone_fits_def\<close>)
  then have "stored (crc32c_Extend X) (the_disk fs') (block_sz fs) pos recs" using stored_cong[OF st] by blast
  then show ?thesis using l s by (simp add: log_at_def log_zone_ok_def)
qed

lemma log_at_AddRecord:
  assumes E: "pwrite_contract E" and l: "log_at X fs p pos recs" and p: "log_zone log = p" and r: "length r < 2 ^ 32"
    and c: "capacity (zones fs p) < 2 ^ 32" and a: "AddRecord E (crc32c_Extend X) log r fs = Some (OK, fs')"
  shows "log_at X fs' p pos (recs @ [r])"
proof -
  have z: "log_zone_ok (log_zone log) fs" "0 < block_sz fs" using l p by (simp_all add: log_at_def log_zone_ok_def)
  have "\<not> capacity (zones fs p) < length (record_bytes (crc32c_Extend X) (block_sz fs) r)"
    using a p by (auto simp: AddRecord_def Append_def)
  then have n: "phys_size (block_sz fs) (length r) < 2 ^ 32" using length_record_bytes[OF z(2) r] c by simp
  note A = AddRecord_ok[OF E z(1) n, of "crc32c_Extend X"]
  have fs': "log_zone_ok p fs'" "wp (zones fs' p) = wp (zones fs p) + phys_size (block_sz fs) (length r)" "start (zones fs' p) = start (zones fs p)"
    "block_sz fs' = block_sz fs" "\<forall>a < wp (zones fs p). the_disk fs' a = the_disk fs a"
    "map (the_disk fs') [wp (zones fs p) ..< wp (zones fs p) + phys_size (block_sz fs) (length r)] = record_bytes (crc32c_Extend X) (block_sz fs) r"
    using A a p by (auto split: if_splits)
  have st: "stored (crc32c_Extend X) (the_disk fs) (block_sz fs) pos recs" and e: "pos + log_span (block_sz fs) recs = wp (zones fs p)"
    using l by (simp_all add: log_at_def)
  have "the_disk fs' a = the_disk fs a" if "a < pos + log_span (block_sz fs) recs" for a using fs'(5) that e by simp
  then have "stored (crc32c_Extend X) (the_disk fs') (block_sz fs) pos recs" using stored_cong[OF st] by blast
  then show ?thesis using l fs'(1-4,6) e unfolding log_at_def by (simp add: stored_append add.assoc)
qed

section \<open>A new metadata zone\<close>

lemma Reset_frame:
  assumes E: "reset_contract E" and r: "Reset E q fs = Some (s, fs')"
  shows "p \<noteq> q \<Longrightarrow> zones fs' p = zones fs p" "block_sz fs' = block_sz fs" "busy (zones fs' q) = busy (zones fs q)"
    "a < start (zones fs q) \<or> start (zones fs q) + zone_sz fs \<le> a \<Longrightarrow> the_disk fs' a = the_disk fs a"
    "s = OK \<Longrightarrow> wp (zones fs' q) = start (zones fs' q)"
proof -
  obtain ret disk where rs: "zbd_reset_zones E (calls fs) (start (zones fs q)) (zone_sz fs) (the_disk fs) = (ret, disk)" by fastforce
  have disk: "disk a = the_disk fs a" if "a < start (zones fs q) \<or> start (zones fs q) + zone_sz fs \<le> a" for a
    using E rs that unfolding reset_contract_def by blast
  show "p \<noteq> q \<Longrightarrow> zones fs' p = zones fs p" "block_sz fs' = block_sz fs" "busy (zones fs' q) = busy (zones fs q)" "s = OK \<Longrightarrow> wp (zones fs' q) = start (zones fs' q)"
    using r rs unfolding Reset_def by (auto simp: Let_def bind_eq_Some_conv on_zone_def tick_def split: if_splits prod.splits)
  have "the_disk fs' = disk"
    using r rs unfolding Reset_def by (auto simp: Let_def bind_eq_Some_conv on_zone_def tick_def split: if_splits prod.splits)
  then show "a < start (zones fs q) \<or> start (zones fs q) + zone_sz fs \<le> a \<Longrightarrow> the_disk fs' a = the_disk fs a" using disk by simp
qed

lemma allocate_meta_loop_new:
  assumes E: "reset_contract E"
  shows "allocate_meta_loop E ps d = Some (s, z, d') \<Longrightarrow> busy (zones d q) \<Longrightarrow>
    busy (zones d' q) \<and> (\<forall>p. z = Some p \<longrightarrow> p \<noteq> q \<and> busy (zones d' p) \<and> wp (zones d' p) = start (zones d' p))"
proof (induction ps arbitrary: d)
  case (Cons p ps)
  show ?case
  proof (cases "busy (zones d p)")
    case True
    then have "allocate_meta_loop E ps d = Some (s, z, d')" using Cons.prems(1) by (simp add: Acquire_def)
    then show ?thesis using Cons.IH Cons.prems(2) by blast
  next
    case False
    then have pq: "p \<noteq> q" using Cons.prems(2) by auto
    let ?d = "on_zone p (\<lambda>z. z\<lparr>busy := True\<rparr>) d"
    have bq: "busy (zones ?d q)" using Cons.prems(2) by (simp add: on_zone_def)
    consider "IsUsed (zones d p)" | "\<not> IsUsed (zones d p)" "IsEmpty (zones d p)" | "\<not> IsUsed (zones d p)" "\<not> IsEmpty (zones d p)" by blast
    then show ?thesis
    proof cases
      case 1
      then have "allocate_meta_loop E ps ?d = Some (s, z, d')" using Cons.prems(1) False by (simp add: Acquire_def IsUsed_def)
      then show ?thesis using Cons.IH bq by blast
    next
      case 2
      then show ?thesis using Cons.prems(1) False bq pq by (auto simp: Acquire_def IsUsed_def IsEmpty_def)
    next
      case 3
      obtain rs d1 where r: "Reset E p ?d = Some (rs, d1)"
        using Cons.prems(1) False 3 by (cases "Reset E p ?d") (auto simp: Acquire_def IsUsed_def IsEmpty_def)
      note f = Reset_frame[OF E r]
      have q1: "busy (zones d1 q)" using f(1)[of q] pq bq by simp
      have p1: "busy (zones d1 p)" using f(3) by simp
      let ?d2 = "on_zone p (\<lambda>z. z\<lparr>busy := False\<rparr>) d1"
      have q2: "busy (zones ?d2 q)" using q1 pq by (simp add: on_zone_def)
      have "rs \<noteq> OK \<Longrightarrow> allocate_meta_loop E ps ?d2 = Some (s, z, d')" "rs = OK \<Longrightarrow> z = Some p \<and> d' = d1"
        using Cons.prems(1) False 3 r p1 by (auto simp: Acquire_def IsUsed_def IsEmpty_def CheckRelease_def Release_def split: if_splits)
      then show ?thesis using Cons.IH[OF _ q2] f(5) p1 q1 pq by (cases "rs = OK") auto
    qed
  qed
qed simp

lemma AddRecord_frame:
  assumes "pwrite_contract E" "meta_layout fs" "log_zone log \<in> set (meta_zones fs)" "AddRecord E crc log data fs = Some (s, fs')"
  shows "p \<noteq> log_zone log \<Longrightarrow> zones fs' p = zones fs p" "busy (zones fs' p) = busy (zones fs p)" "ZonedBlockDevice.more fs' = ZonedBlockDevice.more fs"
proof -
  obtain k where "appended (log_zone log) (record_bytes crc (block_sz fs) data) k fs fs'"
    using meta_Append_appended[OF assms(1-3) assms(4)[unfolded AddRecord_def]] by blast
  then show "p \<noteq> log_zone log \<Longrightarrow> zones fs' p = zones fs p" "busy (zones fs' p) = busy (zones fs p)" "ZonedBlockDevice.more fs' = ZonedBlockDevice.more fs"
    by (auto simp: appended_def on_zone_def split: if_splits)
qed

lemma Finish_frame:
  assumes "Finish E q fs = Some (s, fs')"
  shows "p \<noteq> q \<Longrightarrow> zones fs' p = zones fs p" "busy (zones fs' p) = busy (zones fs p)" "ZonedBlockDevice.more fs' = ZonedBlockDevice.more fs"
  using assms by (auto simp: Finish_def Let_def bind_eq_Some_conv on_zone_def tick_def split: if_splits)

lemma end_log_frame:
  assumes E: "pwrite_contract E" and l: "meta_layout fs" and q: "log_zone old \<in> set (meta_zones fs)" and e: "end_log E X old fs = Some fs'"
  shows "p \<noteq> log_zone old \<Longrightarrow> zones fs' p = zones fs p" "busy (zones fs' p) = busy (zones fs p)" "ZonedBlockDevice.more fs' = ZonedBlockDevice.more fs"
proof -
  obtain fs1 where w: "(if capacity (zones fs (log_zone old)) \<noteq> 0 then map_option snd (WriteEndRecord E X old fs) else Some fs) = Some fs1"
    "(if capacity (zones fs1 (log_zone old)) \<noteq> 0 then map_option snd (Finish E (log_zone old) fs1) else Some fs1) = Some fs'"
    using e unfolding end_log_def Let_def bind_eq_Some_conv by blast
  have 1: "(p \<noteq> log_zone old \<longrightarrow> zones fs1 p = zones fs p) \<and> busy (zones fs1 p) = busy (zones fs p) \<and> ZonedBlockDevice.more fs1 = ZonedBlockDevice.more fs" for p
    using w(1) AddRecord_frame[OF E l q] by (fastforce simp: WriteEndRecord_def split: if_splits)
  have 2: "(p \<noteq> log_zone old \<longrightarrow> zones fs' p = zones fs1 p) \<and> busy (zones fs' p) = busy (zones fs1 p) \<and> ZonedBlockDevice.more fs' = ZonedBlockDevice.more fs1" for p
    using w(2) Finish_frame[of E "log_zone old" fs1] by (fastforce split: if_splits)
  show "p \<noteq> log_zone old \<Longrightarrow> zones fs' p = zones fs p" "busy (zones fs' p) = busy (zones fs p)" "ZonedBlockDevice.more fs' = ZonedBlockDevice.more fs"
    using 1 2 by simp_all
qed

lemma log_at_fields [simp]:
  "log_at X (fs\<lparr>superblock := a\<rparr>) p pos recs = log_at X fs p pos recs" "log_at X (fs\<lparr>meta_log := b\<rparr>) p pos recs = log_at X fs p pos recs"
  "log_at X (fs\<lparr>file_objs := c\<rparr>) p pos recs = log_at X fs p pos recs" "log_at X (fs\<lparr>files := e\<rparr>) p pos recs = log_at X fs p pos recs"
  "log_at X (upd_obj i f fs) p pos recs = log_at X fs p pos recs" "log_at X (tick fs) p pos recs = log_at X fs p pos recs"
  by (simp_all add: log_at_def log_zone_ok_def upd_obj_def tick_def)

lemma log_at_start:
  assumes "meta_layout fs" "p \<in> set (meta_zones fs)" "0 < block_sz fs" "wp (zones fs p) = start (zones fs p)"
  shows "log_at X fs p (start (zones fs p)) []"
  using assms by (fastforce simp: log_at_def log_zone_ok_def meta_layout_def meta_fits_def zone_fits_def)

lemma meta_capacity: "meta_layout fs \<Longrightarrow> p \<in> set (meta_zones fs) \<Longrightarrow> capacity (zones fs p) < 2 ^ 32"
  by (fastforce simp: meta_layout_def meta_fits_def)

text \<open>The log of the running file system: its zone is held, and it lies in a metadata zone.\<close>

definition log_open :: "ZenFS \<Rightarrow> bool" where
  "log_open fs \<longleftrightarrow> 0 < block_sz fs \<and> log_inv fs \<and> (\<exists>log. meta_log fs = Some log \<and> busy (zones fs (log_zone log))) \<and>
     (\<exists>sb. superblock fs = Some sb \<and> superblock_ok sb)"

text \<open>The log starts with the superblock that is in memory, followed by \<open>recs\<close>.\<close>

definition log_holds :: "surroundings \<Rightarrow> ZenFS \<Rightarrow> bytes list \<Rightarrow> bool" where
  "log_holds X fs recs \<longleftrightarrow>
     (\<exists>log out sb. meta_log fs = Some log \<and> superblock fs = Some sb \<and> Superblock_DecodeFrom out = Some (OK, sb) \<and>
        log_at X fs (log_zone log) (start (zones fs (log_zone log))) (out # recs))"

text \<open>The first two records of a new log.\<close>

lemma new_log_records:
  assumes E: "pwrite_contract E" and l: "meta_layout fs" "log_zone log = p" "p \<in> set (meta_zones fs)" "0 < block_sz fs" "wp (zones fs p) = start (zones fs p)"
    and sb: "superblock fs = Some sb" "superblock_ok sb"
    and a: "start_log E X log fs = Some (OK, fs1)" "WriteSnapshotLocked E X log fs1 = Some (OK, fs2)" and n: "length (ZenFS_EncodeSnapshotTo fs) < 2 ^ 32"
  shows "\<exists>out sb'. log_at X fs2 p (start (zones fs p)) [out, ZenFS_EncodeSnapshotTo fs] \<and> start (zones fs2 p) = start (zones fs p) \<and>
      superblock fs2 = Some sb' \<and> superblock_ok sb' \<and> Superblock_DecodeFrom out = Some (OK, sb')"
    "q \<noteq> p \<Longrightarrow> zones fs2 q = zones fs q" "busy (zones fs2 q) = busy (zones fs q)" "files fs2 = files fs"
    "file_objs fs2 = (\<lambda>a. if a \<in> snd ` set (files fs) then MetadataSynced (file_objs fs a) else file_objs fs a)"
proof -
  let ?sb = "sb\<lparr>sequence := u32 (sequence sb + 1)\<rparr>"
  obtain out where out: "Superblock_EncodeTo sb = Some (out, ?sb)" "length out = 512" "Superblock_DecodeFrom out = Some (OK, ?sb)" using superblock_roundtrip[OF sb(2)] by blast
  let ?fs = "fs\<lparr>superblock := Some ?sb\<rparr>"
  have r1: "AddRecord E (crc32c_Extend X) log out ?fs = Some (OK, fs1)" using a(1) sb(1) out(1) by (simp add: start_log_def)
  have l0: "meta_layout ?fs" "log_zone log \<in> set (meta_zones ?fs)" "0 < block_sz ?fs" using l by simp_all
  have "log_at X ?fs p (start (zones ?fs p)) []" using log_at_start[OF l0(1) _ l0(3), of p] l by simp
  moreover have c: "capacity (zones ?fs p) < 2 ^ 32" using meta_capacity[OF l0(1)] l by simp
  ultimately have at1: "log_at X fs1 p (start (zones fs p)) [out]"
    using log_at_AddRecord[OF E _ l(2) _ c r1] out(2) by fastforce
  note s1 = AddRecord_step[OF E l0(1,2) r1] and f1 = AddRecord_frame[OF E l0(1,2) r1]
  note m1 = zen_more[OF f1(3)]
  have l1: "meta_layout fs1" "log_zone log \<in> set (meta_zones fs1)" "block_sz fs1 = block_sz fs"
    using meta_step_layout[OF s1(1) l0(1)] s1(1) l by (simp_all add: meta_step_def)
  have snap: "ZenFS_EncodeSnapshotTo fs1 = ZenFS_EncodeSnapshotTo fs" using m1(1,2) by (simp add: ZenFS_EncodeSnapshotTo_def)
  obtain fs' where r2: "AddRecord E (crc32c_Extend X) log (ZenFS_EncodeSnapshotTo fs) fs1 = Some (OK, fs')"
    and fs2: "fs2 = fs'\<lparr>file_objs := (\<lambda>a. if a \<in> snd ` set (files fs') then MetadataSynced (file_objs fs' a) else file_objs fs' a)\<rparr>"
    using a(2) by (auto simp: WriteSnapshotLocked_def bind_eq_Some_conv synced_all snap split: if_splits)
  note s2 = AddRecord_step[OF E l1(1,2) r2] and f2 = AddRecord_frame[OF E l1(1,2) r2]
  note m2 = zen_more[OF f2(3)]
  have c1: "capacity (zones fs1 p) < 2 ^ 32" using meta_capacity[OF l1(1)] l1(2) l(2) by simp
  have at2: "log_at X fs2 p (start (zones fs p)) [out, ZenFS_EncodeSnapshotTo fs]"
    using log_at_AddRecord[OF E at1 l(2) n c1 r2] fs2 by simp
  have "superblock_ok ?sb" using sb(2) by (simp add: superblock_ok_def)
  moreover have "superblock fs2 = Some ?sb" using m1(7) m2(7) fs2 by simp
  moreover have "start (zones fs2 p) = start (zones fs p)" using s1(1) s2(1) fs2 by (simp add: meta_step_def)
  ultimately show "\<exists>out sb'. log_at X fs2 p (start (zones fs p)) [out, ZenFS_EncodeSnapshotTo fs] \<and> start (zones fs2 p) = start (zones fs p) \<and>
      superblock fs2 = Some sb' \<and> superblock_ok sb' \<and> Superblock_DecodeFrom out = Some (OK, sb')"
    using at2 out(3) by blast
  show "q \<noteq> p \<Longrightarrow> zones fs2 q = zones fs q" "busy (zones fs2 q) = busy (zones fs q)" using f1(1,2)[of q] f2(1,2)[of q] l(2) fs2 by simp_all
  show "files fs2 = files fs" "file_objs fs2 = (\<lambda>a. if a \<in> snd ` set (files fs) then MetadataSynced (file_objs fs a) else file_objs fs a)"
    using m1(1,2) m2(1,2) fs2 by (simp_all cong del: if_weak_cong)
qed

lemma roll_trace:
  assumes E: "reset_contract E" and l: "meta_layout fs" "meta_log fs = Some old" and r: "RollMetaZoneLocked E X fs = Some (OK, fs')"
  shows "\<exists>p fs1 log fs2 fs3 fs4 s5 fs5. AllocateMetaZone E fs = Some (OK, Some p, fs1) \<and> new_ZenMetaLog p fs1 = Some log \<and>
    end_log E X old (fs1\<lparr>meta_log := Some log\<rparr>) = Some fs2 \<and> start_log E X log fs2 = Some (OK, fs3) \<and>
    WriteSnapshotLocked E X log fs3 = Some (OK, fs4) \<and> Reset E (log_zone old) fs4 = Some (s5, fs5) \<and> destroy_ZenMetaLog old fs5 = Some fs'"
proof -
  obtain st z fs1 where a: "AllocateMetaZone E fs = Some (st, z, fs1)" using r by (auto simp: RollMetaZoneLocked_def bind_eq_Some_conv)
  have "meta_log fs1 = Some old"
    using allocate_meta_loop_step[OF E l(1) order_refl a[unfolded AllocateMetaZone_def]] zen_more(6)[of fs1 fs] l(2) by simp
  moreover have "st = OK" using r a by (auto simp: RollMetaZoneLocked_def bind_eq_Some_conv split: if_splits)
  ultimately show ?thesis using r a by (auto simp: RollMetaZoneLocked_def bind_eq_Some_conv split: if_splits)
qed

lemma roll_old_zone:
  assumes E: "reset_contract E" and l: "meta_layout fs" "p \<in> set (meta_zones fs)" "q \<in> set (meta_zones fs)" "p \<noteq> q" "log_zone old = q"
    and at: "log_at X fs p pos recs" and r: "Reset E q fs = Some (s, fs1)" "destroy_ZenMetaLog old fs1 = Some fs'"
  shows "log_at X fs' p pos recs" "zones fs' p = zones fs p" "ZonedBlockDevice.more fs' = ZonedBlockDevice.more fs"
proof -
  have fs': "fs' = on_zone q (\<lambda>z. z\<lparr>busy := False\<rparr>) fs1" using r(2) l(5) by (auto simp: destroy_ZenMetaLog_def Release_def split: if_splits)
  note f = Reset_frame[OF E r(1)] and m = meta_step_Reset[OF E l(1,3) r(1)]
  show z: "zones fs' p = zones fs p" using f(1)[OF l(4)] l(4) by (simp add: fs' on_zone_def)
  show "ZonedBlockDevice.more fs' = ZonedBlockDevice.more fs" using m(2) by (simp add: fs')
  have zf: "zone_fits (zone_sz fs) (zones fs p)" and ap: "apart (zone_sz fs) (zones fs p) (zones fs q)"
    using l(1-4) by (auto simp: meta_layout_def meta_fits_def)
  show "log_at X fs' p pos recs"
  proof (rule log_at_frame[OF at zf])
    fix a assume "start (zones fs p) \<le> a" "a < start (zones fs p) + zone_sz fs"
    then have "a < start (zones fs q) \<or> start (zones fs q) + zone_sz fs \<le> a" using ap by (auto simp: apart_def)
    from f(4)[OF this] show "the_disk fs' a = the_disk fs a" by (simp add: fs')
  qed (use z f(2) in \<open>simp_all add: fs'\<close>)
qed

lemma RollMetaZoneLocked_ok:
  assumes E: "pwrite_contract E" "reset_contract E" and o: "log_open fs" and r: "RollMetaZoneLocked E X fs = Some (OK, fs')"
    and n: "length (ZenFS_EncodeSnapshotTo fs) < 2 ^ 32"
  shows "log_holds X fs' [ZenFS_EncodeSnapshotTo fs]" "log_open fs'" "files fs' = files fs"
    "file_objs fs' = (\<lambda>a. if a \<in> snd ` set (files fs) then MetadataSynced (file_objs fs a) else file_objs fs a)"
proof -
  obtain old sb where l: "meta_layout fs" "meta_log fs = Some old" "log_zone old \<in> set (meta_zones fs)" "busy (zones fs (log_zone old))" "0 < block_sz fs"
    and sb: "superblock fs = Some sb" "superblock_ok sb" using o by (auto simp: log_open_def log_inv_def)
  have i: "log_inv fs" using o by (simp add: log_open_def)
  let ?q = "log_zone old"
  obtain p fs1 log fs2 fs3 fs4 s5 fs5 where a: "AllocateMetaZone E fs = Some (OK, Some p, fs1)" "new_ZenMetaLog p fs1 = Some log"
    "end_log E X old (fs1\<lparr>meta_log := Some log\<rparr>) = Some fs2" "start_log E X log fs2 = Some (OK, fs3)"
    "WriteSnapshotLocked E X log fs3 = Some (OK, fs4)" "Reset E ?q fs4 = Some (s5, fs5)" "destroy_ZenMetaLog old fs5 = Some fs'"
    using roll_trace[OF E(2) l(1,2) r] by blast
  note al = allocate_meta_loop_step[OF E(2) l(1) order_refl a(1)[unfolded AllocateMetaZone_def]]
    allocate_meta_loop_new[OF E(2) a(1)[unfolded AllocateMetaZone_def] l(4)]
  have p: "p \<in> set (meta_zones fs)" "p \<noteq> ?q" "busy (zones fs1 p)" "wp (zones fs1 p) = start (zones fs1 p)" using al by auto
  let ?g = "fs1\<lparr>meta_log := Some log\<rparr>"
  have st1: "meta_step fs fs1" "ZonedBlockDevice.more fs1 = ZonedBlockDevice.more fs" using al by auto
  note m1 = zen_more[OF st1(2)]
  have lg: "meta_layout ?g" "?q \<in> set (meta_zones ?g)" "meta_zones ?g = meta_zones fs" "block_sz ?g = block_sz fs"
    using meta_step_layout[OF st1(1) l(1)] st1(1) l(3) by (simp_all add: meta_step_def)
  have lz: "log_zone log = p" using a(2) by (auto simp: new_ZenMetaLog_def bind_eq_Some_conv)
  note e = end_log_frame[OF E(1) lg(1,2) a(3)] and es = end_log_step[OF E(1) lg(1,2) a(3)]
  note m2 = zen_more[OF e(3)]
  have l2: "meta_layout fs2" "p \<in> set (meta_zones fs2)" "0 < block_sz fs2" "wp (zones fs2 p) = start (zones fs2 p)" "superblock fs2 = Some sb"
      "length (ZenFS_EncodeSnapshotTo fs2) < 2 ^ 32" "ZenFS_EncodeSnapshotTo fs2 = ZenFS_EncodeSnapshotTo fs"
    using fs_step_layout[OF es(1) lg(1)] es(1) lg p e(1)[OF p(2)] l(5) m1 m2 sb n by (auto simp: fs_step_def meta_step_def ZenFS_EncodeSnapshotTo_def)
  note new = new_log_records[OF E(1) l2(1) lz l2(2,3,4,5) sb(2) a(4,5) l2(6), unfolded l2(7)]
  have l2': "log_zone log \<in> set (meta_zones fs2)" using l2(2) lz by simp
  note s3 = start_log_step[OF E(1) l2(1) l2' a(4)]
  have l3: "meta_layout fs3" "log_zone log \<in> set (meta_zones fs3)" using fs_step_layout[OF s3(1) l2(1)] fs_step_meta[OF s3(1)] l2' by auto
  note s4 = WriteSnapshotLocked_step[OF E(1) l3 a(5)]
  have l4: "meta_layout fs4" "p \<in> set (meta_zones fs4)" "?q \<in> set (meta_zones fs4)"
    using meta_step_layout[OF s4(1) l3(1)] s4(4) l3(2) lz fs_step_meta[OF s3(1)] fs_step_meta[OF es(1)] lg(2) by auto
  obtain out sb' where n1: "log_at X fs4 p (start (zones fs2 p)) [out, ZenFS_EncodeSnapshotTo fs]" "start (zones fs4 p) = start (zones fs2 p)"
    "superblock fs4 = Some sb'" "superblock_ok sb'" "Superblock_DecodeFrom out = Some (OK, sb')" using new(1) by blast
  note old = roll_old_zone[OF E(2) l4 p(2) refl n1(1) a(6,7)]
  note m5 = zen_more[OF old(3)]
  have ml: "meta_log fs' = Some log" using m5(6) s4(3) s3(2) es(2) by simp
  show "log_holds X fs' [ZenFS_EncodeSnapshotTo fs]" unfolding log_holds_def
    using ml old(1,2) n1(2,3,5) lz m5(7) by (intro exI[of _ log] exI[of _ out] exI[of _ sb']) simp
  show "files fs' = files fs" "file_objs fs' = (\<lambda>a. if a \<in> snd ` set (files fs) then MetadataSynced (file_objs fs a) else file_objs fs a)"
    using m5(1,2) new(4,5) m2(1,2) m1(1,2) by (simp_all cong del: if_weak_cong)
  have "busy (zones fs' p)" using old(2) new(3)[of p] e(2)[of p] p(3) by simp
  moreover have "block_sz fs' = block_sz fs" using RollMetaZoneLocked_step(1)[OF E i r] by (simp add: fs_step_def meta_step_def)
  ultimately show "log_open fs'" using RollMetaZoneLocked_step(2)[OF E i r] ml lz l(5) n1(3,4) m5(7) by (simp add: log_open_def)
qed

section \<open>Persisting a record\<close>

lemma log_open_AddRecord:
  assumes E: "pwrite_contract E" and o: "log_open fs" and l: "meta_log fs = Some log" and a: "AddRecord E crc log rec fs = Some (s, fs')"
  shows "log_open fs'" "files fs' = files fs" "file_objs fs' = file_objs fs" "meta_log fs' = Some log" "s = NoSpace \<Longrightarrow> fs' = fs"
proof -
  have p: "meta_layout fs" "log_zone log \<in> set (meta_zones fs)" using o l by (auto simp: log_open_def log_inv_def)
  note st = AddRecord_step[OF E p a] and f = AddRecord_frame[OF E p a]
  note m = zen_more[OF f(3)]
  show "files fs' = files fs" "file_objs fs' = file_objs fs" "meta_log fs' = Some log" using m l by simp_all
  have "log_inv fs'" using meta_step_layout[OF st(1) p(1)] m(6) l p(2) st(5) by (simp add: log_inv_def)
  moreover have "block_sz fs' = block_sz fs" using st(1) by (simp add: meta_step_def)
  ultimately show "log_open fs'" using o l m(6,7) f(2)[of "log_zone log"] by (auto simp: log_open_def)
  show "s = NoSpace \<Longrightarrow> fs' = fs" using meta_Append_appended[OF E p a[unfolded AddRecord_def]] by blast
qed

lemma PersistRecord_ok:
  assumes E: "pwrite_contract E" "reset_contract E" and o: "log_open fs" and l: "log_holds X fs recs"
    and n: "length rec < 2 ^ 32" "length (ZenFS_EncodeSnapshotTo fs) < 2 ^ 32" and r: "PersistRecord E X rec fs = Some (OK, fs')"
  shows "log_open fs'" "files fs' = files fs"
    "log_holds X fs' (recs @ [rec]) \<and> file_objs fs' = file_objs fs \<or>
     log_holds X fs' [ZenFS_EncodeSnapshotTo fs] \<and>
     file_objs fs' = (\<lambda>a. if a \<in> snd ` set (files fs) then MetadataSynced (file_objs fs a) else file_objs fs a)"
proof -
  obtain log out sb where lg: "meta_log fs = Some log" "superblock fs = Some sb" "Superblock_DecodeFrom out = Some (OK, sb)"
    "log_at X fs (log_zone log) (start (zones fs (log_zone log))) (out # recs)" using l by (auto simp: log_holds_def)
  obtain s1 fs1 where a: "AddRecord E (crc32c_Extend X) log rec fs = Some (s1, fs1)"
    "(if s1 = NoSpace then RollMetaZoneLocked E X fs1 else Some (s1, fs1)) = Some (OK, fs')"
    using r lg(1) by (auto simp: PersistRecord_def bind_eq_Some_conv)
  note ar = log_open_AddRecord[OF E(1) o lg(1) a(1)]
  have p: "meta_layout fs" "log_zone log \<in> set (meta_zones fs)" using o lg(1) by (auto simp: log_open_def log_inv_def)
  have "log_open fs' \<and> files fs' = files fs \<and> (log_holds X fs' (recs @ [rec]) \<and> file_objs fs' = file_objs fs \<or>
     log_holds X fs' [ZenFS_EncodeSnapshotTo fs] \<and>
     file_objs fs' = (\<lambda>a. if a \<in> snd ` set (files fs) then MetadataSynced (file_objs fs a) else file_objs fs a))"
  proof (cases "s1 = NoSpace")
    case True
    then have "RollMetaZoneLocked E X fs = Some (OK, fs')" using a(2) ar(5) by simp
    from RollMetaZoneLocked_ok[OF E o this n(2)] show ?thesis by blast
  next
    case False
    then have "s1 = OK" "fs' = fs1" using a(2) by auto
    note fr = AddRecord_frame[OF E(1) p a(1)] and st = AddRecord_step[OF E(1) p a(1)]
    have "start (zones fs1 (log_zone log)) = start (zones fs (log_zone log))" using st(1) by (simp add: meta_step_def)
    then have "log_holds X fs1 (recs @ [rec])" unfolding log_holds_def
      using log_at_AddRecord[OF E(1) lg(4) refl n(1) meta_capacity[OF p]] a(1) \<open>s1 = OK\<close> lg(2,3) ar(4) zen_more(7)[OF fr(3)]
      by (intro exI[of _ log] exI[of _ out] exI[of _ sb]) simp
    then show ?thesis using ar(1-3) \<open>fs' = fs1\<close> by blast
  qed
  then show "log_open fs'" "files fs' = files fs"
    "log_holds X fs' (recs @ [rec]) \<and> file_objs fs' = file_objs fs \<or>
     log_holds X fs' [ZenFS_EncodeSnapshotTo fs] \<and>
     file_objs fs' = (\<lambda>a. if a \<in> snd ` set (files fs) then MetadataSynced (file_objs fs a) else file_objs fs a)"
    by simp_all
qed

section \<open>Sizes of records\<close>

lemma length_EncodeVarint32: "length (EncodeVarint32 v) \<le> 5"
  by (simp add: EncodeVarint32_def)

lemma length_PutLengthPrefixedSlice: "length (PutLengthPrefixedSlice out bs) \<le> length out + 5 + length bs" "length bs \<le> length (PutLengthPrefixedSlice out bs)"
  using length_EncodeVarint32[of "u32 (length bs)"] by (simp_all add: PutLengthPrefixedSlice_def PutVarint32_def)

lemma length_EncodeTo_le: "length (EncodeTo f n) \<le> length (EncodeTo f 0)"
proof -
  have "length (concat (map put_extent (extents f))) = length (concat (map put_extent (take n (extents f)))) + length (concat (map put_extent (drop n (extents f))))"
    by (metis append_take_drop_id concat_append length_append map_append)
  then show ?thesis by (simp add: EncodeTo_def)
qed

lemma length_EncodeTo_time [simp]:
  "length (EncodeTo (f\<lparr>m_time := t\<rparr>) n) = length (EncodeTo f n)" "EncodeTo (f\<lparr>nr_synced_extents := k\<rparr>) n = EncodeTo f n"
  "EncodeTo (f\<lparr>nr_synced_extents := k, m_time := t\<rparr>) n = EncodeTo (f\<lparr>m_time := t\<rparr>) n"
  by (simp_all add: EncodeTo_def PutFixed64_def)

definition table_files :: "ZenFS \<Rightarrow> ZoneFile list" where
  "table_files fs = map (\<lambda>(name, a). file_objs fs a) (files fs)"

lemma encode_table: "ZenFS_EncodeSnapshotTo fs = entry_record (Snapshot (table_files fs))"
proof -
  have "fold (\<lambda>(name, a) out. PutLengthPrefixedSlice out (EncodeSnapshotTo (file_objs fs a))) m out =
    fold (\<lambda>f out. PutLengthPrefixedSlice out (EncodeSnapshotTo f)) (map (\<lambda>(name, a). file_objs fs a) m) out" for m out
    by (induction m arbitrary: out) auto
  then show ?thesis unfolding ZenFS_EncodeSnapshotTo_def entry_record.simps snapshot_record_def table_files_def by (rule arg_cong)
qed

lemma length_snapshot_data: "length (snapshot_data fl) = sum_list (map (\<lambda>f. length (PutLengthPrefixedSlice [] (EncodeSnapshotTo f))) fl)"
  by (simp add: snapshot_data_def length_concat comp_def)

lemma length_in_snapshot:
  assumes "f \<in> set fl"
  shows "length (EncodeTo f n) \<le> length (entry_record (Snapshot fl))"
proof -
  have "length (EncodeTo f 0) \<le> length (PutLengthPrefixedSlice [] (EncodeSnapshotTo f))" using length_PutLengthPrefixedSlice(2) by (simp add: EncodeSnapshotTo_def)
  also have "\<dots> \<le> length (snapshot_data fl)" unfolding length_snapshot_data by (rule member_le_sum_list) (use assms in auto)
  also have "\<dots> \<le> length (entry_record (Snapshot fl))" unfolding entry_parts using length_PutLengthPrefixedSlice(2)[of "snapshot_data fl" "[]"] by simp
  finally show ?thesis using length_EncodeTo_le[of f n] by simp
qed

lemma length_update_record: "length (update_record replace f) \<le> 9 + length (EncodeTo f (nr_synced_extents f))"
  using length_PutLengthPrefixedSlice(1)[of "PutFixed32 [] (if replace then kFileReplace else kFileUpdate)" "EncodeUpdateTo f"]
  by (simp add: update_record_def EncodeUpdateTo_def PutFixed32_def)

section \<open>The table and the view\<close>

text \<open>
  The table is well formed: a file is entered under exactly its names, files have different identifiers, and
  what is in them fits the encoding. All files together are smaller than 4 EiB and a snapshot of them is
  smaller than 1 GiB.
\<close>

abbreviation addresses :: "ZenFS \<Rightarrow> nat set" where
  "addresses fs \<equiv> ran (map_of (files fs))"

definition file_ok :: "ZenFS \<Rightarrow> ZoneFile \<Rightarrow> bool" where
  "file_ok fs f \<longleftrightarrow> good_names (linkfiles f) \<and> encodable fs f \<and> file_id f + 1 < 2 ^ 64 \<and> length (extents f) < 2 ^ 32"

text \<open>An upper bound for the size of a snapshot.\<close>

definition snapshot_size :: "ZenFS \<Rightarrow> nat" where
  "snapshot_size fs = sum_list (map (\<lambda>f. length (EncodeTo f 0) + 5) (table_files fs))"

lemma length_snapshot: "length (ZenFS_EncodeSnapshotTo fs) \<le> 9 + snapshot_size fs"
proof -
  have "length (snapshot_data (table_files fs)) \<le> snapshot_size fs"
    unfolding length_snapshot_data snapshot_size_def using length_PutLengthPrefixedSlice(1)[of "[]"]
    by (intro sum_list_mono) (auto simp: EncodeSnapshotTo_def add.commute)
  then show ?thesis unfolding encode_table entry_parts using length_PutLengthPrefixedSlice(1)[of "[]" "snapshot_data (table_files fs)"] by simp
qed

definition table_ok :: "ZenFS \<Rightarrow> bool" where
  "table_ok fs \<longleftrightarrow>
     sorted_table (files fs) \<and> (\<forall>a \<in> addresses fs. file_ok fs (file_objs fs a)) \<and> inj_on (\<lambda>a. file_id (file_objs fs a)) (addresses fs) \<and>
     (\<forall>name a. map_of (files fs) name = Some a \<longrightarrow> name \<in> set (linkfiles (file_objs fs a))) \<and>
     (\<forall>a \<in> addresses fs. \<forall>name \<in> set (linkfiles (file_objs fs a)). map_of (files fs) name = Some a) \<and>
     sum_list (map (\<lambda>f. total_length (extents f)) (table_files fs)) < 2 ^ 62 \<and> snapshot_size fs < 2 ^ 30"

lemma table_okD:
  assumes "table_ok fs"
  shows "sorted_table (files fs)" "a \<in> addresses fs \<Longrightarrow> file_ok fs (file_objs fs a)"
    "a \<in> addresses fs \<Longrightarrow> b \<in> addresses fs \<Longrightarrow> file_id (file_objs fs a) = file_id (file_objs fs b) \<Longrightarrow> a = b"
    "map_of (files fs) name = Some a \<Longrightarrow> name \<in> set (linkfiles (file_objs fs a))"
    "a \<in> addresses fs \<Longrightarrow> name \<in> set (linkfiles (file_objs fs a)) \<Longrightarrow> map_of (files fs) name = Some a"
    "sum_list (map (\<lambda>f. total_length (extents f)) (table_files fs)) < 2 ^ 62" "length (ZenFS_EncodeSnapshotTo fs) < 2 ^ 31"
proof -
  show "sorted_table (files fs)" "a \<in> addresses fs \<Longrightarrow> file_ok fs (file_objs fs a)"
    "a \<in> addresses fs \<Longrightarrow> b \<in> addresses fs \<Longrightarrow> file_id (file_objs fs a) = file_id (file_objs fs b) \<Longrightarrow> a = b"
    "map_of (files fs) name = Some a \<Longrightarrow> name \<in> set (linkfiles (file_objs fs a))"
    "a \<in> addresses fs \<Longrightarrow> name \<in> set (linkfiles (file_objs fs a)) \<Longrightarrow> map_of (files fs) name = Some a"
    "sum_list (map (\<lambda>f. total_length (extents f)) (table_files fs)) < 2 ^ 62"
    using assms unfolding table_ok_def inj_on_def by blast+
  have "snapshot_size fs < 2 ^ 30" using assms unfolding table_ok_def by blast
  then show "length (ZenFS_EncodeSnapshotTo fs) < 2 ^ 31" using length_snapshot[of fs] by simp
qed

lemma set_table_files: "table_ok fs \<Longrightarrow> set (table_files fs) = file_objs fs ` addresses fs"
  using sorted_table_ran[of "files fs", symmetric] by (simp add: table_ok_def table_files_def image_image case_prod_beta)

lemma table_disjoint:
  assumes "table_ok fs" "a \<in> addresses fs" "b \<in> addresses fs" "a \<noteq> b"
  shows "file_id (file_objs fs a) \<noteq> file_id (file_objs fs b)" "set (linkfiles (file_objs fs a)) \<inter> set (linkfiles (file_objs fs b)) = {}"
proof -
  show "file_id (file_objs fs a) \<noteq> file_id (file_objs fs b)" using table_okD(3)[OF assms(1-3)] assms(4) by blast
  show "set (linkfiles (file_objs fs a)) \<inter> set (linkfiles (file_objs fs b)) = {}"
  proof (rule ccontr)
    assume "set (linkfiles (file_objs fs a)) \<inter> set (linkfiles (file_objs fs b)) \<noteq> {}"
    then obtain n where "n \<in> set (linkfiles (file_objs fs a))" "n \<in> set (linkfiles (file_objs fs b))" by blast
    from table_okD(5)[OF assms(1,2) this(1)] table_okD(5)[OF assms(1,3) this(2)] show False using assms(4) by simp
  qed
qed

lemma fine_in_table:
  assumes "table_ok fs" "a \<in> addresses fs"
  shows "fine_file fs (file_objs fs a)" "length (update_record replace (file_objs fs a)) < 2 ^ 32"
proof -
  have "length (EncodeTo (file_objs fs a) n) \<le> length (ZenFS_EncodeSnapshotTo fs)" for n
    unfolding encode_table using assms set_table_files by (intro length_in_snapshot) auto
  from le_less_trans[OF this table_okD(7)[OF assms(1)]] have l: "length (EncodeTo (file_objs fs a) n) < 2 ^ 31" for n .
  show "length (update_record replace (file_objs fs a)) < 2 ^ 32"
    using length_update_record[of replace "file_objs fs a"] l[of "nr_synced_extents (file_objs fs a)"] by simp
  show "fine_file fs (file_objs fs a)" using l[of 0] table_okD(2)[OF assms] by (simp add: fine_file_def file_ok_def)
qed

lemma applies_snapshot: "table_ok fs \<Longrightarrow> applies fs (Snapshot (table_files fs)) Map.empty"
proof -
  assume t: "table_ok fs"
  have "unrelated f g" if "f \<in> set (table_files fs)" "g \<in> set (table_files fs)" for f g
    using that table_disjoint[OF t] unfolding set_table_files[OF t] unrelated_def by blast
  moreover have "fine_file fs f \<and> good_names (linkfiles f)" if "f \<in> set (table_files fs)" for f
    using that fine_in_table(1)[OF t] table_okD(2)[OF t] unfolding set_table_files[OF t] by (auto simp: file_ok_def)
  moreover have "length (snapshot_record (table_files fs)) < 2 ^ 32" using table_okD(7)[OF t] encode_table[of fs] by simp
  ultimately show ?thesis using table_okD(6)[OF t] by simp
qed

definition table_view :: "ZenFS \<Rightarrow> files_view" where
  "table_view fs = entry_effect (Snapshot (table_files fs)) Map.empty"

lemma find_Some_in: "find P xs = Some x \<Longrightarrow> x \<in> set xs \<and> P x"
  by (auto simp: find_Some_iff)

lemma fold_view:
  assumes "\<forall>f \<in> set fl. \<forall>g \<in> set fl. file_id f = file_id g \<longrightarrow> f = g"
  shows "fold (\<lambda>f s. s(file_id f \<mapsto> persisted f)) fl s i =
    (case find (\<lambda>f. file_id f = i) fl of None \<Rightarrow> s i | Some f \<Rightarrow> Some (persisted f))"
  using assms
proof (induction fl arbitrary: s)
  case (Cons f fl)
  show ?case
  proof (cases "file_id f = i")
    case True
    have "find (\<lambda>g. file_id g = i) fl = None \<or> find (\<lambda>g. file_id g = i) fl = Some f"
    proof (cases "find (\<lambda>g. file_id g = i) fl")
      case (Some g)
      then have "g = f" using find_Some_in[OF Some] Cons.prems True by simp
      then show ?thesis using Some by simp
    qed simp
    then show ?thesis using Cons True by auto
  qed (use Cons in simp)
qed simp

lemma table_view_at:
  assumes t: "table_ok fs"
  shows "a \<in> addresses fs \<Longrightarrow> table_view fs (file_id (file_objs fs a)) = Some (persisted (file_objs fs a))"
    "table_view fs i = Some v \<Longrightarrow> \<exists>a \<in> addresses fs. file_id (file_objs fs a) = i \<and> v = persisted (file_objs fs a)"
proof -
  have u: "\<forall>f \<in> set (table_files fs). \<forall>g \<in> set (table_files fs). file_id f = file_id g \<longrightarrow> f = g"
    unfolding set_table_files[OF t] using table_disjoint(1)[OF t] by blast
  note v = fold_view[OF u, of Map.empty]
  show "table_view fs (file_id (file_objs fs a)) = Some (persisted (file_objs fs a))" if a: "a \<in> addresses fs"
  proof -
    have in_table: "file_objs fs a \<in> set (table_files fs)" using a set_table_files[OF t] by simp
    then obtain f where f: "find (\<lambda>f. file_id f = file_id (file_objs fs a)) (table_files fs) = Some f"
      by (cases "find (\<lambda>f. file_id f = file_id (file_objs fs a)) (table_files fs)") (auto simp: find_None_iff)
    then have "f \<in> set (table_files fs)" "file_id f = file_id (file_objs fs a)" using find_Some_in[OF f] by simp_all
    then have "f = file_objs fs a" using u in_table by blast
    then show ?thesis using v f by (simp add: table_view_def)
  qed
  assume "table_view fs i = Some v"
  then obtain f where "find (\<lambda>f. file_id f = i) (table_files fs) = Some f" "v = persisted f"
    using v[of i] by (auto simp: table_view_def split: option.splits)
  moreover from find_Some_in[OF this(1)] have "f \<in> set (table_files fs)" "file_id f = i" by simp_all
  ultimately show "\<exists>a \<in> addresses fs. file_id (file_objs fs a) = i \<and> v = persisted (file_objs fs a)"
    using set_table_files[OF t] by auto
qed

section \<open>Recoverable states\<close>

text \<open>The log of the file system, read from its first record after the superblock, describes the files \<open>s\<close>.\<close>

definition recoverable :: "surroundings \<Rightarrow> ZenFS \<Rightarrow> files_view \<Rightarrow> bool" where
  "recoverable X fs s \<longleftrightarrow> (\<exists>xs. log_holds X fs (map entry_record xs) \<and> list_ex is_snapshot xs \<and> log_view fs xs Map.empty = Some s)"

lemma same_zones_encodable: "(\<And>off. GetIOZone off fs' = GetIOZone off fs) \<Longrightarrow> encodable fs' f = encodable fs f"
  by (simp add: encodable_def)

lemma same_zones_applies: "(\<And>off. GetIOZone off fs' = GetIOZone off fs) \<Longrightarrow> applies fs' x s = applies fs x s"
  using same_zones_encodable[of fs' fs] by (cases x) (simp_all add: fine_file_def)

lemma same_zones_view: "(\<And>off. GetIOZone off fs' = GetIOZone off fs) \<Longrightarrow> log_view fs' xs s = log_view fs xs s"
  using same_zones_applies[of fs' fs] by (induction xs arbitrary: s) simp_all

lemma log_view_append:
  "log_view fs (xs @ [x]) s = (case log_view fs xs s of None \<Rightarrow> None | Some s' \<Rightarrow> if applies fs x s' then Some (entry_effect x s') else None)"
  by (induction xs arbitrary: s) simp_all

lemma meta_step_GetIOZone: "meta_step fs fs' \<Longrightarrow> GetIOZone off fs' = GetIOZone off fs"
  unfolding GetIOZone_def by (auto simp: meta_step_def intro!: find_cong)

definition all_synced :: "ZenFS \<Rightarrow> nat \<Rightarrow> ZoneFile" where
  "all_synced fs = (\<lambda>a. if a \<in> addresses fs then MetadataSynced (file_objs fs a) else file_objs fs a)"

lemma persist_recoverable:
  assumes E: "pwrite_contract E" "reset_contract E" and o: "log_open fs" and s: "recoverable X fs s" and t: "table_ok fs" and x: "applies fs x s"
    and r: "PersistRecord E X (entry_record x) fs = Some (OK, fs')"
  shows "log_open fs'" "files fs' = files fs" "GetIOZone off fs' = GetIOZone off fs"
    "recoverable X fs' (entry_effect x s) \<and> file_objs fs' = file_objs fs \<or> recoverable X fs' (table_view fs) \<and> file_objs fs' = all_synced fs"
proof -
  obtain xs where l: "log_holds X fs (map entry_record xs)" "list_ex is_snapshot xs" "log_view fs xs Map.empty = Some s"
    using s by (auto simp: recoverable_def)
  have n: "length (ZenFS_EncodeSnapshotTo fs) < 2 ^ 32" using table_okD(7)[OF t] by simp
  note P = PersistRecord_ok[OF E o l(1) entry_parse(4)[OF x] n r]
  show "log_open fs'" "files fs' = files fs" using P(1,2) by simp_all
  have i: "log_inv fs" using o by (simp add: log_open_def)
  have "meta_step fs fs'" using PersistRecord_step(1)[OF E i r] by (simp add: fs_step_def)
  then have z: "GetIOZone off fs' = GetIOZone off fs" for off by (rule meta_step_GetIOZone)
  then show "GetIOZone off fs' = GetIOZone off fs" .
  have synced: "(\<lambda>a. if a \<in> snd ` set (files fs) then MetadataSynced (file_objs fs a) else file_objs fs a) = all_synced fs"
    unfolding all_synced_def sorted_table_ran[OF table_okD(1)[OF t]] ..
  from P(3)[unfolded synced] show "recoverable X fs' (entry_effect x s) \<and> file_objs fs' = file_objs fs \<or> recoverable X fs' (table_view fs) \<and> file_objs fs' = all_synced fs"
  proof (elim disjE conjE)
    assume a: "log_holds X fs' (map entry_record xs @ [entry_record x])" "file_objs fs' = file_objs fs"
    have "log_view fs' (xs @ [x]) Map.empty = Some (entry_effect x s)" using l(3) x unfolding same_zones_view[OF z] by (simp add: log_view_append)
    then have "recoverable X fs' (entry_effect x s)" unfolding recoverable_def using a l(2) by (intro exI[of _ "xs @ [x]"]) simp
    then show ?thesis using a(2) by blast
  next
    assume a: "log_holds X fs' [ZenFS_EncodeSnapshotTo fs]" "file_objs fs' = all_synced fs"
    have "log_view fs' [Snapshot (table_files fs)] Map.empty = Some (table_view fs)"
      using applies_snapshot[OF t] unfolding same_zones_view[OF z] by (simp add: table_view_def del: applies.simps)
    then have "recoverable X fs' (table_view fs)" unfolding recoverable_def using a(1) encode_table[of fs]
      by (intro exI[of _ "[Snapshot (table_files fs)]"]) (simp add: is_snapshot_def)
    then show ?thesis using a(2) by blast
  qed
qed

section \<open>The view keeps step with the files\<close>

text \<open>
  What the log says of a file: nothing, if the file has not been persisted yet, or its names and its
  persisted extents. The names of the files at \<open>N\<close> may have changed since.
\<close>

definition tracked :: "bool \<Rightarrow> ZoneFile option \<Rightarrow> ZoneFile \<Rightarrow> bool" where
  "tracked renamed entry f \<longleftrightarrow>
     (case entry of
        None \<Rightarrow> nr_synced_extents f = 0 \<and> (\<exists>name. linkfiles f = [name] \<and> canonical name)
      | Some v \<Rightarrow> (renamed \<or> linkfiles v = linkfiles f) \<and> extents v = take (nr_synced_extents f) (extents f))"

definition in_step :: "nat set \<Rightarrow> ZenFS \<Rightarrow> files_view \<Rightarrow> bool" where
  "in_step N fs s \<longleftrightarrow>
     (\<forall>a \<in> addresses fs. tracked (a \<in> N) (s (file_id (file_objs fs a))) (file_objs fs a)) \<and>
     (\<forall>i v. s i = Some v \<longrightarrow> file_id v = i \<and> (\<exists>a \<in> addresses fs. file_id (file_objs fs a) = i))"

lemma tracked_simps [simp]:
  "tracked n None f \<longleftrightarrow> nr_synced_extents f = 0 \<and> (\<exists>name. linkfiles f = [name] \<and> canonical name)"
  "tracked n (Some v) f \<longleftrightarrow> (n \<or> linkfiles v = linkfiles f) \<and> extents v = take (nr_synced_extents f) (extents f)"
  by (simp_all add: tracked_def)

lemma in_stepD:
  assumes "in_step N fs s"
  shows "a \<in> addresses fs \<Longrightarrow> s (file_id (file_objs fs a)) = None \<Longrightarrow>
      nr_synced_extents (file_objs fs a) = 0 \<and> (\<exists>name. linkfiles (file_objs fs a) = [name] \<and> canonical name)"
    "a \<in> addresses fs \<Longrightarrow> s (file_id (file_objs fs a)) = Some v \<Longrightarrow> a \<notin> N \<Longrightarrow> linkfiles v = linkfiles (file_objs fs a)"
    "a \<in> addresses fs \<Longrightarrow> s (file_id (file_objs fs a)) = Some v \<Longrightarrow> extents v = take (nr_synced_extents (file_objs fs a)) (extents (file_objs fs a))"
    "s i = Some v \<Longrightarrow> file_id v = i" "s i = Some v \<Longrightarrow> \<exists>a \<in> addresses fs. file_id (file_objs fs a) = i"
    "a \<in> addresses fs \<Longrightarrow> tracked (a \<in> N) (s (file_id (file_objs fs a))) (file_objs fs a)"
proof -
  show t: "a \<in> addresses fs \<Longrightarrow> tracked (a \<in> N) (s (file_id (file_objs fs a))) (file_objs fs a)" for a using assms unfolding in_step_def by blast
  show "a \<in> addresses fs \<Longrightarrow> s (file_id (file_objs fs a)) = None \<Longrightarrow>
      nr_synced_extents (file_objs fs a) = 0 \<and> (\<exists>name. linkfiles (file_objs fs a) = [name] \<and> canonical name)"
    "a \<in> addresses fs \<Longrightarrow> s (file_id (file_objs fs a)) = Some v \<Longrightarrow> a \<notin> N \<Longrightarrow> linkfiles v = linkfiles (file_objs fs a)"
    "a \<in> addresses fs \<Longrightarrow> s (file_id (file_objs fs a)) = Some v \<Longrightarrow> extents v = take (nr_synced_extents (file_objs fs a)) (extents (file_objs fs a))"
    using t[of a] by simp_all
  show "s i = Some v \<Longrightarrow> file_id v = i" "s i = Some v \<Longrightarrow> \<exists>a \<in> addresses fs. file_id (file_objs fs a) = i" using assms unfolding in_step_def by blast+
qed

lemma sum_set_le: "sum f (set xs) \<le> sum_list (map f xs)" for f :: "'a \<Rightarrow> nat"
  by (induction xs) (auto simp: sum.insert_if)

lemma total_length_take: "total_length (take n es) \<le> total_length es"
  by (metis append_take_drop_id le_add1 map_append sum_list_append total_length_def)

lemma bytes_in_step:
  assumes t: "table_ok fs" and i: "in_step N fs s"
  shows "bytes_in s < 2 ^ 62" "a \<in> addresses fs \<Longrightarrow> total_length (extents (file_objs fs a)) < 2 ^ 62"
proof -
  let ?id = "\<lambda>a. file_id (file_objs fs a)" and ?t = "\<lambda>a. total_length (extents (file_objs fs a))"
  let ?A = "{a \<in> addresses fs. ?id a \<in> dom s}"
  have ran: "addresses fs = set (map snd (files fs))" using sorted_table_ran[OF table_okD(1)[OF t]] by simp
  have fin: "finite (addresses fs)" unfolding ran by simp
  have dom: "dom s = ?id ` ?A"
  proof
    show "dom s \<subseteq> ?id ` ?A" using in_stepD(5)[OF i] by blast
  qed auto
  have inj: "inj_on ?id ?A" using table_okD(3)[OF t] by (intro inj_onI) blast
  have le: "total_length (extents (the (s (?id a)))) \<le> ?t a" if A: "a \<in> ?A" for a
  proof -
    obtain v where v: "s (?id a) = Some v" "a \<in> addresses fs" using A by auto
    then show ?thesis using in_stepD(3)[OF i v(2,1)] total_length_take by simp
  qed
  have "bytes_in s = (\<Sum>i \<in> ?id ` ?A. total_length (extents (the (s i))))" unfolding bytes_in_def using dom by (rule arg_cong)
  also have "\<dots> = (\<Sum>a \<in> ?A. total_length (extents (the (s (?id a)))))" using sum.reindex[OF inj] by (simp add: comp_def)
  also have "\<dots> \<le> sum ?t ?A" by (rule sum_mono) (rule le)
  also have "\<dots> \<le> sum ?t (addresses fs)" by (rule sum_mono2[OF fin]) auto
  finally have 1: "bytes_in s \<le> sum ?t (addresses fs)" .
  have "sum ?t (addresses fs) \<le> sum_list (map ?t (map snd (files fs)))" unfolding ran by (rule sum_set_le)
  also have "\<dots> < 2 ^ 62" using table_okD(6)[OF t] by (simp add: table_files_def comp_def case_prod_beta)
  finally have 2: "sum ?t (addresses fs) < 2 ^ 62" .
  then show "bytes_in s < 2 ^ 62" using 1 by simp
  show "a \<in> addresses fs \<Longrightarrow> total_length (extents (file_objs fs a)) < 2 ^ 62"
    using member_le_sum[of a "addresses fs" ?t] fin 2 by simp
qed

lemma applies_update:
  assumes t: "table_ok fs" and i: "in_step {a} fs s" and a: "a \<in> addresses fs"
  shows "applies fs (Update False (file_objs fs a)) s"
proof -
  let ?f = "file_objs fs a"
  have "set (linkfiles ?f) \<inter> set (linkfiles v) = {}" if j: "j \<noteq> file_id ?f" "s j = Some v" for j v
  proof -
    obtain b where b: "b \<in> addresses fs" "file_id (file_objs fs b) = j" using in_stepD(5)[OF i j(2)] by blast
    then have "b \<noteq> a" using j(1) by auto
    moreover have "linkfiles v = linkfiles (file_objs fs b)" using in_stepD(2)[OF i b(1)] b(2) j(2) \<open>b \<noteq> a\<close> by simp
    ultimately show ?thesis using table_disjoint(2)[OF t a b(1)] by simp
  qed
  then have "set (linkfiles ?f) \<inter> other_names s (file_id ?f) = {}" unfolding other_names_def by force
  moreover have "s (file_id ?f) = None \<Longrightarrow> \<exists>name. linkfiles ?f = [name] \<and> canonical name" using in_stepD(1)[OF i a] by blast
  ultimately show ?thesis
    using fine_in_table[OF t a] table_okD(2)[OF t a] bytes_in_step(1)[OF t i] bytes_in_step(2)[OF t i a] by (simp add: file_ok_def)
qed

section \<open>A synchronised file is recoverable\<close>

lemma table_ok_cong:
  assumes t: "table_ok fs" and fl: "files fs' = files fs" and z: "\<And>off. GetIOZone off fs' = GetIOZone off fs"
    and o: "\<And>a. a \<in> addresses fs \<Longrightarrow> \<exists>n u. file_objs fs' a = (file_objs fs a)\<lparr>nr_synced_extents := n, m_time := u\<rparr> \<and> u < 2 ^ 64"
  shows "table_ok fs'"
proof -
  have ran: "addresses fs = snd ` set (files fs)" using sorted_table_ran[OF table_okD(1)[OF t]] by simp
  have e: "file_id (file_objs fs' a) = file_id (file_objs fs a) \<and> linkfiles (file_objs fs' a) = linkfiles (file_objs fs a) \<and>
      extents (file_objs fs' a) = extents (file_objs fs a) \<and> file_ok fs' (file_objs fs' a) \<and>
      length (EncodeTo (file_objs fs' a) 0) = length (EncodeTo (file_objs fs a) 0)" if "a \<in> addresses fs" for a
    using o[OF that] table_okD(2)[OF t that] by (auto simp: file_ok_def encodable_def z)
  have "map (\<lambda>f. total_length (extents f)) (table_files fs') = map (\<lambda>f. total_length (extents f)) (table_files fs)"
    using e unfolding table_files_def fl ran by (auto simp: case_prod_beta)
  moreover have "snapshot_size fs' = snapshot_size fs" unfolding snapshot_size_def
    by (rule arg_cong[where f = sum_list]) (use e in \<open>auto simp: table_files_def fl ran case_prod_beta\<close>)
  moreover have "name \<in> set (linkfiles (file_objs fs' a))" if "map_of (files fs) name = Some a" for name a
    using e[of a] ranI[of "map_of (files fs)" name a, OF that] table_okD(4)[OF t that] by simp
  moreover have "inj_on (\<lambda>a. file_id (file_objs fs' a)) (addresses fs)"
    using e table_okD(3)[OF t] by (intro inj_onI) (metis (no_types, lifting))
  moreover have "snapshot_size fs < 2 ^ 30" using t unfolding table_ok_def by blast
  ultimately show ?thesis using table_okD(1,6)[OF t] table_okD(5)[OF t] e unfolding table_ok_def fl by simp
qed

definition clock_ok :: "surroundings \<Rightarrow> bool" where
  "clock_ok X \<longleftrightarrow> (\<forall>n. time_now X n < 2 ^ 64)"

lemma recoverable_cong:
  assumes "\<And>recs. log_holds X fs' recs = log_holds X fs recs" "\<And>off. GetIOZone off fs' = GetIOZone off fs"
  shows "recoverable X fs' s = recoverable X fs s"
  unfolding recoverable_def assms(1) same_zones_view[of fs' fs, OF assms(2)] ..

lemma log_holds_fields [simp]:
  "log_holds X (upd_obj a f fs) recs = log_holds X fs recs" "log_holds X (tick fs) recs = log_holds X fs recs"
  "log_holds X (fs\<lparr>files := m\<rparr>) recs = log_holds X fs recs"
  unfolding log_holds_def log_at_fields by (simp_all add: upd_obj_def tick_def)

lemma recoverable_fields [simp]:
  "recoverable X (upd_obj a f fs) s = recoverable X fs s" "recoverable X (tick fs) s = recoverable X fs s"
  "recoverable X (fs\<lparr>files := m\<rparr>) s = recoverable X fs s"
  by (rule recoverable_cong; simp add: GetIOZone_def; simp add: upd_obj_def tick_def)+

definition same_content :: "ZoneFile \<Rightarrow> ZoneFile \<Rightarrow> bool" where
  "same_content v f \<longleftrightarrow> file_id v = file_id f \<and> extents v = extents f \<and> linkfiles v = linkfiles f \<and> file_size v = file_size f \<and>
     file_lifetime v = file_lifetime f \<and> m_time v = m_time f \<and> extent_start v = extent_start f \<and> is_sparse v = is_sparse f"

lemma same_content_MetadataSynced [simp]: "same_content v (MetadataSynced f) = same_content v f"
  by (simp add: same_content_def MetadataSynced_def)

lemma same_content_persisted [simp]: "same_content (persisted f) f"
  by (simp add: same_content_def persisted_def decoded_def file_defs)

lemma update_content:
  assumes i: "in_step N fs s" and a: "a \<in> addresses fs"
  shows "\<exists>v. entry_effect (Update False (file_objs fs a)) s = s(file_id (file_objs fs a) \<mapsto> v) \<and> same_content v (file_objs fs a)"
proof (cases "s (file_id (file_objs fs a))")
  case None
  then show ?thesis using in_stepD(1)[OF i a None]
    by (intro exI[of _ "decoded (file_objs fs a) 0 (new_ZoneFile 0)"]) (simp add: same_content_def decoded_def file_defs)
next
  case (Some v)
  then show ?thesis using in_stepD(3)[OF i a Some] in_stepD(4)[OF i Some]
    by (intro exI[of _ "merged False (file_objs fs a) v"]) (simp add: same_content_def merged_def MetadataSynced_def)
qed

lemma in_step_update:
  assumes t: "table_ok fs" and i: "in_step {a} fs s" and a: "a \<in> addresses fs" and v: "same_content v (file_objs fs a)"
    and fs': "files fs' = files fs" "file_objs fs' = (file_objs fs)(a := MetadataSynced (file_objs fs a))"
  shows "in_step {} fs' (s(file_id (file_objs fs a) \<mapsto> v))"
proof -
  let ?s = "s(file_id (file_objs fs a) \<mapsto> v)"
  have len: "length (extents (file_objs fs a)) < 2 ^ 32" using table_okD(2)[OF t a] by (simp add: file_ok_def)
  have 1: "tracked (b \<in> {}) (?s (file_id (file_objs fs' b))) (file_objs fs' b)" if b: "b \<in> addresses fs" for b
  proof (cases "b = a")
    case True
    then show ?thesis using v len by (simp add: fs' same_content_def MetadataSynced_def)
  next
    case False
    then have "file_id (file_objs fs b) \<noteq> file_id (file_objs fs a)" using table_disjoint(1)[OF t b a] by blast
    then show ?thesis using False in_stepD(6)[OF i b] by (simp add: fs')
  qed
  have 2: "file_id w = j \<and> (\<exists>b \<in> addresses fs. file_id (file_objs fs' b) = j)" if j: "?s j = Some w" for j w
  proof (cases "j = file_id (file_objs fs a)")
    case True
    then show ?thesis using j v a by (auto simp: same_content_def fs' MetadataSynced_def)
  next
    case False
    then have "s j = Some w" using j by simp
    then show ?thesis using in_stepD(4,5)[OF i] False by (fastforce simp: fs')
  qed
  show ?thesis unfolding in_step_def fs'(1) using 1 2 by blast
qed

lemma in_step_table_view:
  assumes t: "table_ok fs" and fs': "files fs' = files fs" "file_objs fs' = all_synced fs"
  shows "in_step {} fs' (table_view fs)"
proof -
  have o: "file_objs fs' b = MetadataSynced (file_objs fs b)" if "b \<in> addresses fs" for b using that by (simp add: fs' all_synced_def)
  have 1: "tracked (b \<in> {}) (table_view fs (file_id (file_objs fs' b))) (file_objs fs' b)" if b: "b \<in> addresses fs" for b
  proof -
    have "length (extents (file_objs fs b)) < 2 ^ 32" using table_okD(2)[OF t b] by (simp add: file_ok_def)
    then show ?thesis using table_view_at(1)[OF t b] by (simp add: o[OF b] MetadataSynced_def)
  qed
  have 2: "file_id v = j \<and> (\<exists>b \<in> addresses fs. file_id (file_objs fs' b) = j)" if j: "table_view fs j = Some v" for j v
  proof -
    obtain b where b: "b \<in> addresses fs" "file_id (file_objs fs b) = j" "v = persisted (file_objs fs b)" using table_view_at(2)[OF t j] by blast
    then have "file_id (file_objs fs' b) = j" using o[OF b(1)] by (simp add: MetadataSynced_def)
    then show ?thesis using b by auto
  qed
  show ?thesis unfolding in_step_def fs'(1) using 1 2 by blast
qed

lemma in_step_cong:
  assumes i: "in_step N fs s" and fl: "files fs' = files fs"
    and o: "\<And>b. b \<in> addresses fs \<Longrightarrow> file_id (file_objs fs' b) = file_id (file_objs fs b) \<and> linkfiles (file_objs fs' b) = linkfiles (file_objs fs b) \<and>
      extents (file_objs fs' b) = extents (file_objs fs b) \<and> nr_synced_extents (file_objs fs' b) = nr_synced_extents (file_objs fs b)"
  shows "in_step N fs' s"
proof -
  have "tracked (b \<in> N) (s (file_id (file_objs fs' b))) (file_objs fs' b)" if b: "b \<in> addresses fs" for b
    using in_stepD(6)[OF i b] o[OF b] by (cases "s (file_id (file_objs fs b))") simp_all
  moreover have "file_id v = j \<and> (\<exists>b \<in> addresses fs. file_id (file_objs fs' b) = j)" if "s j = Some v" for j v
    using in_stepD(4,5)[OF i that] o by metis
  ultimately show ?thesis unfolding in_step_def fl by blast
qed

lemma table_ok_sync:
  assumes t: "table_ok fs" and fl: "files fs' = files fs" and z: "\<And>off. GetIOZone off fs' = GetIOZone off fs"
    and o: "\<And>b. b \<in> addresses fs \<Longrightarrow> file_objs fs' b = file_objs fs b \<or> file_objs fs' b = MetadataSynced (file_objs fs b)"
  shows "table_ok fs'"
proof (rule table_ok_cong[OF t fl z])
  fix b assume b: "b \<in> addresses fs"
  have "m_time (file_objs fs b) < 2 ^ 64" using table_okD(2)[OF t b] by (simp add: file_ok_def encodable_def)
  then show "\<exists>n u. file_objs fs' b = (file_objs fs b)\<lparr>nr_synced_extents := n, m_time := u\<rparr> \<and> u < 2 ^ 64"
    by (intro exI[of _ "nr_synced_extents (file_objs fs' b)"] exI[of _ "m_time (file_objs fs b)"]) (use o[OF b] in \<open>auto simp: MetadataSynced_def\<close>)
qed

lemma sync_recoverable:
  assumes E: "pwrite_contract E" "reset_contract E" "clock_ok X" and o: "log_open fs" and s: "recoverable X fs s" and t: "table_ok fs"
    and i: "in_step {a} fs s" and a: "a \<in> addresses fs" "\<not> is_deleted (file_objs fs a)"
    and r: "SyncFileMetadataNoLock E X a False fs = Some (OK, fs')"
  shows "log_open fs' \<and> files fs' = files fs \<and> table_ok fs' \<and>
    (\<exists>s' v. recoverable X fs' s' \<and> in_step {} fs' s' \<and> s' (file_id (file_objs fs a)) = Some v \<and> same_content v (file_objs fs' a) \<and>
       (\<forall>i w. s' i = Some w \<longrightarrow> s i = Some w \<or> (\<exists>b \<in> addresses fs. same_content w (file_objs fs' b))))"
proof -
  let ?f = "(file_objs fs a)\<lparr>m_time := time_now X (calls fs)\<rparr>"
  define fs1 where "fs1 = upd_obj a ?f (tick fs)"
  have fl1: "files fs1 = files fs" "file_objs fs1 = (file_objs fs)(a := ?f)" "meta_log fs1 = meta_log fs" by (simp_all add: fs1_def upd_obj_def tick_def)
  have z1: "GetIOZone off fs1 = GetIOZone off fs" for off by (simp add: fs1_def upd_obj_def tick_def GetIOZone_def)
  have t1: "table_ok fs1"
  proof (rule table_ok_cong[OF t fl1(1) z1])
    fix b assume b: "b \<in> addresses fs"
    have "m_time (file_objs fs b) < 2 ^ 64" using table_okD(2)[OF t b] by (simp add: file_ok_def encodable_def)
    then show "\<exists>n u. file_objs fs1 b = (file_objs fs b)\<lparr>nr_synced_extents := n, m_time := u\<rparr> \<and> u < 2 ^ 64"
      by (intro exI[of _ "nr_synced_extents (file_objs fs b)"] exI[of _ "m_time (file_objs fs1 b)"]) (use E(3) in \<open>simp add: fl1 clock_ok_def\<close>)
  qed
  have i1: "in_step {a} fs1 s" by (rule in_step_cong[OF i fl1(1)]) (simp add: fl1)
  have a1: "a \<in> addresses fs1" using a(1) fl1(1) by simp
  have o1: "log_open fs1" using o by (simp add: log_open_def log_inv_def meta_layout_def fs1_def upd_obj_def tick_def)
  have s1: "recoverable X fs1 s" using s by (simp add: fs1_def)
  obtain fs2 where p: "PersistRecord E X (entry_record (Update False (file_objs fs1 a))) fs1 = Some (OK, fs2)"
    and fs': "fs' = upd_obj a (MetadataSynced (file_objs fs2 a)) fs2"
    using r a(2) unfolding SyncFileMetadataNoLock_def Let_def by (auto simp: bind_eq_Some_conv fs1_def[symmetric] split: if_splits)
  note P = persist_recoverable[OF E(1,2) o1 s1 t1 applies_update[OF t1 i1 a1] p]
  have o': "log_open fs'" using P(1) by (simp add: fs' log_open_def log_inv_def meta_layout_def upd_obj_def)
  have fl': "files fs' = files fs1" using P(2) by (simp add: fs' upd_obj_def)
  have z': "GetIOZone off fs' = GetIOZone off fs1" for off using P(3)[of off] by (simp add: fs' upd_obj_def GetIOZone_def)
  have R: "recoverable X fs' s' = recoverable X fs2 s'" for s' by (simp add: fs')
  have id: "file_id (file_objs fs1 a) = file_id (file_objs fs a)" by (simp add: fl1)
  have "table_ok fs' \<and> (\<exists>s' v. recoverable X fs' s' \<and> in_step {} fs' s' \<and> s' (file_id (file_objs fs1 a)) = Some v \<and> same_content v (file_objs fs' a) \<and>
       (\<forall>i w. s' i = Some w \<longrightarrow> s i = Some w \<or> (\<exists>b \<in> addresses fs. same_content w (file_objs fs' b))))"
    using P(4)
  proof (elim disjE conjE)
    assume A: "recoverable X fs2 (entry_effect (Update False (file_objs fs1 a)) s)" "file_objs fs2 = file_objs fs1"
    obtain v where v: "entry_effect (Update False (file_objs fs1 a)) s = s(file_id (file_objs fs1 a) \<mapsto> v)" "same_content v (file_objs fs1 a)"
      using update_content[OF i1 a1] by blast
    have ob: "file_objs fs' = (file_objs fs1)(a := MetadataSynced (file_objs fs1 a))" using A(2) by (simp add: fs' upd_obj_def)
    have "table_ok fs'" by (rule table_ok_sync[OF t1 fl' z']) (simp add: ob)
    moreover note in_step_update[OF t1 i1 a1 v(2) fl' ob]
    moreover have "recoverable X fs' (s(file_id (file_objs fs1 a) \<mapsto> v))" using A(1) unfolding R v(1) .
    moreover have "\<forall>i w. (s(file_id (file_objs fs1 a) \<mapsto> v)) i = Some w \<longrightarrow> s i = Some w \<or> (\<exists>b \<in> addresses fs. same_content w (file_objs fs' b))"
      using v(2) ob a(1) by auto
    ultimately show ?thesis using v(2) ob by (intro conjI exI[of _ "s(file_id (file_objs fs1 a) \<mapsto> v)"] exI[of _ v]) simp_all
  next
    assume A: "recoverable X fs2 (table_view fs1)" "file_objs fs2 = all_synced fs1"
    have ob: "file_objs fs' = all_synced fs1" using A(2) a1 by (simp add: fs' upd_obj_def all_synced_def fun_eq_iff MetadataSynced_def)
    have "table_ok fs'" by (rule table_ok_sync[OF t1 fl' z']) (simp add: ob all_synced_def)
    moreover note in_step_table_view[OF t1 fl' ob] table_view_at(1)[OF t1 a1]
    moreover have "recoverable X fs' (table_view fs1)" using A(1) unfolding R .
    moreover have "\<exists>b \<in> addresses fs. same_content w (file_objs fs' b)" if "table_view fs1 i = Some w" for i w
      using table_view_at(2)[OF t1 that] unfolding ob fl1(1) by (auto simp: all_synced_def fl1(1) intro!: bexI)
    ultimately show ?thesis using ob a1 by (intro conjI exI[of _ "table_view fs1"] exI[of _ "persisted (file_objs fs1 a)"]) (simp_all add: all_synced_def)
  qed
  then show ?thesis using o' fl' fl1(1) id by simp
qed

section \<open>A deleted name stays deleted\<close>

lemma sum_filter_le: "(\<And>b. g' b \<le> g b) \<Longrightarrow> sum_list (map (\<lambda>(n, b). g' b) (filter P m)) \<le> sum_list (map (\<lambda>(n, b). g b) m)" for g :: "'a \<Rightarrow> nat"
  by (induction m) (auto simp: add_mono trans_le_add2)

lemma length_concat_remove1: "length (concat (map g (remove1 x xs))) \<le> length (concat (map g xs))"
  by (induction xs) auto

definition without_name :: "bytes \<Rightarrow> ZoneFile \<Rightarrow> ZoneFile" where
  "without_name name f = f\<lparr>linkfiles := remove1 name (linkfiles f)\<rparr>"

lemma without_name_simps [simp]:
  "file_id (without_name name f) = file_id f" "extents (without_name name f) = extents f" "nr_synced_extents (without_name name f) = nr_synced_extents f"
  "linkfiles (without_name name f) = remove1 name (linkfiles f)"
  by (simp_all add: without_name_def)

definition unlinked :: "bytes \<Rightarrow> nat \<Rightarrow> ZenFS \<Rightarrow> ZenFS \<Rightarrow> bool" where
  "unlinked name a fs fs' \<longleftrightarrow> files fs' = map_erase name (files fs) \<and>
     file_objs fs' = (file_objs fs)(a := without_name name (file_objs fs a)) \<and> (\<forall>off. GetIOZone off fs' = GetIOZone off fs)"

lemma unlinked_addresses:
  assumes t: "table_ok fs" and n: "map_of (files fs) name = Some a" and u: "unlinked name a fs fs'"
  shows "b \<in> addresses fs' \<Longrightarrow> b \<in> addresses fs" "a \<in> addresses fs' \<longleftrightarrow> remove1 name (linkfiles (file_objs fs a)) \<noteq> []" "b \<noteq> a \<Longrightarrow> b \<in> addresses fs \<Longrightarrow> b \<in> addresses fs'"
proof -
  have m: "map_of (files fs') = (map_of (files fs))(name := None)" using u by (simp add: unlinked_def)
  show "b \<in> addresses fs' \<Longrightarrow> b \<in> addresses fs" unfolding m by (auto simp: ran_def split: if_splits)
  show "b \<in> addresses fs'" if b: "b \<noteq> a" "b \<in> addresses fs"
  proof -
    obtain n' where n': "map_of (files fs) n' = Some b" using b(2) by (auto simp: ran_def)
    then have "map_of (files fs') n' = Some b" using n b(1) by (auto simp: m)
    then show ?thesis by (rule ranI)
  qed
  have a: "a \<in> addresses fs" using n by (auto simp: ran_def)
  have g: "distinct (linkfiles (file_objs fs a))" using table_okD(2)[OF t a] by (simp add: file_ok_def good_names_def)
  show "a \<in> addresses fs' \<longleftrightarrow> remove1 name (linkfiles (file_objs fs a)) \<noteq> []"
  proof
    assume "a \<in> addresses fs'"
    then obtain n' where "n' \<noteq> name" "map_of (files fs) n' = Some a" unfolding m by (auto simp: ran_def split: if_splits)
    then have "n' \<in> set (remove1 name (linkfiles (file_objs fs a)))" using table_okD(4)[OF t] g by simp
    then show "remove1 name (linkfiles (file_objs fs a)) \<noteq> []" by auto
  next
    assume "remove1 name (linkfiles (file_objs fs a)) \<noteq> []"
    then obtain n' where "n' \<in> set (remove1 name (linkfiles (file_objs fs a)))" by (meson list.set_sel(1))
    then have "n' \<noteq> name" "map_of (files fs) n' = Some a" using g table_okD(5)[OF t a] by simp_all
    then show "a \<in> addresses fs'" unfolding m by (auto simp: ran_def)
  qed
qed

lemma table_ok_unlinked:
  assumes t: "table_ok fs" and n: "map_of (files fs) name = Some a" and u: "unlinked name a fs fs'"
  shows "table_ok fs'"
proof -
  note ad = unlinked_addresses[OF assms]
  have m: "map_of (files fs') = (map_of (files fs))(name := None)" and o: "file_objs fs' = (file_objs fs)(a := without_name name (file_objs fs a))"
    and z: "GetIOZone off fs' = GetIOZone off fs" for off using u by (simp_all add: unlinked_def)
  have a: "a \<in> addresses fs" using n by (auto simp: ran_def)
  have g: "distinct (linkfiles (file_objs fs a))" using table_okD(2)[OF t a] by (simp add: file_ok_def good_names_def)
  have 1: "file_ok fs' (file_objs fs' b)" if b: "b \<in> addresses fs'" for b
    using table_okD(2)[OF t ad(1)[OF b]] ad(2) b g
    by (cases "b = a") (auto simp: o file_ok_def good_names_def z encodable_def without_name_def dest: notin_set_remove1)
  have 2: "inj_on (\<lambda>b. file_id (file_objs fs' b)) (addresses fs')"
    using table_okD(3)[OF t] ad(1) by (intro inj_onI) (simp add: o split: if_splits)
  have 3: "n' \<in> set (linkfiles (file_objs fs' b))" if "map_of (files fs') n' = Some b" for n' b
    using that table_okD(4)[OF t, of n' b] g by (auto simp: m o split: if_splits)
  have 4: "map_of (files fs') n' = Some b" if b: "b \<in> addresses fs'" and n': "n' \<in> set (linkfiles (file_objs fs' b))" for b n'
    using table_okD(5)[OF t ad(1)[OF b], of n'] n' g n by (cases "b = a") (auto simp: m o)
  have s: "sorted_table (files fs')" using sorted_map_erase[OF table_okD(1)[OF t]] u by (simp add: unlinked_def)
  have le: "sum_list (map G (table_files fs')) \<le> sum_list (map G (table_files fs))" if "\<And>f. G (without_name name f) \<le> G f" for G :: "ZoneFile \<Rightarrow> nat"
  proof -
    have "G (file_objs fs' b) \<le> G (file_objs fs b)" for b using that by (simp add: o)
    from sum_filter_le[where g' = "\<lambda>b. G (file_objs fs' b)" and g = "\<lambda>b. G (file_objs fs b)", OF this, where P = "\<lambda>(k, b). k \<noteq> name" and m = "files fs"] show ?thesis
      using u by (simp add: table_files_def unlinked_def map_erase_def comp_def case_prod_unfold)
  qed
  have "length (EncodeTo (without_name name f) 0) \<le> length (EncodeTo f 0)" for f
    using length_concat_remove1[of put_link name "linkfiles f"] by (simp add: EncodeTo_def without_name_def)
  then have "snapshot_size fs' \<le> snapshot_size fs" unfolding snapshot_size_def by (intro le) simp
  moreover have "snapshot_size fs < 2 ^ 30" using t unfolding table_ok_def by blast
  ultimately have 5: "snapshot_size fs' < 2 ^ 30" by simp
  have "sum_list (map (\<lambda>f. total_length (extents f)) (table_files fs')) < 2 ^ 62" using le[of "\<lambda>f. total_length (extents f)"] table_okD(6)[OF t] by simp
  then show ?thesis using s 1 2 3 4 5 unfolding table_ok_def by blast
qed

lemma in_step_unlinked:
  assumes t: "table_ok fs" and n: "map_of (files fs) name = Some a" and u: "unlinked name a fs fs'" and i: "in_step {} fs s"
    and v: "s (file_id (file_objs fs a)) = Some v"
  shows "in_step {} fs' (entry_effect (Deletion (file_objs fs' a) name) s)"
proof -
  let ?i = "file_id (file_objs fs a)" and ?l = "remove1 name (linkfiles (file_objs fs a))"
  note ad = unlinked_addresses[OF t n u]
  have a: "a \<in> addresses fs" using n by (auto simp: ran_def)
  have o: "file_objs fs' = (file_objs fs)(a := without_name name (file_objs fs a))" using u by (simp add: unlinked_def)
  have lv: "linkfiles v = linkfiles (file_objs fs a)" "extents v = take (nr_synced_extents (file_objs fs a)) (extents (file_objs fs a))" "file_id v = ?i"
    using in_stepD(2,3)[OF i a v] in_stepD(4)[OF i v] by simp_all
  define s' where "s' = (if ?l = [] then s(?i := None) else s(?i \<mapsto> v\<lparr>linkfiles := ?l\<rparr>))"
  have E: "entry_effect (Deletion (file_objs fs' a) name) s = s'" using v lv(1) by (simp add: s'_def o Let_def)
  have other: "file_id (file_objs fs b) \<noteq> ?i" if "b \<in> addresses fs" "b \<noteq> a" for b using table_disjoint(1)[OF t that(1) a that(2)] .
  have 1: "tracked (b \<in> {}) (s' (file_id (file_objs fs' b))) (file_objs fs' b)" if b: "b \<in> addresses fs'" for b
  proof (cases "b = a")
    case True
    then show ?thesis using ad(2) b lv by (simp add: o s'_def)
  next
    case False
    then show ?thesis using in_stepD(6)[OF i ad(1)[OF b]] other[OF ad(1)[OF b] False] by (simp add: o s'_def)
  qed
  have 2: "file_id w = j \<and> (\<exists>b \<in> addresses fs'. file_id (file_objs fs' b) = j)" if j: "s' j = Some w" for j w
  proof (cases "j = ?i")
    case True
    then have "?l \<noteq> []" "w = v\<lparr>linkfiles := ?l\<rparr>" using j by (auto simp: s'_def split: if_splits)
    then show ?thesis using ad(2) lv True by (auto simp: o intro!: bexI[of _ a])
  next
    case False
    then have "s j = Some w" using j by (auto simp: s'_def split: if_splits)
    then obtain b where b: "b \<in> addresses fs" "file_id (file_objs fs b) = j" "file_id w = j" using in_stepD(4,5)[OF i] by blast
    then have "b \<noteq> a" using False by auto
    then show ?thesis using ad(3)[of b] b by (auto simp: o intro!: bexI[of _ b])
  qed
  show ?thesis unfolding E in_step_def using 1 2 by blast
qed

lemma length_name: "name \<in> set (linkfiles f) \<Longrightarrow> length name \<le> length (EncodeTo f n)"
proof -
  assume "name \<in> set (linkfiles f)"
  then have "length (put_link name) \<le> length (concat (map put_link (linkfiles f)))" by (induction "linkfiles f" arbitrary: f) (auto simp: length_concat member_le_sum_list)
  moreover have "length name \<le> length (put_link name)" using length_PutLengthPrefixedSlice(2) by (simp add: put_link_def)
  ultimately show ?thesis by (simp add: EncodeTo_def)
qed

lemma applies_deletion:
  assumes t: "table_ok fs" and n: "map_of (files fs) name = Some a" and i: "in_step {} fs s" and v: "s (file_id (file_objs fs a)) = Some v"
    and f: "file_id f = file_id (file_objs fs a)"
  shows "applies fs' (Deletion f name) s"
proof -
  have a: "a \<in> addresses fs" using n by (auto simp: ran_def)
  have nm: "name \<in> set (linkfiles (file_objs fs a))" by (rule table_okD(4)[OF t n])
  have "file_objs fs a \<in> set (table_files fs)" using set_table_files[OF t] a by simp
  then have "length name < 2 ^ 31"
    using length_name[OF nm, of 0] length_in_snapshot[of "file_objs fs a" "table_files fs" 0] table_okD(7)[OF t] unfolding encode_table by simp
  moreover have "length (EncodeFileDeletionTo f name) \<le> 22 + length name"
    using length_PutLengthPrefixedSlice(1)[of "PutFixed64 [] (file_id f)" name]
      length_PutLengthPrefixedSlice(1)[of "PutFixed32 [] kFileDeletion" "PutLengthPrefixedSlice (PutFixed64 [] (file_id f)) name"]
    by (simp add: EncodeFileDeletionTo_def PutFixed32_def PutFixed64_def)
  ultimately show ?thesis using v nm f in_stepD(2)[OF i a v] table_okD(2)[OF t a] by (simp add: file_ok_def)
qed

text \<open>The state between two calls.\<close>

definition consistent :: "surroundings \<Rightarrow> ZenFS \<Rightarrow> files_view \<Rightarrow> bool" where
  "consistent X fs s \<longleftrightarrow> log_open fs \<and> table_ok fs \<and> recoverable X fs s \<and> in_step {} fs s"

text \<open>A change that neither the log nor the table notices.\<close>

definition calm :: "ZenFS \<Rightarrow> ZenFS \<Rightarrow> bool" where
  "calm fs fs' \<longleftrightarrow>
     files fs' = files fs \<and> (\<forall>a \<in> addresses fs. file_objs fs' a = file_objs fs a) \<and> meta_log fs' = meta_log fs \<and> superblock fs' = superblock fs \<and>
     block_sz fs' = block_sz fs \<and> zone_sz fs' = zone_sz fs \<and> meta_zones fs' = meta_zones fs \<and> io_zones fs' = io_zones fs \<and> the_disk fs' = the_disk fs \<and>
     (\<forall>p. \<exists>u. zones fs' p = (zones fs p)\<lparr>used_capacity := u\<rparr>)"

lemma same_zone [simp]: "\<exists>u. z = z\<lparr>used_capacity := u\<rparr>" for z :: Zone
  by (rule exI[of _ "used_capacity z"]) simp

lemma calm_refl [simp]: "calm fs fs"
  by (simp add: calm_def)

lemma calm_zone:
  assumes "calm fs fs'"
  shows "start (zones fs' p) = start (zones fs p)" "wp (zones fs' p) = wp (zones fs p)" "capacity (zones fs' p) = capacity (zones fs p)"
    "max_capacity (zones fs' p) = max_capacity (zones fs p)" "busy (zones fs' p) = busy (zones fs p)"
proof -
  obtain u where "zones fs' p = (zones fs p)\<lparr>used_capacity := u\<rparr>" using assms unfolding calm_def by blast
  then show "start (zones fs' p) = start (zones fs p)" "wp (zones fs' p) = wp (zones fs p)" "capacity (zones fs' p) = capacity (zones fs p)"
    "max_capacity (zones fs' p) = max_capacity (zones fs p)" "busy (zones fs' p) = busy (zones fs p)" by simp_all
qed

lemma calm_trans:
  assumes 1: "calm fs fs1" and 2: "calm fs1 fs2"
  shows "calm fs fs2"
proof -
  have "\<exists>u. zones fs2 p = (zones fs p)\<lparr>used_capacity := u\<rparr>" for p
  proof -
    obtain u u' where "zones fs1 p = (zones fs p)\<lparr>used_capacity := u\<rparr>" "zones fs2 p = (zones fs1 p)\<lparr>used_capacity := u'\<rparr>"
      using 1 2 unfolding calm_def by blast
    then show ?thesis by auto
  qed
  then show ?thesis using 1 2 unfolding calm_def by auto
qed

lemma consistent_calm:
  assumes c: "consistent X fs s" and q: "calm fs fs'"
  shows "consistent X fs' s"
proof -
  note z = calm_zone[OF q]
  have f: "files fs' = files fs" "meta_log fs' = meta_log fs" "superblock fs' = superblock fs" "block_sz fs' = block_sz fs" "zone_sz fs' = zone_sz fs"
    "meta_zones fs' = meta_zones fs" "io_zones fs' = io_zones fs" "the_disk fs' = the_disk fs" using q by (simp_all add: calm_def)
  have o: "file_objs fs' b = file_objs fs b" if "b \<in> addresses fs" for b using q that by (simp add: calm_def)
  have g: "GetIOZone off fs' = GetIOZone off fs" for off by (simp add: GetIOZone_def z f)
  have t: "table_ok fs" using c by (simp add: consistent_def)
  have "log_open fs'" using c by (simp add: consistent_def log_open_def log_inv_def meta_layout_def meta_fits_def zone_fits_def apart_def f z)
  moreover have "table_ok fs'" by (rule table_ok_sync[OF t f(1) g]) (simp add: o)
  moreover have "recoverable X fs' s"
    using c recoverable_cong[of X fs' fs, OF _ g] by (simp add: consistent_def log_holds_def log_at_def log_zone_ok_def f z)
  moreover have "in_step {} fs' s" using c by (intro in_step_cong[OF _ f(1)]) (simp_all add: consistent_def o)
  ultimately show ?thesis by (simp add: consistent_def)
qed

lemma zen_on_zone [simp]:
  "files (on_zone p h fs) = files fs" "file_objs (on_zone p h fs) = file_objs fs" "meta_log (on_zone p h fs) = meta_log fs"
  "superblock (on_zone p h fs) = superblock fs"
  by (simp_all add: on_zone_def)

lemma clear_extents_calm: "clear_extents es fs = Some fs' \<Longrightarrow> calm fs fs' \<and> file_objs fs' = file_objs fs"
proof (induction es arbitrary: fs)
  case (Cons e es)
  let ?fs = "on_zone (e_zone e) (\<lambda>z. z\<lparr>used_capacity := used_capacity z - e_length e\<rparr>) fs"
  have "clear_extents es ?fs = Some fs'" using Cons.prems by (auto simp: bind_eq_Some_conv)
  then have "calm ?fs fs' \<and> file_objs fs' = file_objs ?fs" by (rule Cons.IH)
  moreover have "\<exists>u. zones ?fs p = (zones fs p)\<lparr>used_capacity := u\<rparr>" for p
    by (cases "p = e_zone e") (auto simp: on_zone_def)
  then have "calm fs ?fs" by (simp add: calm_def)
  ultimately show ?case using calm_trans by simp
qed simp

lemma calm_fields [simp]: "calm fs (fs\<lparr>handles := hs\<rparr>)" "calm fs (hold_ref a fs)" "calm fs (tick fs)"
  by (simp_all add: calm_def hold_ref_def tick_def)

lemma drop_ref_calm:
  assumes d: "drop_ref E X a fs = Some fs'" and f: "\<not> open_for_wr (file_objs fs a)"
  shows "calm fs fs'"
proof -
  let ?fs = "fs\<lparr>handles := remove1 a (handles fs)\<rparr>"
  have "calm ?fs fs'"
  proof (cases "referenced a ?fs")
    case True
    then show ?thesis using d by (simp add: drop_ref_def destroy_unreferenced_def)
  next
    case False
    then have "clear_extents (extents (file_objs fs a)) ?fs = Some fs'"
      using d f by (auto simp: drop_ref_def destroy_unreferenced_def destroy_ZoneFile_def ClearExtents_def CloseWR_def bind_eq_Some_conv)
    then show ?thesis using clear_extents_calm by blast
  qed
  then show ?thesis using calm_trans[OF calm_fields(1)] by blast
qed

lemma delete_link_consistent:
  assumes E: "pwrite_contract E" "reset_contract E" and c: "consistent X fs s" and n: "map_of (files fs) name = Some a"
    and v: "s (file_id (file_objs fs a)) = Some v" and r: "delete_link E X name a fs = Some (OK, fs')"
  shows "\<exists>s'. consistent X fs' s'" "files fs' = map_erase name (files fs)" "\<not> open_for_wr (file_objs fs' a)"
proof -
  have t: "table_ok fs" and i: "in_step {} fs s" and o: "log_open fs" and s: "recoverable X fs s" using c by (simp_all add: consistent_def)
  let ?f = "without_name name (file_objs fs a)"
  define fs1 where "fs1 = upd_obj a ?f (fs\<lparr>files := map_erase name (files fs)\<rparr>)"
  have op: "\<not> open_for_wr (file_objs fs a)" using r by (auto simp: delete_link_def split: if_splits)
  have nm: "name \<in> set (linkfiles (file_objs fs a))" by (rule table_okD(4)[OF t n])
  then have "RemoveLinkName name (file_objs fs a) = Some (OK, ?f)" by (cases "linkfiles (file_objs fs a)") (auto simp: RemoveLinkName_def without_name_def)
  then have "do { (s, fs) \<leftarrow> PersistRecord E X (entry_record (Deletion ?f name)) fs1;
      if s \<noteq> OK then Some (s, upd_obj a (AddLinkName name (file_objs fs a)) (fs\<lparr>files := map_insert name a (files fs)\<rparr>))
      else if linkfiles (file_objs fs a) \<noteq> [] then Some (s, fs) else Some (s, upd_obj a ((file_objs fs a)\<lparr>is_deleted := True\<rparr>) fs) } = Some (OK, fs')"
    using r op by (simp add: delete_link_def fs1_def)
  then obtain s2 fs2 where 1: "PersistRecord E X (entry_record (Deletion ?f name)) fs1 = Some (s2, fs2)"
      "(if s2 \<noteq> OK then Some (s2, upd_obj a (AddLinkName name (file_objs fs2 a)) (fs2\<lparr>files := map_insert name a (files fs2)\<rparr>))
        else if linkfiles (file_objs fs2 a) \<noteq> [] then Some (s2, fs2) else Some (s2, upd_obj a ((file_objs fs2 a)\<lparr>is_deleted := True\<rparr>) fs2)) = Some (OK, fs')"
    unfolding bind_eq_Some_conv by fast
  have p: "PersistRecord E X (entry_record (Deletion ?f name)) fs1 = Some (OK, fs2)"
    and fs': "fs' = (if linkfiles (file_objs fs2 a) \<noteq> [] then fs2 else upd_obj a ((file_objs fs2 a)\<lparr>is_deleted := True\<rparr>) fs2)"
    using 1 by (auto split: if_splits)
  have u: "unlinked name a fs fs1" by (simp add: unlinked_def fs1_def upd_obj_def GetIOZone_def)
  have ob: "file_objs fs1 a = ?f" "files fs1 = map_erase name (files fs)" by (simp_all add: fs1_def upd_obj_def)
  note t1 = table_ok_unlinked[OF t n u]
  have o1: "log_open fs1" using o by (simp add: log_open_def log_inv_def meta_layout_def fs1_def upd_obj_def)
  have s1: "recoverable X fs1 s" using s by (simp add: fs1_def)
  have ap: "applies fs1 (Deletion ?f name) s" by (rule applies_deletion[OF t n i v]) simp
  note P = persist_recoverable[OF E o1 s1 t1 ap p]
  have st: "in_step {} fs1 (entry_effect (Deletion ?f name) s)" using in_step_unlinked[OF t n u i v] unfolding ob(1) .
  have "(\<exists>s'. consistent X fs2 s') \<and> linkfiles (file_objs fs2 a) = linkfiles ?f \<and> open_for_wr (file_objs fs2 a) = open_for_wr ?f"
    using P(4)
  proof (elim disjE conjE)
    assume A: "recoverable X fs2 (entry_effect (Deletion ?f name) s)" "file_objs fs2 = file_objs fs1"
    have "table_ok fs2" by (rule table_ok_sync[OF t1 P(2,3)]) (simp add: A(2))
    moreover have "in_step {} fs2 (entry_effect (Deletion ?f name) s)" by (rule in_step_cong[OF st P(2)]) (simp add: A(2))
    ultimately show ?thesis using A P(1) ob(1) unfolding consistent_def by auto
  next
    assume A: "recoverable X fs2 (table_view fs1)" "file_objs fs2 = all_synced fs1"
    have "table_ok fs2" by (rule table_ok_sync[OF t1 P(2,3)]) (simp add: A(2) all_synced_def)
    then show ?thesis using A P(1) in_step_table_view[OF t1 P(2) A(2)] ob(1) unfolding consistent_def by (auto simp: all_synced_def MetadataSynced_def)
  qed
  then obtain s' where c2: "consistent X fs2 s'" "linkfiles (file_objs fs2 a) = linkfiles ?f" "open_for_wr (file_objs fs2 a) = open_for_wr ?f" by blast
  have "a \<notin> addresses fs2" if "linkfiles (file_objs fs2 a) = []" using that unlinked_addresses(2)[OF t n u] c2(2) P(2) by simp
  then have "calm fs2 fs'"
    by (auto simp: fs' calm_def upd_obj_def)
  then show "\<exists>s'. consistent X fs' s'" using consistent_calm[OF c2(1)] by blast
  show "files fs' = map_erase name (files fs)" using P(2) ob(2) by (simp add: fs' upd_obj_def)
  show "\<not> open_for_wr (file_objs fs' a)" using op c2(3) by (simp add: fs' upd_obj_def without_name_def)
qed

end
