(* ===== verification/ZenCrash.thy ===== *)
theory ZenCrash
  imports ZenLive
begin

text \<open>
  Deleting files, and mounting the disk again after the file system has stopped at any moment between two
  calls.
\<close>

section \<open>Deleting a file\<close>

lemma DeleteFileNoLock_consistent:
  assumes E: "pwrite_contract E" "reset_contract E" and c: "consistent X fs s"
    and n: "canonical (FormatPathLexically fname)" "map_of (files fs) (FormatPathLexically fname) = Some a" and v: "s (file_id (file_objs fs a)) = Some v"
    and r: "DeleteFileNoLock E X fname fs = Some (OK, fs')"
  shows "(\<exists>s'. consistent X fs' s') \<and> files fs' = map_erase (FormatPathLexically fname) (files fs)"
proof -
  let ?n = "FormatPathLexically fname" and ?fs = "hold_ref a fs"
  have c1: "consistent X ?fs s" by (rule consistent_calm[OF c]) simp
  have f: "files ?fs = files fs" "file_objs ?fs = file_objs fs" by (simp_all add: hold_ref_def)
  have "GetFileNoLock ?n fs = Some a" using n by (simp add: GetFileNoLock_def canonical_def)
  then obtain fs1 where d: "delete_link E X ?n a ?fs = Some (OK, fs1)" "drop_ref E X a fs1 = Some fs'"
    using r by (auto simp: DeleteFileNoLock_def bind_eq_Some_conv)
  have n1: "map_of (files ?fs) ?n = Some a" and v1: "s (file_id (file_objs ?fs a)) = Some v" using n(2) v f by simp_all
  note D = delete_link_consistent[OF E c1 n1 v1 d(1)]
  have q: "calm fs1 fs'" by (rule drop_ref_calm[OF d(2) D(3)])
  then have "files fs' = files fs1" by (simp add: calm_def)
  then show ?thesis using D(1,2) consistent_calm[OF _ q] f(1) by auto
qed

section \<open>The first log\<close>

text \<open>A superblock and a snapshot in an empty zone make the file system consistent.\<close>

lemma first_log_consistent:
  assumes E: "pwrite_contract E" and l: "meta_layout fs" "log_zone log = p" "p \<in> set (meta_zones fs)" "0 < block_sz fs" "wp (zones fs p) = start (zones fs p)"
    and o: "busy (zones fs p)" "meta_log fs = Some log" and sb: "superblock fs = Some sb" "superblock_ok sb" and t: "table_ok fs"
    and a: "start_log E X log fs = Some (OK, fs1)" "WriteSnapshotLocked E X log fs1 = Some (OK, fs2)"
  shows "consistent X fs2 (table_view fs)" "files fs2 = files fs" "file_objs fs2 = all_synced fs" "meta_step fs fs2" "meta_log fs2 = Some log"
    "q \<noteq> p \<Longrightarrow> zones fs2 q = zones fs q"
proof -
  have n: "length (ZenFS_EncodeSnapshotTo fs) < 2 ^ 32" using table_okD(7)[OF t] by simp
  note N = new_log_records[OF E l sb a n]
  have p: "log_zone log \<in> set (meta_zones fs)" using l by simp
  note st1 = start_log_step[OF E l(1) p a(1)]
  have l1: "meta_layout fs1" "log_zone log \<in> set (meta_zones fs1)" using fs_step_layout[OF st1(1) l(1)] fs_step_meta[OF st1(1)] p by simp_all
  note st2 = WriteSnapshotLocked_step[OF E l1 a(2)]
  show ms: "meta_step fs fs2" using st1(1) st2(1) meta_step_trans[of fs fs1 fs2] by (simp add: fs_step_def)
  show ml: "meta_log fs2 = Some log" using st1(2) st2(3) o(2) by simp
  show "q \<noteq> p \<Longrightarrow> zones fs2 q = zones fs q" using N(2) .
  show f: "files fs2 = files fs" using N(4) .
  show ob: "file_objs fs2 = all_synced fs" using N(5) unfolding all_synced_def sorted_table_ran[OF table_okD(1)[OF t]] .
  have z: "GetIOZone off fs2 = GetIOZone off fs" for off using meta_step_GetIOZone[OF ms] .
  obtain out sb' where ns: "log_at X fs2 p (start (zones fs p)) [out, ZenFS_EncodeSnapshotTo fs]" "start (zones fs2 p) = start (zones fs p)"
    "superblock fs2 = Some sb'" "superblock_ok sb'" "Superblock_DecodeFrom out = Some (OK, sb')" using N(1) by blast
  have "log_holds X fs2 (map entry_record [Snapshot (table_files fs)])"
    unfolding log_holds_def using ml ns l(2) encode_table[of fs] by (intro exI[of _ log] exI[of _ out] exI[of _ sb']) simp
  moreover have "log_view fs2 [Snapshot (table_files fs)] Map.empty = Some (table_view fs)"
    using applies_snapshot[OF t] unfolding same_zones_view[OF z] by (simp add: table_view_def del: applies.simps)
  ultimately have "recoverable X fs2 (table_view fs)" unfolding recoverable_def by (intro exI[of _ "[Snapshot (table_files fs)]"]) (simp add: is_snapshot_def)
  moreover have "table_ok fs2" by (rule table_ok_sync[OF t f z]) (simp add: ob all_synced_def)
  moreover have "log_open fs2" using meta_step_layout[OF ms l(1)] ml ns(3,4) N(3)[of p] o(1) l(2,3,4) ms by (simp add: log_open_def log_inv_def meta_step_def)
  ultimately show "consistent X fs2 (table_view fs)" using in_step_table_view[OF t f ob] by (simp add: consistent_def)
qed

section \<open>A new file system object on the same disk\<close>

definition reopened :: "ZenFS \<Rightarrow> ZenFS \<Rightarrow> bool" where
  "reopened fs fs1 \<longleftrightarrow>
     fresh_table fs1 \<and> the_disk fs1 = the_disk fs \<and> block_sz fs1 = block_sz fs \<and> zone_sz fs1 = zone_sz fs \<and> nr_zones fs1 = nr_zones fs \<and>
     io_zones fs1 = io_zones fs \<and> meta_zones fs1 = meta_zones fs \<and> 1 < length (meta_zones fs) \<and> distinct (meta_zones fs) \<and>
     (\<forall>p. start (zones fs1 p) = start (zones fs p) \<and> wp (zones fs1 p) = wp (zones fs p) \<and> capacity (zones fs1 p) = capacity (zones fs p) \<and>
        max_capacity (zones fs1 p) = max_capacity (zones fs p)) \<and>
     (\<forall>p \<in> set (meta_zones fs). \<not> busy (zones fs1 p))"

text \<open>The metadata zones other than the one of the log are empty.\<close>

definition one_log :: "ZenFS \<Rightarrow> bool" where
  "one_log fs \<longleftrightarrow> (\<forall>log. meta_log fs = Some log \<longrightarrow> (\<forall>p \<in> set (meta_zones fs). p \<noteq> log_zone log \<longrightarrow> wp (zones fs p) = start (zones fs p)))"

text \<open>Only the calls and the zones that are held change.\<close>

definition only_busy :: "ZenFS \<Rightarrow> ZenFS \<Rightarrow> bool" where
  "only_busy fs fs' \<longleftrightarrow>
     rstate fs' = rstate fs \<and> the_disk fs' = the_disk fs \<and> block_sz fs' = block_sz fs \<and> zone_sz fs' = zone_sz fs \<and> nr_zones fs' = nr_zones fs \<and>
     io_zones fs' = io_zones fs \<and> meta_zones fs' = meta_zones fs \<and>
     (\<forall>p. start (zones fs' p) = start (zones fs p) \<and> wp (zones fs' p) = wp (zones fs p) \<and> capacity (zones fs' p) = capacity (zones fs p) \<and>
        max_capacity (zones fs' p) = max_capacity (zones fs p))"

lemma only_busy_refl [simp]: "only_busy fs fs"
  by (simp add: only_busy_def)

lemma only_busy_trans: "only_busy fs fs1 \<Longrightarrow> only_busy fs1 fs2 \<Longrightarrow> only_busy fs fs2"
  by (simp add: only_busy_def)

lemma only_busy_steps [simp]: "only_busy fs (fs\<lparr>calls := m\<rparr>)" "only_busy fs (on_zone p (\<lambda>z. z\<lparr>busy := b\<rparr>) fs)"
  by (simp_all add: only_busy_def rstate_def used_alt on_zone_def fun_eq_iff)

lemma only_busy_log_at: "only_busy fs fs' \<Longrightarrow> log_at X fs' p pos recs = log_at X fs p pos recs"
  by (simp add: only_busy_def log_at_def log_zone_ok_def)

lemma only_busy_CompatibleWith: "only_busy fs fs' \<Longrightarrow> CompatibleWith sb fs' = CompatibleWith sb fs"
  unfolding only_busy_def CompatibleWith_def by (elim conjE) (simp only:)

lemma only_busy_acquired: "only_busy fs ((on_zone p (\<lambda>z. z\<lparr>busy := True\<rparr>) fs)\<lparr>calls := m\<rparr>)"
  by (rule only_busy_trans[OF only_busy_steps(2) only_busy_steps(1)])

text \<open>An empty zone holds no superblock.\<close>

lemma find_superblocks_empty:
  assumes "\<not> busy (zones fs p)" "wp (zones fs p) = start (zones fs p)"
  shows "find_superblocks E X (p # ps) found fs = find_superblocks E X ps found (on_zone p (\<lambda>z. z\<lparr>busy := False\<rparr>) (on_zone p (\<lambda>z. z\<lparr>busy := True\<rparr>) fs))"
  using assms by (simp add: Acquire_def new_ZenMetaLog_def ReadRecord_def log_Read_def destroy_ZenMetaLog_def Release_def)

lemma find_superblocks_log:
  assumes E: "pread_contract E" and b: "\<not> busy (zones fs p)" and l: "log_at X fs p (start (zones fs p)) (out # recs)"
    and sb: "Superblock_DecodeFrom out = Some (OK, sb)" "CompatibleWith sb fs = OK"
  shows "\<exists>m. find_superblocks E X (p # ps) found fs =
    find_superblocks E X ps (found @ [\<lparr>v_seq = sequence sb, v_superblock = sb, v_log = \<lparr>read_pos = start (zones fs p) + phys_size (block_sz fs) 512, log_zone = p\<rparr>\<rparr>])
      ((on_zone p (\<lambda>z. z\<lparr>busy := True\<rparr>) fs)\<lparr>calls := m\<rparr>)"
proof -
  let ?fs = "on_zone p (\<lambda>z. z\<lparr>busy := True\<rparr>) fs" and ?log = "\<lparr>read_pos = start (zones fs p), log_zone = p\<rparr>"
  have len: "length out = 512" using sb(1) by (auto simp: Superblock_DecodeFrom_def ENCODED_SIZE_def Let_def split: if_splits)
  have l': "log_at X ?fs p (start (zones fs p)) (out # recs)" using l only_busy_log_at[of fs ?fs X p] by simp
  obtain m where rd: "ReadRecord E (crc32c_Extend X) ?log ?fs =
      Some (OK, out, ?log\<lparr>read_pos := start (zones fs p) + phys_size (block_sz ?fs) (length out)\<rparr>, ?fs\<lparr>calls := m\<rparr>)"
    using ReadRecord_ok[OF E, of ?fs out "start (zones fs p)" "crc32c_Extend X" p ?log] l' len by (auto simp: log_at_def log_zone_ok_def)
  moreover have "out \<noteq> []" using len by auto
  moreover have "CompatibleWith sb (?fs\<lparr>calls := m\<rparr>) = OK" using sb(2) only_busy_CompatibleWith[OF only_busy_acquired] by simp
  moreover have "new_ZenMetaLog p ?fs = Some ?log" by (simp add: new_ZenMetaLog_def)
  moreover have "Acquire p fs = (True, ?fs)" using b by (simp add: Acquire_def)
  ultimately show ?thesis using sb(1) len by auto
qed

lemma find_superblocks_ok:
  assumes E: "pread_contract E"
  shows "distinct ps \<Longrightarrow> \<forall>p \<in> set ps. \<not> busy (zones fs p) \<Longrightarrow> \<forall>p \<in> set ps. p \<noteq> q \<longrightarrow> wp (zones fs p) = start (zones fs p) \<Longrightarrow>
    log_at X fs q (start (zones fs q)) (out # recs) \<Longrightarrow> Superblock_DecodeFrom out = Some (OK, sb) \<Longrightarrow> CompatibleWith sb fs = OK \<Longrightarrow>
    \<exists>fs'. find_superblocks E X ps found fs = Some (OK, found @ (if q \<in> set ps
        then [\<lparr>v_seq = sequence sb, v_superblock = sb, v_log = \<lparr>read_pos = start (zones fs q) + phys_size (block_sz fs) 512, log_zone = q\<rparr>\<rparr>] else []), fs') \<and>
      only_busy fs fs'"
proof (induction ps arbitrary: fs found)
  case (Cons p ps)
  let ?v = "\<lparr>v_seq = sequence sb, v_superblock = sb, v_log = \<lparr>read_pos = start (zones fs q) + phys_size (block_sz fs) 512, log_zone = q\<rparr>\<rparr>"
  have step: "\<exists>fs'. find_superblocks E X ps found' fs1 = Some (OK, found' @ (if q \<in> set ps then [?v] else []), fs') \<and> only_busy fs fs'"
    if o: "only_busy fs fs1" "\<forall>p' \<in> set ps. busy (zones fs1 p') = busy (zones fs p')" for found' fs1
  proof -
    have z: "start (zones fs1 r) = start (zones fs r)" "wp (zones fs1 r) = wp (zones fs r)" "block_sz fs1 = block_sz fs" for r using o(1) by (simp_all add: only_busy_def)
    have c: "CompatibleWith sb fs1 = OK" using only_busy_CompatibleWith[OF o(1)] Cons.prems(6) by simp
    have l: "log_at X fs1 q (start (zones fs1 q)) (out # recs)" using only_busy_log_at[OF o(1)] Cons.prems(4) z by simp
    have "\<exists>fs'. find_superblocks E X ps found' fs1 = Some (OK, found' @ (if q \<in> set ps
        then [\<lparr>v_seq = sequence sb, v_superblock = sb, v_log = \<lparr>read_pos = start (zones fs1 q) + phys_size (block_sz fs1) 512, log_zone = q\<rparr>\<rparr>] else []), fs') \<and>
      only_busy fs1 fs'"
      by (rule Cons.IH[OF _ _ _ l Cons.prems(5) c]) (use Cons.prems(1-3) o(2) z in auto)
    then show ?thesis using only_busy_trans[OF o(1)] unfolding z by blast
  qed
  show ?case
  proof (cases "p = q")
    case True
    obtain m where "find_superblocks E X (p # ps) found fs = find_superblocks E X ps (found @ [?v]) ((on_zone p (\<lambda>z. z\<lparr>busy := True\<rparr>) fs)\<lparr>calls := m\<rparr>)"
      using find_superblocks_log[OF E, of fs p X out recs sb ps found] Cons.prems(2,4,5,6) True by auto
    moreover have "\<forall>p' \<in> set ps. busy (zones ((on_zone p (\<lambda>z. z\<lparr>busy := True\<rparr>) fs)\<lparr>calls := m\<rparr>) p') = busy (zones fs p')"
      using Cons.prems(1) by (auto simp: on_zone_def)
    ultimately show ?thesis using step[OF only_busy_acquired[where p = p and m = m], of "found @ [?v]"] Cons.prems(1) True by simp
  next
    case False
    let ?fs = "on_zone p (\<lambda>z. z\<lparr>busy := False\<rparr>) (on_zone p (\<lambda>z. z\<lparr>busy := True\<rparr>) fs)"
    have "find_superblocks E X (p # ps) found fs = find_superblocks E X ps found ?fs"
      using Cons.prems(2,3) False by (intro find_superblocks_empty) auto
    moreover have "only_busy fs ?fs" using only_busy_trans[OF only_busy_steps(2)[of fs p True] only_busy_steps(2)] .
    moreover have "\<forall>p' \<in> set ps. busy (zones ?fs p') = busy (zones fs p')" using Cons.prems(1) by (auto simp: on_zone_def)
    ultimately show ?thesis using step[of ?fs found] False by simp
  qed
qed simp

section \<open>Mounting\<close>

lemma log_at_tl:
  assumes "log_at X fs p pos (r # rs)"
  shows "log_at X fs p (pos + phys_size (block_sz fs) (length r)) rs"
proof -
  have "0 < block_sz fs" "pos mod block_sz fs = 0" using assms by (simp_all add: log_at_def log_zone_ok_def)
  then have "(pos + phys_size (block_sz fs) (length r)) mod block_sz fs = 0"
    using phys_size_ok(1)[of "block_sz fs" "length r"] by (metis add_0 mod_add_eq mod_0)
  then show ?thesis using assms by (simp add: log_at_def add.assoc)
qed

lemma repair_nothing: "\<forall>(name, a) \<in> set m. \<not> HasActiveExtent (file_objs fs a) \<Longrightarrow> repair_loop E m fs = Some (OK, fs)"
  by (induction m) auto

lemma RecoverFrom_ok:
  assumes E: "pread_contract E" and f: "fresh_table fs" and l: "log_at X fs (log_zone log) (read_pos log) (map entry_record xs)"
    and v: "log_view fs xs Map.empty = Some s" "list_ex is_snapshot xs"
  shows "\<exists>log' fs'. RecoverFrom E X log fs = Some (OK, log', fs') \<and> exhibits (rstate fs') s"
proof -
  have "log_records xs False = map entry_record xs" by (simp add: log_records_def)
  then have "\<exists>log' fs' r'. recover_loop E X log False fs = Some (if False \<or> list_ex is_snapshot xs then OK else NotFound, log', fs') \<and>
      at_state fs r' fs' \<and> exhibits r' s \<and> log_zone log' = log_zone log \<and> read_pos log' = wp (zones fs (log_zone log))"
    using l by (intro recover_loop_ok[OF E at_state_refl fresh_exhibits[OF f] v(1), of log X False False]) (simp_all add: log_at_def)
  then show ?thesis using v(2) by (auto simp: RecoverFrom_def at_state_def)
qed

lemma finish_mount_closed:
  assumes e: "exhibits (rstate fs) s" and c: "\<forall>i v. s i = Some v \<longrightarrow> \<not> HasActiveExtent v" and a: "\<forall>n path. aux X n (AuxCreateDirIfMissing path) = OK"
  shows "\<exists>fs'. finish_mount E X True w [] fs = Some (OK, fs') \<and> rstate fs' = rstate fs"
proof -
  let ?g = "fs\<lparr>meta_log := Some (v_log w), superblock := Some (v_superblock w), finish_threshold := finish_treshold (v_superblock w)\<rparr>"
  have "\<not> HasActiveExtent (file_objs fs b)" if "(name, b) \<in> set (files fs)" for name b
  proof -
    have "sorted_table (files fs)" using e by (simp add: exhibits_def rstate_def)
    then have "map_of (r_files (rstate fs)) name = Some b" using that sorted_table_distinct by (simp add: rstate_def)
    from exhibits_table(1)[OF e this] show ?thesis using c by (auto simp: rstate_def)
  qed
  then have "Repair E (tick ?g) = Some (OK, tick ?g)" unfolding Repair_def by (intro repair_nothing) (auto simp: tick_def)
  moreover have "ToAuxPath [] ?g \<noteq> None" by (simp add: ToAuxPath_def)
  ultimately have "finish_mount E X True w [] fs = Some (OK, tick ?g)" using a by (auto simp: finish_mount_def call_aux_def Let_def)
  moreover have "rstate (tick ?g) = rstate fs" by (simp add: rstate_def tick_def used_alt)
  ultimately show ?thesis by blast
qed

lemma mount_ok:
  assumes E: "pread_contract E" "\<forall>n path. aux X n (AuxCreateDirIfMissing path) = OK" and s: "recoverable X fs s" and o: "log_open fs" "one_log fs"
    and sb: "\<forall>sb. superblock fs = Some sb \<longrightarrow> CompatibleWith sb fs = OK" and r: "reopened fs fs1" and c: "\<forall>i v. s i = Some v \<longrightarrow> \<not> HasActiveExtent v"
  shows "\<exists>fs2. Mount E X True fs1 = Some (OK, fs2) \<and> exhibits (rstate fs2) s"
proof -
  obtain log out sb xs where l: "meta_log fs = Some log" "superblock fs = Some sb" "Superblock_DecodeFrom out = Some (OK, sb)"
    "log_at X fs (log_zone log) (start (zones fs (log_zone log))) (out # map entry_record xs)" "list_ex is_snapshot xs" "log_view fs xs Map.empty = Some s"
    using s by (auto simp: recoverable_def log_holds_def)
  let ?q = "log_zone log"
  have q: "?q \<in> set (meta_zones fs1)" using o(1) l(1) r by (auto simp: log_open_def log_inv_def reopened_def)
  have len: "length out = 512" using l(3) by (auto simp: Superblock_DecodeFrom_def ENCODED_SIZE_def Let_def split: if_splits)
  have l1: "log_at X fs1 ?q (start (zones fs1 ?q)) (out # map entry_record xs)" using l(4) r by (simp add: log_at_def log_zone_ok_def reopened_def)
  have cw: "CompatibleWith sb fs1 = OK"
    using sb l(2) r unfolding CompatibleWith_def reopened_def by (elim conjE) (simp only: simp_thms)
  let ?log = "\<lparr>read_pos = start (zones fs1 ?q) + phys_size (block_sz fs1) 512, log_zone = ?q\<rparr>"
  let ?v = "\<lparr>v_seq = sequence sb, v_superblock = sb, v_log = ?log\<rparr>"
  have "\<exists>fs2. find_superblocks E X (meta_zones fs1) [] fs1 = Some (OK, [] @ (if ?q \<in> set (meta_zones fs1) then [?v] else []), fs2) \<and> only_busy fs1 fs2"
    by (rule find_superblocks_ok[OF E(1) _ _ _ l1 l(3) cw]) (use r o(2) l(1) in \<open>auto simp: reopened_def one_log_def\<close>)
  then obtain fs2 where f: "find_superblocks E X (meta_zones fs1) [] fs1 = Some (OK, [?v], fs2)" "only_busy fs1 fs2" using q by auto
  have fr: "fresh_table fs2"
    using f(2) r by (auto simp: only_busy_def reopened_def fresh_table_def rstate_def)
  have at: "log_at X fs2 (log_zone ?log) (read_pos ?log) (map entry_record xs)"
    using log_at_tl[OF l1] len only_busy_log_at[OF f(2)] by simp
  have "GetIOZone off fs2 = GetIOZone off fs" for off using r f(2) by (simp add: reopened_def only_busy_def GetIOZone_def)
  then have "log_view fs2 xs Map.empty = Some s" using l(6) same_zones_view[of fs2 fs] by simp
  from RecoverFrom_ok[OF E(1) fr at this l(5)] obtain log' fs3 where rc: "RecoverFrom E X ?log fs2 = Some (OK, log', fs3)" "exhibits (rstate fs3) s" by blast
  obtain fs4 where fm: "finish_mount E X True (?v\<lparr>v_log := log'\<rparr>) [] fs3 = Some (OK, fs4)" "rstate fs4 = rstate fs3"
    using finish_mount_closed[OF rc(2) c E(2), of E "?v\<lparr>v_log := log'\<rparr>"] by blast
  have "1 < length (meta_zones fs1)" using r by (simp add: reopened_def)
  then have "Mount E X True fs1 = Some (OK, fs4)" using f(1) rc(1) fm(1) by (simp add: Mount_def sort_by_seq_def)
  then show ?thesis using fm(2) rc(2) by auto
qed

end
