(* ===== verification/ZenSample.thy ===== *)
theory ZenSample
  imports ZenCrash
begin

text \<open>
  A device whose calls all succeed, and a small file system on it: the hypotheses of the theorems on ZenFS
  hold there together.
\<close>

section \<open>A device in memory\<close>

definition memory_device :: outside where
  "memory_device =
     \<lparr>zbd_open = (\<lambda>_ _. (1, \<lparr>host_managed = True, info_nr_zones = 4, info_zone_size = 8192, info_pblock_size = 512,
        info_max_nr_open_zones = 4, info_max_nr_active_zones = 4\<rparr>)),
      zbd_list_zones = (\<lambda>_ _. (0, [])),
      zbd_report_zones = (\<lambda>_ st len. (0, \<lparr>zz_start = st, zz_capacity = len, zz_wp = st, zz_type = ZBD_ZONE_TYPE_SWR, zz_cond = ZBD_ZONE_COND_EMPTY\<rparr>, 1)),
      zbd_reset_zones = (\<lambda>_ _ _ disk. (0, disk)), zbd_finish_zones = (\<lambda>_ _ _. 0), zbd_close_zones = (\<lambda>_ _ _. 0),
      pwrite = (\<lambda>_ data off disk. (int (length data), \<lambda>a. if off \<le> a \<and> a < off + length data then data ! (a - off) else disk a)),
      pread = (\<lambda>_ _ count off disk. (int count, map disk [off ..< off + count])),
      interrupted = (\<lambda>_. False), scheduler_line = None\<rparr>"

lemma memory_contracts [simp]: "pwrite_contract memory_device" "pread_contract memory_device" "reset_contract memory_device"
  by (auto simp: pwrite_contract_def pread_contract_def reset_contract_def memory_device_def)

lemma memory_Append:
  assumes "length data \<le> capacity (zones d p)" "length data mod block_sz d = 0" "length data < 2 ^ 32"
  shows "\<exists>d'. Append memory_device p data d = Some (OK, d')"
proof (cases "length data = 0")
  case True
  then show ?thesis by (simp add: Append_def append_loop.simps[of _ _ _ 0])
next
  case False
  have "append_loop E p ptr 0 d' = Some (OK, d')" for E ptr and d' :: "'a ZonedBlockDevice_scheme" by (simp add: append_loop.simps[of E p ptr 0])
  then have "\<exists>d'. append_loop memory_device p data (length data) d = Some (OK, d')" using False assms(3)
    by (subst append_loop.simps) (simp add: memory_device_def Let_def sub32_def)
  then show ?thesis using assms(1,2) by (simp add: Append_def Let_def)
qed

lemma memory_AddRecord:
  assumes z: "log_zone_ok (log_zone log) d" and n: "phys_size (block_sz d) (length r) \<le> capacity (zones d (log_zone log))" "phys_size (block_sz d) (length r) < 2 ^ 32"
  shows "\<exists>d'. AddRecord memory_device crc log r d = Some (OK, d') \<and> log_zone_ok (log_zone log) d' \<and> block_sz d' = block_sz d \<and>
    capacity (zones d' (log_zone log)) = capacity (zones d (log_zone log)) - phys_size (block_sz d) (length r)"
proof -
  have bs: "0 < block_sz d" using z by (simp add: log_zone_ok_def)
  note ps = phys_size_ok[OF bs, of "length r"]
  have "length r < 2 ^ 32" using ps(2) n(2) by simp
  then have "length (record_bytes crc (block_sz d) r) = phys_size (block_sz d) (length r)" using length_record_bytes[OF bs] by simp
  then obtain d' where "AddRecord memory_device crc log r d = Some (OK, d')"
    using memory_Append[of "record_bytes crc (block_sz d) r" d "log_zone log"] n ps(1) by (auto simp: AddRecord_def)
  then show ?thesis using AddRecord_ok[OF memory_contracts(1) z n(2), of crc] n(1) by auto
qed

section \<open>A small file system\<close>

definition quiet_surroundings :: surroundings where
  "quiet_surroundings =
     \<lparr>crc32c_Extend = (\<lambda>_ _. 0), time_now = (\<lambda>n. n mod 2 ^ 64), unique_id = [], ZENFS_VERSION = [], aux = (\<lambda>_ _. OK), aux_value = (\<lambda>_ _. 0),
      aux_children = (\<lambda>_ _. (OK, [])), aux_is_directory = (\<lambda>_ _. (OK, False))\<rparr>"

lemma quiet_surroundings_ok [simp]: "clock_ok quiet_surroundings" "aux quiet_surroundings n c = OK"
  by (simp_all add: quiet_surroundings_def clock_ok_def)

text \<open>One closed file without data, under the name \<open>/a\<close>; nothing on the disk yet.\<close>

definition file_a :: ZoneFile where
  "file_a = AddLinkName [47, 97] (new_ZoneFile 1)"

definition blank :: ZenFS where
  "blank =
     \<lparr>block_sz = 512, zone_sz = 8192, nr_zones = 4,
      zones = (\<lambda>p. \<lparr>busy = (p = 0), start = p * 8192, capacity = 8192, max_capacity = 8192, wp = p * 8192, lifetime = WLTH_NOT_SET, used_capacity = 0\<rparr>),
      nr_objects = 4, io_zones = [3], meta_zones = [0, 1, 2], finish_threshold = 0, active_io_zones = 0, open_io_zones = 0,
      zone_deferred_status = OK, migrating = False, max_nr_active_io_zones = 3, max_nr_open_io_zones = 3, calls = 0, the_disk = (\<lambda>_. 0),
      files = [([47, 97], 0)], file_objs = (\<lambda>_. file_a), nr_files = 1, handles = [], next_file_id = 2,
      meta_log = Some \<lparr>read_pos = 0, log_zone = 0\<rparr>,
      superblock = Some \<lparr>magic = MAGIC, uuid = in_field 37 [], sequence = 0, superblock_version = CURRENT_SUPERBLOCK_VERSION, sb_flags = 0,
        sb_block_size = 512, sb_zone_size = 16, sb_nr_zones = 4, aux_fs_path = in_field 256 [], finish_treshold = 0, zenfs_version = in_field 64 [],
        reserved = replicate 123 0\<rparr>\<rparr>"

lemma file_a_simps [simp]: "linkfiles file_a = [[47, 97]]" "extents file_a = []" "file_id file_a = 1" "nr_synced_extents file_a = 0"
  "extent_start file_a = NO_EXTENT" "\<not> is_deleted file_a" "\<not> open_for_wr file_a"
  by (simp_all add: file_a_def file_defs)

lemma blank_layout: "meta_layout blank"
  by (simp add: meta_layout_def meta_fits_def zone_fits_def apart_def blank_def)

lemma blank_log_open: "log_open blank"
  using blank_layout by (simp add: log_open_def log_inv_def) (simp add: blank_def superblock_ok_def in_field_def)

lemma blank_addresses: "addresses blank = {0}" "file_objs blank a = file_a" "files blank = [([47, 97], 0)]" "table_files blank = [file_a]"
  by (simp_all add: blank_def ran_def table_files_def)

lemma blank_snapshot_size: "snapshot_size blank = 68"
  by (simp add: snapshot_size_def blank_addresses EncodeTo_def PutFixed64_def PutFixed32_def put_link_def PutLengthPrefixedSlice_def PutVarint32_def
      EncodeVarint32_def file_a_def file_defs)

lemma blank_table: "table_ok blank"
  using blank_snapshot_size
  by (simp add: table_ok_def blank_addresses file_ok_def good_names_def encodable_def total_length_def)
    (simp add: file_a_def file_defs NO_EXTENT_def)

text \<open>The first records written: a consistent file system.\<close>

definition log_of_blank :: ZenMetaLog where
  "log_of_blank = \<lparr>read_pos = 0, log_zone = 0\<rparr>"

definition sample :: "ZenFS \<Rightarrow> bool" where
  "sample fs \<longleftrightarrow>
     consistent quiet_surroundings fs (table_view blank) \<and> files fs = files blank \<and> file_objs fs 0 = MetadataSynced file_a \<and>
     meta_log fs = Some log_of_blank \<and> meta_zones fs = meta_zones blank \<and> block_sz fs = 512 \<and> zone_sz fs = 8192 \<and> nr_zones fs = 4 \<and>
     (\<forall>p. p \<noteq> 0 \<longrightarrow> zones fs p = zones blank p) \<and> 6144 \<le> capacity (zones fs 0) \<and> (\<forall>sb. superblock fs = Some sb \<longrightarrow> CompatibleWith sb fs = OK)"

lemma blank_records:
  "\<exists>fs1 fs2. start_log memory_device quiet_surroundings log_of_blank blank = Some (OK, fs1) \<and>
     WriteSnapshotLocked memory_device quiet_surroundings log_of_blank fs1 = Some (OK, fs2) \<and> 6144 \<le> capacity (zones fs2 0) \<and>
     superblock fs2 = map_option (\<lambda>sb. sb\<lparr>sequence := u32 (sequence sb + 1)\<rparr>) (superblock blank)"
proof -
  let ?X = quiet_surroundings and ?log = log_of_blank
  have lz: "log_zone ?log = 0" by (simp add: log_of_blank_def)
  obtain sb where sb: "superblock blank = Some sb" "superblock_ok sb" using blank_log_open by (auto simp: log_open_def)
  let ?sb = "sb\<lparr>sequence := u32 (sequence sb + 1)\<rparr>"
  obtain out where out: "Superblock_EncodeTo sb = Some (out, ?sb)" "length out = 512" using superblock_roundtrip[OF sb(2)] by blast
  let ?fs = "blank\<lparr>superblock := Some ?sb\<rparr>"
  have l: "meta_layout ?fs" "log_zone ?log \<in> set (meta_zones ?fs)" "0 < block_sz ?fs" "wp (zones ?fs 0) = start (zones ?fs 0)" "block_sz ?fs = 512" "capacity (zones ?fs 0) = 8192"
    using blank_layout by simp (simp_all add: blank_def log_of_blank_def)
  have z: "log_zone_ok 0 ?fs" using log_at_start[OF l(1) _ l(3,4), of ?X] l(2) lz by (simp add: log_at_def)
  have p: "phys_size 512 512 < 1032" using phys_size_ok(3)[of 512 512] by simp
  obtain fs1 where r1: "AddRecord memory_device (crc32c_Extend ?X) ?log out ?fs = Some (OK, fs1)" "log_zone_ok 0 fs1" "block_sz fs1 = 512"
    "capacity (zones fs1 0) = 8192 - phys_size 512 512"
    using memory_AddRecord[of ?log ?fs out "crc32c_Extend ?X"] z out(2) lz l(5,6) p by auto
  have s1: "start_log memory_device ?X ?log blank = Some (OK, fs1)" using sb(1) out(1) r1(1) by (simp add: start_log_def)
  have st: "meta_layout fs1" "log_zone ?log \<in> set (meta_zones fs1)"
    using AddRecord_step[OF memory_contracts(1) l(1,2) r1(1)] meta_step_layout[of ?fs fs1] l(1,2) by auto
  note m1 = zen_more[OF AddRecord_frame(3)[OF memory_contracts(1) l(1,2) r1(1)]]
  have en: "ZenFS_EncodeSnapshotTo fs1 = ZenFS_EncodeSnapshotTo blank" using m1(1,2) by (simp add: ZenFS_EncodeSnapshotTo_def)
  have len: "length (ZenFS_EncodeSnapshotTo blank) \<le> 77" using length_snapshot[of blank] blank_snapshot_size by simp
  then have q: "phys_size 512 (length (ZenFS_EncodeSnapshotTo blank)) < 600" using phys_size_ok(3)[of 512 "length (ZenFS_EncodeSnapshotTo blank)"] by simp
  then have "phys_size 512 (length (ZenFS_EncodeSnapshotTo blank)) \<le> 8192 - phys_size 512 512" using p by linarith
  then obtain fs2 where r2: "AddRecord memory_device (crc32c_Extend ?X) ?log (ZenFS_EncodeSnapshotTo blank) fs1 = Some (OK, fs2)"
    "capacity (zones fs2 0) = 8192 - phys_size 512 512 - phys_size 512 (length (ZenFS_EncodeSnapshotTo blank))"
    using memory_AddRecord[of ?log fs1 "ZenFS_EncodeSnapshotTo blank" "crc32c_Extend ?X"] r1(2,3,4) lz p q by auto
  note m2 = zen_more[OF AddRecord_frame(3)[OF memory_contracts(1) st r2(1)]]
  let ?fs3 = "fold (\<lambda>(name, a) fs. upd_obj a (MetadataSynced (file_objs fs a)) fs) (files fs2) fs2"
  have "WriteSnapshotLocked memory_device ?X ?log fs1 = Some (OK, ?fs3)" using r2(1) by (simp add: WriteSnapshotLocked_def en)
  moreover have "capacity (zones ?fs3 0) = capacity (zones fs2 0)" "superblock ?fs3 = Some ?sb" using m2(7) m1(7) by (simp_all add: synced_all)
  ultimately show ?thesis using s1 r2(2) p q sb(1) by auto
qed

lemma sample_exists: "\<exists>fs. sample fs"
proof -
  obtain fs1 fs2 where r: "start_log memory_device quiet_surroundings log_of_blank blank = Some (OK, fs1)"
    "WriteSnapshotLocked memory_device quiet_surroundings log_of_blank fs1 = Some (OK, fs2)" "6144 \<le> capacity (zones fs2 0)"
    "superblock fs2 = map_option (\<lambda>sb. sb\<lparr>sequence := u32 (sequence sb + 1)\<rparr>) (superblock blank)" using blank_records by blast
  obtain sb where sb: "superblock blank = Some sb" "superblock_ok sb" using blank_log_open by (auto simp: log_open_def)
  have b: "log_zone log_of_blank = 0" "0 \<in> set (meta_zones blank)" "0 < block_sz blank" "wp (zones blank 0) = start (zones blank 0)" "busy (zones blank 0)"
    "meta_log blank = Some log_of_blank" by (simp_all add: blank_def log_of_blank_def)
  note F = first_log_consistent[OF memory_contracts(1) blank_layout b sb blank_table r(1,2)]
  have d: "meta_zones fs2 = meta_zones blank" "block_sz fs2 = 512" "zone_sz fs2 = 8192" "nr_zones fs2 = 4" using F(4) by (simp_all add: meta_step_def blank_def)
  moreover have "CompatibleWith sb' fs2 = OK" if "superblock fs2 = Some sb'" for sb' using that r(4) d by (auto simp: CompatibleWith_def blank_def)
  moreover have "file_objs fs2 0 = MetadataSynced file_a" using F(3) by (simp add: all_synced_def blank_addresses)
  ultimately have "sample fs2" using F(1,2,5,6) r(3) by (simp add: sample_def)
  then show ?thesis by blast
qed

section \<open>Calls on the small file system\<close>

definition reopen :: "ZenFS \<Rightarrow> ZenFS" where
  "reopen fs = fs\<lparr>files := [], handles := [], zones := (\<lambda>p. (zones fs p)\<lparr>busy := False, used_capacity := 0\<rparr>)\<rparr>"

lemma reopened_reopen: "meta_zones fs = meta_zones blank \<Longrightarrow> reopened fs (reopen fs)"
  by (simp add: reopened_def reopen_def fresh_table_def used_def fun_eq_iff) (simp add: blank_def)

lemma sampleD:
  assumes "sample fs"
  shows "consistent quiet_surroundings fs (table_view blank)" "files fs = files blank" "file_objs fs 0 = MetadataSynced file_a"
    "meta_log fs = Some log_of_blank" "meta_zones fs = meta_zones blank" "block_sz fs = 512" "zone_sz fs = 8192" "nr_zones fs = 4"
    "p \<noteq> 0 \<Longrightarrow> zones fs p = zones blank p" "6144 \<le> capacity (zones fs 0)" "superblock fs = Some sb \<Longrightarrow> CompatibleWith sb fs = OK"
    "addresses fs = {0}" "log_open fs" "table_ok fs" "recoverable quiet_surroundings fs (table_view blank)" "in_step {} fs (table_view blank)"
    "log_zone_ok 0 fs" "table_view blank = [1 \<mapsto> persisted file_a]"
proof -
  show c: "consistent quiet_surroundings fs (table_view blank)" "files fs = files blank" "file_objs fs 0 = MetadataSynced file_a"
    "meta_log fs = Some log_of_blank" "meta_zones fs = meta_zones blank" "block_sz fs = 512" "zone_sz fs = 8192" "nr_zones fs = 4"
    "p \<noteq> 0 \<Longrightarrow> zones fs p = zones blank p" "6144 \<le> capacity (zones fs 0)" "superblock fs = Some sb \<Longrightarrow> CompatibleWith sb fs = OK"
    using assms by (simp_all add: sample_def)
  show "addresses fs = {0}" using c(2) blank_addresses(1) by simp
  show k: "log_open fs" "table_ok fs" "recoverable quiet_surroundings fs (table_view blank)" "in_step {} fs (table_view blank)"
    using c(1) by (simp_all add: consistent_def)
  show "log_zone_ok 0 fs" using k(3) c(4) by (auto simp: recoverable_def log_holds_def log_at_def log_of_blank_def)
  show "table_view blank = [1 \<mapsto> persisted file_a]" by (simp add: table_view_def blank_addresses)
qed

text \<open>A short record goes into the log, and the other zones stay as they are.\<close>

lemma sample_persist:
  assumes s: "log_zone_ok 0 fs" "log_open fs" "meta_log fs = Some log_of_blank" "block_sz fs = 512" "6144 \<le> capacity (zones fs 0)" and n: "length rec \<le> 1024"
  shows "\<exists>fs'. PersistRecord memory_device X rec fs = Some (OK, fs') \<and> files fs' = files fs \<and> file_objs fs' = file_objs fs \<and> superblock fs' = superblock fs \<and>
    meta_step fs fs' \<and> (\<forall>p. p \<noteq> 0 \<longrightarrow> zones fs' p = zones fs p) \<and> meta_log fs' = meta_log fs \<and> handles fs' = handles fs"
proof -
  have lz: "log_zone log_of_blank = 0" by (simp add: log_of_blank_def)
  have p: "phys_size 512 (length rec) < 1600" using phys_size_ok(3)[of 512 "length rec"] n by simp
  obtain fs' where a: "AddRecord memory_device (crc32c_Extend X) log_of_blank rec fs = Some (OK, fs')"
    using memory_AddRecord[of log_of_blank fs rec "crc32c_Extend X"] s p lz by auto
  have l: "meta_layout fs" "log_zone log_of_blank \<in> set (meta_zones fs)" using s(2,3) by (auto simp: log_open_def log_inv_def)
  note f = AddRecord_frame[OF memory_contracts(1) l a] and st = AddRecord_step[OF memory_contracts(1) l a]
  have "PersistRecord memory_device X rec fs = Some (OK, fs')" using a s(3) by (simp add: PersistRecord_def)
  then show ?thesis using f(1) lz zen_more[OF f(3)] st(1) by auto
qed

lemma sample_sync:
  assumes s: "sample fs"
  shows "\<exists>fs'. SyncFileMetadataNoLock memory_device quiet_surroundings 0 False fs = Some (OK, fs') \<and> reopened fs' (reopen fs') \<and> one_log fs' \<and>
    (\<forall>sb. superblock fs' = Some sb \<longrightarrow> CompatibleWith sb fs' = OK)"
proof -
  note d = sampleD[OF s]
  let ?f = "(file_objs fs 0)\<lparr>m_time := time_now quiet_surroundings (calls fs)\<rparr>"
  let ?fs = "upd_obj 0 ?f (tick fs)"
  have z: "zones ?fs = zones fs" "block_sz ?fs = block_sz fs" "meta_zones ?fs = meta_zones fs" "meta_log ?fs = meta_log fs" "superblock ?fs = superblock fs"
    "file_objs ?fs 0 = ?f" "zone_sz ?fs = zone_sz fs" "nr_zones ?fs = nr_zones fs" by (simp_all add: upd_obj_def tick_def)
  have o: "log_open ?fs" using d(13) by (simp add: log_open_def log_inv_def z)
  have zo: "log_zone_ok 0 ?fs" using d(17) by (simp add: log_zone_ok_def z)
  have "length (EncodeTo (MetadataSynced file_a) 0) \<le> 63" using blank_snapshot_size by (simp add: snapshot_size_def blank_addresses MetadataSynced_def)
  then have len: "length (update_record False ?f) \<le> 1024"
    using length_update_record[of False ?f] length_EncodeTo_le[of ?f "nr_synced_extents ?f"] d(3) by simp
  have ml: "meta_log ?fs = Some log_of_blank" "block_sz ?fs = 512" "6144 \<le> capacity (zones ?fs 0)" using d(4,6,10) z by simp_all
  from sample_persist[OF zo o ml len, of quiet_surroundings]
  obtain fs2 where p: "PersistRecord memory_device quiet_surroundings (update_record False ?f) ?fs = Some (OK, fs2)" "superblock fs2 = superblock fs"
    "meta_step ?fs fs2" "\<forall>p. p \<noteq> 0 \<longrightarrow> zones fs2 p = zones fs p" "meta_log fs2 = meta_log fs"
    unfolding z by blast
  let ?fs' = "upd_obj 0 (MetadataSynced (file_objs fs2 0)) fs2"
  have "SyncFileMetadataNoLock memory_device quiet_surroundings 0 False fs = Some (OK, ?fs')"
    using p(1) d(3) z(6) by (simp add: SyncFileMetadataNoLock_def MetadataSynced_def[of file_a])
  moreover have m: "meta_zones ?fs' = meta_zones blank" "block_sz ?fs' = 512" "zone_sz ?fs' = 8192" "nr_zones ?fs' = 4"
    using p(3) d(5-8) z by (simp_all add: meta_step_def upd_obj_def)
  moreover have "one_log ?fs'" using p(4,5) d(4,5,9) m(1) by (auto simp: one_log_def upd_obj_def log_of_blank_def blank_def)
  moreover have "CompatibleWith sb ?fs' = OK" if "superblock ?fs' = Some sb" for sb
  proof -
    have "superblock fs = Some sb" using that p(2) by (simp add: upd_obj_def)
    then show ?thesis using d(11)[of sb] unfolding CompatibleWith_def m d(6-8) by simp
  qed
  ultimately show ?thesis using reopened_reopen by blast
qed

lemma name_a: "FormatPathLexically [47, 97] = [47, 97]"
  by code_simp

lemma sample_delete:
  assumes s: "sample fs"
  shows "\<exists>fs'. DeleteFileNoLock memory_device quiet_surroundings [47, 97] fs = Some (OK, fs')"
proof -
  note d = sampleD[OF s]
  let ?h = "hold_ref 0 fs" and ?f = "(MetadataSynced file_a)\<lparr>linkfiles := []\<rparr>"
  let ?g = "upd_obj 0 ?f (?h\<lparr>files := []\<rparr>)"
  have g: "zones ?g = zones fs" "block_sz ?g = block_sz fs" "meta_zones ?g = meta_zones fs" "meta_log ?g = meta_log fs" "superblock ?g = superblock fs"
    "zone_sz ?g = zone_sz fs" "io_zones ?g = io_zones fs" "file_objs ?g 0 = ?f" "files ?g = []" by (simp_all add: upd_obj_def hold_ref_def)
  have o: "log_open ?g" using d(13) unfolding log_open_def log_inv_def meta_layout_def g by simp
  have zo: "log_zone_ok 0 ?g" using d(17) by (simp add: log_zone_ok_def g)
  have ml: "meta_log ?g = Some log_of_blank" "block_sz ?g = 512" "6144 \<le> capacity (zones ?g 0)" using d(4,6,10) g by simp_all
  have len: "length (EncodeFileDeletionTo ?f [47, 97]) \<le> 1024"
    by (simp add: EncodeFileDeletionTo_def PutLengthPrefixedSlice_def PutVarint32_def PutFixed32_def PutFixed64_def EncodeVarint32_def)
  from sample_persist[OF zo o ml len, of quiet_surroundings] obtain fs2 where
    p: "PersistRecord memory_device quiet_surroundings (EncodeFileDeletionTo ?f [47, 97]) ?g = Some (OK, fs2)" "files fs2 = files ?g" "file_objs fs2 = file_objs ?g"
    by blast
  have q: "files fs2 = []" "file_objs fs2 0 = ?f" using p(2,3) g(8,9) by simp_all
  have fl: "files ?h = [([47, 97], 0)]" "file_objs ?h 0 = MetadataSynced file_a" using d(2,3) by (simp_all add: hold_ref_def blank_addresses)
  have sy: "linkfiles (MetadataSynced file_a) = [[47, 97]]" "\<not> open_for_wr (MetadataSynced file_a)" "extents (MetadataSynced file_a) = []"
    by (simp_all add: MetadataSynced_def)
  let ?e = "upd_obj 0 (?f\<lparr>is_deleted := True\<rparr>) fs2"
  have "delete_link memory_device quiet_surroundings [47, 97] 0 ?h = Some (OK, ?e)"
    using p(1) q fl sy by (simp add: delete_link_def RemoveLinkName_def map_erase_def)
  moreover have "\<exists>fs'. drop_ref memory_device quiet_surroundings 0 ?e = Some fs'"
    using q sy by (simp add: drop_ref_def destroy_unreferenced_def destroy_ZoneFile_def ClearExtents_def CloseWR_def upd_obj_def)
  moreover have "GetFileNoLock [47, 97] fs = Some 0" using d(2) by (simp add: GetFileNoLock_def name_a blank_addresses)
  ultimately show ?thesis by (auto simp: DeleteFileNoLock_def name_a)
qed

section \<open>A file being written\<close>

text \<open>An open file that holds the empty data zone 3.\<close>

definition writing :: ZenFS where
  "writing = blank\<lparr>zones := (zones blank)(3 := (zones blank 3)\<lparr>busy := True\<rparr>), open_io_zones := 1, active_io_zones := 1\<rparr>"

definition growing :: ZoneFile where
  "growing = file_a\<lparr>active_zone := Some 3, extent_start := 24576, open_for_wr := True, has_writer := True\<rparr>"

definition three_bytes :: bytes where
  "three_bytes = [7, 8, 9] @ replicate 509 0"

lemma writing_simps: "extents growing = []" "file_size growing = 0" "active_zone growing = Some 3" "block_sz writing = 512"
  "capacity (zones writing 3) = 8192" "wp (zones writing 3) = 24576" "length three_bytes = 512"
  by (simp_all add: growing_def writing_def three_bytes_def file_a_def file_defs blank_def)

lemma writing_tokens: "tokens_ok {3} {} writing"
  by (simp add: tokens_ok_def tokens_def zones_sane_def active_set_def writing_def blank_def IsUsed_def Collect_conv_if conj_commute)

lemma writing_pre: "append_pre (writer_inv memory_device) memory_device {} {} three_bytes 3 growing writing"
proof -
  have "log_inv blank" using blank_log_open by (simp add: log_open_def)
  then have "log_inv writing" unfolding log_inv_def meta_layout_def by (simp add: writing_def) (simp add: blank_def apart_def)
  moreover have "layout writing" "limits_ok writing" "max_nr_open_io_zones writing \<le> max_nr_active_io_zones writing" "aligned writing" "at_wp growing writing" "has_writer growing"
    by (simp_all add: layout_def limits_ok_def aligned_def at_wp_def zone_fits_def writing_def blank_def growing_def)
  ultimately show ?thesis using writing_tokens by (simp add: append_pre_def file_inv_def writer_inv_def writing_simps)
qed

lemma writing_append:
  "\<exists>f' fs'. BufferedAppend memory_device W three_bytes 3 growing writing = Some (OK, f', fs') \<and> extents_fit 10 (extents f')"
proof -
  obtain fs' where a: "Append memory_device 3 three_bytes writing = Some (OK, fs')"
    using memory_Append[of three_bytes writing 3] by (auto simp: writing_simps)
  have "appended 3 three_bytes 512 writing fs'"
    using Append_ok[OF memory_contracts(1), of three_bytes writing 3] a by (auto simp: writing_simps)
  then have c: "capacity (zones fs' 3) = 7680" by (auto simp: appended_def writing_simps)
  have z: "zero_fill 3 509 three_bytes = Some three_bytes" by (simp add: zero_fill_def three_bytes_def numeral_3_eq_3)
  have t: "take 512 three_bytes = three_bytes" by (simp add: writing_simps)
  obtain f2 d2 where w: "push_written 3 0 3 growing fs' = (f2, d2)" by fastforce
  have "capacity (zones d2 3) \<noteq> 0" "extents_fit 10 (extents f2)"
    using w c by (auto simp: push_written_def add_used_def extents_fit_def growing_def file_a_def file_defs)
  moreover have "buffered_loop memory_device W three_bytes 3 growing writing = Some (OK, f2, d2)"
    using a z t w calculation(1) by (subst buffered_loop.simps) (simp add: writing_simps Let_def buffered_loop.simps[of _ _ _ 0])
  ultimately show ?thesis by (simp add: BufferedAppend_def with_zone_def writing_simps)
qed

text \<open>Two data zones with data, one of them with a lifetime.\<close>

definition two_open :: ZenFS where
  "two_open = blank\<lparr>io_zones := [3, 4], zones := (zones blank)(
     3 := (zones blank 3)\<lparr>wp := 25088, capacity := 7680, used_capacity := 512, lifetime := WLTH_NOT_SET\<rparr>,
     4 := (zones blank 4)\<lparr>wp := 33280, capacity := 7680, used_capacity := 512, lifetime := WLTH_LONG\<rparr>)\<rparr>"

text \<open>A file with two extents and two names.\<close>

definition two_extents :: ZoneFile where
  "two_extents = (AddLinkName [47, 98] file_a)\<lparr>file_size := 700, file_lifetime := WLTH_LONG,
     extents := [\<lparr>e_start = 24576, e_length = 500, e_zone = 3\<rparr>, \<lparr>e_start = 25088, e_length = 200, e_zone = 3\<rparr>]\<rparr>"

lemma two_extents_encodable: "encodable blank two_extents"
  by (simp add: encodable_def two_extents_def file_a_def file_defs NO_EXTENT_def GetIOZone_def)
    (simp add: blank_def)

end
