(* ===== verification/ZenProps.thy ===== *)
theory ZenProps
  imports ZenSample
begin

text \<open>
  The theorems on ZenFS: what survives a crash, what recovery computes, and what appending, reading,
  allocating and encoding do.
\<close>

section \<open>A crash after a sync\<close>

lemma sync_keeps_closed:
  assumes E: "pwrite_contract E" "reset_contract E" and o: "log_open fs" and r: "SyncFileMetadataNoLock E X a False fs = Some (OK, fs')"
  shows "HasActiveExtent (file_objs fs' b) = HasActiveExtent (file_objs fs b)" "linkfiles (file_objs fs' b) = linkfiles (file_objs fs b)"
proof -
  have i: "log_inv fs" using o by (simp add: log_open_def)
  have "same_file (file_objs fs b) (file_objs fs' b)" using SyncFileMetadataNoLock_step(1)[OF E i r] by (simp add: fs_step_def same_names_def)
  then show "HasActiveExtent (file_objs fs' b) = HasActiveExtent (file_objs fs b)" "linkfiles (file_objs fs' b) = linkfiles (file_objs fs b)"
    by (auto simp: same_file_def HasActiveExtent_def)
qed

text \<open>C2: When the metadata of a file of the table has been synchronised with success, the file survives a crash: a read-only
  mount of the disk by a new file system object succeeds, and every name the file had leads to a file with its extents,
  size, names, lifetime and modification time. Whether the update fitted the metadata zone or a new zone with a snapshot
  was started makes no difference. Conditions: the file is in the table already and not deleted, so the synchronisation
  that creates a file, before its name is entered, is not covered; every file of the table and of the log on the disk is
  closed; the log holds the state of the table up to changes of this file; afterwards one metadata zone holds a log and the
  others are empty; writes, reads and resets of the device do as documented, its reads succeed, and the auxiliary file
  system creates the directories.\<close>

theorem sync_survives_crash:
  assumes E: "pwrite_contract E" "pread_contract E" "reset_contract E" and X: "clock_ok X" "\<forall>n path. aux X n (AuxCreateDirIfMissing path) = OK"
    and fs: "log_open fs" "table_ok fs" "recoverable X fs s" "in_step {a} fs s" and a: "a \<in> addresses fs" "\<not> is_deleted (file_objs fs a)"
    and closed: "\<forall>b \<in> addresses fs. \<not> HasActiveExtent (file_objs fs b)" "\<forall>i v. s i = Some v \<longrightarrow> \<not> HasActiveExtent v"
    and sync: "SyncFileMetadataNoLock E X a False fs = Some (OK, fs')"
    and crash: "reopened fs' fs1" "one_log fs'" "\<forall>sb. superblock fs' = Some sb \<longrightarrow> CompatibleWith sb fs' = OK"
  shows "\<exists>fs2. Mount E X True fs1 = Some (OK, fs2) \<and>
    (\<forall>name \<in> set (linkfiles (file_objs fs a)). \<exists>b. map_of (files fs2) name = Some b \<and> same_content (file_objs fs2 b) (file_objs fs' a))"
proof -
  obtain s' v where S: "log_open fs'" "recoverable X fs' s'" "s' (file_id (file_objs fs a)) = Some v" "same_content v (file_objs fs' a)"
    "\<And>i w. s' i = Some w \<Longrightarrow> s i = Some w \<or> (\<exists>b \<in> addresses fs. same_content w (file_objs fs' b))"
    using sync_recoverable[OF E(1,3) X(1) fs(1,3,2,4) a sync] by blast
  note k = sync_keeps_closed[OF E(1,3) fs(1) sync]
  have "\<not> HasActiveExtent w" if "s' i = Some w" for i w
    using S(5)[OF that] closed k(1) by (auto simp: same_content_def HasActiveExtent_def)
  then obtain fs2 where m: "Mount E X True fs1 = Some (OK, fs2)" "exhibits (rstate fs2) s'"
    using mount_ok[OF E(2) X(2) S(2,1) crash(2,3,1)] by blast
  obtain b where "file_objs fs2 b = v" "\<forall>name \<in> set (linkfiles v). map_of (files fs2) name = Some b"
    using exhibits_table(2)[OF m(2) S(3)] by (auto simp: rstate_def)
  then show ?thesis using m(1) S(4) k(2)[of a] by (intro exI[of _ fs2]) (auto simp: same_content_def)
qed

theorem sync_survives_crash_witness:
  "\<exists>fs fs' fs2 b. SyncFileMetadataNoLock memory_device quiet_surroundings 0 False fs = Some (OK, fs') \<and>
     Mount memory_device quiet_surroundings True (reopen fs') = Some (OK, fs2) \<and> map_of (files fs2) [47, 97] = Some b \<and>
     same_content (file_objs fs2 b) (file_objs fs' 0)"
proof -
  obtain fs where s: "sample fs" using sample_exists by blast
  note d = sampleD[OF s]
  obtain fs' where r: "SyncFileMetadataNoLock memory_device quiet_surroundings 0 False fs = Some (OK, fs')" "reopened fs' (reopen fs')" "one_log fs'"
    "\<forall>sb. superblock fs' = Some sb \<longrightarrow> CompatibleWith sb fs' = OK" using sample_sync[OF s] by blast
  have f: "0 \<in> addresses fs" "\<not> is_deleted (file_objs fs 0)" "linkfiles (file_objs fs 0) = [[47, 97]]"
    "extents (file_objs fs 0) = []" "file_id (file_objs fs 0) = 1" using d(3,12) by (simp_all add: MetadataSynced_def)
  have "extent_start file_a = NO_EXTENT" by (simp add: file_a_def file_defs)
  then have "\<not> HasActiveExtent (file_objs fs 0)" "\<not> HasActiveExtent (persisted file_a)"
    unfolding d(3) by (simp_all add: MetadataSynced_def HasActiveExtent_def persisted_def decoded_def)
  then have c: "\<forall>b \<in> addresses fs. \<not> HasActiveExtent (file_objs fs b)" "\<forall>i v. table_view blank i = Some v \<longrightarrow> \<not> HasActiveExtent v"
    unfolding d(12,18) by (simp_all add: fun_upd_apply)
  have i: "in_step {0} fs (table_view blank)" using d(16) f(4,5) unfolding in_step_def d(12,18) by simp
  have x: "\<forall>n path. aux quiet_surroundings n (AuxCreateDirIfMissing path) = OK" by simp
  from sync_survives_crash[OF memory_contracts quiet_surroundings_ok(1) x d(13,14,15) i f(1,2) c r] show ?thesis using r(1) f(3) by auto
qed

section \<open>Recovery\<close>

text \<open>C4: Recovery computes what the log says. A log of snapshots, updates, replacements and deletions that a
  running file system can have written, possibly ended by the record that closes a log, and stored from the
  read position to the write pointer, is read to its end. The table then shows exactly the files that the
  entries describe one after the other: each file under all of its names and under no other, with its merged
  extents, and the used capacity of every zone is the sum of the lengths of the extents in it. The status is
  \<open>NotFound\<close> when the log has no snapshot.\<close>

theorem recovery_replays_log:
  assumes "pread_contract E" "fresh_table fs" "log_zone_ok (log_zone log) fs" "read_pos log mod block_sz fs = 0"
    and "stored (crc32c_Extend X) (the_disk fs) (block_sz fs) (read_pos log) (log_records xs closed)"
    and "read_pos log + log_span (block_sz fs) (log_records xs closed) = wp (zones fs (log_zone log))"
    and "log_view fs xs Map.empty = Some s"
  shows "\<exists>log' fs'. RecoverFrom E X log fs = Some (if list_ex is_snapshot xs then OK else NotFound, log', fs') \<and>
    same_device fs fs' \<and> exhibits (rstate fs') s \<and> log_zone log' = log_zone log \<and> read_pos log' = wp (zones fs (log_zone log))"
  using recover_loop_ok[OF assms(1) at_state_refl fresh_exhibits[OF assms(2)] assms(7,3-6), of False]
  unfolding RecoverFrom_def at_state_def by auto

theorem recovery_replays_log_witness:
  "\<exists>fs log log' fs'. RecoverFrom memory_device quiet_surroundings log fs = Some (OK, log', fs') \<and> exhibits (rstate fs') [1 \<mapsto> persisted file_a]"
proof -
  obtain fs where s: "sample fs" using sample_exists by blast
  note d = sampleD[OF s]
  obtain out xs where l: "log_at quiet_surroundings fs 0 (start (zones fs 0)) (out # map entry_record xs)" "list_ex is_snapshot xs"
    "log_view fs xs Map.empty = Some (table_view blank)"
    using d(4,15) by (auto simp: recoverable_def log_holds_def log_of_blank_def)
  let ?g = "reopen fs" and ?log = "\<lparr>read_pos = start (zones fs 0) + phys_size (block_sz fs) (length out), log_zone = 0\<rparr>"
  have g: "fresh_table ?g" "log_zone_ok (log_zone ?log) ?g" "the_disk ?g = the_disk fs" "block_sz ?g = block_sz fs" "wp (zones ?g 0) = wp (zones fs 0)"
    "\<And>off. GetIOZone off ?g = GetIOZone off fs"
    using d(17) by (simp_all add: reopen_def fresh_table_def used_def fun_eq_iff log_zone_ok_def GetIOZone_def)
  have at: "log_at quiet_surroundings fs 0 (read_pos ?log) (log_records xs False)" using log_at_tl[OF l(1)] by (simp add: log_records_def)
  have "log_view ?g xs Map.empty = Some (table_view blank)" using l(3) same_zones_view[of ?g fs] g(6) by simp
  then have "\<exists>log' fs'. RecoverFrom memory_device quiet_surroundings ?log ?g = Some (if list_ex is_snapshot xs then OK else NotFound, log', fs') \<and>
    same_device ?g fs' \<and> exhibits (rstate fs') (table_view blank) \<and> log_zone log' = log_zone ?log \<and> read_pos log' = wp (zones ?g (log_zone ?log))"
    using at g(3-5) by (intro recovery_replays_log[where closed = False, OF memory_contracts(2) g(1,2)]) (simp_all add: log_at_def)
  then show ?thesis using l(2) d(18) by auto
qed

section \<open>Deleting\<close>

text \<open>C8: A deletion that succeeds keeps the file system consistent: the log on the disk again describes the
  files of the table as far as they have been persisted, and neither the table nor what would be recovered
  from the disk has the deleted name any more. The other names stay in the table.\<close>

theorem deleted_name_is_gone:
  assumes "pwrite_contract E" "reset_contract E" "consistent X fs s" "canonical (FormatPathLexically fname)"
    and "map_of (files fs) (FormatPathLexically fname) = Some a" "s (file_id (file_objs fs a)) = Some v"
    and "DeleteFileNoLock E X fname fs = Some (OK, fs')"
  shows "\<exists>s'. consistent X fs' s' \<and> map_of (files fs') = (map_of (files fs))(FormatPathLexically fname := None) \<and>
    (\<forall>i v. s' i = Some v \<longrightarrow> FormatPathLexically fname \<notin> set (linkfiles v))"
proof -
  obtain s' where c: "consistent X fs' s'" "files fs' = map_erase (FormatPathLexically fname) (files fs)"
    using DeleteFileNoLock_consistent[OF assms] by blast
  have t: "table_ok fs'" and i: "in_step {} fs' s'" using c(1) by (simp_all add: consistent_def)
  have "FormatPathLexically fname \<notin> set (linkfiles v)" if v: "s' j = Some v" for j v
  proof
    assume n: "FormatPathLexically fname \<in> set (linkfiles v)"
    obtain b where b: "b \<in> addresses fs'" "file_id (file_objs fs' b) = j" using in_stepD(5)[OF i v] by blast
    then have "linkfiles v = linkfiles (file_objs fs' b)" using in_stepD(2)[OF i b(1)] v by simp
    then have "map_of (files fs') (FormatPathLexically fname) = Some b" using table_okD(5)[OF t b(1)] n by simp
    then show False by (simp add: c(2))
  qed
  then show ?thesis using c by (intro exI[of _ s']) simp
qed

theorem deleted_name_is_gone_witness:
  "\<exists>fs fs' s'. map_of (files fs) [47, 97] \<noteq> None \<and> DeleteFileNoLock memory_device quiet_surroundings [47, 97] fs = Some (OK, fs') \<and>
     consistent quiet_surroundings fs' s' \<and> map_of (files fs') [47, 97] = None"
proof -
  obtain fs where s: "sample fs" using sample_exists by blast
  note d = sampleD[OF s]
  obtain fs' where r: "DeleteFileNoLock memory_device quiet_surroundings [47, 97] fs = Some (OK, fs')" using sample_delete[OF s] by blast
  have n: "canonical (FormatPathLexically [47, 97])" by (simp add: canonical_def name_a)
  have m: "map_of (files fs) (FormatPathLexically [47, 97]) = Some 0" using d(2) by (simp add: name_a blank_addresses)
  have v: "table_view blank (file_id (file_objs fs 0)) = Some (persisted file_a)" using d(3,18) by (simp add: MetadataSynced_def)
  obtain s' where "consistent quiet_surroundings fs' s'" "map_of (files fs') [47, 97] = None"
    using deleted_name_is_gone[OF memory_contracts(1,3) d(1) n m v r] unfolding name_a by (metis fun_upd_same)
  then show ?thesis using r m unfolding name_a by blast
qed

section \<open>Appending and reading\<close>

text \<open>C11: A buffered append adds a prefix of the data to the file and nothing else. Whatever it returns, the
  contents of the file are what they were followed by the first bytes of the buffer, the size counts them, what
  other files have written stays as it was and the accounting of open and active zones holds; with \<open>OK\<close>, all of
  the data is there, and the next write can start. The zones that get full on the way are closed and new ones are taken,
  with the metadata persisted through the log. When the file holds a zone that has room for the padded data, the append returns.\<close>

theorem buffered_append_adds_data:
  assumes "append_pre (writer_inv E) E H M buffer left f fs"
  shows "(\<forall>s f' fs'. BufferedAppend E (Persist E X a) buffer left f fs = Some (s, f', fs') \<longrightarrow>
      (\<exists>k \<le> left. grown (writer_inv E) H M f fs f' fs' (take k buffer) \<and> (s = OK \<longrightarrow> k = left \<and> aligned fs' \<and> at_wp f' fs'))) \<and>
    (\<forall>p. active_zone f = Some p \<and> 0 < left \<and> left + pad_size (block_sz fs) left < capacity (zones fs p) \<and>
      left + pad_size (block_sz fs) left \<le> length buffer \<longrightarrow> (\<exists>r. BufferedAppend E (Persist E X a) buffer left f fs = Some r))"
  using zenfs_writer.BufferedAppend_returned[OF _ assms, of X a] zenfs_writer.BufferedAppend_returns[OF assms]
  by (fastforce simp: append_post_def)

theorem buffered_append_adds_data_witness:
  "\<exists>s f' fs'. BufferedAppend memory_device (Persist memory_device quiet_surroundings 0) three_bytes 3 growing writing = Some (s, f', fs') \<and>
     (\<exists>k \<le> 3. contents (the_disk fs') (extents f') = take k three_bytes) \<and> (s = OK \<longrightarrow> file_size f' = 3)"
proof -
  let ?B = "BufferedAppend memory_device (Persist memory_device quiet_surroundings 0) three_bytes 3 growing writing"
  note c = buffered_append_adds_data[OF writing_pre, of quiet_surroundings 0]
  have "\<exists>r. ?B = Some r" using c by (simp add: writing_simps pad_size_def)
  then obtain s f' fs' where r: "?B = Some (s, f', fs')" by (metis prod_cases3)
  then obtain k where "k \<le> 3" "grown (writer_inv memory_device) {} {} growing writing f' fs' (take k three_bytes)" "s = OK \<longrightarrow> k = 3"
    using c by blast
  then show ?thesis using r by (auto simp: grown_def writing_simps contents_def)
qed

text \<open>C9: What has been appended is read back. After a buffered append that returned \<open>OK\<close>, a positioned read through the
  buffered descriptor (\<open>direct\<close> is false, the buffer has room for the bytes asked for, and the device's reads succeed)
  of any range of the file returns that range of the old contents followed by the new data, cut at the end of the file.
  It writes nothing. Reads through the direct descriptor are not covered.\<close>

theorem append_then_read:
  assumes "append_pre (writer_inv E) E H M buffer left f fs" "pread_contract E"
    and "BufferedAppend E (Persist E X a) buffer left f fs = Some (OK, f', fs')"
    and "extents_fit n (extents f')" "offset + n < 2 ^ 64" "n \<le> scratch_sz" "scratch_sz < 2 ^ 64"
  shows "\<exists>m. PositionedRead E f' offset n False scratch_sz fs' =
    Some (OK, take (min n (file_size f + left - offset)) (drop offset (contents (the_disk fs) (extents f) @ take left buffer)), fs'\<lparr>calls := m\<rparr>)"
proof -
  have g: "grown (writer_inv E) H M f fs f' fs' (take left buffer)"
    using zenfs_writer.BufferedAppend_returned[OF assms(3,1)] by (simp add: append_post_def)
  have l: "left \<le> length buffer" "file_size f + left < 2 ^ 64" using assms(1) by (simp_all add: append_pre_def)
  then have "file_size f' = file_size f + left" "contents (the_disk fs') (extents f') = contents (the_disk fs) (extents f) @ take left buffer"
    using g by (simp_all add: grown_def)
  then show ?thesis using PositionedRead_ok[OF assms(2,4,5) _ assms(6,7), of fs'] l(2) by simp
qed

theorem append_then_read_witness:
  "\<exists>f' fs' fs2. BufferedAppend memory_device (Persist memory_device quiet_surroundings 0) three_bytes 3 growing writing = Some (OK, f', fs') \<and>
     PositionedRead memory_device f' 1 10 False 10 fs' = Some (OK, [8, 9], fs2)"
proof -
  obtain f' fs' where r: "BufferedAppend memory_device (Persist memory_device quiet_surroundings 0) three_bytes 3 growing writing = Some (OK, f', fs')"
    "extents_fit 10 (extents f')" using writing_append by blast
  have s: "1 + 10 < (2 :: nat) ^ 64" "10 \<le> (10 :: nat)" "10 < (2 :: nat) ^ 64" by simp_all
  from append_then_read[OF writing_pre memory_contracts(2) r(1,2) s] show ?thesis
    using r(1) by (auto simp: writing_simps contents_def three_bytes_def numeral_3_eq_3)
qed

section \<open>Zones for data\<close>

text \<open>C37: The allocation of a data zone keeps the accounting of open and active zones and stays within the limits of the
  device. With a free open token (the last one is for the write-ahead log), it returns. A zone it hands out was held by
  nobody, is held by the caller alone afterwards, and costs one open token, and one active token unless it was active
  before. When it hands out none, it gives its tokens back. Zones in use are not touched.\<close>

theorem allocation_keeps_tokens:
  assumes "tokens_ok H M d" "limits_ok d" "token_free type d" "max_nr_open_io_zones d + card M \<le> max_nr_active_io_zones d"
  shows "\<exists>s z d'. AllocateIOZone E fl type d = Some (s, z, d') \<and> settled d d' \<and> limits_ok d' \<and>
    (case z of None \<Rightarrow> tokens_ok H M d'
     | Some p \<Rightarrow> s = OK \<and> p \<in> set (io_zones d) \<and> p \<notin> H \<union> M \<and> busy (zones d' p) \<and> tokens_ok (insert p H) M d')"
  using AllocateIOZone_ok[OF assms, of E fl] by (simp add: allocated_def)

theorem allocation_keeps_tokens_witness:
  "\<exists>s z d'. AllocateIOZone memory_device WLTH_LONG kWAL blank = Some (s, z, d') \<and> open_io_zones d' = (if z = None then 0 else 1) \<and>
     (\<forall>p. z = Some p \<longrightarrow> p = 3)"
proof -
  have "tokens_ok {} {} blank" "limits_ok blank" "token_free kWAL blank" "max_nr_open_io_zones blank + card {} \<le> max_nr_active_io_zones blank"
    by (simp_all add: tokens_ok_def tokens_def zones_sane_def active_set_def limits_ok_def token_free_def blank_def IsUsed_def partly_written_def IsEmpty_def)
  from allocation_keeps_tokens[OF this, of memory_device WLTH_LONG] show ?thesis
    by (fastforce simp: tokens_ok_def tokens_def blank_def split: option.splits)
qed

text \<open>C38: Among the data zones that nobody holds, that have live data, are not full and have the room asked for,
  the best match is one whose lifetime differs least from that of the file. It is held afterwards, every zone held on the way has been
  released, and the difference is reported. Without such a zone none is held, and the difference is the worst one.\<close>

theorem best_match_is_least:
  "\<exists>best z. GetBestOpenZoneMatch fl min_capacity d = Some (OK, best, z, hold z d) \<and>
    (case z of None \<Rightarrow> best = LIFETIME_DIFF_NOT_GOOD \<and> (\<forall>q \<in> set (io_zones d). \<not> candidate min_capacity d q)
     | Some p \<Rightarrow> p \<in> set (io_zones d) \<and> candidate min_capacity d p \<and> best = GetLifeTimeDiff (lifetime (zones d p)) fl \<and>
         (\<forall>q \<in> set (io_zones d). candidate min_capacity d q \<longrightarrow> best \<le> GetLifeTimeDiff (lifetime (zones d q)) fl))"
proof -
  obtain best z where b: "best_match fl min_capacity d = (best, z)" by fastforce
  have n: "\<forall>q \<in> set (io_zones d). \<not> candidate min_capacity d q" if "z = None"
    using b that by (auto simp: best_match_def Let_def filter_empty_conv split: if_splits)
  show ?thesis
    using b n best_match_None[of fl min_capacity d best] best_match_Some[of fl min_capacity d best]
    by (cases z) (auto simp: GetBestOpenZoneMatch_eq LIFETIME_DIFF_NOT_GOOD_def diff_of_def)
qed

theorem best_match_is_least_witness:
  "\<exists>best p d'. GetBestOpenZoneMatch WLTH_MEDIUM 4096 two_open = Some (OK, best, Some p, d') \<and> p \<in> {3, 4} \<and> best \<le> 1 \<and> busy (zones d' p)"
proof -
  have z: "io_zones two_open = [3, 4]" "candidate 4096 two_open 4" "GetLifeTimeDiff (lifetime (zones two_open 4)) WLTH_MEDIUM = 1"
    by (simp_all add: two_open_def candidate_def IsFull_def GetLifeTimeDiff_def blank_def)
  show ?thesis using best_match_is_least[of WLTH_MEDIUM 4096 two_open] z by (auto simp: hold_def split: option.splits)
qed

section \<open>Encoding\<close>

text \<open>C39: The metadata of a file decodes to what was encoded: a file of fewer than 2^32 extents, all of them in data zones and all of its numbers of 64 bits, decoded
  into a new object, has the same identifier, size, lifetime, extents, names, modification time and
  extent start, with all of its extents counted as synchronised. The used capacity of each zone grows by the length of the
  extents in it.\<close>

theorem file_metadata_roundtrip:
  assumes "encodable d f" "length (extents f) < 2 ^ 32"
  shows "\<exists>g d'. DecodeFrom (EncodeTo f 0) (new_ZoneFile 0) d = Some (OK, g, d') \<and> same_content g f \<and>
    nr_synced_extents g = length (extents f) \<and> d' = fold (\<lambda>e d. add_used (e_zone e) (e_length e) d) (extents f) d"
  using DecodeFrom_EncodeTo[OF assms(1), of 0 "new_ZoneFile 0"] assms(2)
  by (auto simp: decoded_def count_extents_def same_content_def file_defs)

theorem file_metadata_roundtrip_witness:
  "\<exists>g d'. DecodeFrom (EncodeTo two_extents 0) (new_ZoneFile 0) blank = Some (OK, g, d') \<and> extents g = extents two_extents \<and>
     used_capacity (zones d' 3) = 700"
  using file_metadata_roundtrip[OF two_extents_encodable]
  by (auto simp: same_content_def add_used_def two_extents_def on_zone_def blank_def)

text \<open>C40: A metadata record is well formed for the device: it is a string of bytes, a whole number of blocks long, starts with
  the masked checksum and the length, goes on with the data, and is filled up with zero bytes.\<close>

theorem record_well_formed:
  assumes "0 < bs" "is_bytes data" "length data < 2 ^ 32"
  shows "is_bytes (record_bytes crc bs data) \<and> length (record_bytes crc bs data) mod bs = 0 \<and>
    (\<exists>crc_field fill. record_bytes crc bs data = crc_field @ EncodeFixed32 (length data) @ data @ replicate fill 0 \<and>
       le_load crc_field = unat (Mask (record_crc crc data)) \<and> length crc_field = 4 \<and> fill < bs)"
proof -
  note ps = phys_size_ok[OF assms(1), of "length data"]
  let ?crc = "EncodeFixed32 (unat (Mask (record_crc crc data)))"
  have r: "record_bytes crc bs data = ?crc @ EncodeFixed32 (length data) @ data @ replicate (phys_size bs (length data) - (length data + 8)) 0"
    using assms(3) by (simp add: record_bytes_def Let_def add.commute)
  have "le_load ?crc = unat (Mask (record_crc crc data))" using unsigned_less[where ?'a = nat, of "Mask (record_crc crc data)"]
    by (simp add: EncodeFixed32_def)
  moreover have "phys_size bs (length data) - (length data + 8) < bs" using ps(3) assms(1) by linarith
  moreover have "is_bytes (record_bytes crc bs data)" unfolding r using assms(2) by (simp add: EncodeFixed32_def) (simp add: is_bytes_def)
  moreover have "length (record_bytes crc bs data) mod bs = 0" using length_record_bytes[OF assms(1,3)] ps(1) by simp
  ultimately show ?thesis using r by (intro conjI exI[of _ ?crc] exI) simp_all
qed

theorem record_well_formed_witness:
  "is_bytes (record_bytes (\<lambda>_ _. 5) 512 [1, 2, 3]) \<and> length (record_bytes (\<lambda>_ _. 5) 512 [1, 2, 3]) mod 512 = 0"
  using record_well_formed[of 512 "[1, 2, 3]" "\<lambda>_ _. 5"] by (simp add: is_bytes_def)

end
