(* ===== verification/Spec2Isabelle.thy ===== *)
theory Spec2Isabelle
  imports ZnsProps SchedProps ZenProps
begin

text \<open>
  This development verifies the zoned-storage stack of the repository: the zoned namespace of an emulated
  NVMe controller (\<open>src/zns\<close>), the flash device behind it with its mapping of zones to dies and its scheduler
  (\<open>src/zns/supplement\<close>, \<open>src/zns/fairness\<close>), and ZenFS (\<open>src/zenfs-2.0.0/fs\<close>), the file system that RocksDB
  uses on a zoned block device, with the RocksDB encodings (\<open>src/rocksdb-8.11.4/util\<close>) its metadata is written in.
  The commands of the namespace (\<open>zns.c\<close>) call the flash device for latencies and queues; ZenFS runs on the
  host and sees a device only through system calls and libzbd, so the two halves share the prelude and no state.

  \<^bold>\<open>Conventions.\<close> An operation is a function from its arguments and the state to an option: \<^const>\<open>None\<close> is an
  abort (a failed assertion, an access outside an array, a list misused) or, for the loops defined by
  \<open>partial_function (option)\<close>, a loop that does not end. Statuses are values, and every early return is a
  branch. Unsigned integers are natural numbers with the wrap-around written out (\<open>u8\<close>, \<open>u16\<close>, \<open>u32\<close>, \<open>u64\<close>,
  \<open>sub32\<close>, \<open>sub64\<close>) where the code can reach it; the checksum and its mask are 32-bit words. Pointers that are
  shared are addresses into a heap (a map). There is no fuel: loops are structural recursion over the
  list or the counter the code runs over, or partial functions with a lemma that they return.

  \<^bold>\<open>The zoned namespace.\<close>
  \<^item> \<open>ZnsZone\<close>: the record of the namespace (\<open>NvmeNamespace\<close> and \<open>FemuCtrl\<close> as far as zones need them), zone states, the four
    queues of zones, the counters of open and active zones, zone lookup, initialisation, and the invariant \<open>zns_inv\<close>.
  \<^item> \<open>ZnsOps\<close>: checks of reads and writes, implicit opening, write pointers, the handlers of zone management and the loop
    over classes of zones. The locales \<open>zone_op_handler\<close> and \<open>zone_op_target\<close> state what a handler promises to
    \<open>zns_do_zone_op\<close>; every handler is an interpretation.
  \<^item> \<open>ZnsCmd\<close>: read, write, append, zone management send and receive, the dispatcher \<open>zns_io_cmd\<close> and the start of the controller. The
    PRP mapping and the DMA are arguments; calls of the memory backend are a trace.
  \<^item> \<open>ZnsProps\<close>: commands never abort and keep the invariant, writes never overlap, the handlers refine an abstract machine on zone
    states, a write at the pointer is accepted, reports, resets, shutdown, reachable states; and the cases in which the code does
    not keep its bounds. No theorem assumes that the PRP mapping succeeds unless it is about that case; the theorem on reachable
    states names the sizes of the namespace it needs.

  \<^bold>\<open>The flash device.\<close>
  \<^item> \<open>SsdTypes\<close>, \<open>SsdMap\<close>: geometry, initialisation, the static mapping and its latencies; the locale \<open>mapping_strategy\<close> is
    the table of function pointers of the source and is interpreted on its one entry. Reads, writes and erases of the static
    mapping stand under \<open>#ifdef STATIC_MAP\<close>, which nothing in the repository defines; they are modelled as they stand.
  \<^item> \<open>DieList\<close>: the linked list of a die on a store of nodes, which refines a first-in first-out queue (locale \<open>fifo_queue\<close>).
  \<^item> \<open>DynMap\<close>: die groups and flash block groups, as compiled with \<open>PARA_ZNS = 1\<close>; zones that are opened and not reset
    since never share flash as long as no zone is reset twice in a row (a second reset takes the flash of another zone away, which
    is a theorem as well), the search for a block group ends, the groups stay evenly used.
  \<^item> \<open>Sched\<close>, \<open>SchedProps\<close>: requests, their transactions, the pass over the dies; requests are conserved and completed,
    except those the code loses, which \<open>lost_req\<close> describes exactly (inside a page, or for a zone without a die); a
    pass takes the oldest transaction of each idle die, a request is divided over its dies.

  \<^bold>\<open>ZenFS, the model.\<close>
  \<^item> \<open>Coding\<close>: fixed and variable length integers and length-prefixed strings.
  \<^item> \<open>ZenZone\<close>: \<open>zbd_zenfs.cc\<close>: zones, opening a device, tokens, the choice and allocation of zones. libzbd, \<open>pwrite\<close>, \<open>pread\<close> and
    the scheduler file are the record \<open>outside\<close> of functions of the number of the call, so that two calls may answer differently.
  \<^item> \<open>ZenFile\<close>, \<open>ZenCodec\<close>: \<open>io_zenfs.cc\<close>: extents, appends (direct, buffered, sparse), reads, file handles, migration of data,
    recovery of an active extent, and the tagged encoding of a file.
  \<^item> \<open>ZenMeta\<close>, \<open>ZenPath\<close>, \<open>ZenFs\<close>, \<open>ZenMount\<close>: \<open>fs_zenfs.cc\<close>: superblock and log records, names of files, the table of
    files and its operations, persisting, rolling to a new metadata zone, replay, mount, MkFS and migration. The state is the
    record \<open>ZenFS\<close>, which extends that of the device. The checksum, the clock and the auxiliary file system are the record \<open>surroundings\<close>.

  \<^bold>\<open>ZenFS, the theory.\<close>
  \<^item> \<open>ZenTokens\<close>: the counters of open and active zones count the zones held and the zones partly written.
  \<^item> \<open>ZenIo\<close>: the documented behaviour of the device (\<open>pwrite_contract\<close>, \<open>pread_contract\<close>, \<open>reset_contract\<close>): a call writes or
    reads a positive number of bytes at the place asked for. A write or reset may fail; a read on the buffered descriptor does
    not, nor is it interrupted or at the end of the device, and nothing is assumed of the direct descriptor; what \<open>Append\<close> and reading a stretch do under it.
  \<^item> \<open>ZenData\<close>, \<open>ZenAppend\<close>: the contents of a file as a list of bytes; a positioned read through the buffered descriptor returns a part of it, a buffered append
    adds to it and keeps what other files have written. The metadata writer it calls is the locale \<open>metadata_writer\<close>.
  \<^item> \<open>ZenSync\<close>: the file system is such a writer (interpretation \<open>zenfs_writer\<close>): persisting stays inside the metadata zones.
  \<^item> \<open>ZenReplay\<close>: what a log means (\<open>log_view\<close>: files by identifier) and that recovery computes it (\<open>exhibits\<close>).
  \<^item> \<open>ZenLive\<close>: the running file system keeps a log that describes its table as far as it has been persisted (\<open>recoverable\<close>,
    \<open>in_step\<close>, together \<open>consistent\<close>), through updates, deletions and rolls to a new metadata zone.
  \<^item> \<open>ZenCrash\<close>: deleting a file, and mounting the disk again.
  \<^item> \<open>ZenSample\<close>: a memory device and a small file system on which the hypotheses hold together.
  \<^item> \<open>ZenProps\<close>: the theorems: a synchronised file survives a crash, recovery replays the log, deletion, append and read,
    allocation of zones and the best match, encoding of files and records.

  \<^bold>\<open>Bounds.\<close> The theorems on recovery assume that the bytes in files stay below 2^62 and a snapshot below 2^30 bytes, so that no
  64-bit sum and no 32-bit length wraps; those on appends that the data is shorter than 2^32 bytes, which the 32-bit
  sizes of the code need. A crash is taken between two calls of the file system, after a sync that returned; the mount is
  read-only, with one metadata zone in use. The files are closed, so \<open>Recover\<close> has nothing to do.

  \<^bold>\<open>Not modelled.\<close> Threads: the operations run one after the other, and waiting for something that nobody can provide
  is an abort. Logging, metrics, statistics (\<open>LogZoneStats\<close>, \<open>LogZoneUsage\<close>, \<open>LogGarbageInfo\<close>, \<open>GetZoneSnapshot\<close>),
  text output (\<open>EncodeJson\<close>, \<open>GetReport\<close>) and the calls that only forward to the auxiliary file system. The PCI and
  identification strings of the controller. The branch for \<open>PARA_ZNS = 0\<close> and the backup copy of \<open>fairness.c\<close>, which are not
  compiled. FEMU, libzbd, the operating system and the rest of RocksDB: the code relies on them, and what it relies on is an
  argument or a named hypothesis. The direct and sparse appends, renaming, linking, MkFS and migration are modelled; no
  theorem here states more of them than the lemmas of their theories.
\<close>

end
